(* ===== verification/Prelude.thy ===== *)
theory Prelude
  imports Main "HOL-Library.Word"
begin

text \<open>
  Shared vocabulary of the development: the faults a run of the C++ program can end in, the
  result type and its sequencing operator, pointers, the collections of rewrite rules the
  component theories add to, and generic facts on words and lists.
\<close>

unbundle bit_operations_syntax

section \<open>Faults and results\<close>

text \<open>
  Each way in which a call can fail to return normally is a value of \<open>fault\<close>:
  \<^item> \<open>NullDeref\<close>: a null pointer is dereferenced (undefined behaviour in C++);
  \<^item> \<open>OutOfRange\<close>: \<^verbatim>\<open>std::array::at\<close> throws inside a \<^verbatim>\<open>noexcept\<close> function or a thread function,
    so the process terminates;
  \<^item> \<open>OutOfBounds\<close>: \<^verbatim>\<open>operator[]\<close>, or an access through a pointer it produced, leaves the container
    (undefined behaviour);
  \<^item> \<open>AssertFailed\<close>: \<^verbatim>\<open>ASSERT\<close> or \<^verbatim>\<open>FATAL\<close> of macros.h exits the process;
  \<^item> \<open>SignedOverflow\<close>: a signed multiplication or negation leaves its type (undefined behaviour);
  \<^item> \<open>OverlappingCopy\<close>: \<^verbatim>\<open>memcpy\<close> between regions that overlap (undefined behaviour);
  \<^item> \<open>Diverges\<close>: a loop over a linked structure does not reach its exit.
\<close>

datatype fault = NullDeref | OutOfRange | OutOfBounds | AssertFailed | SignedOverflow
  | OverlappingCopy | Diverges

type_synonym 'a res = "fault + 'a"

definition bindE :: "'a res \<Rightarrow> ('a \<Rightarrow> 'b res) \<Rightarrow> 'b res" where
  "bindE m f = (case m of Inl e \<Rightarrow> Inl e | Inr x \<Rightarrow> f x)"

definition assertE :: "bool \<Rightarrow> unit res" where
  "assertE b = (if b then Inr () else Inl AssertFailed)"

named_theorems res_simps \<open>sequencing of results\<close>
named_theorems defs \<open>definitions of the non-recursive operations of the model\<close>

lemma bindE_Inl [simp]: "bindE (Inl e) f = Inl e"
  by (simp add: bindE_def)

lemma bindE_Inr [simp]: "bindE (Inr x) f = f x"
  by (simp add: bindE_def)

lemma assertE_simps [simp]: "assertE True = Inr ()" "assertE False = Inl AssertFailed"
  by (simp_all add: assertE_def)

lemma bindE_eq_Inr [res_simps]: "bindE m f = Inr y \<longleftrightarrow> (\<exists>x. m = Inr x \<and> f x = Inr y)"
  by (cases m) auto

lemma bindE_eq_Inl [res_simps]:
  "bindE m f = Inl e \<longleftrightarrow> m = Inl e \<or> (\<exists>x. m = Inr x \<and> f x = Inl e)"
  by (cases m) auto

lemma assertE_eq [res_simps]: "assertE b = Inr u \<longleftrightarrow> b" "assertE b = Inl e \<longleftrightarrow> \<not> b \<and> e = AssertFailed"
  by (auto simp: assertE_def)

lemma bindE_assoc: "bindE (bindE m f) g = bindE m (\<lambda>x. bindE (f x) g)"
  by (cases m) auto

lemma bindE_cong [fundef_cong]:
  "m = n \<Longrightarrow> (\<And>x. n = Inr x \<Longrightarrow> f x = g x) \<Longrightarrow> bindE m f = bindE n g"
  by (cases n) auto

text \<open>A loop body run over a list, stopping at the first fault.\<close>

fun foldE :: "('a \<Rightarrow> 's \<Rightarrow> 's res) \<Rightarrow> 'a list \<Rightarrow> 's \<Rightarrow> 's res" where
  "foldE f [] s = Inr s"
| "foldE f (x # xs) s = bindE (f x s) (foldE f xs)"

lemma foldE_append: "foldE f (xs @ ys) s = bindE (foldE f xs s) (foldE f ys)"
  by (induction xs arbitrary: s) (auto simp: bindE_assoc intro: bindE_cong)

lemma foldE_invariant:
  assumes "foldE f xs s = Inr t" and "P s"
    and "\<And>x s s'. x \<in> set xs \<Longrightarrow> P s \<Longrightarrow> f x s = Inr s' \<Longrightarrow> P s'"
  shows "P t"
  using assms by (induction xs arbitrary: s) (auto simp: res_simps)


section \<open>Pointers\<close>

text \<open>
  A pointer into a memory pool is the number of its block, \<open>None\<close> is \<^verbatim>\<open>nullptr\<close>. Following a
  pointer is \<open>deref\<close>; the fields of the block are then read from the pool.
\<close>

type_synonym ptr = "nat option"

definition deref :: "ptr \<Rightarrow> nat res" where
  "deref p = (case p of None \<Rightarrow> Inl NullDeref | Some i \<Rightarrow> Inr i)"

lemma deref_simps [simp]: "deref None = Inl NullDeref" "deref (Some i) = Inr i"
  by (simp_all add: deref_def)

lemma deref_eq_Inr [res_simps]: "deref p = Inr i \<longleftrightarrow> p = Some i"
  by (cases p) auto

lemma deref_eq_Inl [res_simps]: "deref p = Inl e \<longleftrightarrow> p = None \<and> e = NullDeref"
  by (cases p) auto

text \<open>The first element of a list as a pointer.\<close>

definition head_ptr :: "nat list \<Rightarrow> ptr" where
  "head_ptr xs = (case xs of [] \<Rightarrow> None | x # _ \<Rightarrow> Some x)"

lemma head_ptr_simps [simp]: "head_ptr [] = None" "head_ptr (x # xs) = Some x"
  by (simp_all add: head_ptr_def)

lemma head_ptr_eq_None [simp]: "head_ptr xs = None \<longleftrightarrow> xs = []"
  by (cases xs) auto

lemma head_ptr_conv: "xs \<noteq> [] \<Longrightarrow> head_ptr xs = Some (hd xs)"
  by (cases xs) auto


text \<open>\<^verbatim>\<open>std::array::at\<close> on an array of \<open>n\<close> elements, for reading and for assignment.\<close>

definition array_at :: "nat \<Rightarrow> (nat \<Rightarrow> 'a) \<Rightarrow> nat \<Rightarrow> 'a res" where
  "array_at n a i = (if i < n then Inr (a i) else Inl OutOfRange)"

definition array_put :: "nat \<Rightarrow> (nat \<Rightarrow> 'a) \<Rightarrow> nat \<Rightarrow> 'a \<Rightarrow> (nat \<Rightarrow> 'a) res" where
  "array_put n a i v = (if i < n then Inr (a(i := v)) else Inl OutOfRange)"

text \<open>\<^verbatim>\<open>operator[]\<close> on such an array: no check, so an index outside is undefined behaviour.\<close>

definition array_idx :: "nat \<Rightarrow> (nat \<Rightarrow> 'a) \<Rightarrow> nat \<Rightarrow> 'a res" where
  "array_idx n a i = (if i < n then Inr (a i) else Inl OutOfBounds)"

lemma array_simps [simp]:
  "i < n \<Longrightarrow> array_at n a i = Inr (a i)" "i < n \<Longrightarrow> array_put n a i v = Inr (a(i := v))"
  "i < n \<Longrightarrow> array_idx n a i = Inr (a i)"
  "\<not> i < n \<Longrightarrow> array_at n a i = Inl OutOfRange" "\<not> i < n \<Longrightarrow> array_put n a i v = Inl OutOfRange"
  "\<not> i < n \<Longrightarrow> array_idx n a i = Inl OutOfBounds"
  by (simp_all add: array_at_def array_put_def array_idx_def)

text \<open>A list that is split by a test.\<close>

lemma takeWhile_dropWhile_split:
  assumes "\<forall>y \<in> set as. P y" and "\<forall>y \<in> set bs. \<not> P y"
  shows "takeWhile P (as @ bs) = as" "dropWhile P (as @ bs) = bs"
proof -
  have "takeWhile P bs = []" "dropWhile P bs = bs" using assms(2) by (cases bs; simp)+
  then show "takeWhile P (as @ bs) = as" "dropWhile P (as @ bs) = bs"
    using assms(1) by (simp_all add: takeWhile_append2 dropWhile_append2)
qed


section \<open>Machine words\<close>

type_synonym u8 = "8 word"
type_synonym u32 = "32 word"
type_synonym u64 = "64 word"

text \<open>
  \<^verbatim>\<open>x & (n - 1)\<close> for a power of two \<open>n\<close>, the fast modulo of the queue and of the memory pool.
\<close>

definition is_pow2 :: "u64 \<Rightarrow> bool" where
  "is_pow2 n \<longleftrightarrow> (\<exists>k < 64. n = 2 ^ k)"

lemma pow2_minus_1_mask: "(2 ^ k - 1 :: u64) = mask k"
  by (simp add: mask_eq_exp_minus_1)

lemma unat_pow2: "k < 64 \<Longrightarrow> unat (2 ^ k :: u64) = 2 ^ k"
proof -
  assume "k < 64"
  then have "uint (2 ^ k :: u64) = 2 ^ k"
    by (intro uint_2p) (simp add: word_neq_0_conv [symmetric] del: word_neq_0_conv)
  then show ?thesis by (simp only: unat_eq_nat_uint) (simp add: nat_power_eq)
qed

lemma and_pow2_unat:
  assumes "is_pow2 n"
  shows "unat (x AND (n - 1)) = unat x mod unat n"
proof -
  from assms obtain k where k: "k < 64" "n = 2 ^ k" by (auto simp: is_pow2_def)
  have "unat (x AND (n - 1)) = unat (take_bit k x)"
    using k by (simp add: pow2_minus_1_mask take_bit_eq_mask)
  also have "\<dots> = unat x mod 2 ^ k"
    by (simp only: unsigned_take_bit_eq) (simp add: take_bit_eq_mod)
  also have "2 ^ k = unat n" using k by (simp add: unat_pow2)
  finally show ?thesis .
qed


lemma word_less_succ:
  fixes w :: "'a::len word"
  assumes "w \<noteq> - 1"
  shows "w < w + 1"
proof -
  have "1 + w \<noteq> 0" using assms by (metis add.commute eq_neg_iff_add_eq_0)
  then have "unat (1 + w) = Suc (unat w)" by (rule unatSuc)
  then show ?thesis by (simp add: word_less_nat_alt add.commute)
qed

end
