(* ===== verification/LFQueue.thy ===== *)
theory LFQueue
  imports Prelude
begin

text \<open>
  The single producer, single consumer queue of Common Files/lf_queue.h: its operations, the list of
  elements it stands for, the interface its users rely on, and the interleavings of its two threads.
\<close>

section \<open>The queue and its operations\<close>

record 'a LFQueue =
  qstore :: "nat \<Rightarrow> 'a"
  qsize :: u64
  write_pos :: u64
  read_pos :: u64

definition LFQueue_init :: "'a \<Rightarrow> u64 \<Rightarrow> 'a LFQueue res" where
  "LFQueue_init dflt num_elems =
     bindE (assertE (num_elems AND (num_elems - 1) = 0))
       (\<lambda>_. Inr \<lparr>qstore = (\<lambda>_. dflt), qsize = num_elems, write_pos = 0, read_pos = 0\<rparr>)"

text \<open>The two functions that return an element's address return its index, \<open>None\<close> for null.\<close>

definition getNextToWriteTo :: "'a LFQueue \<Rightarrow> ptr" where
  "getNextToWriteTo q =
     (let current_write = write_pos q;
          next_write = (current_write + 1) AND (qsize q - 1)
      in if next_write = read_pos q then None else Some (unat current_write))"

definition updateWriteIndex :: "'a LFQueue \<Rightarrow> bool \<times> 'a LFQueue" where
  "updateWriteIndex q = (True, q\<lparr>write_pos := write_pos q + 1\<rparr>)"

definition getNextToRead :: "'a LFQueue \<Rightarrow> ptr" where
  "getNextToRead q = (if read_pos q = write_pos q then None else Some (unat (read_pos q)))"

definition updateReadIndex :: "'a LFQueue \<Rightarrow> bool \<times> 'a LFQueue" where
  "updateReadIndex q =
     (if read_pos q = write_pos q then (False, q) else (True, q\<lparr>read_pos := read_pos q + 1\<rparr>))"

definition lfq_size :: "'a LFQueue \<Rightarrow> u64" where
  "lfq_size q = (write_pos q - read_pos q) AND (qsize q - 1)"

text \<open>Writing and reading through an element's address, \<^verbatim>\<open>*next_write = x\<close> and \<^verbatim>\<open>*next\<close>.\<close>

definition write_elem :: "ptr \<Rightarrow> 'a \<Rightarrow> 'a LFQueue \<Rightarrow> 'a LFQueue res" where
  "write_elem p x q =
     bindE (deref p) (\<lambda>i. if i < unat (qsize q) then Inr (q\<lparr>qstore := (qstore q)(i := x)\<rparr>) else Inl OutOfBounds)"

definition read_elem :: "ptr \<Rightarrow> 'a LFQueue \<Rightarrow> 'a res" where
  "read_elem p q =
     bindE (deref p) (\<lambda>i. if i < unat (qsize q) then Inr (qstore q i) else Inl OutOfBounds)"

text \<open>
  Every producer of the system writes the same three lines: take the next slot, assign to it, advance
  the write index. The slot is never compared with null.
\<close>

definition lfq_write :: "'a \<Rightarrow> 'a LFQueue \<Rightarrow> 'a LFQueue res" where
  "lfq_write x q = bindE (write_elem (getNextToWriteTo q) x q) (\<lambda>q'. Inr (snd (updateWriteIndex q')))"


section \<open>The list of elements\<close>

definition contents :: "'a LFQueue \<Rightarrow> 'a list" where
  "contents q = map (qstore q) [unat (read_pos q)..<unat (write_pos q)]"

text \<open>
  The positions are never reduced modulo the size, so a queue serves at most \<open>qsize\<close> writes in its
  life. Within that life it is in order when the positions satisfy \<open>lfq_ok\<close>, and \<open>lfq_room\<close> counts
  the writes still possible without a read.
\<close>

definition lfq_ok :: "'a LFQueue \<Rightarrow> bool" where
  "lfq_ok q \<longleftrightarrow> is_pow2 (qsize q) \<and> unat (read_pos q) \<le> unat (write_pos q)
     \<and> unat (write_pos q) \<le> unat (qsize q)
     \<and> unat (write_pos q) - unat (read_pos q) < unat (qsize q)"

definition lfq_room :: "'a LFQueue \<Rightarrow> nat" where
  "lfq_room q = (if read_pos q = 0 then unat (qsize q) - 1 - unat (write_pos q)
                 else unat (qsize q) - unat (write_pos q))"

lemma is_pow2_16: "is_pow2 16"
  unfolding is_pow2_def by (rule exI [of _ 4]) simp

lemma pow2_bound: "is_pow2 n \<Longrightarrow> 0 < unat n \<and> unat n \<le> 2 ^ 63"
proof -
  assume "is_pow2 n"
  then obtain k where k: "k < 64" "n = 2 ^ k" by (auto simp: is_pow2_def)
  then have "(2::nat) ^ k \<le> 2 ^ 63" by (intro power_increasing) auto
  with k show ?thesis by (simp add: unat_pow2)
qed

lemma unat_Suc: "unat (w :: u64) \<le> 2 ^ 63 \<Longrightarrow> unat (w + 1) = Suc (unat w)"
  by (subst unat_add_lem [THEN iffD1]) auto

lemma lfq_ok_bounds:
  "lfq_ok q \<Longrightarrow> unat (qsize q) \<le> 2 ^ 63 \<and> unat (write_pos q) \<le> 2 ^ 63 \<and> unat (read_pos q) \<le> 2 ^ 63"
  using pow2_bound [of "qsize q"] by (auto simp: lfq_ok_def)

text \<open>The slot the producer gets, in terms of the positions.\<close>

lemma getNextToWriteTo_ok:
  assumes "lfq_ok q" and "0 < lfq_room q"
  shows "getNextToWriteTo q = Some (unat (write_pos q)) \<and> unat (write_pos q) < unat (qsize q)"
proof -
  let ?w = "unat (write_pos q)" and ?r = "unat (read_pos q)" and ?n = "unat (qsize q)"
  have "?w < ?n" using assms(2) by (auto simp: lfq_room_def split: if_splits)
  have nw: "unat ((write_pos q + 1) AND (qsize q - 1)) = Suc ?w mod ?n"
    using assms(1) lfq_ok_bounds [OF assms(1)] by (simp add: and_pow2_unat lfq_ok_def unat_Suc)
  have "(write_pos q + 1) AND (qsize q - 1) \<noteq> read_pos q"
  proof
    assume "(write_pos q + 1) AND (qsize q - 1) = read_pos q"
    with nw have eq: "?r = Suc ?w mod ?n" by simp
    show False
    proof (cases "Suc ?w < ?n")
      case True
      then show False using eq assms(1) by (simp add: lfq_ok_def)
    next
      case False
      with \<open>?w < ?n\<close> have "Suc ?w = ?n" by simp
      then have "?r = 0" using eq by simp
      then have "read_pos q = 0" by (simp add: unat_eq_zero)
      then show False using assms(2) \<open>Suc ?w = ?n\<close> by (simp add: lfq_room_def)
    qed
  qed
  with \<open>?w < ?n\<close> show ?thesis by (simp add: getNextToWriteTo_def Let_def)
qed

lemma lfq_write_ok:
  assumes "lfq_ok q" and "0 < lfq_room q"
  shows "\<exists>q'. lfq_write x q = Inr q' \<and> lfq_ok q' \<and> contents q' = contents q @ [x]
           \<and> lfq_room q' = lfq_room q - 1 \<and> read_pos q' = read_pos q \<and> qsize q' = qsize q"
proof -
  let ?w = "unat (write_pos q)" and ?r = "unat (read_pos q)" and ?n = "unat (qsize q)"
  let ?q = "q\<lparr>qstore := (qstore q)(?w := x), write_pos := write_pos q + 1\<rparr>"
  note g = getNextToWriteTo_ok [OF assms]
  have suc: "unat (write_pos q + 1) = Suc ?w" using lfq_ok_bounds [OF assms(1)] unat_Suc by blast
  have r0: "read_pos q = 0 \<longleftrightarrow> ?r = 0" by (simp add: unat_eq_zero)
  have "lfq_write x q = Inr ?q" using g by (simp add: lfq_write_def write_elem_def updateWriteIndex_def)
  moreover have "lfq_ok ?q"
    using assms g suc r0 by (auto simp: lfq_ok_def lfq_room_def split: if_splits)
  moreover have "contents ?q = contents q @ [x]"
    using assms(1) suc by (simp add: contents_def lfq_ok_def)
  moreover have "lfq_room ?q = lfq_room q - 1" using suc by (simp add: lfq_room_def)
  ultimately show ?thesis by auto
qed

lemma lfq_read_ok:
  assumes "lfq_ok q" and "contents q = x # xs"
  shows "read_elem (getNextToRead q) q = Inr x"
    and "\<exists>q'. updateReadIndex q = (True, q') \<and> lfq_ok q' \<and> contents q' = xs \<and> lfq_room q \<le> lfq_room q'
           \<and> write_pos q' = write_pos q"
proof -
  let ?w = "unat (write_pos q)" and ?r = "unat (read_pos q)"
  have lt: "?r < ?w" using assms(2) by (cases "?r < ?w") (auto simp: contents_def)
  then have ne: "read_pos q \<noteq> write_pos q" by auto
  have up: "[?r..<?w] = ?r # [Suc ?r..<?w]" using lt by (simp add: upt_conv_Cons)
  have suc: "unat (read_pos q + 1) = Suc ?r" using lfq_ok_bounds [OF assms(1)] unat_Suc by blast
  then have nz: "read_pos q + 1 \<noteq> 0" by (metis nat.distinct(1) unat_0)
  show "read_elem (getNextToRead q) q = Inr x"
    using assms ne lt up by (auto simp: read_elem_def getNextToRead_def contents_def lfq_ok_def)
  show "\<exists>q'. updateReadIndex q = (True, q') \<and> lfq_ok q' \<and> contents q' = xs \<and> lfq_room q \<le> lfq_room q'
           \<and> write_pos q' = write_pos q"
    using assms ne lt up suc nz
    by (auto simp: updateReadIndex_def lfq_ok_def contents_def lfq_room_def)
qed

lemma getNextToRead_None: "getNextToRead q = None \<longleftrightarrow> read_pos q = write_pos q"
  by (simp add: getNextToRead_def)

lemma lfq_empty_iff: "lfq_ok q \<Longrightarrow> getNextToRead q = None \<longleftrightarrow> contents q = []"
  by (auto simp: getNextToRead_def contents_def lfq_ok_def word_unat_eq_iff)

lemma lfq_size_ok: "lfq_ok q \<Longrightarrow> unat (lfq_size q) = length (contents q)"
proof -
  assume ok: "lfq_ok q"
  then have "unat (write_pos q - read_pos q) = unat (write_pos q) - unat (read_pos q)"
    by (intro unat_sub) (simp add: lfq_ok_def word_le_nat_alt)
  with ok show ?thesis by (simp add: lfq_size_def and_pow2_unat lfq_ok_def contents_def)
qed

text \<open>After \<open>qsize\<close> writes the queue is used up: every further write faults.\<close>

lemma lfq_write_used_up:
  assumes "unat (write_pos q) = unat (qsize q)"
  shows "lfq_write x q = Inl NullDeref \<or> lfq_write x q = Inl OutOfBounds"
  using assms by (auto simp: lfq_write_def write_elem_def getNextToWriteTo_def Let_def)

lemma lfq_init_ok:
  assumes "is_pow2 n"
  shows "\<exists>q. LFQueue_init d n = Inr q \<and> lfq_ok q \<and> contents q = [] \<and> lfq_room q = unat n - 1"
proof -
  have "unat (n AND (n - 1)) = 0" using assms by (simp add: and_pow2_unat)
  then have "n AND (n - 1) = 0" by (simp add: unat_eq_zero)
  with assms pow2_bound [OF assms] show ?thesis
    by (auto simp: LFQueue_init_def lfq_ok_def contents_def lfq_room_def)
qed


section \<open>The interface its users rely on\<close>

text \<open>
  A bounded queue as its producers and consumers see it. \<open>elems\<close> is the list of elements,
  \<open>room\<close> a number of writes that are sure to succeed.
\<close>

locale bounded_fifo =
  fixes ok :: "'q \<Rightarrow> bool"
    and elems :: "'q \<Rightarrow> 'a list"
    and room :: "'q \<Rightarrow> nat"
    and push :: "'a \<Rightarrow> 'q \<Rightarrow> 'q res"
    and front :: "'q \<Rightarrow> 'a res"
    and pop :: "'q \<Rightarrow> 'q"
  assumes push_ok: "ok q \<Longrightarrow> 0 < room q \<Longrightarrow>
      \<exists>q'. push x q = Inr q' \<and> ok q' \<and> elems q' = elems q @ [x] \<and> room q' = room q - 1"
    and front_ok: "ok q \<Longrightarrow> elems q = x # xs \<Longrightarrow> front q = Inr x"
    and pop_ok: "ok q \<Longrightarrow> elems q = x # xs \<Longrightarrow> ok (pop q) \<and> elems (pop q) = xs \<and> room q \<le> room (pop q)"
begin

text \<open>A producer that has room for a batch writes all of it, in order.\<close>

lemma push_all:
  assumes "ok q" and "length xs \<le> room q"
  shows "\<exists>q'. foldE push xs q = Inr q' \<and> ok q' \<and> elems q' = elems q @ xs \<and> room q' = room q - length xs"
  using assms
proof (induction xs arbitrary: q)
  case (Cons x xs)
  from push_ok [of q x] Cons.prems obtain q1 where q1:
    "push x q = Inr q1" "ok q1" "elems q1 = elems q @ [x]" "room q1 = room q - 1" by auto
  moreover have "length xs \<le> room q1" using Cons.prems q1 by simp
  ultimately obtain q' where "foldE push xs q1 = Inr q'" "ok q'" "elems q' = elems q1 @ xs"
    "room q' = room q1 - length xs" using Cons.IH by blast
  with q1 show ?case by auto
qed simp

text \<open>A consumer that pops while there are elements reads them in the order they were written.\<close>

lemma front_pops:
  assumes "ok q" and "elems q = xs @ ys"
  shows "ok ((pop ^^ length xs) q) \<and> elems ((pop ^^ length xs) q) = ys
    \<and> room q \<le> room ((pop ^^ length xs) q)
    \<and> (\<forall>i < length xs. front ((pop ^^ i) q) = Inr (xs ! i))"
  using assms
proof (induction xs arbitrary: q)
  case (Cons x xs)
  have p: "ok (pop q)" "elems (pop q) = xs @ ys" "room q \<le> room (pop q)" and f: "front q = Inr x"
    using pop_ok front_ok Cons.prems by auto
  have "(pop ^^ length (x # xs)) q = (pop ^^ length xs) (pop q)" by (simp add: funpow_swap1)
  moreover have "front ((pop ^^ i) q) = Inr ((x # xs) ! i)" if "i < length (x # xs)" for i
    using that f Cons.IH [OF p(1,2)] by (cases i) (auto simp: funpow_swap1)
  ultimately show ?case using Cons.IH [OF p(1,2)] p(3) by auto
qed simp

end

interpretation lfq: bounded_fifo lfq_ok contents lfq_room lfq_write
  "\<lambda>q. read_elem (getNextToRead q) q" "\<lambda>q. snd (updateReadIndex q)"
proof
  show "\<exists>q'. lfq_write x q = Inr q' \<and> lfq_ok q' \<and> contents q' = contents q @ [x] \<and> lfq_room q' = lfq_room q - 1"
    if "lfq_ok q" "0 < lfq_room q" for q :: "'a LFQueue" and x
    using lfq_write_ok [OF that] by blast
  show "read_elem (getNextToRead q) q = Inr x" if "lfq_ok q" "contents q = x # xs"
    for q :: "'a LFQueue" and x xs
    using lfq_read_ok(1) [OF that] .
  show "lfq_ok (snd (updateReadIndex q)) \<and> contents (snd (updateReadIndex q)) = xs
        \<and> lfq_room q \<le> lfq_room (snd (updateReadIndex q))"
    if "lfq_ok q" "contents q = x # xs" for q :: "'a LFQueue" and x xs
    using lfq_read_ok(2) [OF that] by auto
qed

end
