(* ===== verification/LFQueue_Threads.thy ===== *)
theory LFQueue_Threads
  imports LFQueue
begin

text \<open>
  The producer thread and the consumer thread of a lock free queue, interleaved. A thread runs the
  source's lines one access at a time: the producer takes the address of the next slot, assigns to
  it, and advances the write index; the consumer takes the address of the next element, reads it,
  and advances the read index. The release and acquire orders of the two positions make their
  accesses appear in this order, so the interleavings are those of single steps.
\<close>

datatype 'a producer = PIdle | PClaimed nat 'a | PStored nat 'a
datatype 'a consumer = CIdle | CClaimed nat | CLoaded nat 'a

record 'a spsc =
  chan :: "'a LFQueue"
  prod :: "'a producer"
  cons :: "'a consumer"
  sent :: "'a list"
  rcvd :: "'a list"

definition spsc_init :: "'a \<Rightarrow> u64 \<Rightarrow> 'a spsc res" where
  "spsc_init d n =
     bindE (LFQueue_init d n) (\<lambda>q. Inr \<lparr>chan = q, prod = PIdle, cons = CIdle, sent = [], rcvd = []\<rparr>)"

inductive spsc_step :: "'a spsc \<Rightarrow> 'a spsc \<Rightarrow> bool" where
  claim_slot: "prod s = PIdle \<Longrightarrow> getNextToWriteTo (chan s) = Some i
     \<Longrightarrow> spsc_step s (s\<lparr>prod := PClaimed i x\<rparr>)"
| store_elem: "prod s = PClaimed i x \<Longrightarrow> write_elem (Some i) x (chan s) = Inr q
     \<Longrightarrow> spsc_step s (s\<lparr>chan := q, prod := PStored i x\<rparr>)"
| commit_write: "prod s = PStored i x
     \<Longrightarrow> spsc_step s (s\<lparr>chan := snd (updateWriteIndex (chan s)), prod := PIdle, sent := sent s @ [x]\<rparr>)"
| claim_elem: "cons s = CIdle \<Longrightarrow> getNextToRead (chan s) = Some i
     \<Longrightarrow> spsc_step s (s\<lparr>cons := CClaimed i\<rparr>)"
| load_elem: "cons s = CClaimed i \<Longrightarrow> read_elem (Some i) (chan s) = Inr x
     \<Longrightarrow> spsc_step s (s\<lparr>cons := CLoaded i x\<rparr>)"
| commit_read: "cons s = CLoaded i x
     \<Longrightarrow> spsc_step s (s\<lparr>chan := snd (updateReadIndex (chan s)), cons := CIdle, rcvd := rcvd s @ [x]\<rparr>)"

inductive spsc_reachable :: "u64 \<Rightarrow> 'a spsc \<Rightarrow> bool" for n where
  start: "spsc_init d n = Inr s \<Longrightarrow> spsc_reachable n s"
| step: "spsc_reachable n s \<Longrightarrow> spsc_step s t \<Longrightarrow> spsc_reachable n t"

inductive_simps spsc_step_simps: "spsc_step s t"

text \<open>
  The invariant: the positions are in order and the read position counts what was received, what was
  sent is what was received followed by what is stored, a claimed slot is the one at the write position, a claimed element the one at the read
  position, and what a thread holds is what its slot holds.
\<close>

definition prod_ok :: "'a spsc \<Rightarrow> bool" where
  "prod_ok s \<longleftrightarrow> (case prod s of
      PIdle \<Rightarrow> True
    | PClaimed i x \<Rightarrow> i = unat (write_pos (chan s))
    | PStored i x \<Rightarrow> i = unat (write_pos (chan s)) \<and> i < unat (qsize (chan s)) \<and> qstore (chan s) i = x)"

definition cons_ok :: "'a spsc \<Rightarrow> bool" where
  "cons_ok s \<longleftrightarrow> (case cons s of
      CIdle \<Rightarrow> True
    | CClaimed i \<Rightarrow> i = unat (read_pos (chan s)) \<and> i < unat (write_pos (chan s))
    | CLoaded i x \<Rightarrow> i = unat (read_pos (chan s)) \<and> i < unat (write_pos (chan s)) \<and> qstore (chan s) i = x)"

definition spsc_inv :: "'a spsc \<Rightarrow> bool" where
  "spsc_inv s \<longleftrightarrow> is_pow2 (qsize (chan s))
     \<and> unat (read_pos (chan s)) \<le> unat (write_pos (chan s))
     \<and> unat (write_pos (chan s)) \<le> unat (qsize (chan s))
     \<and> sent s = rcvd s @ contents (chan s) \<and> length (rcvd s) = unat (read_pos (chan s))
     \<and> prod_ok s \<and> cons_ok s"

lemmas spsc_defs = spsc_inv_def prod_ok_def cons_ok_def

lemma spsc_inv_init:
  assumes "spsc_init d n = Inr s" and "is_pow2 n"
  shows "spsc_inv s"
  using assms by (auto simp: spsc_init_def LFQueue_init_def spsc_defs contents_def res_simps)

lemma spsc_inv_bounds:
  "spsc_inv s \<Longrightarrow> unat (write_pos (chan s) + 1) = Suc (unat (write_pos (chan s)))
     \<and> unat (read_pos (chan s) + 1) = Suc (unat (read_pos (chan s)))"
  using pow2_bound [of "qsize (chan s)"] unat_Suc [of "write_pos (chan s)"] unat_Suc [of "read_pos (chan s)"]
  by (auto simp: spsc_inv_def)

lemma contents_store_at_end: "unat (write_pos q) \<le> i \<Longrightarrow> contents (q\<lparr>qstore := (qstore q)(i := x)\<rparr>) = contents q"
  by (simp add: contents_def)

lemma spsc_step_inv: "spsc_step s t \<Longrightarrow> spsc_inv s \<Longrightarrow> spsc_inv t"
proof (induction rule: spsc_step.induct)
  case (claim_slot s i x)
  then show ?case
    by (auto simp: spsc_defs getNextToWriteTo_def Let_def split: if_splits consumer.splits)
next
  case (store_elem s i x q)
  then have q: "q = (chan s)\<lparr>qstore := (qstore (chan s))(i := x)\<rparr>" "i < unat (qsize (chan s))"
    by (auto simp: write_elem_def split: if_splits)
  with store_elem show ?case
    by (auto simp: spsc_defs contents_store_at_end split: consumer.splits)
next
  case (commit_write s i x)
  then show ?case
    using spsc_inv_bounds [of s]
    by (auto simp: spsc_defs updateWriteIndex_def contents_def split: consumer.splits)
next
  case (claim_elem s i)
  then show ?case
    by (auto simp: spsc_defs getNextToRead_def word_unat_eq_iff split: if_splits producer.splits)
next
  case (load_elem s i x)
  then show ?case by (auto simp: spsc_defs read_elem_def split: if_splits producer.splits)
next
  case (commit_read s i x)
  then have "[unat (read_pos (chan s))..<unat (write_pos (chan s))]
      = i # [Suc i..<unat (write_pos (chan s))]" by (simp add: spsc_defs upt_conv_Cons)
  with commit_read show ?case
    using spsc_inv_bounds [of s]
    by (auto simp: spsc_defs updateReadIndex_def contents_def split: producer.splits)
qed

lemma spsc_reachable_inv: "spsc_reachable n s \<Longrightarrow> is_pow2 n \<Longrightarrow> spsc_inv s"
  by (induction rule: spsc_reachable.induct) (auto intro: spsc_inv_init spsc_step_inv)

lemma spsc_sent_count: "spsc_inv s \<Longrightarrow> length (sent s) = unat (write_pos (chan s))"
  by (auto simp: spsc_inv_def contents_def)

text \<open>No state of the two threads changes the size the queue was created with.\<close>

lemma spsc_step_size: "spsc_step s t \<Longrightarrow> qsize (chan t) = qsize (chan s)"
  by (induction rule: spsc_step.induct)
     (auto simp: write_elem_def updateWriteIndex_def updateReadIndex_def split: if_splits)

lemma spsc_reachable_size: "spsc_reachable n s \<Longrightarrow> qsize (chan s) = n"
  by (induction rule: spsc_reachable.induct)
     (auto simp: spsc_step_size spsc_init_def LFQueue_init_def res_simps)

text \<open>The slot a producer holds and the element a consumer holds are different ones.\<close>

definition holds_slot :: "'a producer \<Rightarrow> nat \<Rightarrow> bool" where
  "holds_slot p i \<longleftrightarrow> (case p of PIdle \<Rightarrow> False | PClaimed j x \<Rightarrow> i = j | PStored j x \<Rightarrow> i = j)"

definition holds_elem :: "'a consumer \<Rightarrow> nat \<Rightarrow> bool" where
  "holds_elem c i \<longleftrightarrow> (case c of CIdle \<Rightarrow> False | CClaimed j \<Rightarrow> i = j | CLoaded j x \<Rightarrow> i = j)"

lemma spsc_inv_disjoint: "spsc_inv s \<Longrightarrow> holds_slot (prod s) i \<Longrightarrow> \<not> holds_elem (cons s) i"
  by (auto simp: spsc_defs holds_slot_def holds_elem_def split: producer.splits consumer.splits)

text \<open>A whole round of the producer and of the consumer, with the other thread standing still.\<close>

lemma spsc_send:
  assumes "spsc_reachable n s" "prod s = PIdle" "getNextToWriteTo (chan s) = Some i"
    and "write_elem (Some i) x (chan s) = Inr q"
  shows "spsc_reachable n (s\<lparr>chan := snd (updateWriteIndex q), prod := PIdle, sent := sent s @ [x]\<rparr>)"
proof -
  let ?s1 = "s\<lparr>prod := PClaimed i x\<rparr>"
  let ?s2 = "?s1\<lparr>chan := q, prod := PStored i x\<rparr>"
  have "spsc_reachable n ?s1" using assms by (auto intro: spsc_reachable.step claim_slot)
  then have "spsc_reachable n ?s2"
    by (rule spsc_reachable.step, intro store_elem) (use assms in simp_all)
  from spsc_reachable.step [OF this commit_write [of ?s2 i x]] show ?thesis by simp
qed

lemma spsc_receive:
  assumes "spsc_reachable n s" "cons s = CIdle" "getNextToRead (chan s) = Some i"
    and "read_elem (Some i) (chan s) = Inr x"
  shows "spsc_reachable n (s\<lparr>chan := snd (updateReadIndex (chan s)), cons := CIdle, rcvd := rcvd s @ [x]\<rparr>)"
proof -
  let ?s1 = "s\<lparr>cons := CClaimed i\<rparr>"
  let ?s2 = "?s1\<lparr>cons := CLoaded i x\<rparr>"
  have "spsc_reachable n ?s1" using assms by (auto intro: spsc_reachable.step claim_elem)
  then have "spsc_reachable n ?s2"
    by (rule spsc_reachable.step, intro load_elem) (use assms in simp_all)
  from spsc_reachable.step [OF this commit_read [of ?s2 i x]] show ?thesis by simp
qed

text \<open>Two elements through a queue of two slots, and the producer about to send the third.\<close>

definition spsc_two :: "nat spsc" where
  "spsc_two = \<lparr>chan = \<lparr>qstore = (\<lambda>_. 0)(0 := 7, 1 := 8), qsize = 2, write_pos = 2, read_pos = 2\<rparr>,
     prod = PClaimed 2 9, cons = CIdle, sent = [7, 8], rcvd = [7, 8]\<rparr>"

lemma spsc_two_reachable: "spsc_reachable 2 spsc_two"
proof -
  note d = updateWriteIndex_def updateReadIndex_def write_elem_def read_elem_def getNextToWriteTo_def
    getNextToRead_def
  let ?s = "\<lambda>st w r a b. \<lparr>chan = \<lparr>qstore = st, qsize = 2, write_pos = w, read_pos = r\<rparr>,
     prod = PIdle, cons = CIdle, sent = a, rcvd = b\<rparr> :: nat spsc"
  let ?z = "\<lambda>_::nat. 0::nat"
  have "spsc_reachable 2 (?s ?z 0 0 [] [])"
    by (rule spsc_reachable.start [of 0]) (simp add: spsc_init_def LFQueue_init_def)
  from spsc_send [OF this, of 0 7] have "spsc_reachable 2 (?s (?z(0 := 7)) 1 0 [7] [])" by (simp add: d)
  from spsc_receive [OF this, of 0 7] have "spsc_reachable 2 (?s (?z(0 := 7)) 1 1 [7] [7])" by (simp add: d)
  from spsc_send [OF this, of 1 8] have "spsc_reachable 2 (?s (?z(0 := 7, 1 := 8)) 2 1 [7, 8] [7])"
    by (simp add: d)
  from spsc_receive [OF this, of 1 8] have r: "spsc_reachable 2 (?s (?z(0 := 7, 1 := 8)) 2 2 [7, 8] [7, 8])"
    by (simp add: d)
  from spsc_reachable.step [OF r claim_slot [of _ 2 9]] show ?thesis by (simp add: d spsc_two_def)
qed

lemma pow2_2: "is_pow2 2"
  unfolding is_pow2_def by (rule exI [of _ 1]) simp


section \<open>Properties\<close>

text \<open>C9: in every interleaving of one producer thread and one consumer thread, what the consumer
  received is a prefix of what the producer sent and the rest is in the queue, in order (first in,
  first out, nothing lost or duplicated), and the two threads never hold the same slot.\<close>

theorem spsc_fifo:
  assumes "is_pow2 n" and "spsc_reachable n s"
  shows "sent s = rcvd s @ contents (chan s) \<and> \<not> (holds_slot (prod s) i \<and> holds_elem (cons s) i)"
  using spsc_reachable_inv [OF assms(2,1)] spsc_inv_disjoint [of s i] by (auto simp: spsc_inv_def)

theorem spsc_fifo_witness:
  "spsc_reachable 2 spsc_two \<and> sent spsc_two = rcvd spsc_two @ contents (chan spsc_two) \<and> rcvd spsc_two = [7, 8]"
  using spsc_fifo [OF pow2_2 spsc_two_reachable] spsc_two_reachable by (simp add: spsc_two_def)

text \<open>C22: the producer's slot is inside the queue for the first \<open>n\<close> elements it sends, and outside
  for the next one: the write position is not reduced modulo the size, so storing element \<open>n + 1\<close>
  leaves the vector.\<close>

theorem spsc_store_in_bounds:
  assumes "is_pow2 n" and "spsc_reachable n s" and "prod s = PClaimed i x"
  shows "write_elem (Some i) x (chan s) =
    (if length (sent s) < unat n
     then Inr ((chan s)\<lparr>qstore := (qstore (chan s))(length (sent s) := x)\<rparr>) else Inl OutOfBounds)"
  using spsc_reachable_inv [OF assms(2,1)] spsc_reachable_size [OF assms(2)] assms(3)
    spsc_sent_count [of s]
  by (auto simp: spsc_defs write_elem_def)

theorem spsc_store_in_bounds_witness:
  "spsc_reachable 2 spsc_two \<and> write_elem (Some 2) 9 (chan spsc_two) = Inl OutOfBounds"
  using spsc_store_in_bounds [OF pow2_2 spsc_two_reachable, of 2 9] spsc_two_reachable
  by (simp add: spsc_two_def)

end
