(* ===== verification/Types.thy ===== *)
theory Types
  imports Complex_Main Prelude
begin

text \<open>
  Common Files/types.h: the identifiers and quantities of the system with their invalid values, the
  enumerations, the configuration structures, and their textual forms.
\<close>

section \<open>Decimal numerals, \<^verbatim>\<open>std::to_string\<close>\<close>

definition digit_char :: "nat \<Rightarrow> char" where
  "digit_char d = char_of (48 + d)"

fun show_nat :: "nat \<Rightarrow> string" where
  "show_nat n = (if n < 10 then [digit_char n] else show_nat (n div 10) @ [digit_char (n mod 10)])"

declare show_nat.simps [simp del]

definition show_int :: "int \<Rightarrow> string" where
  "show_int i = (if i < 0 then CHR ''-'' # show_nat (nat (- i)) else show_nat (nat i))"

text \<open>Reading a numeral back, used to state that the numerals are unambiguous.\<close>

definition read_digits :: "string \<Rightarrow> nat" where
  "read_digits s = foldl (\<lambda>acc c. 10 * acc + (of_char c - 48)) 0 s"

lemma of_char_digit: "d < 10 \<Longrightarrow> of_char (digit_char d) = (48 + d :: nat)"
  by (simp add: digit_char_def)

lemma read_digits_show: "read_digits (show_nat n) = n"
proof (induction n rule: show_nat.induct)
  case (1 n)
  show ?case
  proof (cases "n < 10")
    case True
    then show ?thesis by (simp add: show_nat.simps [of n] read_digits_def of_char_digit)
  next
    case False
    then have "read_digits (show_nat n) = 10 * read_digits (show_nat (n div 10)) + n mod 10"
      by (simp add: show_nat.simps [of n] read_digits_def of_char_digit)
    with 1 False show ?thesis by simp
  qed
qed

lemma show_nat_inj: "show_nat m = show_nat n \<longleftrightarrow> m = n"
  by (metis read_digits_show)

lemma show_nat_digits: "c \<in> set (show_nat n) \<Longrightarrow> \<exists>d < 10. c = digit_char d"
proof (induction n rule: show_nat.induct)
  case (1 n)
  then show ?case
    by (cases "n < 10") (fastforce simp: show_nat.simps [of n] intro: exI [of _ "n mod 10"])+
qed

lemma show_nat_nonempty [simp]: "show_nat n \<noteq> []"
  by (subst show_nat.simps) simp

lemma digit_char_ne:
  assumes "d < 10"
  shows "digit_char d \<noteq> CHR ''I''" "digit_char d \<noteq> CHR ''-''"
proof -
  have "of_char (digit_char d) < (58::nat)" "48 \<le> (of_char (digit_char d) :: nat)"
    using assms by (simp_all add: of_char_digit)
  then show "digit_char d \<noteq> CHR ''I''" "digit_char d \<noteq> CHR ''-''" by auto
qed

lemma show_nat_no:
  "CHR ''I'' \<notin> set (show_nat n)" "CHR ''-'' \<notin> set (show_nat n)"
  using show_nat_digits digit_char_ne by metis+

lemma show_nat_hd_ne: "show_nat n \<noteq> CHR ''I'' # s" "show_nat n \<noteq> CHR ''-'' # s"
  using show_nat_no [of n] by auto

lemma show_int_inj: "show_int i = show_int j \<longleftrightarrow> i = j"
  by (auto simp: show_int_def show_nat_inj show_nat_hd_ne show_nat_hd_ne [symmetric])


section \<open>Identifiers and quantities\<close>

definition ME_MAX_TICKERS :: nat where "ME_MAX_TICKERS = 8"
definition ME_MAX_CLIENT_UPDATES :: u64 where "ME_MAX_CLIENT_UPDATES = 262144"
definition ME_MAX_MARKET_UPDATES :: u64 where "ME_MAX_MARKET_UPDATES = 262144"
definition ME_MAX_NUM_CLIENTS :: nat where "ME_MAX_NUM_CLIENTS = 256"
definition ME_MAX_ORDER_IDS :: u64 where "ME_MAX_ORDER_IDS = 1048576"
definition ME_MAX_PRICE_LEVELS :: u64 where "ME_MAX_PRICE_LEVELS = 256"

type_synonym OrderId = u64
type_synonym TickerId = u32
type_synonym ClientId = u32
type_synonym Qty = u32
type_synonym Priority = u64

text \<open>
  \<^verbatim>\<open>Price\<close> and \<^verbatim>\<open>Nanos\<close> are \<^verbatim>\<open>int64_t\<close>: they are compared as signed values, so they are integers here,
  and where a conversion or an operation can leave the 64 bits it is written out.
\<close>

type_synonym Price = int
type_synonym Nanos = int

definition OrderId_INVALID :: OrderId where "OrderId_INVALID = - 1"
definition TickerId_INVALID :: TickerId where "TickerId_INVALID = - 1"
definition ClientId_INVALID :: ClientId where "ClientId_INVALID = - 1"
definition Price_INVALID :: Price where "Price_INVALID = 2 ^ 63 - 1"
definition Qty_INVALID :: Qty where "Qty_INVALID = - 1"
definition Priority_INVALID :: Priority where "Priority_INVALID = - 1"

definition orderIdToString :: "OrderId \<Rightarrow> string" where
  "orderIdToString order_id = (if order_id = OrderId_INVALID then ''INVALID'' else show_nat (unat order_id))"

definition tickerIdToString :: "TickerId \<Rightarrow> string" where
  "tickerIdToString ticker_id = (if ticker_id = TickerId_INVALID then ''INVALID'' else show_nat (unat ticker_id))"

definition clientIdToString :: "ClientId \<Rightarrow> string" where
  "clientIdToString client_id = (if client_id = ClientId_INVALID then ''INVALID'' else show_nat (unat client_id))"

definition priceToString :: "Price \<Rightarrow> string" where
  "priceToString price = (if price = Price_INVALID then ''INVALID'' else show_int price)"

definition qtyToString :: "Qty \<Rightarrow> string" where
  "qtyToString qty = (if qty = Qty_INVALID then ''INVALID'' else show_nat (unat qty))"

definition priorityToString :: "Priority \<Rightarrow> string" where
  "priorityToString priority = (if priority = Priority_INVALID then ''INVALID'' else show_nat (unat priority))"

lemma show_word_inj:
  fixes x y inv :: "'a::len word"
  shows "(if x = inv then ''INVALID'' else show_nat (unat x)) = (if y = inv then ''INVALID'' else show_nat (unat y))
     \<longleftrightarrow> x = y"
  using show_nat_hd_ne(1) [of _ "''NVALID''"] by (auto simp: show_nat_inj word_unat_eq_iff) metis+


section \<open>Enumerations\<close>

text \<open>
  An enumeration with a fixed underlying type can hold every value of that type, and the values that
  arrive from the network are not checked. \<open>Side_OTHER\<close> (and the like below) stands for the values that
  have no enumerator.
\<close>

datatype Side = Side_INVALID | BUY | SELL | Side_MAX | Side_OTHER u8

primrec sideToString :: "Side \<Rightarrow> string" where
  "sideToString BUY = ''BUY''"
| "sideToString SELL = ''SELL''"
| "sideToString Side_INVALID = ''INVALID''"
| "sideToString Side_MAX = ''MAX''"
| "sideToString (Side_OTHER w) = ''UNKNOWN''"

primrec sideToValue :: "Side \<Rightarrow> int" where
  "sideToValue Side_INVALID = 0"
| "sideToValue BUY = 1"
| "sideToValue SELL = -1"
| "sideToValue Side_MAX = 2"
| "sideToValue (Side_OTHER w) = sint w"

text \<open>The cast to \<^verbatim>\<open>size_t\<close> of -1 is the largest value, and adding 1 wraps to index 0.\<close>

definition sideToIndex :: "Side \<Rightarrow> u64" where
  "sideToIndex side = word_of_int (sideToValue side) + 1"

datatype AlgoType = AlgoType_INVALID | RANDOM | MAKER | TAKER | AlgoType_MAX | AlgoType_OTHER u8

primrec algoTypeToString :: "AlgoType \<Rightarrow> string" where
  "algoTypeToString RANDOM = ''RANDOM''"
| "algoTypeToString MAKER = ''MAKER''"
| "algoTypeToString TAKER = ''TAKER''"
| "algoTypeToString AlgoType_INVALID = ''INVALID''"
| "algoTypeToString AlgoType_MAX = ''MAX''"
| "algoTypeToString (AlgoType_OTHER w) = ''UNKNOWN''"

text \<open>The loop of \<open>stringToAlgoType\<close> tries the enumerators in the order of their values.\<close>

fun first_algo :: "AlgoType list \<Rightarrow> string \<Rightarrow> AlgoType" where
  "first_algo [] str = AlgoType_INVALID"
| "first_algo (t # ts) str = (if algoTypeToString t = str then t else first_algo ts str)"

definition stringToAlgoType :: "string \<Rightarrow> AlgoType" where
  "stringToAlgoType str = first_algo [AlgoType_INVALID, RANDOM, MAKER, TAKER, AlgoType_MAX] str"

lemma sideToIndex_simps [simp]:
  "sideToIndex SELL = 0" "sideToIndex Side_INVALID = 1" "sideToIndex BUY = 2" "sideToIndex Side_MAX = 3"
  by (simp_all add: sideToIndex_def)


section \<open>Configuration\<close>

text \<open>\<^verbatim>\<open>double\<close> values are real numbers here: their rounding is not modelled.\<close>

record RiskCfg =
  max_order_size :: Qty
  max_position :: Qty
  max_loss :: real

record TradeEngineCfg =
  clip :: Qty
  threshold :: real
  risk_cfg :: RiskCfg

definition RiskCfg_default :: RiskCfg where
  "RiskCfg_default = \<lparr>max_order_size = 0, max_position = 0, max_loss = 0\<rparr>"

definition TradeEngineCfg_default :: TradeEngineCfg where
  "TradeEngineCfg_default = \<lparr>clip = 0, threshold = 0, risk_cfg = RiskCfg_default\<rparr>"

end
