(* ===== verification/Messages.thy ===== *)
theory Messages
  imports Types LFQueue
begin

text \<open>
  The messages of the system: order_server/client_request.h, order_server/client_response.h and
  market_data/market_update.h, with their textual forms.
\<close>

section \<open>Client requests\<close>

datatype ClientRequestType = ReqType_INVALID | Req_NEW | Req_CANCEL | ReqType_OTHER u8

primrec clientRequestTypeToString :: "ClientRequestType \<Rightarrow> string" where
  "clientRequestTypeToString Req_NEW = ''NEW''"
| "clientRequestTypeToString Req_CANCEL = ''CANCEL''"
| "clientRequestTypeToString ReqType_INVALID = ''INVALID''"
| "clientRequestTypeToString (ReqType_OTHER w) = ''UNKNOWN''"

record MEClientRequest =
  req_type :: ClientRequestType
  req_client_id :: ClientId
  req_ticker_id :: TickerId
  req_order_id :: OrderId
  req_side :: Side
  req_price :: Price
  req_qty :: Qty

definition MEClientRequest_default :: MEClientRequest where
  "MEClientRequest_default =
     \<lparr>req_type = ReqType_INVALID, req_client_id = ClientId_INVALID, req_ticker_id = TickerId_INVALID,
      req_order_id = OrderId_INVALID, req_side = Side_INVALID, req_price = Price_INVALID, req_qty = Qty_INVALID\<rparr>"

definition MEClientRequest_toString :: "MEClientRequest \<Rightarrow> string" where
  "MEClientRequest_toString r =
     ''MEClientRequest'' @ '' ['' @ ''type:'' @ clientRequestTypeToString (req_type r)
     @ '' client:'' @ clientIdToString (req_client_id r) @ '' ticker:'' @ tickerIdToString (req_ticker_id r)
     @ '' oid:'' @ orderIdToString (req_order_id r) @ '' side:'' @ sideToString (req_side r)
     @ '' qty:'' @ qtyToString (req_qty r) @ '' price:'' @ priceToString (req_price r) @ '']''"

record OMClientRequest =
  omreq_seq_num :: u64
  me_client_request :: MEClientRequest

definition OMClientRequest_toString :: "OMClientRequest \<Rightarrow> string" where
  "OMClientRequest_toString r =
     ''OMClientRequest'' @ '' ['' @ ''seq:'' @ show_nat (unat (omreq_seq_num r)) @ '' ''
     @ MEClientRequest_toString (me_client_request r) @ '']''"

type_synonym ClientRequestLFQueue = "MEClientRequest LFQueue"


section \<open>Client responses\<close>

datatype ClientResponseType = RspType_INVALID | Rsp_ACCEPTED | Rsp_CANCELED | Rsp_FILLED | Rsp_CANCEL_REJECTED
  | RspType_OTHER u8

primrec clientResponseTypeToString :: "ClientResponseType \<Rightarrow> string" where
  "clientResponseTypeToString Rsp_ACCEPTED = ''ACCEPTED''"
| "clientResponseTypeToString Rsp_CANCELED = ''CANCELED''"
| "clientResponseTypeToString Rsp_FILLED = ''FILLED''"
| "clientResponseTypeToString Rsp_CANCEL_REJECTED = ''CANCEL_REJECTED''"
| "clientResponseTypeToString RspType_INVALID = ''INVALID''"
| "clientResponseTypeToString (RspType_OTHER w) = ''UNKNOWN''"

record MEClientResponse =
  rsp_type :: ClientResponseType
  rsp_client_id :: ClientId
  rsp_ticker_id :: TickerId
  rsp_client_order_id :: OrderId
  rsp_market_order_id :: OrderId
  rsp_side :: Side
  rsp_price :: Price
  rsp_exec_qty :: Qty
  rsp_leaves_qty :: Qty

definition MEClientResponse_default :: MEClientResponse where
  "MEClientResponse_default =
     \<lparr>rsp_type = RspType_INVALID, rsp_client_id = ClientId_INVALID, rsp_ticker_id = TickerId_INVALID,
      rsp_client_order_id = OrderId_INVALID, rsp_market_order_id = OrderId_INVALID, rsp_side = Side_INVALID,
      rsp_price = Price_INVALID, rsp_exec_qty = Qty_INVALID, rsp_leaves_qty = Qty_INVALID\<rparr>"

definition MEClientResponse_toString :: "MEClientResponse \<Rightarrow> string" where
  "MEClientResponse_toString r =
     ''MEClientResponse'' @ '' ['' @ ''type:'' @ clientResponseTypeToString (rsp_type r)
     @ '' client:'' @ clientIdToString (rsp_client_id r) @ '' ticker:'' @ tickerIdToString (rsp_ticker_id r)
     @ '' coid:'' @ orderIdToString (rsp_client_order_id r) @ '' moid:'' @ orderIdToString (rsp_market_order_id r)
     @ '' side:'' @ sideToString (rsp_side r) @ '' exec_qty:'' @ qtyToString (rsp_exec_qty r)
     @ '' leaves_qty:'' @ qtyToString (rsp_leaves_qty r) @ '' price:'' @ priceToString (rsp_price r) @ '']''"

record OMClientResponse =
  omrsp_seq_num :: u64
  me_client_response :: MEClientResponse

definition OMClientResponse_toString :: "OMClientResponse \<Rightarrow> string" where
  "OMClientResponse_toString r =
     ''OMClientResponse'' @ '' ['' @ ''seq:'' @ show_nat (unat (omrsp_seq_num r)) @ '' ''
     @ MEClientResponse_toString (me_client_response r) @ '']''"

type_synonym ClientResponseLFQueue = "MEClientResponse LFQueue"


section \<open>Market updates\<close>

datatype MarketUpdateType =
  UpdType_INVALID | Upd_CLEAR | Upd_ADD | Upd_MODIFY | Upd_CANCEL | Upd_TRADE | Upd_SNAPSHOT_START | Upd_SNAPSHOT_END
  | UpdType_OTHER u8

primrec marketUpdateTypeToString :: "MarketUpdateType \<Rightarrow> string" where
  "marketUpdateTypeToString Upd_CLEAR = ''CLEAR''"
| "marketUpdateTypeToString Upd_ADD = ''ADD''"
| "marketUpdateTypeToString Upd_MODIFY = ''MODIFY''"
| "marketUpdateTypeToString Upd_CANCEL = ''CANCEL''"
| "marketUpdateTypeToString Upd_TRADE = ''TRADE''"
| "marketUpdateTypeToString Upd_SNAPSHOT_START = ''SNAPSHOT_START''"
| "marketUpdateTypeToString Upd_SNAPSHOT_END = ''SNAPSHOT_END''"
| "marketUpdateTypeToString UpdType_INVALID = ''INVALID''"
| "marketUpdateTypeToString (UpdType_OTHER w) = ''UNKNOWN''"

record MEMarketUpdate =
  upd_type :: MarketUpdateType
  upd_order_id :: OrderId
  upd_ticker_id :: TickerId
  upd_side :: Side
  upd_price :: Price
  upd_qty :: Qty
  upd_priority :: Priority

definition MEMarketUpdate_default :: MEMarketUpdate where
  "MEMarketUpdate_default =
     \<lparr>upd_type = UpdType_INVALID, upd_order_id = OrderId_INVALID, upd_ticker_id = TickerId_INVALID,
      upd_side = Side_INVALID, upd_price = Price_INVALID, upd_qty = Qty_INVALID, upd_priority = Priority_INVALID\<rparr>"

definition MEMarketUpdate_toString :: "MEMarketUpdate \<Rightarrow> string" where
  "MEMarketUpdate_toString u =
     ''MEMarketUpdate'' @ '' ['' @ '' type:'' @ marketUpdateTypeToString (upd_type u)
     @ '' ticker:'' @ tickerIdToString (upd_ticker_id u) @ '' oid:'' @ orderIdToString (upd_order_id u)
     @ '' side:'' @ sideToString (upd_side u) @ '' qty:'' @ qtyToString (upd_qty u)
     @ '' price:'' @ priceToString (upd_price u) @ '' priority:'' @ priorityToString (upd_priority u) @ '']''"

record MDPMarketUpdate =
  mdp_seq_num :: u64
  me_market_update :: MEMarketUpdate

definition MDPMarketUpdate_toString :: "MDPMarketUpdate \<Rightarrow> string" where
  "MDPMarketUpdate_toString u =
     ''MDPMarketUpdate'' @ '' ['' @ '' seq:'' @ show_nat (unat (mdp_seq_num u)) @ '' ''
     @ MEMarketUpdate_toString (me_market_update u) @ '']''"

type_synonym MEMarketUpdateLFQueue = "MEMarketUpdate LFQueue"
type_synonym MDPMarketUpdateLFQueue = "MDPMarketUpdate LFQueue"

end
