(* ===== verification/MemPool.thy ===== *)
theory MemPool
  imports Prelude
begin

text \<open>
  The memory pool of Common Files/mem_pool.h, as one thread uses it: a vector of blocks, each an
  object with a flag, and the index at which the next allocation looks. A block that is deallocated
  keeps its object, as the vector does.
\<close>

section \<open>The pool and its operations\<close>

record 'a ObjectBlock =
  object :: 'a
  is_free :: bool

text \<open>\<open>store_size\<close> is \<^verbatim>\<open>store.size()\<close>; blocks are read at indices below it only.\<close>

record 'a MemPool =
  store :: "nat \<Rightarrow> 'a ObjectBlock"
  store_size :: u64
  next_free :: u64

definition MemPool_init :: "'a \<Rightarrow> u64 \<Rightarrow> 'a MemPool res" where
  "MemPool_init dflt num_elems =
     bindE (assertE (num_elems AND (num_elems - 1) = 0))
       (\<lambda>_. Inr \<lparr>store = (\<lambda>_. \<lparr>object = dflt, is_free = True\<rparr>), store_size = num_elems, next_free = 0\<rparr>)"

text \<open>
  The retry loop of \<open>allocate\<close>: \<open>retries\<close> is the number of rounds left of the 1000. A round loads
  the index, exchanges the flag of that block with \<open>False\<close> and, when the block was free, moves the
  index on and constructs the object in it.
\<close>

fun allocate_loop :: "nat \<Rightarrow> 'a \<Rightarrow> 'a MemPool \<Rightarrow> ptr \<times> 'a MemPool" where
  "allocate_loop 0 x p = (None, p)"
| "allocate_loop (Suc retries) x p =
     (let current = unat (next_free p);
          nxt = (next_free p + 1) AND (store_size p - 1);
          was_free = is_free (store p current);
          p' = p\<lparr>store := (store p)(current := (store p current)\<lparr>is_free := False\<rparr>)\<rparr>
      in if was_free
         then (Some current,
               p'\<lparr>next_free := nxt,
                  store := (store p')(current := (store p' current)\<lparr>object := x\<rparr>)\<rparr>)
         else allocate_loop retries x p')"

definition allocate :: "'a \<Rightarrow> 'a MemPool \<Rightarrow> ptr \<times> 'a MemPool" where
  "allocate x p = allocate_loop 1000 x p"

text \<open>A pointer of another pool, or null, fails the range assertion of \<open>deallocate\<close>.\<close>

definition deallocate :: "ptr \<Rightarrow> 'a MemPool \<Rightarrow> 'a MemPool res" where
  "deallocate elem p =
     (case elem of
        None \<Rightarrow> Inl AssertFailed
      | Some i \<Rightarrow>
          bindE (assertE (i < unat (store_size p)))
            (\<lambda>_. Inr (p\<lparr>store := (store p)(i := (store p i)\<lparr>is_free := True\<rparr>)\<rparr>)))"

text \<open>The object of a block, and writing through a pointer to it.\<close>

definition obj :: "'a MemPool \<Rightarrow> nat \<Rightarrow> 'a" where
  "obj p i = object (store p i)"

definition upd_obj :: "nat \<Rightarrow> ('a \<Rightarrow> 'a) \<Rightarrow> 'a MemPool \<Rightarrow> 'a MemPool" where
  "upd_obj i f p = p\<lparr>store := (store p)(i := (store p i)\<lparr>object := f (obj p i)\<rparr>)\<rparr>"

definition allocated :: "'a MemPool \<Rightarrow> nat \<Rightarrow> bool" where
  "allocated p i \<longleftrightarrow> i < unat (store_size p) \<and> \<not> is_free (store p i)"

definition pool_ok :: "'a MemPool \<Rightarrow> bool" where
  "pool_ok p \<longleftrightarrow> is_pow2 (store_size p) \<and> unat (next_free p) < unat (store_size p)"

definition can_allocate :: "'a MemPool \<Rightarrow> bool" where
  "can_allocate p \<longleftrightarrow> is_free (store p (unat (next_free p)))"


section \<open>Facts\<close>

lemma obj_upd_obj [simp]: "obj (upd_obj i f p) = (obj p)(i := f (obj p i))"
  by (auto simp: upd_obj_def obj_def)

lemma isfree_upd_obj [simp]: "is_free (store (upd_obj i f p) j) = is_free (store p j)"
  by (simp add: upd_obj_def)

lemma upd_obj_fields [simp]:
  "store_size (upd_obj i f p) = store_size p" "next_free (upd_obj i f p) = next_free p"
  by (simp_all add: upd_obj_def)

lemma allocated_upd_obj [simp]: "allocated (upd_obj i f p) = allocated p"
  by (auto simp: allocated_def)

lemma pool_ok_upd_obj [simp]: "pool_ok (upd_obj i f p) = pool_ok p"
  by (simp add: pool_ok_def)

lemma can_allocate_upd_obj [simp]: "can_allocate (upd_obj i f p) = can_allocate p"
  by (simp add: can_allocate_def)

text \<open>An occupied block at the index is never left: all 1000 rounds look at the same block.\<close>

lemma allocate_loop_occupied:
  "\<not> is_free (store p (unat (next_free p))) \<Longrightarrow> allocate_loop n x p = (None, p)"
proof (induction n)
  case (Suc n)
  have "p\<lparr>store := (store p)(unat (next_free p) := (store p (unat (next_free p)))\<lparr>is_free := False\<rparr>)\<rparr> = p"
    using Suc.prems by (cases "store p (unat (next_free p))") (auto simp: fun_upd_idem)
  with Suc show ?case by (simp add: Let_def)
qed simp

lemma allocate_conv:
  "allocate x p =
     (if can_allocate p
      then (Some (unat (next_free p)),
            p\<lparr>store := (store p)(unat (next_free p) := \<lparr>object = x, is_free = False\<rparr>),
              next_free := (next_free p + 1) AND (store_size p - 1)\<rparr>)
      else (None, p))"
proof (cases "can_allocate p")
  case True
  have "(1000::nat) = Suc 999" by simp
  with True show ?thesis
    unfolding allocate_def can_allocate_def
    by (cases "store p (unat (next_free p))") (simp only: allocate_loop.simps, simp add: Let_def)
next
  case False
  then show ?thesis by (simp add: allocate_def can_allocate_def allocate_loop_occupied)
qed

lemma pool_ok_allocate:
  assumes "pool_ok p" and "allocate x p = (q, p')"
  shows "pool_ok p'"
proof -
  have "0 < unat (store_size p)" using assms(1) by (auto simp: pool_ok_def)
  then show ?thesis
    using assms by (auto simp: allocate_conv pool_ok_def and_pow2_unat split: if_splits)
qed

lemma pool_ok_deallocate: "pool_ok p \<Longrightarrow> deallocate e p = Inr p' \<Longrightarrow> pool_ok p'"
  by (auto simp: deallocate_def pool_ok_def res_simps split: option.splits)

text \<open>What a successful allocation does.\<close>

lemma allocate_Some:
  assumes "pool_ok p" and "allocate x p = (Some i, p')"
  shows "\<not> allocated p i" "i < unat (store_size p)" "store_size p' = store_size p"
    "allocated p' = (allocated p)(i := True)" "obj p' = (obj p)(i := x)" "pool_ok p'"
    "can_allocate p" "i = unat (next_free p)"
  using assms pool_ok_allocate [OF assms]
  by (auto simp: allocate_conv allocated_def can_allocate_def pool_ok_def obj_def fun_eq_iff split: if_splits)

lemma allocate_exists:
  "can_allocate p \<Longrightarrow> \<exists>p'. allocate x p = (Some (unat (next_free p)), p')"
  by (simp add: allocate_conv)

lemma deallocate_allocated:
  assumes "allocated p i"
  shows "\<exists>p'. deallocate (Some i) p = Inr p' \<and> allocated p' = (allocated p)(i := False) \<and> obj p' = obj p
    \<and> store_size p' = store_size p \<and> next_free p' = next_free p \<and> (pool_ok p \<longrightarrow> pool_ok p')
    \<and> (can_allocate p \<longrightarrow> can_allocate p')"
  using assms by (auto simp: deallocate_def allocated_def obj_def pool_ok_def can_allocate_def fun_eq_iff)

end
