(* ===== verification/Linked_Rings.thy ===== *)
theory Linked_Rings
  imports Prelude
begin

text \<open>
  Circular doubly linked lists. Both order books keep their price levels, and the orders of one
  level, in such lists: the nodes are blocks of a memory pool and the links are two pointer fields.
  A ring is described over the two link functions alone, so that the facts below serve the four
  kinds of lists of the two books.
\<close>

section \<open>Linked segments\<close>

fun linked :: "(nat \<Rightarrow> ptr) \<Rightarrow> (nat \<Rightarrow> ptr) \<Rightarrow> nat list \<Rightarrow> bool" where
  "linked nxt prv [] \<longleftrightarrow> True"
| "linked nxt prv [x] \<longleftrightarrow> True"
| "linked nxt prv (x # y # zs) \<longleftrightarrow> nxt x = Some y \<and> prv y = Some x \<and> linked nxt prv (y # zs)"

lemma linked_split:
  "linked nxt prv (xs @ x # ys) \<longleftrightarrow> linked nxt prv (xs @ [x]) \<and> linked nxt prv (x # ys)"
proof (induction xs)
  case (Cons a xs)
  then show ?case by (cases xs) auto
qed simp

lemma linked_Cons:
  "ys \<noteq> [] \<Longrightarrow> linked nxt prv (x # ys) \<longleftrightarrow>
     nxt x = Some (hd ys) \<and> prv (hd ys) = Some x \<and> linked nxt prv ys"
  by (cases ys) auto

lemma linked_snoc:
  "xs \<noteq> [] \<Longrightarrow> linked nxt prv (xs @ [y]) \<longleftrightarrow>
     linked nxt prv xs \<and> nxt (last xs) = Some y \<and> prv y = Some (last xs)"
proof (induction xs rule: rev_induct)
  case (snoc x xs)
  then show ?case using linked_split [of nxt prv xs x "[y]"] by auto
qed simp

text \<open>Only the successors of all but the last node and the predecessors of all but the first count.\<close>

lemma linked_cong:
  "(\<And>x. x \<in> set (butlast xs) \<Longrightarrow> nxt' x = nxt x) \<Longrightarrow> (\<And>x. x \<in> set (tl xs) \<Longrightarrow> prv' x = prv x)
   \<Longrightarrow> linked nxt' prv' xs = linked nxt prv xs"
proof (induction xs rule: linked.induct)
  case (3 nxt prv x y zs)
  have "linked nxt' prv' (y # zs) = linked nxt prv (y # zs)"
    using "3.prems" by (intro "3.IH") (auto dest: in_set_butlastD list.set_sel(2))
  moreover have "nxt' x = nxt x" "prv' y = prv y" using "3.prems" by auto
  ultimately show ?case by simp
qed auto

lemma linked_upd_next: "a \<notin> set (butlast xs) \<Longrightarrow> linked (nxt(a := v)) prv xs = linked nxt prv xs"
  by (rule linked_cong) auto

lemma linked_upd_prev: "a \<notin> set (tl xs) \<Longrightarrow> linked nxt (prv(a := v)) xs = linked nxt prv xs"
  by (rule linked_cong) auto


section \<open>Rings\<close>

definition ring :: "(nat \<Rightarrow> ptr) \<Rightarrow> (nat \<Rightarrow> ptr) \<Rightarrow> nat list \<Rightarrow> bool" where
  "ring nxt prv xs \<longleftrightarrow> distinct xs \<and> (xs \<noteq> [] \<longrightarrow> linked nxt prv (xs @ [hd xs]))"

lemma ring_Nil [simp]: "ring nxt prv []"
  by (simp add: ring_def)

lemma ring_single [simp]: "ring nxt prv [x] \<longleftrightarrow> nxt x = Some x \<and> prv x = Some x"
  by (auto simp: ring_def)

lemma ring_distinct: "ring nxt prv xs \<Longrightarrow> distinct xs"
  by (simp add: ring_def)

lemma ring_cong:
  assumes "\<And>x. x \<in> set xs \<Longrightarrow> nxt' x = nxt x" and "\<And>x. x \<in> set xs \<Longrightarrow> prv' x = prv x"
  shows "ring nxt' prv' xs = ring nxt prv xs"
proof (cases "xs = []")
  case False
  have "linked nxt' prv' (xs @ [hd xs]) = linked nxt prv (xs @ [hd xs])"
    using assms False by (intro linked_cong) (auto dest: list.set_sel(2))
  then show ?thesis by (simp add: ring_def)
qed simp

lemma ring_rotate1: "ring nxt prv (xs @ [x]) \<longleftrightarrow> ring nxt prv (x # xs)"
proof (cases xs)
  case (Cons y ys)
  have "linked nxt prv ((xs @ [x]) @ [y]) \<longleftrightarrow> linked nxt prv (xs @ [x]) \<and> linked nxt prv [x, y]"
    using linked_split [of nxt prv xs x "[y]"] by simp
  then show ?thesis using Cons by (auto simp: ring_def)
qed simp

lemma ring_rotate: "ring nxt prv (xs @ ys) \<longleftrightarrow> ring nxt prv (ys @ xs)"
proof (induction ys arbitrary: xs)
  case (Cons y ys)
  have "ring nxt prv (xs @ y # ys) \<longleftrightarrow> ring nxt prv (ys @ xs @ [y])"
    using Cons [of "xs @ [y]"] by simp
  also have "\<dots> \<longleftrightarrow> ring nxt prv ((y # ys) @ xs)"
    using ring_rotate1 [of nxt prv "ys @ xs" y] by simp
  finally show ?case .
qed simp

lemma ring_Cons:
  "xs \<noteq> [] \<Longrightarrow> ring nxt prv (x # xs) \<longleftrightarrow>
     x \<notin> set xs \<and> distinct xs \<and> linked nxt prv xs \<and> nxt x = Some (hd xs) \<and> prv (hd xs) = Some x
     \<and> nxt (last xs) = Some x \<and> prv x = Some (last xs)"
  by (auto simp: ring_def linked_Cons linked_snoc simp flip: append_Cons)

text \<open>Reading the links of a ring.\<close>

lemma ring_next: "ring nxt prv (xs @ x # ys) \<Longrightarrow> nxt x = Some (hd (ys @ xs @ [x]))"
  using ring_rotate [of nxt prv xs "x # ys"]
  by (cases ys; cases xs) (auto simp: ring_Cons)

lemma ring_prev: "ring nxt prv (xs @ x # ys) \<Longrightarrow> prv x = Some (last (x # ys @ xs))"
  using ring_rotate [of nxt prv xs "x # ys"]
  by (cases "ys @ xs") (auto simp: ring_Cons)

lemma ring_head_prev: "ring nxt prv (x # xs) \<Longrightarrow> prv x = Some (last (x # xs))"
  using ring_prev [of nxt prv "[]" x xs] by simp

lemma ring_last_next: "ring nxt prv (xs @ [x]) \<Longrightarrow> nxt x = Some (hd (xs @ [x]))"
  using ring_next [of nxt prv xs x "[]"] by simp

lemma ring_member_Some:
  assumes "ring nxt prv xs" and "x \<in> set xs"
  shows "\<exists>y \<in> set xs. nxt x = Some y" "\<exists>y \<in> set xs. prv x = Some y"
proof -
  from assms(2) obtain ys zs where xs: "xs = ys @ x # zs" by (auto simp: in_set_conv_decomp)
  show "\<exists>y \<in> set xs. nxt x = Some y"
    using ring_next [OF assms(1) [unfolded xs]] xs by (cases zs; cases ys) auto
  show "\<exists>y \<in> set xs. prv x = Some y"
    using ring_prev [OF assms(1) [unfolded xs]] xs last_in_set [of "x # zs @ ys"] by auto
qed

text \<open>A node is its own successor, or its own predecessor, exactly when it is alone.\<close>

lemma ring_alone_next:
  assumes "ring nxt prv xs" and "x \<in> set xs"
  shows "nxt x = Some x \<longleftrightarrow> xs = [x]"
proof -
  from assms(2) obtain ys zs where xs: "xs = ys @ x # zs" by (auto simp: in_set_conv_decomp)
  then show ?thesis
    using ring_next [OF assms(1) [unfolded xs]] ring_distinct [OF assms(1)]
    by (cases zs; cases ys) auto
qed

lemma ring_alone_prev:
  assumes "ring nxt prv xs" and "x \<in> set xs"
  shows "prv x = Some x \<longleftrightarrow> xs = [x]"
proof -
  from assms(2) obtain ys zs where xs: "xs = ys @ x # zs" by (auto simp: in_set_conv_decomp)
  then show ?thesis
    using ring_prev [OF assms(1) [unfolded xs]] ring_distinct [OF assms(1)]
    by (cases zs rule: rev_cases; cases ys rule: rev_cases) auto
qed

text \<open>Writing a link of a node outside the ring keeps it.\<close>

lemma ring_upd_outside [simp]:
  "a \<notin> set xs \<Longrightarrow> ring (nxt(a := v)) prv xs = ring nxt prv xs"
  "a \<notin> set xs \<Longrightarrow> ring nxt (prv(a := v)) xs = ring nxt prv xs"
  by (rule ring_cong; auto)+


section \<open>Insertion and removal\<close>

text \<open>
  Linking a new node between the last node and the first one: it becomes the last node of the ring.
\<close>

lemma ring_append:
  assumes "ring nxt prv (x # xs)" and "a \<notin> set (x # xs)"
  shows "ring (nxt(last (x # xs) := Some a, a := Some x)) (prv(a := Some (last (x # xs)), x := Some a))
           ((x # xs) @ [a])"
proof (cases "xs = []")
  case False
  have d: "distinct (x # xs)" and l: "linked nxt prv (x # xs)"
    using assms(1) False by (auto simp: ring_Cons linked_Cons)
  let ?n = "nxt(last (x # xs) := Some a, a := Some x)"
  let ?p = "prv(a := Some (last (x # xs)), x := Some a)"
  have notin: "last (x # xs) \<notin> set (butlast (x # xs))"
    using d by (metis distinct_append append_butlast_last_id disjoint_insert(1) list.discI list.simps(15))
  have abl: "a \<notin> set (butlast (x # xs))" using assms(2) by (meson in_set_butlastD)
  have "linked ?n ?p (x # xs) = linked nxt prv (x # xs)"
    using assms(2) d notin abl by (intro linked_cong) auto
  with l have "linked ?n ?p (x # xs)" by simp
  moreover have "last (x # xs) \<noteq> a" using assms(2) by (metis last_in_set list.discI)
  ultimately have "linked ?n ?p ((x # xs) @ [a])"
    using assms(2) by (subst linked_snoc) auto
  then have "linked ?n ?p (((x # xs) @ [a]) @ [x])"
    by (subst linked_snoc) auto
  then show ?thesis using d assms(2) by (simp add: ring_def)
qed (use assms in \<open>auto simp: ring_Cons\<close>)

text \<open>Unlinking the first node of a ring of at least two nodes.\<close>

lemma ring_unlink_head:
  assumes "ring nxt prv (a # xs)" and "xs \<noteq> []"
  shows "ring (nxt(last xs := Some (hd xs))) (prv(hd xs := Some (last xs))) xs"
proof -
  have d: "distinct xs" and l: "linked nxt prv xs" using assms by (auto simp: ring_Cons)
  have "last xs \<notin> set (butlast xs)"
    using d assms(2) by (metis append_butlast_last_id disjoint_insert(1) distinct_append list.simps(15))
  moreover have "hd xs \<notin> set (tl xs)" using d assms(2) by (cases xs) auto
  ultimately have "linked (nxt(last xs := Some (hd xs))) (prv(hd xs := Some (last xs))) xs"
    using l by (simp add: linked_upd_next linked_upd_prev)
  then show ?thesis using d assms(2) by (simp add: ring_def linked_snoc)
qed

text \<open>Unlinking any node, through its own two links.\<close>

lemma ring_unlink:
  assumes "ring nxt prv (xs @ a # ys)" and "xs @ ys \<noteq> []"
    and "prv a = Some b" and "nxt a = Some c"
  shows "ring (nxt(b := Some c)) (prv(c := Some b)) (xs @ ys)"
proof -
  have r: "ring nxt prv (a # ys @ xs)" using assms(1) ring_rotate [of nxt prv xs "a # ys"] by simp
  have ne: "ys @ xs \<noteq> []" using assms(2) by auto
  have "b = last (ys @ xs)" "c = hd (ys @ xs)" using r ne assms(3,4) by (auto simp: ring_Cons)
  then have "ring (nxt(b := Some c)) (prv(c := Some b)) (ys @ xs)"
    using ring_unlink_head [OF r ne] by simp
  then show ?thesis using ring_rotate by metis
qed

text \<open>
  Linking a new node before a node \<open>t\<close> of the ring: it stands between \<open>t\<close> and its predecessor, and
  when \<open>t\<close> is the first node it is up to the owner of the ring which of the two is first now.
\<close>

lemma ring_insert_before:
  assumes "ring nxt prv (xs @ t # ys)" and "a \<notin> set (xs @ t # ys)" and "prv t = Some b"
  shows "ring (nxt(a := Some t, b := Some a)) (prv(a := Some b, t := Some a)) (xs @ a # t # ys)"
proof -
  have r: "ring nxt prv (t # ys @ xs)" using assms(1) ring_rotate [of nxt prv xs "t # ys"] by simp
  have b: "b = last (t # ys @ xs)" using ring_head_prev [OF r] assms(3) by simp
  have "a \<noteq> b" using b assms(2) last_in_set [of "t # ys @ xs"] by auto
  then have "ring (nxt(a := Some t, b := Some a)) (prv(a := Some b, t := Some a)) ((t # ys @ xs) @ [a])"
    using ring_append [OF r, of a] assms(2) b by (simp add: fun_upd_twist)
  then show ?thesis
    using ring_rotate [of _ _ "t # ys" "xs @ [a]"] by simp
qed

lemma ring_insert_after:
  assumes "ring nxt prv (xs @ t # ys)" and "a \<notin> set (xs @ t # ys)" and "nxt t = Some c"
  shows "ring (nxt(a := Some c, t := Some a)) (prv(a := Some t, c := Some a)) (xs @ t # a # ys)"
proof -
  let ?zs = "ys @ xs @ [t]"
  have r: "ring nxt prv ?zs" using assms(1) ring_rotate [of nxt prv "xs @ [t]" ys] by simp
  have c: "c = hd ?zs" using ring_next [OF assms(1)] assms(3) by simp
  obtain zs where zs: "?zs = c # zs" using c by (cases ?zs) auto
  have "last (c # zs) = t" using zs by (metis last_appendR last_snoc append.assoc)
  then have "ring (nxt(t := Some a, a := Some c)) (prv(a := Some t, c := Some a)) (?zs @ [a])"
    using ring_append [OF r [unfolded zs], of a] assms(2) by (simp flip: zs)
  moreover have "a \<noteq> t" using assms(2) by auto
  ultimately have "ring (nxt(a := Some c, t := Some a)) (prv(a := Some t, c := Some a)) (?zs @ [a])"
    by (simp add: fun_upd_twist)
  then show ?thesis using ring_rotate [of _ _ ys "xs @ [t, a]"] by simp
qed

end
