(* ===== verification/Order_Book.thy ===== *)
theory Order_Book
  imports Messages MemPool Linked_Rings
begin

text \<open>
  The limit order book of the exchange, matcher/me_order.h, matcher/me_order_book.h and
  matcher/me_order_book.cpp: orders and price levels are blocks of two memory pools, linked by
  pointers into circular lists, and reached through two arrays, one from client and order id to the
  order and one from a price's hash to the price level.
\<close>

section \<open>Orders and price levels\<close>

record MEOrder =
  o_ticker_id :: TickerId
  o_client_id :: ClientId
  o_client_order_id :: OrderId
  o_market_order_id :: OrderId
  o_side :: Side
  o_price :: Price
  o_qty :: Qty
  o_priority :: Priority
  o_prev_order :: ptr
  o_next_order :: ptr

definition MEOrder_default :: MEOrder where
  "MEOrder_default =
     \<lparr>o_ticker_id = TickerId_INVALID, o_client_id = ClientId_INVALID, o_client_order_id = OrderId_INVALID,
      o_market_order_id = OrderId_INVALID, o_side = Side_INVALID, o_price = Price_INVALID, o_qty = Qty_INVALID,
      o_priority = Priority_INVALID, o_prev_order = None, o_next_order = None\<rparr>"

record MEOrdersAtPrice =
  l_side :: Side
  l_price :: Price
  l_first_me_order :: ptr
  l_prev_entry :: ptr
  l_next_entry :: ptr

definition MEOrdersAtPrice_default :: MEOrdersAtPrice where
  "MEOrdersAtPrice_default =
     \<lparr>l_side = Side_INVALID, l_price = Price_INVALID, l_first_me_order = None, l_prev_entry = None,
      l_next_entry = None\<rparr>"


section \<open>The book\<close>

text \<open>
  The book reports to the engine that owns it through two calls. The book never reads what it
  reported, so its operations record the calls in order (\<open>out_calls\<close>) and the engine performs them
  (theory MatchingEngine). The structures \<^verbatim>\<open>client_response_\<close> and \<^verbatim>\<open>market_update_\<close>, in which the source
  builds a message before the call, hold no information between calls and are not part of the state.
\<close>

datatype MECall = SendClientResponse MEClientResponse | SendMarketUpdate MEMarketUpdate

record MEOrderBook =
  ob_ticker_id :: TickerId
  cid_oid_to_order :: "nat \<Rightarrow> nat \<Rightarrow> ptr"
  orders_at_price_pool :: "MEOrdersAtPrice MemPool"
  bids_by_price :: ptr
  asks_by_price :: ptr
  price_orders_at_price :: "nat \<Rightarrow> ptr"
  order_pool :: "MEOrder MemPool"
  next_market_order_id :: OrderId
  out_calls :: "MECall list"

text \<open>
  The constructor gives the two arrays no initial value; \<open>cid_mem\<close> and \<open>price_mem\<close> are what their
  memory holds when the book is created.
\<close>

definition MEOrderBook_init ::
  "TickerId \<Rightarrow> (nat \<Rightarrow> nat \<Rightarrow> ptr) \<Rightarrow> (nat \<Rightarrow> ptr) \<Rightarrow> MEOrderBook res" where
  "MEOrderBook_init ticker_id cid_mem price_mem =
     bindE (MemPool_init MEOrdersAtPrice_default ME_MAX_PRICE_LEVELS) (\<lambda>lpool.
     bindE (MemPool_init MEOrder_default ME_MAX_ORDER_IDS) (\<lambda>opool.
     Inr \<lparr>ob_ticker_id = ticker_id, cid_oid_to_order = cid_mem, orders_at_price_pool = lpool,
          bids_by_price = None, asks_by_price = None, price_orders_at_price = price_mem,
          order_pool = opool, next_market_order_id = 1, out_calls = []\<rparr>))"

text \<open>Reading and writing the blocks the pointers lead to.\<close>

definition ord :: "MEOrderBook \<Rightarrow> nat \<Rightarrow> MEOrder" where
  "ord ob i = obj (order_pool ob) i"

definition lvl :: "MEOrderBook \<Rightarrow> nat \<Rightarrow> MEOrdersAtPrice" where
  "lvl ob i = obj (orders_at_price_pool ob) i"

definition upd_ord :: "nat \<Rightarrow> (MEOrder \<Rightarrow> MEOrder) \<Rightarrow> MEOrderBook \<Rightarrow> MEOrderBook" where
  "upd_ord i f ob = ob\<lparr>order_pool := upd_obj i f (order_pool ob)\<rparr>"

definition upd_lvl :: "nat \<Rightarrow> (MEOrdersAtPrice \<Rightarrow> MEOrdersAtPrice) \<Rightarrow> MEOrderBook \<Rightarrow> MEOrderBook" where
  "upd_lvl i f ob = ob\<lparr>orders_at_price_pool := upd_obj i f (orders_at_price_pool ob)\<rparr>"

text \<open>\<^verbatim>\<open>(side == Side::BUY ? bids_by_price_ : asks_by_price_)\<close>, read and assigned.\<close>

definition best :: "Side \<Rightarrow> MEOrderBook \<Rightarrow> ptr" where
  "best side ob = (if side = BUY then bids_by_price ob else asks_by_price ob)"

definition set_best :: "Side \<Rightarrow> ptr \<Rightarrow> MEOrderBook \<Rightarrow> MEOrderBook" where
  "set_best side p ob = (if side = BUY then ob\<lparr>bids_by_price := p\<rparr> else ob\<lparr>asks_by_price := p\<rparr>)"

definition call :: "MECall \<Rightarrow> MEOrderBook \<Rightarrow> MEOrderBook" where
  "call c ob = ob\<lparr>out_calls := out_calls ob @ [c]\<rparr>"

definition generateNewMarketOrderId :: "MEOrderBook \<Rightarrow> OrderId \<times> MEOrderBook" where
  "generateNewMarketOrderId ob =
     (next_market_order_id ob, ob\<lparr>next_market_order_id := next_market_order_id ob + 1\<rparr>)"

text \<open>\<^verbatim>\<open>price % ME_MAX_PRICE_LEVELS\<close>: the modulus is unsigned, so the price is converted to 64 unsigned bits.\<close>

definition priceToIndex :: "Price \<Rightarrow> u64" where
  "priceToIndex price = (word_of_int price :: u64) mod ME_MAX_PRICE_LEVELS"

definition getOrdersAtPrice :: "Price \<Rightarrow> MEOrderBook \<Rightarrow> ptr res" where
  "getOrdersAtPrice price ob =
     array_at (unat ME_MAX_PRICE_LEVELS) (price_orders_at_price ob) (unat (priceToIndex price))"


section \<open>Price levels\<close>

text \<open>
  The two loops that look for the place of a new level: they pass the levels that are at least as
  good as the new price. The loop reads only and its state is the level it stands at, so when it
  has visited more levels than the pool has blocks it repeats itself forever.
\<close>

definition at_least_as_good :: "Side \<Rightarrow> Price \<Rightarrow> Price \<Rightarrow> bool" where
  "at_least_as_good side p q \<longleftrightarrow> (if side = BUY then p \<ge> q else p \<le> q)"

fun walk_levels :: "nat \<Rightarrow> Side \<Rightarrow> Price \<Rightarrow> nat \<Rightarrow> nat \<Rightarrow> MEOrderBook \<Rightarrow> nat res" where
  "walk_levels 0 side price first target ob = Inl Diverges"
| "walk_levels (Suc fuel) side price first target ob =
     (if at_least_as_good side (l_price (lvl ob target)) price \<and> l_next_entry (lvl ob target) \<noteq> Some first
      then bindE (deref (l_next_entry (lvl ob target))) (\<lambda>t. walk_levels fuel side price first t ob)
      else Inr target)"

definition addOrdersAtPrice :: "ptr \<Rightarrow> MEOrderBook \<Rightarrow> MEOrderBook res" where
  "addOrdersAtPrice new_orders_at_price ob =
     bindE (deref new_orders_at_price) (\<lambda>n.
     let price = l_price (lvl ob n); side = l_side (lvl ob n); price_index = unat (priceToIndex price)
     in if unat ME_MAX_PRICE_LEVELS \<le> price_index then Inr ob
        else bindE (array_put (unat ME_MAX_PRICE_LEVELS) (price_orders_at_price ob) price_index new_orders_at_price)
     (\<lambda>pmap. let ob = ob\<lparr>price_orders_at_price := pmap\<rparr> in
        case best side ob of
          None \<Rightarrow> Inr (upd_lvl n (\<lambda>l. l\<lparr>l_prev_entry := Some n, l_next_entry := Some n\<rparr>)
                         (set_best side (Some n) ob))
        | Some first \<Rightarrow>
            bindE (walk_levels (Suc (unat (store_size (orders_at_price_pool ob)))) side price first first ob)
            (\<lambda>target.
             let insert_before = (if side = BUY then l_price (lvl ob target) < price
                                  else l_price (lvl ob target) > price)
             in if insert_before then
                  let ob1 = upd_lvl n (\<lambda>l. l\<lparr>l_prev_entry := l_prev_entry (lvl ob target)\<rparr>) ob;
                      ob2 = upd_lvl n (\<lambda>l. l\<lparr>l_next_entry := Some target\<rparr>) ob1
                  in bindE (deref (l_prev_entry (lvl ob2 target))) (\<lambda>p.
                     let ob3 = upd_lvl p (\<lambda>l. l\<lparr>l_next_entry := Some n\<rparr>) ob2;
                         ob4 = upd_lvl target (\<lambda>l. l\<lparr>l_prev_entry := Some n\<rparr>) ob3
                     in Inr (if (side = BUY \<and> price > l_price (lvl ob4 first))
                                 \<or> (side = SELL \<and> price < l_price (lvl ob4 first))
                             then set_best side (Some n) ob4 else ob4))
                else
                  let ob1 = upd_lvl n (\<lambda>l. l\<lparr>l_prev_entry := Some target\<rparr>) ob;
                      ob2 = upd_lvl n (\<lambda>l. l\<lparr>l_next_entry := l_next_entry (lvl ob1 target)\<rparr>) ob1
                  in bindE (deref (l_next_entry (lvl ob2 target))) (\<lambda>q.
                     let ob3 = upd_lvl q (\<lambda>l. l\<lparr>l_prev_entry := Some n\<rparr>) ob2
                     in Inr (upd_lvl target (\<lambda>l. l\<lparr>l_next_entry := Some n\<rparr>) ob3)))))"

definition removeOrdersAtPrice :: "Side \<Rightarrow> Price \<Rightarrow> MEOrderBook \<Rightarrow> MEOrderBook res" where
  "removeOrdersAtPrice side price ob =
     bindE (getOrdersAtPrice price ob) (\<lambda>orders_at_price.
     bindE (deref orders_at_price) (\<lambda>n.
     bindE (if l_next_entry (lvl ob n) = Some n then Inr (set_best side None ob)
            else bindE (deref (l_prev_entry (lvl ob n))) (\<lambda>p.
                 let ob1 = upd_lvl p (\<lambda>l. l\<lparr>l_next_entry := l_next_entry (lvl ob n)\<rparr>) ob
                 in bindE (deref (l_next_entry (lvl ob1 n))) (\<lambda>q.
                    let ob2 = upd_lvl q (\<lambda>l. l\<lparr>l_prev_entry := l_prev_entry (lvl ob1 n)\<rparr>) ob1;
                        ob3 = (if Some n = best side ob then set_best side (l_next_entry (lvl ob2 n)) ob2 else ob2)
                    in Inr (upd_lvl n (\<lambda>l. l\<lparr>l_prev_entry := None, l_next_entry := None\<rparr>) ob3))))
     (\<lambda>ob'. bindE (array_put (unat ME_MAX_PRICE_LEVELS) (price_orders_at_price ob') (unat (priceToIndex price)) None)
     (\<lambda>pmap. bindE (deallocate orders_at_price (orders_at_price_pool ob'))
     (\<lambda>pool. Inr (ob'\<lparr>price_orders_at_price := pmap, orders_at_price_pool := pool\<rparr>))))))"

definition getNextPriority :: "Price \<Rightarrow> MEOrderBook \<Rightarrow> Priority res" where
  "getNextPriority price ob =
     bindE (getOrdersAtPrice price ob) (\<lambda>orders_at_price.
     case orders_at_price of
       None \<Rightarrow> Inr 1
     | Some n \<Rightarrow> bindE (deref (l_first_me_order (lvl ob n))) (\<lambda>f.
                 bindE (deref (o_prev_order (ord ob f))) (\<lambda>p. Inr (o_priority (ord ob p) + 1))))"


section \<open>Orders\<close>

text \<open>\<^verbatim>\<open>cid_oid_to_order_.at(cid).at(oid) = p\<close>.\<close>

definition put_order :: "ClientId \<Rightarrow> OrderId \<Rightarrow> ptr \<Rightarrow> MEOrderBook \<Rightarrow> MEOrderBook res" where
  "put_order cid oid p ob =
     bindE (array_at ME_MAX_NUM_CLIENTS (cid_oid_to_order ob) (unat cid)) (\<lambda>row.
     bindE (array_put (unat ME_MAX_ORDER_IDS) row (unat oid) p) (\<lambda>row'.
     Inr (ob\<lparr>cid_oid_to_order := (cid_oid_to_order ob)(unat cid := row')\<rparr>)))"

definition removeOrder :: "ptr \<Rightarrow> MEOrderBook \<Rightarrow> MEOrderBook res" where
  "removeOrder order ob =
     bindE (deref order) (\<lambda>i.
     bindE (getOrdersAtPrice (o_price (ord ob i)) ob) (\<lambda>orders_at_price.
     bindE (if o_prev_order (ord ob i) = Some i
            then removeOrdersAtPrice (o_side (ord ob i)) (o_price (ord ob i)) ob
            else let order_before = o_prev_order (ord ob i); order_after = o_next_order (ord ob i)
                 in bindE (deref order_before) (\<lambda>b.
                    let ob1 = upd_ord b (\<lambda>x. x\<lparr>o_next_order := order_after\<rparr>) ob
                    in bindE (deref order_after) (\<lambda>a.
                       let ob2 = upd_ord a (\<lambda>x. x\<lparr>o_prev_order := order_before\<rparr>) ob1
                       in bindE (deref orders_at_price) (\<lambda>n.
                          let ob3 = (if l_first_me_order (lvl ob2 n) = Some i
                                     then upd_lvl n (\<lambda>l. l\<lparr>l_first_me_order := order_after\<rparr>) ob2 else ob2)
                          in Inr (upd_ord i (\<lambda>x. x\<lparr>o_prev_order := None, o_next_order := None\<rparr>) ob3)))))
     (\<lambda>ob'. bindE (put_order (o_client_id (ord ob' i)) (o_client_order_id (ord ob' i)) None ob')
     (\<lambda>ob''. bindE (deallocate order (order_pool ob''))
     (\<lambda>pool. Inr (ob''\<lparr>order_pool := pool\<rparr>))))))"

definition addOrder :: "ptr \<Rightarrow> MEOrderBook \<Rightarrow> MEOrderBook res" where
  "addOrder order ob =
     bindE (deref order) (\<lambda>i.
     bindE (getOrdersAtPrice (o_price (ord ob i)) ob) (\<lambda>orders_at_price.
     bindE (case orders_at_price of
              None \<Rightarrow>
                let ob1 = upd_ord i (\<lambda>x. x\<lparr>o_next_order := Some i, o_prev_order := Some i\<rparr>) ob;
                    (new_level, pool) =
                      allocate \<lparr>l_side = o_side (ord ob1 i), l_price = o_price (ord ob1 i), l_first_me_order = Some i,
                                l_prev_entry = None, l_next_entry = None\<rparr> (orders_at_price_pool ob1)
                in addOrdersAtPrice new_level (ob1\<lparr>orders_at_price_pool := pool\<rparr>)
            | Some n \<Rightarrow>
                bindE (deref (l_first_me_order (lvl ob n))) (\<lambda>f.
                bindE (deref (o_prev_order (ord ob f))) (\<lambda>p.
                let ob1 = upd_ord p (\<lambda>x. x\<lparr>o_next_order := Some i\<rparr>) ob;
                    ob2 = upd_ord i (\<lambda>x. x\<lparr>o_prev_order := o_prev_order (ord ob1 f)\<rparr>) ob1;
                    ob3 = upd_ord i (\<lambda>x. x\<lparr>o_next_order := Some f\<rparr>) ob2
                in Inr (upd_ord f (\<lambda>x. x\<lparr>o_prev_order := Some i\<rparr>) ob3))))
     (\<lambda>ob'. put_order (o_client_id (ord ob' i)) (o_client_order_id (ord ob' i)) (Some i) ob')))"


section \<open>Matching\<close>

text \<open>
  \<open>match_order\<close> is \<^verbatim>\<open>MEOrderBook::match\<close>: one fill of the aggressive order, whose remaining quantity is
  \<open>leaves_qty\<close>, against the passive order at \<open>itr\<close>.
\<close>

definition filled_response ::
  "ClientId \<Rightarrow> TickerId \<Rightarrow> OrderId \<Rightarrow> OrderId \<Rightarrow> Side \<Rightarrow> Price \<Rightarrow> Qty \<Rightarrow> Qty \<Rightarrow> MECall" where
  "filled_response cid tid coid moid side price exec leaves =
     SendClientResponse \<lparr>rsp_type = Rsp_FILLED, rsp_client_id = cid, rsp_ticker_id = tid,
       rsp_client_order_id = coid, rsp_market_order_id = moid, rsp_side = side, rsp_price = price,
       rsp_exec_qty = exec, rsp_leaves_qty = leaves\<rparr>"

definition market_update ::
  "MarketUpdateType \<Rightarrow> OrderId \<Rightarrow> TickerId \<Rightarrow> Side \<Rightarrow> Price \<Rightarrow> Qty \<Rightarrow> Priority \<Rightarrow> MECall" where
  "market_update ty moid tid side price qty prio =
     SendMarketUpdate \<lparr>upd_type = ty, upd_order_id = moid, upd_ticker_id = tid, upd_side = side,
       upd_price = price, upd_qty = qty, upd_priority = prio\<rparr>"

definition match_order ::
  "TickerId \<Rightarrow> ClientId \<Rightarrow> Side \<Rightarrow> OrderId \<Rightarrow> OrderId \<Rightarrow> ptr \<Rightarrow> Qty \<Rightarrow> MEOrderBook \<Rightarrow> (Qty \<times> MEOrderBook) res" where
  "match_order ticker_id client_id side client_order_id new_market_order_id itr leaves_qty ob =
     bindE (deref itr) (\<lambda>i.
     let order_qty = o_qty (ord ob i);
         fill_qty = min leaves_qty order_qty;
         leaves_qty = leaves_qty - fill_qty;
         ob = upd_ord i (\<lambda>x. x\<lparr>o_qty := o_qty x - fill_qty\<rparr>) ob;
         order = ord ob i;
         ob = call (filled_response client_id ticker_id client_order_id new_market_order_id side
                      (o_price order) fill_qty leaves_qty) ob;
         ob = call (filled_response (o_client_id order) ticker_id (o_client_order_id order)
                      (o_market_order_id order) (o_side order) (o_price order) fill_qty (o_qty order)) ob;
         ob = call (market_update Upd_TRADE OrderId_INVALID ticker_id side (o_price order) fill_qty Priority_INVALID) ob
     in if o_qty order = 0
        then bindE (removeOrder itr
                     (call (market_update Upd_CANCEL (o_market_order_id order) ticker_id (o_side order)
                              (o_price order) order_qty Priority_INVALID) ob))
               (\<lambda>ob'. Inr (leaves_qty, ob'))
        else Inr (leaves_qty, call (market_update Upd_MODIFY (o_market_order_id order) ticker_id (o_side order)
                                      (o_price order) (o_qty order) (o_priority order)) ob))"

text \<open>
  The two loops of \<^verbatim>\<open>checkForMatch\<close> differ in the side they look at and the direction of the price test.
  \<open>other side\<close> is the side they match against; \<open>crosses\<close> is the negation of their last exit test.
\<close>

definition other :: "Side \<Rightarrow> Side" where
  "other side = (if side = BUY then SELL else BUY)"

definition crosses :: "Side \<Rightarrow> Price \<Rightarrow> Price \<Rightarrow> bool" where
  "crosses side price passive \<longleftrightarrow> (if side = BUY then \<not> price < passive else \<not> price > passive)"

fun match_loop ::
  "nat \<Rightarrow> ClientId \<Rightarrow> OrderId \<Rightarrow> TickerId \<Rightarrow> Side \<Rightarrow> Price \<Rightarrow> OrderId \<Rightarrow> Qty \<Rightarrow> MEOrderBook
     \<Rightarrow> (Qty \<times> MEOrderBook) res" where
  "match_loop 0 cid coid tid side price moid leaves_qty ob = Inl Diverges"
| "match_loop (Suc fuel) cid coid tid side price moid leaves_qty ob =
     (if leaves_qty > 0 then
        (case best (other side) ob of
           None \<Rightarrow> Inr (leaves_qty, ob)
         | Some n \<Rightarrow>
             (case l_first_me_order (lvl ob n) of
                None \<Rightarrow> Inr (leaves_qty, ob)
              | Some i \<Rightarrow>
                  if \<not> crosses side price (o_price (ord ob i)) then Inr (leaves_qty, ob)
                  else bindE (match_order tid cid side coid moid (Some i) leaves_qty ob) (\<lambda>(leaves_qty, ob).
                       bindE (deref (best (other side) ob)) (\<lambda>m.
                       let ob = (if l_first_me_order (lvl ob m) = None
                                 then set_best (other side)
                                        (if l_next_entry (lvl ob m) = Some m then None else l_next_entry (lvl ob m)) ob
                                 else ob)
                       in match_loop fuel cid coid tid side price moid leaves_qty ob))))
      else Inr (leaves_qty, ob))"

text \<open>
  \<open>checkForMatch\<close> takes the market order id as a \<^verbatim>\<open>Qty\<close>, 32 bits. A round either ends the loop
  or removes an order, so one round more than the order pool has blocks is always enough.
\<close>

definition checkForMatch ::
  "ClientId \<Rightarrow> OrderId \<Rightarrow> TickerId \<Rightarrow> Side \<Rightarrow> Price \<Rightarrow> Qty \<Rightarrow> Qty \<Rightarrow> MEOrderBook \<Rightarrow> (Qty \<times> MEOrderBook) res" where
  "checkForMatch client_id client_order_id ticker_id side price qty new_market_order_id ob =
     (if side = BUY \<or> side = SELL
      then match_loop (Suc (unat (store_size (order_pool ob)))) client_id client_order_id ticker_id side price
             (ucast new_market_order_id) qty ob
      else Inr (qty, ob))"


section \<open>Adding and cancelling\<close>

definition accepted_response :: "ClientId \<Rightarrow> TickerId \<Rightarrow> OrderId \<Rightarrow> OrderId \<Rightarrow> Side \<Rightarrow> Price \<Rightarrow> Qty \<Rightarrow> MECall" where
  "accepted_response cid tid coid moid side price qty =
     SendClientResponse \<lparr>rsp_type = Rsp_ACCEPTED, rsp_client_id = cid, rsp_ticker_id = tid,
       rsp_client_order_id = coid, rsp_market_order_id = moid, rsp_side = side, rsp_price = price,
       rsp_exec_qty = 0, rsp_leaves_qty = qty\<rparr>"

definition add :: "ClientId \<Rightarrow> OrderId \<Rightarrow> TickerId \<Rightarrow> Side \<Rightarrow> Price \<Rightarrow> Qty \<Rightarrow> MEOrderBook \<Rightarrow> MEOrderBook res" where
  "add client_id client_order_id ticker_id side price qty ob =
     (let (new_market_order_id, ob) = generateNewMarketOrderId ob;
          ob = call (accepted_response client_id ticker_id client_order_id new_market_order_id side price qty) ob
      in bindE (checkForMatch client_id client_order_id ticker_id side price qty (ucast new_market_order_id) ob)
         (\<lambda>(leaves_qty, ob).
         if leaves_qty \<noteq> 0 then
           bindE (getNextPriority price ob) (\<lambda>priority.
           let (order, pool) =
                 allocate \<lparr>o_ticker_id = ticker_id, o_client_id = client_id, o_client_order_id = client_order_id,
                           o_market_order_id = new_market_order_id, o_side = side, o_price = price,
                           o_qty = leaves_qty, o_priority = priority, o_prev_order = None, o_next_order = None\<rparr>
                   (order_pool ob)
           in bindE (addOrder order (ob\<lparr>order_pool := pool\<rparr>)) (\<lambda>ob.
              Inr (call (market_update Upd_ADD new_market_order_id ticker_id side price leaves_qty priority) ob)))
         else Inr ob))"

definition cancel_rejected :: "ClientId \<Rightarrow> TickerId \<Rightarrow> OrderId \<Rightarrow> MECall" where
  "cancel_rejected cid tid coid =
     SendClientResponse \<lparr>rsp_type = Rsp_CANCEL_REJECTED, rsp_client_id = cid, rsp_ticker_id = tid,
       rsp_client_order_id = coid, rsp_market_order_id = OrderId_INVALID, rsp_side = Side_INVALID,
       rsp_price = Price_INVALID, rsp_exec_qty = Qty_INVALID, rsp_leaves_qty = Qty_INVALID\<rparr>"

definition canceled_response :: "ClientId \<Rightarrow> TickerId \<Rightarrow> OrderId \<Rightarrow> MEOrder \<Rightarrow> MECall" where
  "canceled_response cid tid coid x =
     SendClientResponse \<lparr>rsp_type = Rsp_CANCELED, rsp_client_id = cid, rsp_ticker_id = tid,
       rsp_client_order_id = coid, rsp_market_order_id = o_market_order_id x, rsp_side = o_side x,
       rsp_price = o_price x, rsp_exec_qty = Qty_INVALID, rsp_leaves_qty = o_qty x\<rparr>"

definition cancel :: "ClientId \<Rightarrow> OrderId \<Rightarrow> TickerId \<Rightarrow> MEOrderBook \<Rightarrow> MEOrderBook res" where
  "cancel client_id order_id ticker_id ob =
     bindE (if unat client_id < ME_MAX_NUM_CLIENTS
            then bindE (array_at ME_MAX_NUM_CLIENTS (cid_oid_to_order ob) (unat client_id)) (\<lambda>co_itr.
                 array_at (unat ME_MAX_ORDER_IDS) co_itr (unat order_id))
            else Inr None)
     (\<lambda>exchange_order.
       case exchange_order of
         None \<Rightarrow> Inr (call (cancel_rejected client_id ticker_id order_id) ob)
       | Some i \<Rightarrow>
           let x = ord ob i
           in bindE (removeOrder exchange_order ob) (\<lambda>ob.
              Inr (call (canceled_response client_id ticker_id order_id x)
                    (call (market_update Upd_CANCEL (o_market_order_id x) ticker_id (o_side x) (o_price x) 0
                             (o_priority x)) ob))))"

end
