(* ===== verification/Order_Book_Inv.thy ===== *)
theory Order_Book_Inv
  imports Order_Book
begin

text \<open>
  The invariant of the exchange's order book: the shape its pointers have, and that removing and
  adding an order keep it. A shape lists, for each side, the price levels from the best to the worst
  price with the orders of each level in time order, all as block numbers.
\<close>

section \<open>Reading an updated book\<close>

definition onext :: "MEOrderBook \<Rightarrow> nat \<Rightarrow> ptr" where "onext ob i = o_next_order (ord ob i)"
definition oprev :: "MEOrderBook \<Rightarrow> nat \<Rightarrow> ptr" where "oprev ob i = o_prev_order (ord ob i)"
definition lnext :: "MEOrderBook \<Rightarrow> nat \<Rightarrow> ptr" where "lnext ob n = l_next_entry (lvl ob n)"
definition lprev :: "MEOrderBook \<Rightarrow> nat \<Rightarrow> ptr" where "lprev ob n = l_prev_entry (lvl ob n)"

lemma ord_upd [simp]:
  "ord (upd_ord i f ob) = (ord ob)(i := f (ord ob i))" "ord (upd_lvl n g ob) = ord ob"
  "ord (set_best s p ob) = ord ob" "ord (call c ob) = ord ob"
  "ord (ob\<lparr>price_orders_at_price := pm\<rparr>) = ord ob" "ord (ob\<lparr>cid_oid_to_order := cm\<rparr>) = ord ob"
  "ord (ob\<lparr>orders_at_price_pool := lp\<rparr>) = ord ob" "ord (ob\<lparr>order_pool := op\<rparr>) = obj op"
  "ord (ob\<lparr>next_market_order_id := m\<rparr>) = ord ob"
  by (auto simp: ord_def upd_ord_def upd_lvl_def set_best_def call_def fun_eq_iff)

lemma lvl_upd [simp]:
  "lvl (upd_lvl n g ob) = (lvl ob)(n := g (lvl ob n))" "lvl (upd_ord i f ob) = lvl ob"
  "lvl (set_best s p ob) = lvl ob" "lvl (call c ob) = lvl ob"
  "lvl (ob\<lparr>price_orders_at_price := pm\<rparr>) = lvl ob" "lvl (ob\<lparr>cid_oid_to_order := cm\<rparr>) = lvl ob"
  "lvl (ob\<lparr>orders_at_price_pool := lp\<rparr>) = obj lp" "lvl (ob\<lparr>order_pool := op\<rparr>) = lvl ob"
  "lvl (ob\<lparr>next_market_order_id := m\<rparr>) = lvl ob"
  by (auto simp: lvl_def upd_ord_def upd_lvl_def set_best_def call_def fun_eq_iff)

lemma upd_ord_fields [simp]:
  "ob_ticker_id (upd_ord i f ob) = ob_ticker_id ob" "cid_oid_to_order (upd_ord i f ob) = cid_oid_to_order ob"
  "orders_at_price_pool (upd_ord i f ob) = orders_at_price_pool ob" "bids_by_price (upd_ord i f ob) = bids_by_price ob"
  "asks_by_price (upd_ord i f ob) = asks_by_price ob" "price_orders_at_price (upd_ord i f ob) = price_orders_at_price ob"
  "order_pool (upd_ord i f ob) = upd_obj i f (order_pool ob)"
  "next_market_order_id (upd_ord i f ob) = next_market_order_id ob" "out_calls (upd_ord i f ob) = out_calls ob"
  by (simp_all add: upd_ord_def)

lemma upd_lvl_fields [simp]:
  "ob_ticker_id (upd_lvl n f ob) = ob_ticker_id ob" "cid_oid_to_order (upd_lvl n f ob) = cid_oid_to_order ob"
  "orders_at_price_pool (upd_lvl n f ob) = upd_obj n f (orders_at_price_pool ob)"
  "bids_by_price (upd_lvl n f ob) = bids_by_price ob" "asks_by_price (upd_lvl n f ob) = asks_by_price ob"
  "price_orders_at_price (upd_lvl n f ob) = price_orders_at_price ob" "order_pool (upd_lvl n f ob) = order_pool ob"
  "next_market_order_id (upd_lvl n f ob) = next_market_order_id ob" "out_calls (upd_lvl n f ob) = out_calls ob"
  by (simp_all add: upd_lvl_def)

lemma set_best_fields [simp]:
  "ob_ticker_id (set_best s p ob) = ob_ticker_id ob" "cid_oid_to_order (set_best s p ob) = cid_oid_to_order ob"
  "orders_at_price_pool (set_best s p ob) = orders_at_price_pool ob"
  "price_orders_at_price (set_best s p ob) = price_orders_at_price ob" "order_pool (set_best s p ob) = order_pool ob"
  "next_market_order_id (set_best s p ob) = next_market_order_id ob" "out_calls (set_best s p ob) = out_calls ob"
  by (simp_all add: set_best_def)

lemma call_fields [simp]:
  "ob_ticker_id (call c ob) = ob_ticker_id ob" "cid_oid_to_order (call c ob) = cid_oid_to_order ob"
  "orders_at_price_pool (call c ob) = orders_at_price_pool ob" "bids_by_price (call c ob) = bids_by_price ob"
  "asks_by_price (call c ob) = asks_by_price ob" "price_orders_at_price (call c ob) = price_orders_at_price ob"
  "order_pool (call c ob) = order_pool ob" "next_market_order_id (call c ob) = next_market_order_id ob"
  "out_calls (call c ob) = out_calls ob @ [c]"
  by (simp_all add: call_def)

text \<open>The two sides of the book; every other value of \<open>Side\<close> is treated as \<open>SELL\<close> by \<open>best\<close>.\<close>

definition book_side :: "Side \<Rightarrow> bool" where
  "book_side s \<longleftrightarrow> s = BUY \<or> s = SELL"

lemma best_upd [simp]:
  "best s (upd_ord i f ob) = best s ob" "best s (upd_lvl n g ob) = best s ob" "best s (call c ob) = best s ob"
  "best s (ob\<lparr>price_orders_at_price := pm\<rparr>) = best s ob" "best s (ob\<lparr>cid_oid_to_order := cm\<rparr>) = best s ob"
  "best s (ob\<lparr>orders_at_price_pool := lp\<rparr>) = best s ob" "best s (ob\<lparr>order_pool := op\<rparr>) = best s ob"
  "best s (ob\<lparr>next_market_order_id := m\<rparr>) = best s ob" "best s (set_best s p ob) = p"
  by (simp_all add: best_def set_best_def)

lemma best_set_best:
  "book_side s \<Longrightarrow> book_side t \<Longrightarrow> best t (set_best s p ob) = (if t = s then p else best t ob)"
  by (auto simp: best_def set_best_def book_side_def)

lemma book_side_simps [simp]: "book_side BUY" "book_side SELL" "book_side (other s)"
  by (simp_all add: book_side_def other_def)

lemma other_other [simp]: "book_side s \<Longrightarrow> other (other s) = s" "other s \<noteq> s"
  by (auto simp: other_def book_side_def)

lemma index_lt [simp]: "unat (priceToIndex p) < unat ME_MAX_PRICE_LEVELS"
  by (simp add: priceToIndex_def ME_MAX_PRICE_LEVELS_def unat_mod)

abbreviation pidx :: "Price \<Rightarrow> nat" where "pidx p \<equiv> unat (priceToIndex p)"

lemma getOrdersAtPrice_conv [simp]: "getOrdersAtPrice p ob = Inr (price_orders_at_price ob (pidx p))"
  by (simp add: getOrdersAtPrice_def)

lemma index_lt_not_ge [simp]: "\<not> unat ME_MAX_PRICE_LEVELS \<le> pidx p"
  using index_lt [of p] by (simp only: not_le)


section \<open>The invariant\<close>

type_synonym shape = "(nat \<times> nat list) list"

definition better :: "Side \<Rightarrow> Price \<Rightarrow> Price \<Rightarrow> bool" where
  "better s p q \<longleftrightarrow> (if s = BUY then p > q else p < q)"

definition lprice :: "MEOrderBook \<Rightarrow> nat \<Rightarrow> Price" where
  "lprice ob n = l_price (lvl ob n)"

text \<open>An order that rests in the book: its level's side and price, and its table entry.\<close>

definition order_ok :: "MEOrderBook \<Rightarrow> Side \<Rightarrow> Price \<Rightarrow> nat \<Rightarrow> bool" where
  "order_ok ob s p i \<longleftrightarrow> o_side (ord ob i) = s \<and> o_price (ord ob i) = p
     \<and> unat (o_client_id (ord ob i)) < ME_MAX_NUM_CLIENTS
     \<and> unat (o_client_order_id (ord ob i)) < unat ME_MAX_ORDER_IDS
     \<and> cid_oid_to_order ob (unat (o_client_id (ord ob i))) (unat (o_client_order_id (ord ob i))) = Some i
     \<and> allocated (order_pool ob) i"

definition level_ok :: "MEOrderBook \<Rightarrow> Side \<Rightarrow> nat \<Rightarrow> nat list \<Rightarrow> bool" where
  "level_ok ob s n is \<longleftrightarrow> is \<noteq> [] \<and> ring (onext ob) (oprev ob) is
     \<and> l_first_me_order (lvl ob n) = Some (hd is) \<and> l_side (lvl ob n) = s
     \<and> price_orders_at_price ob (pidx (lprice ob n)) = Some n
     \<and> allocated (orders_at_price_pool ob) n \<and> (\<forall>i \<in> set is. order_ok ob s (lprice ob n) i)"

definition side_ok :: "MEOrderBook \<Rightarrow> Side \<Rightarrow> shape \<Rightarrow> bool" where
  "side_ok ob s xs \<longleftrightarrow> ring (lnext ob) (lprev ob) (map fst xs) \<and> best s ob = head_ptr (map fst xs)
     \<and> (\<forall>(n, is) \<in> set xs. level_ok ob s n is) \<and> sorted_wrt (better s) (map (lprice ob \<circ> fst) xs)"

text \<open>The two tables hold nothing but the levels and the orders of the shape.\<close>

definition tables_ok :: "MEOrderBook \<Rightarrow> (Side \<Rightarrow> shape) \<Rightarrow> bool" where
  "tables_ok ob sh \<longleftrightarrow>
     (\<forall>p n. price_orders_at_price ob (pidx p) = Some n \<longrightarrow>
        (\<exists>s is. book_side s \<and> (n, is) \<in> set (sh s)) \<and> pidx (lprice ob n) = pidx p)
     \<and> (\<forall>c oid i. c < ME_MAX_NUM_CLIENTS \<longrightarrow> oid < unat ME_MAX_ORDER_IDS \<longrightarrow> cid_oid_to_order ob c oid = Some i \<longrightarrow>
        (\<exists>s n is. book_side s \<and> (n, is) \<in> set (sh s) \<and> i \<in> set is)
        \<and> unat (o_client_id (ord ob i)) = c \<and> unat (o_client_order_id (ord ob i)) = oid)"

definition book_ok :: "MEOrderBook \<Rightarrow> (Side \<Rightarrow> shape) \<Rightarrow> bool" where
  "book_ok ob sh \<longleftrightarrow> side_ok ob BUY (sh BUY) \<and> side_ok ob SELL (sh SELL) \<and> tables_ok ob sh
     \<and> pool_ok (order_pool ob) \<and> pool_ok (orders_at_price_pool ob)"

lemma book_ok_side: "book_ok ob sh \<Longrightarrow> book_side s \<Longrightarrow> side_ok ob s (sh s)"
  by (auto simp: book_ok_def book_side_def)

lemma book_okI:
  assumes "\<And>s. book_side s \<Longrightarrow> side_ok ob s (sh s)" and "tables_ok ob sh"
    and "pool_ok (order_pool ob)" and "pool_ok (orders_at_price_pool ob)"
  shows "book_ok ob sh"
  using assms by (simp add: book_ok_def)

lemma book_ok_level:
  "book_ok ob sh \<Longrightarrow> book_side s \<Longrightarrow> (n, is) \<in> set (sh s) \<Longrightarrow> level_ok ob s n is"
  using book_ok_side [of ob sh s] by (auto simp: side_ok_def)

lemma book_ok_order:
  "book_ok ob sh \<Longrightarrow> book_side s \<Longrightarrow> (n, is) \<in> set (sh s) \<Longrightarrow> i \<in> set is \<Longrightarrow> order_ok ob s (lprice ob n) i"
  using book_ok_level [of ob sh s n "is"] by (auto simp: level_ok_def)

text \<open>A block is a level of one place in the shape only, and an order of one level only.\<close>

lemma level_unique:
  assumes "book_ok ob sh" "book_side s" "book_side t" "(n, is) \<in> set (sh s)" "(n, js) \<in> set (sh t)"
  shows "s = t \<and> is = js"
proof -
  have "level_ok ob s n is" "level_ok ob t n js" using assms book_ok_level by blast+
  then have st: "s = t" by (auto simp: level_ok_def)
  have "distinct (map fst (sh s))"
    using book_ok_side [OF assms(1,2)] ring_distinct by (auto simp: side_ok_def)
  then show ?thesis using assms(4,5) st by (metis eq_key_imp_eq_value)
qed

lemma order_unique:
  assumes "book_ok ob sh" "book_side s" "book_side t" "(n, is) \<in> set (sh s)" "(m, js) \<in> set (sh t)"
    and "i \<in> set is" "i \<in> set js"
  shows "s = t \<and> n = m \<and> is = js"
proof -
  note a = book_ok_order [OF assms(1,2,4,6)] book_ok_order [OF assms(1,3,5,7)]
  then have st: "s = t" and p: "lprice ob n = lprice ob m" by (auto simp: order_ok_def)
  have "level_ok ob s n is" "level_ok ob t m js" using assms book_ok_level by blast+
  then have "n = m" using p by (auto simp: level_ok_def)
  with st show ?thesis using level_unique [OF assms(1,2,3)] assms(4,5) by auto
qed


text \<open>Changing the quantity of an order, recording a call, and counting market order ids keep the invariant.\<close>

lemma book_ok_upd [simp]:
  "book_ok (upd_ord i (\<lambda>x. x\<lparr>o_qty := q x\<rparr>) ob) sh = book_ok ob sh"
  "book_ok (call c ob) sh = book_ok ob sh" "book_ok (ob\<lparr>next_market_order_id := k\<rparr>) sh = book_ok ob sh"
  "book_ok (ob\<lparr>out_calls := cs\<rparr>) sh = book_ok ob sh"
proof -
  have *: "book_ok ob' sh = book_ok ob sh"
    if "lvl ob' = lvl ob" "\<And>j. ord ob' j = ord ob j \<or> (\<exists>q. ord ob' j = (ord ob j)\<lparr>o_qty := q\<rparr>)"
      "\<And>s. best s ob' = best s ob" "price_orders_at_price ob' = price_orders_at_price ob"
      "cid_oid_to_order ob' = cid_oid_to_order ob" "allocated (order_pool ob') = allocated (order_pool ob)"
      "orders_at_price_pool ob' = orders_at_price_pool ob" "pool_ok (order_pool ob') = pool_ok (order_pool ob)"
    for ob'
  proof -
    have o: "onext ob' = onext ob" "oprev ob' = oprev ob" "o_side (ord ob' j) = o_side (ord ob j)"
      "o_price (ord ob' j) = o_price (ord ob j)" "o_client_id (ord ob' j) = o_client_id (ord ob j)"
      "o_client_order_id (ord ob' j) = o_client_order_id (ord ob j)" for j
      using that(2) [of j] that(2) by (auto simp: onext_def oprev_def fun_eq_iff) (metis MEOrder.select_convs MEOrder.update_convs(7) MEOrder.surjective)+
    have l: "lnext ob' = lnext ob" "lprev ob' = lprev ob" "lprice ob' = lprice ob"
      using that(1) by (auto simp: lnext_def lprev_def lprice_def fun_eq_iff)
    show ?thesis
      by (simp add: book_ok_def side_ok_def level_ok_def order_ok_def tables_ok_def o l that)
  qed
  show "book_ok (upd_ord i (\<lambda>x. x\<lparr>o_qty := q x\<rparr>) ob) sh = book_ok ob sh"
    by (rule *) auto
  show "book_ok (call c ob) sh = book_ok ob sh" "book_ok (ob\<lparr>next_market_order_id := k\<rparr>) sh = book_ok ob sh"
    by (rule *; simp)+
  show "book_ok (ob\<lparr>out_calls := cs\<rparr>) sh = book_ok ob sh"
    by (rule *) (auto simp: ord_def lvl_def best_def fun_eq_iff)
qed

end
