(* ===== verification/Order_Book_Remove.thy ===== *)
theory Order_Book_Remove
  imports Order_Book_Inv
begin

text \<open>
  Removing an order from the exchange's order book: the pointer surgery of \<open>removeOrder\<close> and
  \<open>removeOrdersAtPrice\<close> takes one order out of the shape and keeps the invariant.
\<close>

section \<open>What an operation keeps\<close>

text \<open>An order without its links, and a level without its links.\<close>

definition erase :: "MEOrder \<Rightarrow> MEOrder" where
  "erase x = x\<lparr>o_prev_order := None, o_next_order := None\<rparr>"

definition lcore :: "MEOrdersAtPrice \<Rightarrow> Side \<times> Price \<times> ptr" where
  "lcore l = (l_side l, l_price l, l_first_me_order l)"

definition book_frame :: "MEOrderBook \<Rightarrow> MEOrderBook \<Rightarrow> bool" where
  "book_frame ob ob' \<longleftrightarrow> ob_ticker_id ob' = ob_ticker_id ob
     \<and> next_market_order_id ob' = next_market_order_id ob \<and> out_calls ob' = out_calls ob
     \<and> store_size (order_pool ob') = store_size (order_pool ob)
     \<and> store_size (orders_at_price_pool ob') = store_size (orders_at_price_pool ob)"

lemma erase_fields:
  "erase x = erase y \<Longrightarrow> o_side x = o_side y \<and> o_price x = o_price y \<and> o_qty x = o_qty y
     \<and> o_client_id x = o_client_id y \<and> o_client_order_id x = o_client_order_id y
     \<and> o_market_order_id x = o_market_order_id y \<and> o_priority x = o_priority y \<and> o_ticker_id x = o_ticker_id y"
  by (cases x; cases y) (simp add: erase_def)

lemma erase_links [simp]:
  "erase (x\<lparr>o_next_order := a\<rparr>) = erase x" "erase (x\<lparr>o_prev_order := a\<rparr>) = erase x"
  "erase (x\<lparr>o_next_order := a, o_prev_order := b\<rparr>) = erase x"
  "erase (x\<lparr>o_prev_order := a, o_next_order := b\<rparr>) = erase x"
  by (simp_all add: erase_def)

lemma lcore_links [simp]:
  "lcore (l\<lparr>l_next_entry := a\<rparr>) = lcore l" "lcore (l\<lparr>l_prev_entry := a\<rparr>) = lcore l"
  "lcore (l\<lparr>l_prev_entry := a, l_next_entry := b\<rparr>) = lcore l"
  by (simp_all add: lcore_def)

lemma lcore_fields:
  "lcore l = lcore m \<Longrightarrow> l_side l = l_side m \<and> l_price l = l_price m \<and> l_first_me_order l = l_first_me_order m"
  by (simp add: lcore_def)

text \<open>A level none of whose data an operation touched is still in order.\<close>

lemma level_ok_kept:
  assumes "level_ok ob s n is" and "lcore (lvl ob' n) = lcore (lvl ob n)"
    and "\<And>i. i \<in> set is \<Longrightarrow> ord ob' i = ord ob i"
    and "price_orders_at_price ob' (pidx (lprice ob n)) = price_orders_at_price ob (pidx (lprice ob n))"
    and "allocated (orders_at_price_pool ob') n"
    and "\<And>i. i \<in> set is \<Longrightarrow> allocated (order_pool ob') i"
    and "\<And>i c k. i \<in> set is \<Longrightarrow> cid_oid_to_order ob c k = Some i \<Longrightarrow> cid_oid_to_order ob' c k = Some i"
  shows "level_ok ob' s n is"
proof -
  have "ring (onext ob') (oprev ob') is = ring (onext ob) (oprev ob) is"
    using assms(3) by (intro ring_cong) (auto simp: onext_def oprev_def)
  moreover have "lprice ob' n = lprice ob n" using lcore_fields [OF assms(2)] by (simp add: lprice_def)
  ultimately show ?thesis
    using assms lcore_fields [OF assms(2)] by (auto simp: level_ok_def order_ok_def)
qed


section \<open>Removing a price level\<close>

lemma lnext_fun: "lnext (upd_lvl n f ob) = (lnext ob)(n := l_next_entry (f (lvl ob n)))"
  "lprev (upd_lvl n f ob) = (lprev ob)(n := l_prev_entry (f (lvl ob n)))"
  by (auto simp: lnext_def lprev_def)

lemma onext_fun: "onext (upd_ord n f ob) = (onext ob)(n := o_next_order (f (ord ob n)))"
  "oprev (upd_ord n f ob) = (oprev ob)(n := o_prev_order (f (ord ob n)))"
  by (auto simp: onext_def oprev_def)

definition level_unlinked :: "nat \<Rightarrow> MEOrderBook \<Rightarrow> MEOrderBook \<Rightarrow> bool" where
  "level_unlinked n ob ob' \<longleftrightarrow> book_frame ob ob' \<and> order_pool ob' = order_pool ob
     \<and> cid_oid_to_order ob' = cid_oid_to_order ob \<and> (\<forall>m. lcore (lvl ob' m) = lcore (lvl ob m))
     \<and> allocated (orders_at_price_pool ob') = (allocated (orders_at_price_pool ob))(n := False)
     \<and> (pool_ok (orders_at_price_pool ob) \<longrightarrow> pool_ok (orders_at_price_pool ob'))
     \<and> (can_allocate (orders_at_price_pool ob) \<longrightarrow> can_allocate (orders_at_price_pool ob'))"

lemma removeOrdersAtPrice_ok:
  assumes r: "ring (lnext ob) (lprev ob) (ns @ n # ms)" and b: "best s ob = head_ptr (ns @ n # ms)"
    and n: "price_orders_at_price ob (pidx p) = Some n" and al: "allocated (orders_at_price_pool ob) n"
    and s: "book_side s"
  shows "\<exists>ob'. removeOrdersAtPrice s p ob = Inr ob' \<and> level_unlinked n ob ob'
    \<and> ring (lnext ob') (lprev ob') (ns @ ms) \<and> best s ob' = head_ptr (ns @ ms)
    \<and> best (other s) ob' = best (other s) ob
    \<and> (\<forall>m. m \<notin> set (ns @ n # ms) \<longrightarrow> lvl ob' m = lvl ob m)
    \<and> price_orders_at_price ob' = (price_orders_at_price ob)(pidx p := None)"
proof -
  obtain x y where x: "lprev ob n = Some x" and y: "lnext ob n = Some y"
    and xin: "x \<in> set (ns @ n # ms)" and yin: "y \<in> set (ns @ n # ms)"
    using ring_member_Some [OF r, of n] by auto
  have alone: "lnext ob n = Some n \<longleftrightarrow> ns @ ms = []" "lprev ob n = Some n \<longleftrightarrow> ns @ ms = []"
    using ring_alone_next [OF r, of n] ring_alone_prev [OF r, of n] by (auto simp: append_eq_Cons_conv)
  have nn: "n \<notin> set (ns @ ms)" using ring_distinct [OF r] by auto
  show ?thesis
  proof (cases "ns @ ms = []")
    case True
    let ?ob = "set_best s None ob"
    obtain q where q: "deallocate (Some n) (orders_at_price_pool ob) = Inr q"
      "allocated q = (allocated (orders_at_price_pool ob))(n := False)" "obj q = obj (orders_at_price_pool ob)"
      "store_size q = store_size (orders_at_price_pool ob)"
      "pool_ok (orders_at_price_pool ob) \<longrightarrow> pool_ok q" "can_allocate (orders_at_price_pool ob) \<longrightarrow> can_allocate q"
      using deallocate_allocated [OF al] by auto
    have "removeOrdersAtPrice s p ob
      = Inr (?ob\<lparr>price_orders_at_price := (price_orders_at_price ob)(pidx p := None), orders_at_price_pool := q\<rparr>)"
      using True alone n q(1) by (simp add: removeOrdersAtPrice_def lnext_def)
    then show ?thesis
      using True q s by (auto simp: level_unlinked_def book_frame_def best_set_best lvl_def fun_eq_iff)
  next
    case False
    have xn: "x \<noteq> n" "y \<noteq> n" using False alone x y by auto
    let ?ob1 = "upd_lvl x (\<lambda>l. l\<lparr>l_next_entry := Some y\<rparr>) ob"
    let ?ob2 = "upd_lvl y (\<lambda>l. l\<lparr>l_prev_entry := Some x\<rparr>) ?ob1"
    let ?ob3 = "if Some n = best s ob then set_best s (Some y) ?ob2 else ?ob2"
    let ?ob4 = "upd_lvl n (\<lambda>l. l\<lparr>l_prev_entry := None, l_next_entry := None\<rparr>) ?ob3"
    have al4: "allocated (orders_at_price_pool ?ob4) n" using al by auto
    obtain q where q: "deallocate (Some n) (orders_at_price_pool ?ob4) = Inr q"
      "allocated q = (allocated (orders_at_price_pool ?ob4))(n := False)"
      "obj q = obj (orders_at_price_pool ?ob4)"
      "store_size q = store_size (orders_at_price_pool ?ob4)"
      "pool_ok (orders_at_price_pool ?ob4) \<longrightarrow> pool_ok q" "can_allocate (orders_at_price_pool ?ob4) \<longrightarrow> can_allocate q"
      using deallocate_allocated [OF al4] by auto
    let ?ob5 = "?ob4\<lparr>price_orders_at_price := (price_orders_at_price ob)(pidx p := None), orders_at_price_pool := q\<rparr>"
    have comp: "removeOrdersAtPrice s p ob = Inr ?ob5"
      using False alone n x y xn q(1)
      by (simp add: removeOrdersAtPrice_def lnext_def lprev_def Let_def cong: if_cong)
    have lv: "lvl ?ob5 = lvl ?ob4" using q(3) by (auto simp: lvl_def fun_eq_iff)
    have l4: "lnext ?ob5 = (lnext ob)(x := Some y, n := None)" "lprev ?ob5 = (lprev ob)(y := Some x, n := None)"
      unfolding lnext_def lprev_def lv using xn by (auto simp: fun_eq_iff)
    have "ring ((lnext ob)(x := Some y)) ((lprev ob)(y := Some x)) (ns @ ms)"
      using ring_unlink [OF r False x y] .
    then have rg: "ring (lnext ?ob5) (lprev ?ob5) (ns @ ms)" using nn unfolding l4 by simp
    have yy: "y = hd (ms @ ns)" using ring_next [OF r] y False by (cases ms) (auto simp: hd_append)
    have bst: "best s ?ob5 = head_ptr (ns @ ms)"
      using b yy False nn by (cases ns) (auto simp: head_ptr_conv best_set_best s)
    have fr: "level_unlinked n ob ?ob5"
      unfolding level_unlinked_def lv using q by (auto simp: book_frame_def)
    have out: "\<forall>m. m \<notin> set (ns @ n # ms) \<longrightarrow> lvl ?ob5 m = lvl ob m"
      unfolding lv using xin yin by auto
    have bo: "best (other s) ?ob5 = best (other s) ob" using s by (simp add: best_set_best)
    show ?thesis by (intro exI [of _ ?ob5] conjI comp rg bst fr out bo) simp
  qed
qed


section \<open>Removing an order\<close>

text \<open>The last two statements of \<open>removeOrder\<close>: the table entry is cleared and the block freed.\<close>

definition order_dropped :: "nat \<Rightarrow> MEOrderBook \<Rightarrow> MEOrderBook \<Rightarrow> bool" where
  "order_dropped i ob ob' \<longleftrightarrow> book_frame ob ob'
     \<and> cid_oid_to_order ob' = (cid_oid_to_order ob)(unat (o_client_id (ord ob i)) :=
         (cid_oid_to_order ob (unat (o_client_id (ord ob i))))(unat (o_client_order_id (ord ob i)) := None))
     \<and> allocated (order_pool ob') = (allocated (order_pool ob))(i := False)
     \<and> (pool_ok (order_pool ob) \<longrightarrow> pool_ok (order_pool ob'))
     \<and> (can_allocate (order_pool ob) \<longrightarrow> can_allocate (order_pool ob'))"

lemma drop_order_ok:
  assumes "unat (o_client_id (ord ob i)) < ME_MAX_NUM_CLIENTS"
    and "unat (o_client_order_id (ord ob i)) < unat ME_MAX_ORDER_IDS" and al: "allocated (order_pool ob) i"
  shows "\<exists>ob'. bindE (put_order (o_client_id (ord ob i)) (o_client_order_id (ord ob i)) None ob)
      (\<lambda>ob''. bindE (deallocate (Some i) (order_pool ob'')) (\<lambda>pool. Inr (ob''\<lparr>order_pool := pool\<rparr>))) = Inr ob'
    \<and> order_dropped i ob ob' \<and> ord ob' = ord ob \<and> lvl ob' = lvl ob
    \<and> orders_at_price_pool ob' = orders_at_price_pool ob \<and> (\<forall>s. best s ob' = best s ob)
    \<and> price_orders_at_price ob' = price_orders_at_price ob"
proof -
  obtain q where q: "deallocate (Some i) (order_pool ob) = Inr q"
    "allocated q = (allocated (order_pool ob))(i := False)" "obj q = obj (order_pool ob)"
    "store_size q = store_size (order_pool ob)"
    "pool_ok (order_pool ob) \<longrightarrow> pool_ok q" "can_allocate (order_pool ob) \<longrightarrow> can_allocate q"
    using deallocate_allocated [OF al] by auto
  have "ord (ob\<lparr>order_pool := q\<rparr>) = ord ob" using q(3) by (auto simp: ord_def fun_eq_iff)
  then show ?thesis
    using assms q by (auto simp: put_order_def order_dropped_def book_frame_def)
qed

text \<open>An order that shares its level with others is unlinked from them.\<close>

lemma removeOrder_linked:
  assumes r: "ring (onext ob) (oprev ob) (is @ i # js)" and ne: "is @ js \<noteq> []"
    and pm: "price_orders_at_price ob (pidx (o_price (ord ob i))) = Some n"
    and first: "l_first_me_order (lvl ob n) = Some (hd (is @ i # js))"
    and rng: "unat (o_client_id (ord ob i)) < ME_MAX_NUM_CLIENTS"
      "unat (o_client_order_id (ord ob i)) < unat ME_MAX_ORDER_IDS" "allocated (order_pool ob) i"
  shows "\<exists>ob'. removeOrder (Some i) ob = Inr ob' \<and> order_dropped i ob ob'
    \<and> (\<forall>j. erase (ord ob' j) = erase (ord ob j)) \<and> (\<forall>j. j \<notin> set (is @ i # js) \<longrightarrow> ord ob' j = ord ob j)
    \<and> ring (onext ob') (oprev ob') (is @ js)
    \<and> lvl ob' = (lvl ob)(n := (lvl ob n)\<lparr>l_first_me_order := Some (hd (is @ js))\<rparr>)
    \<and> (\<forall>s. best s ob' = best s ob) \<and> price_orders_at_price ob' = price_orders_at_price ob
    \<and> allocated (orders_at_price_pool ob') = allocated (orders_at_price_pool ob)
    \<and> pool_ok (orders_at_price_pool ob') = pool_ok (orders_at_price_pool ob)
    \<and> can_allocate (orders_at_price_pool ob') = can_allocate (orders_at_price_pool ob)"
proof -
  obtain x y where x: "oprev ob i = Some x" and y: "onext ob i = Some y"
    and xin: "x \<in> set (is @ i # js)" and yin: "y \<in> set (is @ i # js)"
    using ring_member_Some [OF r, of i] by auto
  have nin: "i \<notin> set (is @ js)" using ring_distinct [OF r] by auto
  have "onext ob i = Some i \<longleftrightarrow> is @ js = []" "oprev ob i = Some i \<longleftrightarrow> is @ js = []"
    using ring_alone_next [OF r, of i] ring_alone_prev [OF r, of i] by (auto simp: append_eq_Cons_conv)
  with ne x y have xi: "x \<noteq> i" "y \<noteq> i" by auto
  let ?ob1 = "upd_ord x (\<lambda>x. x\<lparr>o_next_order := Some y\<rparr>) ob"
  let ?ob2 = "upd_ord y (\<lambda>z. z\<lparr>o_prev_order := Some x\<rparr>) ?ob1"
  let ?ob3 = "if l_first_me_order (lvl ob n) = Some i
              then upd_lvl n (\<lambda>l. l\<lparr>l_first_me_order := Some y\<rparr>) ?ob2 else ?ob2"
  define ob4 where "ob4 = upd_ord i (\<lambda>x. x\<lparr>o_prev_order := None, o_next_order := None\<rparr>) ?ob3"
  have ord4: "ord ob4 = ord (upd_ord i (\<lambda>x. x\<lparr>o_prev_order := None, o_next_order := None\<rparr>) ?ob2)"
    and lvl4: "lvl ob4 = lvl ?ob3" and best4: "best s ob4 = best s ob" for s
    by (auto simp: ob4_def fun_eq_iff)
  have frame4: "book_frame ob ob4" "cid_oid_to_order ob4 = cid_oid_to_order ob"
    "price_orders_at_price ob4 = price_orders_at_price ob"
    "allocated (order_pool ob4) = allocated (order_pool ob)" "pool_ok (order_pool ob4) = pool_ok (order_pool ob)"
    "can_allocate (order_pool ob4) = can_allocate (order_pool ob)"
    "allocated (orders_at_price_pool ob4) = allocated (orders_at_price_pool ob)"
    "pool_ok (orders_at_price_pool ob4) = pool_ok (orders_at_price_pool ob)"
    "can_allocate (orders_at_price_pool ob4) = can_allocate (orders_at_price_pool ob)"
    by (auto simp: ob4_def book_frame_def)
  have erase4: "erase (ord ob4 j) = erase (ord ob j)" for j by (simp add: ord4)
  note e = erase_fields [OF erase4 [of i]]
  obtain ob' where ob': "bindE (put_order (o_client_id (ord ob4 i)) (o_client_order_id (ord ob4 i)) None ob4)
      (\<lambda>ob''. bindE (deallocate (Some i) (order_pool ob'')) (\<lambda>pool. Inr (ob''\<lparr>order_pool := pool\<rparr>))) = Inr ob'"
    "order_dropped i ob4 ob'" "ord ob' = ord ob4" "lvl ob' = lvl ob4"
    "orders_at_price_pool ob' = orders_at_price_pool ob4" "\<forall>s. best s ob' = best s ob4"
    "price_orders_at_price ob' = price_orders_at_price ob4"
    using drop_order_ok [of ob4 i] rng e frame4(4) by auto
  have comp: "removeOrder (Some i) ob = Inr ob'"
    using x y xi pm ob'(1)
    by (simp add: removeOrder_def oprev_def onext_def Let_def ob4_def cong: if_cong)
  have "order_dropped i ob ob'"
    using ob'(2) frame4 e by (auto simp: order_dropped_def book_frame_def)
  moreover have "\<forall>j. erase (ord ob' j) = erase (ord ob j)" using erase4 ob'(3) by simp
  moreover have "\<forall>j. j \<notin> set (is @ i # js) \<longrightarrow> ord ob' j = ord ob j" using xin yin ob'(3) by (auto simp: ord4)
  moreover have "ring (onext ob') (oprev ob') (is @ js)"
  proof -
    have "onext ob' = (onext ob)(x := Some y, i := None)" "oprev ob' = (oprev ob)(y := Some x, i := None)"
      unfolding onext_def oprev_def ob'(3) ord4 using xi by (auto simp: fun_eq_iff)
    then show ?thesis using ring_unlink [OF r ne x y] nin by simp
  qed
  moreover have "lvl ob' = (lvl ob)(n := (lvl ob n)\<lparr>l_first_me_order := Some (hd (is @ js))\<rparr>)"
  proof (cases "is")
    case Nil
    then have "y = hd js" using ring_next [OF r] y ne by (cases js) auto
    then show ?thesis using Nil first ob'(4) by (simp add: lvl4)
  next
    case (Cons k ks)
    then have "k \<noteq> i" using nin by auto
    then have "lvl ob' = lvl ob" using Cons first ob'(4) by (simp add: lvl4)
    moreover have "(lvl ob n)\<lparr>l_first_me_order := Some k\<rparr> = lvl ob n" using Cons first by simp
    ultimately show ?thesis using Cons by (auto simp: fun_eq_iff)
  qed
  ultimately show ?thesis using comp ob'(5,6,7) frame4 best4 by auto
qed

text \<open>The only order of a level takes the level with it.\<close>

lemma removeOrder_alone:
  assumes o: "oprev ob i = Some i" and r: "ring (lnext ob) (lprev ob) (ns @ n # ms)"
    and b: "best s ob = head_ptr (ns @ n # ms)" and s: "o_side (ord ob i) = s" "book_side s"
    and pm: "price_orders_at_price ob (pidx (o_price (ord ob i))) = Some n"
    and al: "allocated (orders_at_price_pool ob) n"
    and rng: "unat (o_client_id (ord ob i)) < ME_MAX_NUM_CLIENTS"
      "unat (o_client_order_id (ord ob i)) < unat ME_MAX_ORDER_IDS" "allocated (order_pool ob) i"
  shows "\<exists>ob'. removeOrder (Some i) ob = Inr ob' \<and> order_dropped i ob ob' \<and> ord ob' = ord ob
    \<and> (\<forall>m. lcore (lvl ob' m) = lcore (lvl ob m)) \<and> (\<forall>m. m \<notin> set (ns @ n # ms) \<longrightarrow> lvl ob' m = lvl ob m)
    \<and> ring (lnext ob') (lprev ob') (ns @ ms) \<and> best s ob' = head_ptr (ns @ ms)
    \<and> best (other s) ob' = best (other s) ob
    \<and> price_orders_at_price ob' = (price_orders_at_price ob)(pidx (o_price (ord ob i)) := None)
    \<and> allocated (orders_at_price_pool ob') = (allocated (orders_at_price_pool ob))(n := False)
    \<and> (pool_ok (orders_at_price_pool ob) \<longrightarrow> pool_ok (orders_at_price_pool ob'))
    \<and> (can_allocate (orders_at_price_pool ob) \<longrightarrow> can_allocate (orders_at_price_pool ob'))"
proof -
  obtain ob1 where ob1: "removeOrdersAtPrice s (o_price (ord ob i)) ob = Inr ob1" "level_unlinked n ob ob1"
    "ring (lnext ob1) (lprev ob1) (ns @ ms)" "best s ob1 = head_ptr (ns @ ms)"
    "best (other s) ob1 = best (other s) ob" "\<forall>m. m \<notin> set (ns @ n # ms) \<longrightarrow> lvl ob1 m = lvl ob m"
    "price_orders_at_price ob1 = (price_orders_at_price ob)(pidx (o_price (ord ob i)) := None)"
    using removeOrdersAtPrice_ok [OF r b pm al s(2)] by blast
  have ord1: "ord ob1 = ord ob" "order_pool ob1 = order_pool ob"
    using ob1(2) by (auto simp: level_unlinked_def ord_def fun_eq_iff)
  obtain ob' where ob': "bindE (put_order (o_client_id (ord ob1 i)) (o_client_order_id (ord ob1 i)) None ob1)
      (\<lambda>ob''. bindE (deallocate (Some i) (order_pool ob'')) (\<lambda>pool. Inr (ob''\<lparr>order_pool := pool\<rparr>))) = Inr ob'"
    "order_dropped i ob1 ob'" "ord ob' = ord ob1" "lvl ob' = lvl ob1"
    "orders_at_price_pool ob' = orders_at_price_pool ob1" "\<forall>s. best s ob' = best s ob1"
    "price_orders_at_price ob' = price_orders_at_price ob1"
    using drop_order_ok [of ob1 i] rng ord1 by auto
  have comp: "removeOrder (Some i) ob = Inr ob'"
    using o s pm ob1(1) ob'(1) by (simp add: removeOrder_def oprev_def)
  have "order_dropped i ob ob'"
    using ob'(2) ob1(2) ord1 by (auto simp: order_dropped_def book_frame_def level_unlinked_def)
  moreover have "lnext ob' = lnext ob1" "lprev ob' = lprev ob1"
    using ob'(4) by (auto simp: lnext_def lprev_def fun_eq_iff)
  ultimately show ?thesis
    using comp ob1 ob' ord1 by (auto simp: level_unlinked_def)
qed


section \<open>The invariant after a removal\<close>

definition without :: "Side \<Rightarrow> shape \<Rightarrow> nat \<Rightarrow> nat list \<Rightarrow> shape \<Rightarrow> (Side \<Rightarrow> shape) \<Rightarrow> Side \<Rightarrow> shape" where
  "without s xs n is ys sh = sh(s := xs @ (if is = [] then [] else [(n, is)]) @ ys)"

text \<open>What the two ways of removing an order have in common.\<close>

definition removed_from :: "Side \<Rightarrow> shape \<Rightarrow> nat \<Rightarrow> nat list \<Rightarrow> nat \<Rightarrow> nat list \<Rightarrow> shape \<Rightarrow> MEOrderBook \<Rightarrow> MEOrderBook \<Rightarrow> bool" where
  "removed_from s xs n is i js ys ob ob' \<longleftrightarrow> order_dropped i ob ob'
     \<and> (\<forall>j. erase (ord ob' j) = erase (ord ob j)) \<and> (\<forall>j. j \<notin> set (is @ i # js) \<longrightarrow> ord ob' j = ord ob j)
     \<and> ring (onext ob') (oprev ob') (is @ js)
     \<and> (\<forall>m. m \<noteq> n \<longrightarrow> lcore (lvl ob' m) = lcore (lvl ob m))
     \<and> (is @ js \<noteq> [] \<longrightarrow> lcore (lvl ob' n) = (l_side (lvl ob n), l_price (lvl ob n), Some (hd (is @ js))))
     \<and> (\<forall>m. m \<notin> set (map fst xs @ n # map fst ys) \<longrightarrow> lvl ob' m = lvl ob m)
     \<and> ring (lnext ob') (lprev ob') (map fst xs @ (if is @ js = [] then [] else [n]) @ map fst ys)
     \<and> best s ob' = head_ptr (map fst xs @ (if is @ js = [] then [] else [n]) @ map fst ys)
     \<and> best (other s) ob' = best (other s) ob
     \<and> price_orders_at_price ob' =
         (if is @ js = [] then (price_orders_at_price ob)(pidx (lprice ob n) := None) else price_orders_at_price ob)
     \<and> allocated (orders_at_price_pool ob') =
         (if is @ js = [] then (allocated (orders_at_price_pool ob))(n := False) else allocated (orders_at_price_pool ob))
     \<and> (pool_ok (orders_at_price_pool ob) \<longrightarrow> pool_ok (orders_at_price_pool ob'))
     \<and> (can_allocate (orders_at_price_pool ob) \<longrightarrow> can_allocate (orders_at_price_pool ob'))"

lemma removeOrder_removed_from:
  assumes ok: "book_ok ob sh" and s: "book_side s" and sh: "sh s = xs @ (n, is @ i # js) # ys"
  shows "\<exists>ob'. removeOrder (Some i) ob = Inr ob' \<and> removed_from s xs n is i js ys ob ob'"
proof -
  have lo: "level_ok ob s n (is @ i # js)" using book_ok_level [OF ok s] sh by auto
  then have oo: "order_ok ob s (lprice ob n) i" by (auto simp: level_ok_def)
  have so: "side_ok ob s (xs @ (n, is @ i # js) # ys)" using book_ok_side [OF ok s] sh by simp
  have rl: "ring (lnext ob) (lprev ob) (map fst xs @ n # map fst ys)"
    "best s ob = head_ptr (map fst xs @ n # map fst ys)" using so by (auto simp: side_ok_def)
  have ro: "ring (onext ob) (oprev ob) (is @ i # js)" using lo by (simp add: level_ok_def)
  have pm: "price_orders_at_price ob (pidx (o_price (ord ob i))) = Some n"
    using lo oo by (simp add: level_ok_def order_ok_def)
  have pr: "o_price (ord ob i) = lprice ob n" using oo by (simp add: order_ok_def)
  show ?thesis
  proof (cases "is @ js = []")
    case True
    then have "oprev ob i = Some i" using ro by simp
    from removeOrder_alone [OF this rl] oo lo pm s True show ?thesis
      by (fastforce simp: order_ok_def level_ok_def removed_from_def pr)
  next
    case False
    obtain ob' where ob': "removeOrder (Some i) ob = Inr ob'" "order_dropped i ob ob'"
      "\<forall>j. erase (ord ob' j) = erase (ord ob j)" "\<forall>j. j \<notin> set (is @ i # js) \<longrightarrow> ord ob' j = ord ob j"
      "ring (onext ob') (oprev ob') (is @ js)"
      "lvl ob' = (lvl ob)(n := (lvl ob n)\<lparr>l_first_me_order := Some (hd (is @ js))\<rparr>)"
      "\<forall>s. best s ob' = best s ob" "price_orders_at_price ob' = price_orders_at_price ob"
      "allocated (orders_at_price_pool ob') = allocated (orders_at_price_pool ob)"
      "pool_ok (orders_at_price_pool ob') = pool_ok (orders_at_price_pool ob)"
      "can_allocate (orders_at_price_pool ob') = can_allocate (orders_at_price_pool ob)"
      using removeOrder_linked [OF ro False pm] lo oo by (auto simp: level_ok_def order_ok_def)
    have "lnext ob' = lnext ob" "lprev ob' = lprev ob" using ob'(6) by (auto simp: lnext_def lprev_def fun_eq_iff)
    then have "removed_from s xs n is i js ys ob ob'"
      using ob' False rl by (auto simp: removed_from_def lcore_def)
    with ob'(1) show ?thesis by blast
  qed
qed

lemma removed_from_order:
  assumes ok: "book_ok ob sh" and s: "book_side s" and sh: "sh s = xs @ (n, is @ i # js) # ys"
    and rm: "removed_from s xs n is i js ys ob ob'"
    and t: "book_side t" "(m, ks) \<in> set (sh t)" "k \<in> set ks" "k \<noteq> i"
  shows "allocated (order_pool ob') k" "order_ok ob' t (lprice ob m) k"
    "cid_oid_to_order ob c d = Some k \<Longrightarrow> cid_oid_to_order ob' c d = Some k"
proof -
  have oi: "order_ok ob s (lprice ob n) i" using book_ok_order [OF ok s, of n "is @ i # js" i] sh by auto
  have ok': "order_ok ob t (lprice ob m) k" using book_ok_order [OF ok t(1-3)] .
  have e: "erase (ord ob' k) = erase (ord ob k)" using rm by (simp add: removed_from_def)
  show a: "allocated (order_pool ob') k"
    using ok' t(4) rm by (simp add: order_ok_def removed_from_def order_dropped_def)
  have c: "cid_oid_to_order ob c d = Some k \<Longrightarrow> cid_oid_to_order ob' c d = Some k" for c d
    using oi rm t(4) by (auto simp: removed_from_def order_dropped_def order_ok_def)
  then show "cid_oid_to_order ob c d = Some k \<Longrightarrow> cid_oid_to_order ob' c d = Some k" .
  show "order_ok ob' t (lprice ob m) k" using ok' a c erase_fields [OF e] by (simp add: order_ok_def)
qed

lemma removed_from_level:
  assumes ok: "book_ok ob sh" and s: "book_side s" and sh: "sh s = xs @ (n, is @ i # js) # ys"
    and rm: "removed_from s xs n is i js ys ob ob'"
    and t: "book_side t" "(m, ks) \<in> set (without s xs n (is @ js) ys sh t)"
  shows "level_ok ob' t m ks \<and> lprice ob' m = lprice ob m"
proof (cases "m = n")
  case True
  have mem: "(n, is @ i # js) \<in> set (sh s)" using sh by simp
  have "distinct (map fst (sh s))" using book_ok_side [OF ok s] ring_distinct by (auto simp: side_ok_def)
  then have out: "(n, ks') \<notin> set xs" "(n, ks') \<notin> set ys" for ks'
    using sh by (auto simp: image_iff)
  have ts: "t = s \<and> ks = is @ js \<and> is @ js \<noteq> []"
  proof (cases "t = s")
    case True
    then show ?thesis using t(2) out \<open>m = n\<close> by (auto simp: without_def split: if_splits)
  next
    case False
    then have "(n, ks) \<in> set (sh t)" using t(2) True by (simp add: without_def)
    then show ?thesis using level_unique [OF ok s t(1) mem] False by auto
  qed
  have lo: "level_ok ob s n (is @ i # js)" using book_ok_level [OF ok s mem] .
  have dist: "i \<notin> set (is @ js)" using lo ring_distinct by (fastforce simp: level_ok_def)
  have lc: "l_side (lvl ob' n) = s" "lprice ob' n = lprice ob n" "l_first_me_order (lvl ob' n) = Some (hd (is @ js))"
    using rm ts lo by (auto simp: removed_from_def lcore_def lprice_def level_ok_def)
  have "\<forall>k \<in> set (is @ js). order_ok ob' s (lprice ob n) k"
    using removed_from_order(2) [OF ok s sh rm s mem] dist by auto
  then show ?thesis
    using ts lc lo rm True unfolding level_ok_def removed_from_def by auto
next
  case False
  have mem: "(n, is @ i # js) \<in> set (sh s)" using sh by simp
  have m': "(m, ks) \<in> set (sh t)" using t(2) sh False by (auto simp: without_def split: if_splits)
  have lo: "level_ok ob t m ks" using book_ok_level [OF ok t(1) m'] .
  have ne: "k \<notin> set (is @ i # js)" if "k \<in> set ks" for k
    using order_unique [OF ok s t(1) mem m', of k] that False by auto
  have lc: "lcore (lvl ob' m) = lcore (lvl ob m)" using rm False by (simp add: removed_from_def)
  have "price_orders_at_price ob' (pidx (lprice ob m)) = price_orders_at_price ob (pidx (lprice ob m))"
  proof -
    have "price_orders_at_price ob (pidx (lprice ob n)) = Some n"
      using book_ok_level [OF ok s mem] by (simp add: level_ok_def)
    then have "pidx (lprice ob m) \<noteq> pidx (lprice ob n)" using lo False by (auto simp: level_ok_def)
    then show ?thesis using rm by (simp add: removed_from_def)
  qed
  moreover have "k \<noteq> i" if "k \<in> set ks" for k using ne that by auto
  ultimately have "level_ok ob' t m ks"
    using lo rm ne removed_from_order(1,3) [OF ok s sh rm t(1) m'] False
    by (intro level_ok_kept [OF lo lc]) (auto simp: removed_from_def level_ok_def)
  moreover have "lprice ob' m = lprice ob m" using lcore_fields [OF lc] by (simp add: lprice_def)
  ultimately show ?thesis ..
qed

lemma removed_from_tables:
  assumes ok: "book_ok ob sh" and s: "book_side s" and sh: "sh s = xs @ (n, is @ i # js) # ys"
    and rm: "removed_from s xs n is i js ys ob ob'"
  shows "tables_ok ob' (without s xs n (is @ js) ys sh)"
proof -
  let ?sh = "without s xs n (is @ js) ys sh"
  have mem: "(n, is @ i # js) \<in> set (sh s)" using sh by simp
  have tb: "tables_ok ob sh" using ok by (simp add: book_ok_def)
  note lev = removed_from_level [OF ok s sh rm]
  have keep: "\<exists>ks'. (m, ks') \<in> set (?sh t) \<and> set ks - {i} \<subseteq> set ks'"
    if "(m, ks) \<in> set (sh t)" "book_side t" "m \<noteq> n \<or> is @ js \<noteq> []" for m ks t
  proof (cases "(m, ks) = (n, is @ i # js) \<and> t = s")
    case True
    then show ?thesis using that sh by (intro exI [of _ "is @ js"]) (auto simp: without_def)
  next
    case False
    then have "(m, ks) \<in> set (?sh t)" using that(1) sh by (auto simp: without_def)
    then show ?thesis by auto
  qed
  have "(\<exists>t ks. book_side t \<and> (m, ks) \<in> set (?sh t)) \<and> pidx (lprice ob' m) = pidx p"
    if "price_orders_at_price ob' (pidx p) = Some m" for p m
  proof -
    have pm: "price_orders_at_price ob (pidx p) = Some m"
      and ne: "is @ js = [] \<longrightarrow> pidx p \<noteq> pidx (lprice ob n)"
      using that rm by (auto simp: removed_from_def split: if_splits)
    then obtain t ks where t: "book_side t" "(m, ks) \<in> set (sh t)" "pidx (lprice ob m) = pidx p"
      using tb pm unfolding tables_ok_def by blast
    then have "m \<noteq> n \<or> is @ js \<noteq> []" using ne by auto
    from keep [OF t(2,1) this] obtain ks' where "(m, ks') \<in> set (?sh t)" by auto
    with lev [OF t(1) this] t show ?thesis by auto
  qed
  moreover have "(\<exists>t m ks. book_side t \<and> (m, ks) \<in> set (?sh t) \<and> k \<in> set ks)
      \<and> unat (o_client_id (ord ob' k)) = c \<and> unat (o_client_order_id (ord ob' k)) = d"
    if "c < ME_MAX_NUM_CLIENTS" "d < unat ME_MAX_ORDER_IDS" "cid_oid_to_order ob' c d = Some k" for c d k
  proof -
    note rng = that(1,2)
    have cm: "cid_oid_to_order ob c d = Some k"
      and ne: "(c, d) \<noteq> (unat (o_client_id (ord ob i)), unat (o_client_order_id (ord ob i)))"
      using that(3) rm by (auto simp: removed_from_def order_dropped_def split: if_splits)
    then obtain t m ks where t: "book_side t" "(m, ks) \<in> set (sh t)" "k \<in> set ks"
      "unat (o_client_id (ord ob k)) = c" "unat (o_client_order_id (ord ob k)) = d"
      using tb rng unfolding tables_ok_def by blast
    have ki: "k \<noteq> i" using ne t(4,5) by auto
    have "m \<noteq> n \<or> is @ js \<noteq> []" using t(1-3) ki level_unique [OF ok s t(1) mem, of ks] by auto
    from keep [OF t(2,1) this] have "\<exists>ks'. (m, ks') \<in> set (?sh t) \<and> k \<in> set ks'" using t(3) ki by auto
    moreover have "erase (ord ob' k) = erase (ord ob k)" using rm by (simp add: removed_from_def)
    note e = erase_fields [OF this]
    ultimately show ?thesis using t(1,4,5) e by auto
  qed
  ultimately show ?thesis unfolding tables_ok_def by blast
qed

lemma removed_from_ok:
  assumes ok: "book_ok ob sh" and s: "book_side s" and sh: "sh s = xs @ (n, is @ i # js) # ys"
    and rm: "removed_from s xs n is i js ys ob ob'"
  shows "book_ok ob' (without s xs n (is @ js) ys sh)"
proof (rule book_okI)
  let ?sh = "without s xs n (is @ js) ys sh"
  note lev = removed_from_level [OF ok s sh rm]
  show "tables_ok ob' ?sh" by (rule removed_from_tables [OF ok s sh rm])
  show "pool_ok (order_pool ob')" "pool_ok (orders_at_price_pool ob')"
    using ok rm by (auto simp: book_ok_def removed_from_def order_dropped_def)
  show "side_ok ob' t (?sh t)" if t: "book_side t" for t
  proof -
    have so: "side_ok ob t (sh t)" using book_ok_side [OF ok t] .
    have "map (lprice ob' \<circ> fst) (?sh t) = map (lprice ob \<circ> fst) (?sh t)" using lev [OF t] by auto
    moreover have "sorted_wrt (better t) (map (lprice ob \<circ> fst) (?sh t))"
      using so sh by (fastforce simp: side_ok_def without_def sorted_wrt_append)
    ultimately have "sorted_wrt (better t) (map (lprice ob' \<circ> fst) (?sh t))" by (simp only:)
    moreover have "ring (lnext ob') (lprev ob') (map fst (?sh t)) \<and> best t ob' = head_ptr (map fst (?sh t))"
    proof (cases "t = s")
      case True
      then show ?thesis using rm by (auto simp: removed_from_def without_def)
    next
      case False
      then have "t = other s" using s t by (auto simp: book_side_def other_def)
      moreover have "lvl ob' m = lvl ob m" if "m \<in> set (map fst (sh t))" for m
      proof -
        have "m \<notin> set (map fst (sh s))"
          using level_unique [OF ok s t] that False by fastforce
        then show ?thesis using rm sh by (simp add: removed_from_def)
      qed
      then have "ring (lnext ob') (lprev ob') (map fst (sh t)) = ring (lnext ob) (lprev ob) (map fst (sh t))"
        by (intro ring_cong) (auto simp: lnext_def lprev_def)
      ultimately show ?thesis using so rm False by (simp add: side_ok_def without_def removed_from_def)
    qed
    ultimately show ?thesis using lev [OF t] by (auto simp: side_ok_def)
  qed
qed

lemma removeOrder_ok:
  assumes "book_ok ob sh" "book_side s" "sh s = xs @ (n, is @ i # js) # ys"
  shows "\<exists>ob'. removeOrder (Some i) ob = Inr ob' \<and> removed_from s xs n is i js ys ob ob'
    \<and> book_ok ob' (without s xs n (is @ js) ys sh)"
  using removeOrder_removed_from [OF assms] removed_from_ok [OF assms] by blast

end
