(* ===== verification/Order_Book_Add.thy ===== *)
theory Order_Book_Add
  imports Order_Book_Remove
begin

text \<open>
  Resting an order in the exchange's order book: the walk along the price levels, the insertion of a
  new level by \<open>addOrdersAtPrice\<close> and of the order by \<open>addOrder\<close>, and that they keep the invariant.
\<close>

section \<open>The walk along the levels\<close>

definition walk_target :: "(nat \<Rightarrow> bool) \<Rightarrow> nat list \<Rightarrow> nat" where
  "walk_target P ns = (case dropWhile P ns of [] \<Rightarrow> last ns | t # _ \<Rightarrow> t)"

lemma walk_levels_ok:
  assumes "ring (lnext ob) (lprev ob) (as @ t # bs)" and "first = hd (as @ t # bs)"
    and "length bs < fuel"
  shows "walk_levels fuel s p first t ob
    = Inr (walk_target (\<lambda>m. at_least_as_good s (lprice ob m) p) (t # bs))"
  using assms
proof (induction bs arbitrary: as t fuel)
  case Nil
  then obtain k where k: "fuel = Suc k" by (cases fuel) auto
  have "lnext ob t = Some first" using ring_next [OF Nil(1)] Nil(2) by (cases as) auto
  with k show ?case by (simp add: lnext_def walk_target_def)
next
  case (Cons u bs)
  then obtain k where k: "fuel = Suc k" by (cases fuel) auto
  have nx: "lnext ob t = Some u" using ring_next [OF Cons.prems(1)] by simp
  have "u \<noteq> first" using ring_distinct [OF Cons.prems(1)] Cons.prems(2) by (cases as) auto
  moreover have "walk_levels k s p first u ob
      = Inr (walk_target (\<lambda>m. at_least_as_good s (lprice ob m) p) (u # bs))"
    using Cons.IH [of "as @ [t]" u k] Cons.prems k by (cases as) auto
  ultimately show ?case using k nx by (auto simp: lnext_def lprice_def walk_target_def simp del: dropWhile_eq_Nil_conv split: list.splits)
qed

lemma better_at_least: "book_side s \<Longrightarrow> better s p q \<Longrightarrow> at_least_as_good s p q \<and> \<not> at_least_as_good s q p"
  by (auto simp: better_def at_least_as_good_def)

lemma walk_target_split:
  assumes "book_side s" "\<forall>m \<in> set ns. better s (lprice ob m) p" "\<forall>m \<in> set ms. better s p (lprice ob m)"
  shows "walk_target (\<lambda>m. at_least_as_good s (lprice ob m) p) (ns @ ms) = (if ms = [] then last ns else hd ms)"
proof -
  have "dropWhile (\<lambda>m. at_least_as_good s (lprice ob m) p) (ns @ ms) = ms"
    using assms by (cases ms) (auto simp: better_at_least dropWhile_append)
  then show ?thesis by (cases ms) (auto simp del: dropWhile_eq_Nil_conv simp: walk_target_def)
qed


section \<open>Adding a price level\<close>

definition level_linked :: "MEOrderBook \<Rightarrow> MEOrderBook \<Rightarrow> bool" where
  "level_linked ob ob' \<longleftrightarrow> book_frame ob ob' \<and> order_pool ob' = order_pool ob
     \<and> cid_oid_to_order ob' = cid_oid_to_order ob \<and> (\<forall>m. lcore (lvl ob' m) = lcore (lvl ob m))
     \<and> allocated (orders_at_price_pool ob') = allocated (orders_at_price_pool ob)
     \<and> pool_ok (orders_at_price_pool ob') = pool_ok (orders_at_price_pool ob)
     \<and> can_allocate (orders_at_price_pool ob') = can_allocate (orders_at_price_pool ob)"

definition level_inserted :: "Side \<Rightarrow> nat list \<Rightarrow> nat \<Rightarrow> nat list \<Rightarrow> MEOrderBook \<Rightarrow> MEOrderBook \<Rightarrow> bool" where
  "level_inserted s ns n ms ob ob' \<longleftrightarrow> level_linked ob ob'
     \<and> ring (lnext ob') (lprev ob') (ns @ n # ms) \<and> best s ob' = head_ptr (ns @ n # ms)
     \<and> best (other s) ob' = best (other s) ob
     \<and> (\<forall>m. m \<notin> set (ns @ n # ms) \<longrightarrow> lvl ob' m = lvl ob m)
     \<and> price_orders_at_price ob' = (price_orders_at_price ob)(pidx (lprice ob n) := Some n)"

lemma set_best_conv: "lvl (set_best s q ob) = lvl ob" "lnext (set_best s q ob) = lnext ob"
  "lprev (set_best s q ob) = lprev ob"
  by (auto simp: lnext_def lprev_def fun_eq_iff)

lemma lnext_upd_other [simp]:
  "lnext (ob\<lparr>price_orders_at_price := pm\<rparr>) = lnext ob" "lprev (ob\<lparr>price_orders_at_price := pm\<rparr>) = lprev ob"
  by (auto simp: lnext_def lprev_def fun_eq_iff)

text \<open>The links of the book after the statements of the two insertions.\<close>

lemma level_inserted_before:
  assumes r: "ring (lnext ob) (lprev ob) (ns @ t # ms)" and new: "n \<notin> set (ns @ t # ms)"
    and b: "lprev ob t = Some b" and s: "book_side s" and bst: "best s ob = head_ptr (ns @ t # ms)"
    and ob1: "ob1 = upd_lvl n (\<lambda>l. l\<lparr>l_next_entry := Some t\<rparr>)
      (upd_lvl n (\<lambda>l. l\<lparr>l_prev_entry := Some b\<rparr>) (ob\<lparr>price_orders_at_price := (price_orders_at_price ob)(pidx (lprice ob n) := Some n)\<rparr>))"
    and ob2: "ob2 = upd_lvl t (\<lambda>l. l\<lparr>l_prev_entry := Some n\<rparr>) (upd_lvl b (\<lambda>l. l\<lparr>l_next_entry := Some n\<rparr>) ob1)"
    and ob3: "ob3 = (if ns = [] then set_best s (Some n) ob2 else ob2)"
  shows "level_inserted s ns n (t # ms) ob ob3"
proof -
  have bin: "b \<in> set (ns @ t # ms)" using ring_member_Some(2) [OF r, of t] b by auto
  have nb: "n \<noteq> b" "n \<noteq> t" using bin new by auto
  have lv: "lvl ob3 = lvl ob2" by (simp add: ob3 set_best_conv)
  have ln: "lnext ob3 = (lnext ob)(n := Some t, b := Some n)" "lprev ob3 = (lprev ob)(n := Some b, t := Some n)"
    unfolding lnext_def lprev_def lv ob2 ob1 using nb by (auto simp: fun_eq_iff)
  have rg: "ring (lnext ob3) (lprev ob3) (ns @ n # t # ms)"
    unfolding ln by (rule ring_insert_before [OF r new b])
  have bt: "best s ob3 = head_ptr (ns @ n # t # ms)"
    using bst by (cases ns) (simp_all add: ob3 ob2 ob1)
  have bo: "best (other s) ob3 = best (other s) ob" using s by (simp add: ob3 ob2 ob1 best_set_best)
  have "level_linked ob ob3"
    unfolding level_linked_def lv by (simp add: ob3 ob2 ob1 book_frame_def)
  moreover have "\<forall>m. m \<notin> set (ns @ n # t # ms) \<longrightarrow> lvl ob3 m = lvl ob m"
    unfolding lv ob2 ob1 using bin by auto
  moreover have "price_orders_at_price ob3 = (price_orders_at_price ob)(pidx (lprice ob n) := Some n)"
    by (simp add: ob3 ob2 ob1)
  ultimately show ?thesis using rg bt bo by (simp add: level_inserted_def)
qed

lemma level_inserted_after:
  assumes r: "ring (lnext ob) (lprev ob) (ns @ [t])" and new: "n \<notin> set (ns @ [t])"
    and c: "lnext ob t = Some c" and s: "book_side s" and bst: "best s ob = head_ptr (ns @ [t])"
    and ob1: "ob1 = upd_lvl n (\<lambda>l. l\<lparr>l_next_entry := Some c\<rparr>)
      (upd_lvl n (\<lambda>l. l\<lparr>l_prev_entry := Some t\<rparr>) (ob\<lparr>price_orders_at_price := (price_orders_at_price ob)(pidx (lprice ob n) := Some n)\<rparr>))"
    and ob2: "ob2 = upd_lvl t (\<lambda>l. l\<lparr>l_next_entry := Some n\<rparr>) (upd_lvl c (\<lambda>l. l\<lparr>l_prev_entry := Some n\<rparr>) ob1)"
  shows "level_inserted s (ns @ [t]) n [] ob ob2"
proof -
  have cin: "c \<in> set (ns @ [t])" using ring_member_Some(1) [OF r, of t] c by auto
  have nc: "n \<noteq> c" "n \<noteq> t" using cin new by auto
  have ln: "lnext ob2 = (lnext ob)(n := Some c, t := Some n)" "lprev ob2 = (lprev ob)(n := Some t, c := Some n)"
    unfolding lnext_def lprev_def ob2 ob1 using nc by (auto simp: fun_eq_iff)
  have rg: "ring (lnext ob2) (lprev ob2) ((ns @ [t]) @ n # [])"
    using ring_insert_after [OF r new c] unfolding ln by simp
  have bt: "best s ob2 = head_ptr ((ns @ [t]) @ n # [])" using bst by (cases ns) (simp_all add: ob2 ob1)
  have "level_linked ob ob2" by (simp add: level_linked_def ob2 ob1 book_frame_def)
  moreover have "\<forall>m. m \<notin> set ((ns @ [t]) @ n # []) \<longrightarrow> lvl ob2 m = lvl ob m"
    unfolding ob2 ob1 using cin by auto
  ultimately show ?thesis using rg bt by (simp add: level_inserted_def ob2 ob1)
qed

lemma walk_place:
  assumes s: "book_side s" and r: "ring (lnext ob) (lprev ob) (ns @ ms)" and ne: "ns @ ms = first # rest"
    and before: "\<forall>m \<in> set ns. better s (lprice ob m) (lprice ob n)"
    and after: "\<forall>m \<in> set ms. better s (lprice ob n) (lprice ob m)"
    and fuel: "length (ns @ ms) \<le> unat (store_size (orders_at_price_pool ob))"
  shows "walk_levels (Suc (unat (store_size (orders_at_price_pool ob)))) s (lprice ob n) first first
      (ob\<lparr>price_orders_at_price := pm\<rparr>) = Inr (if ms = [] then last ns else hd ms)"
proof -
  let ?ob = "ob\<lparr>price_orders_at_price := pm\<rparr>"
  have "lprice ?ob = lprice ob" by (auto simp: lprice_def)
  then show ?thesis
    using walk_levels_ok [of ?ob "[]" first rest first "Suc (unat (store_size (orders_at_price_pool ob)))" s "lprice ob n"]
      ne r fuel walk_target_split [OF s before after] by simp
qed

lemma addOrdersAtPrice_before:
  assumes s: "book_side s" and side: "l_side (lvl ob n) = s"
    and r: "ring (lnext ob) (lprev ob) (ns @ t # ms)" and bst: "best s ob = head_ptr (ns @ t # ms)"
    and new: "n \<notin> set (ns @ t # ms)" and b: "lprev ob t = Some b"
    and before: "\<forall>m \<in> set ns. better s (lprice ob m) (lprice ob n)"
    and after: "\<forall>m \<in> set (t # ms). better s (lprice ob n) (lprice ob m)"
    and fuel: "length (ns @ t # ms) \<le> unat (store_size (orders_at_price_pool ob))"
    and ob1: "ob1 = upd_lvl n (\<lambda>l. l\<lparr>l_next_entry := Some t\<rparr>)
      (upd_lvl n (\<lambda>l. l\<lparr>l_prev_entry := Some b\<rparr>) (ob\<lparr>price_orders_at_price := (price_orders_at_price ob)(pidx (lprice ob n) := Some n)\<rparr>))"
    and ob2: "ob2 = upd_lvl t (\<lambda>l. l\<lparr>l_prev_entry := Some n\<rparr>) (upd_lvl b (\<lambda>l. l\<lparr>l_next_entry := Some n\<rparr>) ob1)"
  shows "addOrdersAtPrice (Some n) ob = Inr (if ns = [] then set_best s (Some n) ob2 else ob2)"
proof -
  have pr: "l_price (lvl ob m) = lprice ob m" for m by (simp add: lprice_def)
  obtain first rest where ne: "ns @ t # ms = first # rest" by (cases ns) auto
  have bin: "b \<in> set (ns @ t # ms)" using ring_member_Some(2) [OF r, of t] b by auto
  have nb: "n \<noteq> t" "n \<noteq> b" using new bin by auto
  have ib: "if s = BUY then l_price (lvl ob t) < lprice ob n else lprice ob n < l_price (lvl ob t)"
    using after by (auto simp: better_def lprice_def)
  have fst: "first = (if ns = [] then t else hd ns)" using ne by (cases ns) auto
  have new_best: "(s = BUY \<and> lprice ob n > lprice ob first \<or> s = SELL \<and> lprice ob n < lprice ob first) \<longleftrightarrow> ns = []"
    using before after s fst by (cases ns) (auto simp: better_def book_side_def split: if_splits)
  have p2: "l_price (lvl ob2 first) = lprice ob first" by (simp add: ob2 ob1 lprice_def)
  have b1: "best s ob = Some first" using ne bst by simp
  show ?thesis
    using walk_place [OF s r ne before after fuel] b1 side b nb ib new_best p2
    by (simp add: addOrdersAtPrice_def Let_def ob1 ob2 lprev_def lprice_def cong: if_cong)
qed

lemma addOrdersAtPrice_after:
  assumes s: "book_side s" and side: "l_side (lvl ob n) = s"
    and r: "ring (lnext ob) (lprev ob) (ns @ [t])" and bst: "best s ob = head_ptr (ns @ [t])"
    and new: "n \<notin> set (ns @ [t])" and c: "lnext ob t = Some c"
    and before: "\<forall>m \<in> set (ns @ [t]). better s (lprice ob m) (lprice ob n)"
    and fuel: "length (ns @ [t]) \<le> unat (store_size (orders_at_price_pool ob))"
    and ob1: "ob1 = upd_lvl n (\<lambda>l. l\<lparr>l_next_entry := Some c\<rparr>)
      (upd_lvl n (\<lambda>l. l\<lparr>l_prev_entry := Some t\<rparr>) (ob\<lparr>price_orders_at_price := (price_orders_at_price ob)(pidx (lprice ob n) := Some n)\<rparr>))"
    and ob2: "ob2 = upd_lvl t (\<lambda>l. l\<lparr>l_next_entry := Some n\<rparr>) (upd_lvl c (\<lambda>l. l\<lparr>l_prev_entry := Some n\<rparr>) ob1)"
  shows "addOrdersAtPrice (Some n) ob = Inr ob2"
proof -
  have pr: "l_price (lvl ob m) = lprice ob m" for m by (simp add: lprice_def)
  obtain first rest where ne: "ns @ [t] = first # rest" by (cases ns) auto
  have cin: "c \<in> set (ns @ [t])" using ring_member_Some(1) [OF r, of t] c by auto
  have nc: "n \<noteq> t" "n \<noteq> c" using new cin by auto
  have ib: "\<not> (if s = BUY then l_price (lvl ob t) < lprice ob n else lprice ob n < l_price (lvl ob t))"
    using before by (auto simp: better_def lprice_def)
  have b1: "best s ob = Some first" using ne bst by simp
  have "walk_levels (Suc (unat (store_size (orders_at_price_pool ob)))) s (lprice ob n) first first
      (ob\<lparr>price_orders_at_price := pm\<rparr>) = Inr (if ([]::nat list) = [] then last (ns @ [t]) else hd [])" for pm
    by (rule walk_place [OF s]) (use r ne before fuel in simp_all)
  then have w: "walk_levels (Suc (unat (store_size (orders_at_price_pool ob)))) s (lprice ob n) first first
      (ob\<lparr>price_orders_at_price := pm\<rparr>) = Inr t" for pm by simp
  show ?thesis
    using w b1 side c nc ib
    by (simp add: addOrdersAtPrice_def Let_def ob1 ob2 lnext_def lprice_def cong: if_cong)
qed

lemma addOrdersAtPrice_ok:
  assumes s: "book_side s" and side: "l_side (lvl ob n) = s"
    and r: "ring (lnext ob) (lprev ob) (ns @ ms)" and bst: "best s ob = head_ptr (ns @ ms)"
    and new: "n \<notin> set (ns @ ms)"
    and before: "\<forall>m \<in> set ns. better s (lprice ob m) (lprice ob n)"
    and after: "\<forall>m \<in> set ms. better s (lprice ob n) (lprice ob m)"
    and fuel: "length (ns @ ms) \<le> unat (store_size (orders_at_price_pool ob))"
  shows "\<exists>ob'. addOrdersAtPrice (Some n) ob = Inr ob' \<and> level_inserted s ns n ms ob ob'"
proof (cases "ns @ ms")
  case Nil
  let ?ob' = "upd_lvl n (\<lambda>l. l\<lparr>l_prev_entry := Some n, l_next_entry := Some n\<rparr>) (set_best s (Some n)
    (ob\<lparr>price_orders_at_price := (price_orders_at_price ob)(pidx (lprice ob n) := Some n)\<rparr>))"
  have "addOrdersAtPrice (Some n) ob = Inr ?ob'"
    using Nil bst side by (simp add: addOrdersAtPrice_def lprice_def Let_def)
  moreover have "level_inserted s ns n ms ob ?ob'"
    using Nil s by (auto simp: level_inserted_def level_linked_def book_frame_def best_set_best lnext_fun)
  ultimately show ?thesis by blast
next
  case (Cons first rest)
  show ?thesis
  proof (cases ms)
    case (Cons t ms')
    obtain b where b: "lprev ob t = Some b" using ring_member_Some(2) [OF r, of t] Cons by auto
    show ?thesis
      using addOrdersAtPrice_before [OF s side _ _ _ b before _ _ refl refl, of ms'] r bst new after fuel Cons
        level_inserted_before [OF _ _ b s _ refl refl refl, of ns ms'] by auto
  next
    case Nil
    then obtain ns' t where ns: "ns = ns' @ [t]" using Cons by (cases ns rule: rev_cases) auto
    obtain c where c: "lnext ob t = Some c" using ring_member_Some(1) [OF r, of t] ns by auto
    show ?thesis
      using addOrdersAtPrice_after [OF s side _ _ _ c _ _ refl refl, of ns'] r bst new before fuel Nil ns
        level_inserted_after [OF _ _ c s _ refl refl, of ns'] by auto
  qed
qed

section \<open>Adding an order\<close>

text \<open>What the two ways of resting an order have in common; \<open>is\<close> are the orders the level had before.\<close>

definition added_to :: "Side \<Rightarrow> shape \<Rightarrow> nat \<Rightarrow> nat list \<Rightarrow> nat \<Rightarrow> shape \<Rightarrow> MEOrder \<Rightarrow> MEOrderBook \<Rightarrow> MEOrderBook \<Rightarrow> bool" where
  "added_to s xs n is i ys x ob ob' \<longleftrightarrow> book_frame ob ob'
     \<and> erase (ord ob' i) = erase x \<and> (\<forall>j. j \<noteq> i \<longrightarrow> erase (ord ob' j) = erase (ord ob j))
     \<and> (\<forall>j. j \<notin> set (is @ [i]) \<longrightarrow> ord ob' j = ord ob j) \<and> ring (onext ob') (oprev ob') (is @ [i])
     \<and> (\<forall>m. m \<noteq> n \<longrightarrow> lcore (lvl ob' m) = lcore (lvl ob m))
     \<and> lcore (lvl ob' n) = (s, o_price x, Some (hd (is @ [i])))
     \<and> (\<forall>m. m \<notin> set (map fst xs @ n # map fst ys) \<longrightarrow> lvl ob' m = lvl ob m)
     \<and> ring (lnext ob') (lprev ob') (map fst xs @ n # map fst ys)
     \<and> best s ob' = head_ptr (map fst xs @ n # map fst ys) \<and> best (other s) ob' = best (other s) ob
     \<and> price_orders_at_price ob' = (price_orders_at_price ob)(pidx (o_price x) := Some n)
     \<and> cid_oid_to_order ob' = (cid_oid_to_order ob)(unat (o_client_id x) :=
         (cid_oid_to_order ob (unat (o_client_id x)))(unat (o_client_order_id x) := Some i))
     \<and> allocated (order_pool ob') = (allocated (order_pool ob))(i := True)
     \<and> allocated (orders_at_price_pool ob') = (allocated (orders_at_price_pool ob))(n := True)
     \<and> pool_ok (order_pool ob') \<and> pool_ok (orders_at_price_pool ob')"

text \<open>The situation in which \<open>addOrder\<close> is called: a fresh block that holds the order.\<close>

definition can_rest :: "Side \<Rightarrow> MEOrder \<Rightarrow> MEOrderBook \<Rightarrow> bool" where
  "can_rest s x ob \<longleftrightarrow> book_side s \<and> o_side x = s
     \<and> unat (o_client_id x) < ME_MAX_NUM_CLIENTS \<and> unat (o_client_order_id x) < unat ME_MAX_ORDER_IDS
     \<and> cid_oid_to_order ob (unat (o_client_id x)) (unat (o_client_order_id x)) = None"

lemma put_order_ok:
  "unat c < ME_MAX_NUM_CLIENTS \<Longrightarrow> unat d < unat ME_MAX_ORDER_IDS \<Longrightarrow>
   put_order c d p ob = Inr (ob\<lparr>cid_oid_to_order := (cid_oid_to_order ob)(unat c := (cid_oid_to_order ob (unat c))(unat d := p))\<rparr>)"
  by (simp add: put_order_def)

lemma addOrder_existing:
  assumes ok: "book_ok ob sh" and x: "can_rest s x ob" and sh: "sh s = xs @ (n, is) # ys"
    and pr: "lprice ob n = o_price x" and al: "allocate x (order_pool ob) = (Some i, pool)"
  shows "\<exists>ob'. addOrder (Some i) (ob\<lparr>order_pool := pool\<rparr>) = Inr ob' \<and> added_to s xs n is i ys x ob ob'
    \<and> (can_allocate (orders_at_price_pool ob) \<longrightarrow> can_allocate (orders_at_price_pool ob'))"
proof -
  have s: "book_side s" using x by (simp add: can_rest_def)
  have lo: "level_ok ob s n is" using book_ok_level [OF ok s] sh by auto
  have so: "side_ok ob s (sh s)" using book_ok_side [OF ok s] .
  have po: "pool_ok (order_pool ob)" "pool_ok (orders_at_price_pool ob)" using ok by (auto simp: book_ok_def)
  note a = allocate_Some [OF po(1) al]
  have i: "i \<notin> set is" using lo a(1) by (auto simp: level_ok_def order_ok_def)
  obtain f fs where f: "is = f # fs" using lo by (cases "is") (auto simp: level_ok_def)
  have r: "ring (onext ob) (oprev ob) (f # fs)" using lo f by (simp add: level_ok_def)
  define l where "l = last (f # fs)"
  have pf: "oprev ob f = Some l" using ring_head_prev [OF r] by (simp add: l_def)
  have lin: "l \<in> set (f # fs)" unfolding l_def by (rule last_in_set) simp
  have ne: "f \<noteq> i" "l \<noteq> i" using i lin f by auto
  let ?ob = "ob\<lparr>order_pool := pool\<rparr>"
  have o0: "ord ?ob = (ord ob)(i := x)" using a(5) by (auto simp: ord_def fun_eq_iff)
  define ob4 where "ob4 = upd_ord f (\<lambda>x. x\<lparr>o_prev_order := Some i\<rparr>) (upd_ord i (\<lambda>x. x\<lparr>o_next_order := Some f\<rparr>)
     (upd_ord i (\<lambda>x. x\<lparr>o_prev_order := Some l\<rparr>) (upd_ord l (\<lambda>x. x\<lparr>o_next_order := Some i\<rparr>) ?ob)))"
  have o4: "ord ob4 = ord (upd_ord f (\<lambda>x. x\<lparr>o_prev_order := Some i\<rparr>) (upd_ord i (\<lambda>x. x\<lparr>o_next_order := Some f\<rparr>)
     (upd_ord i (\<lambda>x. x\<lparr>o_prev_order := Some l\<rparr>) (upd_ord l (\<lambda>x. x\<lparr>o_next_order := Some i\<rparr>) ?ob))))"
    by (simp add: ob4_def)
  have er: "erase (ord ob4 i) = erase x" "j \<noteq> i \<Longrightarrow> erase (ord ob4 j) = erase (ord ob j)" for j
    unfolding o4 using ne by (auto simp: o0 simp del: ord_upd(8))
  have ids: "o_client_id (ord ob4 i) = o_client_id x" "o_client_order_id (ord ob4 i) = o_client_order_id x"
    using erase_fields [OF er(1)] by auto
  define ob5 where "ob5 = ob4\<lparr>cid_oid_to_order := (cid_oid_to_order ob)(unat (o_client_id x) :=
         (cid_oid_to_order ob (unat (o_client_id x)))(unat (o_client_order_id x) := Some i))\<rparr>"
  have "price_orders_at_price ob (pidx (o_price x)) = Some n" "l_first_me_order (lvl ob n) = Some f"
    using lo pr f by (auto simp: level_ok_def)
  then have "addOrder (Some i) ?ob = put_order (o_client_id (ord ob4 i)) (o_client_order_id (ord ob4 i)) (Some i) ob4"
    using pf ne by (cases "f = l") (auto simp: addOrder_def o0 oprev_def Let_def ob4_def simp del: ord_upd(8))
  then have comp: "addOrder (Some i) ?ob = Inr ob5"
    using x by (simp add: ids put_order_ok can_rest_def ob5_def) (simp add: ob4_def)
  have o5: "ord ob5 = ord ob4" "lvl ob5 = lvl ob" by (simp_all add: ob5_def ob4_def)
  then have ln: "lnext ob5 = lnext ob" "lprev ob5 = lprev ob" by (auto simp: lnext_def lprev_def fun_eq_iff)
  have on: "onext ob5 = (onext ob)(l := Some i, i := Some f)" "oprev ob5 = (oprev ob)(i := Some l, f := Some i)"
    unfolding onext_def oprev_def o5 o4 using ne by (auto simp: o0 fun_eq_iff simp del: ord_upd(8))
  have "ring (onext ob5) (oprev ob5) (is @ [i])"
    unfolding on using ring_append [OF r, of i] i f by (simp add: l_def)
  moreover have "\<forall>j. j \<notin> set (is @ [i]) \<longrightarrow> ord ob5 j = ord ob j"
    unfolding o5 o4 using lin f by (auto simp: o0 simp del: ord_upd(8))
  moreover have "book_frame ob ob5" using a by (simp add: ob5_def ob4_def book_frame_def)
  moreover have "allocated (order_pool ob5) = (allocated (order_pool ob))(i := True)"
    using a by (simp add: ob5_def ob4_def)
  moreover have "allocated (orders_at_price_pool ob5) = (allocated (orders_at_price_pool ob))(n := True)"
    using lo by (auto simp: ob5_def ob4_def level_ok_def fun_eq_iff)
  moreover have "price_orders_at_price ob5 = (price_orders_at_price ob)(pidx (o_price x) := Some n)"
    using lo pr by (auto simp: ob5_def ob4_def level_ok_def fun_eq_iff)
  moreover have "ring (lnext ob) (lprev ob) (map fst xs @ n # map fst ys)" "best s ob5 = head_ptr (map fst xs @ n # map fst ys)"
    "best (other s) ob5 = best (other s) ob"
    using so sh by (auto simp: side_ok_def ob5_def ob4_def)
  moreover have "lcore (lvl ob n) = (s, o_price x, Some (hd (is @ [i])))"
    using lo pr f by (simp add: level_ok_def lcore_def lprice_def)
  moreover have "cid_oid_to_order ob5 = (cid_oid_to_order ob)(unat (o_client_id x) :=
         (cid_oid_to_order ob (unat (o_client_id x)))(unat (o_client_order_id x) := Some i))"
    "pool_ok (order_pool ob5)" "orders_at_price_pool ob5 = orders_at_price_pool ob"
    using a by (simp_all add: ob5_def ob4_def)
  ultimately have "added_to s xs n is i ys x ob ob5"
    unfolding added_to_def ln o5(2) using er po(2) o5(1) by simp
  with comp show ?thesis by (auto simp: ob5_def ob4_def)
qed

text \<open>The book in which a level for the order \<open>x\<close> has been created, just before the level is linked.\<close>

definition level_created :: "MEOrder \<Rightarrow> nat \<Rightarrow> MEOrder MemPool \<Rightarrow> MEOrdersAtPrice MemPool \<Rightarrow> MEOrderBook \<Rightarrow> MEOrderBook" where
  "level_created x i pool lp ob =
     (upd_ord i (\<lambda>x. x\<lparr>o_next_order := Some i, o_prev_order := Some i\<rparr>) (ob\<lparr>order_pool := pool\<rparr>))\<lparr>orders_at_price_pool := lp\<rparr>"

definition level_for :: "MEOrder \<Rightarrow> nat \<Rightarrow> MEOrdersAtPrice" where
  "level_for x i =
     \<lparr>l_side = o_side x, l_price = o_price x, l_first_me_order = Some i, l_prev_entry = None, l_next_entry = None\<rparr>"

lemma level_created_ready:
  assumes ok: "book_ok ob sh" and x: "can_rest s x ob" and sh: "sh s = xs @ ys"
    and before: "\<forall>m \<in> set xs. better s (lprice ob (fst m)) (o_price x)"
    and after: "\<forall>m \<in> set ys. better s (o_price x) (lprice ob (fst m))"
    and lp: "allocate (level_for x i) (orders_at_price_pool ob) = (Some n, lp)"
    and ob2: "ob2 = level_created x i pool lp ob"
  shows "lvl ob2 = (lvl ob)(n := level_for x i)" "l_side (lvl ob2 n) = s" "lprice ob2 n = o_price x"
    "ring (lnext ob2) (lprev ob2) (map fst xs @ map fst ys)" "best s ob2 = head_ptr (map fst xs @ map fst ys)"
    "n \<notin> set (map fst xs @ map fst ys)" "\<forall>m \<in> set (map fst xs). better s (lprice ob2 m) (lprice ob2 n)"
    "\<forall>m \<in> set (map fst ys). better s (lprice ob2 n) (lprice ob2 m)"
    "length (map fst xs @ map fst ys) \<le> unat (store_size (orders_at_price_pool ob2))"
proof -
  have s: "book_side s" using x by (simp add: can_rest_def)
  have so: "side_ok ob s (sh s)" using book_ok_side [OF ok s] .
  have po: "pool_ok (orders_at_price_pool ob)" using ok by (auto simp: book_ok_def)
  note b = allocate_Some [OF po lp]
  show l2: "lvl ob2 = (lvl ob)(n := level_for x i)" using b(5) by (auto simp: ob2 level_created_def lvl_def fun_eq_iff)
  have mn: "m \<noteq> n" if "m \<in> set (map fst (sh s))" for m
    using that so b(1) by (auto simp: side_ok_def level_ok_def)
  show p: "lprice ob2 n = o_price x" and "l_side (lvl ob2 n) = s"
    using x by (simp_all add: lprice_def l2 level_for_def can_rest_def)
  have lpr: "lprice ob2 m = lprice ob m" if "m \<in> set (map fst (sh s))" for m
    using mn [OF that] by (simp add: lprice_def l2)
  have "ring (lnext ob2) (lprev ob2) (map fst (sh s)) = ring (lnext ob) (lprev ob) (map fst (sh s))"
    using mn by (intro ring_cong) (auto simp: lnext_def lprev_def l2)
  then show "ring (lnext ob2) (lprev ob2) (map fst xs @ map fst ys)" using so sh by (simp add: side_ok_def)
  have "set (map fst (sh s)) \<subseteq> {..<unat (store_size (orders_at_price_pool ob))}"
    using so by (auto simp: side_ok_def level_ok_def allocated_def)
  moreover have "distinct (map fst (sh s))" using so ring_distinct by (auto simp: side_ok_def)
  ultimately have "length (map fst (sh s)) \<le> unat (store_size (orders_at_price_pool ob))"
    by (metis card_lessThan card_mono distinct_card finite_lessThan)
  then show "length (map fst xs @ map fst ys) \<le> unat (store_size (orders_at_price_pool ob2))"
    using sh b(3) by (simp add: ob2 level_created_def)
  show "best s ob2 = head_ptr (map fst xs @ map fst ys)" using so sh by (simp add: side_ok_def ob2 level_created_def)
  show "n \<notin> set (map fst xs @ map fst ys)" using mn [of n] sh by auto
  show "\<forall>m \<in> set (map fst xs). better s (lprice ob2 m) (lprice ob2 n)" using before lpr p sh by auto
  show "\<forall>m \<in> set (map fst ys). better s (lprice ob2 n) (lprice ob2 m)" using after lpr p sh by auto
qed

lemma addOrder_new:
  assumes ok: "book_ok ob sh" and x: "can_rest s x ob" and sh: "sh s = xs @ ys"
    and pm: "price_orders_at_price ob (pidx (o_price x)) = None"
    and before: "\<forall>m \<in> set xs. better s (lprice ob (fst m)) (o_price x)"
    and after: "\<forall>m \<in> set ys. better s (o_price x) (lprice ob (fst m))"
    and al: "allocate x (order_pool ob) = (Some i, pool)" and la: "can_allocate (orders_at_price_pool ob)"
  shows "\<exists>ob' n. addOrder (Some i) (ob\<lparr>order_pool := pool\<rparr>) = Inr ob' \<and> added_to s xs n [] i ys x ob ob'
    \<and> \<not> allocated (orders_at_price_pool ob) n"
proof -
  have s: "book_side s" using x by (simp add: can_rest_def)
  have so: "side_ok ob s (sh s)" using book_ok_side [OF ok s] .
  have po: "pool_ok (order_pool ob)" "pool_ok (orders_at_price_pool ob)" using ok by (auto simp: book_ok_def)
  note a = allocate_Some [OF po(1) al]
  define lv where "lv = level_for x i"
  obtain n lp where lp: "allocate lv (orders_at_price_pool ob) = (Some n, lp)"
    using allocate_exists [OF la] by blast
  note b = allocate_Some [OF po(2) lp]
  let ?ob = "ob\<lparr>order_pool := pool\<rparr>"
  have o0: "ord ?ob = (ord ob)(i := x)" using a(5) by (auto simp: ord_def fun_eq_iff)
  define ob1 where "ob1 = upd_ord i (\<lambda>x. x\<lparr>o_next_order := Some i, o_prev_order := Some i\<rparr>) ?ob"
  define ob2 where "ob2 = ob1\<lparr>orders_at_price_pool := lp\<rparr>"
  have o2: "ord ob2 = (ord ob)(i := x\<lparr>o_next_order := Some i, o_prev_order := Some i\<rparr>)"
    by (simp add: ob2_def ob1_def o0 del: ord_upd(8))
  have "ob2 = level_created x i pool lp ob" by (simp add: ob2_def ob1_def level_created_def)
  note rd = level_created_ready [OF ok x sh before after lp [unfolded lv_def] this]
  have l2: "lvl ob2 = (lvl ob)(n := lv)" using rd(1) by (simp add: lv_def)
  have lpr: "lprice ob2 n = o_price x" by (rule rd(3))
  have "\<exists>ob'. addOrdersAtPrice (Some n) ob2 = Inr ob' \<and> level_inserted s (map fst xs) n (map fst ys) ob2 ob'"
    by (rule addOrdersAtPrice_ok [OF s rd(2,4,5,6,7,8,9)])
  then obtain ob3 where ob3: "addOrdersAtPrice (Some n) ob2 = Inr ob3" "level_linked ob2 ob3"
    "level_inserted s (map fst xs) n (map fst ys) ob2 ob3" by (auto simp: level_inserted_def)
  have o3: "ord ob3 = ord ob2" using ob3(2) by (auto simp: level_linked_def ord_def fun_eq_iff)
  define ob5 where "ob5 = ob3\<lparr>cid_oid_to_order := (cid_oid_to_order ob)(unat (o_client_id x) :=
         (cid_oid_to_order ob (unat (o_client_id x)))(unat (o_client_order_id x) := Some i))\<rparr>"
  have c3: "cid_oid_to_order ob3 = cid_oid_to_order ob" using ob3(2) by (simp add: level_linked_def ob2_def ob1_def)
  have "addOrder (Some i) ?ob = put_order (o_client_id (ord ob3 i)) (o_client_order_id (ord ob3 i)) (Some i) ob3"
    using pm lp ob3(1) by (simp add: addOrder_def o0 Let_def ob2_def ob1_def lv_def level_for_def del: ord_upd(8))
  then have comp: "addOrder (Some i) ?ob = Inr ob5"
    using x by (simp add: o3 o2 c3 put_order_ok can_rest_def ob5_def)
  have o5: "ord ob5 = ord ob2" "lvl ob5 = lvl ob3" using o3 by (simp_all add: ob5_def)
  then have ln: "lnext ob5 = lnext ob3" "lprev ob5 = lprev ob3" by (auto simp: lnext_def lprev_def fun_eq_iff)
  have "order_pool ob3 = order_pool ob2" "allocated (orders_at_price_pool ob3) = allocated lp"
    "pool_ok (orders_at_price_pool ob3)" "book_frame ob2 ob3"
    using ob3(2) b(6) by (auto simp: level_linked_def ob2_def)
  then have pools: "allocated (order_pool ob5) = (allocated (order_pool ob))(i := True)" "pool_ok (order_pool ob5)"
    "allocated (orders_at_price_pool ob5) = (allocated (orders_at_price_pool ob))(n := True)"
    "pool_ok (orders_at_price_pool ob5)" "book_frame ob ob5"
    using a b by (auto simp: ob5_def ob2_def ob1_def book_frame_def)
  have best5: "best s ob5 = head_ptr (map fst xs @ n # map fst ys)" "best (other s) ob5 = best (other s) ob"
    "price_orders_at_price ob5 = (price_orders_at_price ob)(pidx (o_price x) := Some n)"
    using ob3(3) lpr by (auto simp: level_inserted_def ob5_def ob2_def ob1_def)
  have lc5: "lcore (lvl ob5 m) = (if m = n then (s, o_price x, Some i) else lcore (lvl ob m))" for m
    unfolding o5 using ob3(2) x by (simp add: level_linked_def l2 lv_def level_for_def lcore_def can_rest_def)
  have out5: "\<forall>m. m \<notin> set (map fst xs @ n # map fst ys) \<longrightarrow> lvl ob5 m = lvl ob m"
    unfolding o5 using ob3(3) by (simp add: level_inserted_def l2)
  have r5: "ring (lnext ob5) (lprev ob5) (map fst xs @ n # map fst ys)"
    unfolding ln using ob3(3) by (simp add: level_inserted_def)
  have "ring (onext ob5) (oprev ob5) [i]" by (simp add: onext_def oprev_def o5 o2)
  moreover have "cid_oid_to_order ob5 = (cid_oid_to_order ob)(unat (o_client_id x) :=
         (cid_oid_to_order ob (unat (o_client_id x)))(unat (o_client_order_id x) := Some i))"
    by (simp add: ob5_def)
  ultimately have "added_to s xs n [] i ys x ob ob5"
    unfolding added_to_def using pools best5 lc5 out5 r5 by (simp add: o5(1) o2)
  with comp b(1) show ?thesis by blast
qed
section \<open>The invariant after an addition\<close>

definition with_order :: "Side \<Rightarrow> shape \<Rightarrow> nat \<Rightarrow> nat list \<Rightarrow> nat \<Rightarrow> shape \<Rightarrow> (Side \<Rightarrow> shape) \<Rightarrow> Side \<Rightarrow> shape" where
  "with_order s xs n is i ys sh = sh(s := xs @ (n, is @ [i]) # ys)"

text \<open>The place the order goes to: its level, or the gap between better and worse levels.\<close>

definition rest_place :: "Side \<Rightarrow> shape \<Rightarrow> nat \<Rightarrow> nat list \<Rightarrow> shape \<Rightarrow> Price \<Rightarrow> MEOrderBook \<Rightarrow> (Side \<Rightarrow> shape) \<Rightarrow> bool" where
  "rest_place s xs n is ys p ob sh \<longleftrightarrow> sh s = xs @ (if is = [] then [] else [(n, is)]) @ ys
     \<and> (if is = [] then \<not> allocated (orders_at_price_pool ob) n \<and> price_orders_at_price ob (pidx p) = None
        else lprice ob n = p)
     \<and> (\<forall>m \<in> set xs. better s (lprice ob (fst m)) p) \<and> (\<forall>m \<in> set ys. better s p (lprice ob (fst m)))"

lemma added_to_level:
  assumes ok: "book_ok ob sh" and x: "can_rest s x ob" and pl: "rest_place s xs n is ys (o_price x) ob sh"
    and ad: "added_to s xs n is i ys x ob ob'" and fresh: "\<not> allocated (order_pool ob) i"
    and t: "book_side t" "(m, ks) \<in> set (with_order s xs n is i ys sh t)"
  shows "level_ok ob' t m ks \<and> lprice ob' m = (if m = n then o_price x else lprice ob m)"
proof -
  have s: "book_side s" using x by (simp add: can_rest_def)
  have kept: "order_ok ob' u p k" if "order_ok ob u p k" for u p k
  proof -
    have ki: "k \<noteq> i" using that fresh by (auto simp: order_ok_def)
    then have "erase (ord ob' k) = erase (ord ob k)" using ad by (simp add: added_to_def)
    from erase_fields [OF this] show ?thesis
      using that ad x ki by (auto simp: order_ok_def added_to_def can_rest_def)
  qed
  have oi: "order_ok ob' s (o_price x) i"
  proof -
    have "erase (ord ob' i) = erase x" using ad by (simp add: added_to_def)
    from erase_fields [OF this] show ?thesis using ad x by (auto simp: order_ok_def added_to_def can_rest_def)
  qed
  have nlv: "is \<noteq> [] \<Longrightarrow> level_ok ob s n is" using book_ok_level [OF ok s] pl by (auto simp: rest_place_def)
  show ?thesis
  proof (cases "m = n")
    case True
    have uniq: "t = s \<and> ks = is @ [i]"
    proof (rule ccontr)
      assume ne: "\<not> ?thesis"
      then have mem: "(n, ks) \<in> set (sh t) \<and> (t = s \<longrightarrow> (n, ks) \<in> set xs \<union> set ys)"
        using t(2) pl True by (auto simp: with_order_def rest_place_def split: if_splits)
      then have "allocated (orders_at_price_pool ob) n" using book_ok_level [OF ok t(1)] by (auto simp: level_ok_def)
      then have is_ne: "is \<noteq> []" using pl by (auto simp: rest_place_def)
      then have "(n, is) \<in> set (sh s)" using pl by (auto simp: rest_place_def)
      from level_unique [OF ok s t(1) this] mem have "t = s" "ks = is" by auto
      moreover have "better s (o_price x) (o_price x)" if "(n, ks) \<in> set xs \<union> set ys"
        using that pl is_ne by (auto simp: rest_place_def)
      ultimately show False using mem by (auto simp: better_def split: if_splits)
    qed
    have lp: "lprice ob' n = o_price x" "l_side (lvl ob' n) = s" "l_first_me_order (lvl ob' n) = Some (hd (is @ [i]))"
      using ad by (auto simp: added_to_def lcore_def lprice_def)
    have "order_ok ob' s (o_price x) k" if "k \<in> set is" for k
    proof -
      have "is \<noteq> []" using that by auto
      then have "order_ok ob s (o_price x) k" using nlv pl that by (auto simp: level_ok_def rest_place_def)
      then show ?thesis by (rule kept)
    qed
    with oi have "\<forall>k \<in> set (is @ [i]). order_ok ob' s (lprice ob' n) k" using lp by auto
    then have "level_ok ob' s n (is @ [i])"
      unfolding level_ok_def using lp ad by (auto simp: added_to_def)
    then show ?thesis using uniq lp True by simp
  next
    case False
    then have mem: "(m, ks) \<in> set (sh t)" using t(2) pl by (auto simp: with_order_def rest_place_def split: if_splits)
    have lo: "level_ok ob t m ks" using book_ok_level [OF ok t(1) mem] .
    have lc: "lcore (lvl ob' m) = lcore (lvl ob m)" using ad False by (simp add: added_to_def)
    have notin: "k \<notin> set (is @ [i])" if "k \<in> set ks" for k
    proof -
      have "k \<noteq> i" using that lo fresh by (auto simp: level_ok_def order_ok_def)
      moreover have "k \<notin> set is"
      proof
        assume "k \<in> set is"
        then have "(n, is) \<in> set (sh s)" using pl by (auto simp: rest_place_def)
        from order_unique [OF ok s t(1) this mem \<open>k \<in> set is\<close> that] False show False by simp
      qed
      ultimately show ?thesis by simp
    qed
    have "pidx (lprice ob m) \<noteq> pidx (o_price x)"
    proof
      assume "pidx (lprice ob m) = pidx (o_price x)"
      then have pm: "price_orders_at_price ob (pidx (o_price x)) = Some m" using lo by (simp add: level_ok_def)
      then have "is \<noteq> []" using pl by (auto simp: rest_place_def)
      with nlv pl pm False show False by (auto simp: level_ok_def rest_place_def)
    qed
    then have "level_ok ob' t m ks"
      using lo ad notin False x
      by (intro level_ok_kept [OF lo lc]) (auto simp: added_to_def level_ok_def order_ok_def can_rest_def)
    moreover have "lprice ob' m = lprice ob m" using lcore_fields [OF lc] by (simp add: lprice_def)
    ultimately show ?thesis using False by simp
  qed
qed

lemma added_to_tables:
  assumes ok: "book_ok ob sh" and x: "can_rest s x ob" and pl: "rest_place s xs n is ys (o_price x) ob sh"
    and ad: "added_to s xs n is i ys x ob ob'" and fresh: "\<not> allocated (order_pool ob) i"
  shows "tables_ok ob' (with_order s xs n is i ys sh)"
proof -
  let ?sh = "with_order s xs n is i ys sh"
  have s: "book_side s" using x by (simp add: can_rest_def)
  have tb: "tables_ok ob sh" using ok by (simp add: book_ok_def)
  note lev = added_to_level [OF ok x pl ad fresh]
  have keep: "\<exists>ks'. (m, ks') \<in> set (?sh t) \<and> set ks \<subseteq> set ks'" if "(m, ks) \<in> set (sh t)" for m ks t
  proof (cases "(m, ks) = (n, is) \<and> t = s")
    case True
    then show ?thesis by (intro exI [of _ "is @ [i]"]) (auto simp: with_order_def)
  next
    case False
    then have "(m, ks) \<in> set (?sh t)" using that pl by (auto simp: with_order_def rest_place_def split: if_splits)
    then show ?thesis by blast
  qed
  have "(\<exists>t ks. book_side t \<and> (m, ks) \<in> set (?sh t)) \<and> pidx (lprice ob' m) = pidx p"
    if pm': "price_orders_at_price ob' (pidx p) = Some m" for p m
  proof (cases "pidx p = pidx (o_price x)")
    case True
    then have "m = n" using pm' ad by (simp add: added_to_def)
    moreover have "(n, is @ [i]) \<in> set (?sh s)" by (simp add: with_order_def)
    ultimately show ?thesis using lev [OF s] True s by auto
  next
    case False
    then have pm: "price_orders_at_price ob (pidx p) = Some m" using pm' ad by (simp add: added_to_def)
    then obtain t ks where t: "book_side t" "(m, ks) \<in> set (sh t)" "pidx (lprice ob m) = pidx p"
      using tb unfolding tables_ok_def by blast
    from keep [OF t(2)] obtain ks' where "(m, ks') \<in> set (?sh t)" by auto
    moreover have "m \<noteq> n"
    proof
      assume "m = n"
      then have "allocated (orders_at_price_pool ob) n" using book_ok_level [OF ok t(1,2)] by (auto simp: level_ok_def)
      then show False using \<open>m = n\<close> pl t(3) False by (auto simp: rest_place_def split: if_splits)
    qed
    ultimately show ?thesis using lev [OF t(1)] t by auto
  qed
  moreover have "(\<exists>t m ks. book_side t \<and> (m, ks) \<in> set (?sh t) \<and> k \<in> set ks)
      \<and> unat (o_client_id (ord ob' k)) = c \<and> unat (o_client_order_id (ord ob' k)) = d"
    if rng: "c < ME_MAX_NUM_CLIENTS" "d < unat ME_MAX_ORDER_IDS" "cid_oid_to_order ob' c d = Some k" for c d k
  proof (cases "(c, d) = (unat (o_client_id x), unat (o_client_order_id x))")
    case True
    then have "k = i" using rng(3) ad by (simp add: added_to_def)
    moreover have "\<exists>t m ks. book_side t \<and> (m, ks) \<in> set (?sh t) \<and> i \<in> set ks"
      by (intro exI [of _ s] exI [of _ n] exI [of _ "is @ [i]"]) (simp add: with_order_def s)
    moreover have "erase (ord ob' i) = erase x" using ad by (simp add: added_to_def)
    note e = erase_fields [OF this]
    ultimately show ?thesis using s True e by auto
  next
    case False
    then have "cid_oid_to_order ob c d = Some k" using rng(3) ad by (auto simp: added_to_def split: if_splits)
    then obtain t m ks where t: "book_side t" "(m, ks) \<in> set (sh t)" "k \<in> set ks"
      "unat (o_client_id (ord ob k)) = c" "unat (o_client_order_id (ord ob k)) = d"
      using tb rng(1,2) unfolding tables_ok_def by blast
    have "k \<noteq> i" using book_ok_order [OF ok t(1-3)] fresh by (auto simp: order_ok_def)
    then have "erase (ord ob' k) = erase (ord ob k)" using ad by (simp add: added_to_def)
    note e = erase_fields [OF this]
    from keep [OF t(2)] have "\<exists>ks'. (m, ks') \<in> set (?sh t) \<and> k \<in> set ks'" using t(3) by auto
    then show ?thesis using t(1,4,5) e by auto
  qed
  ultimately show ?thesis unfolding tables_ok_def by blast
qed

lemma added_to_ok:
  assumes ok: "book_ok ob sh" and x: "can_rest s x ob" and pl: "rest_place s xs n is ys (o_price x) ob sh"
    and ad: "added_to s xs n is i ys x ob ob'" and fresh: "\<not> allocated (order_pool ob) i"
  shows "book_ok ob' (with_order s xs n is i ys sh)"
proof (rule book_okI)
  let ?sh = "with_order s xs n is i ys sh"
  have s: "book_side s" using x by (simp add: can_rest_def)
  note lev = added_to_level [OF ok x pl ad fresh]
  show "tables_ok ob' ?sh" by (rule added_to_tables [OF ok x pl ad fresh])
  show "pool_ok (order_pool ob')" "pool_ok (orders_at_price_pool ob')" using ad by (auto simp: added_to_def)
  show "side_ok ob' t (?sh t)" if t: "book_side t" for t
  proof -
    have so: "side_ok ob t (sh t)" using book_ok_side [OF ok t] .
    have here: "(n, is @ [i]) \<in> set (?sh s)" by (simp add: with_order_def)
    have rg: "ring (lnext ob') (lprev ob') (map fst xs @ n # map fst ys)" using ad by (simp add: added_to_def)
    have "ring (lnext ob') (lprev ob') (map fst (?sh t)) \<and> best t ob' = head_ptr (map fst (?sh t))
      \<and> sorted_wrt (better t) (map (lprice ob' \<circ> fst) (?sh t))"
    proof (cases "t = s")
      case True
      have old: "lprice ob' (fst z) = lprice ob (fst z)" if "z \<in> set xs \<union> set ys" for z
      proof -
        have "fst z \<noteq> n" using that ring_distinct [OF rg] by auto
        moreover have "z \<in> set (?sh s)" using that by (auto simp: with_order_def)
        ultimately show ?thesis using lev [OF s, of "fst z" "snd z"] by simp
      qed
      have "lprice ob' n = o_price x" using lev [OF s here] by simp
      moreover have "sorted_wrt (better s) (map (lprice ob \<circ> fst) (xs @ ys))"
        using so pl True by (auto simp: side_ok_def rest_place_def sorted_wrt_append split: if_splits)
      moreover have "map (lprice ob' \<circ> fst) (xs @ ys) = map (lprice ob \<circ> fst) (xs @ ys)" using old by auto
      ultimately have "lprice ob' n = o_price x" "sorted_wrt (better s) (map (lprice ob' \<circ> fst) (xs @ ys))"
        by (simp_all only:)
      then show ?thesis
        using True rg ad old pl by (auto simp: with_order_def added_to_def rest_place_def sorted_wrt_append)
    next
      case False
      then have ts: "t = other s" using s t by (auto simp: book_side_def other_def)
      have sh_t: "?sh t = sh t" using False by (simp add: with_order_def)
      have nn: "m \<noteq> n" if "(m, ks) \<in> set (sh t)" for m ks
        using lev [OF t, of m ks] lev [OF s here] that False sh_t by (auto simp: level_ok_def)
      have same: "lvl ob' m = lvl ob m" if m: "m \<in> set (map fst (sh t))" for m
      proof -
        from m obtain ks where ks: "(m, ks) \<in> set (sh t)" by auto
        have "m \<notin> fst ` set (sh s)" using level_unique [OF ok s t _ ks] False by fastforce
        then have "m \<notin> set (map fst xs @ n # map fst ys)" using nn [OF ks] pl by (auto simp: rest_place_def)
        then show ?thesis using ad by (simp add: added_to_def)
      qed
      then have "ring (lnext ob') (lprev ob') (map fst (sh t)) = ring (lnext ob) (lprev ob) (map fst (sh t))"
        by (intro ring_cong) (auto simp: lnext_def lprev_def)
      moreover have "map (lprice ob' \<circ> fst) (sh t) = map (lprice ob \<circ> fst) (sh t)"
        using same by (auto simp: lprice_def)
      ultimately show ?thesis using so sh_t ts ad by (simp only: side_ok_def added_to_def)
    qed
    then show ?thesis using lev [OF t] by (auto simp: side_ok_def)
  qed
qed
section \<open>Where an order goes\<close>

text \<open>No level of another price, or of the other side, occupies the price's entry of the table.\<close>

definition price_free :: "Side \<Rightarrow> Price \<Rightarrow> MEOrderBook \<Rightarrow> bool" where
  "price_free s p ob \<longleftrightarrow>
     (\<forall>n. price_orders_at_price ob (pidx p) = Some n \<longrightarrow> lprice ob n = p \<and> l_side (lvl ob n) = s)"

lemma better_trans: "better s p q \<Longrightarrow> better s q r \<Longrightarrow> better s p r"
  by (auto simp: better_def split: if_splits)

lemma better_linear: "p \<noteq> q \<Longrightarrow> better s p q \<or> better s q p"
  by (auto simp: better_def)

lemma better_irrefl [simp]: "\<not> better s p p"
  by (simp add: better_def)

lemma rest_place_exists:
  assumes ok: "book_ok ob sh" and s: "book_side s" and free: "price_free s p ob"
  shows "case price_orders_at_price ob (pidx p) of
      Some n \<Rightarrow> \<exists>xs is ys. is \<noteq> [] \<and> rest_place s xs n is ys p ob sh
    | None \<Rightarrow> \<exists>xs ys. sh s = xs @ ys \<and> (\<forall>m \<in> set xs. better s (lprice ob (fst m)) p)
        \<and> (\<forall>m \<in> set ys. better s p (lprice ob (fst m)))"
proof (cases "price_orders_at_price ob (pidx p)")
  case (Some n)
  have "tables_ok ob sh" using ok by (simp add: book_ok_def)
  with Some obtain t "is" where t: "book_side t" "(n, is) \<in> set (sh t)" unfolding tables_ok_def by blast
  have lo: "level_ok ob t n is" using book_ok_level [OF ok t] .
  have pr: "lprice ob n = p" and ts: "t = s" using free Some lo by (auto simp: price_free_def level_ok_def)
  from t(2) ts obtain xs ys where sp: "sh s = xs @ (n, is) # ys" by (auto simp: in_set_conv_decomp)
  have "sorted_wrt (better s) (map (lprice ob \<circ> fst) (sh s))" using book_ok_side [OF ok s] by (simp add: side_ok_def)
  then have "(\<forall>m \<in> set xs. better s (lprice ob (fst m)) p) \<and> (\<forall>m \<in> set ys. better s p (lprice ob (fst m)))"
    using sp pr by (auto simp: sorted_wrt_append)
  moreover have "is \<noteq> []" using lo by (simp add: level_ok_def)
  ultimately have "rest_place s xs n is ys p ob sh" using sp pr by (auto simp: rest_place_def)
  then show ?thesis using Some \<open>is \<noteq> []\<close> by auto
next
  case None
  let ?P = "\<lambda>m. better s (lprice ob (fst m)) p"
  have ne: "lprice ob (fst m) \<noteq> p" if "m \<in> set (sh s)" for m
    using book_ok_level [OF ok s, of "fst m" "snd m"] that None by (auto simp: level_ok_def)
  have srt: "sorted_wrt (better s) (map (lprice ob \<circ> fst) (takeWhile ?P (sh s) @ dropWhile ?P (sh s)))"
    using book_ok_side [OF ok s] by (simp add: side_ok_def)
  have "better s p (lprice ob (fst m))" if m: "m \<in> set (dropWhile ?P (sh s))" for m
  proof -
    obtain h zs where h: "dropWhile ?P (sh s) = h # zs" using m by (cases "dropWhile ?P (sh s)") auto
    have "\<not> ?P h" using h hd_dropWhile [of ?P "sh s"] by auto
    moreover have "h \<in> set (sh s)" using h by (metis list.set_intros(1) set_dropWhileD)
    ultimately have "better s p (lprice ob (fst h))" using better_linear ne by blast
    moreover have "m = h \<or> better s (lprice ob (fst h)) (lprice ob (fst m))"
      using m h srt by (auto simp: sorted_wrt_append)
    ultimately show ?thesis using better_trans by blast
  qed
  moreover have "\<forall>m \<in> set (takeWhile ?P (sh s)). ?P m" by (auto dest: set_takeWhileD)
  ultimately have "\<exists>xs ys. sh s = xs @ ys \<and> (\<forall>m \<in> set xs. ?P m) \<and> (\<forall>m \<in> set ys. better s p (lprice ob (fst m)))"
    using takeWhile_dropWhile_id [of ?P "sh s"] by metis
  then show ?thesis using None by simp
qed

definition rested :: "Side \<Rightarrow> shape \<Rightarrow> nat \<Rightarrow> nat list \<Rightarrow> nat \<Rightarrow> shape \<Rightarrow> MEOrder \<Rightarrow> MEOrderBook \<Rightarrow> MEOrderBook \<Rightarrow> (Side \<Rightarrow> shape) \<Rightarrow> bool" where
  "rested s xs n is i ys x ob ob' sh \<longleftrightarrow> rest_place s xs n is ys (o_price x) ob sh \<and> added_to s xs n is i ys x ob ob'
     \<and> \<not> allocated (order_pool ob) i \<and> book_ok ob' (with_order s xs n is i ys sh)"

lemma addOrder_ok:
  assumes ok: "book_ok ob sh" and x: "can_rest s x ob" and free: "price_free s (o_price x) ob"
    and al: "can_allocate (order_pool ob)" "can_allocate (orders_at_price_pool ob)"
  shows "\<exists>i pool ob' xs n is ys. allocate x (order_pool ob) = (Some i, pool)
    \<and> addOrder (Some i) (ob\<lparr>order_pool := pool\<rparr>) = Inr ob' \<and> rested s xs n is i ys x ob ob' sh"
proof -
  have s: "book_side s" using x by (simp add: can_rest_def)
  obtain i pool where ip: "allocate x (order_pool ob) = (Some i, pool)" using allocate_exists [OF al(1)] by blast
  have fresh: "\<not> allocated (order_pool ob) i" using allocate_Some(1) [OF _ ip] ok by (simp add: book_ok_def)
  have "\<exists>ob' xs n is ys. addOrder (Some i) (ob\<lparr>order_pool := pool\<rparr>) = Inr ob'
      \<and> rest_place s xs n is ys (o_price x) ob sh \<and> added_to s xs n is i ys x ob ob'"
  proof (cases "price_orders_at_price ob (pidx (o_price x))")
    case (Some n)
    then obtain xs "is" ys where pl: "is \<noteq> []" "rest_place s xs n is ys (o_price x) ob sh"
      using rest_place_exists [OF ok s free] by auto
    then have "sh s = xs @ (n, is) # ys" "lprice ob n = o_price x" by (auto simp: rest_place_def)
    from addOrder_existing [OF ok x this ip] pl show ?thesis by blast
  next
    case None
    then obtain xs ys where pl: "sh s = xs @ ys" "\<forall>m \<in> set xs. better s (lprice ob (fst m)) (o_price x)"
        "\<forall>m \<in> set ys. better s (o_price x) (lprice ob (fst m))"
      using rest_place_exists [OF ok s free] by auto
    from addOrder_new [OF ok x pl(1) None pl(2,3) ip al(2)] obtain ob' n where n:
      "addOrder (Some i) (ob\<lparr>order_pool := pool\<rparr>) = Inr ob'" "added_to s xs n [] i ys x ob ob'"
      "\<not> allocated (orders_at_price_pool ob) n" by blast
    have "rest_place s xs n [] ys (o_price x) ob sh" using pl None n(3) by (simp add: rest_place_def)
    with n show ?thesis by blast
  qed
  then show ?thesis using ip added_to_ok [OF ok x _ _ fresh] fresh unfolding rested_def by blast
qed

lemma getNextPriority_ok:
  assumes ok: "book_ok ob sh" and s: "book_side s" and pl: "rest_place s xs n is ys p ob sh"
  shows "getNextPriority p ob = Inr (if is = [] then 1 else o_priority (ord ob (last is)) + 1)"
proof (cases "is = []")
  case True
  then show ?thesis using pl by (simp add: getNextPriority_def rest_place_def)
next
  case False
  then have "level_ok ob s n is" using book_ok_level [OF ok s] pl by (auto simp: rest_place_def)
  moreover have "lprice ob n = p" using pl False by (simp add: rest_place_def)
  moreover obtain f fs where "is = f # fs" using False by (cases "is") auto
  ultimately show ?thesis
    using ring_head_prev [of "onext ob" "oprev ob" f fs]
    by (auto simp: getNextPriority_def level_ok_def oprev_def)
qed
end
