(* ===== verification/Order_Book_Spec.thy ===== *)
theory Order_Book_Spec
  imports Order_Book_Add
begin

text \<open>
  What the order book promises: each side is a list of orders in price-time priority. A new order is
  filled from the front of the other side, and what is left of it goes behind the orders of its own
  side that are at least as good. The pointer structures of the book implement these lists.
\<close>

section \<open>The abstract book\<close>

type_synonym spec_book = "Side \<Rightarrow> MEOrder list"

definition fill_calls :: "TickerId \<Rightarrow> ClientId \<Rightarrow> Side \<Rightarrow> OrderId \<Rightarrow> OrderId \<Rightarrow> MEOrder \<Rightarrow> Qty \<Rightarrow> Qty \<Rightarrow> MECall list" where
  "fill_calls tid cid side coid moid x fill leaves =
     [filled_response cid tid coid moid side (o_price x) fill leaves,
      filled_response (o_client_id x) tid (o_client_order_id x) (o_market_order_id x) (o_side x) (o_price x) fill
        (o_qty x - fill),
      market_update Upd_TRADE OrderId_INVALID tid side (o_price x) fill Priority_INVALID]"

fun spec_match ::
  "TickerId \<Rightarrow> ClientId \<Rightarrow> Side \<Rightarrow> OrderId \<Rightarrow> OrderId \<Rightarrow> Price \<Rightarrow> Qty \<Rightarrow> MEOrder list \<Rightarrow> MECall list \<times> Qty \<times> MEOrder list" where
  "spec_match tid cid side coid moid price leaves [] = ([], leaves, [])"
| "spec_match tid cid side coid moid price leaves (x # xs) =
     (if leaves = 0 \<or> \<not> crosses side price (o_price x) then ([], leaves, x # xs)
      else if o_qty x \<le> leaves
      then let (cs, l, rest) = spec_match tid cid side coid moid price (leaves - o_qty x) xs
           in (fill_calls tid cid side coid moid x (o_qty x) (leaves - o_qty x)
               @ market_update Upd_CANCEL (o_market_order_id x) tid (o_side x) (o_price x) (o_qty x) Priority_INVALID # cs,
               l, rest)
      else (fill_calls tid cid side coid moid x leaves 0
            @ [market_update Upd_MODIFY (o_market_order_id x) tid (o_side x) (o_price x) (o_qty x - leaves) (o_priority x)],
            0, x\<lparr>o_qty := o_qty x - leaves\<rparr> # xs))"

text \<open>Behind the orders that are at least as good.\<close>

definition spec_rest :: "MEOrder \<Rightarrow> MEOrder list \<Rightarrow> MEOrder list" where
  "spec_rest x xs =
     (let P = (\<lambda>y. at_least_as_good (o_side x) (o_price y) (o_price x)) in takeWhile P xs @ [x] @ dropWhile P xs)"

definition spec_priority :: "Price \<Rightarrow> MEOrder list \<Rightarrow> Priority" where
  "spec_priority p xs =
     (let ys = filter (\<lambda>y. o_price y = p) xs in if ys = [] then 1 else o_priority (last ys) + 1)"

definition side_orders :: "MEOrderBook \<Rightarrow> (Side \<Rightarrow> shape) \<Rightarrow> Side \<Rightarrow> MEOrder list" where
  "side_orders ob sh s = map (\<lambda>i. erase (ord ob i)) (concat (map snd (sh s)))"

definition represents :: "MEOrderBook \<Rightarrow> spec_book \<Rightarrow> bool" where
  "represents ob bk \<longleftrightarrow> (\<exists>sh. book_ok ob sh \<and> (\<forall>s. book_side s \<longrightarrow> side_orders ob sh s = bk s))"


section \<open>The lists of a book\<close>

lemma side_orders_prices:
  assumes ok: "book_ok ob sh" and s: "book_side s"
  shows "sorted_wrt (\<lambda>x y. at_least_as_good s (o_price x) (o_price y)) (side_orders ob sh s)"
proof -
  have "sorted_wrt (\<lambda>x y. at_least_as_good s (o_price x) (o_price y))
      (map (\<lambda>i. erase (ord ob i)) (concat (map snd xs)))"
    if "\<forall>(n, is) \<in> set xs. level_ok ob s n is" "sorted_wrt (better s) (map (lprice ob \<circ> fst) xs)" for xs
    using that
  proof (induction xs)
    case (Cons a xs)
    obtain n "is" where a: "a = (n, is)" by (cases a)
    have p: "o_price (erase (ord ob i)) = lprice ob m" if "(m, js) \<in> set (a # xs)" "i \<in> set js" for m js i
      using that Cons.prems(1) by (auto simp: level_ok_def order_ok_def erase_def)
    have "sorted_wrt (\<lambda>x y. at_least_as_good s (o_price x) (o_price y)) (map (\<lambda>i. erase (ord ob i)) is)"
      using p [of n "is"] a by (auto simp: sorted_wrt_iff_nth_less at_least_as_good_def)
    moreover have "at_least_as_good s (o_price (erase (ord ob i))) (o_price (erase (ord ob j)))"
      if "i \<in> set is" "(m, js) \<in> set xs" "j \<in> set js" for i m js j
      using that p [of n "is" i] p [of m js j] a Cons.prems(2) s better_at_least by fastforce
    ultimately show ?case
      using Cons a by (auto simp: sorted_wrt_append)
  qed simp
  then show ?thesis using book_ok_side [OF ok s] by (simp add: side_orders_def side_ok_def)
qed

lemma side_orders_sides:
  assumes ok: "book_ok ob sh" and s: "book_side s" and x: "x \<in> set (side_orders ob sh s)"
  shows "o_side x = s"
proof -
  from x obtain n "is" i where "(n, is) \<in> set (sh s)" "i \<in> set is" "x = erase (ord ob i)"
    by (auto simp: side_orders_def)
  then show ?thesis using book_ok_order [OF ok s] by (auto simp: order_ok_def erase_def)
qed

text \<open>Replacing the shape of one side, and the orders of a side that an operation did not touch.\<close>

lemma side_orders_cong:
  assumes "sh' s = sh s" and "\<And>n is i. (n, is) \<in> set (sh s) \<Longrightarrow> i \<in> set is \<Longrightarrow> erase (ord ob' i) = erase (ord ob i)"
  shows "side_orders ob' sh' s = side_orders ob sh s"
  using assms by (auto simp: side_orders_def)

lemma side_orders_removed:
  assumes "removed_from s xs n is i js ys ob ob'" and "sh s = xs @ (n, is @ i # js) # ys"
  shows "side_orders ob' (without s xs n (is @ js) ys sh) s =
      map (\<lambda>k. erase (ord ob k)) (concat (map snd xs) @ is @ js @ concat (map snd ys))"
    and "t \<noteq> s \<Longrightarrow> side_orders ob' (without s xs n (is @ js) ys sh) t = side_orders ob sh t"
  using assms by (auto simp: side_orders_def without_def removed_from_def)

section \<open>One fill\<close>

text \<open>What a fill keeps, apart from the lists.\<close>

definition price_unique :: "Price \<Rightarrow> MEOrderBook \<Rightarrow> bool" where
  "price_unique p ob \<longleftrightarrow> (\<forall>n. price_orders_at_price ob (pidx p) = Some n \<longrightarrow> lprice ob n = p)"

definition kept :: "MEOrderBook \<Rightarrow> MEOrderBook \<Rightarrow> bool" where
  "kept ob ob' \<longleftrightarrow> ob_ticker_id ob' = ob_ticker_id ob \<and> next_market_order_id ob' = next_market_order_id ob
     \<and> store_size (order_pool ob') = store_size (order_pool ob)
     \<and> (can_allocate (order_pool ob) \<longrightarrow> can_allocate (order_pool ob'))
     \<and> (can_allocate (orders_at_price_pool ob) \<longrightarrow> can_allocate (orders_at_price_pool ob'))
     \<and> (\<forall>c d. cid_oid_to_order ob c d = None \<longrightarrow> cid_oid_to_order ob' c d = None)
     \<and> (\<forall>p. price_unique p ob \<longrightarrow> price_unique p ob')"

lemma kept_refl [simp]: "kept ob ob"
  by (simp add: kept_def)

lemma kept_call [simp]: "kept ob (call c ob') = kept ob ob'"
  by (simp add: kept_def price_unique_def lprice_def)

lemma kept_trans: "kept ob ob1 \<Longrightarrow> kept ob1 ob2 \<Longrightarrow> kept ob ob2"
  by (simp add: kept_def)

lemma removed_from_kept:
  assumes rm: "removed_from s xs n is i js ys ob ob'"
  shows "kept ob ob'"
proof -
  have "price_unique p ob'" if "price_unique p ob" for p
  proof -
    have "lprice ob' m = p" if m: "price_orders_at_price ob' (pidx p) = Some m" for m
    proof -
      have "price_orders_at_price ob (pidx p) = Some m"
        and "is @ js = [] \<longrightarrow> pidx p \<noteq> pidx (lprice ob n)"
        using m rm by (auto simp: removed_from_def split: if_splits)
      moreover from this have "lprice ob m = p" using \<open>price_unique p ob\<close> by (simp add: price_unique_def)
      ultimately show ?thesis
        using rm by (cases "m = n") (auto simp: removed_from_def lcore_def lprice_def)
    qed
    then show ?thesis by (simp add: price_unique_def)
  qed
  then show ?thesis using rm by (auto simp: kept_def removed_from_def order_dropped_def book_frame_def)
qed

text \<open>The order at the front of a side, and the book after its quantity is reduced and the fill reported.\<close>

definition filled_book :: "TickerId \<Rightarrow> ClientId \<Rightarrow> Side \<Rightarrow> OrderId \<Rightarrow> OrderId \<Rightarrow> nat \<Rightarrow> Qty \<Rightarrow> Qty \<Rightarrow> MEOrderBook \<Rightarrow> MEOrderBook" where
  "filled_book tid cid side coid moid i fill leaves ob =
     (upd_ord i (\<lambda>x. x\<lparr>o_qty := o_qty x - fill\<rparr>) ob)
       \<lparr>out_calls := out_calls ob @ fill_calls tid cid side coid moid (ord ob i) fill leaves\<rparr>"

lemma filled_book_simps [simp]:
  "ord (filled_book tid cid side coid moid i fill lv ob) = (ord ob)(i := (ord ob i)\<lparr>o_qty := o_qty (ord ob i) - fill\<rparr>)"
  "lvl (filled_book tid cid side coid moid i fill lv ob) = lvl ob"
  "best s (filled_book tid cid side coid moid i fill lv ob) = best s ob"
  "out_calls (filled_book tid cid side coid moid i fill lv ob) = out_calls ob @ fill_calls tid cid side coid moid (ord ob i) fill lv"
  by (auto simp: filled_book_def ord_def lvl_def upd_ord_def best_def fun_eq_iff)

lemma filled_book_calls:
  "filled_book tid cid side coid moid i fill lv ob =
    fold call (fill_calls tid cid side coid moid (ord ob i) fill lv) (upd_ord i (\<lambda>x. x\<lparr>o_qty := o_qty x - fill\<rparr>) ob)"
  by (simp add: filled_book_def fill_calls_def call_def upd_ord_def)

lemma filled_book_ok [simp]: "book_ok (filled_book tid cid side coid moid i fill lv ob) sh = book_ok ob sh"
  unfolding filled_book_calls fill_calls_def by simp

lemma filled_book_kept [simp]: "kept ob (filled_book tid cid side coid moid i fill lv ob)"
  by (simp add: kept_def filled_book_def price_unique_def lprice_def lvl_def upd_ord_def)

lemma match_order_conv:
  "match_order tid cid side coid moid (Some i) leaves ob =
    (let x = ord ob i; fill = min leaves (o_qty x);
         ob1 = filled_book tid cid side coid moid i fill (leaves - fill) ob
     in if o_qty x = fill
        then bindE (removeOrder (Some i) (call (market_update Upd_CANCEL (o_market_order_id x) tid (o_side x)
               (o_price x) (o_qty x) Priority_INVALID) ob1)) (\<lambda>ob'. Inr (leaves - fill, ob'))
        else Inr (leaves - fill, call (market_update Upd_MODIFY (o_market_order_id x) tid (o_side x) (o_price x)
               (o_qty x - fill) (o_priority x)) ob1))"
  unfolding filled_book_calls by (simp add: match_order_def Let_def fill_calls_def)

text \<open>The order at the front of a side is in no other place of the book.\<close>

lemma front_once:
  assumes ok: "book_ok ob sh" and s: "book_side side" and sh: "sh (other side) = (n, i # js) # ys"
  shows "i \<notin> set (js @ concat (map snd ys))" and "(m, ks) \<in> set (sh side) \<Longrightarrow> i \<notin> set ks"
proof -
  have here: "(n, i # js) \<in> set (sh (other side))" using sh by simp
  have u: "other side = t \<and> n = m \<and> i # js = ks" if "(m, ks) \<in> set (sh t)" "book_side t" "i \<in> set ks" for m ks t
    using order_unique [OF ok book_side_simps(3) that(2) here that(1) _ that(3)] by simp
  have "distinct (map fst (sh (other side)))"
    using book_ok_side [OF ok, of "other side"] ring_distinct by (auto simp: side_ok_def)
  then have "n \<notin> fst ` set ys" using sh by simp
  then have ne: "n \<noteq> m" if "(m, ks) \<in> set ys" for m ks using that by (auto simp: image_iff)
  have "i \<notin> set ks" if y: "(m, ks) \<in> set ys" for m ks
  proof
    assume "i \<in> set ks"
    moreover have "(m, ks) \<in> set (sh (other side))" using y sh by simp
    ultimately have "n = m" using u book_side_simps(3) by blast
    then show False using ne [OF y] by simp
  qed
  moreover have "distinct (i # js)"
    using book_ok_level [OF ok book_side_simps(3) here] unfolding level_ok_def by (blast intro: ring_distinct)
  ultimately show "i \<notin> set (js @ concat (map snd ys))" by auto
  show "(m, ks) \<in> set (sh side) \<Longrightarrow> i \<notin> set ks" using u [of m ks side] s by (metis other_other(2))
qed

text \<open>A fill that consumes the passive order.\<close>

lemma match_order_full:
  assumes ok: "book_ok ob sh" and s: "book_side side" and sh: "sh (other side) = (n, i # js) # ys"
    and q: "o_qty (ord ob i) \<le> leaves"
  shows "\<exists>ob' sh'. match_order tid cid side coid moid (Some i) leaves ob = Inr (leaves - o_qty (ord ob i), ob')
    \<and> book_ok ob' sh' \<and> kept ob ob'
    \<and> side_orders ob' sh' (other side) = tl (side_orders ob sh (other side)) \<and> side_orders ob' sh' side = side_orders ob sh side
    \<and> out_calls ob' = out_calls ob @ fill_calls tid cid side coid moid (erase (ord ob i)) (o_qty (ord ob i)) (leaves - o_qty (ord ob i))
        @ [market_update Upd_CANCEL (o_market_order_id (ord ob i)) tid (o_side (ord ob i)) (o_price (ord ob i)) (o_qty (ord ob i)) Priority_INVALID]"
proof -
  let ?x = "ord ob i"
  define ob1 where "ob1 = call (market_update Upd_CANCEL (o_market_order_id ?x) tid (o_side ?x) (o_price ?x) (o_qty ?x) Priority_INVALID)
     (filled_book tid cid side coid moid i (o_qty ?x) (leaves - o_qty ?x) ob)"
  have ok1: "book_ok ob1 sh" using ok by (simp add: ob1_def)
  have sh1: "sh (other side) = [] @ (n, [] @ i # js) # ys" using sh by simp
  obtain ob' where ob': "removeOrder (Some i) ob1 = Inr ob'" "removed_from (other side) [] n [] i js ys ob1 ob'"
    "book_ok ob' (without (other side) [] n ([] @ js) ys sh)"
    using removeOrder_ok [OF ok1 book_side_simps(3) sh1] by blast
  let ?sh = "without (other side) [] n ([] @ js) ys sh"
  note once = front_once [OF ok s sh]
  have mo: "match_order tid cid side coid moid (Some i) leaves ob = Inr (leaves - o_qty ?x, ob')"
    using q ob'(1) by (simp add: match_order_conv Let_def ob1_def min_absorb2)
  have "side_orders ob' ?sh (other side) = tl (side_orders ob sh (other side))"
    using side_orders_removed(1) [where sh = sh, OF ob'(2) sh1] once(1) sh by (auto simp: ob1_def side_orders_def)
  moreover have "side_orders ob' ?sh side = side_orders ob sh side"
  proof -
    have "side_orders ob' ?sh side = side_orders ob1 sh side"
      by (rule side_orders_removed(2) [where sh = sh, OF ob'(2) sh1]) (use s in \<open>auto simp: other_def book_side_def\<close>)
    also have "\<dots> = side_orders ob sh side"
      using once(2) by (intro side_orders_cong) (auto simp: ob1_def)
    finally show ?thesis .
  qed
  moreover have "kept ob ob'"
    by (rule kept_trans [OF _ removed_from_kept [OF ob'(2)]]) (simp add: ob1_def)
  moreover have "out_calls ob' = out_calls ob1" using ob'(2) by (simp add: removed_from_def order_dropped_def book_frame_def)
  then have "out_calls ob' = out_calls ob @ fill_calls tid cid side coid moid (erase ?x) (o_qty ?x) (leaves - o_qty ?x)
        @ [market_update Upd_CANCEL (o_market_order_id ?x) tid (o_side ?x) (o_price ?x) (o_qty ?x) Priority_INVALID]"
    by (simp add: ob1_def fill_calls_def erase_def)
  ultimately show ?thesis using mo ob'(3) by blast
qed

text \<open>A fill that leaves some of the passive order.\<close>

lemma match_order_part:
  assumes ok: "book_ok ob sh" and s: "book_side side" and sh: "sh (other side) = (n, i # js) # ys"
    and q: "\<not> o_qty (ord ob i) \<le> leaves"
  shows "\<exists>ob'. match_order tid cid side coid moid (Some i) leaves ob = Inr (0, ob')
    \<and> book_ok ob' sh \<and> kept ob ob' \<and> lvl ob' = lvl ob \<and> (\<forall>t. best t ob' = best t ob)
    \<and> side_orders ob' sh (other side) =
        (erase (ord ob i))\<lparr>o_qty := o_qty (ord ob i) - leaves\<rparr> # tl (side_orders ob sh (other side))
    \<and> side_orders ob' sh side = side_orders ob sh side
    \<and> out_calls ob' = out_calls ob @ fill_calls tid cid side coid moid (erase (ord ob i)) leaves 0
        @ [market_update Upd_MODIFY (o_market_order_id (ord ob i)) tid (o_side (ord ob i)) (o_price (ord ob i))
             (o_qty (ord ob i) - leaves) (o_priority (ord ob i))]"
proof -
  let ?x = "ord ob i"
  note once = front_once [OF ok s sh]
  define ob' where "ob' = call (market_update Upd_MODIFY (o_market_order_id ?x) tid (o_side ?x) (o_price ?x)
      (o_qty ?x - leaves) (o_priority ?x)) (filled_book tid cid side coid moid i leaves 0 ob)"
  have "min leaves (o_qty ?x) = leaves" "o_qty ?x \<noteq> leaves" using q by (auto simp: min_def)
  then have "match_order tid cid side coid moid (Some i) leaves ob = Inr (0, ob')"
    by (simp add: match_order_conv Let_def ob'_def)
  moreover have "book_ok ob' sh" using ok by (simp add: ob'_def)
  moreover have "kept ob ob'"
    by (simp add: ob'_def)
  moreover have "side_orders ob' sh (other side) = (erase ?x)\<lparr>o_qty := o_qty ?x - leaves\<rparr> # tl (side_orders ob sh (other side))"
    using once(1) sh by (auto simp: ob'_def side_orders_def erase_def)
  moreover have "side_orders ob' sh side = side_orders ob sh side"
    using once(2) by (intro side_orders_cong) (auto simp: ob'_def)
  moreover have "out_calls ob' = out_calls ob @ fill_calls tid cid side coid moid (erase ?x) leaves 0
        @ [market_update Upd_MODIFY (o_market_order_id ?x) tid (o_side ?x) (o_price ?x) (o_qty ?x - leaves) (o_priority ?x)]"
    by (simp add: ob'_def fill_calls_def erase_def)
  moreover have "lvl ob' = lvl ob" "\<forall>t. best t ob' = best t ob" by (simp_all add: ob'_def)
  ultimately show ?thesis by blast
qed
section \<open>Matching\<close>

lemma side_orders_Nil:
  assumes ok: "book_ok ob sh" and s: "book_side s"
  shows "side_orders ob sh s = [] \<longleftrightarrow> best s ob = None"
proof -
  have so: "side_ok ob s (sh s)" using book_ok_side [OF ok s] .
  then have "\<forall>(n, is) \<in> set (sh s). is \<noteq> []" by (auto simp: side_ok_def level_ok_def)
  then have "side_orders ob sh s = [] \<longleftrightarrow> sh s = []"
    by (cases "sh s") (auto simp: side_orders_def)
  then show ?thesis using so by (simp add: side_ok_def)
qed

lemma side_orders_Cons:
  assumes ok: "book_ok ob sh" and s: "book_side s" and os: "side_orders ob sh s = x # xs"
  obtains n i js ys where "sh s = (n, i # js) # ys" "best s ob = Some n" "l_first_me_order (lvl ob n) = Some i"
    "erase (ord ob i) = x"
proof -
  have so: "side_ok ob s (sh s)" using book_ok_side [OF ok s] .
  have "sh s \<noteq> []" using os by (auto simp: side_orders_def)
  then obtain n "is" ys where sh: "sh s = (n, is) # ys" by (cases "sh s") auto
  then have lo: "level_ok ob s n is" using so by (auto simp: side_ok_def)
  then obtain i js where i: "is = i # js" by (cases "is") (auto simp: level_ok_def)
  show thesis
    by (rule that [of n i js ys]) (use sh i so lo os in \<open>auto simp: side_ok_def level_ok_def side_orders_def\<close>)
qed

lemma erase_simps [simp]:
  "o_qty (erase x) = o_qty x" "o_price (erase x) = o_price x" "o_side (erase x) = o_side x"
  "o_market_order_id (erase x) = o_market_order_id x" "o_priority (erase x) = o_priority x"
  "o_client_id (erase x) = o_client_id x" "o_client_order_id (erase x) = o_client_order_id x"
  by (simp_all add: erase_def)

definition matched :: "Side \<Rightarrow> MECall list \<Rightarrow> MEOrder list \<Rightarrow> MEOrderBook \<Rightarrow> (Side \<Rightarrow> shape) \<Rightarrow> MEOrderBook \<Rightarrow> (Side \<Rightarrow> shape) \<Rightarrow> bool" where
  "matched side cs rest ob sh ob' sh' \<longleftrightarrow> book_ok ob' sh' \<and> kept ob ob'
     \<and> side_orders ob' sh' (other side) = rest \<and> side_orders ob' sh' side = side_orders ob sh side
     \<and> out_calls ob' = out_calls ob @ cs"

lemma matched_refl: "book_ok ob sh \<Longrightarrow> matched side [] (side_orders ob sh (other side)) ob sh ob sh"
  by (simp add: matched_def)

lemma matched_trans:
  "matched side cs rest ob sh ob1 sh1 \<Longrightarrow> matched side cs' rest' ob1 sh1 ob2 sh2
   \<Longrightarrow> matched side (cs @ cs') rest' ob sh ob2 sh2"
  by (auto simp: matched_def intro: kept_trans)

text \<open>The loop of \<open>checkForMatch\<close> after one fill, when the other side still has an order.\<close>

lemma match_loop_step:
  assumes "0 < leaves" and "best (other side) ob = Some n" "l_first_me_order (lvl ob n) = Some i"
    and "crosses side price (o_price (ord ob i))"
    and "match_order tid cid side coid moid (Some i) leaves ob = Inr (leaves', ob')"
  shows "match_loop (Suc fuel) cid coid tid side price moid leaves ob =
    (case best (other side) ob' of
       None \<Rightarrow> Inl NullDeref
     | Some m \<Rightarrow> match_loop fuel cid coid tid side price moid leaves'
         (if l_first_me_order (lvl ob' m) = None
          then set_best (other side) (if l_next_entry (lvl ob' m) = Some m then None else l_next_entry (lvl ob' m)) ob'
          else ob'))"
  using assms by (simp add: Let_def split: option.splits)

lemma match_loop_refines:
  assumes "book_ok ob sh" "book_side side" "side_orders ob sh (other side) = xs"
    and "spec_match tid cid side coid moid price leaves xs = (cs, l, rest)" and "length xs < fuel"
  shows "if xs \<noteq> [] \<and> rest = [] then match_loop fuel cid coid tid side price moid leaves ob = Inl NullDeref
    else \<exists>ob' sh'. match_loop fuel cid coid tid side price moid leaves ob = Inr (l, ob') \<and> matched side cs rest ob sh ob' sh'"
  using assms
proof (induction xs arbitrary: ob sh leaves cs fuel)
  case Nil
  then obtain k where "fuel = Suc k" by (cases fuel) auto
  moreover have "best (other side) ob = None" using side_orders_Nil [OF Nil(1) book_side_simps(3)] Nil(3) by simp
  ultimately show ?case using Nil matched_refl [OF Nil(1), of side] by auto
next
  case (Cons x xs)
  note ok = Cons.prems(1) and s = Cons.prems(2)
  obtain k where k: "fuel = Suc k" "length xs < k" using Cons.prems(5) by (cases fuel) auto
  obtain n i js ys where i: "sh (other side) = (n, i # js) # ys" "best (other side) ob = Some n"
    "l_first_me_order (lvl ob n) = Some i" "erase (ord ob i) = x"
    using side_orders_Cons [OF ok book_side_simps(3) Cons.prems(3)] by blast
  have x: "o_price (ord ob i) = o_price x" "o_qty (ord ob i) = o_qty x" "o_side (ord ob i) = o_side x"
    "o_market_order_id (ord ob i) = o_market_order_id x" "o_priority (ord ob i) = o_priority x"
    using i(4) by auto
  consider (stop) "leaves = 0 \<or> \<not> crosses side price (o_price x)"
    | (full) "0 < leaves" "crosses side price (o_price x)" "o_qty x \<le> leaves"
    | (part) "0 < leaves" "crosses side price (o_price x)" "\<not> o_qty x \<le> leaves"
    by (auto simp: word_gt_0)
  then show ?case
  proof cases
    case stop
    then have "match_loop fuel cid coid tid side price moid leaves ob = Inr (leaves, ob)"
      using k(1) i x by (auto simp: word_gt_0)
    then show ?thesis
      using stop Cons.prems(3,4) matched_refl [OF ok, of side] by auto
  next
    case full
    obtain cs' where sp: "spec_match tid cid side coid moid price (leaves - o_qty x) xs = (cs', l, rest)"
      and cs: "cs = (fill_calls tid cid side coid moid x (o_qty x) (leaves - o_qty x)
               @ [market_update Upd_CANCEL (o_market_order_id x) tid (o_side x) (o_price x) (o_qty x) Priority_INVALID]) @ cs'"
      using Cons.prems(4) full by (auto simp: word_gt_0 split: prod.splits)
    obtain ob1 sh1 where m: "match_order tid cid side coid moid (Some i) leaves ob = Inr (leaves - o_qty x, ob1)"
      "matched side (fill_calls tid cid side coid moid x (o_qty x) (leaves - o_qty x)
               @ [market_update Upd_CANCEL (o_market_order_id x) tid (o_side x) (o_price x) (o_qty x) Priority_INVALID]) xs ob sh ob1 sh1"
      using match_order_full [OF ok s i(1), of leaves tid cid coid moid] full x i(4) Cons.prems(3)
      by (auto simp: matched_def)
    note step = match_loop_step [OF full(1) i(2,3) _ m(1), of price k] x(1) full(2)
    have ok1: "book_ok ob1 sh1" "side_orders ob1 sh1 (other side) = xs" using m(2) by (auto simp: matched_def)
    show ?thesis
    proof (cases xs)
      case Nil
      then have "best (other side) ob1 = None" using side_orders_Nil [OF ok1(1)] ok1(2) by simp
      then show ?thesis using step k(1) Nil sp by simp
    next
      case (Cons y zs)
      obtain n1 i1 where "best (other side) ob1 = Some n1" "l_first_me_order (lvl ob1 n1) = Some i1"
        using side_orders_Cons [OF ok1(1) book_side_simps(3)] ok1(2) Cons by metis
      then have "match_loop fuel cid coid tid side price moid leaves ob
        = match_loop k cid coid tid side price moid (leaves - o_qty x) ob1"
        using step k(1) by simp
      moreover have "matched side cs rest ob sh ob' sh'" if "matched side cs' rest ob1 sh1 ob' sh'" for ob' sh'
        using matched_trans [OF m(2) that] cs by simp
      ultimately show ?thesis
        using Cons.IH [OF ok1(1) s ok1(2) sp k(2)] Cons by (auto split: if_splits)
    qed
  next
    case part
    obtain ob1 where m: "match_order tid cid side coid moid (Some i) leaves ob = Inr (0, ob1)"
      "matched side cs rest ob sh ob1 sh" "lvl ob1 = lvl ob" "best (other side) ob1 = best (other side) ob"
      using match_order_part [OF ok s i(1), of leaves tid cid coid moid] part x i(4) Cons.prems(3,4)
      by (auto simp: matched_def word_gt_0)
    have "l = 0" "rest \<noteq> []" using part Cons.prems(4) by (auto simp: word_gt_0)
    obtain k' where "k = Suc k'" using k(2) by (cases k) auto
    then have "match_loop fuel cid coid tid side price moid leaves ob = Inr (0, ob1)"
      using match_loop_step [OF part(1) i(2,3) _ m(1), of price k] x(1) part(2) m(3,4) i(2,3) k(1) by simp
    then show ?thesis using m(2) \<open>l = 0\<close> \<open>rest \<noteq> []\<close> by auto
  qed
qed
section \<open>Bounds and uniqueness\<close>

lemma side_blocks_distinct:
  assumes ok: "book_ok ob sh" and s: "book_side s"
  shows "distinct (concat (map snd (sh s)))"
proof -
  have lv: "(n, is) \<in> set (sh s) \<Longrightarrow> level_ok ob s n is" for n "is" using book_ok_level [OF ok s] .
  have "inj_on snd (set (sh s))"
  proof (rule inj_onI)
    fix a b assume ab: "a \<in> set (sh s)" "b \<in> set (sh s)" "snd a = snd b"
    obtain n "is" m js where n: "a = (n, is)" "b = (m, js)" by (cases a; cases b)
    then have "hd is \<in> set is" "is = js" using ab lv [of n "is"] by (auto simp: level_ok_def)
    then show "a = b" using order_unique [OF ok s s, of n "is" m js "hd is"] ab n by auto
  qed
  moreover have "distinct (sh s)"
    using book_ok_side [OF ok s] ring_distinct unfolding side_ok_def by (blast dest: distinct_map [THEN iffD1])
  ultimately have "distinct (map snd (sh s))" by (simp add: distinct_map)
  moreover have "distinct is" if "(n, is) \<in> set (sh s)" for n "is"
    using lv [OF that] ring_distinct by (auto simp: level_ok_def)
  moreover have "set is \<inter> set js = {}" if "is \<in> set (map snd (sh s))" "js \<in> set (map snd (sh s))" "is \<noteq> js" for "is" js
    using order_unique [OF ok s s] that by fastforce
  ultimately show ?thesis by (intro distinct_concat) (simp_all, auto)
qed

lemma side_orders_length:
  assumes ok: "book_ok ob sh" and s: "book_side s"
  shows "length (side_orders ob sh s) \<le> unat (store_size (order_pool ob))"
proof -
  have "set (concat (map snd (sh s))) \<subseteq> {..<unat (store_size (order_pool ob))}"
    using book_ok_order [OF ok s] by (fastforce simp: order_ok_def allocated_def)
  then have "length (concat (map snd (sh s))) \<le> unat (store_size (order_pool ob))"
    using side_blocks_distinct [OF ok s] by (metis card_lessThan card_mono distinct_card finite_lessThan)
  then show ?thesis by (simp only: side_orders_def length_map)
qed

section \<open>Resting\<close>

lemma rested_orders:
  assumes ok: "book_ok ob sh" and s: "book_side s" and x: "o_side x = s" and r: "rested s xs n is i ys x ob ob' sh"
  shows "side_orders ob' (with_order s xs n is i ys sh) s = spec_rest (erase x) (side_orders ob sh s)"
    and "t \<noteq> s \<Longrightarrow> book_side t \<Longrightarrow> side_orders ob' (with_order s xs n is i ys sh) t = side_orders ob sh t"
    and "spec_priority (o_price x) (side_orders ob sh s) = (if is = [] then 1 else o_priority (ord ob (last is)) + 1)"
proof -
  have pl: "rest_place s xs n is ys (o_price x) ob sh" and ad: "added_to s xs n is i ys x ob ob'"
    and fresh: "\<not> allocated (order_pool ob) i" using r by (auto simp: rested_def)
  let ?e = "\<lambda>k. erase (ord ob k)"
  have old: "k \<noteq> i" "erase (ord ob' k) = erase (ord ob k)" if "(m, ks) \<in> set (sh t)" "k \<in> set ks" "book_side t" for m ks k t
  proof -
    show "k \<noteq> i" using book_ok_order [OF ok that(3,1,2)] fresh by (auto simp: order_ok_def)
    then show "erase (ord ob' k) = erase (ord ob k)" using ad by (simp add: added_to_def)
  qed
  have flat: "concat (map snd (sh s)) = concat (map snd xs) @ is @ concat (map snd ys)"
    using pl by (auto simp: rest_place_def)
  have pr: "o_price (ord ob k) = lprice ob m" if "(m, ks) \<in> set (sh s)" "k \<in> set ks" for m ks k
    using book_ok_order [OF ok s that] by (simp add: order_ok_def)
  have px: "better s (o_price (ord ob k)) (o_price x)" if "k \<in> set (concat (map snd xs))" for k
    using that pr pl by (fastforce simp: rest_place_def)
  have py: "better s (o_price x) (o_price (ord ob k))" if "k \<in> set (concat (map snd ys))" for k
    using that pr pl by (fastforce simp: rest_place_def)
  have pi: "o_price (ord ob k) = o_price x" if "k \<in> set is" for k
    using that pr [of n "is" k] pl by (auto simp: rest_place_def split: if_splits)
  let ?P = "\<lambda>y. at_least_as_good s (o_price y) (o_price x)"
  have "?P (?e k)" if "k \<in> set (concat (map snd xs))" for k using better_at_least [OF s px [OF that]] by simp
  moreover have "?P (?e k)" if "k \<in> set is" for k using pi [OF that] by (simp add: at_least_as_good_def)
  ultimately have good: "\<forall>y \<in> set (map ?e (concat (map snd xs) @ is)). ?P y"
    by (simp only: set_map set_append) blast
  have "\<not> ?P (?e k)" if "k \<in> set (concat (map snd ys))" for k using better_at_least [OF s py [OF that]] by simp
  then have bad: "\<forall>y \<in> set (map ?e (concat (map snd ys))). \<not> ?P y"
    by (simp only: set_map) blast
  have so: "side_orders ob sh s = map ?e (concat (map snd xs) @ is) @ map ?e (concat (map snd ys))"
    by (simp add: side_orders_def flat)
  have tw: "takeWhile ?P (side_orders ob sh s) = map ?e (concat (map snd xs) @ is)"
    "dropWhile ?P (side_orders ob sh s) = map ?e (concat (map snd ys))"
    unfolding so by (rule takeWhile_dropWhile_split [OF good bad])+
  have "side_orders ob' (with_order s xs n is i ys sh) s
     = map (\<lambda>k. erase (ord ob' k)) (concat (map snd xs) @ is) @ [erase x] @ map (\<lambda>k. erase (ord ob' k)) (concat (map snd ys))"
    using ad by (simp add: side_orders_def with_order_def added_to_def)
  also have "\<dots> = map ?e (concat (map snd xs) @ is) @ [erase x] @ map ?e (concat (map snd ys))"
    using old [OF _ _ s] pl by (fastforce simp: rest_place_def split: if_splits)
  also have "\<dots> = spec_rest (erase x) (side_orders ob sh s)" by (simp add: spec_rest_def Let_def x tw)
  finally show "side_orders ob' (with_order s xs n is i ys sh) s = spec_rest (erase x) (side_orders ob sh s)" .
  show "t \<noteq> s \<Longrightarrow> book_side t \<Longrightarrow> side_orders ob' (with_order s xs n is i ys sh) t = side_orders ob sh t"
    using old by (intro side_orders_cong) (auto simp: with_order_def)
  have "filter (\<lambda>y. o_price y = o_price x) (map ?e ks) = []"
    if "\<forall>k \<in> set ks. better s (o_price (ord ob k)) (o_price x) \<or> better s (o_price x) (o_price (ord ob k))" for ks
    using that by (auto simp: filter_empty_conv)
  then have "filter (\<lambda>y. o_price y = o_price x) (map ?e (concat (map snd xs))) = []"
    "filter (\<lambda>y. o_price y = o_price x) (map ?e (concat (map snd ys))) = []" using px py by blast+
  moreover have "filter (\<lambda>y. o_price y = o_price x) (map ?e is) = map ?e is" using pi by (simp add: filter_id_conv)
  ultimately have "filter (\<lambda>y. o_price y = o_price x) (side_orders ob sh s) = map ?e is"
    unfolding so map_append filter_append by simp
  then show "spec_priority (o_price x) (side_orders ob sh s) = (if is = [] then 1 else o_priority (ord ob (last is)) + 1)"
    by (simp add: spec_priority_def last_map)
qed
end
