(* ===== verification/Order_Book_Refine.thy ===== *)
theory Order_Book_Refine
  imports Order_Book_Spec
begin

text \<open>
  The refinement of the abstract order book by the exchange's order book: \<open>add\<close> and \<open>cancel\<close>, on
  every branch, and the interface the matching engine relies on.
\<close>

section \<open>The abstract operations\<close>

definition spec_order :: "ClientId \<Rightarrow> OrderId \<Rightarrow> TickerId \<Rightarrow> Side \<Rightarrow> Price \<Rightarrow> OrderId \<Rightarrow> Qty \<Rightarrow> Priority \<Rightarrow> MEOrder" where
  "spec_order cid coid tid side price moid qty prio =
     \<lparr>o_ticker_id = tid, o_client_id = cid, o_client_order_id = coid, o_market_order_id = moid, o_side = side,
      o_price = price, o_qty = qty, o_priority = prio, o_prev_order = None, o_next_order = None\<rparr>"

text \<open>The market order id passes through a 32 bit parameter before it reaches the fills of the new order.\<close>

definition fill_id :: "OrderId \<Rightarrow> OrderId" where
  "fill_id moid = ucast (ucast moid :: Qty)"

definition spec_add ::
  "ClientId \<Rightarrow> OrderId \<Rightarrow> TickerId \<Rightarrow> Side \<Rightarrow> Price \<Rightarrow> Qty \<Rightarrow> OrderId \<Rightarrow> spec_book \<Rightarrow> MECall list \<times> spec_book" where
  "spec_add cid coid tid side price qty moid bk =
     (let (cs, leaves, rest) = spec_match tid cid side coid (fill_id moid) price qty (bk (other side));
          accepted = accepted_response cid tid coid moid side price qty
      in if leaves = 0 then (accepted # cs, bk(other side := rest))
         else let prio = spec_priority price (bk side)
              in (accepted # cs @ [market_update Upd_ADD moid tid side price leaves prio],
                  bk(other side := rest,
                     side := spec_rest (spec_order cid coid tid side price moid leaves prio) (bk side))))"

text \<open>The new order takes every order of a non-empty other side.\<close>

definition sweeps :: "ClientId \<Rightarrow> OrderId \<Rightarrow> TickerId \<Rightarrow> Side \<Rightarrow> Price \<Rightarrow> Qty \<Rightarrow> OrderId \<Rightarrow> spec_book \<Rightarrow> bool" where
  "sweeps cid coid tid side price qty moid bk \<longleftrightarrow>
     bk (other side) \<noteq> [] \<and> snd (snd (spec_match tid cid side coid (fill_id moid) price qty (bk (other side)))) = []"

definition has_ids :: "ClientId \<Rightarrow> OrderId \<Rightarrow> MEOrder \<Rightarrow> bool" where
  "has_ids cid coid x \<longleftrightarrow> o_client_id x = cid \<and> o_client_order_id x = coid"

definition spec_find :: "ClientId \<Rightarrow> OrderId \<Rightarrow> spec_book \<Rightarrow> MEOrder option" where
  "spec_find cid coid bk = List.find (has_ids cid coid) (bk BUY @ bk SELL)"

definition spec_cancel :: "ClientId \<Rightarrow> OrderId \<Rightarrow> spec_book \<Rightarrow> spec_book" where
  "spec_cancel cid coid bk = (\<lambda>s. filter (\<lambda>x. \<not> has_ids cid coid x) (bk s))"

text \<open>When a new order can be taken: its ids are inside the tables and not in use, its price shares its
  table entry with no other price, and both pools have a block where they look for one.\<close>

definition acceptable :: "ClientId \<Rightarrow> OrderId \<Rightarrow> Price \<Rightarrow> MEOrderBook \<Rightarrow> bool" where
  "acceptable cid coid price ob \<longleftrightarrow> unat cid < ME_MAX_NUM_CLIENTS \<and> unat coid < unat ME_MAX_ORDER_IDS
     \<and> cid_oid_to_order ob (unat cid) (unat coid) = None \<and> price_unique price ob
     \<and> can_allocate (order_pool ob) \<and> can_allocate (orders_at_price_pool ob)"


section \<open>Adding an order\<close>

lemma crosses_mono: "crosses side p q \<Longrightarrow> at_least_as_good (other side) r q \<Longrightarrow> book_side side \<Longrightarrow> crosses side p r"
  by (auto simp: crosses_def at_least_as_good_def other_def book_side_def split: if_splits)

lemma crosses_self: "crosses side p p"
  by (simp add: crosses_def)

text \<open>Matching stops at the end of the side, at a price that does not cross, or with nothing left.\<close>

lemma spec_match_stops:
  assumes "spec_match tid cid side coid moid price leaves xs = (cs, l, rest)" and "l \<noteq> 0"
  shows "rest = [] \<or> \<not> crosses side price (o_price (hd rest))"
  using assms by (induction xs arbitrary: leaves cs) (auto simp: Let_def split: if_splits prod.splits)

lemma no_crossing_level:
  assumes ok: "book_ok ob sh" and s: "book_side side" and free: "price_unique price ob"
    and stop: "side_orders ob sh (other side) = [] \<or> \<not> crosses side price (o_price (hd (side_orders ob sh (other side))))"
  shows "price_free side price ob"
  unfolding price_free_def
proof (intro allI impI conjI)
  fix n assume n: "price_orders_at_price ob (pidx price) = Some n"
  then show p: "lprice ob n = price" using free by (simp add: price_unique_def)
  have "tables_ok ob sh" using ok by (simp add: book_ok_def)
  with n obtain t "is" where t: "book_side t" "(n, is) \<in> set (sh t)" unfolding tables_ok_def by blast
  have lo: "level_ok ob t n is" using book_ok_level [OF ok t] .
  show "l_side (lvl ob n) = side"
  proof (rule ccontr)
    assume "l_side (lvl ob n) \<noteq> side"
    then have to: "t = other side" using lo t(1) s by (auto simp: level_ok_def book_side_def other_def)
    define xs where "xs = side_orders ob sh (other side)"
    obtain i where i: "i \<in> set is" using lo by (cases "is") (auto simp: level_ok_def)
    have y: "erase (ord ob i) \<in> set xs" using t(2) i to by (force simp: xs_def side_orders_def)
    have py: "o_price (erase (ord ob i)) = price" using lo i p by (auto simp: level_ok_def order_ok_def)
    have "at_least_as_good (other side) (o_price (hd xs)) price"
      using side_orders_prices [OF ok book_side_simps(3), of side] y py
      unfolding xs_def [symmetric] by (cases xs) (auto simp: at_least_as_good_def)
    then have "crosses side price (o_price (hd xs))" using crosses_mono [OF crosses_self _ s] by blast
    then show False using stop y unfolding xs_def by auto
  qed
qed

text \<open>The whole of \<open>add\<close>: it implements the abstract operation, except when the new order takes every
  order of the other side, in which case the loop follows the null pointer that stands for the
  empty side.\<close>

lemma checkForMatch_refines:
  assumes ok: "book_ok ob sh" and s: "book_side side"
    and sp: "spec_match tid cid side coid (ucast moid) price qty (side_orders ob sh (other side)) = (cs, l, rest)"
  shows "if side_orders ob sh (other side) \<noteq> [] \<and> rest = []
     then checkForMatch cid coid tid side price qty moid ob = Inl NullDeref
     else \<exists>ob' sh'. checkForMatch cid coid tid side price qty moid ob = Inr (l, ob') \<and> matched side cs rest ob sh ob' sh'"
proof -
  have eq: "checkForMatch cid coid tid side price qty moid ob
    = match_loop (Suc (unat (store_size (order_pool ob)))) cid coid tid side price (ucast moid) qty ob"
    using s by (simp only: checkForMatch_def book_side_def if_True)
  have fuel: "length (side_orders ob sh (other side)) < Suc (unat (store_size (order_pool ob)))"
    using side_orders_length [OF ok book_side_simps(3), of side] by simp
  show ?thesis unfolding eq by (rule match_loop_refines [OF ok s refl sp fuel])
qed

lemma add_sweep:
  assumes rep: "represents ob bk" and s: "book_side side"
    and sw: "sweeps cid coid tid side price qty (next_market_order_id ob) bk"
  shows "add cid coid tid side price qty ob = Inl NullDeref"
proof -
  obtain sh where ok: "book_ok ob sh" and so: "\<And>s. book_side s \<Longrightarrow> side_orders ob sh s = bk s"
    using rep by (auto simp: represents_def)
  let ?m = "next_market_order_id ob"
  let ?ob = "call (accepted_response cid tid coid ?m side price qty) (ob\<lparr>next_market_order_id := ?m + 1\<rparr>)"
  have "side_orders ?ob sh (other side) = bk (other side)" using so [of "other side"] by (simp add: side_orders_def)
  moreover obtain cs l rest where
    "spec_match tid cid side coid (fill_id ?m) price qty (bk (other side)) = (cs, l, rest)" by (metis prod_cases3)
  ultimately have "checkForMatch cid coid tid side price qty (ucast ?m) ?ob = Inl NullDeref"
    using checkForMatch_refines [of ?ob sh side tid cid coid "ucast ?m" price qty] ok s sw
    by (auto simp: sweeps_def fill_id_def)
  then show ?thesis by (simp add: add_def generateNewMarketOrderId_def Let_def)
qed

lemma add_refines:
  assumes rep: "represents ob bk" and s: "book_side side" and acc: "acceptable cid coid price ob"
    and sw: "\<not> sweeps cid coid tid side price qty (next_market_order_id ob) bk"
    and sp: "spec_add cid coid tid side price qty (next_market_order_id ob) bk = (calls, bk')"
  shows "\<exists>ob'. add cid coid tid side price qty ob = Inr ob' \<and> represents ob' bk'
     \<and> out_calls ob' = out_calls ob @ calls \<and> next_market_order_id ob' = next_market_order_id ob + 1"
proof -
  obtain sh where ok: "book_ok ob sh" and so: "\<And>s. book_side s \<Longrightarrow> side_orders ob sh s = bk s"
    using rep by (auto simp: represents_def)
  let ?m = "next_market_order_id ob"
  define ob0 where "ob0 = call (accepted_response cid tid coid ?m side price qty) (ob\<lparr>next_market_order_id := ?m + 1\<rparr>)"
  have ok0: "book_ok ob0 sh" and so0: "\<And>s. book_side s \<Longrightarrow> side_orders ob0 sh s = bk s"
    using ok so by (simp_all add: ob0_def side_orders_def)
  obtain cs l rest where m: "spec_match tid cid side coid (fill_id ?m) price qty (bk (other side)) = (cs, l, rest)"
    by (metis prod_cases3)
  obtain ob1 sh1 where c1: "checkForMatch cid coid tid side price qty (ucast ?m) ob0 = Inr (l, ob1)"
    and m1: "matched side cs rest ob0 sh ob1 sh1"
    using checkForMatch_refines [OF ok0 s, of tid cid coid "ucast ?m" price qty] m sw so0 [of "other side"]
    by (auto simp: sweeps_def fill_id_def)
  have ok1: "book_ok ob1 sh1" and so1: "side_orders ob1 sh1 (other side) = rest" "side_orders ob1 sh1 side = bk side"
    and calls1: "out_calls ob1 = out_calls ob @ accepted_response cid tid coid ?m side price qty # cs"
    and k1: "kept ob0 ob1" using m1 so0 s by (auto simp: matched_def ob0_def)
  have nx1: "next_market_order_id ob1 = ?m + 1" using k1 by (simp add: kept_def ob0_def)
  show ?thesis
  proof (cases "l = 0")
    case True
    have "add cid coid tid side price qty ob = Inr ob1"
      using c1 True by (simp add: add_def generateNewMarketOrderId_def Let_def ob0_def)
    moreover have "represents ob1 bk'"
      using ok1 so1 True m sp s unfolding represents_def
      by (intro exI [of _ sh1]) (auto simp: spec_add_def book_side_def other_def)
    ultimately show ?thesis using calls1 nx1 m sp True by (auto simp: spec_add_def)
  next
    case False
    have stop: "rest = [] \<or> \<not> crosses side price (o_price (hd rest))" using spec_match_stops [OF m False] .
    have acc0: "acceptable cid coid price ob0" using acc by (simp add: acceptable_def ob0_def price_unique_def lprice_def)
    then have acc1: "acceptable cid coid price ob1" using k1 by (simp add: acceptable_def kept_def)
    have free: "price_free side price ob1"
      using no_crossing_level [OF ok1 s] acc1 stop so1(1) by (simp add: acceptable_def)
    define prio where "prio = spec_priority price (bk side)"
    define x where "x = spec_order cid coid tid side price ?m l prio"
    have x: "can_rest side x ob1" "o_price x = price" "o_side x = side" "erase x = x"
      using acc1 s by (simp_all add: x_def can_rest_def acceptable_def spec_order_def erase_def)
    obtain i pool ob2 xs n "is" ys where r: "allocate x (order_pool ob1) = (Some i, pool)"
      "addOrder (Some i) (ob1\<lparr>order_pool := pool\<rparr>) = Inr ob2" "rested side xs n is i ys x ob1 ob2 sh1"
      using addOrder_ok [OF ok1 x(1)] free acc1 x(2) by (auto simp: acceptable_def)
    have pl: "rest_place side xs n is ys price ob1 sh1" and ok2: "book_ok ob2 (with_order side xs n is i ys sh1)"
      and fr: "book_frame ob1 ob2" using r(3) x(2) by (auto simp: rested_def added_to_def)
    note ro = rested_orders [OF ok1 s x(3) r(3)]
    have "getNextPriority price ob1 = Inr prio"
      using getNextPriority_ok [OF ok1 s pl] ro(3) so1(2) x(2) by (simp add: prio_def)
    then have add: "add cid coid tid side price qty ob
        = Inr (call (market_update Upd_ADD ?m tid side price l prio) ob2)"
      using c1 False r(1,2)
      by (simp add: add_def generateNewMarketOrderId_def Let_def ob0_def x_def spec_order_def)
    have "side_orders ob2 (with_order side xs n is i ys sh1) side = bk' side"
      "side_orders ob2 (with_order side xs n is i ys sh1) (other side) = bk' (other side)"
      using ro(1,2) x so1 m sp False by (auto simp: spec_add_def x_def prio_def Let_def)
    moreover have "t = side \<or> t = other side" if "book_side t" for t
      using that s by (auto simp: book_side_def other_def)
    ultimately have "represents (call (market_update Upd_ADD ?m tid side price l prio) ob2) bk'"
      using ok2 unfolding represents_def
      by (intro exI [of _ "with_order side xs n is i ys sh1"]) (auto simp: side_orders_def)
    then show ?thesis
      using add fr calls1 nx1 m sp False by (auto simp: spec_add_def prio_def Let_def book_frame_def)
  qed
qed

section \<open>Cancelling an order\<close>

definition spec_cancel_calls :: "ClientId \<Rightarrow> OrderId \<Rightarrow> TickerId \<Rightarrow> spec_book \<Rightarrow> MECall list" where
  "spec_cancel_calls cid coid tid bk =
     (case spec_find cid coid bk of
        None \<Rightarrow> [cancel_rejected cid tid coid]
      | Some x \<Rightarrow> [market_update Upd_CANCEL (o_market_order_id x) tid (o_side x) (o_price x) 0 (o_priority x),
                   canceled_response cid tid coid x])"

text \<open>An order of the book is found through the table exactly under its own ids.\<close>

lemma block_of_ids:
  assumes ok: "book_ok ob sh" and t: "book_side t" "(m, ks) \<in> set (sh t)" "k \<in> set ks"
    and ids: "has_ids cid coid (erase (ord ob k))"
  shows "unat cid < ME_MAX_NUM_CLIENTS \<and> unat coid < unat ME_MAX_ORDER_IDS
    \<and> cid_oid_to_order ob (unat cid) (unat coid) = Some k"
  using book_ok_order [OF ok t] ids by (auto simp: order_ok_def has_ids_def)

lemma no_ids_in_side:
  assumes ok: "book_ok ob sh" and s: "book_side s"
    and none: "\<And>m ks k. (m, ks) \<in> set (sh s) \<Longrightarrow> k \<in> set ks \<Longrightarrow> \<not> has_ids cid coid (erase (ord ob k))"
  shows "filter (\<lambda>x. \<not> has_ids cid coid x) (side_orders ob sh s) = side_orders ob sh s"
  using none by (force simp: side_orders_def filter_id_conv)

lemma spec_find_None:
  assumes rep: "represents ob bk"
    and none: "\<not> unat cid < ME_MAX_NUM_CLIENTS \<or> cid_oid_to_order ob (unat cid) (unat coid) = None"
  shows "spec_find cid coid bk = None" "book_side s \<Longrightarrow> spec_cancel cid coid bk s = bk s"
proof -
  obtain sh where ok: "book_ok ob sh" and so: "\<And>s. book_side s \<Longrightarrow> side_orders ob sh s = bk s"
    using rep by (auto simp: represents_def)
  have "\<not> has_ids cid coid x" if "x \<in> set (side_orders ob sh s)" "book_side s" for x s
    using that block_of_ids [OF ok that(2)] none by (fastforce simp: side_orders_def)
  then show "spec_find cid coid bk = None"
    and "book_side s \<Longrightarrow> spec_cancel cid coid bk s = bk s"
    using so by (auto simp: spec_find_def find_None_iff spec_cancel_def filter_id_conv)
qed

lemma cancel_out_of_range:
  assumes "unat cid < ME_MAX_NUM_CLIENTS" and "\<not> unat coid < unat ME_MAX_ORDER_IDS"
  shows "cancel cid coid tid ob = Inl OutOfRange"
  using assms by (simp add: cancel_def)


lemma cancel_unknown:
  assumes rep: "represents ob bk"
    and none: "\<not> unat cid < ME_MAX_NUM_CLIENTS
      \<or> unat coid < unat ME_MAX_ORDER_IDS \<and> cid_oid_to_order ob (unat cid) (unat coid) = None"
  shows "cancel cid coid tid ob = Inr (call (cancel_rejected cid tid coid) ob)"
  using none by (auto simp: cancel_def)

lemma cancel_known:
  assumes ok: "book_ok ob sh" and t: "book_side t" and sh: "sh t = xs @ (n, is @ i # js) # ys"
    and ids: "has_ids cid coid (erase (ord ob i))"
  shows "\<exists>ob' sh'. cancel cid coid tid ob = Inr ob' \<and> book_ok ob' sh' \<and> next_market_order_id ob' = next_market_order_id ob
    \<and> (\<forall>s. book_side s \<longrightarrow> side_orders ob' sh' s = filter (\<lambda>x. \<not> has_ids cid coid x) (side_orders ob sh s))
    \<and> out_calls ob' = out_calls ob
        @ [market_update Upd_CANCEL (o_market_order_id (ord ob i)) tid t (o_price (ord ob i)) 0 (o_priority (ord ob i)),
           canceled_response cid tid coid (erase (ord ob i))]"
proof -
  have mem: "(n, is @ i # js) \<in> set (sh t)" using sh by simp
  note tab = block_of_ids [OF ok t mem _ ids]
  obtain ob1 where ob1: "removeOrder (Some i) ob = Inr ob1" "removed_from t xs n is i js ys ob ob1"
    "book_ok ob1 (without t xs n (is @ js) ys sh)"
    using removeOrder_ok [OF ok t sh] by blast
  let ?sh = "without t xs n (is @ js) ys sh"
  define ob' where "ob' = call (canceled_response cid tid coid (ord ob i))
    (call (market_update Upd_CANCEL (o_market_order_id (ord ob i)) tid (o_side (ord ob i)) (o_price (ord ob i)) 0 (o_priority (ord ob i))) ob1)"
  have comp: "cancel cid coid tid ob = Inr ob'"
    using tab ob1(1) by (simp add: cancel_def ob'_def Let_def)
  have side: "o_side (ord ob i) = t" using book_ok_order [OF ok t mem, of i] by (simp add: order_ok_def)
  have fr: "out_calls ob1 = out_calls ob" "next_market_order_id ob1 = next_market_order_id ob"
    using ob1(2) by (auto simp: removed_from_def order_dropped_def book_frame_def)
  have only: "k = i" if "(m, ks) \<in> set (sh s)" "k \<in> set ks" "book_side s" "has_ids cid coid (erase (ord ob k))" for m ks k s
    using block_of_ids [OF ok that(3,1,2,4)] tab by simp
  have same: "side_orders ob' ?sh s = side_orders ob1 ?sh s" for s by (simp add: ob'_def side_orders_def)
  have "side_orders ob1 ?sh s = filter (\<lambda>x. \<not> has_ids cid coid x) (side_orders ob sh s)" if s: "book_side s" for s
  proof (cases "s = t")
    case True
    have "distinct (concat (map snd (sh t)))" by (rule side_blocks_distinct [OF ok t])
    then have "i \<notin> set (concat (map snd xs) @ is @ js @ concat (map snd ys))" using sh by auto
    then have "\<not> has_ids cid coid (erase (ord ob k))" if "k \<in> set (concat (map snd xs) @ is @ js @ concat (map snd ys))" for k
      using only [of _ _ t k] that t sh by fastforce
    then have "filter (\<lambda>x. \<not> has_ids cid coid x) (map (\<lambda>k. erase (ord ob k)) ks) = map (\<lambda>k. erase (ord ob k)) ks"
      if "set ks \<subseteq> set (concat (map snd xs) @ is @ js @ concat (map snd ys))" for ks
      using that by (simp only: filter_id_conv set_map) blast
    then have f: "filter (\<lambda>x. \<not> has_ids cid coid x) (map (\<lambda>k. erase (ord ob k)) ks) = map (\<lambda>k. erase (ord ob k)) ks"
      if "ks \<in> {concat (map snd xs), is, js, concat (map snd ys)}" for ks
      using that by (auto simp del: set_concat)
    have so: "side_orders ob sh t = map (\<lambda>k. erase (ord ob k)) (concat (map snd xs)) @ map (\<lambda>k. erase (ord ob k)) is
        @ erase (ord ob i) # map (\<lambda>k. erase (ord ob k)) js @ map (\<lambda>k. erase (ord ob k)) (concat (map snd ys))"
      by (simp add: side_orders_def sh)
    show ?thesis
      unfolding True side_orders_removed(1) [where sh = sh, OF ob1(2) sh] so filter_append filter.simps
      using ids by (simp add: f)
  next
    case False
    have "side_orders ob1 ?sh s = side_orders ob sh s"
      by (rule side_orders_removed(2) [where sh = sh, OF ob1(2) sh False])
    moreover have "\<not> has_ids cid coid (erase (ord ob k))" if "(m, ks) \<in> set (sh s)" "k \<in> set ks" for m ks k
    proof
      assume h: "has_ids cid coid (erase (ord ob k))"
      then have "k = i" using only [OF that s] by blast
      moreover have "i \<in> set (is @ i # js)" by simp
      ultimately show False using order_unique [OF ok t s mem that(1)] that(2) False by blast
    qed
    ultimately show ?thesis using no_ids_in_side [OF ok s, of cid coid] by simp
  qed
  then show ?thesis
    using comp ob1(3) fr side same
    by (intro exI [of _ ob'] exI [of _ ?sh]) (auto simp: ob'_def canceled_response_def)
qed

lemma spec_find_Some:
  assumes ok: "book_ok ob sh" and so: "\<And>s. book_side s \<Longrightarrow> side_orders ob sh s = bk s"
    and t: "book_side t" "(n, is) \<in> set (sh t)" "i \<in> set is" and ids: "has_ids cid coid (erase (ord ob i))"
  shows "spec_find cid coid bk = Some (erase (ord ob i))"
proof -
  have eq: "x = erase (ord ob i)" if "x \<in> set (bk BUY @ bk SELL)" "has_ids cid coid x" for x
  proof -
    from that(1) obtain s where "book_side s" "x \<in> set (side_orders ob sh s)" using so by (auto simp: book_side_def)
    then obtain m ks k where k: "(m, ks) \<in> set (sh s)" "k \<in> set ks" "x = erase (ord ob k)"
      by (auto simp: side_orders_def)
    have "k = i" using block_of_ids [OF ok \<open>book_side s\<close> k(1,2)] that(2) k(3) block_of_ids [OF ok t ids] by simp
    then show ?thesis using k(3) by simp
  qed
  have "erase (ord ob i) \<in> set (side_orders ob sh t)" using t by (force simp: side_orders_def)
  then have mem: "erase (ord ob i) \<in> set (bk BUY @ bk SELL)" using so t(1) by (auto simp: book_side_def)
  then obtain y where y: "spec_find cid coid bk = Some y"
    using ids by (cases "spec_find cid coid bk") (auto simp: spec_find_def find_None_iff)
  then have "y \<in> set (bk BUY @ bk SELL)" "has_ids cid coid y"
    unfolding spec_find_def by (metis find_Some_iff nth_mem)+
  then show ?thesis using eq y by simp
qed

lemma cancel_refines:
  assumes rep: "represents ob bk"
    and rng: "unat cid < ME_MAX_NUM_CLIENTS \<Longrightarrow> unat coid < unat ME_MAX_ORDER_IDS"
  shows "\<exists>ob'. cancel cid coid tid ob = Inr ob' \<and> represents ob' (spec_cancel cid coid bk)
    \<and> out_calls ob' = out_calls ob @ spec_cancel_calls cid coid tid bk
    \<and> next_market_order_id ob' = next_market_order_id ob"
proof -
  obtain sh where ok: "book_ok ob sh" and so: "\<And>s. book_side s \<Longrightarrow> side_orders ob sh s = bk s"
    using rep by (auto simp: represents_def)
  show ?thesis
  proof (cases "\<not> unat cid < ME_MAX_NUM_CLIENTS \<or> cid_oid_to_order ob (unat cid) (unat coid) = None")
    case True
    then have "cancel cid coid tid ob = Inr (call (cancel_rejected cid tid coid) ob)"
      using cancel_unknown [OF rep] rng by blast
    moreover have "represents (call (cancel_rejected cid tid coid) ob) (spec_cancel cid coid bk)"
      unfolding represents_def using ok so spec_find_None(2) [OF rep True]
      by (intro exI [of _ sh]) (simp add: side_orders_def)
    ultimately show ?thesis using spec_find_None(1) [OF rep True] by (simp add: spec_cancel_calls_def)
  next
    case False
    then obtain i where i: "cid_oid_to_order ob (unat cid) (unat coid) = Some i" "unat cid < ME_MAX_NUM_CLIENTS" by auto
    have "tables_ok ob sh" using ok by (simp add: book_ok_def)
    with i rng obtain t n ks where t: "book_side t" "(n, ks) \<in> set (sh t)" "i \<in> set ks"
      "unat (o_client_id (ord ob i)) = unat cid" "unat (o_client_order_id (ord ob i)) = unat coid"
      unfolding tables_ok_def by blast
    then have ids: "has_ids cid coid (erase (ord ob i))" by (simp add: has_ids_def word_unat_eq_iff)
    from t(2) obtain xs ys where sh: "sh t = xs @ (n, ks) # ys" by (auto simp: in_set_conv_decomp)
    from t(3) obtain "is" js where ks: "ks = is @ i # js" by (auto simp: in_set_conv_decomp)
    have f: "spec_find cid coid bk = Some (erase (ord ob i))"
      by (rule spec_find_Some [OF ok so t(1-3) ids])
    have "o_side (ord ob i) = t" using book_ok_order [OF ok t(1-3)] by (simp add: order_ok_def)
    then show ?thesis
      using cancel_known [OF ok t(1) sh [unfolded ks] ids, of tid] so f
      unfolding represents_def by (fastforce simp: spec_cancel_calls_def spec_cancel_def)
  qed
qed

section \<open>The interface of a book\<close>

text \<open>
  What the matching engine relies on: a state that represents an abstract book, with \<open>do_add\<close> and
  \<open>do_cancel\<close> implementing the abstract operations and appending the engine's calls to \<open>calls\<close>.
\<close>

definition book_request ::
  "(ClientId \<Rightarrow> OrderId \<Rightarrow> TickerId \<Rightarrow> Side \<Rightarrow> Price \<Rightarrow> Qty \<Rightarrow> 'b \<Rightarrow> 'b res) \<Rightarrow>
   (ClientId \<Rightarrow> OrderId \<Rightarrow> TickerId \<Rightarrow> 'b \<Rightarrow> 'b res) \<Rightarrow> MEClientRequest \<Rightarrow> 'b \<Rightarrow> 'b res" where
  "book_request do_add do_cancel r b =
     (case req_type r of
        Req_NEW \<Rightarrow> do_add (req_client_id r) (req_order_id r) (req_ticker_id r) (req_side r) (req_price r) (req_qty r) b
      | Req_CANCEL \<Rightarrow> do_cancel (req_client_id r) (req_order_id r) (req_ticker_id r) b
      | _ \<Rightarrow> Inl AssertFailed)"

definition spec_request :: "MEClientRequest \<Rightarrow> OrderId \<Rightarrow> spec_book \<Rightarrow> MECall list \<times> OrderId \<times> spec_book" where
  "spec_request r moid bk =
     (case req_type r of
        Req_NEW \<Rightarrow> (let (cs, bk') = spec_add (req_client_id r) (req_order_id r) (req_ticker_id r) (req_side r)
                                   (req_price r) (req_qty r) moid bk in (cs, moid + 1, bk'))
      | Req_CANCEL \<Rightarrow> (spec_cancel_calls (req_client_id r) (req_order_id r) (req_ticker_id r) bk, moid,
                       spec_cancel (req_client_id r) (req_order_id r) bk)
      | _ \<Rightarrow> ([], moid, bk))"

definition in_tables :: "ClientId \<Rightarrow> OrderId \<Rightarrow> bool" where
  "in_tables cid coid \<longleftrightarrow> unat cid < ME_MAX_NUM_CLIENTS \<and> unat coid < unat ME_MAX_ORDER_IDS"

text \<open>A request the book can serve: a new order that it can take and that does not sweep the other side,
  or a cancel whose ids are inside the tables.\<close>

definition admissible :: "(ClientId \<Rightarrow> OrderId \<Rightarrow> Price \<Rightarrow> 'b \<Rightarrow> bool) \<Rightarrow> MEClientRequest \<Rightarrow> OrderId \<Rightarrow> 'b \<Rightarrow> spec_book \<Rightarrow> bool" where
  "admissible takes r moid b bk \<longleftrightarrow>
     (case req_type r of
        Req_NEW \<Rightarrow> book_side (req_side r) \<and> takes (req_client_id r) (req_order_id r) (req_price r) b
          \<and> \<not> sweeps (req_client_id r) (req_order_id r) (req_ticker_id r) (req_side r) (req_price r) (req_qty r) moid bk
      | Req_CANCEL \<Rightarrow> in_tables (req_client_id r) (req_order_id r)
      | _ \<Rightarrow> False)"

fun spec_requests :: "MEClientRequest list \<Rightarrow> OrderId \<Rightarrow> spec_book \<Rightarrow> MECall list \<times> OrderId \<times> spec_book" where
  "spec_requests [] moid bk = ([], moid, bk)"
| "spec_requests (r # rs) moid bk =
     (let (cs, moid', bk') = spec_request r moid bk; (cs', res) = spec_requests rs moid' bk' in (cs @ cs', res))"

fun all_admissible ::
  "('b \<Rightarrow> OrderId) \<Rightarrow> (ClientId \<Rightarrow> OrderId \<Rightarrow> Price \<Rightarrow> 'b \<Rightarrow> bool) \<Rightarrow> (MEClientRequest \<Rightarrow> 'b \<Rightarrow> 'b res) \<Rightarrow>
   MEClientRequest list \<Rightarrow> 'b \<Rightarrow> spec_book \<Rightarrow> bool" where
  "all_admissible next_id takes req [] b bk \<longleftrightarrow> True"
| "all_admissible next_id takes req (r # rs) b bk \<longleftrightarrow> admissible takes r (next_id b) b bk
     \<and> (case req r b of Inl e \<Rightarrow> True
        | Inr b' \<Rightarrow> all_admissible next_id takes req rs b' (snd (snd (spec_request r (next_id b) bk))))"

locale limit_book =
  fixes rep :: "'b \<Rightarrow> spec_book \<Rightarrow> bool"
    and takes :: "ClientId \<Rightarrow> OrderId \<Rightarrow> Price \<Rightarrow> 'b \<Rightarrow> bool"
    and next_id :: "'b \<Rightarrow> OrderId"
    and calls :: "'b \<Rightarrow> MECall list"
    and do_add :: "ClientId \<Rightarrow> OrderId \<Rightarrow> TickerId \<Rightarrow> Side \<Rightarrow> Price \<Rightarrow> Qty \<Rightarrow> 'b \<Rightarrow> 'b res"
    and do_cancel :: "ClientId \<Rightarrow> OrderId \<Rightarrow> TickerId \<Rightarrow> 'b \<Rightarrow> 'b res"
  assumes add_law: "rep b bk \<Longrightarrow> book_side side \<Longrightarrow> takes cid coid price b
      \<Longrightarrow> \<not> sweeps cid coid tid side price qty (next_id b) bk
      \<Longrightarrow> spec_add cid coid tid side price qty (next_id b) bk = (cs, bk')
      \<Longrightarrow> \<exists>b'. do_add cid coid tid side price qty b = Inr b' \<and> rep b' bk' \<and> calls b' = calls b @ cs
            \<and> next_id b' = next_id b + 1"
    and cancel_law: "rep b bk \<Longrightarrow> in_tables cid coid
      \<Longrightarrow> \<exists>b'. do_cancel cid coid tid b = Inr b' \<and> rep b' (spec_cancel cid coid bk)
            \<and> calls b' = calls b @ spec_cancel_calls cid coid tid bk \<and> next_id b' = next_id b"
begin

lemma request_law:
  assumes "rep b bk" and "admissible takes r (next_id b) b bk" and "spec_request r (next_id b) bk = (cs, moid', bk')"
  shows "\<exists>b'. book_request do_add do_cancel r b = Inr b' \<and> rep b' bk' \<and> calls b' = calls b @ cs \<and> next_id b' = moid'"
proof (cases "req_type r")
  case Req_NEW
  then show ?thesis
    using add_law [OF assms(1)] assms(2,3) by (auto simp: admissible_def spec_request_def book_request_def split: prod.splits)
next
  case Req_CANCEL
  then show ?thesis
    using cancel_law [OF assms(1)] assms(2,3) by (auto simp: admissible_def spec_request_def book_request_def)
qed (use assms(2) in \<open>auto simp: admissible_def\<close>)

lemma requests_law:
  assumes "rep b bk" and "all_admissible next_id takes (book_request do_add do_cancel) rs b bk"
    and "spec_requests rs (next_id b) bk = (cs, moid', bk')"
  shows "\<exists>b'. foldE (book_request do_add do_cancel) rs b = Inr b' \<and> rep b' bk' \<and> calls b' = calls b @ cs
    \<and> next_id b' = moid'"
  using assms
proof (induction rs arbitrary: b bk cs)
  case (Cons r rs)
  obtain cs1 moid1 bk1 where r1: "spec_request r (next_id b) bk = (cs1, moid1, bk1)" by (metis prod_cases3)
  obtain b1 where b1: "book_request do_add do_cancel r b = Inr b1" "rep b1 bk1" "calls b1 = calls b @ cs1"
    "next_id b1 = moid1"
    using request_law [OF Cons.prems(1) _ r1] Cons.prems(2) by auto
  obtain cs2 where "spec_requests rs moid1 bk1 = (cs2, moid', bk')" "cs = cs1 @ cs2"
    using Cons.prems(3) r1 by (auto split: prod.splits)
  then show ?case using Cons.IH [of b1 bk1 cs2] b1 Cons.prems(2) r1 by auto
qed simp

end

interpretation me_book: limit_book represents acceptable next_market_order_id out_calls add cancel
proof
  show "\<exists>b'. add cid coid tid side price qty b = Inr b' \<and> represents b' bk' \<and> out_calls b' = out_calls b @ cs
      \<and> next_market_order_id b' = next_market_order_id b + 1"
    if "represents b bk" "book_side side" "acceptable cid coid price b"
      "\<not> sweeps cid coid tid side price qty (next_market_order_id b) bk"
      "spec_add cid coid tid side price qty (next_market_order_id b) bk = (cs, bk')"
    for b bk side cid coid price tid qty cs bk'
    by (rule add_refines [OF that])
  show "\<exists>b'. cancel cid coid tid b = Inr b' \<and> represents b' (spec_cancel cid coid bk)
      \<and> out_calls b' = out_calls b @ spec_cancel_calls cid coid tid bk \<and> next_market_order_id b' = next_market_order_id b"
    if "represents b bk" "in_tables cid coid" for b bk cid coid tid
    by (rule cancel_refines [OF that(1)]) (use that(2) in \<open>simp add: in_tables_def\<close>)
qed


section \<open>A new book\<close>

lemma pow2_const: "is_pow2 ME_MAX_ORDER_IDS" "is_pow2 ME_MAX_PRICE_LEVELS"
  unfolding is_pow2_def ME_MAX_ORDER_IDS_def ME_MAX_PRICE_LEVELS_def
  by (rule exI [of _ 20], simp) (rule exI [of _ 8], simp)

lemma MEOrderBook_init_represents:
  "\<exists>ob. MEOrderBook_init tid (\<lambda>_ _. None) (\<lambda>_. None) = Inr ob \<and> represents ob (\<lambda>_. [])
     \<and> next_market_order_id ob = 1 \<and> out_calls ob = []"
proof -
  define mk where "mk = \<lparr>ob_ticker_id = tid, cid_oid_to_order = (\<lambda>_ _. None),
    orders_at_price_pool = \<lparr>store = (\<lambda>_. \<lparr>object = MEOrdersAtPrice_default, is_free = True\<rparr>), store_size = ME_MAX_PRICE_LEVELS, next_free = 0\<rparr>,
    bids_by_price = None, asks_by_price = None, price_orders_at_price = (\<lambda>_. None),
    order_pool = \<lparr>store = (\<lambda>_. \<lparr>object = MEOrder_default, is_free = True\<rparr>), store_size = ME_MAX_ORDER_IDS, next_free = 0\<rparr>,
    next_market_order_id = 1, out_calls = []\<rparr>"
  have "MEOrderBook_init tid (\<lambda>_ _. None) (\<lambda>_. None) = Inr mk"
    by (simp add: MEOrderBook_init_def MemPool_init_def ME_MAX_PRICE_LEVELS_def ME_MAX_ORDER_IDS_def mk_def)
  moreover have "book_ok mk (\<lambda>_. [])"
    using pow2_const by (auto simp: book_ok_def side_ok_def tables_ok_def mk_def best_def pool_ok_def
        ME_MAX_PRICE_LEVELS_def ME_MAX_ORDER_IDS_def)
  then have "represents mk (\<lambda>_. [])" unfolding represents_def by (intro exI [of _ "\<lambda>_. []"]) (simp add: side_orders_def)
  ultimately show ?thesis by (simp add: mk_def)
qed

end
