(* ===== verification/Order_Book_Props.thy ===== *)
theory Order_Book_Props
  imports Order_Book_Refine
begin

text \<open>
  The properties of the exchange's order book: consequences of the refinement for \<open>add\<close> and
  \<open>cancel\<close>, first as lemmas on the abstract operations, then as statements on the book's functions.
\<close>

section \<open>Quantities\<close>

definition side_qty :: "MEOrder list \<Rightarrow> nat" where
  "side_qty xs = sum_list (map (\<lambda>x. unat (o_qty x)) xs)"

text \<open>The quantity that the trades among a list of calls report.\<close>

definition call_traded :: "MECall \<Rightarrow> nat" where
  "call_traded c = (case c of
      SendMarketUpdate u \<Rightarrow> if upd_type u = Upd_TRADE then unat (upd_qty u) else 0
    | SendClientResponse r \<Rightarrow> 0)"

definition traded :: "MECall list \<Rightarrow> nat" where
  "traded cs = sum_list (map call_traded cs)"

lemma side_qty_simps [simp]:
  "side_qty [] = 0" "side_qty (x # xs) = unat (o_qty x) + side_qty xs" "side_qty (xs @ ys) = side_qty xs + side_qty ys"
  by (simp_all add: side_qty_def)

lemma traded_simps [simp]:
  "traded [] = 0" "traded (SendClientResponse r # cs) = traded cs"
  "traded (SendMarketUpdate u # cs) = (if upd_type u = Upd_TRADE then unat (upd_qty u) else 0) + traded cs"
  "traded (cs @ ds) = traded cs + traded ds"
  by (simp_all add: traded_def call_traded_def)

text \<open>One step of the abstract matching.\<close>

lemma spec_match_Cons:
  assumes "spec_match tid cid side coid moid price leaves (x # xs) = (cs, l, rest)"
  obtains (stop) "leaves = 0 \<or> \<not> crosses side price (o_price x)" "cs = []" "l = leaves" "rest = x # xs"
  | (full) cs' where "leaves \<noteq> 0" "crosses side price (o_price x)" "o_qty x \<le> leaves"
      "spec_match tid cid side coid moid price (leaves - o_qty x) xs = (cs', l, rest)"
      "cs = fill_calls tid cid side coid moid x (o_qty x) (leaves - o_qty x)
            @ market_update Upd_CANCEL (o_market_order_id x) tid (o_side x) (o_price x) (o_qty x) Priority_INVALID # cs'"
  | (part) "leaves \<noteq> 0" "crosses side price (o_price x)" "leaves < o_qty x" "l = 0"
      "rest = x\<lparr>o_qty := o_qty x - leaves\<rparr> # xs"
      "cs = fill_calls tid cid side coid moid x leaves 0
            @ [market_update Upd_MODIFY (o_market_order_id x) tid (o_side x) (o_price x) (o_qty x - leaves) (o_priority x)]"
  using assms by (auto simp: Let_def not_le split: if_splits prod.splits)

lemma traded_fill [simp]: "traded (fill_calls tid cid side coid moid x fill leaves) = unat fill"
  by (simp add: fill_calls_def filled_response_def market_update_def)

lemma traded_update [simp]: "traded (market_update ty moid tid side price qty prio # cs) = (if ty = Upd_TRADE then unat qty else 0) + traded cs"
  by (simp add: market_update_def)

lemma spec_match_quantities:
  "spec_match tid cid side coid moid price leaves xs = (cs, l, rest) \<Longrightarrow>
     side_qty rest + traded cs = side_qty xs \<and> unat l + traded cs = unat leaves"
proof (induction xs arbitrary: leaves cs)
  case (Cons x xs)
  from Cons.prems show ?case
  proof (cases rule: spec_match_Cons)
    case (full cs')
    then have "unat (leaves - o_qty x) + unat (o_qty x) = unat leaves" by (simp add: unat_sub word_le_nat_alt)
    with Cons.IH [OF full(4)] full(5) show ?thesis by simp
  next
    case part
    then have "unat (o_qty x - leaves) + unat leaves = unat (o_qty x)" by (simp add: unat_sub word_less_nat_alt word_le_nat_alt)
    with part show ?thesis by simp
  qed auto
qed auto

lemma side_qty_spec_rest: "side_qty (spec_rest x xs) = unat (o_qty x) + side_qty xs"
proof -
  have "side_qty (takeWhile P xs) + side_qty (dropWhile P xs) = side_qty xs" for P
    by (metis side_qty_simps(3) takeWhile_dropWhile_id)
  then show ?thesis by (simp add: spec_rest_def Let_def) 
qed

lemma spec_add_quantities:
  assumes "spec_add cid coid tid side price qty moid bk = (cs, bk')" and "book_side side"
  shows "side_qty (bk' (other side)) + traded cs = side_qty (bk (other side))
    \<and> side_qty (bk' side) + traded cs = side_qty (bk side) + unat qty"
proof -
  obtain cs' l rest where m: "spec_match tid cid side coid (fill_id moid) price qty (bk (other side)) = (cs', l, rest)"
    by (metis prod_cases3)
  have ne: "other side \<noteq> side" "side \<noteq> other side" using other_other(2) by metis+
  show ?thesis
    using assms(1) m ne spec_match_quantities [OF m]
    by (auto simp: spec_add_def Let_def accepted_response_def market_update_def side_qty_spec_rest spec_order_def
        split: if_splits)
qed


section \<open>Prices\<close>

definition uncrossed :: "spec_book \<Rightarrow> bool" where
  "uncrossed bk \<longleftrightarrow> (\<forall>x \<in> set (bk BUY). \<forall>y \<in> set (bk SELL). o_price x < o_price y)"

definition price_sorted :: "Side \<Rightarrow> MEOrder list \<Rightarrow> bool" where
  "price_sorted s xs \<longleftrightarrow> sorted_wrt (\<lambda>x y. at_least_as_good s (o_price x) (o_price y)) xs"

lemma represents_sorted: "represents ob bk \<Longrightarrow> book_side s \<Longrightarrow> price_sorted s (bk s)"
  unfolding represents_def price_sorted_def by (metis side_orders_prices)

lemma spec_match_prices:
  "spec_match tid cid side coid moid price leaves xs = (cs, l, rest) \<Longrightarrow>
     \<exists>k \<le> length xs. map o_price rest = map o_price (drop k xs)
       \<and> map (\<lambda>x. (o_price x, o_priority x)) rest = map (\<lambda>x. (o_price x, o_priority x)) (drop k xs)
       \<and> (\<forall>x \<in> set (take k xs). crosses side price (o_price x))"
proof (induction xs arbitrary: leaves cs)
  case (Cons x xs)
  from Cons.prems show ?case
  proof (cases rule: spec_match_Cons)
    case (full cs')
    from Cons.IH [OF full(4)] obtain k where "k \<le> length xs" "map o_price rest = map o_price (drop k xs)"
      "map (\<lambda>x. (o_price x, o_priority x)) rest = map (\<lambda>x. (o_price x, o_priority x)) (drop k xs)"
      "\<forall>x \<in> set (take k xs). crosses side price (o_price x)" by blast
    with full(2) show ?thesis by (intro exI [of _ "Suc k"]) auto
  qed (auto intro: exI [of _ 0])
qed auto

section \<open>Trades in priority order\<close>

definition call_trades :: "MECall \<Rightarrow> (Price \<times> Qty) list" where
  "call_trades c = (case c of
      SendMarketUpdate u \<Rightarrow> if upd_type u = Upd_TRADE then [(upd_price u, upd_qty u)] else []
    | SendClientResponse r \<Rightarrow> [])"

definition trades :: "MECall list \<Rightarrow> (Price \<times> Qty) list" where
  "trades cs = concat (map call_trades cs)"

lemma trades_simps [simp]:
  "trades [] = []" "trades (SendClientResponse r # cs) = trades cs" "trades (cs @ ds) = trades cs @ trades ds"
  "trades (market_update ty moid tid side price qty prio # cs) = (if ty = Upd_TRADE then [(price, qty)] else []) @ trades cs"
  "trades (fill_calls tid cid side coid moid x fill leaves) = [(o_price x, fill)]"
  by (simp_all add: trades_def call_trades_def market_update_def fill_calls_def filled_response_def)

text \<open>
  The orders of the other side are taken from the front: \<open>full\<close> are filled completely, \<open>part\<close> is empty
  or one order that keeps a quantity, \<open>rem\<close> are the orders behind, which stop the matching when a
  quantity is left.
\<close>

definition priority_fill :: "Side \<Rightarrow> Price \<Rightarrow> Qty \<Rightarrow> MEOrder list \<Rightarrow> (Price \<times> Qty) list \<Rightarrow> MEOrder list \<Rightarrow> bool" where
  "priority_fill side price l xs ts rest \<longleftrightarrow> (\<exists>full part rem q. xs = full @ part @ rem \<and> length part \<le> 1
     \<and> (\<forall>x \<in> set (full @ part). crosses side price (o_price x)) \<and> (\<forall>y \<in> set part. 0 < q \<and> q < o_qty y)
     \<and> ts = map (\<lambda>x. (o_price x, o_qty x)) full @ map (\<lambda>y. (o_price y, q)) part
     \<and> rest = map (\<lambda>y. y\<lparr>o_qty := o_qty y - q\<rparr>) part @ rem
     \<and> (l \<noteq> 0 \<longrightarrow> part = [] \<and> (rem = [] \<or> \<not> crosses side price (o_price (hd rem)))))"

lemma spec_match_priority:
  "spec_match tid cid side coid moid price leaves xs = (cs, l, rest) \<Longrightarrow> priority_fill side price l xs (trades cs) rest"
proof (induction xs arbitrary: leaves cs)
  case (Cons x xs)
  from Cons.prems show ?case
  proof (cases rule: spec_match_Cons)
    case stop
    then show ?thesis unfolding priority_fill_def
      by (intro exI [of _ "[]"] exI [of _ "x # xs"]) auto
  next
    case (full cs')
    from Cons.IH [OF full(4)] obtain fs pt rm q where
      "xs = fs @ pt @ rm" "length pt \<le> 1" "\<forall>x \<in> set (fs @ pt). crosses side price (o_price x)"
      "\<forall>y \<in> set pt. 0 < q \<and> q < o_qty y"
      "trades cs' = map (\<lambda>x. (o_price x, o_qty x)) fs @ map (\<lambda>y. (o_price y, q)) pt"
      "rest = map (\<lambda>y. y\<lparr>o_qty := o_qty y - q\<rparr>) pt @ rm"
      "l \<noteq> 0 \<longrightarrow> pt = [] \<and> (rm = [] \<or> \<not> crosses side price (o_price (hd rm)))"
      unfolding priority_fill_def by blast
    with full show ?thesis unfolding priority_fill_def
      by (intro exI [of _ "x # fs"] exI [of _ pt] exI [of _ rm] exI [of _ q]) auto
  next
    case part
    then show ?thesis unfolding priority_fill_def
      by (intro exI [of _ "[]"] exI [of _ "[x]"] exI [of _ xs] exI [of _ leaves]) (auto simp: word_gt_0)
  qed
qed (auto simp: priority_fill_def)

section \<open>Uncrossed books and time order\<close>

lemma crosses_iff: "book_side side \<Longrightarrow> crosses side p q \<longleftrightarrow> at_least_as_good (other side) q p"
  by (auto simp: crosses_def at_least_as_good_def other_def book_side_def)

lemma rest_not_crossing:
  assumes m: "spec_match tid cid side coid moid price leaves xs = (cs, l, rest)" and s: "book_side side"
    and srt: "price_sorted (other side) xs" and l: "l \<noteq> 0" and y: "y \<in> set rest"
  shows "\<not> crosses side price (o_price y)"
proof -
  obtain k where "map o_price rest = map o_price (drop k xs)" using spec_match_prices [OF m] by blast
  moreover have "sorted_wrt (at_least_as_good (other side)) (map o_price (drop k xs))"
    using srt by (simp add: price_sorted_def sorted_wrt_map sorted_wrt_drop)
  ultimately have "sorted_wrt (at_least_as_good (other side)) (map o_price rest)" by simp
  moreover have "rest \<noteq> []" using y by auto
  ultimately have "at_least_as_good (other side) (o_price (hd rest)) (o_price y)"
    using y by (cases rest) (auto simp: at_least_as_good_def)
  moreover have "\<not> crosses side price (o_price (hd rest))" using spec_match_stops [OF m l] \<open>rest \<noteq> []\<close> by simp
  ultimately show ?thesis using s by (auto simp: crosses_def at_least_as_good_def other_def book_side_def split: if_splits)
qed

lemma set_spec_rest: "set (spec_rest x xs) = insert x (set xs)"
  by (simp add: spec_rest_def Let_def) (metis set_append sup.commute takeWhile_dropWhile_id)

lemma spec_add_uncrossed:
  assumes a: "spec_add cid coid tid side price qty moid bk = (cs, bk')" and s: "book_side side"
    and srt: "price_sorted (other side) (bk (other side))" and unc: "uncrossed bk"
  shows "uncrossed bk'"
proof -
  obtain cs' l rest where m: "spec_match tid cid side coid (fill_id moid) price qty (bk (other side)) = (cs', l, rest)"
    by (metis prod_cases3)
  obtain k where k: "map o_price rest = map o_price (drop k (bk (other side)))" using spec_match_prices [OF m] by blast
  then have sub: "o_price ` set rest \<subseteq> o_price ` set (bk (other side))"
    by (metis image_mono set_drop_subset set_map)
  have pr: "\<exists>y \<in> set (bk (other side)). o_price y = o_price z" if "z \<in> set rest" for z
    using sub that by (metis (no_types, lifting) image_iff image_subset_iff)
  have nc: "\<not> crosses side price (o_price z)" if "l \<noteq> 0" "z \<in> set rest" for z
    using rest_not_crossing [OF m s srt that] .
  have bk': "bk' (other side) = rest"
    "bk' side = (if l = 0 then bk side
       else spec_rest (spec_order cid coid tid side price moid l (spec_priority price (bk side))) (bk side))"
    using a m other_other(2) [of side] not_sym [OF other_other(2) [of side]] by (auto simp: spec_add_def Let_def split: if_splits)
  have mine: "z \<in> set (bk side) \<or> (l \<noteq> 0 \<and> o_price z = price)" if "z \<in> set (bk' side)" for z
    using that bk'(2) by (auto simp: set_spec_rest spec_order_def split: if_splits)
  show ?thesis
    using s unc mine nc pr bk'(1) unfolding uncrossed_def book_side_def
    by (fastforce simp: other_def crosses_def)
qed

definition time_ordered :: "MEOrder list \<Rightarrow> bool" where
  "time_ordered xs \<longleftrightarrow> sorted_wrt (\<lambda>x y. o_price x = o_price y \<longrightarrow> o_priority x < o_priority y) xs"


lemma time_ordered_drop: "time_ordered xs \<Longrightarrow> time_ordered (drop k xs)"
  by (simp add: time_ordered_def sorted_wrt_drop)

lemma time_ordered_cong:
  assumes "map (\<lambda>x. (o_price x, o_priority x)) xs = map (\<lambda>x. (o_price x, o_priority x)) ys"
  shows "time_ordered xs = time_ordered ys"
proof -
  have "time_ordered zs = sorted_wrt (\<lambda>a b. fst a = fst b \<longrightarrow> snd a < snd b) (map (\<lambda>x. (o_price x, o_priority x)) zs)" for zs
    by (simp add: time_ordered_def sorted_wrt_map)
  then show ?thesis using assms by simp
qed

lemma time_ordered_filter: "time_ordered xs \<Longrightarrow> time_ordered (filter P xs)"
  by (simp add: time_ordered_def sorted_wrt_filter)

text \<open>The next priority is above that of every order at the price, unless the counter wraps.\<close>

lemma spec_priority_above:
  assumes "time_ordered xs" and "\<forall>y \<in> set xs. o_priority y \<noteq> Priority_INVALID" and "y \<in> set xs" and "o_price y = p"
  shows "o_priority y < spec_priority p xs"
proof -
  define ys where "ys = filter (\<lambda>y. o_price y = p) xs"
  have y: "y \<in> set ys" using assms(3,4) by (simp add: ys_def)
  then have ne: "ys \<noteq> []" by auto
  have "sorted_wrt (\<lambda>x y. o_price x = o_price y \<longrightarrow> o_priority x < o_priority y) ys"
    using time_ordered_filter [OF assms(1)] by (simp add: time_ordered_def ys_def)
  then have "y = last ys \<or> o_priority y < o_priority (last ys)"
  proof -
    have sp: "ys = butlast ys @ [last ys]" using ne by simp
    have all: "o_price z = p" if "z \<in> set ys" for z using that by (simp add: ys_def)
    have "sorted_wrt (\<lambda>x y. o_price x = o_price y \<longrightarrow> o_priority x < o_priority y) (butlast ys @ [last ys])"
      using \<open>sorted_wrt _ ys\<close> sp by simp
    then have "\<forall>z \<in> set (butlast ys). o_priority z < o_priority (last ys)"
      unfolding sorted_wrt_append using all last_in_set [OF ne] by (auto dest: in_set_butlastD)
    moreover have "y \<in> set (butlast ys @ [last ys])" using y sp by simp
    ultimately show ?thesis by auto
  qed
  moreover have "last ys \<in> set xs" using last_in_set [OF ne] by (simp add: ys_def)
  then have "o_priority (last ys) \<noteq> - 1" using assms(2) by (simp add: Priority_INVALID_def)
  then have "o_priority (last ys) < o_priority (last ys) + 1"
    by (rule word_less_succ)
  ultimately have "o_priority y < o_priority (last ys) + 1" by auto
  then show ?thesis using ne by (simp add: spec_priority_def flip: ys_def)
qed

lemma spec_rest_time:
  assumes t: "time_ordered xs" and pr: "\<forall>y \<in> set xs. o_priority y \<noteq> Priority_INVALID"
    and srt: "price_sorted (o_side x) xs" and px: "o_priority x = spec_priority (o_price x) xs"
  shows "time_ordered (spec_rest x xs)"
proof -
  let ?P = "\<lambda>y. at_least_as_good (o_side x) (o_price y) (o_price x)"
  have worse: "o_price z \<noteq> o_price x" if "z \<in> set (dropWhile ?P xs)" for z
  proof -
    define ds where "ds = dropWhile ?P xs"
    have z: "z \<in> set ds" using that by (simp only: ds_def)
    then obtain h zs where h: "ds = h # zs" by (cases ds) auto
    have "\<not> ?P h" using hd_dropWhile [of ?P xs] h by (simp add: ds_def del: dropWhile_eq_Nil_conv)
    moreover have "price_sorted (o_side x) ds"
      using srt takeWhile_dropWhile_id [of ?P xs] unfolding price_sorted_def ds_def by (metis sorted_wrt_append)
    then have "z = h \<or> at_least_as_good (o_side x) (o_price h) (o_price z)"
      using z h by (auto simp: price_sorted_def)
    ultimately show ?thesis by (auto simp: at_least_as_good_def split: if_splits)
  qed
  have above: "o_priority y < o_priority x" if "y \<in> set xs" "o_price y = o_price x" for y
    using spec_priority_above [OF t pr that] px by simp
  define as where "as = takeWhile ?P xs"
  define bs where "bs = dropWhile ?P xs"
  have xs: "xs = as @ bs" by (simp add: as_def bs_def)
  have "\<forall>z \<in> set bs. o_price z \<noteq> o_price x" using worse by (simp add: bs_def)
  then have "time_ordered (as @ [x] @ bs)"
    using t above unfolding xs time_ordered_def by (auto simp: sorted_wrt_append)
  then show ?thesis by (simp add: spec_rest_def Let_def as_def bs_def)
qed

lemma spec_add_time:
  assumes a: "spec_add cid coid tid side price qty moid bk = (cs, bk')" and s: "book_side side"
    and srt: "price_sorted side (bk side)" and t: "\<And>s. book_side s \<Longrightarrow> time_ordered (bk s)"
    and pr: "\<forall>y \<in> set (bk side). o_priority y \<noteq> Priority_INVALID" and u: "book_side u"
  shows "time_ordered (bk' u)"
proof -
  obtain cs' l rest where m: "spec_match tid cid side coid (fill_id moid) price qty (bk (other side)) = (cs', l, rest)"
    by (metis prod_cases3)
  obtain k where k: "map (\<lambda>x. (o_price x, o_priority x)) rest = map (\<lambda>x. (o_price x, o_priority x)) (drop k (bk (other side)))"
    using spec_match_prices [OF m] by blast
  have "time_ordered rest" using time_ordered_cong [OF k] time_ordered_drop [OF t [of "other side"]] by simp
  moreover have "time_ordered (spec_rest (spec_order cid coid tid side price moid l (spec_priority price (bk side))) (bk side))"
    by (rule spec_rest_time [OF t [OF s] pr]) (use srt in \<open>simp_all add: spec_order_def\<close>)
  ultimately show ?thesis
    using a m t [OF u] by (auto simp: spec_add_def Let_def split: if_splits)
qed

section \<open>A book to try the properties on\<close>

text \<open>Client 1 bids 5 at 100; clients 2 and 3 offer 7 and 3 at 105, and client 2 offers 4 at 110.\<close>

definition demo_order :: "ClientId \<Rightarrow> OrderId \<Rightarrow> OrderId \<Rightarrow> Side \<Rightarrow> Price \<Rightarrow> Qty \<Rightarrow> Priority \<Rightarrow> nat \<Rightarrow> nat \<Rightarrow> MEOrder ObjectBlock" where
  "demo_order c oid moid s p q prio prv nxt =
     \<lparr>object = \<lparr>o_ticker_id = 0, o_client_id = c, o_client_order_id = oid, o_market_order_id = moid, o_side = s,
        o_price = p, o_qty = q, o_priority = prio, o_prev_order = Some prv, o_next_order = Some nxt\<rparr>, is_free = False\<rparr>"

definition demo_level :: "Side \<Rightarrow> Price \<Rightarrow> nat \<Rightarrow> nat \<Rightarrow> nat \<Rightarrow> MEOrdersAtPrice ObjectBlock" where
  "demo_level s p f prv nxt =
     \<lparr>object = \<lparr>l_side = s, l_price = p, l_first_me_order = Some f, l_prev_entry = Some prv, l_next_entry = Some nxt\<rparr>,
      is_free = False\<rparr>"

definition demo_book :: MEOrderBook where
  "demo_book = \<lparr>ob_ticker_id = 0,
     cid_oid_to_order = (\<lambda>_ _. None)(1 := (\<lambda>_. None)(1 := Some 0), 2 := (\<lambda>_. None)(1 := Some 1, 2 := Some 3),
       3 := (\<lambda>_. None)(1 := Some 2)),
     orders_at_price_pool = \<lparr>store = (\<lambda>_. \<lparr>object = MEOrdersAtPrice_default, is_free = True\<rparr>)
       (0 := demo_level BUY 100 0 0 0, 1 := demo_level SELL 105 1 2 2, 2 := demo_level SELL 110 3 1 1),
       store_size = 256, next_free = 3\<rparr>,
     bids_by_price = Some 0, asks_by_price = Some 1,
     price_orders_at_price = (\<lambda>_. None)(100 := Some 0, 105 := Some 1, 110 := Some 2),
     order_pool = \<lparr>store = (\<lambda>_. \<lparr>object = MEOrder_default, is_free = True\<rparr>)
       (0 := demo_order 1 1 1 BUY 100 5 1 0 0, 1 := demo_order 2 1 2 SELL 105 7 1 2 2,
        2 := demo_order 3 1 3 SELL 105 3 2 1 1, 3 := demo_order 2 2 4 SELL 110 4 1 3 3),
       store_size = 1048576, next_free = 4\<rparr>,
     next_market_order_id = 5, out_calls = []\<rparr>"

definition demo_shape :: "Side \<Rightarrow> shape" where
  "demo_shape s = (if s = BUY then [(0, [0])] else if s = SELL then [(1, [1, 2]), (2, [3])] else [])"

definition demo_spec :: spec_book where
  "demo_spec s = side_orders demo_book demo_shape s"

lemma demo_idx [simp]: "pidx 100 = 100" "pidx 105 = 105" "pidx 110 = 110"
  by (simp_all add: priceToIndex_def ME_MAX_PRICE_LEVELS_def)

lemma demo_ord: "ord demo_book 0 = object (demo_order 1 1 1 BUY 100 5 1 0 0)"
  "ord demo_book (Suc 0) = object (demo_order 2 1 2 SELL 105 7 1 2 2)"
  "ord demo_book 2 = object (demo_order 3 1 3 SELL 105 3 2 1 1)"
  "ord demo_book 3 = object (demo_order 2 2 4 SELL 110 4 1 3 3)"
  by (simp_all add: ord_def obj_def demo_book_def)

lemma demo_lvl: "lvl demo_book 0 = object (demo_level BUY 100 0 0 0)"
  "lvl demo_book (Suc 0) = object (demo_level SELL 105 1 2 2)" "lvl demo_book 2 = object (demo_level SELL 110 3 1 1)"
  by (simp_all add: lvl_def obj_def demo_book_def)

lemma demo_pools: "allocated (order_pool demo_book) i \<longleftrightarrow> i < 4" "allocated (orders_at_price_pool demo_book) i \<longleftrightarrow> i < 3"
  "pool_ok (order_pool demo_book)" "pool_ok (orders_at_price_pool demo_book)"
  "can_allocate (order_pool demo_book)" "can_allocate (orders_at_price_pool demo_book)"
  using pow2_const
  by (auto simp: demo_book_def allocated_def pool_ok_def can_allocate_def demo_order_def demo_level_def
      ME_MAX_ORDER_IDS_def ME_MAX_PRICE_LEVELS_def)

lemma demo_ok: "book_ok demo_book demo_shape"
proof (rule book_okI)
  note o = demo_ord demo_lvl demo_order_def demo_level_def demo_pools
  have t: "cid_oid_to_order demo_book = (\<lambda>_ _. None)(1 := (\<lambda>_. None)(1 := Some 0), 2 := (\<lambda>_. None)(1 := Some 1, 2 := Some 3),
       3 := (\<lambda>_. None)(1 := Some 2))"
    "price_orders_at_price demo_book = (\<lambda>_. None)(100 := Some 0, 105 := Some 1, 110 := Some 2)"
    by (simp_all add: demo_book_def)
  have orders: "order_ok demo_book BUY 100 0" "order_ok demo_book SELL 105 (Suc 0)" "order_ok demo_book SELL 105 2"
    "order_ok demo_book SELL 110 3"
    unfolding order_ok_def t by (simp_all add: o ME_MAX_NUM_CLIENTS_def ME_MAX_ORDER_IDS_def)
  have levels: "level_ok demo_book BUY 0 [0]" "level_ok demo_book SELL 1 [1, 2]" "level_ok demo_book SELL 2 [3]"
    unfolding level_ok_def t by (simp_all add: o ring_Cons onext_def oprev_def lprice_def orders)
  show "side_ok demo_book s (demo_shape s)" if "book_side s" for s
    using that levels
    by (auto simp: book_side_def side_ok_def demo_shape_def ring_Cons lnext_def lprev_def o lprice_def better_def
        best_def demo_book_def lvl_def obj_def)
  show "pool_ok (order_pool demo_book)" "pool_ok (orders_at_price_pool demo_book)" by (rule demo_pools)+
  have mem: "(0, [0]) \<in> set (demo_shape BUY)" "(1, [1, 2]) \<in> set (demo_shape SELL)" "(2, [3]) \<in> set (demo_shape SELL)"
    "0 \<in> set [0::nat]" "1 \<in> set [1, 2::nat]" "2 \<in> set [1, 2::nat]" "3 \<in> set [3::nat]"
    by (simp_all add: demo_shape_def)
  note mem = mem book_side_simps(1,2)
  show "tables_ok demo_book demo_shape"
    unfolding tables_ok_def
  proof (intro conjI allI impI)
    fix p n assume "price_orders_at_price demo_book (pidx p) = Some n"
    then have "pidx p = 100 \<and> n = 0 \<or> pidx p = 105 \<and> n = 1 \<or> pidx p = 110 \<and> n = 2"
      unfolding t by (simp split: if_splits)
    then show "\<exists>s is. book_side s \<and> (n, is) \<in> set (demo_shape s)" "pidx (lprice demo_book n) = pidx p"
      using mem by (blast, auto simp: o lprice_def)
  next
    fix c oid i assume "cid_oid_to_order demo_book c oid = Some i"
    then have "c = 1 \<and> oid = 1 \<and> i = 0 \<or> c = 2 \<and> oid = 1 \<and> i = 1 \<or> c = 2 \<and> oid = 2 \<and> i = 3 \<or> c = 3 \<and> oid = 1 \<and> i = 2"
      unfolding t by (simp split: if_splits)
    then show "\<exists>s n is. book_side s \<and> (n, is) \<in> set (demo_shape s) \<and> i \<in> set is"
      "unat (o_client_id (ord demo_book i)) = c" "unat (o_client_order_id (ord demo_book i)) = oid"
      using mem by (blast, auto simp: o)
  qed
qed

lemma demo_represents: "represents demo_book demo_spec"
  using demo_ok by (auto simp: represents_def demo_spec_def)

lemma demo_acceptable: "acceptable 4 9 105 demo_book"
  unfolding acceptable_def price_unique_def
  by (simp add: demo_pools demo_lvl demo_level_def lprice_def ME_MAX_NUM_CLIENTS_def ME_MAX_ORDER_IDS_def)
   (simp add: demo_book_def lprice_def lvl_def obj_def demo_level_def)

lemma demo_BUY: "demo_spec BUY = [erase (object (demo_order 1 1 1 BUY 100 5 1 0 0))]"
  by (simp add: demo_spec_def side_orders_def demo_shape_def demo_ord)

lemma demo_SELL: "demo_spec SELL = [erase (object (demo_order 2 1 2 SELL 105 7 1 2 2)),
    erase (object (demo_order 3 1 3 SELL 105 3 2 1 1)), erase (object (demo_order 2 2 4 SELL 110 4 1 3 3))]"
  by (simp add: demo_spec_def side_orders_def demo_shape_def demo_ord)

lemma demo_next: "next_market_order_id demo_book = 5"
  by (simp add: demo_book_def)

lemma demo_no_sweep: "\<not> sweeps 4 9 0 BUY 105 12 5 demo_spec"
  by (simp add: sweeps_def other_def demo_SELL demo_order_def erase_def crosses_def)

lemma demo_lists:
  "time_ordered (demo_spec BUY)" "time_ordered (demo_spec SELL)" "uncrossed demo_spec"
  "\<forall>y \<in> set (demo_spec BUY). o_priority y \<noteq> Priority_INVALID"
  by (simp_all add: time_ordered_def uncrossed_def demo_BUY demo_SELL demo_order_def erase_def Priority_INVALID_def)

section \<open>Properties of adding and cancelling\<close>

text \<open>The outcome of an \<open>add\<close> that returns.\<close>

lemma add_outcome:
  assumes "represents ob bk" "book_side side" "acceptable cid coid price ob" "add cid coid tid side price qty ob = Inr ob'"
  obtains cs bk' where "spec_add cid coid tid side price qty (next_market_order_id ob) bk = (cs, bk')"
    "represents ob' bk'" "out_calls ob' = out_calls ob @ cs"
proof -
  have "\<not> sweeps cid coid tid side price qty (next_market_order_id ob) bk"
    using add_sweep [OF assms(1,2)] assms(4) by fastforce
  moreover obtain cs bk' where sp: "spec_add cid coid tid side price qty (next_market_order_id ob) bk = (cs, bk')"
    by (metis surj_pair)
  ultimately show thesis using add_refines [OF assms(1-3) _ sp] assms(4) that [OF sp] by auto
qed

lemma demo_add:
  obtains ob' where "add 4 9 0 BUY 105 12 demo_book = Inr ob'"
proof -
  obtain cs bk' where sp: "spec_add 4 9 0 BUY 105 12 (next_market_order_id demo_book) demo_spec = (cs, bk')"
    by (metis surj_pair)
  show thesis
    using add_refines [OF demo_represents _ demo_acceptable _ sp] demo_no_sweep that by (auto simp: demo_next)
qed

text \<open>C1: \<open>MEOrderBook::add\<close> implements the abstract book: for a book that represents the two priority
  lists, it reports exactly the calls of the abstract operation, in order, and its pointer structures
  represent the abstract result; except when the new order takes every resting order of the other
  side, where \<open>checkForMatch\<close> follows the null best-price pointer.\<close>

theorem add_implements:
  assumes "represents ob bk" and "book_side side" and "acceptable cid coid price ob"
  shows "if sweeps cid coid tid side price qty (next_market_order_id ob) bk
    then add cid coid tid side price qty ob = Inl NullDeref
    else \<exists>ob'. add cid coid tid side price qty ob = Inr ob'
       \<and> represents ob' (snd (spec_add cid coid tid side price qty (next_market_order_id ob) bk))
       \<and> out_calls ob' = out_calls ob @ fst (spec_add cid coid tid side price qty (next_market_order_id ob) bk)
       \<and> next_market_order_id ob' = next_market_order_id ob + 1"
  using add_sweep [OF assms(1,2)] add_refines [OF assms] by simp

theorem add_implements_witness:
  "\<exists>ob'. add 4 9 0 BUY 105 12 demo_book = Inr ob' \<and> next_market_order_id ob' = 6
     \<and> represents ob' (snd (spec_add 4 9 0 BUY 105 12 5 demo_spec))"
  using add_implements [OF demo_represents _ demo_acceptable, of BUY 0 12] demo_no_sweep
  by (auto simp: demo_next)

text \<open>C2: \<open>MEOrderBook::cancel\<close> implements the abstract book on every branch: an order id outside the
  table terminates the process; a known order is removed, and only it, with a CANCEL market update and a
  CANCELED response; anything else is answered by CANCEL_REJECTED and changes nothing.\<close>

theorem cancel_implements:
  assumes "represents ob bk"
  shows "if unat cid < ME_MAX_NUM_CLIENTS \<and> \<not> unat coid < unat ME_MAX_ORDER_IDS
    then cancel cid coid tid ob = Inl OutOfRange
    else \<exists>ob'. cancel cid coid tid ob = Inr ob' \<and> represents ob' (spec_cancel cid coid bk)
       \<and> out_calls ob' = out_calls ob @ spec_cancel_calls cid coid tid bk
       \<and> next_market_order_id ob' = next_market_order_id ob"
  using cancel_out_of_range cancel_refines [OF assms] by simp

theorem cancel_implements_witness:
  "\<exists>ob'. cancel 3 1 0 demo_book = Inr ob' \<and> represents ob' (spec_cancel 3 1 demo_spec)
     \<and> spec_cancel 3 1 demo_spec SELL = [hd (demo_spec SELL), last (demo_spec SELL)]"
  using cancel_implements [OF demo_represents, of 3 1 0]
  by (auto simp: ME_MAX_ORDER_IDS_def spec_cancel_def has_ids_def demo_SELL demo_order_def erase_def)

text \<open>C13: matching conserves quantity: what the trades report is what the other side lost, and the new
  order's quantity is what it traded plus what rests of it on its own side.\<close>

theorem add_conserves_quantity:
  assumes "represents ob bk" and "book_side side" and "acceptable cid coid price ob"
    and "add cid coid tid side price qty ob = Inr ob'"
  shows "\<exists>bk' cs. represents ob' bk' \<and> out_calls ob' = out_calls ob @ cs
    \<and> side_qty (bk' (other side)) + traded cs = side_qty (bk (other side))
    \<and> side_qty (bk' side) + traded cs = side_qty (bk side) + unat qty"
  using add_outcome [OF assms] spec_add_quantities [OF _ assms(2)] by metis

theorem add_conserves_quantity_witness:
  "\<exists>ob' bk' cs. add 4 9 0 BUY 105 12 demo_book = Inr ob' \<and> represents ob' bk' \<and> out_calls ob' = cs
    \<and> side_qty (bk' SELL) + traded cs = 14 \<and> side_qty (bk' BUY) + traded cs = 17"
proof -
  obtain ob' where a: "add 4 9 0 BUY 105 12 demo_book = Inr ob'" by (rule demo_add)
  then show ?thesis
    using add_conserves_quantity [OF demo_represents _ demo_acceptable a]
    by (auto simp: other_def demo_BUY demo_SELL demo_order_def erase_def demo_book_def)
qed

text \<open>C8: price-time priority of the matching: the resting orders are taken from the front of the other
  side, each at its own price and completely before the next is touched; all of them cross the
  new order's price; and when the new order is not filled, nothing that crosses it is left.\<close>

theorem add_price_time_priority:
  assumes "represents ob bk" and "book_side side" and "acceptable cid coid price ob"
    and "add cid coid tid side price qty ob = Inr ob'"
  shows "\<exists>bk' cs l. represents ob' bk' \<and> out_calls ob' = out_calls ob @ cs
    \<and> priority_fill side price l (bk (other side)) (trades cs) (bk' (other side)) \<and> unat l + traded cs = unat qty"
proof -
  obtain cs bk' where o: "spec_add cid coid tid side price qty (next_market_order_id ob) bk = (cs, bk')"
    "represents ob' bk'" "out_calls ob' = out_calls ob @ cs" using add_outcome [OF assms] .
  obtain cs' l rest where m:
    "spec_match tid cid side coid (fill_id (next_market_order_id ob)) price qty (bk (other side)) = (cs', l, rest)"
    by (metis prod_cases3)
  have "trades cs = trades cs'" "traded cs = traded cs'" "bk' (other side) = rest"
    using o(1) m other_other(2) [of side] not_sym [OF other_other(2) [of side]]
    by (auto simp: spec_add_def Let_def accepted_response_def split: if_splits)
  then show ?thesis using o(2,3) spec_match_priority [OF m] spec_match_quantities [OF m] by auto
qed

theorem add_price_time_priority_witness:
  "\<exists>ob' bk' cs l. add 4 9 0 BUY 105 12 demo_book = Inr ob' \<and> represents ob' bk' \<and> out_calls ob' = cs
    \<and> priority_fill BUY 105 l (demo_spec SELL) (trades cs) (bk' SELL)"
proof -
  obtain ob' where a: "add 4 9 0 BUY 105 12 demo_book = Inr ob'" by (rule demo_add)
  then show ?thesis
    using add_price_time_priority [OF demo_represents _ demo_acceptable a]
    by (auto simp: other_def demo_book_def)
qed

text \<open>C20: a book whose best bid is below its best offer stays so: \<open>add\<close> never rests an order that could trade.\<close>

theorem add_keeps_uncrossed:
  assumes "represents ob bk" and "book_side side" and "acceptable cid coid price ob"
    and "add cid coid tid side price qty ob = Inr ob'" and "uncrossed bk"
  shows "\<exists>bk'. represents ob' bk' \<and> uncrossed bk'"
  using add_outcome [OF assms(1-4)]
    spec_add_uncrossed [OF _ assms(2) represents_sorted [OF assms(1) book_side_simps(3)] assms(5)] by metis

theorem add_keeps_uncrossed_witness:
  "\<exists>ob' bk'. add 4 9 0 BUY 105 12 demo_book = Inr ob' \<and> represents ob' bk' \<and> uncrossed bk'"
proof -
  obtain ob' where a: "add 4 9 0 BUY 105 12 demo_book = Inr ob'" by (rule demo_add)
  then show ?thesis
    using add_keeps_uncrossed [OF demo_represents _ demo_acceptable a demo_lists(3)] by auto
qed

text \<open>C21: first in, first out at a price: on each side the prices stay sorted from best to worst, and among
  orders of one price the priorities stay strictly increasing.\<close>

theorem add_keeps_time_order:
  assumes "represents ob bk" and "book_side side" and "acceptable cid coid price ob"
    and "add cid coid tid side price qty ob = Inr ob'" and "time_ordered (bk BUY)" and "time_ordered (bk SELL)"
    and "\<forall>y \<in> set (bk side). o_priority y \<noteq> Priority_INVALID"
  shows "\<exists>bk'. represents ob' bk' \<and> time_ordered (bk' BUY) \<and> time_ordered (bk' SELL)
     \<and> price_sorted BUY (bk' BUY) \<and> price_sorted SELL (bk' SELL)"
proof -
  obtain cs bk' where o: "spec_add cid coid tid side price qty (next_market_order_id ob) bk = (cs, bk')" "represents ob' bk'"
    using add_outcome [OF assms(1-4)] by metis
  have "time_ordered (bk s)" if "book_side s" for s using that assms(5,6) by (auto simp: book_side_def)
  note t = spec_add_time [OF o(1) assms(2) represents_sorted [OF assms(1,2)] this assms(7)]
  show ?thesis using o(2) t [of BUY] t [of SELL] represents_sorted [OF o(2)] by auto
qed

theorem add_keeps_time_order_witness:
  "\<exists>ob' bk'. add 4 9 0 BUY 105 12 demo_book = Inr ob' \<and> represents ob' bk' \<and> time_ordered (bk' BUY)"
proof -
  obtain ob' where a: "add 4 9 0 BUY 105 12 demo_book = Inr ob'" by (rule demo_add)
  then show ?thesis
    using add_keeps_time_order [OF demo_represents _ demo_acceptable a demo_lists(1,2,4)] by auto
qed

end
