(* ===== verification/Matching_Engine.thy ===== *)
theory Matching_Engine
  imports Order_Book_Props
begin

text \<open>
  The matching engine of matcher/matching_engine.h and matching_engine.cpp: the thread that reads
  client requests from one queue, dispatches them to the order book of their ticker, and writes the
  responses and market updates the book reports to two other queues.
\<close>

section \<open>The engine and its operations\<close>

record MatchingEngine =
  ticker_order_book :: "nat \<Rightarrow> MEOrderBook"
  incoming_requests :: ClientRequestLFQueue
  outgoing_ogw_responses :: ClientResponseLFQueue
  outgoing_md_updates :: MEMarketUpdateLFQueue

text \<open>
  The constructor creates one book per ticker. \<open>cid_mem\<close> and \<open>price_mem\<close> are what the memory of each
  book holds before, see theory Order\_Book.
\<close>

definition MatchingEngine_init ::
  "(nat \<Rightarrow> nat \<Rightarrow> nat \<Rightarrow> ptr) \<Rightarrow> (nat \<Rightarrow> nat \<Rightarrow> ptr) \<Rightarrow> MEOrderBook \<Rightarrow> ClientRequestLFQueue \<Rightarrow> ClientResponseLFQueue
     \<Rightarrow> MEMarketUpdateLFQueue \<Rightarrow> MatchingEngine res" where
  "MatchingEngine_init cid_mem price_mem junk client_requests client_responses market_updates =
     bindE (foldE (\<lambda>i books. bindE (MEOrderBook_init (of_nat i) (cid_mem i) (price_mem i)) (\<lambda>ob. Inr (books(i := ob))))
              [0..<ME_MAX_TICKERS] (\<lambda>_. junk))
       (\<lambda>books. Inr \<lparr>ticker_order_book = books, incoming_requests = client_requests,
                     outgoing_ogw_responses = client_responses, outgoing_md_updates = market_updates\<rparr>)"

definition sendClientResponse :: "MEClientResponse \<Rightarrow> MatchingEngine \<Rightarrow> MatchingEngine res" where
  "sendClientResponse client_response me =
     bindE (lfq_write client_response (outgoing_ogw_responses me)) (\<lambda>q. Inr (me\<lparr>outgoing_ogw_responses := q\<rparr>))"

definition sendMarketUpdate :: "MEMarketUpdate \<Rightarrow> MatchingEngine \<Rightarrow> MatchingEngine res" where
  "sendMarketUpdate upd me =
     bindE (lfq_write upd (outgoing_md_updates me)) (\<lambda>q. Inr (me\<lparr>outgoing_md_updates := q\<rparr>))"

text \<open>
  The calls a book made, performed in their order. The book neither reads the queues nor learns
  whether a call succeeded, so its operation runs first and its calls are performed after it; only
  the kind of fault can differ when both the book and a queue would fault.
\<close>

definition perform :: "MECall \<Rightarrow> MatchingEngine \<Rightarrow> MatchingEngine res" where
  "perform c me = (case c of SendClientResponse r \<Rightarrow> sendClientResponse r me | SendMarketUpdate u \<Rightarrow> sendMarketUpdate u me)"

definition processClientRequest :: "MEClientRequest \<Rightarrow> MatchingEngine \<Rightarrow> MatchingEngine res" where
  "processClientRequest client_request me =
     (let ticker = unat (req_ticker_id client_request)
      in bindE (array_idx ME_MAX_TICKERS (ticker_order_book me) ticker) (\<lambda>order_book.
         bindE (book_request add cancel client_request order_book) (\<lambda>ob.
         foldE perform (out_calls ob)
           (me\<lparr>ticker_order_book := (ticker_order_book me)(ticker := ob\<lparr>out_calls := []\<rparr>)\<rparr>))))"

text \<open>One round of the thread's loop; a round without a request yields.\<close>

definition engine_step :: "MatchingEngine \<Rightarrow> MatchingEngine res" where
  "engine_step me =
     (case getNextToRead (incoming_requests me) of
        None \<Rightarrow> Inr me
      | Some i \<Rightarrow>
          bindE (read_elem (Some i) (incoming_requests me)) (\<lambda>client_request.
          bindE (processClientRequest client_request me) (\<lambda>me'.
          Inr (me'\<lparr>incoming_requests := snd (updateReadIndex (incoming_requests me'))\<rparr>))))"

fun engine_steps :: "nat \<Rightarrow> MatchingEngine \<Rightarrow> MatchingEngine res" where
  "engine_steps 0 me = Inr me"
| "engine_steps (Suc n) me = bindE (engine_step me) (engine_steps n)"


section \<open>Performing the calls of a book\<close>

definition responses_of :: "MECall list \<Rightarrow> MEClientResponse list" where
  "responses_of cs = concat (map (\<lambda>c. case c of SendClientResponse r \<Rightarrow> [r] | SendMarketUpdate u \<Rightarrow> []) cs)"

definition updates_of :: "MECall list \<Rightarrow> MEMarketUpdate list" where
  "updates_of cs = concat (map (\<lambda>c. case c of SendClientResponse r \<Rightarrow> [] | SendMarketUpdate u \<Rightarrow> [u]) cs)"

lemma calls_of_simps [simp]:
  "responses_of [] = []" "responses_of (SendClientResponse r # cs) = r # responses_of cs"
  "responses_of (SendMarketUpdate u # cs) = responses_of cs" "responses_of (cs @ ds) = responses_of cs @ responses_of ds"
  "updates_of [] = []" "updates_of (SendClientResponse r # cs) = updates_of cs"
  "updates_of (SendMarketUpdate u # cs) = u # updates_of cs" "updates_of (cs @ ds) = updates_of cs @ updates_of ds"
  by (simp_all add: responses_of_def updates_of_def)

definition queues_ok :: "MatchingEngine \<Rightarrow> bool" where
  "queues_ok me \<longleftrightarrow> lfq_ok (incoming_requests me) \<and> lfq_ok (outgoing_ogw_responses me) \<and> lfq_ok (outgoing_md_updates me)"

text \<open>\<open>sent cs me me'\<close>: the calls are in the two queues, behind what was there, and nothing else changed.\<close>

definition sent_calls :: "MECall list \<Rightarrow> MatchingEngine \<Rightarrow> MatchingEngine \<Rightarrow> bool" where
  "sent_calls cs me me' \<longleftrightarrow> queues_ok me' \<and> ticker_order_book me' = ticker_order_book me
     \<and> incoming_requests me' = incoming_requests me
     \<and> contents (outgoing_ogw_responses me') = contents (outgoing_ogw_responses me) @ responses_of cs
     \<and> contents (outgoing_md_updates me') = contents (outgoing_md_updates me) @ updates_of cs
     \<and> lfq_room (outgoing_ogw_responses me') = lfq_room (outgoing_ogw_responses me) - length (responses_of cs)
     \<and> lfq_room (outgoing_md_updates me') = lfq_room (outgoing_md_updates me) - length (updates_of cs)"

lemma perform_all:
  assumes "queues_ok me" and "length (responses_of cs) \<le> lfq_room (outgoing_ogw_responses me)"
    and "length (updates_of cs) \<le> lfq_room (outgoing_md_updates me)"
  shows "\<exists>me'. foldE perform cs me = Inr me' \<and> sent_calls cs me me'"
  using assms
proof (induction cs arbitrary: me)
  case Nil
  then show ?case by (simp add: sent_calls_def)
next
  case (Cons c cs)
  have "\<exists>me1. perform c me = Inr me1 \<and> sent_calls [c] me me1"
  proof (cases c)
    case (SendClientResponse r)
    then show ?thesis
      using Cons.prems lfq.push_ok [of "outgoing_ogw_responses me" r]
      by (auto simp: perform_def sendClientResponse_def sent_calls_def queues_ok_def)
  next
    case (SendMarketUpdate u)
    then show ?thesis
      using Cons.prems lfq.push_ok [of "outgoing_md_updates me" u]
      by (auto simp: perform_def sendMarketUpdate_def sent_calls_def queues_ok_def)
  qed
  then obtain me1 where me1: "perform c me = Inr me1" "sent_calls [c] me me1" by blast
  have "responses_of (c # cs) = responses_of [c] @ responses_of cs" "updates_of (c # cs) = updates_of [c] @ updates_of cs"
    by (simp_all add: responses_of_def updates_of_def)
  note split = this
  have "\<exists>me'. foldE perform cs me1 = Inr me' \<and> sent_calls cs me1 me'"
    using Cons.prems me1(2) split by (intro Cons.IH) (auto simp: sent_calls_def)
  with me1 show ?case unfolding sent_calls_def split by auto
qed


section \<open>The engine implements one abstract book per ticker\<close>

type_synonym spec_engine = "nat \<Rightarrow> OrderId \<times> spec_book"

definition engine_rep :: "MatchingEngine \<Rightarrow> spec_engine \<Rightarrow> bool" where
  "engine_rep me se \<longleftrightarrow> (\<forall>t < ME_MAX_TICKERS. represents (ticker_order_book me t) (snd (se t))
     \<and> next_market_order_id (ticker_order_book me t) = fst (se t) \<and> out_calls (ticker_order_book me t) = [])"

definition spec_process :: "MEClientRequest \<Rightarrow> spec_engine \<Rightarrow> MECall list \<times> spec_engine" where
  "spec_process r se =
     (let t = unat (req_ticker_id r); (cs, moid, bk) = spec_request r (fst (se t)) (snd (se t)) in (cs, se(t := (moid, bk))))"

text \<open>A request the engine can serve, with room for what it will send.\<close>

definition serves :: "MEClientRequest \<Rightarrow> MatchingEngine \<Rightarrow> spec_engine \<Rightarrow> bool" where
  "serves r me se \<longleftrightarrow> (let t = unat (req_ticker_id r) in t < ME_MAX_TICKERS
     \<and> admissible acceptable r (fst (se t)) (ticker_order_book me t) (snd (se t))
     \<and> length (responses_of (fst (spec_process r se))) \<le> lfq_room (outgoing_ogw_responses me)
     \<and> length (updates_of (fst (spec_process r se))) \<le> lfq_room (outgoing_md_updates me))"

lemma represents_out_calls [simp]: "represents (ob\<lparr>out_calls := cs\<rparr>) bk = represents ob bk"
  by (simp add: represents_def side_orders_def ord_def)

lemma process_implements:
  assumes rep: "engine_rep me se" and q: "queues_ok me" and sv: "serves r me se"
    and sp: "spec_process r se = (cs, se')"
  shows "\<exists>me'. processClientRequest r me = Inr me' \<and> engine_rep me' se' \<and> queues_ok me'
    \<and> incoming_requests me' = incoming_requests me
    \<and> contents (outgoing_ogw_responses me') = contents (outgoing_ogw_responses me) @ responses_of cs
    \<and> contents (outgoing_md_updates me') = contents (outgoing_md_updates me) @ updates_of cs"
proof -
  define t where "t = unat (req_ticker_id r)"
  have t: "t < ME_MAX_TICKERS" using sv by (simp add: serves_def Let_def t_def)
  let ?ob = "ticker_order_book me t"
  obtain moid bk where sr: "spec_request r (fst (se t)) (snd (se t)) = (cs, moid, bk)" and se': "se' = se(t := (moid, bk))"
    using sp by (auto simp: spec_process_def Let_def t_def split: prod.splits)
  have rt: "represents ?ob (snd (se t))" "next_market_order_id ?ob = fst (se t)" "out_calls ?ob = []"
    using rep t by (auto simp: engine_rep_def)
  obtain ob where ob: "book_request add cancel r ?ob = Inr ob" "represents ob bk" "out_calls ob = cs"
    "next_market_order_id ob = moid"
    using me_book.request_law [OF rt(1), of r cs moid bk] sv sr rt by (auto simp: serves_def Let_def t_def)
  let ?me = "me\<lparr>ticker_order_book := (ticker_order_book me)(t := ob\<lparr>out_calls := []\<rparr>)\<rparr>"
  have "queues_ok ?me" "length (responses_of cs) \<le> lfq_room (outgoing_ogw_responses ?me)"
    "length (updates_of cs) \<le> lfq_room (outgoing_md_updates ?me)"
    using q sv sp by (auto simp: queues_ok_def serves_def Let_def)
  from perform_all [OF this] obtain me' where me': "foldE perform cs ?me = Inr me'" "sent_calls cs ?me me'" by blast
  have "processClientRequest r me = Inr me'"
    using t ob me'(1) by (simp add: processClientRequest_def Let_def flip: t_def)
  moreover have "engine_rep me' se'"
    using rep ob me'(2) by (auto simp: engine_rep_def sent_calls_def se')
  ultimately show ?thesis using me'(2) by (auto simp: sent_calls_def)
qed

fun spec_run :: "MEClientRequest list \<Rightarrow> spec_engine \<Rightarrow> MECall list \<times> spec_engine" where
  "spec_run [] se = ([], se)"
| "spec_run (r # rs) se = (let (cs, se1) = spec_process r se; (cs', se2) = spec_run rs se1 in (cs @ cs', se2))"

text \<open>Every request can be served at its turn.\<close>

fun serves_all :: "MEClientRequest list \<Rightarrow> MatchingEngine \<Rightarrow> spec_engine \<Rightarrow> bool" where
  "serves_all [] me se \<longleftrightarrow> True"
| "serves_all (r # rs) me se \<longleftrightarrow> serves r me se
     \<and> (case engine_step me of Inl e \<Rightarrow> True | Inr me' \<Rightarrow> serves_all rs me' (snd (spec_process r se)))"

lemma engine_steps_implement:
  assumes "engine_rep me se" and "queues_ok me" and "contents (incoming_requests me) = rs @ rs'"
    and "serves_all rs me se" and "spec_run rs se = (cs, se')"
  shows "\<exists>me'. engine_steps (length rs) me = Inr me' \<and> engine_rep me' se' \<and> queues_ok me'
    \<and> contents (incoming_requests me') = rs'
    \<and> contents (outgoing_ogw_responses me') = contents (outgoing_ogw_responses me) @ responses_of cs
    \<and> contents (outgoing_md_updates me') = contents (outgoing_md_updates me) @ updates_of cs"
  using assms
proof (induction rs arbitrary: me se cs)
  case (Cons r rs)
  obtain cs1 se1 cs2 where sp: "spec_process r se = (cs1, se1)" "spec_run rs se1 = (cs2, se')" "cs = cs1 @ cs2"
    using Cons.prems(5) by (auto split: prod.splits)
  have q: "lfq_ok (incoming_requests me)" "contents (incoming_requests me) = r # rs @ rs'"
    using Cons.prems(2,3) by (auto simp: queues_ok_def)
  obtain me1 where me1: "processClientRequest r me = Inr me1" "engine_rep me1 se1" "queues_ok me1"
    "incoming_requests me1 = incoming_requests me"
    "contents (outgoing_ogw_responses me1) = contents (outgoing_ogw_responses me) @ responses_of cs1"
    "contents (outgoing_md_updates me1) = contents (outgoing_md_updates me) @ updates_of cs1"
    using process_implements [OF Cons.prems(1,2) _ sp(1)] Cons.prems(4) by auto
  let ?me = "me1\<lparr>incoming_requests := snd (updateReadIndex (incoming_requests me1))\<rparr>"
  obtain i where i: "getNextToRead (incoming_requests me) = Some i"
    using lfq_empty_iff [OF q(1)] q(2) by auto
  have step: "engine_step me = Inr ?me"
    using lfq.front_ok [OF q] i me1(1) by (simp add: engine_step_def)
  have p: "lfq_ok (snd (updateReadIndex (incoming_requests me)))"
    "contents (snd (updateReadIndex (incoming_requests me))) = rs @ rs'"
    using lfq.pop_ok [OF q] by auto
  have "\<exists>me'. engine_steps (length rs) ?me = Inr me' \<and> engine_rep me' se' \<and> queues_ok me'
    \<and> contents (incoming_requests me') = rs'
    \<and> contents (outgoing_ogw_responses me') = contents (outgoing_ogw_responses ?me) @ responses_of cs2
    \<and> contents (outgoing_md_updates me') = contents (outgoing_md_updates ?me) @ updates_of cs2"
  proof (rule Cons.IH)
    show "engine_rep ?me se1" using me1(2) by (simp add: engine_rep_def)
    show "queues_ok ?me" using me1(3,4) p(1) by (simp add: queues_ok_def)
    show "contents (incoming_requests ?me) = rs @ rs'" using me1(4) p(2) by simp
    show "serves_all rs ?me se1" using Cons.prems(4) step sp(1) by simp
    show "spec_run rs se1 = (cs2, se')" by (rule sp(2))
  qed
  then show ?case using step me1 sp(3) by auto
qed simp

section \<open>A new engine\<close>

lemma MatchingEngine_init_ok:
  assumes "lfq_ok rq" "lfq_ok rsp" "lfq_ok upds"
  shows "\<exists>me. MatchingEngine_init (\<lambda>_ _ _. None) (\<lambda>_ _. None) junk rq rsp upds = Inr me \<and> engine_rep me (\<lambda>_. (1, \<lambda>_. []))
    \<and> queues_ok me \<and> incoming_requests me = rq \<and> outgoing_ogw_responses me = rsp \<and> outgoing_md_updates me = upds"
proof -
  let ?f = "\<lambda>i books. bindE (MEOrderBook_init (of_nat i) (\<lambda>_ _. None) (\<lambda>_. None)) (\<lambda>ob. Inr (books(i := ob)))"
  have "\<exists>books. foldE ?f is bs = Inr books \<and> (\<forall>t. t \<notin> set is \<longrightarrow> books t = bs t)
    \<and> (\<forall>t \<in> set is. represents (books t) (\<lambda>_. []) \<and> next_market_order_id (books t) = 1 \<and> out_calls (books t) = [])"
    if "distinct is" for "is" bs
    using that
  proof (induction "is" arbitrary: bs)
    case (Cons i js)
    obtain ob where ob: "MEOrderBook_init (of_nat i) (\<lambda>_ _. None) (\<lambda>_. None) = Inr ob" "represents ob (\<lambda>_. [])"
      "next_market_order_id ob = 1" "out_calls ob = []" using MEOrderBook_init_represents by blast
    note IH = Cons.IH [of "bs(i := ob)"]
    have "distinct js" using Cons.prems by simp
    from IH [OF this] obtain books where "foldE ?f js (bs(i := ob)) = Inr books"
      "\<forall>t. t \<notin> set js \<longrightarrow> books t = (bs(i := ob)) t"
      "\<forall>t \<in> set js. represents (books t) (\<lambda>_. []) \<and> next_market_order_id (books t) = 1 \<and> out_calls (books t) = []"
      by blast
    then show ?case using ob Cons.prems by (intro exI [of _ books]) (auto simp del: fun_upd_apply simp: fun_upd_other fun_upd_same)
  qed simp
  from this [of "[0..<ME_MAX_TICKERS]" "\<lambda>_. junk"] obtain books where
    "foldE ?f [0..<ME_MAX_TICKERS] (\<lambda>_. junk) = Inr books"
    "\<forall>t < ME_MAX_TICKERS. represents (books t) (\<lambda>_. []) \<and> next_market_order_id (books t) = 1 \<and> out_calls (books t) = []"
    by auto
  with assms show ?thesis by (auto simp: MatchingEngine_init_def engine_rep_def queues_ok_def)
qed


section \<open>An example\<close>

definition demo_queue :: "'a \<Rightarrow> 'a LFQueue" where
  "demo_queue x = \<lparr>qstore = (\<lambda>_. x), qsize = 16, write_pos = 1, read_pos = 0\<rparr>"

definition demo_request :: MEClientRequest where
  "demo_request = \<lparr>req_type = Req_NEW, req_client_id = 4, req_ticker_id = 0, req_order_id = 9, req_side = BUY,
     req_price = 105, req_qty = 12\<rparr>"

definition demo_engine :: MatchingEngine where
  "demo_engine = \<lparr>ticker_order_book = (\<lambda>_. demo_book), incoming_requests = demo_queue demo_request,
     outgoing_ogw_responses = demo_queue MEClientResponse_default, outgoing_md_updates = demo_queue MEMarketUpdate_default\<rparr>"

lemma demo_queue_ok: "lfq_ok (demo_queue x)" "contents (demo_queue x) = [x]" "lfq_room (demo_queue x) = 14"
proof -
  show "lfq_ok (demo_queue x)" "contents (demo_queue x) = [x]" "lfq_room (demo_queue x) = 14"
    by (simp_all add: demo_queue_def lfq_ok_def contents_def lfq_room_def is_pow2_16)
qed

lemma demo_engine_ok: "engine_rep demo_engine (\<lambda>_. (5, demo_spec))" "queues_ok demo_engine"
  "contents (incoming_requests demo_engine) = [demo_request]"
  using demo_represents
  by (auto simp: engine_rep_def queues_ok_def demo_engine_def demo_next demo_queue_ok) (simp add: demo_book_def)

lemma demo_calls:
  "length (responses_of (fst (spec_add 4 9 0 BUY 105 12 5 demo_spec))) = 5"
  "length (updates_of (fst (spec_add 4 9 0 BUY 105 12 5 demo_spec))) = 5"
  by (simp_all add: spec_add_def Let_def other_def demo_SELL demo_order_def erase_def crosses_def fill_calls_def
      filled_response_def market_update_def accepted_response_def)

lemma demo_serves: "serves demo_request demo_engine (\<lambda>_. (5, demo_spec))"
  using demo_acceptable demo_no_sweep demo_calls
  by (auto simp: serves_def demo_engine_def demo_request_def admissible_def ME_MAX_TICKERS_def spec_process_def
      spec_request_def Let_def demo_queue_ok demo_next split: prod.splits)


section \<open>Properties of the engine\<close>

text \<open>C10: the engine implements one abstract book per ticker: when the request queue starts with \<open>rs\<close>, as
  many rounds of the thread's loop consume exactly these requests in order, leave each ticker's book
  in the state the abstract books reach, and put behind the two output queues exactly the responses
  and the market updates of the abstract books, in order. The requests must be ones the books can
  serve and the output queues must have room.\<close>

theorem engine_serves_requests:
  assumes "engine_rep me se" and "queues_ok me" and "contents (incoming_requests me) = rs @ rs'"
    and "serves_all rs me se"
  shows "\<exists>me'. engine_steps (length rs) me = Inr me' \<and> engine_rep me' (snd (spec_run rs se)) \<and> queues_ok me'
    \<and> contents (incoming_requests me') = rs'
    \<and> contents (outgoing_ogw_responses me') = contents (outgoing_ogw_responses me) @ responses_of (fst (spec_run rs se))
    \<and> contents (outgoing_md_updates me') = contents (outgoing_md_updates me) @ updates_of (fst (spec_run rs se))"
  using engine_steps_implement [OF assms] by simp

theorem engine_serves_requests_witness:
  "\<exists>me'. engine_steps 1 demo_engine = Inr me' \<and> contents (incoming_requests me') = []
    \<and> engine_rep me' (snd (spec_run [demo_request] (\<lambda>_. (5, demo_spec))))
    \<and> length (contents (outgoing_ogw_responses me')) = 6"
proof -
  have "serves_all [demo_request] demo_engine (\<lambda>_. (5, demo_spec))" using demo_serves by (auto split: sum.splits)
  from engine_serves_requests [OF demo_engine_ok(1,2) _ this, of "[]"] obtain me' where me':
    "engine_steps 1 demo_engine = Inr me'" "contents (incoming_requests me') = []"
    "engine_rep me' (snd (spec_run [demo_request] (\<lambda>_. (5, demo_spec))))"
    "contents (outgoing_ogw_responses me') = contents (outgoing_ogw_responses demo_engine)
       @ responses_of (fst (spec_run [demo_request] (\<lambda>_. (5, demo_spec))))"
    using demo_engine_ok(3) by auto
  have "length (responses_of (fst (spec_run [demo_request] (\<lambda>_. (5, demo_spec))))) = 5"
    using demo_calls by (auto simp: spec_process_def spec_request_def demo_request_def split: prod.splits)
  then show ?thesis using me' demo_queue_ok(2) [of MEClientResponse_default] by (simp add: demo_engine_def)
qed

text \<open>What the engine does with a request it does not expect: a ticker outside the array of books is an
  access outside the array, since nothing compares it with the array's size; any type but NEW and
  CANCEL ends the process.\<close>

theorem engine_rejects:
  assumes "\<not> unat (req_ticker_id r) < ME_MAX_TICKERS \<or> req_type r \<notin> {Req_NEW, Req_CANCEL}"
  shows "processClientRequest r me = Inl (if unat (req_ticker_id r) < ME_MAX_TICKERS then AssertFailed else OutOfBounds)"
  using assms by (auto simp: processClientRequest_def Let_def book_request_def split: ClientRequestType.splits)

theorem engine_rejects_witness:
  "processClientRequest (demo_request\<lparr>req_ticker_id := 8\<rparr>) demo_engine = Inl OutOfBounds
   \<and> processClientRequest (demo_request\<lparr>req_type := ReqType_OTHER 7\<rparr>) demo_engine = Inl AssertFailed"
  using engine_rejects [of "demo_request\<lparr>req_ticker_id := 8\<rparr>" demo_engine]
    engine_rejects [of "demo_request\<lparr>req_type := ReqType_OTHER 7\<rparr>" demo_engine]
  by (simp add: demo_request_def ME_MAX_TICKERS_def)

text \<open>A new engine, given memory that reads as null, represents eight empty books whose first market
  order id is 1.\<close>

theorem new_engine_empty:
  assumes "lfq_ok rq" and "lfq_ok rsp" and "lfq_ok upds"
  shows "\<exists>me. MatchingEngine_init (\<lambda>_ _ _. None) (\<lambda>_ _. None) junk rq rsp upds = Inr me
    \<and> engine_rep me (\<lambda>_. (1, \<lambda>_. [])) \<and> queues_ok me \<and> incoming_requests me = rq"
  using MatchingEngine_init_ok [OF assms] by blast

theorem new_engine_empty_witness:
  "\<exists>me. MatchingEngine_init (\<lambda>_ _ _. None) (\<lambda>_ _. None) demo_book (demo_queue demo_request)
     (demo_queue MEClientResponse_default) (demo_queue MEMarketUpdate_default) = Inr me
    \<and> engine_rep me (\<lambda>_. (1, \<lambda>_. [])) \<and> contents (incoming_requests me) = [demo_request]"
  using new_engine_empty [OF demo_queue_ok(1) [of demo_request] demo_queue_ok(1) [of MEClientResponse_default]
      demo_queue_ok(1) [of MEMarketUpdate_default], of demo_book] demo_queue_ok(2) [of demo_request] by metis

end
