(* ===== verification/Market_View.thy ===== *)
theory Market_View
  imports Messages
begin

text \<open>
  What a stream of market updates says: the live orders of each ticker, by their market order id. This
  is the specification that the publisher, the snapshot synthesizer, the consumer and the trading
  side's order book are measured against.
\<close>

section \<open>Views\<close>

type_synonym view = "nat \<Rightarrow> nat \<Rightarrow> MEMarketUpdate option"

definition upd_key :: "MEMarketUpdate \<Rightarrow> nat \<times> nat" where
  "upd_key u = (unat (upd_ticker_id u), unat (upd_order_id u))"

definition set_view :: "nat \<Rightarrow> nat \<Rightarrow> MEMarketUpdate option \<Rightarrow> view \<Rightarrow> view" where
  "set_view t i x v = v(t := (v t)(i := x))"

definition apply_update :: "MEMarketUpdate \<Rightarrow> view \<Rightarrow> view" where
  "apply_update u v =
     (let t = unat (upd_ticker_id u); i = unat (upd_order_id u)
      in case upd_type u of
           Upd_ADD \<Rightarrow> set_view t i (Some u) v
         | Upd_MODIFY \<Rightarrow> set_view t i (map_option (\<lambda>x. x\<lparr>upd_qty := upd_qty u, upd_price := upd_price u\<rparr>) (v t i)) v
         | Upd_CANCEL \<Rightarrow> set_view t i None v
         | Upd_CLEAR \<Rightarrow> v(t := (\<lambda>_. None))
         | _ \<Rightarrow> v)"

definition apply_updates :: "MEMarketUpdate list \<Rightarrow> view \<Rightarrow> view" where
  "apply_updates us v = fold apply_update us v"

definition empty_view :: view where
  "empty_view = (\<lambda>_ _. None)"

lemma set_view_simps [simp]:
  "set_view t i x v t i = x" "(t', i') \<noteq> (t, i) \<Longrightarrow> set_view t i x v t' i' = v t' i'"
  "t' \<noteq> t \<Longrightarrow> set_view t i x v t' = v t'" "i' \<noteq> i \<Longrightarrow> set_view t i x v t' i' = v t' i'"
  by (auto simp: set_view_def)

lemma apply_updates_simps [simp]:
  "apply_updates [] v = v" "apply_updates (u # us) v = apply_updates us (apply_update u v)"
  "apply_updates (us @ ws) v = apply_updates ws (apply_updates us v)"
  by (simp_all add: apply_updates_def)

text \<open>
  Updates that make sense for a view: an added order is new, a modified or cancelled one is there, with
  the same id and side, and the ticker and the order id are inside the tables of the receivers.
\<close>

definition legal_update :: "MEMarketUpdate \<Rightarrow> view \<Rightarrow> bool" where
  "legal_update u v \<longleftrightarrow> (let t = unat (upd_ticker_id u); i = unat (upd_order_id u) in t < ME_MAX_TICKERS \<and>
     (case upd_type u of
        Upd_ADD \<Rightarrow> i < unat ME_MAX_ORDER_IDS \<and> v t i = None
      | Upd_MODIFY \<Rightarrow> i < unat ME_MAX_ORDER_IDS \<and> (\<exists>x. v t i = Some x \<and> upd_order_id x = upd_order_id u \<and> upd_side x = upd_side u)
      | Upd_CANCEL \<Rightarrow> i < unat ME_MAX_ORDER_IDS \<and> (\<exists>x. v t i = Some x \<and> upd_order_id x = upd_order_id u \<and> upd_side x = upd_side u)
      | Upd_CLEAR \<Rightarrow> False
      | _ \<Rightarrow> True))"

fun legal_updates :: "MEMarketUpdate list \<Rightarrow> view \<Rightarrow> bool" where
  "legal_updates [] v \<longleftrightarrow> True"
| "legal_updates (u # us) v \<longleftrightarrow> legal_update u v \<and> legal_updates us (apply_update u v)"

text \<open>A view inside the tables, whose entries are orders stored under their own key.\<close>

definition view_ok :: "view \<Rightarrow> bool" where
  "view_ok v \<longleftrightarrow> (\<forall>t i x. v t i = Some x \<longrightarrow> t < ME_MAX_TICKERS \<and> i < unat ME_MAX_ORDER_IDS \<and> upd_type x = Upd_ADD
     \<and> unat (upd_ticker_id x) = t \<and> unat (upd_order_id x) = i)"

lemma view_ok_empty [simp]: "view_ok empty_view"
  by (simp add: view_ok_def empty_view_def)

lemma view_ok_apply: "view_ok v \<Longrightarrow> legal_update u v \<Longrightarrow> view_ok (apply_update u v)"
  unfolding view_ok_def legal_update_def apply_update_def Let_def set_view_def
  by (cases "upd_type u") (auto split: if_splits)

lemma view_ok_applies: "view_ok v \<Longrightarrow> legal_updates us v \<Longrightarrow> view_ok (apply_updates us v)"
  by (induction us arbitrary: v) (auto simp: view_ok_apply)

text \<open>Applying the orders of a view to a cleared view gives the view.\<close>

definition orders_of :: "nat \<Rightarrow> view \<Rightarrow> MEMarketUpdate list" where
  "orders_of t v = List.map_filter (v t) [0..<unat ME_MAX_ORDER_IDS]"

definition clear_update :: "nat \<Rightarrow> MEMarketUpdate" where
  "clear_update t = MEMarketUpdate_default\<lparr>upd_type := Upd_CLEAR, upd_ticker_id := of_nat t\<rparr>"

lemma apply_orders:
  assumes "\<And>i x. i \<in> set is \<Longrightarrow> w i = Some x \<Longrightarrow> upd_type x = Upd_ADD \<and> unat (upd_ticker_id x) = t \<and> unat (upd_order_id x) = i"
    and "distinct is"
  shows "apply_updates (List.map_filter w is) v = v(t := (\<lambda>i. if i \<in> set is \<and> w i \<noteq> None then w i else v t i))"
  using assms
proof (induction "is" arbitrary: v)
  case (Cons i js)
  have IH: "apply_updates (List.map_filter w js) u = u(t := (\<lambda>j. if j \<in> set js \<and> w j \<noteq> None then w j else u t j))" for u
    using Cons.prems by (intro Cons.IH) auto
  show ?case
  proof (cases "w i")
    case None
    then show ?thesis by (auto simp: map_filter_simps IH fun_eq_iff)
  next
    case (Some x)
    then have x: "upd_type x = Upd_ADD" "unat (upd_ticker_id x) = t" "unat (upd_order_id x) = i" using Cons.prems(1) by auto
    have "apply_update x v = set_view t i (Some x) v" using x by (simp add: apply_update_def Let_def)
    then show ?thesis using Some Cons.prems(2) by (auto simp: map_filter_simps IH fun_eq_iff set_view_def)
  qed
qed simp

lemma unat_ticker: "t < ME_MAX_TICKERS \<Longrightarrow> unat (of_nat t :: u32) = t"
  by (simp add: ME_MAX_TICKERS_def unat_of_nat)

lemma apply_clear: "t < ME_MAX_TICKERS \<Longrightarrow> apply_update (clear_update t) v = v(t := (\<lambda>_. None))"
  by (simp add: apply_update_def clear_update_def MEMarketUpdate_default_def unat_ticker)

lemma apply_ticker:
  assumes "view_ok w" and "t < ME_MAX_TICKERS"
  shows "apply_updates (clear_update t # orders_of t w) v = v(t := w t)"
proof -
  have "w t i = None" if "\<not> i < unat ME_MAX_ORDER_IDS" for i
    using assms(1) that unfolding view_ok_def by (metis not_None_eq)
  moreover have "apply_updates (orders_of t w) (v(t := (\<lambda>_. None)))
      = (v(t := (\<lambda>_. None)))(t := (\<lambda>i. if i \<in> set [0..<unat ME_MAX_ORDER_IDS] \<and> w t i \<noteq> None then w t i else (v(t := (\<lambda>_. None))) t i))"
    unfolding orders_of_def by (rule apply_orders) (use assms(1) in \<open>auto simp: view_ok_def\<close>)
  ultimately show ?thesis using assms(2) by (auto simp: apply_clear fun_eq_iff)
qed

lemma apply_tickers:
  assumes "view_ok w" and "set ts \<subseteq> {..<ME_MAX_TICKERS}"
  shows "apply_updates (concat (map (\<lambda>t. clear_update t # orders_of t w) ts)) v = (\<lambda>t. if t \<in> set ts then w t else v t)"
  using assms(2)
proof (induction ts arbitrary: v)
  case (Cons t ts)
  have "apply_updates (clear_update t # orders_of t w) v = v(t := w t)" using apply_ticker assms(1) Cons.prems by simp
  then show ?case using Cons by (simp del: apply_updates_simps(2)) (auto simp: fun_eq_iff)
qed simp

text \<open>The events of a snapshot rebuild the view it was taken from, whatever the receiver held before.\<close>

definition snapshot_events :: "view \<Rightarrow> MEMarketUpdate list" where
  "snapshot_events v = concat (map (\<lambda>t. clear_update t # orders_of t v) [0..<ME_MAX_TICKERS])"

lemma apply_snapshot_events:
  assumes "view_ok w" and "t < ME_MAX_TICKERS"
  shows "apply_updates (snapshot_events w) v t = w t"
proof -
  have "set [0..<ME_MAX_TICKERS] \<subseteq> {..<ME_MAX_TICKERS}" by auto
  from apply_tickers [OF assms(1) this] assms(2) show ?thesis by (simp add: snapshot_events_def)
qed

lemma apply_update_cong:
  assumes "\<And>t. t < ME_MAX_TICKERS \<Longrightarrow> v t = w t" and "t < ME_MAX_TICKERS"
  shows "apply_updates us v t = apply_updates us w t"
  using assms(1)
proof (induction us arbitrary: v w)
  case (Cons u us)
  have "apply_update u v s = apply_update u w s" if "s < ME_MAX_TICKERS" for s
    using Cons.prems [OF that] by (auto simp: apply_update_def Let_def set_view_def split: MarketUpdateType.split)
  then show ?case using Cons.IH [of "apply_update u v" "apply_update u w"] by simp
qed (use assms(2) in simp)

end
