(* ===== verification/Wire.thy ===== *)
theory Wire
  imports Messages
begin

text \<open>
  The messages as the bytes that the sockets carry: the structures of client_request.h,
  client_response.h and market_update.h are packed, so a structure is the concatenation of its
  members, each in the byte order of the machine (little endian). Sending copies a structure's bytes
  into a buffer; receiving casts a position of the buffer to the structure.
\<close>

section \<open>Little endian numbers\<close>

fun le_bytes :: "nat \<Rightarrow> nat \<Rightarrow> u8 list" where
  "le_bytes 0 x = []"
| "le_bytes (Suc n) x = of_nat (x mod 256) # le_bytes n (x div 256)"

fun le_nat :: "u8 list \<Rightarrow> nat" where
  "le_nat [] = 0"
| "le_nat (b # bs) = unat b + 256 * le_nat bs"

lemma unat_bound: "unat (w :: 'a::len word) < 2 ^ LENGTH('a)"
  by (rule unsigned_less)

lemma length_le_bytes [simp]: "length (le_bytes n x) = n"
  by (induction n arbitrary: x) auto

lemma unat_of_nat_byte: "unat (of_nat (x mod 256) :: u8) = x mod 256"
  by (simp add: unat_of_nat)

lemma le_nat_bytes: "x < 256 ^ n \<Longrightarrow> le_nat (le_bytes n x) = x"
proof (induction n arbitrary: x)
  case (Suc n)
  then have "x div 256 < 256 ^ n" by (simp add: less_mult_imp_div_less mult.commute)
  with Suc.IH show ?case by (simp add: unat_of_nat)
qed simp

lemma le_bytes_nat: "le_bytes (length bs) (le_nat bs) = bs"
proof (induction bs)
  case (Cons b bs)
  have "unat b < 256" using unat_bound [of b] by simp
  with Cons show ?case by simp
qed simp

lemma le_nat_bound: "le_nat bs < 256 ^ length bs"
proof (induction bs)
  case (Cons b bs)
  have "unat b < 256" using unat_bound [of b] by simp
  with Cons show ?case by simp
qed simp

text \<open>The members of a packed structure: \<open>n\<close> bytes at an offset.\<close>

definition field :: "nat \<Rightarrow> nat \<Rightarrow> u8 list \<Rightarrow> u8 list" where
  "field off n bs = take n (drop off bs)"

definition get_u8 :: "nat \<Rightarrow> u8 list \<Rightarrow> u8" where
  "get_u8 off bs = of_nat (le_nat (field off 1 bs))"

definition get_u32 :: "nat \<Rightarrow> u8 list \<Rightarrow> u32" where
  "get_u32 off bs = of_nat (le_nat (field off 4 bs))"

definition get_u64 :: "nat \<Rightarrow> u8 list \<Rightarrow> u64" where
  "get_u64 off bs = of_nat (le_nat (field off 8 bs))"

definition put_u8 :: "u8 \<Rightarrow> u8 list" where "put_u8 w = le_bytes 1 (unat w)"
definition put_u32 :: "u32 \<Rightarrow> u8 list" where "put_u32 w = le_bytes 4 (unat w)"
definition put_u64 :: "u64 \<Rightarrow> u8 list" where "put_u64 w = le_bytes 8 (unat w)"

text \<open>A price is a signed 64-bit value.\<close>

definition put_price :: "Price \<Rightarrow> u8 list" where "put_price p = put_u64 (word_of_int p)"
definition get_price :: "nat \<Rightarrow> u8 list \<Rightarrow> Price" where "get_price off bs = sint (get_u64 off bs)"

definition price_fits :: "Price \<Rightarrow> bool" where
  "price_fits p \<longleftrightarrow> - (2 ^ 63) \<le> p \<and> p < 2 ^ 63"

lemma length_put [simp]:
  "length (put_u8 a) = 1" "length (put_u32 b) = 4" "length (put_u64 c) = 8" "length (put_price p) = 8"
  by (simp_all add: put_u8_def put_u32_def put_u64_def put_price_def)

lemma field_append:
  "length as = k \<Longrightarrow> off = k + j \<Longrightarrow> field off n (as @ bs) = field j n bs"
  "length as = n \<Longrightarrow> field 0 n (as @ bs) = as" "length as = n \<Longrightarrow> field 0 n as = as"
  by (simp_all add: field_def)

lemma field_here: "length as = n \<Longrightarrow> field 0 n (as @ bs) = as" "length as = n \<Longrightarrow> field 0 n as = as"
  by (simp_all add: field_def)

lemma get_put_here:
  "get_u8 0 (put_u8 a @ bs) = a" "get_u32 0 (put_u32 b @ bs) = b" "get_u64 0 (put_u64 c @ bs) = c"
  "get_u8 0 (put_u8 a) = a" "get_u32 0 (put_u32 b) = b" "get_u64 0 (put_u64 c) = c"
  using unat_bound [of a] unat_bound [of b] unat_bound [of c]
  by (simp_all add: get_u8_def get_u32_def get_u64_def put_u8_def put_u32_def put_u64_def field_here le_nat_bytes
      del: One_nat_def)

lemma get_price_here: "price_fits p \<Longrightarrow> get_price 0 (put_price p @ bs) = p"
  by (simp add: get_price_def put_price_def get_put_here price_fits_def signed_of_int signed_take_bit_int_eq_self)

lemma get_skip:
  "length as \<le> off \<Longrightarrow> get_u8 off (as @ bs) = get_u8 (off - length as) bs"
  "length as \<le> off \<Longrightarrow> get_u32 off (as @ bs) = get_u32 (off - length as) bs"
  "length as \<le> off \<Longrightarrow> get_u64 off (as @ bs) = get_u64 (off - length as) bs"
  "length as \<le> off \<Longrightarrow> get_price off (as @ bs) = get_price (off - length as) bs"
  by (simp_all add: get_u8_def get_u32_def get_u64_def get_price_def field_def)

text \<open>In the other direction: the bytes of what was read are the bytes that were there.\<close>

lemma put_get:
  "off + 1 \<le> length bs \<Longrightarrow> put_u8 (get_u8 off bs) = field off 1 bs"
  "off + 4 \<le> length bs \<Longrightarrow> put_u32 (get_u32 off bs) = field off 4 bs"
  "off + 8 \<le> length bs \<Longrightarrow> put_u64 (get_u64 off bs) = field off 8 bs"
proof -
  have len: "off + n \<le> length bs \<Longrightarrow> length (field off n bs) = n" for n by (simp add: field_def)
  have b: "off + n \<le> length bs \<Longrightarrow> le_bytes n (le_nat (field off n bs)) = field off n bs" for n
    using le_bytes_nat [of "field off n bs"] len by simp
  have lt: "off + n \<le> length bs \<Longrightarrow> le_nat (field off n bs) < 256 ^ n" for n
    using le_nat_bound [of "field off n bs"] len by simp
  show "off + 1 \<le> length bs \<Longrightarrow> put_u8 (get_u8 off bs) = field off 1 bs"
    using lt [of 1] b [of 1] by (simp add: put_u8_def get_u8_def unat_of_nat del: le_bytes.simps One_nat_def)
  show "off + 4 \<le> length bs \<Longrightarrow> put_u32 (get_u32 off bs) = field off 4 bs"
    using lt [of 4] b [of 4] by (simp add: put_u32_def get_u32_def unat_of_nat)
  show "off + 8 \<le> length bs \<Longrightarrow> put_u64 (get_u64 off bs) = field off 8 bs"
    using lt [of 8] b [of 8] by (simp add: put_u64_def get_u64_def unat_of_nat)
qed

lemma put_get_price: "off + 8 \<le> length bs \<Longrightarrow> put_price (get_price off bs) = field off 8 bs"
  by (simp add: put_price_def get_price_def put_get)

lemma field_join: "field off n bs @ field (off + n) m bs = field off (n + m) bs"
  unfolding field_def take_add by (simp add: add.commute)

lemma field_chain:
  "off' = off + n \<Longrightarrow> field off n bs @ field off' m bs = field off (n + m) bs"
  "off' = off + n \<Longrightarrow> field off n bs @ field off' m bs @ cs = field off (n + m) bs @ cs"
  using field_join [of off n bs m] by (simp_all flip: append_assoc)

lemma field_all: "length bs = n \<Longrightarrow> field 0 n bs = bs"
  by (simp add: field_def)


section \<open>Enumerations\<close>

text \<open>Signed and unsigned one-byte enumerations; the bytes without an enumerator are kept as they are.\<close>

definition Side_byte :: "Side \<Rightarrow> u8" where
  "Side_byte s = word_of_int (sideToValue s)"

definition Side_of_byte :: "u8 \<Rightarrow> Side" where
  "Side_of_byte b = (if b = 0 then Side_INVALID else if b = 1 then BUY else if b = 255 then SELL else if b = 2 then Side_MAX
     else Side_OTHER b)"

fun ReqType_byte :: "ClientRequestType \<Rightarrow> u8" where
  "ReqType_byte ReqType_INVALID = 0"
| "ReqType_byte Req_NEW = 1"
| "ReqType_byte Req_CANCEL = 2"
| "ReqType_byte (ReqType_OTHER b) = b"

definition ReqType_of_byte :: "u8 \<Rightarrow> ClientRequestType" where
  "ReqType_of_byte b = (if b = 0 then ReqType_INVALID else if b = 1 then Req_NEW else if b = 2 then Req_CANCEL
     else ReqType_OTHER b)"

fun RspType_byte :: "ClientResponseType \<Rightarrow> u8" where
  "RspType_byte RspType_INVALID = 0"
| "RspType_byte Rsp_ACCEPTED = 1"
| "RspType_byte Rsp_CANCELED = 2"
| "RspType_byte Rsp_FILLED = 3"
| "RspType_byte Rsp_CANCEL_REJECTED = 4"
| "RspType_byte (RspType_OTHER b) = b"

definition RspType_of_byte :: "u8 \<Rightarrow> ClientResponseType" where
  "RspType_of_byte b = (if b = 0 then RspType_INVALID else if b = 1 then Rsp_ACCEPTED else if b = 2 then Rsp_CANCELED
     else if b = 3 then Rsp_FILLED else if b = 4 then Rsp_CANCEL_REJECTED else RspType_OTHER b)"

fun UpdType_byte :: "MarketUpdateType \<Rightarrow> u8" where
  "UpdType_byte UpdType_INVALID = 0"
| "UpdType_byte Upd_CLEAR = 1"
| "UpdType_byte Upd_ADD = 2"
| "UpdType_byte Upd_MODIFY = 3"
| "UpdType_byte Upd_CANCEL = 4"
| "UpdType_byte Upd_TRADE = 5"
| "UpdType_byte Upd_SNAPSHOT_START = 6"
| "UpdType_byte Upd_SNAPSHOT_END = 7"
| "UpdType_byte (UpdType_OTHER b) = b"

definition UpdType_of_byte :: "u8 \<Rightarrow> MarketUpdateType" where
  "UpdType_of_byte b = (if b = 0 then UpdType_INVALID else if b = 1 then Upd_CLEAR else if b = 2 then Upd_ADD
     else if b = 3 then Upd_MODIFY else if b = 4 then Upd_CANCEL else if b = 5 then Upd_TRADE
     else if b = 6 then Upd_SNAPSHOT_START else if b = 7 then Upd_SNAPSHOT_END else UpdType_OTHER b)"

text \<open>A value is proper when it is an enumerator or stands for a byte without one.\<close>

lemma of_byte_byte [simp]:
  "Side_byte (Side_of_byte b) = b" "ReqType_byte (ReqType_of_byte b) = b"
  "RspType_byte (RspType_of_byte b) = b" "UpdType_byte (UpdType_of_byte b) = b"
  by (simp_all add: Side_byte_def Side_of_byte_def ReqType_of_byte_def RspType_of_byte_def UpdType_of_byte_def)

definition proper_Side :: "Side \<Rightarrow> bool" where "proper_Side s \<longleftrightarrow> Side_of_byte (Side_byte s) = s"
definition proper_ReqType :: "ClientRequestType \<Rightarrow> bool" where "proper_ReqType t \<longleftrightarrow> ReqType_of_byte (ReqType_byte t) = t"
definition proper_RspType :: "ClientResponseType \<Rightarrow> bool" where "proper_RspType t \<longleftrightarrow> RspType_of_byte (RspType_byte t) = t"
definition proper_UpdType :: "MarketUpdateType \<Rightarrow> bool" where "proper_UpdType t \<longleftrightarrow> UpdType_of_byte (UpdType_byte t) = t"

lemma proper_simps [simp]:
  "proper_Side BUY" "proper_Side SELL" "proper_Side Side_INVALID" "proper_ReqType Req_NEW" "proper_ReqType Req_CANCEL"
  "proper_RspType Rsp_ACCEPTED" "proper_RspType Rsp_CANCELED" "proper_RspType Rsp_FILLED"
  "proper_RspType Rsp_CANCEL_REJECTED" "proper_UpdType Upd_CLEAR" "proper_UpdType Upd_ADD"
  "proper_UpdType Upd_MODIFY" "proper_UpdType Upd_CANCEL" "proper_UpdType Upd_TRADE"
  "proper_UpdType Upd_SNAPSHOT_START" "proper_UpdType Upd_SNAPSHOT_END"
  by (simp_all add: proper_Side_def proper_ReqType_def proper_RspType_def proper_UpdType_def Side_byte_def
      Side_of_byte_def ReqType_of_byte_def RspType_of_byte_def UpdType_of_byte_def)


section \<open>Structures\<close>

definition MEClientRequest_bytes :: "MEClientRequest \<Rightarrow> u8 list" where
  "MEClientRequest_bytes r =
     put_u8 (ReqType_byte (req_type r)) @ put_u32 (req_client_id r) @ put_u32 (req_ticker_id r)
     @ put_u64 (req_order_id r) @ put_u8 (Side_byte (req_side r)) @ put_price (req_price r) @ put_u32 (req_qty r)"

definition MEClientRequest_at :: "nat \<Rightarrow> u8 list \<Rightarrow> MEClientRequest" where
  "MEClientRequest_at i bs =
     \<lparr>req_type = ReqType_of_byte (get_u8 i bs), req_client_id = get_u32 (i + 1) bs, req_ticker_id = get_u32 (i + 5) bs,
      req_order_id = get_u64 (i + 9) bs, req_side = Side_of_byte (get_u8 (i + 17) bs), req_price = get_price (i + 18) bs,
      req_qty = get_u32 (i + 26) bs\<rparr>"

definition OMClientRequest_bytes :: "OMClientRequest \<Rightarrow> u8 list" where
  "OMClientRequest_bytes r = put_u64 (omreq_seq_num r) @ MEClientRequest_bytes (me_client_request r)"

definition OMClientRequest_at :: "nat \<Rightarrow> u8 list \<Rightarrow> OMClientRequest" where
  "OMClientRequest_at i bs = \<lparr>omreq_seq_num = get_u64 i bs, me_client_request = MEClientRequest_at (i + 8) bs\<rparr>"

definition MEClientResponse_bytes :: "MEClientResponse \<Rightarrow> u8 list" where
  "MEClientResponse_bytes r =
     put_u8 (RspType_byte (rsp_type r)) @ put_u32 (rsp_client_id r) @ put_u32 (rsp_ticker_id r)
     @ put_u64 (rsp_client_order_id r) @ put_u64 (rsp_market_order_id r) @ put_u8 (Side_byte (rsp_side r))
     @ put_price (rsp_price r) @ put_u32 (rsp_exec_qty r) @ put_u32 (rsp_leaves_qty r)"

definition MEClientResponse_at :: "nat \<Rightarrow> u8 list \<Rightarrow> MEClientResponse" where
  "MEClientResponse_at i bs =
     \<lparr>rsp_type = RspType_of_byte (get_u8 i bs), rsp_client_id = get_u32 (i + 1) bs, rsp_ticker_id = get_u32 (i + 5) bs,
      rsp_client_order_id = get_u64 (i + 9) bs, rsp_market_order_id = get_u64 (i + 17) bs,
      rsp_side = Side_of_byte (get_u8 (i + 25) bs), rsp_price = get_price (i + 26) bs, rsp_exec_qty = get_u32 (i + 34) bs,
      rsp_leaves_qty = get_u32 (i + 38) bs\<rparr>"

definition OMClientResponse_bytes :: "OMClientResponse \<Rightarrow> u8 list" where
  "OMClientResponse_bytes r = put_u64 (omrsp_seq_num r) @ MEClientResponse_bytes (me_client_response r)"

definition OMClientResponse_at :: "nat \<Rightarrow> u8 list \<Rightarrow> OMClientResponse" where
  "OMClientResponse_at i bs = \<lparr>omrsp_seq_num = get_u64 i bs, me_client_response = MEClientResponse_at (i + 8) bs\<rparr>"

definition MEMarketUpdate_bytes :: "MEMarketUpdate \<Rightarrow> u8 list" where
  "MEMarketUpdate_bytes u =
     put_u8 (UpdType_byte (upd_type u)) @ put_u64 (upd_order_id u) @ put_u32 (upd_ticker_id u)
     @ put_u8 (Side_byte (upd_side u)) @ put_price (upd_price u) @ put_u32 (upd_qty u) @ put_u64 (upd_priority u)"

definition MEMarketUpdate_at :: "nat \<Rightarrow> u8 list \<Rightarrow> MEMarketUpdate" where
  "MEMarketUpdate_at i bs =
     \<lparr>upd_type = UpdType_of_byte (get_u8 i bs), upd_order_id = get_u64 (i + 1) bs, upd_ticker_id = get_u32 (i + 9) bs,
      upd_side = Side_of_byte (get_u8 (i + 13) bs), upd_price = get_price (i + 14) bs, upd_qty = get_u32 (i + 22) bs,
      upd_priority = get_u64 (i + 26) bs\<rparr>"

definition MDPMarketUpdate_bytes :: "MDPMarketUpdate \<Rightarrow> u8 list" where
  "MDPMarketUpdate_bytes u = put_u64 (mdp_seq_num u) @ MEMarketUpdate_bytes (me_market_update u)"

definition MDPMarketUpdate_at :: "nat \<Rightarrow> u8 list \<Rightarrow> MDPMarketUpdate" where
  "MDPMarketUpdate_at i bs = \<lparr>mdp_seq_num = get_u64 i bs, me_market_update = MEMarketUpdate_at (i + 8) bs\<rparr>"

text \<open>The sizes of the structures, \<^verbatim>\<open>sizeof\<close>.\<close>

lemma length_bytes [simp]:
  "length (MEClientRequest_bytes r) = 30" "length (OMClientRequest_bytes q) = 38"
  "length (MEClientResponse_bytes a) = 42" "length (OMClientResponse_bytes b) = 50"
  "length (MEMarketUpdate_bytes u) = 34" "length (MDPMarketUpdate_bytes v) = 42"
  by (simp_all add: MEClientRequest_bytes_def OMClientRequest_bytes_def MEClientResponse_bytes_def
      OMClientResponse_bytes_def MEMarketUpdate_bytes_def MDPMarketUpdate_bytes_def)

definition wf_request :: "MEClientRequest \<Rightarrow> bool" where
  "wf_request r \<longleftrightarrow> proper_ReqType (req_type r) \<and> proper_Side (req_side r) \<and> price_fits (req_price r)"

definition wf_response :: "MEClientResponse \<Rightarrow> bool" where
  "wf_response r \<longleftrightarrow> proper_RspType (rsp_type r) \<and> proper_Side (rsp_side r) \<and> price_fits (rsp_price r)"

definition wf_update :: "MEMarketUpdate \<Rightarrow> bool" where
  "wf_update u \<longleftrightarrow> proper_UpdType (upd_type u) \<and> proper_Side (upd_side u) \<and> price_fits (upd_price u)"

lemmas wire_bytes = MEClientRequest_bytes_def OMClientRequest_bytes_def MEClientResponse_bytes_def
  OMClientResponse_bytes_def MEMarketUpdate_bytes_def MDPMarketUpdate_bytes_def
lemmas wire_at = MEClientRequest_at_def OMClientRequest_at_def MEClientResponse_at_def
  OMClientResponse_at_def MEMarketUpdate_at_def MDPMarketUpdate_at_def

text \<open>What is written behind any bytes and read at that place is the value itself.\<close>

lemma at_skip:
  "length as = k \<Longrightarrow> OMClientRequest_at (k + i) (as @ bs) = OMClientRequest_at i bs"
  "length as = k \<Longrightarrow> OMClientResponse_at (k + i) (as @ bs) = OMClientResponse_at i bs"
  "length as = k \<Longrightarrow> MDPMarketUpdate_at (k + i) (as @ bs) = MDPMarketUpdate_at i bs"
  by (simp_all add: wire_at get_skip)

lemma request_round_trip:
  assumes "wf_request (me_client_request r)"
  shows "OMClientRequest_at 0 (OMClientRequest_bytes r @ bs) = r"
  using assms
  by (simp add: wire_bytes wire_at get_skip get_put_here get_price_here wf_request_def proper_ReqType_def proper_Side_def)

lemma response_round_trip:
  assumes "wf_response (me_client_response r)"
  shows "OMClientResponse_at 0 (OMClientResponse_bytes r @ bs) = r"
  using assms
  by (simp add: wire_bytes wire_at get_skip get_put_here get_price_here wf_response_def proper_RspType_def proper_Side_def)

lemma update_round_trip:
  assumes "wf_update (me_market_update u)"
  shows "MDPMarketUpdate_at 0 (MDPMarketUpdate_bytes u @ bs) = u"
  using assms
  by (simp add: wire_bytes wire_at get_skip get_put_here get_price_here wf_update_def proper_UpdType_def proper_Side_def)

text \<open>Every sequence of bytes of the right length is the image of the structure that is read from it.\<close>

lemma bytes_at:
  "length bs = 38 \<Longrightarrow> OMClientRequest_bytes (OMClientRequest_at 0 bs) = bs"
  "length cs = 50 \<Longrightarrow> OMClientResponse_bytes (OMClientResponse_at 0 cs) = cs"
  "length us = 42 \<Longrightarrow> MDPMarketUpdate_bytes (MDPMarketUpdate_at 0 us) = us"
  by (simp_all add: wire_bytes wire_at put_get put_get_price field_chain field_all)

section \<open>Properties of the wire format\<close>

text \<open>C26: the three messages survive the wire: the structure that is read at the place where a message's
  bytes were written is the message, whatever bytes stand before and behind it.\<close>

theorem wire_round_trip:
  assumes "wf_request (me_client_request r)" and "wf_response (me_client_response a)" and "wf_update (me_market_update u)"
  shows "OMClientRequest_at (length pre) (pre @ OMClientRequest_bytes r @ post) = r
    \<and> OMClientResponse_at (length pre) (pre @ OMClientResponse_bytes a @ post) = a
    \<and> MDPMarketUpdate_at (length pre) (pre @ MDPMarketUpdate_bytes u @ post) = u"
  using at_skip [OF refl, of pre 0] request_round_trip [OF assms(1)] response_round_trip [OF assms(2)]
    update_round_trip [OF assms(3)]
  by simp_all

definition demo_om_request :: OMClientRequest where
  "demo_om_request = \<lparr>omreq_seq_num = 7, me_client_request = \<lparr>req_type = Req_NEW, req_client_id = 3, req_ticker_id = 1,
     req_order_id = 258, req_side = SELL, req_price = - 5, req_qty = 70000\<rparr>\<rparr>"

definition demo_om_response :: OMClientResponse where
  "demo_om_response = \<lparr>omrsp_seq_num = 1, me_client_response = \<lparr>rsp_type = Rsp_FILLED, rsp_client_id = 3, rsp_ticker_id = 1,
     rsp_client_order_id = 258, rsp_market_order_id = 9, rsp_side = SELL, rsp_price = - 5, rsp_exec_qty = 4,
     rsp_leaves_qty = 69996\<rparr>\<rparr>"

definition demo_mdp_update :: MDPMarketUpdate where
  "demo_mdp_update = \<lparr>mdp_seq_num = 2, me_market_update = \<lparr>upd_type = Upd_ADD, upd_order_id = 9, upd_ticker_id = 1,
     upd_side = SELL, upd_price = - 5, upd_qty = 69996, upd_priority = 1\<rparr>\<rparr>"

lemma demo_wf: "wf_request (me_client_request demo_om_request)" "wf_response (me_client_response demo_om_response)"
  "wf_update (me_market_update demo_mdp_update)"
  by (simp_all add: demo_om_request_def demo_om_response_def demo_mdp_update_def wf_request_def wf_response_def
      wf_update_def price_fits_def)

theorem wire_round_trip_witness:
  "OMClientRequest_at 2 ([1, 2] @ OMClientRequest_bytes demo_om_request @ [3]) = demo_om_request
   \<and> OMClientResponse_at 2 ([1, 2] @ OMClientResponse_bytes demo_om_response @ [3]) = demo_om_response
   \<and> MDPMarketUpdate_at 2 ([1, 2] @ MDPMarketUpdate_bytes demo_mdp_update @ [3]) = demo_mdp_update"
  using wire_round_trip [OF demo_wf, of "[1, 2]" "[3]"] by (simp add: numeral_2_eq_2)

text \<open>Nothing is lost in the other direction: writing the structure that was read from 38, 50 or 42 bytes
  gives the same bytes back, so every byte sequence of a message's size, whoever sent it, is a value of the
  structure that the receiver works with.\<close>

theorem wire_every_frame:
  assumes "length bs = 38" and "length cs = 50" and "length us = 42"
  shows "OMClientRequest_bytes (OMClientRequest_at 0 bs) = bs \<and> OMClientResponse_bytes (OMClientResponse_at 0 cs) = cs
    \<and> MDPMarketUpdate_bytes (MDPMarketUpdate_at 0 us) = us"
  using assms by (simp add: bytes_at)

theorem wire_every_frame_witness:
  "OMClientRequest_bytes (OMClientRequest_at 0 (replicate 38 255)) = replicate 38 255
   \<and> OMClientResponse_bytes (OMClientResponse_at 0 (replicate 50 254)) = replicate 50 254
   \<and> MDPMarketUpdate_bytes (MDPMarketUpdate_at 0 (replicate 42 253)) = replicate 42 253"
  by (rule wire_every_frame) simp_all

end
