(* ===== verification/Sockets.thy ===== *)
theory Sockets
  imports Wire
begin

text \<open>
  Common Files/tcp_socket.h, tcp_socket.cpp, mcast_socket.h, mcast_socket.cpp, tcp_server.h and
  tcp_server.cpp: the send and receive buffers of the sockets and the containers of the TCP server.
  What the kernel returns (the bytes that have arrived, the number of bytes it takes, the events, the
  accepted connections) is an argument of each operation.
\<close>

section \<open>Byte buffers\<close>

text \<open>
  A \<^verbatim>\<open>std::vector<char>\<close> of \<open>cap\<close> bytes. \<^verbatim>\<open>memcpy\<close> into it must stay inside; the two uses of \<^verbatim>\<open>memcpy\<close>
  within one buffer must not overlap.
\<close>

type_synonym buffer = "nat \<Rightarrow> u8"

definition buf_write :: "nat \<Rightarrow> nat \<Rightarrow> u8 list \<Rightarrow> buffer \<Rightarrow> buffer res" where
  "buf_write cap off bs b =
     (if off + length bs \<le> cap then Inr (\<lambda>i. if off \<le> i \<and> i < off + length bs then bs ! (i - off) else b i)
      else Inl OutOfBounds)"

definition buf_shift :: "nat \<Rightarrow> nat \<Rightarrow> buffer \<Rightarrow> buffer res" where
  "buf_shift i n b = (if n \<le> i then Inr (\<lambda>j. if j < n then b (i + j) else b j) else Inl OverlappingCopy)"

definition buf_prefix :: "nat \<Rightarrow> buffer \<Rightarrow> u8 list" where
  "buf_prefix n b = map b [0..<n]"

lemma length_buf_prefix [simp]: "length (buf_prefix n b) = n"
  by (simp add: buf_prefix_def)

lemma buf_prefix_0 [simp]: "buf_prefix 0 b = []"
  by (simp add: buf_prefix_def)

lemma buf_write_ok: "off + length bs \<le> cap \<Longrightarrow> \<exists>b'. buf_write cap off bs b = Inr b'"
  by (simp add: buf_write_def)

lemma buf_prefix_write:
  "buf_write cap n bs b = Inr b' \<Longrightarrow> buf_prefix (n + length bs) b' = buf_prefix n b @ bs"
  by (rule nth_equalityI) (auto simp: buf_write_def buf_prefix_def nth_append split: if_splits)

lemma buf_shift_ok:
  assumes "i \<le> n" and "n - i \<le> i"
  shows "\<exists>b'. buf_shift i (n - i) b = Inr b' \<and> buf_prefix (n - i) b' = drop i (buf_prefix n b)"
  using assms by (auto simp: buf_shift_def buf_prefix_def intro!: nth_equalityI)


section \<open>Sockets\<close>

text \<open>
  \<^verbatim>\<open>TCPSocket\<close> and \<^verbatim>\<open>McastSocket\<close> have the same members. \<open>sent_bytes\<close> is not a member: it collects the
  bytes that the kernel has taken from the socket. The callbacks are arguments of the operations that call them.
\<close>

record SocketBuf =
  socket_fd :: int
  outbound_data :: buffer
  next_send_valid_index :: nat
  inbound_data :: buffer
  next_rcv_valid_index :: nat
  sent_bytes :: "u8 list"

type_synonym TCPSocket = SocketBuf
type_synonym McastSocket = SocketBuf

definition TCPBufferSize :: nat where "TCPBufferSize = 64 * 1024 * 1024"
definition McastBufferSize :: nat where "McastBufferSize = 64 * 1024 * 1024"

definition SocketBuf_init :: "int \<Rightarrow> SocketBuf" where
  "SocketBuf_init fd = \<lparr>socket_fd = fd, outbound_data = (\<lambda>_. 0), next_send_valid_index = 0, inbound_data = (\<lambda>_. 0),
     next_rcv_valid_index = 0, sent_bytes = []\<rparr>"

definition tcp_send :: "u8 list \<Rightarrow> TCPSocket \<Rightarrow> TCPSocket res" where
  "tcp_send data s =
     bindE (buf_write TCPBufferSize (next_send_valid_index s) data (outbound_data s)) (\<lambda>b.
     Inr (s\<lparr>outbound_data := b, next_send_valid_index := next_send_valid_index s + length data\<rparr>))"

definition mcast_send :: "u8 list \<Rightarrow> McastSocket \<Rightarrow> McastSocket res" where
  "mcast_send data s =
     bindE (buf_write McastBufferSize (next_send_valid_index s) data (outbound_data s)) (\<lambda>b.
     let s' = s\<lparr>outbound_data := b, next_send_valid_index := next_send_valid_index s + length data\<rparr>
     in bindE (assertE (next_send_valid_index s' < McastBufferSize)) (\<lambda>_. Inr s'))"

text \<open>
  \<^verbatim>\<open>recvmsg\<close> and \<^verbatim>\<open>recv\<close> put the bytes that have arrived, as many as fit, behind the valid ones; no bytes
  stands for every result that is not positive.
\<close>

definition read_avail :: "nat \<Rightarrow> u8 list \<Rightarrow> SocketBuf \<Rightarrow> nat \<times> SocketBuf" where
  "read_avail cap avail s =
     (let n = next_rcv_valid_index s; got = take (cap - n) avail
      in (length got, s\<lparr>inbound_data := (\<lambda>i. if n \<le> i \<and> i < n + length got then got ! (i - n) else inbound_data s i),
                        next_rcv_valid_index := n + length got\<rparr>))"

text \<open>\<^verbatim>\<open>::send\<close> takes the first \<open>n\<close> bytes; the buffer is emptied whatever it took.\<close>

definition flush_out :: "nat \<Rightarrow> SocketBuf \<Rightarrow> SocketBuf" where
  "flush_out n s =
     (let s' = (if 0 < next_send_valid_index s
                then s\<lparr>sent_bytes := sent_bytes s @ take n (buf_prefix (next_send_valid_index s) (outbound_data s))\<rparr> else s)
      in s'\<lparr>next_send_valid_index := 0\<rparr>)"

definition NANOS_TO_MICROS :: Nanos where "NANOS_TO_MICROS = 1000"
definition MICROS_TO_MILLIS :: Nanos where "MICROS_TO_MILLIS = 1000"
definition MILLIS_TO_SECS :: Nanos where "MILLIS_TO_SECS = 1000"
definition NANOS_TO_MILLIS :: Nanos where "NANOS_TO_MILLIS = NANOS_TO_MICROS * MICROS_TO_MILLIS"
definition NANOS_TO_SECS :: Nanos where "NANOS_TO_SECS = NANOS_TO_MILLIS * MILLIS_TO_SECS"

text \<open>The receive time stamp, when the control message holds one (seconds and microseconds).\<close>

definition kernel_time :: "(int \<times> int) option \<Rightarrow> Nanos" where
  "kernel_time ts = (case ts of None \<Rightarrow> 0 | Some (tv_sec, tv_usec) \<Rightarrow> tv_sec * NANOS_TO_SECS + tv_usec * NANOS_TO_MICROS)"

text \<open>
  One call of \<open>sendAndRecv\<close>. The socket is part of a state \<open>'s\<close> that the callback reads and changes;
  \<open>get\<close> and \<open>put\<close> lead to it.
\<close>

record kernel_io =
  io_avail :: "u8 list"
  io_stamp :: "(int \<times> int) option"
  io_taken :: nat

definition tcp_sendAndRecv ::
  "('s \<Rightarrow> TCPSocket) \<Rightarrow> (TCPSocket \<Rightarrow> 's \<Rightarrow> 's) \<Rightarrow> (Nanos \<Rightarrow> 's \<Rightarrow> 's res) \<Rightarrow> kernel_io \<Rightarrow> 's \<Rightarrow> (bool \<times> 's) res" where
  "tcp_sendAndRecv get put recv_callback io st =
     (let (read_size, s) = read_avail TCPBufferSize (io_avail io) (get st); st = put s st
      in bindE (if 0 < read_size then recv_callback (kernel_time (io_stamp io)) st else Inr st) (\<lambda>st.
         Inr (0 < read_size, put (flush_out (io_taken io) (get st)) st)))"

definition mcast_sendAndRecv ::
  "('s \<Rightarrow> McastSocket) \<Rightarrow> (McastSocket \<Rightarrow> 's \<Rightarrow> 's) \<Rightarrow> ('s \<Rightarrow> 's res) \<Rightarrow> kernel_io \<Rightarrow> 's \<Rightarrow> (bool \<times> 's) res" where
  "mcast_sendAndRecv get put recv_callback io st =
     (let (n_rcv, s) = read_avail McastBufferSize (io_avail io) (get st); st = put s st
      in bindE (if 0 < n_rcv then recv_callback st else Inr st) (\<lambda>st.
         Inr (0 < n_rcv, put (flush_out (io_taken io) (get st)) st)))"

text \<open>\<open>leave\<close> closes the descriptor.\<close>

definition mcast_leave :: "McastSocket \<Rightarrow> McastSocket" where
  "mcast_leave s = s\<lparr>socket_fd := - 1\<rparr>"


section \<open>What the buffers hold\<close>

definition pending_out :: "SocketBuf \<Rightarrow> u8 list" where
  "pending_out s = buf_prefix (next_send_valid_index s) (outbound_data s)"

definition pending_in :: "SocketBuf \<Rightarrow> u8 list" where
  "pending_in s = buf_prefix (next_rcv_valid_index s) (inbound_data s)"

lemma length_pending [simp]:
  "length (pending_out s) = next_send_valid_index s" "length (pending_in s) = next_rcv_valid_index s"
  by (simp_all add: pending_out_def pending_in_def)

lemma pending_updates [simp]:
  "pending_in (s\<lparr>outbound_data := b, next_send_valid_index := n\<rparr>) = pending_in s"
  "pending_out (s\<lparr>inbound_data := b, next_rcv_valid_index := n\<rparr>) = pending_out s"
  by (simp_all add: pending_in_def pending_out_def)

lemma tcp_send_ok:
  assumes "next_send_valid_index s + length data \<le> TCPBufferSize"
  shows "\<exists>s'. tcp_send data s = Inr s' \<and> pending_out s' = pending_out s @ data \<and> pending_in s' = pending_in s
    \<and> sent_bytes s' = sent_bytes s \<and> next_send_valid_index s' = next_send_valid_index s + length data"
proof -
  obtain b where b: "buf_write TCPBufferSize (next_send_valid_index s) data (outbound_data s) = Inr b"
    using buf_write_ok [OF assms] by blast
  then show ?thesis using buf_prefix_write [OF b] by (simp add: tcp_send_def pending_out_def pending_in_def)
qed

lemma mcast_send_ok:
  assumes "next_send_valid_index s + length data < McastBufferSize"
  shows "\<exists>s'. mcast_send data s = Inr s' \<and> pending_out s' = pending_out s @ data \<and> pending_in s' = pending_in s
    \<and> sent_bytes s' = sent_bytes s \<and> next_send_valid_index s' = next_send_valid_index s + length data"
proof -
  obtain b where b: "buf_write McastBufferSize (next_send_valid_index s) data (outbound_data s) = Inr b"
    using buf_write_ok assms less_imp_le by blast
  then show ?thesis using buf_prefix_write [OF b] assms
    by (simp add: mcast_send_def pending_out_def pending_in_def Let_def)
qed

lemma read_avail_pending:
  "pending_in (snd (read_avail cap avail s)) = pending_in s @ take (cap - next_rcv_valid_index s) avail"
  "pending_out (snd (read_avail cap avail s)) = pending_out s"
  "sent_bytes (snd (read_avail cap avail s)) = sent_bytes s"
  by (auto simp: read_avail_def Let_def pending_in_def pending_out_def buf_prefix_def nth_append intro!: nth_equalityI)

lemma flush_out_pending:
  "pending_out (flush_out n s) = []" "pending_in (flush_out n s) = pending_in s"
  "sent_bytes (flush_out n s) = sent_bytes s @ take n (pending_out s)"
  by (auto simp: flush_out_def Let_def pending_in_def pending_out_def)


section \<open>The TCP server\<close>

text \<open>The sockets live on the heap; a pointer is an index of \<open>socket_heap\<close>, \<open>socket_next\<close> the next fresh one.\<close>

record TCPServer =
  listener_socket :: nat
  receive_sockets :: "nat list"
  send_sockets :: "nat list"
  socket_heap :: "nat \<Rightarrow> TCPSocket"
  socket_next :: nat

text \<open>\<^verbatim>\<open>std::find\<close> and \<^verbatim>\<open>push_back\<close>.\<close>

definition push_new :: "nat \<Rightarrow> nat list \<Rightarrow> nat list" where
  "push_new x xs = (if x \<in> set xs then xs else xs @ [x])"

record EpollEvent =
  ev_in :: bool
  ev_out :: bool
  ev_err :: bool
  ev_socket :: nat

fun poll_events :: "EpollEvent list \<Rightarrow> bool \<Rightarrow> TCPServer \<Rightarrow> bool \<times> TCPServer" where
  "poll_events [] have_new_connection sv = (have_new_connection, sv)"
| "poll_events (e # es) have_new_connection sv =
     (if ev_in e \<and> ev_socket e = listener_socket sv then poll_events es True sv
      else
        let sv = (if ev_in e then sv\<lparr>receive_sockets := push_new (ev_socket e) (receive_sockets sv)\<rparr> else sv);
            sv = (if ev_out e then sv\<lparr>send_sockets := push_new (ev_socket e) (send_sockets sv)\<rparr> else sv);
            sv = (if ev_err e then sv\<lparr>receive_sockets := push_new (ev_socket e) (receive_sockets sv)\<rparr> else sv)
        in poll_events es have_new_connection sv)"

text \<open>
  An accepted connection: its descriptor and whether \<open>setNonBlocking\<close> and \<open>disableNagle\<close>, and then
  \<open>addToEpollList\<close>, succeed. The list ends where \<^verbatim>\<open>accept\<close> returns -1.
\<close>

fun accept_all :: "(int \<times> bool \<times> bool) list \<Rightarrow> TCPServer \<Rightarrow> TCPServer res" where
  "accept_all [] sv = Inr sv"
| "accept_all ((fd, options_set, added) # rest) sv =
     bindE (assertE options_set) (\<lambda>_.
     let socket = socket_next sv;
         sv = sv\<lparr>socket_heap := (socket_heap sv)(socket := SocketBuf_init fd), socket_next := socket + 1\<rparr>
     in bindE (assertE added) (\<lambda>_.
        accept_all rest (sv\<lparr>receive_sockets := push_new socket (receive_sockets sv)\<rparr>)))"

definition poll :: "EpollEvent list \<Rightarrow> (int \<times> bool \<times> bool) list \<Rightarrow> TCPServer \<Rightarrow> TCPServer res" where
  "poll events accepted sv =
     (let (have_new_connection, sv) = poll_events events False sv
      in if have_new_connection then accept_all accepted sv else Inr sv)"

text \<open>
  Both passes of \<open>sendAndRecv\<close> over the server's sockets; \<open>recv_callback\<close> gets the socket that calls it.
\<close>

fun sendAndRecv_all ::
  "(nat \<Rightarrow> 's \<Rightarrow> TCPSocket) \<Rightarrow> (nat \<Rightarrow> TCPSocket \<Rightarrow> 's \<Rightarrow> 's) \<Rightarrow> (nat \<Rightarrow> Nanos \<Rightarrow> 's \<Rightarrow> 's res) \<Rightarrow> (nat \<Rightarrow> kernel_io)
     \<Rightarrow> nat list \<Rightarrow> bool \<Rightarrow> 's \<Rightarrow> (bool \<times> 's) res" where
  "sendAndRecv_all get put recv_callback io [] recv st = Inr (recv, st)"
| "sendAndRecv_all get put recv_callback io (k # ks) recv st =
     bindE (tcp_sendAndRecv (get k) (put k) (recv_callback k) (io k) st) (\<lambda>(r, st).
     sendAndRecv_all get put recv_callback io ks (recv \<or> r) st)"

definition server_sendAndRecv ::
  "('s \<Rightarrow> TCPServer) \<Rightarrow> (nat \<Rightarrow> TCPSocket \<Rightarrow> 's \<Rightarrow> 's) \<Rightarrow> (nat \<Rightarrow> Nanos \<Rightarrow> 's \<Rightarrow> 's res) \<Rightarrow> ('s \<Rightarrow> 's res)
     \<Rightarrow> (nat \<Rightarrow> kernel_io) \<Rightarrow> (nat \<Rightarrow> kernel_io) \<Rightarrow> 's \<Rightarrow> 's res" where
  "server_sendAndRecv server put recv_callback recv_finished_callback io1 io2 st =
     (let get = (\<lambda>k st. socket_heap (server st) k)
      in bindE (sendAndRecv_all get put recv_callback io1 (receive_sockets (server st)) False st) (\<lambda>(recv, st).
         bindE (if recv then recv_finished_callback st else Inr st) (\<lambda>st.
         bindE (sendAndRecv_all get put recv_callback io2 (send_sockets (server st)) False st) (\<lambda>(r, st). Inr st))))"

text \<open>The containers hold every socket once, and every accepted socket is in the first.\<close>

definition server_ok :: "TCPServer \<Rightarrow> bool" where
  "server_ok sv \<longleftrightarrow> distinct (receive_sockets sv) \<and> distinct (send_sockets sv)
     \<and> (\<forall>k \<in> set (receive_sockets sv) \<union> set (send_sockets sv). k < socket_next sv)"

lemma push_new_simps [simp]:
  "distinct xs \<Longrightarrow> distinct (push_new x xs)" "set (push_new x xs) = insert x (set xs)"
  by (auto simp: push_new_def)

lemma poll_events_ok:
  "server_ok sv \<Longrightarrow> \<forall>e \<in> set es. ev_socket e < socket_next sv \<Longrightarrow> poll_events es b sv = (b', sv') \<Longrightarrow>
     server_ok sv' \<and> socket_next sv' = socket_next sv \<and> socket_heap sv' = socket_heap sv
     \<and> set (receive_sockets sv) \<subseteq> set (receive_sockets sv')
     \<and> (b' \<longleftrightarrow> b \<or> (\<exists>e \<in> set es. ev_in e \<and> ev_socket e = listener_socket sv))"
proof (induction es arbitrary: b sv)
  case (Cons e es)
  show ?case
  proof (cases "ev_in e \<and> ev_socket e = listener_socket sv")
    case True
    then show ?thesis using Cons.IH [of sv True] Cons.prems by auto
  next
    case False
    define sv1 where "sv1 = (if ev_in e then sv\<lparr>receive_sockets := push_new (ev_socket e) (receive_sockets sv)\<rparr> else sv)"
    define sv2 where "sv2 = (if ev_out e then sv1\<lparr>send_sockets := push_new (ev_socket e) (send_sockets sv1)\<rparr> else sv1)"
    define sv3 where "sv3 = (if ev_err e then sv2\<lparr>receive_sockets := push_new (ev_socket e) (receive_sockets sv2)\<rparr> else sv2)"
    have "server_ok sv3" "socket_next sv3 = socket_next sv" "listener_socket sv3 = listener_socket sv"
      "socket_heap sv3 = socket_heap sv" "set (receive_sockets sv) \<subseteq> set (receive_sockets sv3)"
      using Cons.prems(1,2) by (auto simp: server_ok_def sv3_def sv2_def sv1_def)
    moreover have "poll_events es b sv3 = (b', sv')"
      using Cons.prems(3) unfolding sv3_def sv2_def sv1_def by (simp only: poll_events.simps False if_False Let_def)
    ultimately show ?thesis using Cons.IH [of sv3 b] Cons.prems(2) False by auto
  qed
qed auto

lemma accept_all_ok:
  assumes "server_ok sv" and "\<forall>(fd, a, b) \<in> set cs. a \<and> b"
  shows "\<exists>sv'. accept_all cs sv = Inr sv' \<and> server_ok sv' \<and> socket_next sv' = socket_next sv + length cs
     \<and> receive_sockets sv' = receive_sockets sv @ [socket_next sv ..< socket_next sv + length cs]
     \<and> (\<forall>k < length cs. socket_heap sv' (socket_next sv + k) = SocketBuf_init (fst (cs ! k)))
     \<and> (\<forall>k < socket_next sv. socket_heap sv' k = socket_heap sv k)"
  using assms
proof (induction cs arbitrary: sv)
  case (Cons c cs)
  obtain fd where c: "c = (fd, True, True)" using Cons.prems(2) by (cases c) auto
  define sv1 where "sv1 = sv\<lparr>socket_heap := (socket_heap sv)(socket_next sv := SocketBuf_init fd),
    socket_next := socket_next sv + 1, receive_sockets := receive_sockets sv @ [socket_next sv]\<rparr>"
  have new: "push_new (socket_next sv) (receive_sockets sv) = receive_sockets sv @ [socket_next sv]"
    using Cons.prems(1) by (auto simp: push_new_def server_ok_def)
  have ok1: "server_ok sv1" using Cons.prems(1) by (auto simp: server_ok_def sv1_def less_Suc_eq)
  have acc: "accept_all (c # cs) sv = accept_all cs sv1" by (simp add: c new Let_def sv1_def)
  obtain sv' where sv': "accept_all cs sv1 = Inr sv'" "server_ok sv'" "socket_next sv' = socket_next sv1 + length cs"
    "receive_sockets sv' = receive_sockets sv1 @ [socket_next sv1 ..< socket_next sv1 + length cs]"
    "\<forall>k < length cs. socket_heap sv' (socket_next sv1 + k) = SocketBuf_init (fst (cs ! k))"
    "\<forall>k < socket_next sv1. socket_heap sv' k = socket_heap sv1 k"
    using Cons.IH [OF ok1] Cons.prems(2) by auto
  have "socket_heap sv' (socket_next sv + k) = SocketBuf_init (fst ((c # cs) ! k))" if "k < length (c # cs)" for k
    using that sv'(5,6) by (cases k) (auto simp: sv1_def c)
  moreover have "receive_sockets sv' = receive_sockets sv @ [socket_next sv ..< socket_next sv + length (c # cs)]"
    using sv'(4) by (simp add: sv1_def upt_conv_Cons [of "socket_next sv"] del: upt_Suc)
  moreover have "socket_next sv' = socket_next sv + length (c # cs)"
    "\<forall>k < socket_next sv. socket_heap sv' k = socket_heap sv k"
    using sv'(3,6) by (simp_all add: sv1_def)
  moreover have "accept_all (c # cs) sv = Inr sv'" using acc sv'(1) by simp
  ultimately show ?case using sv'(2) by (intro exI [of _ sv'] conjI allI impI) (assumption | simp)+
qed simp

section \<open>Messages in a byte stream\<close>

text \<open>
  Every receiver cuts its buffer into messages with the same loop,
  \<^verbatim>\<open>for (i = 0; i + sizeof(M) <= next_rcv_valid_index_; i += sizeof(M))\<close>, and then moves the rest of the
  bytes to the front. \<open>n\<close> is the number of valid bytes, which the loop's body does not change.
\<close>

function frame_loop :: "nat \<Rightarrow> nat \<Rightarrow> (nat \<Rightarrow> 's \<Rightarrow> 's res) \<Rightarrow> nat \<Rightarrow> 's \<Rightarrow> (nat \<times> 's) res" where
  "frame_loop sz n body i st =
     (if 0 < sz \<and> i + sz \<le> n then bindE (body i st) (\<lambda>st. frame_loop sz n body (i + sz) st) else Inr (i, st))"
  by auto
termination by (relation "measure (\<lambda>(sz, n, body, i, st). n - i)") auto

declare frame_loop.simps [simp del]

definition discard :: "nat \<Rightarrow> SocketBuf \<Rightarrow> SocketBuf res" where
  "discard i s =
     bindE (buf_shift i (next_rcv_valid_index s - i) (inbound_data s)) (\<lambda>b.
     Inr (s\<lparr>inbound_data := b, next_rcv_valid_index := next_rcv_valid_index s - i\<rparr>))"

text \<open>The messages of a byte sequence and what is left.\<close>

function frames :: "nat \<Rightarrow> u8 list \<Rightarrow> u8 list list" where
  "frames sz bs = (if 0 < sz \<and> sz \<le> length bs then take sz bs # frames sz (drop sz bs) else [])"
  by auto
termination by (relation "measure (\<lambda>(sz, bs). length bs)") auto

declare frames.simps [simp del]

definition leftover :: "nat \<Rightarrow> u8 list \<Rightarrow> u8 list" where
  "leftover sz bs = drop (sz * (length bs div sz)) bs"

lemma leftover_short: "0 < sz \<Longrightarrow> length bs < sz \<Longrightarrow> leftover sz bs = bs"
  by (simp add: leftover_def)

lemma length_leftover: "length (leftover sz bs) = length bs mod sz"
  by (simp add: leftover_def minus_mult_div_eq_mod)

lemma leftover_drop: "0 < sz \<Longrightarrow> sz \<le> length bs \<Longrightarrow> leftover sz (drop sz bs) = leftover sz bs"
  by (simp add: leftover_def le_div_geq add.commute)

lemma frames_short: "length bs < sz \<Longrightarrow> frames sz bs = []"
  by (simp add: frames.simps)

text \<open>How the stream is cut into reads does not matter.\<close>

lemma frames_append:
  assumes "0 < sz"
  shows "frames sz (as @ bs) = frames sz as @ frames sz (leftover sz as @ bs)"
    and "leftover sz (as @ bs) = leftover sz (leftover sz as @ bs)"
proof (induction "length as" arbitrary: as rule: less_induct)
  case less
  have step: "frames sz (as @ bs) = take sz as # frames sz (drop sz as @ bs)" "frames sz as = take sz as # frames sz (drop sz as)"
      "leftover sz (as @ bs) = leftover sz (drop sz as @ bs)" "leftover sz as = leftover sz (drop sz as)"
      if "sz \<le> length as"
      using that assms leftover_drop [of sz "as @ bs"] leftover_drop [of sz as]
      by (simp_all add: frames.simps [of sz "as @ bs"] frames.simps [of sz as])
  have IH: "frames sz (drop sz as @ bs) = frames sz (drop sz as) @ frames sz (leftover sz (drop sz as) @ bs)"
    "leftover sz (drop sz as @ bs) = leftover sz (leftover sz (drop sz as) @ bs)" if "sz \<le> length as"
    using less [of "drop sz as"] assms that by auto
  show "frames sz (as @ bs) = frames sz as @ frames sz (leftover sz as @ bs)"
    using assms by (cases "sz \<le> length as") (simp_all add: step IH(1) frames_short leftover_short)
  show "leftover sz (as @ bs) = leftover sz (leftover sz as @ bs)"
    using assms IH(2) by (cases "sz \<le> length as") (simp_all only: step leftover_short not_le)
qed

lemma frame_loop_frames:
  assumes sz: "0 < sz" and body: "\<And>j st. body j st = handle (take sz (drop j bs)) st"
  shows "i \<le> length bs \<Longrightarrow> frame_loop sz (length bs) body i st
     = bindE (foldE handle (frames sz (drop i bs)) st) (\<lambda>st. Inr (length bs - length (leftover sz (drop i bs)), st))"
proof (induction "length bs - i" arbitrary: i st rule: less_induct)
  case less
  show ?case
  proof (cases "i + sz \<le> length bs")
    case True
    have IH: "frame_loop sz (length bs) body (i + sz)
       = (\<lambda>t. bindE (foldE handle (frames sz (drop (i + sz) bs)) t)
           (\<lambda>st. Inr (length bs - length (leftover sz (drop (i + sz) bs)), st)))"
      using less(1) [of "i + sz"] True sz by (intro ext) simp
    have fr: "frames sz (drop i bs) = take sz (drop i bs) # frames sz (drop (i + sz) bs)"
      using True sz by (simp add: frames.simps [of sz "drop i bs"] add.commute)
    have lo: "leftover sz (drop (i + sz) bs) = leftover sz (drop i bs)"
      using leftover_drop [of sz "drop i bs"] True sz by (simp add: add.commute)
    show ?thesis using True sz by (subst frame_loop.simps) (simp add: body fr IH lo bindE_assoc)
  next
    case False
    then show ?thesis using less(2) sz
      by (subst frame_loop.simps) (simp add: frames_short leftover_short)
  qed
qed

text \<open>The rest is shorter than one message and what is cut off at least one, so the copy never overlaps.\<close>

lemma discard_ok:
  assumes "0 < sz" and "sz \<le> next_rcv_valid_index s"
  shows "\<exists>s'. discard (next_rcv_valid_index s - length (leftover sz (pending_in s))) s = Inr s'
    \<and> pending_in s' = leftover sz (pending_in s) \<and> pending_out s' = pending_out s \<and> sent_bytes s' = sent_bytes s
    \<and> next_send_valid_index s' = next_send_valid_index s"
proof -
  let ?n = "next_rcv_valid_index s"
  define i where "i = ?n - ?n mod sz"
  have m: "?n mod sz < sz" "?n mod sz \<le> ?n" using assms by simp_all
  have "sz \<le> i"
  proof -
    have "i = sz * (?n div sz)" by (simp add: i_def minus_mod_eq_mult_div)
    moreover have "1 \<le> ?n div sz" using assms by (simp add: Suc_le_eq div_greater_zero_iff)
    ultimately show ?thesis by simp
  qed
  with m have i: "i \<le> ?n" "?n - i \<le> i" by (auto simp: i_def)
  obtain b where b: "buf_shift i (?n - i) (inbound_data s) = Inr b"
    "buf_prefix (?n - i) b = drop i (buf_prefix ?n (inbound_data s))"
    using buf_shift_ok [OF i] by blast
  have "drop i (pending_in s) = leftover sz (pending_in s)"
    by (simp add: leftover_def i_def minus_mod_eq_mult_div)
  then show ?thesis using b
    by (simp add: discard_def length_leftover flip: i_def) (simp add: pending_in_def pending_out_def)
qed

text \<open>A message at a place of the buffer depends on its own bytes only.\<close>

lemma foldE_map: "foldE f (map g xs) st = foldE (\<lambda>x. f (g x)) xs st"
  by (induction xs arbitrary: st) (auto intro: bindE_cong)

lemma field_frame: "off + n \<le> sz \<Longrightarrow> field (i + off) n bs = field off n (take sz (drop i bs))"
  by (simp add: field_def drop_take take_take min_def add.commute)

lemma at_frame:
  "OMClientRequest_at i bs = OMClientRequest_at 0 (take 38 (drop i bs))"
  "OMClientResponse_at i bs = OMClientResponse_at 0 (take 50 (drop i bs))"
  "MDPMarketUpdate_at i bs = MDPMarketUpdate_at 0 (take 42 (drop i bs))"
proof -
  have a: "off + 1 \<le> sz \<Longrightarrow> get_u8 (i + off) bs = get_u8 off (take sz (drop i bs))"
    "off + 4 \<le> sz \<Longrightarrow> get_u32 (i + off) bs = get_u32 off (take sz (drop i bs))"
    "off + 8 \<le> sz \<Longrightarrow> get_u64 (i + off) bs = get_u64 off (take sz (drop i bs))"
    "off + 8 \<le> sz \<Longrightarrow> get_price (i + off) bs = get_price off (take sz (drop i bs))" for off sz
    unfolding get_u8_def get_u32_def get_u64_def get_price_def by (simp_all only: field_frame)
  have b: "off + 1 \<le> sz \<Longrightarrow> get_u8 (off + i) bs = get_u8 off (take sz (drop i bs))"
    "off + 4 \<le> sz \<Longrightarrow> get_u32 (off + i) bs = get_u32 off (take sz (drop i bs))"
    "off + 8 \<le> sz \<Longrightarrow> get_u64 (off + i) bs = get_u64 off (take sz (drop i bs))"
    "off + 8 \<le> sz \<Longrightarrow> get_price (off + i) bs = get_price off (take sz (drop i bs))" for off sz
    using a [of off sz] by (simp_all add: add.commute)
  have a0: "8 \<le> sz \<Longrightarrow> get_u64 i bs = get_u64 0 (take sz (drop i bs))" for sz using a(3) [of 0 sz] by simp
  show "OMClientRequest_at i bs = OMClientRequest_at 0 (take 38 (drop i bs))"
    using a [where sz = 38] b [where sz = 38] a0 [of 38] by (simp add: wire_at)
  show "OMClientResponse_at i bs = OMClientResponse_at 0 (take 50 (drop i bs))"
    using a [where sz = 50] b [where sz = 50] a0 [of 50] by (simp add: wire_at)
  show "MDPMarketUpdate_at i bs = MDPMarketUpdate_at 0 (take 42 (drop i bs))"
    using a [where sz = 42] b [where sz = 42] a0 [of 42] by (simp add: wire_at)
qed

text \<open>Messages that were sent whole are received whole.\<close>

lemma frames_concat:
  assumes "0 < sz" and "\<forall>x \<in> set xs. length x = sz"
  shows "frames sz (concat xs @ rest) = xs @ frames sz rest \<and> leftover sz (concat xs @ rest) = leftover sz rest"
  using assms(2)
proof (induction xs)
  case (Cons x xs)
  then show ?case
    using assms(1) leftover_drop [of sz "x @ concat xs @ rest"] by (simp add: frames.simps [of sz "x @ concat xs @ rest"])
qed simp

text \<open>A socket that holds given bytes, for examples.\<close>

definition socket_holding :: "u8 list \<Rightarrow> SocketBuf" where
  "socket_holding bs = \<lparr>socket_fd = 5, outbound_data = (\<lambda>_. 0), next_send_valid_index = 0, inbound_data = (\<lambda>i. bs ! i),
     next_rcv_valid_index = length bs, sent_bytes = []\<rparr>"

lemma socket_holding_simps [simp]:
  "pending_in (socket_holding bs) = bs" "pending_out (socket_holding bs) = []"
  "next_send_valid_index (socket_holding bs) = 0" "next_rcv_valid_index (socket_holding bs) = length bs"
  "sent_bytes (socket_holding bs) = []"
  by (simp_all add: socket_holding_def pending_in_def pending_out_def buf_prefix_def map_nth)

end
