(* ===== verification/Queue_Loop.thy ===== *)
theory Queue_Loop
  imports LFQueue
begin

text \<open>
  The loop with which every thread empties a queue,
  \<^verbatim>\<open>for (auto x = q->getNextToRead(); q->size() && x; x = q->getNextToRead()) { ... q->updateReadIndex(); ... }\<close>.
  Some threads test the size as well, some do not: that test is \<open>guard\<close>. The body reads the element and
  advances the read position itself, at the place where the source does.
\<close>

fun drain_loop ::
  "('a LFQueue \<Rightarrow> bool) \<Rightarrow> ('s \<Rightarrow> 'a LFQueue) \<Rightarrow> ('a \<Rightarrow> 's \<Rightarrow> 's res) \<Rightarrow> nat \<Rightarrow> 's \<Rightarrow> 's res" where
  "drain_loop guard q body 0 st = Inl Diverges"
| "drain_loop guard q body (Suc fuel) st =
     (if guard (q st) \<and> getNextToRead (q st) \<noteq> None
      then bindE (read_elem (getNextToRead (q st)) (q st)) (\<lambda>x. bindE (body x st) (drain_loop guard q body fuel))
      else Inr st)"

text \<open>
  Every round reads one element, so as many rounds as the distance of the positions, and one to leave,
  are enough while the thread on the other side writes nothing; what it writes meanwhile is read by the
  next run of the loop.
\<close>

definition drain :: "('a LFQueue \<Rightarrow> bool) \<Rightarrow> ('s \<Rightarrow> 'a LFQueue) \<Rightarrow> ('a \<Rightarrow> 's \<Rightarrow> 's res) \<Rightarrow> 's \<Rightarrow> 's res" where
  "drain guard q body st = drain_loop guard q body (Suc (unat (write_pos (q st) - read_pos (q st)))) st"

definition size_guard :: "'a LFQueue \<Rightarrow> bool" where
  "size_guard q \<longleftrightarrow> lfq_size q \<noteq> 0"

definition no_guard :: "'a LFQueue \<Rightarrow> bool" where
  "no_guard q \<longleftrightarrow> True"

lemma guards_ok: "lfq_ok q \<Longrightarrow> contents q \<noteq> [] \<Longrightarrow> size_guard q" "no_guard q"
  using lfq_size_ok [of q] by (auto simp: size_guard_def no_guard_def)

text \<open>
  A body that consumes the element it is given turns the loop into a run over the queue's elements.
\<close>

definition consumes :: "('s \<Rightarrow> 'a LFQueue) \<Rightarrow> ('a \<Rightarrow> 's \<Rightarrow> 's res) \<Rightarrow> bool" where
  "consumes q body \<longleftrightarrow> (\<forall>x xs st st'. lfq_ok (q st) \<longrightarrow> contents (q st) = x # xs \<longrightarrow> body x st = Inr st'
     \<longrightarrow> lfq_ok (q st') \<and> contents (q st') = xs)"

lemma consumesI:
  assumes "\<And>x st st'. body x st = Inr st' \<Longrightarrow> q st' = snd (updateReadIndex (q st))"
  shows "consumes q body"
  using assms lfq.pop_ok unfolding consumes_def by metis

lemma drain_loop_foldE:
  assumes c: "consumes q body" and g: "\<And>p. lfq_ok p \<Longrightarrow> contents p \<noteq> [] \<Longrightarrow> guard p"
  shows "lfq_ok (q st) \<Longrightarrow> length (contents (q st)) < fuel \<Longrightarrow>
    drain_loop guard q body fuel st = foldE body (contents (q st)) st"
proof (induction fuel arbitrary: st)
  case (Suc fuel)
  show ?case
  proof (cases "contents (q st)")
    case Nil
    then show ?thesis using Suc.prems lfq_empty_iff [of "q st"] by simp
  next
    case (Cons x xs)
    have "getNextToRead (q st) \<noteq> None" "guard (q st)" "read_elem (getNextToRead (q st)) (q st) = Inr x"
      using Suc.prems(1) Cons lfq_empty_iff [of "q st"] g [of "q st"] lfq.front_ok [of "q st" x xs] by auto
    moreover have "bindE (body x st) (drain_loop guard q body fuel) = bindE (body x st) (foldE body xs)"
    proof (rule bindE_cong [OF refl])
      fix st' assume "body x st = Inr st'"
      with c Suc.prems(1) Cons have "lfq_ok (q st')" "contents (q st') = xs" unfolding consumes_def by blast+
      then show "drain_loop guard q body fuel st' = foldE body xs st'" using Suc.IH [of st'] Suc.prems(2) Cons by simp
    qed
    ultimately show ?thesis using Cons by simp
  qed
qed simp

lemma drain_foldE:
  assumes "consumes q body" and "\<And>p. lfq_ok p \<Longrightarrow> contents p \<noteq> [] \<Longrightarrow> guard p" and "lfq_ok (q st)"
  shows "drain guard q body st = foldE body (contents (q st)) st"
proof -
  have "unat (write_pos (q st) - read_pos (q st)) = length (contents (q st))"
    using assms(3) by (subst unat_sub) (simp_all add: lfq_ok_def word_le_nat_alt contents_def)
  then have eq: "Suc (unat (write_pos (q st) - read_pos (q st))) = Suc (length (contents (q st)))" by simp
  show ?thesis unfolding drain_def eq by (rule drain_loop_foldE [OF assms(1) _ assms(3) lessI]) (rule assms(2))
qed

lemma drained:
  assumes "consumes q body" and "lfq_ok (q st)" and "foldE body (contents (q st)) st = Inr st'"
  shows "lfq_ok (q st') \<and> contents (q st') = []"
proof -
  have "foldE body xs st = Inr st' \<Longrightarrow> contents (q st) = xs \<Longrightarrow> lfq_ok (q st) \<Longrightarrow> lfq_ok (q st') \<and> contents (q st') = []" for xs
  proof (induction xs arbitrary: st)
    case (Cons x xs)
    then obtain st1 where st1: "body x st = Inr st1" "foldE body xs st1 = Inr st'" by (auto simp: res_simps)
    then show ?case using Cons.IH [of st1] Cons.prems(2,3) assms(1) unfolding consumes_def by blast
  qed auto
  with assms(2,3) show ?thesis by blast
qed

end
