(* ===== verification/Market_Data_Publisher.thy ===== *)
theory Market_Data_Publisher
  imports Market_View Sockets Queue_Loop
begin

text \<open>
  market_data/market_data_publisher.h and market_data_publisher.cpp: the thread that numbers the matching
  engine's market updates, sends them on the incremental stream and hands them to the snapshot synthesizer.
\<close>

section \<open>State and operations\<close>

record MarketDataPublisher =
  next_inc_seq_num :: u64
  mdp_outgoing_md_updates :: MEMarketUpdateLFQueue
  snapshot_md_updates :: MDPMarketUpdateLFQueue
  incremental_socket :: McastSocket

definition MarketDataPublisher_init :: "MEMarketUpdateLFQueue \<Rightarrow> McastSocket \<Rightarrow> MarketDataPublisher res" where
  "MarketDataPublisher_init market_updates socket =
     bindE (LFQueue_init \<lparr>mdp_seq_num = 0, me_market_update = MEMarketUpdate_default\<rparr> ME_MAX_MARKET_UPDATES) (\<lambda>q.
     bindE (assertE (0 \<le> socket_fd socket)) (\<lambda>_.
     Inr \<lparr>next_inc_seq_num = 1, mdp_outgoing_md_updates = market_updates, snapshot_md_updates = q,
          incremental_socket = socket\<rparr>))"

text \<open>
  The body of the loop over the queue. The update is read again, for the synthesizer, after its slot has been
  released; in this model the slot still holds it.
\<close>

definition publish_update :: "MEMarketUpdate \<Rightarrow> MarketDataPublisher \<Rightarrow> MarketDataPublisher res" where
  "publish_update u p =
     bindE (mcast_send (put_u64 (next_inc_seq_num p)) (incremental_socket p)) (\<lambda>s.
     bindE (mcast_send (MEMarketUpdate_bytes u) s) (\<lambda>s.
     let p = p\<lparr>incremental_socket := s, mdp_outgoing_md_updates := snd (updateReadIndex (mdp_outgoing_md_updates p))\<rparr>
     in bindE (lfq_write \<lparr>mdp_seq_num = next_inc_seq_num p, me_market_update = u\<rparr> (snapshot_md_updates p)) (\<lambda>q.
        Inr (p\<lparr>snapshot_md_updates := q, next_inc_seq_num := next_inc_seq_num p + 1\<rparr>))))"

text \<open>The publishing sockets have no receive callback: calling it would throw.\<close>

definition no_callback :: "'s \<Rightarrow> 's res" where
  "no_callback st = Inl NullDeref"

definition publisher_round :: "kernel_io \<Rightarrow> MarketDataPublisher \<Rightarrow> MarketDataPublisher res" where
  "publisher_round io p =
     bindE (drain size_guard mdp_outgoing_md_updates publish_update p) (\<lambda>p.
     bindE (mcast_sendAndRecv incremental_socket (\<lambda>s p. p\<lparr>incremental_socket := s\<rparr>) no_callback io p) (\<lambda>(r, p). Inr p))"


section \<open>What is published\<close>

fun numbered_updates :: "u64 \<Rightarrow> MEMarketUpdate list \<Rightarrow> MDPMarketUpdate list" where
  "numbered_updates sn [] = []"
| "numbered_updates sn (u # us) = \<lparr>mdp_seq_num = sn, me_market_update = u\<rparr> # numbered_updates (sn + 1) us"

lemma numbered_updates_simps [simp]:
  "map me_market_update (numbered_updates sn us) = us" "length (numbered_updates sn us) = length us"
  by (induction us arbitrary: sn) simp_all

lemma numbered_updates_append:
  "numbered_updates sn (us @ ws) = numbered_updates sn us @ numbered_updates (sn + of_nat (length us)) ws"
  by (induction us arbitrary: sn) (simp_all add: add.assoc)

lemma numbered_updates_seq: "map mdp_seq_num (numbered_updates sn us) = map (\<lambda>i. sn + of_nat i) [0..<length us]"
  by (induction us arbitrary: sn) (simp_all add: map_upt_Suc add.assoc del: upt_Suc)

lemma publish_consumes: "consumes mdp_outgoing_md_updates publish_update"
  by (rule consumesI) (auto simp: publish_update_def Let_def res_simps)

lemma MDP_bytes_split:
  "put_u64 sn @ MEMarketUpdate_bytes u = MDPMarketUpdate_bytes \<lparr>mdp_seq_num = sn, me_market_update = u\<rparr>"
  by (simp add: MDPMarketUpdate_bytes_def)

lemma publish_fold:
  assumes "next_send_valid_index (incremental_socket p) + 42 * length us < McastBufferSize"
    and "lfq_ok (snapshot_md_updates p)" and "length us \<le> lfq_room (snapshot_md_updates p)"
  shows "\<exists>p'. foldE publish_update us p = Inr p' \<and> lfq_ok (snapshot_md_updates p')
    \<and> pending_out (incremental_socket p') = pending_out (incremental_socket p)
        @ concat (map MDPMarketUpdate_bytes (numbered_updates (next_inc_seq_num p) us))
    \<and> sent_bytes (incremental_socket p') = sent_bytes (incremental_socket p)
    \<and> pending_in (incremental_socket p') = pending_in (incremental_socket p)
    \<and> contents (snapshot_md_updates p') = contents (snapshot_md_updates p) @ numbered_updates (next_inc_seq_num p) us
    \<and> next_inc_seq_num p' = next_inc_seq_num p + of_nat (length us)"
  using assms
proof (induction us arbitrary: p)
  case (Cons u us)
  let ?s = "incremental_socket p" and ?sn = "next_inc_seq_num p"
  obtain s1 where s1: "mcast_send (put_u64 ?sn) ?s = Inr s1" "pending_out s1 = pending_out ?s @ put_u64 ?sn"
    "pending_in s1 = pending_in ?s" "sent_bytes s1 = sent_bytes ?s" "next_send_valid_index s1 = next_send_valid_index ?s + 8"
    using mcast_send_ok [of ?s "put_u64 ?sn"] Cons.prems(1) by auto
  obtain s2 where s2: "mcast_send (MEMarketUpdate_bytes u) s1 = Inr s2"
    "pending_out s2 = pending_out s1 @ MEMarketUpdate_bytes u" "pending_in s2 = pending_in s1" "sent_bytes s2 = sent_bytes s1"
    "next_send_valid_index s2 = next_send_valid_index s1 + 34"
    using mcast_send_ok [of s1 "MEMarketUpdate_bytes u"] Cons.prems(1) s1(5) by auto
  obtain q where q: "lfq_write \<lparr>mdp_seq_num = ?sn, me_market_update = u\<rparr> (snapshot_md_updates p) = Inr q" "lfq_ok q"
    "contents q = contents (snapshot_md_updates p) @ [\<lparr>mdp_seq_num = ?sn, me_market_update = u\<rparr>]"
    "lfq_room q = lfq_room (snapshot_md_updates p) - 1"
    using lfq.push_ok [OF Cons.prems(2), of "\<lparr>mdp_seq_num = ?sn, me_market_update = u\<rparr>"] Cons.prems(3) by auto
  define p1 where "p1 = p\<lparr>incremental_socket := s2, mdp_outgoing_md_updates := snd (updateReadIndex (mdp_outgoing_md_updates p)),
    snapshot_md_updates := q, next_inc_seq_num := ?sn + 1\<rparr>"
  have one: "publish_update u p = Inr p1" using s1(1) s2(1) q(1) by (simp add: publish_update_def p1_def Let_def)
  have "next_send_valid_index (incremental_socket p1) + 42 * length us < McastBufferSize" "lfq_ok (snapshot_md_updates p1)"
    "length us \<le> lfq_room (snapshot_md_updates p1)"
    using Cons.prems s1(5) s2(5) q by (simp_all add: p1_def)
  from Cons.IH [OF this] one show ?case using s1(2-4) s2(2-4) q(3)
    by (auto simp: p1_def MDPMarketUpdate_bytes_def add.assoc)
qed simp

text \<open>A publishing socket receives nothing; the kernel takes everything.\<close>

definition takes_all :: "kernel_io \<Rightarrow> bool" where
  "takes_all io \<longleftrightarrow> io_avail io = [] \<and> McastBufferSize \<le> io_taken io"

lemma mcast_publish:
  assumes "takes_all io" and "next_send_valid_index (get st) \<le> McastBufferSize"
    and "\<And>s st. get (put s st) = s" and "\<And>s s' st. put s (put s' st) = put s st"
  shows "\<exists>s. mcast_sendAndRecv get put no_callback io st = Inr (False, put s st) \<and> pending_out s = []
    \<and> sent_bytes s = sent_bytes (get st) @ pending_out (get st) \<and> next_send_valid_index s = 0"
proof -
  define s0 where "s0 = snd (read_avail McastBufferSize [] (get st))"
  have s0: "read_avail McastBufferSize [] (get st) = (0, s0)" by (simp add: s0_def read_avail_def Let_def)
  have "next_send_valid_index s0 = next_send_valid_index (get st)" by (simp add: s0_def read_avail_def Let_def)
  moreover have "pending_out s0 = pending_out (get st)" "sent_bytes s0 = sent_bytes (get st)"
    by (simp_all add: s0_def read_avail_pending)
  ultimately show ?thesis using assms
    by (intro exI [of _ "flush_out (io_taken io) s0"])
       (simp add: mcast_sendAndRecv_def takes_all_def s0 flush_out_pending, simp add: flush_out_def Let_def)
qed

lemma publisher_round_ok:
  assumes "lfq_ok (mdp_outgoing_md_updates p)" and "contents (mdp_outgoing_md_updates p) = us"
    and "pending_out (incremental_socket p) = []" and "42 * length us < McastBufferSize"
    and "lfq_ok (snapshot_md_updates p)" and "length us \<le> lfq_room (snapshot_md_updates p)" and "takes_all io"
  shows "\<exists>p'. publisher_round io p = Inr p' \<and> contents (mdp_outgoing_md_updates p') = []
    \<and> sent_bytes (incremental_socket p') = sent_bytes (incremental_socket p)
        @ concat (map MDPMarketUpdate_bytes (numbered_updates (next_inc_seq_num p) us))
    \<and> contents (snapshot_md_updates p') = contents (snapshot_md_updates p) @ numbered_updates (next_inc_seq_num p) us
    \<and> next_inc_seq_num p' = next_inc_seq_num p + of_nat (length us)
    \<and> pending_out (incremental_socket p') = [] \<and> lfq_ok (snapshot_md_updates p')"
proof -
  have z: "next_send_valid_index (incremental_socket p) = 0" using arg_cong [OF assms(3), of length] by simp
  then obtain p1 where p1: "foldE publish_update us p = Inr p1" "lfq_ok (snapshot_md_updates p1)"
    "pending_out (incremental_socket p1) = concat (map MDPMarketUpdate_bytes (numbered_updates (next_inc_seq_num p) us))"
    "sent_bytes (incremental_socket p1) = sent_bytes (incremental_socket p)"
    "contents (snapshot_md_updates p1) = contents (snapshot_md_updates p) @ numbered_updates (next_inc_seq_num p) us"
    "next_inc_seq_num p1 = next_inc_seq_num p + of_nat (length us)"
    using publish_fold [of p us] assms by auto
  have dr: "drain size_guard mdp_outgoing_md_updates publish_update p = foldE publish_update (contents (mdp_outgoing_md_updates p)) p"
    by (rule drain_foldE [OF publish_consumes guards_ok(1) assms(1)])
  have empty: "contents (mdp_outgoing_md_updates p1) = []" using drained [OF publish_consumes assms(1)] p1(1) assms(2) by auto
  have "length (concat (map MDPMarketUpdate_bytes ms)) = 42 * length ms" for ms by (induction ms) simp_all
  then have "next_send_valid_index (incremental_socket p1) \<le> McastBufferSize"
    using arg_cong [OF p1(3), of length] assms(4) by simp
  from mcast_publish [where get = incremental_socket and put = "\<lambda>s p. p\<lparr>incremental_socket := s\<rparr>", OF assms(7) this]
  obtain s where s: "mcast_sendAndRecv incremental_socket (\<lambda>s p. p\<lparr>incremental_socket := s\<rparr>) no_callback io p1
      = Inr (False, p1\<lparr>incremental_socket := s\<rparr>)" "pending_out s = []"
    "sent_bytes s = sent_bytes (incremental_socket p1) @ pending_out (incremental_socket p1)" by auto
  show ?thesis using dr p1 empty s assms(2) by (simp add: publisher_round_def)
qed

end
