(* ===== verification/Snapshot_Synthesizer.thy ===== *)
theory Snapshot_Synthesizer
  imports Market_Data_Publisher MemPool
begin

text \<open>
  market_data/snapshot_synthesizer.h and snapshot_synthesizer.cpp: the thread that keeps the live orders of
  all tickers and publishes them periodically, so that a receiver that missed updates can recover.
\<close>

section \<open>State and operations\<close>

record SnapshotSynthesizer =
  ss_snapshot_md_updates :: MDPMarketUpdateLFQueue
  snapshot_socket :: McastSocket
  ticker_orders :: "nat \<Rightarrow> nat \<Rightarrow> ptr"
  last_inc_seq_num :: u64
  last_snapshot_time :: Nanos
  ss_order_pool :: "MEMarketUpdate MemPool"

definition SnapshotSynthesizer_init :: "MDPMarketUpdateLFQueue \<Rightarrow> McastSocket \<Rightarrow> SnapshotSynthesizer res" where
  "SnapshotSynthesizer_init market_updates socket =
     bindE (MemPool_init MEMarketUpdate_default ME_MAX_ORDER_IDS) (\<lambda>pool.
     bindE (assertE (0 \<le> socket_fd socket)) (\<lambda>_.
     Inr \<lparr>ss_snapshot_md_updates = market_updates, snapshot_socket = socket, ticker_orders = (\<lambda>_ _. None),
          last_inc_seq_num = 0, last_snapshot_time = 0, ss_order_pool = pool\<rparr>))"

text \<open>\<^verbatim>\<open>orders->at(id) = p\<close>.\<close>

definition put_snapshot_order :: "nat \<Rightarrow> nat \<Rightarrow> ptr \<Rightarrow> SnapshotSynthesizer \<Rightarrow> SnapshotSynthesizer res" where
  "put_snapshot_order t i p ss =
     bindE (array_put (unat ME_MAX_ORDER_IDS) (ticker_orders ss t) i p) (\<lambda>row.
     Inr (ss\<lparr>ticker_orders := (ticker_orders ss)(t := row)\<rparr>))"

definition addToSnapshot :: "MDPMarketUpdate \<Rightarrow> SnapshotSynthesizer \<Rightarrow> SnapshotSynthesizer res" where
  "addToSnapshot m ss =
     (let u = me_market_update m; t = unat (upd_ticker_id u); i = unat (upd_order_id u)
      in bindE (array_at ME_MAX_TICKERS (ticker_orders ss) t) (\<lambda>orders.
         bindE (case upd_type u of
             Upd_ADD \<Rightarrow>
               bindE (array_at (unat ME_MAX_ORDER_IDS) orders i) (\<lambda>order.
               bindE (assertE (order = None)) (\<lambda>_.
               let (p, pool) = allocate u (ss_order_pool ss)
               in put_snapshot_order t i p (ss\<lparr>ss_order_pool := pool\<rparr>)))
           | Upd_MODIFY \<Rightarrow>
               bindE (array_at (unat ME_MAX_ORDER_IDS) orders i) (\<lambda>order.
               bindE (assertE (order \<noteq> None)) (\<lambda>_.
               bindE (deref order) (\<lambda>k.
               bindE (assertE (upd_order_id (obj (ss_order_pool ss) k) = upd_order_id u)) (\<lambda>_.
               bindE (assertE (upd_side (obj (ss_order_pool ss) k) = upd_side u)) (\<lambda>_.
               Inr (ss\<lparr>ss_order_pool := upd_obj k (\<lambda>x. x\<lparr>upd_qty := upd_qty u, upd_price := upd_price u\<rparr>) (ss_order_pool ss)\<rparr>))))))
           | Upd_CANCEL \<Rightarrow>
               bindE (array_at (unat ME_MAX_ORDER_IDS) orders i) (\<lambda>order.
               bindE (assertE (order \<noteq> None)) (\<lambda>_.
               bindE (deref order) (\<lambda>k.
               bindE (assertE (upd_order_id (obj (ss_order_pool ss) k) = upd_order_id u)) (\<lambda>_.
               bindE (assertE (upd_side (obj (ss_order_pool ss) k) = upd_side u)) (\<lambda>_.
               bindE (deallocate order (ss_order_pool ss)) (\<lambda>pool.
               put_snapshot_order t i None (ss\<lparr>ss_order_pool := pool\<rparr>)))))))
           | _ \<Rightarrow> Inr ss) (\<lambda>ss.
         bindE (assertE (mdp_seq_num m = last_inc_seq_num ss + 1)) (\<lambda>_.
         Inr (ss\<lparr>last_inc_seq_num := mdp_seq_num m\<rparr>)))))"

text \<open>
  Publishing. The state of the loops is the running number \<open>snapshot_size\<close> and the synthesizer; \<open>io n\<close> is what
  the kernel does at the flush behind message \<open>n\<close>.
\<close>

type_synonym snapshot_state = "u64 \<times> SnapshotSynthesizer"

definition send_snapshot :: "MEMarketUpdate \<Rightarrow> snapshot_state \<Rightarrow> snapshot_state res" where
  "send_snapshot u = (\<lambda>(snapshot_size, ss).
     bindE (mcast_send (MDPMarketUpdate_bytes \<lparr>mdp_seq_num = snapshot_size, me_market_update = u\<rparr>) (snapshot_socket ss)) (\<lambda>s.
     Inr (snapshot_size + 1, ss\<lparr>snapshot_socket := s\<rparr>)))"

definition flush_snapshot :: "(nat \<Rightarrow> kernel_io) \<Rightarrow> snapshot_state \<Rightarrow> snapshot_state res" where
  "flush_snapshot io = (\<lambda>(snapshot_size, ss).
     bindE (mcast_sendAndRecv snapshot_socket (\<lambda>s ss. ss\<lparr>snapshot_socket := s\<rparr>) no_callback (io (unat snapshot_size)) ss)
     (\<lambda>(r, ss). Inr (snapshot_size, ss)))"

definition publish_order :: "(nat \<Rightarrow> kernel_io) \<Rightarrow> nat \<Rightarrow> nat \<Rightarrow> snapshot_state \<Rightarrow> snapshot_state res" where
  "publish_order io t i st =
     (case ticker_orders (snd st) t i of
        None \<Rightarrow> Inr st
      | Some k \<Rightarrow> bindE (send_snapshot (obj (ss_order_pool (snd st)) k) st) (flush_snapshot io))"

definition publish_ticker :: "(nat \<Rightarrow> kernel_io) \<Rightarrow> nat \<Rightarrow> snapshot_state \<Rightarrow> snapshot_state res" where
  "publish_ticker io t st =
     bindE (array_at ME_MAX_TICKERS (ticker_orders (snd st)) t) (\<lambda>orders.
     bindE (send_snapshot (MEMarketUpdate_default\<lparr>upd_type := Upd_CLEAR, upd_ticker_id := of_nat t\<rparr>) st) (\<lambda>st.
     foldE (publish_order io t) [0..<unat ME_MAX_ORDER_IDS] st))"

definition publishSnapshot :: "(nat \<Rightarrow> kernel_io) \<Rightarrow> SnapshotSynthesizer \<Rightarrow> SnapshotSynthesizer res" where
  "publishSnapshot io ss =
     bindE (send_snapshot (MEMarketUpdate_default\<lparr>upd_type := Upd_SNAPSHOT_START, upd_order_id := last_inc_seq_num ss\<rparr>) (0, ss))
     (\<lambda>st. bindE (foldE (publish_ticker io) [0..<ME_MAX_TICKERS] st)
     (\<lambda>st. bindE (send_snapshot (MEMarketUpdate_default\<lparr>upd_type := Upd_SNAPSHOT_END, upd_order_id := last_inc_seq_num (snd st)\<rparr>) st)
     (\<lambda>st. bindE (flush_snapshot io st) (\<lambda>st. Inr (snd st)))))"

definition snapshot_one :: "MDPMarketUpdate \<Rightarrow> SnapshotSynthesizer \<Rightarrow> SnapshotSynthesizer res" where
  "snapshot_one m ss =
     bindE (addToSnapshot m ss) (\<lambda>ss.
     Inr (ss\<lparr>ss_snapshot_md_updates := snd (updateReadIndex (ss_snapshot_md_updates ss))\<rparr>))"

text \<open>One round of the thread; \<open>now\<close> is the clock, read twice with the same result.\<close>

definition synthesizer_round :: "Nanos \<Rightarrow> (nat \<Rightarrow> kernel_io) \<Rightarrow> SnapshotSynthesizer \<Rightarrow> SnapshotSynthesizer res" where
  "synthesizer_round now io ss =
     bindE (drain size_guard ss_snapshot_md_updates snapshot_one ss) (\<lambda>ss.
     if now - last_snapshot_time ss > 60 * NANOS_TO_SECS then publishSnapshot io (ss\<lparr>last_snapshot_time := now\<rparr>)
     else Inr ss)"


section \<open>The synthesizer keeps the view\<close>

definition shows_view :: "SnapshotSynthesizer \<Rightarrow> view \<Rightarrow> bool" where
  "shows_view ss v \<longleftrightarrow> view_ok v \<and> pool_ok (ss_order_pool ss)
     \<and> (\<forall>t < ME_MAX_TICKERS. \<forall>i < unat ME_MAX_ORDER_IDS.
          case ticker_orders ss t i of None \<Rightarrow> v t i = None
          | Some k \<Rightarrow> allocated (ss_order_pool ss) k \<and> v t i = Some (obj (ss_order_pool ss) k))
     \<and> (\<forall>t < ME_MAX_TICKERS. \<forall>i < unat ME_MAX_ORDER_IDS. \<forall>t' < ME_MAX_TICKERS. \<forall>i' < unat ME_MAX_ORDER_IDS. \<forall>k.
          ticker_orders ss t i = Some k \<and> ticker_orders ss t' i' = Some k \<longrightarrow> (t, i) = (t', i'))"

lemma shows_viewD:
  assumes "shows_view ss v" and "t < ME_MAX_TICKERS" and "i < unat ME_MAX_ORDER_IDS"
  shows "ticker_orders ss t i = None \<Longrightarrow> v t i = None"
    and "ticker_orders ss t i = Some k \<Longrightarrow> allocated (ss_order_pool ss) k \<and> v t i = Some (obj (ss_order_pool ss) k)"
    and "v t i = Some x \<Longrightarrow> \<exists>k. ticker_orders ss t i = Some k \<and> allocated (ss_order_pool ss) k \<and> obj (ss_order_pool ss) k = x"
    and "v t i = None \<Longrightarrow> ticker_orders ss t i = None"
proof -
  have c: "case ticker_orders ss t i of None \<Rightarrow> v t i = None
      | Some k \<Rightarrow> allocated (ss_order_pool ss) k \<and> v t i = Some (obj (ss_order_pool ss) k)"
    using assms unfolding shows_view_def by blast
  show "ticker_orders ss t i = None \<Longrightarrow> v t i = None"
    "ticker_orders ss t i = Some k \<Longrightarrow> allocated (ss_order_pool ss) k \<and> v t i = Some (obj (ss_order_pool ss) k)"
    "v t i = Some x \<Longrightarrow> \<exists>k. ticker_orders ss t i = Some k \<and> allocated (ss_order_pool ss) k \<and> obj (ss_order_pool ss) k = x"
    "v t i = None \<Longrightarrow> ticker_orders ss t i = None"
    using c by (auto split: option.splits)
qed

lemma shows_view_cong:
  "ticker_orders ss' = ticker_orders ss \<Longrightarrow> ss_order_pool ss' = ss_order_pool ss \<Longrightarrow> shows_view ss' v = shows_view ss v"
  by (simp only: shows_view_def)

lemma shows_view_inj:
  assumes "shows_view ss v" and "t < ME_MAX_TICKERS" "i < unat ME_MAX_ORDER_IDS" "t' < ME_MAX_TICKERS" "i' < unat ME_MAX_ORDER_IDS"
    and "ticker_orders ss t i = Some k" "ticker_orders ss t' i' = Some k"
  shows "(t, i) = (t', i')"
  using assms unfolding shows_view_def by blast

text \<open>One order of the view and of the table changes, and no block of another order does.\<close>

lemma shows_view_update:
  assumes sv: "shows_view ss v" and ok: "view_ok (set_view t i x v)" "pool_ok (ss_order_pool ss')"
    and r: "t < ME_MAX_TICKERS" "i < unat ME_MAX_ORDER_IDS"
    and tick: "ticker_orders ss' = (ticker_orders ss)(t := (ticker_orders ss t)(i := p))"
    and here: "case p of None \<Rightarrow> x = None | Some k \<Rightarrow> allocated (ss_order_pool ss') k \<and> x = Some (obj (ss_order_pool ss') k)"
    and others: "\<And>k. allocated (ss_order_pool ss) k \<Longrightarrow> ticker_orders ss t i \<noteq> Some k \<Longrightarrow>
      allocated (ss_order_pool ss') k \<and> obj (ss_order_pool ss') k = obj (ss_order_pool ss) k \<and> p \<noteq> Some k"
  shows "shows_view ss' (set_view t i x v)"
  unfolding shows_view_def
proof (intro conjI allI impI)
  have other: "ticker_orders ss' t1 i1 = ticker_orders ss t1 i1 \<and> set_view t i x v t1 i1 = v t1 i1" if "(t1, i1) \<noteq> (t, i)" for t1 i1
    using that by (auto simp: tick set_view_def)
  have keeps: "allocated (ss_order_pool ss') k \<and> obj (ss_order_pool ss') k = obj (ss_order_pool ss) k \<and> p \<noteq> Some k"
    if "(t1, i1) \<noteq> (t, i)" "t1 < ME_MAX_TICKERS" "i1 < unat ME_MAX_ORDER_IDS" "ticker_orders ss t1 i1 = Some k" for t1 i1 k
    using others [of k] shows_viewD(2) [OF sv that(2-4)] shows_view_inj [OF sv that(2,3) r that(4)] that(1) by blast
  show "view_ok (set_view t i x v)" "pool_ok (ss_order_pool ss')" by (rule ok)+
  fix t1 i1 assume 1: "t1 < ME_MAX_TICKERS" "i1 < unat ME_MAX_ORDER_IDS"
  show "case ticker_orders ss' t1 i1 of None \<Rightarrow> set_view t i x v t1 i1 = None
      | Some k \<Rightarrow> allocated (ss_order_pool ss') k \<and> set_view t i x v t1 i1 = Some (obj (ss_order_pool ss') k)"
  proof (cases "(t1, i1) = (t, i)")
    case True
    then show ?thesis using here by (auto simp: tick split: option.splits)
  next
    case False
    then show ?thesis using other [OF False] shows_viewD(1,2) [OF sv 1] keeps [OF False 1]
      by (cases "ticker_orders ss t1 i1") auto
  qed
  fix t2 i2 k assume 2: "t2 < ME_MAX_TICKERS" "i2 < unat ME_MAX_ORDER_IDS"
    and k: "ticker_orders ss' t1 i1 = Some k \<and> ticker_orders ss' t2 i2 = Some k"
  have here_k: "p = Some k" if "(t1, i1) = (t, i) \<or> (t2, i2) = (t, i)" using that k by (auto simp: tick)
  show "(t1, i1) = (t2, i2)"
    using here_k other [of t1 i1] other [of t2 i2] k keeps [OF _ 1] keeps [OF _ 2] shows_view_inj [OF sv 1 2] by metis
qed

lemma addToSnapshot_ok:
  assumes sv: "shows_view ss v" and leg: "legal_update (me_market_update m) v" and sn: "mdp_seq_num m = last_inc_seq_num ss + 1"
    and mem: "upd_type (me_market_update m) = Upd_ADD \<Longrightarrow> can_allocate (ss_order_pool ss)"
  shows "\<exists>ss'. addToSnapshot m ss = Inr ss' \<and> shows_view ss' (apply_update (me_market_update m) v)
    \<and> last_inc_seq_num ss' = mdp_seq_num m \<and> ss_snapshot_md_updates ss' = ss_snapshot_md_updates ss
    \<and> snapshot_socket ss' = snapshot_socket ss \<and> last_snapshot_time ss' = last_snapshot_time ss"
proof -
  define u where "u = me_market_update m"
  define t where "t = unat (upd_ticker_id u)"
  define i where "i = unat (upd_order_id u)"
  have t: "t < ME_MAX_TICKERS" using leg by (simp add: legal_update_def Let_def t_def u_def)
  have vok: "view_ok (apply_update u v)" using sv leg by (simp add: shows_view_def view_ok_apply u_def)
  have pok: "pool_ok (ss_order_pool ss)" using sv by (simp add: shows_view_def)
  have nc: "upd_type u \<noteq> Upd_CLEAR" using leg by (auto simp: legal_update_def Let_def u_def)
  consider (add) "upd_type u = Upd_ADD" | (modify) "upd_type u = Upd_MODIFY" | (cancel) "upd_type u = Upd_CANCEL"
    | (rest) "upd_type u \<noteq> Upd_ADD" "upd_type u \<noteq> Upd_MODIFY" "upd_type u \<noteq> Upd_CANCEL" by metis
  then show ?thesis
  proof cases
    case add
    then have i: "i < unat ME_MAX_ORDER_IDS" and none: "v t i = None"
      using leg by (simp_all add: legal_update_def Let_def t_def i_def u_def)
    obtain pool where al: "allocate u (ss_order_pool ss) = (Some (unat (next_free (ss_order_pool ss))), pool)"
      using allocate_exists [OF mem [folded u_def, OF add], of u] by blast
    let ?k = "unat (next_free (ss_order_pool ss))"
    note a = allocate_Some [OF pok al]
    have sl: "ticker_orders ss t i = None" by (rule shows_viewD(4) [OF sv t i none])
    define ss' where "ss' = ss\<lparr>ss_order_pool := pool, ticker_orders := (ticker_orders ss)(t := (ticker_orders ss t)(i := Some ?k)),
      last_inc_seq_num := mdp_seq_num m\<rparr>"
    have run: "addToSnapshot m ss = Inr ss'"
      using t i sl al sn add
      by (simp add: addToSnapshot_def Let_def put_snapshot_order_def ss'_def flip: u_def t_def i_def)
    have old: "allocated pool k \<and> k \<noteq> ?k \<and> obj pool k = obj (ss_order_pool ss) k" if "allocated (ss_order_pool ss) k" for k
      using that a by auto
    have ap: "apply_update u v = set_view t i (Some u) v" using add by (simp add: apply_update_def Let_def t_def i_def)
    have "shows_view ss' (apply_update u v)" unfolding ap
    proof (rule shows_view_update [OF sv _ _ t i])
      show "ticker_orders ss' = (ticker_orders ss)(t := (ticker_orders ss t)(i := Some ?k))" by (simp add: ss'_def)
    qed (use vok ap a old in \<open>auto simp: ss'_def\<close>)
    then show ?thesis using run by (intro exI [of _ ss']) (simp add: ss'_def u_def)
  next
    case modify
    then obtain x where i: "i < unat ME_MAX_ORDER_IDS" and x: "v t i = Some x" "upd_order_id x = upd_order_id u" "upd_side x = upd_side u"
      using leg by (auto simp: legal_update_def Let_def t_def i_def u_def)
    obtain k where k: "ticker_orders ss t i = Some k" "allocated (ss_order_pool ss) k" "obj (ss_order_pool ss) k = x"
      using shows_viewD(3) [OF sv t i x(1)] by blast
    define ss' where "ss' = ss\<lparr>ss_order_pool := upd_obj k (\<lambda>x. x\<lparr>upd_qty := upd_qty u, upd_price := upd_price u\<rparr>) (ss_order_pool ss),
      last_inc_seq_num := mdp_seq_num m\<rparr>"
    have run: "addToSnapshot m ss = Inr ss'"
      using t i k x sn modify by (simp add: addToSnapshot_def Let_def ss'_def flip: u_def t_def i_def)
    have ap: "apply_update u v = set_view t i (Some (x\<lparr>upd_qty := upd_qty u, upd_price := upd_price u\<rparr>)) v"
      using modify x(1) by (simp add: apply_update_def Let_def flip: t_def i_def)
    have "shows_view ss' (apply_update u v)" unfolding ap
    proof (rule shows_view_update [OF sv _ _ t i])
      show "ticker_orders ss' = (ticker_orders ss)(t := (ticker_orders ss t)(i := Some k))" using k(1)
        by (simp add: ss'_def fun_upd_idem)
    qed (use vok ap k pok in \<open>auto simp: ss'_def\<close>)
    then show ?thesis using run by (intro exI [of _ ss']) (simp add: ss'_def u_def)
  next
    case cancel
    then obtain x where i: "i < unat ME_MAX_ORDER_IDS" and x: "v t i = Some x" "upd_order_id x = upd_order_id u" "upd_side x = upd_side u"
      using leg by (auto simp: legal_update_def Let_def t_def i_def u_def)
    obtain k where k: "ticker_orders ss t i = Some k" "allocated (ss_order_pool ss) k" "obj (ss_order_pool ss) k = x"
      using shows_viewD(3) [OF sv t i x(1)] by blast
    obtain pool where d: "deallocate (Some k) (ss_order_pool ss) = Inr pool"
      "allocated pool = (allocated (ss_order_pool ss))(k := False)" "obj pool = obj (ss_order_pool ss)" "pool_ok pool"
      using deallocate_allocated [OF k(2)] pok by blast
    define ss' where "ss' = ss\<lparr>ss_order_pool := pool, ticker_orders := (ticker_orders ss)(t := (ticker_orders ss t)(i := None)),
      last_inc_seq_num := mdp_seq_num m\<rparr>"
    have run: "addToSnapshot m ss = Inr ss'"
      using t i k(1,3) x d(1) sn cancel
      by (simp add: addToSnapshot_def Let_def put_snapshot_order_def ss'_def flip: u_def t_def i_def)
    have ap: "apply_update u v = set_view t i None v"
      using cancel by (simp add: apply_update_def Let_def t_def i_def)
    have "shows_view ss' (apply_update u v)" unfolding ap
    proof (rule shows_view_update [OF sv _ _ t i])
      show "ticker_orders ss' = (ticker_orders ss)(t := (ticker_orders ss t)(i := None))" by (simp add: ss'_def)
    qed (use vok ap k(1) d in \<open>auto simp: ss'_def\<close>)
    then show ?thesis using run by (intro exI [of _ ss']) (simp add: ss'_def u_def)
  next
    case rest
    define ss' where "ss' = ss\<lparr>last_inc_seq_num := mdp_seq_num m\<rparr>"
    have run: "addToSnapshot m ss = Inr ss'" using t sn rest
      by (cases "upd_type u") (simp_all add: addToSnapshot_def Let_def ss'_def flip: u_def t_def i_def)
    have "apply_update u v = v" using rest nc by (cases "upd_type u") (simp_all add: apply_update_def Let_def)
    then have "shows_view ss' (apply_update u v)" using sv shows_view_cong [of ss' ss v] by (simp add: ss'_def)
    then show ?thesis using run by (intro exI [of _ ss']) (simp add: ss'_def u_def)
  qed
qed

text \<open>The updates of the queue, one after the other.\<close>

fun enough_memory :: "MDPMarketUpdate list \<Rightarrow> SnapshotSynthesizer \<Rightarrow> bool" where
  "enough_memory [] ss \<longleftrightarrow> True"
| "enough_memory (m # ms) ss \<longleftrightarrow> (upd_type (me_market_update m) = Upd_ADD \<longrightarrow> can_allocate (ss_order_pool ss))
     \<and> (case addToSnapshot m ss of Inl e \<Rightarrow> True | Inr ss' \<Rightarrow> enough_memory ms ss')"

lemma addToSnapshots_ok:
  assumes "shows_view ss v" and "legal_updates us v" and "enough_memory (numbered_updates (last_inc_seq_num ss + 1) us) ss"
  shows "\<exists>ss'. foldE addToSnapshot (numbered_updates (last_inc_seq_num ss + 1) us) ss = Inr ss'
    \<and> shows_view ss' (apply_updates us v) \<and> last_inc_seq_num ss' = last_inc_seq_num ss + of_nat (length us)
    \<and> snapshot_socket ss' = snapshot_socket ss"
  using assms
proof (induction us arbitrary: ss v)
  case (Cons u us)
  let ?m = "\<lparr>mdp_seq_num = last_inc_seq_num ss + 1, me_market_update = u\<rparr>"
  obtain ss1 where ss1: "addToSnapshot ?m ss = Inr ss1" "shows_view ss1 (apply_update u v)"
    "last_inc_seq_num ss1 = last_inc_seq_num ss + 1" "snapshot_socket ss1 = snapshot_socket ss"
    using addToSnapshot_ok [OF Cons.prems(1), of ?m] Cons.prems(2,3) by auto
  have "enough_memory (numbered_updates (last_inc_seq_num ss1 + 1) us) ss1"
    using Cons.prems(3) ss1(1,3) by simp
  from Cons.IH [OF ss1(2) _ this] Cons.prems(2) ss1 show ?case by (auto simp: add.assoc)
qed simp

lemma SnapshotSynthesizer_init_ok:
  assumes "0 \<le> socket_fd s"
  shows "\<exists>ss. SnapshotSynthesizer_init q s = Inr ss \<and> shows_view ss empty_view \<and> last_inc_seq_num ss = 0
    \<and> snapshot_socket ss = s \<and> ss_snapshot_md_updates ss = q \<and> can_allocate (ss_order_pool ss)"
proof -
  have "is_pow2 ME_MAX_ORDER_IDS" unfolding is_pow2_def ME_MAX_ORDER_IDS_def by (rule exI [of _ 20]) simp
  then show ?thesis using assms
    by (simp add: SnapshotSynthesizer_init_def MemPool_init_def ME_MAX_ORDER_IDS_def shows_view_def pool_ok_def
        can_allocate_def) (simp add: empty_view_def)
qed


section \<open>What a snapshot consists of\<close>

definition start_update :: "u64 \<Rightarrow> MEMarketUpdate" where
  "start_update l = MEMarketUpdate_default\<lparr>upd_type := Upd_SNAPSHOT_START, upd_order_id := l\<rparr>"

definition end_update :: "u64 \<Rightarrow> MEMarketUpdate" where
  "end_update l = MEMarketUpdate_default\<lparr>upd_type := Upd_SNAPSHOT_END, upd_order_id := l\<rparr>"

definition snapshot_messages :: "u64 \<Rightarrow> view \<Rightarrow> MDPMarketUpdate list" where
  "snapshot_messages l v = numbered_updates 0 (start_update l # snapshot_events v @ [end_update l])"

text \<open>All bytes that a socket has sent or will send at its next flush.\<close>

definition stream_out :: "SocketBuf \<Rightarrow> u8 list" where
  "stream_out s = sent_bytes s @ pending_out s"

text \<open>\<open>emitted us n k st st'\<close>: exactly the messages \<open>us\<close> were put on the stream; \<open>k\<close> bounds the growth of the buffer.\<close>

definition emitted :: "MEMarketUpdate list \<Rightarrow> nat \<Rightarrow> snapshot_state \<Rightarrow> snapshot_state \<Rightarrow> bool" where
  "emitted us k st st' \<longleftrightarrow> fst st' = fst st + of_nat (length us)
     \<and> (\<exists>s. snd st' = (snd st)\<lparr>snapshot_socket := s\<rparr>
          \<and> stream_out s = stream_out (snapshot_socket (snd st)) @ concat (map MDPMarketUpdate_bytes (numbered_updates (fst st) us))
          \<and> next_send_valid_index s \<le> next_send_valid_index (snapshot_socket (snd st)) + k)"

lemma emitted_refl [simp]: "emitted [] 0 st st"
  by (simp add: emitted_def) (intro exI [of _ "snapshot_socket (snd st)"], simp)

lemma emitted_trans: "emitted us k st st1 \<Longrightarrow> emitted ws l st1 st2 \<Longrightarrow> emitted (us @ ws) (k + l) st st2"
  unfolding emitted_def by (auto simp: numbered_updates_append)

lemma emitted_mono: "emitted us k st st' \<Longrightarrow> k \<le> l \<Longrightarrow> emitted us l st st'"
  unfolding emitted_def by (meson add_left_mono order_trans)

lemma emitted_same:
  assumes "emitted us k st st'"
  shows "ticker_orders (snd st') = ticker_orders (snd st)" "ss_order_pool (snd st') = ss_order_pool (snd st)"
    "last_inc_seq_num (snd st') = last_inc_seq_num (snd st)" "shows_view (snd st') v = shows_view (snd st) v"
    "next_send_valid_index (snapshot_socket (snd st')) \<le> next_send_valid_index (snapshot_socket (snd st)) + k"
proof -
  obtain s where s: "snd st' = (snd st)\<lparr>snapshot_socket := s\<rparr>"
    "next_send_valid_index s \<le> next_send_valid_index (snapshot_socket (snd st)) + k" using assms unfolding emitted_def by blast
  then show "ticker_orders (snd st') = ticker_orders (snd st)" "ss_order_pool (snd st') = ss_order_pool (snd st)"
    "last_inc_seq_num (snd st') = last_inc_seq_num (snd st)"
    "next_send_valid_index (snapshot_socket (snd st')) \<le> next_send_valid_index (snapshot_socket (snd st)) + k" by simp_all
  then show "shows_view (snd st') v = shows_view (snd st) v" using shows_view_cong [of "snd st'" "snd st"] by simp
qed

lemma send_snapshot_ok:
  assumes "next_send_valid_index (snapshot_socket (snd st)) + 42 < McastBufferSize"
  shows "\<exists>st'. send_snapshot u st = Inr st' \<and> emitted [u] 42 st st'"
proof -
  obtain n ss where st: "st = (n, ss)" by (cases st)
  obtain s where "mcast_send (MDPMarketUpdate_bytes \<lparr>mdp_seq_num = n, me_market_update = u\<rparr>) (snapshot_socket ss) = Inr s"
    "pending_out s = pending_out (snapshot_socket ss) @ MDPMarketUpdate_bytes \<lparr>mdp_seq_num = n, me_market_update = u\<rparr>"
    "sent_bytes s = sent_bytes (snapshot_socket ss)" "next_send_valid_index s = next_send_valid_index (snapshot_socket ss) + 42"
    using mcast_send_ok [of "snapshot_socket ss" "MDPMarketUpdate_bytes \<lparr>mdp_seq_num = n, me_market_update = u\<rparr>"] assms st by auto
  then show ?thesis
    by (intro exI [of _ "(n + 1, ss\<lparr>snapshot_socket := s\<rparr>)"])
       (simp add: send_snapshot_def st emitted_def stream_out_def, intro exI [of _ s], simp)
qed

lemma flush_snapshot_ok:
  assumes "next_send_valid_index (snapshot_socket (snd st)) \<le> McastBufferSize" and "\<forall>n. takes_all (io n)"
  shows "\<exists>st'. flush_snapshot io st = Inr st' \<and> emitted [] 0 st st'
    \<and> pending_out (snapshot_socket (snd st')) = [] \<and> next_send_valid_index (snapshot_socket (snd st')) = 0"
proof -
  obtain n ss where st: "st = (n, ss)" by (cases st)
  have "next_send_valid_index (snapshot_socket ss) \<le> McastBufferSize" using assms(1) st by simp
  from mcast_publish [where get = snapshot_socket and put = "\<lambda>s ss. ss\<lparr>snapshot_socket := s\<rparr>" and io = "io (unat n)", OF spec [OF assms(2)] this]
  obtain s where "mcast_sendAndRecv snapshot_socket (\<lambda>s ss. ss\<lparr>snapshot_socket := s\<rparr>) no_callback (io (unat n)) ss
      = Inr (False, ss\<lparr>snapshot_socket := s\<rparr>)" "pending_out s = []"
    "sent_bytes s = sent_bytes (snapshot_socket ss) @ pending_out (snapshot_socket ss)" "next_send_valid_index s = 0" by auto
  then show ?thesis
    by (intro exI [of _ "(n, ss\<lparr>snapshot_socket := s\<rparr>)"])
       (simp add: flush_snapshot_def st emitted_def stream_out_def, intro exI [of _ s], simp)
qed

lemma publish_order_ok:
  assumes "shows_view (snd st) v" and "t < ME_MAX_TICKERS" and "i < unat ME_MAX_ORDER_IDS"
    and "next_send_valid_index (snapshot_socket (snd st)) + 42 < McastBufferSize" and "\<forall>n. takes_all (io n)"
  shows "\<exists>st'. publish_order io t i st = Inr st' \<and> emitted (case v t i of None \<Rightarrow> [] | Some x \<Rightarrow> [x]) 0 st st'"
proof (cases "ticker_orders (snd st) t i")
  case None
  then show ?thesis using shows_viewD(1) [OF assms(1-3)] by (simp add: publish_order_def)
next
  case (Some k)
  then have v: "v t i = Some (obj (ss_order_pool (snd st)) k)" using shows_viewD(2) [OF assms(1-3)] by blast
  obtain st1 where st1: "send_snapshot (obj (ss_order_pool (snd st)) k) st = Inr st1" "emitted [obj (ss_order_pool (snd st)) k] 42 st st1"
    using send_snapshot_ok [OF assms(4)] by blast
  have "next_send_valid_index (snapshot_socket (snd st1)) \<le> McastBufferSize" using emitted_same(5) [OF st1(2)] assms(4) by simp
  then obtain st2 where st2: "flush_snapshot io st1 = Inr st2" "emitted [] 0 st1 st2" "next_send_valid_index (snapshot_socket (snd st2)) = 0"
    using flush_snapshot_ok assms(5) by blast
  have "emitted [obj (ss_order_pool (snd st)) k] 42 st st2" using emitted_trans [OF st1(2) st2(2)] by simp
  then have "emitted [obj (ss_order_pool (snd st)) k] 0 st st2" using st2(3) unfolding emitted_def by fastforce
  then show ?thesis using Some st1(1) st2(1) v by (simp add: publish_order_def)
qed

lemma publish_orders_ok:
  assumes "shows_view (snd st) v" and "t < ME_MAX_TICKERS" and "set is \<subseteq> {..<unat ME_MAX_ORDER_IDS}"
    and "next_send_valid_index (snapshot_socket (snd st)) + 42 < McastBufferSize" and "\<forall>n. takes_all (io n)"
  shows "\<exists>st'. foldE (publish_order io t) is st = Inr st' \<and> emitted (List.map_filter (v t) is) 0 st st'"
  using assms
proof (induction "is" arbitrary: st)
  case (Cons i js)
  obtain st1 where st1: "publish_order io t i st = Inr st1" "emitted (case v t i of None \<Rightarrow> [] | Some x \<Rightarrow> [x]) 0 st st1"
    using publish_order_ok [OF Cons.prems(1,2) _ Cons.prems(4,5), of i] Cons.prems(3) by (auto simp del: split_paired_Ex)
  have "shows_view (snd st1) v" "next_send_valid_index (snapshot_socket (snd st1)) + 42 < McastBufferSize"
    using emitted_same(4,5) [OF st1(2)] Cons.prems(1,4) by auto
  from Cons.IH [OF this(1) Cons.prems(2) _ this(2) Cons.prems(5)] Cons.prems(3)
  obtain st2 where "foldE (publish_order io t) js st1 = Inr st2" "emitted (List.map_filter (v t) js) 0 st1 st2" by auto
  then show ?case using st1 emitted_trans [OF st1(2)] by (cases "v t i") (fastforce simp: map_filter_simps)+
qed (simp add: map_filter_simps)

lemma publish_ticker_ok:
  assumes "shows_view (snd st) v" and "t < ME_MAX_TICKERS"
    and "next_send_valid_index (snapshot_socket (snd st)) + 84 < McastBufferSize" and "\<forall>n. takes_all (io n)"
  shows "\<exists>st'. publish_ticker io t st = Inr st' \<and> emitted (clear_update t # orders_of t v) 42 st st'"
proof -
  obtain st1 where st1: "send_snapshot (clear_update t) st = Inr st1" "emitted [clear_update t] 42 st st1"
    using send_snapshot_ok [of st "clear_update t"] assms(3) by (auto simp del: split_paired_Ex)
  have pre: "shows_view (snd st1) v" "next_send_valid_index (snapshot_socket (snd st1)) + 42 < McastBufferSize"
    using emitted_same(4,5) [OF st1(2)] assms(1,3) by auto
  have "set [0..<unat ME_MAX_ORDER_IDS] \<subseteq> {..<unat ME_MAX_ORDER_IDS}" by auto
  from publish_orders_ok [OF pre(1) assms(2) this pre(2) assms(4)] obtain st2 where
    st2: "foldE (publish_order io t) [0..<unat ME_MAX_ORDER_IDS] st1 = Inr st2" "emitted (orders_of t v) 0 st1 st2"
    unfolding orders_of_def by blast
  show ?thesis using assms(2) st1(1) st2(1) emitted_trans [OF st1(2) st2(2)]
    by (simp add: publish_ticker_def flip: clear_update_def)
qed

lemma publish_tickers_ok:
  assumes "shows_view (snd st) v" and "set ts \<subseteq> {..<ME_MAX_TICKERS}"
    and "next_send_valid_index (snapshot_socket (snd st)) + 42 * length ts + 42 < McastBufferSize" and "\<forall>n. takes_all (io n)"
  shows "\<exists>st'. foldE (publish_ticker io) ts st = Inr st'
    \<and> emitted (concat (map (\<lambda>t. clear_update t # orders_of t v) ts)) (42 * length ts) st st'"
  using assms
proof (induction ts arbitrary: st)
  case (Cons t ts)
  obtain st1 where st1: "publish_ticker io t st = Inr st1" "emitted (clear_update t # orders_of t v) 42 st st1"
    using publish_ticker_ok [OF Cons.prems(1) _ _ Cons.prems(4), of t] Cons.prems(2,3) by auto
  have pre: "shows_view (snd st1) v" "next_send_valid_index (snapshot_socket (snd st1)) + 42 * length ts + 42 < McastBufferSize"
    using emitted_same(4,5) [OF st1(2)] Cons.prems(1,3) by auto
  have "set ts \<subseteq> {..<ME_MAX_TICKERS}" using Cons.prems(2) by simp
  from Cons.IH [OF pre(1) this pre(2) Cons.prems(4)] obtain st2 where
    st2: "foldE (publish_ticker io) ts st1 = Inr st2"
      "emitted (concat (map (\<lambda>t. clear_update t # orders_of t v) ts)) (42 * length ts) st1 st2" by blast
  then show ?case using st1(1) emitted_trans [OF st1(2) st2(2)] by simp
qed simp

lemma publishSnapshot_ok:
  assumes sv: "shows_view ss v" and out: "pending_out (snapshot_socket ss) = []" and io: "\<forall>n. takes_all (io n)"
  shows "\<exists>ss'. publishSnapshot io ss = Inr ss' \<and> shows_view ss' v \<and> last_inc_seq_num ss' = last_inc_seq_num ss
    \<and> pending_out (snapshot_socket ss') = []
    \<and> sent_bytes (snapshot_socket ss') = sent_bytes (snapshot_socket ss)
        @ concat (map MDPMarketUpdate_bytes (snapshot_messages (last_inc_seq_num ss) v))"
proof -
  let ?l = "last_inc_seq_num ss"
  have z: "next_send_valid_index (snapshot_socket ss) = 0" using arg_cong [OF out, of length] by simp
  obtain st1 where st1: "send_snapshot (start_update ?l) (0, ss) = Inr st1" "emitted [start_update ?l] 42 (0, ss) st1"
    using send_snapshot_ok [of "(0, ss)" "start_update ?l"] z by (auto simp: McastBufferSize_def)
  have pre: "shows_view (snd st1) v"
    "next_send_valid_index (snapshot_socket (snd st1)) + 42 * length [0..<ME_MAX_TICKERS] + 42 < McastBufferSize"
    using emitted_same(4,5) [OF st1(2)] sv z by (auto simp: McastBufferSize_def ME_MAX_TICKERS_def)
  have "set [0..<ME_MAX_TICKERS] \<subseteq> {..<ME_MAX_TICKERS}" by auto
  from publish_tickers_ok [OF pre(1) this pre(2) io] obtain st2 where
    st2: "foldE (publish_ticker io) [0..<ME_MAX_TICKERS] st1 = Inr st2" "emitted (snapshot_events v) (42 * ME_MAX_TICKERS) st1 st2"
    unfolding snapshot_events_def by auto
  have l2: "last_inc_seq_num (snd st2) = ?l" using emitted_same(3) [OF st1(2)] emitted_same(3) [OF st2(2)] by simp
  have e2: "emitted (start_update ?l # snapshot_events v) (42 + 42 * ME_MAX_TICKERS) (0, ss) st2"
    using emitted_trans [OF st1(2) st2(2)] by simp
  have "next_send_valid_index (snapshot_socket (snd st2)) + 42 < McastBufferSize"
    using emitted_same(5) [OF e2] z by (simp add: McastBufferSize_def ME_MAX_TICKERS_def)
  then obtain st3 where st3: "send_snapshot (end_update ?l) st2 = Inr st3" "emitted [end_update ?l] 42 st2 st3"
    using send_snapshot_ok by blast
  have e3: "emitted (start_update ?l # snapshot_events v @ [end_update ?l]) (42 + 42 * ME_MAX_TICKERS + 42) (0, ss) st3"
    using emitted_trans [OF e2 st3(2)] by simp
  have "next_send_valid_index (snapshot_socket (snd st3)) \<le> McastBufferSize"
    using emitted_same(5) [OF e3] z by (simp add: McastBufferSize_def ME_MAX_TICKERS_def)
  then obtain st4 where st4: "flush_snapshot io st3 = Inr st4" "emitted [] 0 st3 st4" "pending_out (snapshot_socket (snd st4)) = []"
    using flush_snapshot_ok io by blast
  have e4: "emitted (start_update ?l # snapshot_events v @ [end_update ?l]) (42 + 42 * ME_MAX_TICKERS + 42) (0, ss) st4"
    using emitted_trans [OF e3 st4(2)] by simp
  have run: "publishSnapshot io ss = Inr (snd st4)"
    using st1(1) st2(1) st3(1) st4(1) l2 by (simp add: publishSnapshot_def flip: start_update_def end_update_def)
  have "stream_out (snapshot_socket (snd st4)) = stream_out (snapshot_socket ss)
      @ concat (map MDPMarketUpdate_bytes (snapshot_messages ?l v))"
    using e4 by (auto simp: emitted_def snapshot_messages_def)
  then show ?thesis using run st4(3) out emitted_same(3,4) [OF e4] sv by (simp add: stream_out_def)
qed

end
