(* ===== verification/Market_Data_Consumer.thy ===== *)
theory Market_Data_Consumer
  imports Snapshot_Synthesizer
begin

text \<open>
  trading/market\_data/market\_data\_consumer.h and market\_data\_consumer.cpp: the trading side's receiver of
  the incremental stream, which recovers from lost messages with the snapshot stream.
\<close>

section \<open>Queued messages\<close>

text \<open>
  \<^verbatim>\<open>std::map<size_t, MEMarketUpdate>\<close> as the list of its entries in the order of the keys.
\<close>

type_synonym QueuedMarketUpdates = "(u64 \<times> MEMarketUpdate) list"

fun map_put :: "u64 \<Rightarrow> MEMarketUpdate \<Rightarrow> QueuedMarketUpdates \<Rightarrow> QueuedMarketUpdates" where
  "map_put k x [] = [(k, x)]"
| "map_put k x ((k', x') # xs) =
     (if k < k' then (k, x) # (k', x') # xs else if k = k' then (k, x) # xs else (k', x') # map_put k x xs)"

definition map_has :: "u64 \<Rightarrow> QueuedMarketUpdates \<Rightarrow> bool" where
  "map_has k xs \<longleftrightarrow> k \<in> fst ` set xs"


section \<open>State and operations\<close>

record MarketDataConsumer =
  next_exp_inc_seq_num :: u64
  mc_incoming_md_updates :: MEMarketUpdateLFQueue
  incremental_mcast_socket :: McastSocket
  snapshot_mcast_socket :: McastSocket
  in_recovery :: bool
  snapshot_queued_msgs :: QueuedMarketUpdates
  incremental_queued_msgs :: QueuedMarketUpdates

text \<open>
  What the operating system answers when the snapshot socket is created: the descriptor and whether joining
  the stream succeeds.
\<close>

record join_result =
  join_fd :: int
  join_done :: bool

definition MarketDataConsumer_init ::
  "MEMarketUpdateLFQueue \<Rightarrow> join_result \<Rightarrow> McastSocket \<Rightarrow> McastSocket \<Rightarrow> MarketDataConsumer res" where
  "MarketDataConsumer_init market_updates joined incremental snapshot =
     bindE (assertE (0 \<le> join_fd joined)) (\<lambda>_.
     bindE (assertE (join_done joined)) (\<lambda>_.
     Inr \<lparr>next_exp_inc_seq_num = 1, mc_incoming_md_updates = market_updates,
          incremental_mcast_socket = incremental\<lparr>socket_fd := join_fd joined\<rparr>, snapshot_mcast_socket = snapshot,
          in_recovery = False, snapshot_queued_msgs = [], incremental_queued_msgs = []\<rparr>))"

definition startSnapshotSync :: "join_result \<Rightarrow> MarketDataConsumer \<Rightarrow> MarketDataConsumer res" where
  "startSnapshotSync joined mc =
     (let mc = mc\<lparr>snapshot_queued_msgs := [], incremental_queued_msgs := [],
                 snapshot_mcast_socket := (snapshot_mcast_socket mc)\<lparr>socket_fd := join_fd joined\<rparr>\<rparr>
      in bindE (assertE (0 \<le> join_fd joined)) (\<lambda>_. bindE (assertE (join_done joined)) (\<lambda>_. Inr mc)))"

definition is_event :: "MEMarketUpdate \<Rightarrow> bool" where
  "is_event u \<longleftrightarrow> upd_type u \<noteq> Upd_SNAPSHOT_START \<and> upd_type u \<noteq> Upd_SNAPSHOT_END"

text \<open>The loop over the snapshot messages: whether there is no gap, and the events.\<close>

fun scan_snapshot :: "u64 \<Rightarrow> MEMarketUpdate list \<Rightarrow> QueuedMarketUpdates \<Rightarrow> bool \<times> MEMarketUpdate list" where
  "scan_snapshot next_snapshot_seq final_events [] = (True, final_events)"
| "scan_snapshot next_snapshot_seq final_events ((k, u) # xs) =
     (if k \<noteq> next_snapshot_seq then (False, final_events)
      else scan_snapshot (next_snapshot_seq + 1) (if is_event u then final_events @ [u] else final_events) xs)"

text \<open>The loop over the incremental messages, which starts behind the snapshot's last number.\<close>

fun scan_incremental :: "u64 \<Rightarrow> MEMarketUpdate list \<Rightarrow> QueuedMarketUpdates \<Rightarrow> bool \<times> u64 \<times> MEMarketUpdate list" where
  "scan_incremental next_exp final_events [] = (True, next_exp, final_events)"
| "scan_incremental next_exp final_events ((k, u) # xs) =
     (if k < next_exp then scan_incremental next_exp final_events xs
      else if k \<noteq> next_exp then (False, next_exp, final_events)
      else scan_incremental (next_exp + 1) (if is_event u then final_events @ [u] else final_events) xs)"

definition checkSnapshotSync :: "MarketDataConsumer \<Rightarrow> MarketDataConsumer res" where
  "checkSnapshotSync mc =
     (if snapshot_queued_msgs mc = [] then Inr mc
      else if upd_type (snd (hd (snapshot_queued_msgs mc))) \<noteq> Upd_SNAPSHOT_START then Inr (mc\<lparr>snapshot_queued_msgs := []\<rparr>)
      else
        let (have_complete_snapshot, final_events) = scan_snapshot 0 [] (snapshot_queued_msgs mc)
        in if \<not> have_complete_snapshot then Inr (mc\<lparr>snapshot_queued_msgs := []\<rparr>)
           else
             let last_snapshot_msg = snd (last (snapshot_queued_msgs mc))
             in if upd_type last_snapshot_msg \<noteq> Upd_SNAPSHOT_END then Inr mc
                else
                  let (have_complete_incremental, next_exp, final_events) =
                        scan_incremental (upd_order_id last_snapshot_msg + 1) final_events (incremental_queued_msgs mc);
                      mc = mc\<lparr>next_exp_inc_seq_num := next_exp\<rparr>
                  in if \<not> have_complete_incremental then Inr (mc\<lparr>snapshot_queued_msgs := []\<rparr>)
                     else bindE (foldE lfq_write final_events (mc_incoming_md_updates mc)) (\<lambda>q.
                          Inr (mc\<lparr>mc_incoming_md_updates := q, snapshot_queued_msgs := [], incremental_queued_msgs := [],
                                 in_recovery := False, snapshot_mcast_socket := mcast_leave (snapshot_mcast_socket mc)\<rparr>)))"

definition queueMessage :: "bool \<Rightarrow> MDPMarketUpdate \<Rightarrow> MarketDataConsumer \<Rightarrow> MarketDataConsumer res" where
  "queueMessage is_snapshot m mc =
     checkSnapshotSync
       (if is_snapshot
        then let mc = (if map_has (mdp_seq_num m) (snapshot_queued_msgs mc) then mc\<lparr>snapshot_queued_msgs := []\<rparr> else mc)
             in mc\<lparr>snapshot_queued_msgs := map_put (mdp_seq_num m) (me_market_update m) (snapshot_queued_msgs mc)\<rparr>
        else mc\<lparr>incremental_queued_msgs := map_put (mdp_seq_num m) (me_market_update m) (incremental_queued_msgs mc)\<rparr>)"

text \<open>One message of the buffer; \<open>is_snapshot\<close> was computed before the loop.\<close>

definition on_message :: "join_result \<Rightarrow> bool \<Rightarrow> MDPMarketUpdate \<Rightarrow> MarketDataConsumer \<Rightarrow> MarketDataConsumer res" where
  "on_message joined is_snapshot m mc =
     (let already_in_recovery = in_recovery mc;
          mc = mc\<lparr>in_recovery := already_in_recovery \<or> mdp_seq_num m \<noteq> next_exp_inc_seq_num mc\<rparr>
      in if in_recovery mc then
           bindE (if \<not> already_in_recovery then startSnapshotSync joined mc else Inr mc) (queueMessage is_snapshot m)
         else if \<not> is_snapshot then
           bindE (lfq_write (me_market_update m) (mc_incoming_md_updates mc)) (\<lambda>q.
           Inr (mc\<lparr>next_exp_inc_seq_num := next_exp_inc_seq_num mc + 1, mc_incoming_md_updates := q\<rparr>))
         else Inr mc)"

text \<open>The callback gets one of the two sockets; \<open>get\<close> and \<open>put\<close> say which.\<close>

definition mc_recvCallback ::
  "(MarketDataConsumer \<Rightarrow> McastSocket) \<Rightarrow> (McastSocket \<Rightarrow> MarketDataConsumer \<Rightarrow> MarketDataConsumer) \<Rightarrow> join_result
     \<Rightarrow> MarketDataConsumer \<Rightarrow> MarketDataConsumer res" where
  "mc_recvCallback get put joined mc =
     (let s = get mc; is_snapshot = (socket_fd s = socket_fd (snapshot_mcast_socket mc))
      in if is_snapshot \<and> \<not> in_recovery mc then Inr (put (s\<lparr>next_rcv_valid_index := 0\<rparr>) mc)
         else if 42 \<le> next_rcv_valid_index s then
           bindE (frame_loop 42 (next_rcv_valid_index s)
                    (\<lambda>i. on_message joined is_snapshot (MDPMarketUpdate_at i (pending_in s))) 0 mc) (\<lambda>(i, mc).
           bindE (discard i (get mc)) (\<lambda>s. Inr (put s mc)))
         else Inr mc)"

definition put_incremental :: "McastSocket \<Rightarrow> MarketDataConsumer \<Rightarrow> MarketDataConsumer" where
  "put_incremental s mc = mc\<lparr>incremental_mcast_socket := s\<rparr>"

definition put_snapshot :: "McastSocket \<Rightarrow> MarketDataConsumer \<Rightarrow> MarketDataConsumer" where
  "put_snapshot s mc = mc\<lparr>snapshot_mcast_socket := s\<rparr>"

text \<open>One round of the thread.\<close>

definition consumer_round :: "join_result \<Rightarrow> kernel_io \<Rightarrow> kernel_io \<Rightarrow> MarketDataConsumer \<Rightarrow> MarketDataConsumer res" where
  "consumer_round joined io1 io2 mc =
     bindE (mcast_sendAndRecv incremental_mcast_socket put_incremental
              (mc_recvCallback incremental_mcast_socket put_incremental joined) io1 mc) (\<lambda>(r, mc).
     bindE (mcast_sendAndRecv snapshot_mcast_socket put_snapshot
              (mc_recvCallback snapshot_mcast_socket put_snapshot joined) io2 mc) (\<lambda>(r, mc). Inr mc))"


section \<open>Without losses\<close>

text \<open>Messages with the expected numbers go straight to the trade engine's queue.\<close>

lemma in_order_fold:
  assumes "\<not> in_recovery mc" and "lfq_ok (mc_incoming_md_updates mc)" and "length us \<le> lfq_room (mc_incoming_md_updates mc)"
  shows "\<exists>mc'. foldE (on_message joined False) (numbered_updates (next_exp_inc_seq_num mc) us) mc = Inr mc' \<and> \<not> in_recovery mc'
    \<and> lfq_ok (mc_incoming_md_updates mc') \<and> contents (mc_incoming_md_updates mc') = contents (mc_incoming_md_updates mc) @ us
    \<and> next_exp_inc_seq_num mc' = next_exp_inc_seq_num mc + of_nat (length us)
    \<and> lfq_room (mc_incoming_md_updates mc') = lfq_room (mc_incoming_md_updates mc) - length us
    \<and> incremental_mcast_socket mc' = incremental_mcast_socket mc \<and> snapshot_mcast_socket mc' = snapshot_mcast_socket mc"
  using assms
proof (induction us arbitrary: mc)
  case (Cons u us)
  obtain q where q: "lfq_write u (mc_incoming_md_updates mc) = Inr q" "lfq_ok q"
    "contents q = contents (mc_incoming_md_updates mc) @ [u]" "lfq_room q = lfq_room (mc_incoming_md_updates mc) - 1"
    using lfq.push_ok [OF Cons.prems(2), of u] Cons.prems(3) by auto
  define mc1 where "mc1 = mc\<lparr>in_recovery := False, next_exp_inc_seq_num := next_exp_inc_seq_num mc + 1, mc_incoming_md_updates := q\<rparr>"
  have one: "on_message joined False \<lparr>mdp_seq_num = next_exp_inc_seq_num mc, me_market_update = u\<rparr> mc = Inr mc1"
    using Cons.prems(1) q(1) by (simp add: on_message_def mc1_def Let_def)
  have "\<not> in_recovery mc1" "lfq_ok (mc_incoming_md_updates mc1)" "length us \<le> lfq_room (mc_incoming_md_updates mc1)"
    using q Cons.prems(3) by (simp_all add: mc1_def)
  from Cons.IH [OF this] one q(3,4) show ?case by (auto simp: mc1_def add.assoc)
qed simp

text \<open>A number that is not the expected one starts the recovery and is queued.\<close>

lemma gap_starts_recovery:
  assumes "\<not> in_recovery mc" and "mdp_seq_num m \<noteq> next_exp_inc_seq_num mc" and "0 \<le> join_fd joined" and "join_done joined"
  shows "on_message joined False m mc = Inr (mc\<lparr>in_recovery := True, snapshot_queued_msgs := [],
     incremental_queued_msgs := [(mdp_seq_num m, me_market_update m)],
     snapshot_mcast_socket := (snapshot_mcast_socket mc)\<lparr>socket_fd := join_fd joined\<rparr>\<rparr>)"
  using assms by (simp add: on_message_def startSnapshotSync_def queueMessage_def checkSnapshotSync_def Let_def)


section \<open>Recovery\<close>

lemma scan_snapshot_numbered:
  "scan_snapshot sn ev (map (\<lambda>m. (mdp_seq_num m, me_market_update m)) (numbered_updates sn us)) = (True, ev @ filter is_event us)"
  by (induction us arbitrary: sn ev) auto

text \<open>Keys that grow by one without wrapping.\<close>

lemma map_put_last: "\<forall>(k', x') \<in> set xs. k' < k \<Longrightarrow> map_put k x xs = xs @ [(k, x)]"
  by (induction xs rule: map_put.induct [of _ k x]) auto

definition entries :: "u64 \<Rightarrow> MEMarketUpdate list \<Rightarrow> QueuedMarketUpdates" where
  "entries sn us = map (\<lambda>m. (mdp_seq_num m, me_market_update m)) (numbered_updates sn us)"

lemma entries_simps [simp]:
  "entries sn [] = []" "entries sn (u # us) = (sn, u) # entries (sn + 1) us" "length (entries sn us) = length us"
  by (simp_all add: entries_def)

lemma entries_Nil_iff [simp]: "entries sn us = [] \<longleftrightarrow> us = []"
  by (cases us) simp_all

lemma on_message_recovering: "in_recovery mc \<Longrightarrow> on_message joined is_snapshot m mc = queueMessage is_snapshot m mc"
  by (cases mc) (simp add: on_message_def Let_def)

lemma entries_append: "entries sn (us @ ws) = entries sn us @ entries (sn + of_nat (length us)) ws"
  by (simp add: entries_def numbered_updates_append)

lemma entries_keys: "fst ` set (entries sn us) = (\<lambda>i. sn + of_nat i) ` {..<length us}"
proof -
  have "map fst (entries sn us) = map (\<lambda>i. sn + of_nat i) [0..<length us]"
    using numbered_updates_seq [of sn us] by (simp add: entries_def comp_def)
  then have "set (map fst (entries sn us)) = set (map (\<lambda>i. sn + of_nat i) [0..<length us])" by simp
  then show ?thesis by (simp add: atLeast0LessThan)
qed

lemma unat_plus_of_nat: "unat (sn :: u64) + n < 2 ^ 64 \<Longrightarrow> unat (sn + of_nat n) = unat sn + n"
  by (simp add: unat_word_ariths unat_of_nat)

lemma entries_less:
  assumes "unat sn + length us < 2 ^ 64"
  shows "\<forall>(k, x) \<in> set (entries sn us). k < sn + of_nat (length us)"
proof -
  have "k < sn + of_nat (length us)" if "k \<in> fst ` set (entries sn us)" for k
    using that assms unat_plus_of_nat [of sn] by (auto simp: entries_keys word_less_nat_alt)
  then show ?thesis by force
qed

lemma put_entries:
  assumes "unat sn + length us < 2 ^ 64"
  shows "\<not> map_has (sn + of_nat (length us)) (entries sn us)"
    and "map_put (sn + of_nat (length us)) u (entries sn us) = entries sn (us @ [u])"
proof -
  show "\<not> map_has (sn + of_nat (length us)) (entries sn us)" using entries_less [OF assms] by (force simp: map_has_def)
  show "map_put (sn + of_nat (length us)) u (entries sn us) = entries sn (us @ [u])"
    using map_put_last [OF entries_less [OF assms]] by (simp add: entries_append)
qed

lemma last_entries: "us \<noteq> [] \<Longrightarrow> snd (last (entries sn us)) = last us"
  by (induction us arbitrary: sn) auto

lemma scan_snapshot_entries: "scan_snapshot sn ev (entries sn us) = (True, ev @ filter is_event us)"
  by (simp add: entries_def scan_snapshot_numbered)

text \<open>While the last message is not SNAPSHOT\_END, the messages are only queued.\<close>

lemma check_waits:
  assumes "snapshot_queued_msgs mc = entries 0 us" and "us \<noteq> []" and "upd_type (hd us) = Upd_SNAPSHOT_START"
    and "upd_type (last us) \<noteq> Upd_SNAPSHOT_END"
  shows "checkSnapshotSync mc = Inr mc"
proof -
  have "snd (hd (entries 0 us)) = hd us" using assms(2) by (cases us) auto
  moreover have "entries 0 us \<noteq> []" using assms(2) by (cases us) auto
  ultimately show ?thesis
    using assms scan_snapshot_entries [of 0 "[]" us] last_entries [OF assms(2), of 0] by (simp add: checkSnapshotSync_def)
qed

lemma scan_incremental_old:
  assumes "unat sn + length ws < 2 ^ 64" and "\<forall>(k, x) \<in> set xs. k < ex"
  shows "scan_incremental ex ev (xs @ ys) = scan_incremental ex ev ys"
  using assms(2) by (induction xs) auto

lemma scan_incremental_new:
  "unat sn + length us < 2 ^ 64 \<Longrightarrow>
     scan_incremental sn ev (entries sn us) = (True, sn + of_nat (length us), ev @ filter is_event us)"
proof (induction us arbitrary: sn ev)
  case (Cons u us)
  have "unat (sn + 1) = Suc (unat sn)" using unat_plus_of_nat [of sn 1] Cons.prems by simp
  then have "unat (sn + 1) + length us < 2 ^ 64" using Cons.prems by simp
  from Cons.IH [OF this] show ?case by (simp add: add.assoc)
qed simp

lemma scan_incremental_entries:
  assumes "unat sn + length (us @ ws) < 2 ^ 64"
  shows "scan_incremental (sn + of_nat (length us)) ev (entries sn (us @ ws))
    = (True, sn + of_nat (length (us @ ws)), ev @ filter is_event ws)"
proof -
  have b: "unat sn + length us < 2 ^ 64" using assms by simp
  have "unat (sn + of_nat (length us)) + length ws < 2 ^ 64" using unat_plus_of_nat [OF b] assms by simp
  from scan_incremental_new [OF this, of ev] show ?thesis
    using scan_incremental_old [OF b entries_less [OF b]] by (simp add: entries_append add.assoc)
qed

lemma is_event_snapshot: "filter is_event (snapshot_events v) = snapshot_events v" if "view_ok v"
proof -
  have "is_event u" if "u \<in> set (snapshot_events v)" for u
    using that \<open>view_ok v\<close>
    by (auto simp: snapshot_events_def orders_of_def clear_update_def is_event_def List.map_filter_def view_ok_def split: if_splits)
  then show ?thesis by (simp add: filter_id_conv)
qed

section \<open>The callback\<close>

definition updates_arrived :: "McastSocket \<Rightarrow> MDPMarketUpdate list" where
  "updates_arrived s = map (MDPMarketUpdate_at 0) (frames 42 (pending_in s))"

lemma mc_recvCallback_loop:
  "frame_loop 42 (next_rcv_valid_index s) (\<lambda>i. on_message joined b (MDPMarketUpdate_at i (pending_in s))) 0 mc
     = bindE (foldE (on_message joined b) (updates_arrived s) mc) (\<lambda>st.
         Inr (next_rcv_valid_index s - length (leftover 42 (pending_in s)), st))"
  using frame_loop_frames [of 42 "\<lambda>i. on_message joined b (MDPMarketUpdate_at i (pending_in s))"
      "\<lambda>bs. on_message joined b (MDPMarketUpdate_at 0 bs)" "pending_in s" 0 mc] at_frame(3) [of _ "pending_in s"]
  by (simp add: updates_arrived_def foldE_map)

lemma discard_fd: "discard i s = Inr s' \<Longrightarrow> socket_fd s' = socket_fd s"
  by (auto simp: discard_def bindE_eq_Inr)

lemma mc_recvCallback_ok:
  assumes b: "b \<longleftrightarrow> socket_fd (get mc) = socket_fd (snapshot_mcast_socket mc)" "\<not> (b \<and> \<not> in_recovery mc)"
    and n: "42 \<le> next_rcv_valid_index (get mc)"
    and run: "foldE (on_message joined b) (updates_arrived (get mc)) mc = Inr mc1"
    and same: "pending_in (get mc1) = pending_in (get mc)"
  shows "\<exists>s. mc_recvCallback get put joined mc = Inr (put s mc1) \<and> pending_in s = leftover 42 (pending_in (get mc))
    \<and> socket_fd s = socket_fd (get mc1)"
proof -
  have n1: "next_rcv_valid_index (get mc1) = next_rcv_valid_index (get mc)" using arg_cong [OF same, of length] by simp
  obtain s where "discard (next_rcv_valid_index (get mc) - length (leftover 42 (pending_in (get mc)))) (get mc1) = Inr s"
    "pending_in s = leftover 42 (pending_in (get mc))"
    using discard_ok [of 42 "get mc1"] n n1 same by auto
  then show ?thesis using b n run discard_fd [of _ "get mc1" s]
    by (intro exI [of _ s]) (auto simp: mc_recvCallback_def Let_def mc_recvCallback_loop)
qed

lemma wf_update_frames:
  assumes "\<forall>m \<in> set ms. wf_update (me_market_update m)"
  shows "map (MDPMarketUpdate_at 0) (frames 42 (concat (map MDPMarketUpdate_bytes ms))) = ms"
    and "leftover 42 (concat (map MDPMarketUpdate_bytes ms)) = []"
    and "length (concat (map MDPMarketUpdate_bytes ms)) = 42 * length ms"
proof -
  note fc = frames_concat [of 42 "map MDPMarketUpdate_bytes ms" "[]"]
  have "frames 42 (concat (map MDPMarketUpdate_bytes ms)) = map MDPMarketUpdate_bytes ms"
    using fc by (simp add: frames_short)
  moreover have "MDPMarketUpdate_at 0 (MDPMarketUpdate_bytes m) = m" if "m \<in> set ms" for m
    using assms update_round_trip [of m "[]"] that by simp
  ultimately show "map (MDPMarketUpdate_at 0) (frames 42 (concat (map MDPMarketUpdate_bytes ms))) = ms" by (simp add: map_idI)
  show "leftover 42 (concat (map MDPMarketUpdate_bytes ms)) = []" using fc by (simp add: leftover_def)
  show "length (concat (map MDPMarketUpdate_bytes ms)) = 42 * length ms" by (induction ms) simp_all
qed

lemma wf_numbered: "\<forall>u \<in> set us. wf_update u \<Longrightarrow> \<forall>m \<in> set (numbered_updates sn us). wf_update (me_market_update m)"
  using numbered_updates_simps(1) [of sn us] by (metis imageI list.set_map)

lemma wf_snapshot:
  assumes "\<forall>t i x. v t i = Some x \<longrightarrow> wf_update x"
  shows "\<forall>m \<in> set (snapshot_messages l v). wf_update (me_market_update m)"
proof -
  have "wf_update (clear_update t)" "wf_update (start_update l)" "wf_update (end_update l)" for t
    by (simp_all add: clear_update_def start_update_def end_update_def wf_update_def MEMarketUpdate_default_def
        price_fits_def Price_INVALID_def)
  then have "\<forall>u \<in> set (start_update l # snapshot_events v @ [end_update l]). wf_update u"
    using assms by (auto simp: snapshot_events_def orders_of_def List.map_filter_def)
  then show ?thesis unfolding snapshot_messages_def by (rule wf_numbered)
qed

end
