(* ===== verification/Market_Data_Recovery.thy ===== *)
theory Market_Data_Recovery
  imports Market_Data_Consumer
begin

text \<open>
  The recovery of the market data consumer over the rounds of its thread: from the gap that starts it, through
  reads of both streams in any cut, to the end of the snapshot and the updates behind it.
\<close>

section \<open>Reading\<close>

text \<open>One of the two reads of a round.\<close>

definition stream_of :: "bool \<Rightarrow> MarketDataConsumer \<Rightarrow> McastSocket" where
  "stream_of b = (if b then snapshot_mcast_socket else incremental_mcast_socket)"

definition put_stream :: "bool \<Rightarrow> McastSocket \<Rightarrow> MarketDataConsumer \<Rightarrow> MarketDataConsumer" where
  "put_stream b = (if b then put_snapshot else put_incremental)"

definition mc_read :: "join_result \<Rightarrow> bool \<times> kernel_io \<Rightarrow> MarketDataConsumer \<Rightarrow> MarketDataConsumer res" where
  "mc_read joined = (\<lambda>(b, io) mc.
     bindE (mcast_sendAndRecv (stream_of b) (put_stream b) (mc_recvCallback (stream_of b) (put_stream b) joined) io mc)
       (\<lambda>(r, mc). Inr mc))"

abbreviation consumer_rounds :: "join_result \<Rightarrow> (kernel_io \<times> kernel_io) list \<Rightarrow> MarketDataConsumer \<Rightarrow> MarketDataConsumer res" where
  "consumer_rounds joined \<equiv> foldE (\<lambda>(io1, io2). consumer_round joined io1 io2)"

definition reads_of :: "(kernel_io \<times> kernel_io) list \<Rightarrow> (bool \<times> kernel_io) list" where
  "reads_of ios = concat (map (\<lambda>(io1, io2). [(False, io1), (True, io2)]) ios)"

lemma reads_of_simps [simp]:
  "reads_of [] = []" "reads_of ((io1, io2) # ios) = (False, io1) # (True, io2) # reads_of ios" "reads_of (xs @ ys) = reads_of xs @ reads_of ys"
  by (simp_all add: reads_of_def)

lemma rounds_reads: "consumer_rounds joined ios mc = foldE (mc_read joined) (reads_of ios) mc"
proof (induction ios arbitrary: mc)
  case (Cons io ios)
  obtain io1 io2 where io: "io = (io1, io2)" by fastforce
  have "consumer_round joined io1 io2 mc = bindE (mc_read joined (False, io1) mc) (mc_read joined (True, io2))"
    by (simp add: consumer_round_def mc_read_def stream_of_def put_stream_def bindE_assoc split_def)
  then show ?case using Cons.IH by (simp add: io bindE_assoc cong: bindE_cong)
qed simp

text \<open>The messages of a datagram.\<close>

definition messages :: "u8 list \<Rightarrow> MDPMarketUpdate list" where
  "messages d = map (MDPMarketUpdate_at 0) (frames 42 d)"

definition datagram :: "u8 list \<Rightarrow> bool" where
  "datagram d \<longleftrightarrow> 42 dvd length d \<and> length d \<le> McastBufferSize"

lemma leftover_datagram: "42 dvd length d \<Longrightarrow> leftover 42 d = []"
  by (auto simp: length_leftover simp flip: length_0_conv)

lemma messages_append: "42 dvd length d \<Longrightarrow> messages (d @ e) = messages d @ messages e"
  using frames_append(1) [of 42 d e] leftover_datagram [of d] by (simp add: messages_def)

lemma messages_Nil [simp]: "messages [] = []"
  by (simp add: messages_def frames_short)

lemma messages_concat: "\<forall>d \<in> set ds. 42 dvd length d \<Longrightarrow> messages (concat ds) = concat (map messages ds)"
  by (induction ds) (simp_all add: messages_append)

lemma length_messages: "42 dvd length d \<Longrightarrow> 42 * length (messages d) = length d"
proof (induction "length d" arbitrary: d rule: less_induct)
  case less
  show ?case
  proof (cases "d = []")
    case False
    obtain k where "length d = 42 * k" using less.prems by (rule dvdE)
    then have n: "42 \<le> length d" using False by (cases k) auto
    have "42 dvd length (drop 42 d)" using less.prems n by (simp add: dvd_diff_nat)
    from less.hyps [OF _ this] n have "42 * length (messages (drop 42 d)) = length (drop 42 d)" by simp
    then show ?thesis using n by (simp add: messages_def frames.simps [of 42 d])
  qed simp
qed

text \<open>The messages change nothing of the sockets but the descriptor of the snapshot stream.\<close>

definition same_sockets :: "MarketDataConsumer \<Rightarrow> MarketDataConsumer \<Rightarrow> bool" where
  "same_sockets mc mc' \<longleftrightarrow> incremental_mcast_socket mc' = incremental_mcast_socket mc
     \<and> (snapshot_mcast_socket mc')\<lparr>socket_fd := 0\<rparr> = (snapshot_mcast_socket mc)\<lparr>socket_fd := 0\<rparr>"

lemma same_sockets_refl [simp]: "same_sockets mc mc"
  by (simp add: same_sockets_def)

lemma same_sockets_trans: "same_sockets a b \<Longrightarrow> same_sockets b c \<Longrightarrow> same_sockets a c"
  by (simp add: same_sockets_def)

lemma same_pending:
  assumes "same_sockets mc mc'"
  shows "pending_in (stream_of b mc') = pending_in (stream_of b mc)"
proof -
  have e: "(snapshot_mcast_socket mc')\<lparr>socket_fd := 0\<rparr> = (snapshot_mcast_socket mc)\<lparr>socket_fd := 0\<rparr>"
    using assms by (simp add: same_sockets_def)
  have "next_rcv_valid_index (snapshot_mcast_socket mc') = next_rcv_valid_index (snapshot_mcast_socket mc)"
    "inbound_data (snapshot_mcast_socket mc') = inbound_data (snapshot_mcast_socket mc)"
    using arg_cong [OF e, of next_rcv_valid_index] arg_cong [OF e, of inbound_data] by simp_all
  then show ?thesis using assms by (simp add: same_sockets_def stream_of_def pending_in_def)
qed

lemma check_sockets: "checkSnapshotSync mc = Inr mc' \<Longrightarrow> same_sockets mc mc'"
  unfolding checkSnapshotSync_def Let_def case_prod_beta
  by (simp add: bindE_eq_Inr same_sockets_def mcast_leave_def split: if_split_asm) (auto simp: mcast_leave_def)

lemma queue_sockets: "queueMessage b m mc = Inr mc' \<Longrightarrow> same_sockets mc mc'"
  using check_sockets [of _ mc'] unfolding queueMessage_def by (cases b) (fastforce simp: same_sockets_def Let_def)+

lemma message_sockets:
  assumes "on_message joined b m mc = Inr mc'"
  shows "same_sockets mc mc'"
proof (cases "in_recovery mc \<or> mdp_seq_num m \<noteq> next_exp_inc_seq_num mc")
  case False
  then show ?thesis using assms by (auto simp: on_message_def Let_def bindE_eq_Inr same_sockets_def split: if_split_asm)
next
  case True
  then obtain mc1 where mc1: "queueMessage b m mc1 = Inr mc'" "same_sockets mc mc1"
    using assms by (auto simp: on_message_def startSnapshotSync_def Let_def bindE_eq_Inr same_sockets_def split: if_split_asm)
  then show ?thesis using queue_sockets same_sockets_trans by blast
qed

lemma messages_sockets: "foldE (on_message joined b) ms mc = Inr mc' \<Longrightarrow> same_sockets mc mc'"
proof (induction ms arbitrary: mc)
  case (Cons m ms)
  then obtain mc1 where "on_message joined b m mc = Inr mc1" "foldE (on_message joined b) ms mc1 = Inr mc'"
    by (auto simp: bindE_eq_Inr)
  with Cons.IH message_sockets [OF this(1)] show ?case by (blast intro: same_sockets_trans)
qed simp

text \<open>Between the reads the buffers are empty. \<open>sees P\<close>: what \<open>P\<close> says of the consumer does not depend on the buffers.\<close>

definition idle_streams :: "MarketDataConsumer \<Rightarrow> bool" where
  "idle_streams mc \<longleftrightarrow> pending_in (incremental_mcast_socket mc) = [] \<and> pending_in (snapshot_mcast_socket mc) = []"

definition apart :: "MarketDataConsumer \<Rightarrow> bool" where
  "apart mc \<longleftrightarrow> socket_fd (incremental_mcast_socket mc) \<noteq> socket_fd (snapshot_mcast_socket mc)"

definition sees :: "(MarketDataConsumer \<Rightarrow> bool) \<Rightarrow> bool" where
  "sees P \<longleftrightarrow> (\<forall>b s mc. socket_fd s = socket_fd (stream_of b mc) \<longrightarrow> P (put_stream b s mc) = P mc)"

lemma sees_put: "sees P \<Longrightarrow> socket_fd s = socket_fd (stream_of b mc) \<Longrightarrow> P (put_stream b s mc) = P mc"
  by (simp add: sees_def)

lemma stream_put [simp]:
  "stream_of b (put_stream b s mc) = s" "put_stream b s (put_stream b s' mc) = put_stream b s mc"
  "in_recovery (put_stream b s mc) = in_recovery mc"
  by (simp_all add: stream_of_def put_stream_def put_snapshot_def put_incremental_def)

lemma flush_fd [simp]: "socket_fd (flush_out n s) = socket_fd s"
  by (simp add: flush_out_def Let_def)

lemma idle_put: "idle_streams mc \<Longrightarrow> pending_in s = [] \<Longrightarrow> idle_streams (put_stream b s mc)"
  by (simp add: idle_streams_def put_stream_def put_snapshot_def put_incremental_def)

lemma apart_sees [simp]: "sees apart"
  by (simp add: sees_def apart_def stream_of_def put_stream_def put_snapshot_def put_incremental_def)

lemma read_ok:
  assumes P: "sees P" "sees Q"
    and run: "\<And>mc. P mc \<Longrightarrow> \<exists>mc1. foldE (on_message joined b) (messages (io_avail io)) mc = Inr mc1 \<and> Q mc1"
    and st: "P mc" "idle_streams mc" "apart mc" "b \<Longrightarrow> io_avail io \<noteq> [] \<Longrightarrow> in_recovery mc" and d: "datagram (io_avail io)"
  shows "\<exists>mc'. mc_read joined (b, io) mc = Inr mc' \<and> Q mc' \<and> idle_streams mc'"
proof -
  let ?d = "io_avail io"
  obtain n s where rd: "read_avail McastBufferSize ?d (stream_of b mc) = (n, s)" by fastforce
  have p0: "pending_in (stream_of b mc) = []" using st(2) by (simp add: idle_streams_def stream_of_def)
  then have z: "next_rcv_valid_index (stream_of b mc) = 0" using length_pending(2) [of "stream_of b mc"] by simp
  have "pending_in s = ?d"
    using rd d read_avail_pending(1) [of McastBufferSize ?d "stream_of b mc"] p0 z by (simp add: datagram_def)
  moreover have "n = length ?d" "socket_fd s = socket_fd (stream_of b mc)"
    using rd d z by (auto simp: read_avail_def Let_def datagram_def)
  ultimately have s: "n = length ?d" "pending_in s = ?d" "socket_fd s = socket_fd (stream_of b mc)" by simp_all
  let ?mc = "put_stream b s mc"
  have Pm: "P ?mc" using sees_put [OF P(1) s(3)] st(1) by simp
  show ?thesis
  proof (cases "?d = []")
    case True
    have "Q mc" using run [OF st(1)] True by simp
    then have "Q (put_stream b (flush_out (io_taken io) s) mc)" using sees_put [OF P(2)] s(3) by simp
    moreover have "idle_streams (put_stream b (flush_out (io_taken io) s) mc)"
      using idle_put [OF st(2)] s(2) True by (simp add: flush_out_pending)
    ultimately show ?thesis using True rd s(1) by (simp add: mc_read_def mcast_sendAndRecv_def)
  next
    case False
    obtain mc1 where mc1: "foldE (on_message joined b) (messages ?d) ?mc = Inr mc1" "Q mc1" using run [OF Pm] by blast
    have same: "same_sockets ?mc mc1" by (rule messages_sockets [OF mc1(1)])
    have fd: "pending_in (stream_of b mc1) = pending_in s" using same_pending [OF same, of b] by simp
    have "42 \<le> next_rcv_valid_index s"
    proof -
      obtain k where "length ?d = 42 * k" using d unfolding datagram_def by (blast elim: dvdE)
      moreover have "length ?d = next_rcv_valid_index s" using length_pending(2) [of s] s(2) by simp
      ultimately show ?thesis using False by (cases k) auto
    qed
    moreover have "b \<longleftrightarrow> socket_fd (stream_of b ?mc) = socket_fd (snapshot_mcast_socket ?mc)"
      using st(3) s(3) by (cases b) (simp_all add: apart_def stream_of_def put_stream_def put_snapshot_def put_incremental_def)
    ultimately obtain s' where s': "mc_recvCallback (stream_of b) (put_stream b) joined ?mc = Inr (put_stream b s' mc1)"
      "pending_in s' = leftover 42 ?d" "socket_fd s' = socket_fd (stream_of b mc1)"
      using mc_recvCallback_ok [of b "stream_of b" ?mc joined mc1 "put_stream b"] st(4) False mc1(1) fd s(2)
      by (auto simp: updates_arrived_def messages_def)
    let ?mc' = "put_stream b (flush_out (io_taken io) s') mc1"
    have "Q ?mc'" using sees_put [OF P(2)] s'(3) mc1(2) by simp
    moreover have "idle_streams ?mc'"
    proof -
      have "pending_in (stream_of (\<not> b) mc1) = pending_in (stream_of (\<not> b) mc)"
        using same_pending [OF same, of "\<not> b"] by (simp add: stream_of_def put_stream_def put_snapshot_def put_incremental_def split: if_splits)
      then show ?thesis using st(2) s'(2) d
        by (cases b) (simp_all add: idle_streams_def stream_of_def put_stream_def put_snapshot_def put_incremental_def flush_out_pending
            leftover_datagram datagram_def)
    qed
    ultimately show ?thesis using False rd s(1) s'(1) by (simp add: mc_read_def mcast_sendAndRecv_def)
  qed
qed

section \<open>The messages of a recovery\<close>

text \<open>The consumer has queued the incremental updates \<open>xs\<close> from number \<open>sn\<close> on and the first part \<open>ys\<close> of a
  snapshot, which has not ended yet.\<close>

definition recovering :: "u64 \<Rightarrow> MEMarketUpdate list \<Rightarrow> MEMarketUpdate list \<Rightarrow> MEMarketUpdateLFQueue \<Rightarrow> MarketDataConsumer \<Rightarrow> bool" where
  "recovering sn xs ys q mc \<longleftrightarrow> in_recovery mc \<and> incremental_queued_msgs mc = entries sn xs
     \<and> snapshot_queued_msgs mc = entries 0 ys \<and> mc_incoming_md_updates mc = q
     \<and> apart mc \<and> 0 \<le> socket_fd (incremental_mcast_socket mc)"

text \<open>The consumer follows the incremental stream: it expects number \<open>n\<close>, its queue holds \<open>cs\<close> and has room for \<open>r\<close> more.\<close>

definition following :: "u64 \<Rightarrow> MEMarketUpdate list \<Rightarrow> nat \<Rightarrow> MarketDataConsumer \<Rightarrow> bool" where
  "following n cs r mc \<longleftrightarrow> \<not> in_recovery mc \<and> next_exp_inc_seq_num mc = n \<and> lfq_ok (mc_incoming_md_updates mc)
     \<and> contents (mc_incoming_md_updates mc) = cs \<and> r \<le> lfq_room (mc_incoming_md_updates mc)
     \<and> apart mc \<and> 0 \<le> socket_fd (incremental_mcast_socket mc)"

lemma phases_see [simp]: "sees (recovering sn xs ys q)" "sees (following n cs r)"
  by (auto simp: sees_def recovering_def following_def apart_def stream_of_def put_stream_def put_snapshot_def put_incremental_def)

definition unfinished :: "MEMarketUpdate list \<Rightarrow> bool" where
  "unfinished ys \<longleftrightarrow> (ys \<noteq> [] \<longrightarrow> upd_type (hd ys) = Upd_SNAPSHOT_START) \<and> (\<forall>u \<in> set ys. upd_type u \<noteq> Upd_SNAPSHOT_END)"

lemma unfinished_append: "unfinished (ys @ zs) \<Longrightarrow> unfinished ys"
  by (auto simp: unfinished_def hd_append)

lemma check_unfinished:
  assumes "snapshot_queued_msgs mc = entries 0 ys" and "unfinished ys"
  shows "checkSnapshotSync mc = Inr mc"
  using assms check_waits [OF assms(1)] by (cases "ys = []") (auto simp: unfinished_def checkSnapshotSync_def)

lemma queue_incremental:
  assumes "recovering sn xs ys q mc" and "unfinished ys" and "unat sn + length (xs @ zs) < 2 ^ 64"
  shows "\<exists>mc'. foldE (on_message joined False) (numbered_updates (sn + of_nat (length xs)) zs) mc = Inr mc' \<and> recovering sn (xs @ zs) ys q mc'"
  using assms
proof (induction zs arbitrary: xs mc)
  case (Cons z zs)
  have b: "unat sn + length xs < 2 ^ 64" using Cons.prems(3) by simp
  let ?mc = "mc\<lparr>incremental_queued_msgs := entries sn (xs @ [z])\<rparr>"
  have "checkSnapshotSync ?mc = Inr ?mc" using Cons.prems(1,2) by (intro check_unfinished) (simp_all add: recovering_def)
  then have "on_message joined False \<lparr>mdp_seq_num = sn + of_nat (length xs), me_market_update = z\<rparr> mc = Inr ?mc"
    using Cons.prems(1) put_entries(2) [OF b, of z] by (simp add: recovering_def on_message_recovering queueMessage_def)
  moreover have "recovering sn (xs @ [z]) ys q ?mc" using Cons.prems(1) by (simp add: recovering_def apart_def)
  ultimately show ?case using Cons.IH [of "xs @ [z]" ?mc] Cons.prems(2,3) by (simp add: ac_simps)
qed simp

lemma queue_snapshot:
  assumes "recovering sn xs ys q mc" and "unfinished (ys @ zs)" and "length (ys @ zs) < 2 ^ 64"
  shows "\<exists>mc'. foldE (on_message joined True) (numbered_updates (of_nat (length ys)) zs) mc = Inr mc' \<and> recovering sn xs (ys @ zs) q mc'"
  using assms
proof (induction zs arbitrary: ys mc)
  case (Cons z zs)
  have b: "unat (0 :: u64) + length ys < 2 ^ 64" using Cons.prems(3) by simp
  note pe = put_entries(1) [OF b] put_entries(2) [OF b, of z]
  let ?mc = "mc\<lparr>snapshot_queued_msgs := entries 0 (ys @ [z])\<rparr>"
  have "unfinished (ys @ [z])" using unfinished_append [of "ys @ [z]" zs] Cons.prems(2) by simp
  then have "checkSnapshotSync ?mc = Inr ?mc" by (intro check_unfinished) simp_all
  then have "on_message joined True \<lparr>mdp_seq_num = of_nat (length ys), me_market_update = z\<rparr> mc = Inr ?mc"
    using Cons.prems(1) pe by (simp add: recovering_def on_message_recovering queueMessage_def)
  moreover have "recovering sn xs (ys @ [z]) q ?mc" using Cons.prems(1) by (simp add: recovering_def apart_def)
  ultimately show ?case using Cons.IH [of "ys @ [z]" ?mc] Cons.prems(2,3) by (simp add: add.commute)
qed simp

text \<open>The end of the snapshot ends the recovery.\<close>

lemma snapshot_end:
  assumes rec: "recovering sn (us @ ws) (start_update l # snapshot_events v) q mc"
    and inc: "unat sn + length (us @ ws) < 2 ^ 64" "l + 1 = sn + of_nat (length us)" "\<forall>u \<in> set ws. is_event u"
    and v: "view_ok v" and len: "length (snapshot_events v) < 2 ^ 63"
    and q: "lfq_ok q" "length (snapshot_events v) + length ws + r \<le> lfq_room q"
  shows "\<exists>mc'. on_message joined True \<lparr>mdp_seq_num = of_nat (length (start_update l # snapshot_events v)), me_market_update = end_update l\<rparr> mc
      = Inr mc' \<and> following (l + 1 + of_nat (length ws)) (contents q @ snapshot_events v @ ws) r mc'"
proof -
  let ?ev = "snapshot_events v" and ?s = "start_update l" and ?e = "end_update l"
  have ev: "filter is_event ?ev = ?ev" by (rule is_event_snapshot [OF v])
  have ws: "filter is_event ws = ws" using inc(3) by (simp add: filter_id_conv)
  have b: "unat (0::u64) + length (?s # ?ev) < 2 ^ 64" using len by simp
  obtain q' where q': "foldE lfq_write (?ev @ ws) q = Inr q'" "lfq_ok q'" "contents q' = contents q @ ?ev @ ws"
    "lfq_room q' = lfq_room q - length (?ev @ ws)"
    using lfq.push_all [OF q(1), of "?ev @ ws"] q(2) by auto
  define mc1 where "mc1 = mc\<lparr>snapshot_queued_msgs := entries 0 ((?s # ?ev) @ [?e])\<rparr>"
  define mc' where "mc' = mc\<lparr>next_exp_inc_seq_num := sn + of_nat (length (us @ ws)), mc_incoming_md_updates := q',
    snapshot_queued_msgs := [], incremental_queued_msgs := [], in_recovery := False,
    snapshot_mcast_socket := mcast_leave (snapshot_mcast_socket mc)\<rparr>"
  have "checkSnapshotSync mc1 = Inr mc'"
  proof -
    have "scan_snapshot 0 [] (snapshot_queued_msgs mc1) = (True, ?ev)"
      using scan_snapshot_entries [of 0 "[]" "(?s # ?ev) @ [?e]"] ev
      by (simp add: mc1_def is_event_def start_update_def end_update_def del: entries_simps)
    moreover have "snd (last (snapshot_queued_msgs mc1)) = ?e"
      using last_entries [of "(?s # ?ev) @ [?e]" 0] by (simp add: mc1_def del: entries_simps)
    moreover have "hd (snapshot_queued_msgs mc1) = (0, ?s)" "snapshot_queued_msgs mc1 \<noteq> []" by (simp_all add: mc1_def)
    moreover have "scan_incremental (l + 1) ?ev (incremental_queued_msgs mc1) = (True, sn + of_nat (length (us @ ws)), ?ev @ ws)"
      using scan_incremental_entries [OF inc(1), of ?ev] ws rec by (simp add: mc1_def inc(2) recovering_def)
    ultimately show ?thesis using q'(1) rec
      by (simp add: checkSnapshotSync_def start_update_def end_update_def) (simp add: mc1_def mc'_def recovering_def)
  qed
  then have "on_message joined True \<lparr>mdp_seq_num = of_nat (length (?s # ?ev)), me_market_update = ?e\<rparr> mc = Inr mc'"
    using rec put_entries(1) [OF b] put_entries(2) [OF b, of ?e]
    by (simp add: recovering_def on_message_recovering queueMessage_def mc1_def del: of_nat_Suc entries_simps)
  moreover have "sn + of_nat (length (us @ ws)) = l + 1 + of_nat (length ws)" using inc(2) by (simp add: add.assoc)
  ultimately show ?thesis using q'(2-4) q(2) rec
    by (intro exI [of _ mc']) (auto simp: mc'_def following_def recovering_def apart_def mcast_leave_def)
qed

text \<open>The first message behind a gap starts the recovery, the others of its datagram are queued.\<close>

definition gap_ahead :: "u64 \<Rightarrow> join_result \<Rightarrow> MEMarketUpdateLFQueue \<Rightarrow> MarketDataConsumer \<Rightarrow> bool" where
  "gap_ahead sn joined q mc \<longleftrightarrow> \<not> in_recovery mc \<and> next_exp_inc_seq_num mc \<noteq> sn \<and> mc_incoming_md_updates mc = q
     \<and> apart mc \<and> 0 \<le> socket_fd (incremental_mcast_socket mc) \<and> socket_fd (incremental_mcast_socket mc) \<noteq> join_fd joined"

lemma gap_sees [simp]: "sees (gap_ahead sn joined q)"
  by (auto simp: sees_def gap_ahead_def apart_def stream_of_def put_stream_def put_snapshot_def put_incremental_def)

lemma gap_starts:
  assumes "gap_ahead sn joined q mc" and "0 \<le> join_fd joined" "join_done joined" and "unat sn + length (z # zs) < 2 ^ 64"
  shows "\<exists>mc'. foldE (on_message joined False) (numbered_updates sn (z # zs)) mc = Inr mc' \<and> recovering sn (z # zs) [] q mc'"
proof -
  let ?m = "\<lparr>mdp_seq_num = sn, me_market_update = z\<rparr>"
  obtain mc1 where mc1: "on_message joined False ?m mc = Inr mc1" "recovering sn [z] [] q mc1"
    using gap_starts_recovery [of mc ?m joined] assms(1-3) by (auto simp: gap_ahead_def recovering_def apart_def)
  have "unfinished []" by (simp add: unfinished_def)
  from queue_incremental [OF mc1(2) this, of zs joined] assms(4) mc1(1) show ?thesis by simp
qed

lemma follow_updates:
  assumes "following n cs (length zs + r) mc"
  shows "\<exists>mc'. foldE (on_message joined False) (numbered_updates n zs) mc = Inr mc' \<and> following (n + of_nat (length zs)) (cs @ zs) r mc'"
  using in_order_fold [of mc zs joined] assms by (fastforce simp: following_def apart_def)

section \<open>The reads of a recovery\<close>

text \<open>The messages that reads hand over on one of the streams.\<close>

definition got :: "bool \<Rightarrow> (bool \<times> kernel_io) list \<Rightarrow> MDPMarketUpdate list" where
  "got b rs = concat (map (\<lambda>(c, io). if c = b then messages (io_avail io) else []) rs)"

lemma got_simps [simp]:
  "got b [] = []" "got b ((c, io) # rs) = (if c = b then messages (io_avail io) else []) @ got b rs" "got b (rs @ rs') = got b rs @ got b rs'"
  by (simp_all add: got_def)

abbreviation datagrams :: "(bool \<times> kernel_io) list \<Rightarrow> bool" where
  "datagrams rs \<equiv> \<forall>(c, io) \<in> set rs. datagram (io_avail io)"

lemma split_numbered:
  assumes "ms @ rest = numbered_updates n zs"
  obtains us ws where "zs = us @ ws" "ms = numbered_updates n us" "rest = numbered_updates (n + of_nat (length us)) ws"
    "length us = length ms"
proof -
  let ?k = "length ms"
  have le: "?k \<le> length zs" using arg_cong [OF assms, of length] by simp
  have "ms @ rest = numbered_updates n (take ?k zs) @ numbered_updates (n + of_nat (length (take ?k zs))) (drop ?k zs)"
    using numbered_updates_append [of n "take ?k zs" "drop ?k zs"] assms by simp
  then have "ms = numbered_updates n (take ?k zs) \<and> rest = numbered_updates (n + of_nat (length (take ?k zs))) (drop ?k zs)"
    using le by (intro append_eq_append_conv [THEN iffD1]) simp_all
  then show thesis using le by (intro that [of "take ?k zs" "drop ?k zs"]) auto
qed

lemma numbered_Nil [simp]: "numbered_updates n us = [] \<longleftrightarrow> us = []" "[] = numbered_updates n us \<longleftrightarrow> us = []"
  by (cases us; simp)+

lemma recovering_apart: "recovering sn xs ys q mc \<Longrightarrow> apart mc" "recovering sn xs ys q mc \<Longrightarrow> in_recovery mc"
  "following n cs r mc \<Longrightarrow> apart mc" "gap_ahead sn joined q mc \<Longrightarrow> apart mc"
  by (simp_all add: recovering_def following_def gap_ahead_def)

text \<open>While the snapshot has not ended, the reads of both streams queue their messages, in any order.\<close>

lemma recovering_reads:
  assumes "recovering sn xs ys q mc" and "idle_streams mc" and "datagrams rs"
    and "got False rs = numbered_updates (sn + of_nat (length xs)) xs'" and "got True rs = numbered_updates (of_nat (length ys)) ys'"
    and "unfinished (ys @ ys')" and "unat sn + length (xs @ xs') < 2 ^ 64" and "length (ys @ ys') < 2 ^ 64"
  shows "\<exists>mc'. foldE (mc_read joined) rs mc = Inr mc' \<and> recovering sn (xs @ xs') (ys @ ys') q mc' \<and> idle_streams mc'"
  using assms
proof (induction rs arbitrary: xs xs' ys ys' mc)
  case (Cons r rs)
  obtain c io where r: "r = (c, io)" by fastforce
  have d: "datagram (io_avail io)" "datagrams rs" using Cons.prems(3) by (auto simp: r)
  note rec = Cons.prems(1)
  show ?case
  proof (cases c)
    case False
    have g: "messages (io_avail io) @ got False rs = numbered_updates (sn + of_nat (length xs)) xs'" "got True rs = numbered_updates (of_nat (length ys)) ys'"
      using Cons.prems(4,5) r False by simp_all
    obtain us ws where s: "xs' = us @ ws" "messages (io_avail io) = numbered_updates (sn + of_nat (length xs)) us"
      "got False rs = numbered_updates (sn + of_nat (length xs) + of_nat (length us)) ws" "length us = length (messages (io_avail io))"
      by (rule split_numbered [OF g(1)])
    have g3: "got False rs = numbered_updates (sn + of_nat (length (xs @ us))) ws" by (simp add: s(3) add.assoc)
    have "unfinished ys" using Cons.prems(6) by (rule unfinished_append)
    then have run: "\<exists>mc1. foldE (on_message joined False) (messages (io_avail io)) m = Inr mc1 \<and> recovering sn (xs @ us) ys q mc1"
      if "recovering sn xs ys q m" for m using queue_incremental [OF that] Cons.prems(7) s(1,2) by simp
    obtain mc1 where mc1: "mc_read joined (False, io) mc = Inr mc1" "recovering sn (xs @ us) ys q mc1" "idle_streams mc1"
      using read_ok [where P = "recovering sn xs ys q" and Q = "recovering sn (xs @ us) ys q" and b = False and io = io and joined = joined and mc = mc]
        run rec Cons.prems(2) d(1) recovering_apart(1,2) [OF rec] by auto
    from Cons.IH [OF mc1(2,3) d(2) g3 g(2)] Cons.prems(6-8) show ?thesis using mc1(1) r False s(1) by simp
  next
    case True
    have g: "messages (io_avail io) @ got True rs = numbered_updates (of_nat (length ys)) ys'" "got False rs = numbered_updates (sn + of_nat (length xs)) xs'"
      using Cons.prems(4,5) r True by simp_all
    obtain us ws where s: "ys' = us @ ws" "messages (io_avail io) = numbered_updates (of_nat (length ys)) us"
      "got True rs = numbered_updates (of_nat (length ys) + of_nat (length us)) ws" "length us = length (messages (io_avail io))"
      by (rule split_numbered [OF g(1)])
    have g3: "got True rs = numbered_updates (of_nat (length (ys @ us))) ws" by (simp add: s(3))
    have "unfinished (ys @ us)" using Cons.prems(6) unfinished_append [of "ys @ us" ws] by (simp add: s(1))
    then have run: "\<exists>mc1. foldE (on_message joined True) (messages (io_avail io)) m = Inr mc1 \<and> recovering sn xs (ys @ us) q mc1"
      if "recovering sn xs ys q m" for m using queue_snapshot [OF that] Cons.prems(8) s(1,2) by simp
    obtain mc1 where mc1: "mc_read joined (True, io) mc = Inr mc1" "recovering sn xs (ys @ us) q mc1" "idle_streams mc1"
      using read_ok [where P = "recovering sn xs ys q" and Q = "recovering sn xs (ys @ us) q" and b = True and io = io and joined = joined and mc = mc]
        run rec Cons.prems(2) d(1) recovering_apart(1,2) [OF rec] by auto
    from Cons.IH [OF mc1(2,3) d(2) g(2) g3] Cons.prems(6-8) show ?thesis using mc1(1) r True s(1) by simp
  qed
qed simp

lemma following_reads:
  assumes "following n cs (length zs + r) mc" and "idle_streams mc" and "datagrams rs" and "got False rs = numbered_updates n zs"
    and "\<forall>(c, io) \<in> set rs. c \<longrightarrow> io_avail io = []"
  shows "\<exists>mc'. foldE (mc_read joined) rs mc = Inr mc' \<and> following (n + of_nat (length zs)) (cs @ zs) r mc' \<and> idle_streams mc'"
  using assms
proof (induction rs arbitrary: n cs zs mc)
  case (Cons x rs)
  obtain c io where x: "x = (c, io)" by fastforce
  have d: "datagram (io_avail io)" "datagrams rs" using Cons.prems(3) by (auto simp: x)
  have g: "(if c then [] else messages (io_avail io)) @ got False rs = numbered_updates n zs"
    using Cons.prems(4) by (simp add: x split: if_splits)
  obtain us ws where s: "zs = us @ ws" "(if c then [] else messages (io_avail io)) = numbered_updates n us"
    "got False rs = numbered_updates (n + of_nat (length us)) ws" "length us = length (if c then [] else messages (io_avail io))"
    by (rule split_numbered [OF g])
  let ?P = "following n cs (length us + (length ws + r))" and ?Q = "following (n + of_nat (length us)) (cs @ us) (length ws + r)"
  have P: "?P mc" using Cons.prems(1) by (simp add: s(1) add.assoc)
  have m: "messages (io_avail io) = numbered_updates n us" using s(2,4) Cons.prems(5) x by (cases c) simp_all
  have c: "\<not> c" if "io_avail io \<noteq> []" using that Cons.prems(5) x by auto
  have run: "\<exists>mc1. foldE (on_message joined c) (messages (io_avail io)) m = Inr mc1 \<and> ?Q mc1" if "?P m" for m
  proof (cases "us = []")
    case True
    then show ?thesis using m that by simp
  next
    case False
    then have "\<not> c" using m c by (cases "io_avail io = []") simp_all
    then show ?thesis using follow_updates [OF that, of joined] m by simp
  qed
  have closed: "c \<Longrightarrow> io_avail io \<noteq> [] \<Longrightarrow> in_recovery mc" using c by simp
  obtain mc1 where mc1: "mc_read joined x mc = Inr mc1" "?Q mc1" "idle_streams mc1"
    using read_ok [where P = ?P and Q = ?Q and b = c and io = io and joined = joined and mc = mc,
        OF phases_see(2) phases_see(2) run P Cons.prems(2) recovering_apart(3) [OF P] closed d(1)] x by blast
  from Cons.IH [OF mc1(2,3) d(2) s(3)] Cons.prems(5) mc1(1) show ?case by (simp add: s(1) add.assoc)
qed simp

lemma room_bound:
  assumes "lfq_ok q"
  shows "lfq_room q < 2 ^ 63"
proof -
  have "unat (write_pos q) = 0 \<Longrightarrow> read_pos q = 0" using assms by (simp add: lfq_ok_def unat_eq_zero)
  then show ?thesis using lfq_ok_bounds [OF assms] pow2_bound [of "qsize q"] assms
    by (cases "unat (write_pos q) = 0") (auto simp: lfq_room_def lfq_ok_def)
qed

text \<open>The whole recovery: \<open>i0\<close> brings the messages behind the gap, \<open>i1\<close> the end of the snapshot.\<close>

lemma recovery_reads:
  assumes gap: "gap_ahead sn joined q mc" "idle_streams mc" "0 \<le> join_fd joined" "join_done joined"
    and rs: "rs = (False, i0) # rs1 @ (True, i1) # rs2" "datagrams rs" "io_avail i0 \<noteq> []" "io_avail i1 \<noteq> []"
      "\<forall>(c, io) \<in> set rs2. c \<longrightarrow> io_avail io = []"
    and inc: "got False rs = numbered_updates sn (us @ ws)" "length us \<le> length (got False ((False, i0) # rs1))"
      "unat sn + length (us @ ws) < 2 ^ 64" "l + 1 = sn + of_nat (length us)" "\<forall>u \<in> set ws. is_event u"
    and snap: "got True rs = snapshot_messages l v" "view_ok v"
    and q: "lfq_ok q" "length (snapshot_events v) + length ws \<le> lfq_room q"
  shows "\<exists>mc'. foldE (mc_read joined) rs mc = Inr mc'
    \<and> following (l + 1 + of_nat (length ws)) (contents q @ snapshot_events v @ ws) 0 mc' \<and> idle_streams mc'"
proof -
  let ?ev = "snapshot_events v" and ?s = "start_update l" and ?e = "end_update l"
  have len: "length ?ev < 2 ^ 63" using q room_bound [OF q(1)] by linarith
  have d: "datagram (io_avail i0)" "datagrams rs1" "datagram (io_avail i1)" "datagrams rs2" using rs(1,2) by auto
  have nonempty: "messages (io_avail i) \<noteq> []" if "datagram (io_avail i)" "io_avail i \<noteq> []" for i
    using that length_messages [of "io_avail i"] by (auto simp: datagram_def)
  have g1: "messages (io_avail i0) @ (got False rs1 @ got False rs2) = numbered_updates sn (us @ ws)"
    using inc(1) rs(1) by simp
  obtain z0 a1 where a: "us @ ws = z0 @ a1" "messages (io_avail i0) = numbered_updates sn z0"
    "got False rs1 @ got False rs2 = numbered_updates (sn + of_nat (length z0)) a1" "length z0 = length (messages (io_avail i0))"
    by (rule split_numbered [OF g1])
  obtain z1 z2 where z: "a1 = z1 @ z2" "got False rs1 = numbered_updates (sn + of_nat (length z0)) z1"
    "got False rs2 = numbered_updates (sn + of_nat (length z0) + of_nat (length z1)) z2" "length z1 = length (got False rs1)"
    by (rule split_numbered [OF a(3)])
  have all: "us @ ws = (z0 @ z1) @ z2" using a(1) z(1) by simp
  have "length us \<le> length (z0 @ z1)" using inc(2) a(4) z(4) by simp
  then obtain w where "us @ w = z0 @ z1" "ws = w @ z2" using all append_eq_append_conv2 [of us ws "z0 @ z1" z2] by auto
  then have w: "z0 @ z1 = us @ w" "ws = w @ z2" by simp_all
  have n0: "z0 \<noteq> []" using nonempty [OF d(1) rs(3)] a(2) by auto
  have "got True rs2 = []"
    using rs(5) by (induction rs2) auto
  then have g2: "got True rs1 @ messages (io_avail i1) = numbered_updates 0 (?s # ?ev @ [?e])"
    using snap(1) rs(1) by (simp add: snapshot_messages_def)
  obtain ys y1 where y: "?s # ?ev @ [?e] = ys @ y1" "got True rs1 = numbered_updates 0 ys" "messages (io_avail i1) = numbered_updates (0 + of_nat (length ys)) y1"
    "length ys = length (got True rs1)" by (rule split_numbered [OF g2])
  have "y1 \<noteq> []" using nonempty [OF d(3) rs(4)] y(3) by auto
  then obtain y2 where y2: "y1 = y2 @ [?e]" "?s # ?ev = ys @ y2" using y(1) by (cases y1 rule: rev_cases) auto
  have ev: "filter is_event ?ev = ?ev" by (rule is_event_snapshot [OF snap(2)])
  have unf: "unfinished (ys @ y2)"
    unfolding y2(2) [symmetric] using ev by (auto simp: unfinished_def start_update_def is_event_def filter_id_conv)
  obtain mc0 where mc0: "mc_read joined (False, i0) mc = Inr mc0" "recovering sn z0 [] q mc0" "idle_streams mc0"
  proof -
    have "\<exists>mc1. foldE (on_message joined False) (messages (io_avail i0)) m = Inr mc1 \<and> recovering sn z0 [] q mc1"
      if "gap_ahead sn joined q m" for m
      using gap_starts [OF that gap(3,4)] n0 inc(3) a(1,2) by (cases z0) auto
    then show thesis
      using read_ok [where P = "gap_ahead sn joined q" and Q = "recovering sn z0 [] q" and b = False and io = i0 and joined = joined and mc = mc]
        gap(1,2) d(1) recovering_apart(4) [OF gap(1)] that by auto
  qed
  have b: "unat sn + length (z0 @ z1) < 2 ^ 64" "length ([] @ ys) < 2 ^ 64" "unfinished ([] @ ys)"
    using inc(3) len arg_cong [OF all, of length] arg_cong [OF y2(2), of length] unfinished_append [OF unf] by auto
  obtain mc1 where mc1: "foldE (mc_read joined) rs1 mc0 = Inr mc1" "recovering sn (z0 @ z1) ys q mc1" "idle_streams mc1"
    using recovering_reads [OF mc0(2,3) d(2) z(2) _ b(3,1,2)] y(2) by auto
  let ?n = "l + 1 + of_nat (length w)" and ?cs = "contents q @ ?ev @ w"
  obtain mc2 where mc2: "mc_read joined (True, i1) mc1 = Inr mc2" "following ?n ?cs (length z2 + 0) mc2" "idle_streams mc2"
  proof -
    have "\<exists>mc2. foldE (on_message joined True) (messages (io_avail i1)) m = Inr mc2 \<and> following ?n ?cs (length z2 + 0) mc2"
      if rec: "recovering sn (z0 @ z1) ys q m" for m
    proof -
      have l: "length (ys @ y2) < 2 ^ 64" using len arg_cong [OF y2(2), of length] room_bound [OF q(1)] q(2) by simp
      obtain m1 where m1: "foldE (on_message joined True) (numbered_updates (of_nat (length ys)) y2) m = Inr m1"
        "recovering sn (us @ w) (?s # ?ev) q m1" using queue_snapshot [OF rec unf l, of joined] w(1) y2(2) by auto
      have "unat sn + length (us @ w) < 2 ^ 64" "\<forall>u \<in> set w. is_event u" "length ?ev + length w + length z2 \<le> lfq_room q"
        using inc(3,5) q(2) w(2) by auto
      from snapshot_end [OF m1(2) this(1) inc(4) this(2) snap(2) len q(1) this(3), of joined]
      obtain m2 where m2: "on_message joined True \<lparr>mdp_seq_num = of_nat (length (?s # ?ev)), me_market_update = ?e\<rparr> m1 = Inr m2"
        "following ?n ?cs (length z2) m2" by blast
      have "messages (io_avail i1) = numbered_updates (of_nat (length ys)) y2 @ [\<lparr>mdp_seq_num = of_nat (length (?s # ?ev)), me_market_update = ?e\<rparr>]"
        using y(3) numbered_updates_append [of "of_nat (length ys)" y2 "[?e]"] by (simp add: y2 del: of_nat_Suc)
      then show ?thesis using m1(1) m2 by (simp add: foldE_append)
    qed
    then show thesis
      using read_ok [where P = "recovering sn (z0 @ z1) ys q" and Q = "following ?n ?cs (length z2 + 0)" and b = True and io = i1 and joined = joined and mc = mc1]
        mc1(2,3) d(3) recovering_apart(1,2) [OF mc1(2)] that by auto
  qed
  have "sn + of_nat (length z0) + of_nat (length z1) = ?n"
    using arg_cong [OF w(1), of "\<lambda>xs. sn + of_nat (length xs)"] inc(4) by (simp add: add.assoc)
  then obtain mc3 where "foldE (mc_read joined) rs2 mc2 = Inr mc3" "following (?n + of_nat (length z2)) (?cs @ z2) 0 mc3" "idle_streams mc3"
    using following_reads [OF mc2(2,3) d(4) _ rs(5)] z(3) by auto
  then show ?thesis using mc0(1) mc1(1) mc2(1) w(2) by (simp add: rs(1) foldE_append add.assoc)
qed

end
