(* ===== verification/Market_Data_Props.thy ===== *)
theory Market_Data_Props
  imports Market_Data_Recovery
begin

text \<open>
  The properties of the market data path, from the matching engine's queue over the two multicast streams
  to the trade engine's queue, with the example they are applied to.
\<close>

section \<open>Examples\<close>

definition demo_add_update :: MEMarketUpdate where
  "demo_add_update = me_market_update demo_mdp_update"

definition demo_modify_update :: MEMarketUpdate where
  "demo_modify_update = demo_add_update\<lparr>upd_type := Upd_MODIFY, upd_qty := 40\<rparr>"

lemma demo_updates_simps [simp]:
  "upd_type demo_add_update = Upd_ADD" "upd_type demo_modify_update = Upd_MODIFY" "unat (upd_ticker_id demo_add_update) = 1"
  "unat (upd_ticker_id demo_modify_update) = 1" "unat (upd_order_id demo_add_update) = 9"
  "unat (upd_order_id demo_modify_update) = 9" "upd_order_id demo_add_update = 9" "upd_order_id demo_modify_update = 9"
  "upd_side demo_modify_update = upd_side demo_add_update"
  by (simp_all add: demo_add_update_def demo_modify_update_def demo_mdp_update_def)

lemma demo_updates_wf [simp]: "wf_update demo_add_update" "wf_update demo_modify_update" "is_event demo_modify_update"
  using demo_wf(3) by (simp_all add: demo_add_update_def demo_modify_update_def wf_update_def is_event_def)

definition empty_mcast :: McastSocket where
  "empty_mcast = socket_holding []"

definition demo_publisher :: MarketDataPublisher where
  "demo_publisher = \<lparr>next_inc_seq_num = 6,
     mdp_outgoing_md_updates = \<lparr>qstore = (\<lambda>i. if i = 0 then demo_add_update else demo_modify_update), qsize = 16, write_pos = 2, read_pos = 0\<rparr>,
     snapshot_md_updates = \<lparr>qstore = (\<lambda>_. demo_mdp_update), qsize = 16, write_pos = 0, read_pos = 0\<rparr>, incremental_socket = empty_mcast\<rparr>"

definition demo_io :: kernel_io where
  "demo_io = \<lparr>io_avail = [], io_stamp = None, io_taken = McastBufferSize\<rparr>"

lemma demo_io_takes [simp]: "takes_all demo_io"
  by (simp add: takes_all_def demo_io_def)

lemma demo_publisher_simps [simp]:
  "lfq_ok (mdp_outgoing_md_updates demo_publisher)" "lfq_ok (snapshot_md_updates demo_publisher)"
  "contents (mdp_outgoing_md_updates demo_publisher) = [demo_add_update, demo_modify_update]"
  "contents (snapshot_md_updates demo_publisher) = []" "lfq_room (snapshot_md_updates demo_publisher) = 15"
  "pending_out (incremental_socket demo_publisher) = []" "sent_bytes (incremental_socket demo_publisher) = []"
  "next_inc_seq_num demo_publisher = 6"
  by (simp_all add: demo_publisher_def empty_mcast_def lfq_ok_def is_pow2_16 contents_def lfq_room_def upt_rec)

definition demo_view :: view where
  "demo_view = set_view 1 9 (Some demo_add_update) empty_view"

definition demo_synthesizer :: SnapshotSynthesizer where
  "demo_synthesizer = \<lparr>ss_snapshot_md_updates = snapshot_md_updates demo_publisher, snapshot_socket = empty_mcast,
     ticker_orders = (\<lambda>_ _. None)(1 := (\<lambda>_. None)(9 := Some 0)), last_inc_seq_num = 5, last_snapshot_time = 0,
     ss_order_pool = \<lparr>store = (\<lambda>_. \<lparr>object = MEMarketUpdate_default, is_free = True\<rparr>)(0 := \<lparr>object = demo_add_update, is_free = False\<rparr>),
       store_size = ME_MAX_ORDER_IDS, next_free = 1\<rparr>\<rparr>"

lemma demo_view_ok [simp]: "view_ok demo_view"
  by (auto simp: view_ok_def demo_view_def set_view_def empty_view_def ME_MAX_TICKERS_def ME_MAX_ORDER_IDS_def split: if_splits)

lemma demo_shows_view: "shows_view demo_synthesizer demo_view"
proof -
  have "is_pow2 ME_MAX_ORDER_IDS" unfolding is_pow2_def ME_MAX_ORDER_IDS_def by (rule exI [of _ 20]) simp
  then show ?thesis
    unfolding shows_view_def
    apply (intro conjI demo_view_ok)
    by (auto simp: demo_synthesizer_def pool_ok_def ME_MAX_ORDER_IDS_def allocated_def obj_def demo_view_def set_view_def empty_view_def
        split: if_splits)
qed

lemma map_filter_single: "List.map_filter (\<lambda>i. if i = k then Some x else None) [0..<n] = (if k < n then [x] else [])"
  by (induction n) (auto simp: List.map_filter_def)

lemma demo_events: "length (snapshot_events demo_view) = 9"
proof -
  have "orders_of t demo_view = (if t = 1 then [demo_add_update] else [])" for t
  proof (cases "t = 1")
    case True
    then have "demo_view t = (\<lambda>i. if i = 9 then Some demo_add_update else None)" by (auto simp: demo_view_def set_view_def empty_view_def)
    then show ?thesis using True map_filter_single [of 9 demo_add_update "unat ME_MAX_ORDER_IDS"] by (simp add: orders_of_def ME_MAX_ORDER_IDS_def)
  next
    case False
    then have "demo_view t = (\<lambda>i. None)" by (auto simp: demo_view_def set_view_def empty_view_def)
    then show ?thesis using False by (simp add: orders_of_def List.map_filter_def)
  qed
  then show ?thesis by (simp add: snapshot_events_def ME_MAX_TICKERS_def upt_rec)
qed

definition demo_consumer :: "u64 \<Rightarrow> u8 list \<Rightarrow> u8 list \<Rightarrow> bool \<Rightarrow> MEMarketUpdate list \<Rightarrow> MarketDataConsumer" where
  "demo_consumer n inc_bytes snap_bytes rec us = \<lparr>next_exp_inc_seq_num = n,
     mc_incoming_md_updates = \<lparr>qstore = (\<lambda>_. MEMarketUpdate_default), qsize = 16, write_pos = 0, read_pos = 0\<rparr>,
     incremental_mcast_socket = socket_holding inc_bytes, snapshot_mcast_socket = (socket_holding snap_bytes)\<lparr>socket_fd := (if rec then 6 else - 1)\<rparr>,
     in_recovery = rec, snapshot_queued_msgs = [], incremental_queued_msgs = entries 6 us\<rparr>"

lemma socket_fd_upd [simp]: "pending_in (s\<lparr>socket_fd := fd\<rparr>) = pending_in s" "pending_out (s\<lparr>socket_fd := fd\<rparr>) = pending_out s"
  by (simp_all add: pending_in_def pending_out_def)

lemma socket_holding_fd [simp]: "socket_fd (socket_holding bs) = 5"
  by (simp add: socket_holding_def)

lemma demo_consumer_simps [simp]:
  "next_exp_inc_seq_num (demo_consumer n a b rec us) = n" "lfq_ok (mc_incoming_md_updates (demo_consumer n a b rec us))"
  "lfq_room (mc_incoming_md_updates (demo_consumer n a b rec us)) = 15" "contents (mc_incoming_md_updates (demo_consumer n a b rec us)) = []"
  "incremental_mcast_socket (demo_consumer n a b rec us) = socket_holding a" "in_recovery (demo_consumer n a b rec us) = rec"
  "snapshot_queued_msgs (demo_consumer n a b rec us) = []" "incremental_queued_msgs (demo_consumer n a b rec us) = entries 6 us"
  "snapshot_mcast_socket (demo_consumer n a b rec us) = (socket_holding b)\<lparr>socket_fd := (if rec then 6 else - 1)\<rparr>"
  by (simp_all add: demo_consumer_def lfq_ok_def is_pow2_16 contents_def lfq_room_def)


section \<open>Properties of the market data path\<close>

text \<open>Publishing: one round of the publisher numbers the waiting updates without a gap, sends their bytes on the
  incremental stream and hands the same numbered updates to the snapshot synthesizer, in the order of the queue.\<close>

theorem publisher_publishes:
  assumes "lfq_ok (mdp_outgoing_md_updates p)" and "contents (mdp_outgoing_md_updates p) = us"
    and "pending_out (incremental_socket p) = []" and "42 * length us < McastBufferSize"
    and "lfq_ok (snapshot_md_updates p)" and "length us \<le> lfq_room (snapshot_md_updates p)" and "takes_all io"
  shows "\<exists>p' ms. publisher_round io p = Inr p' \<and> contents (mdp_outgoing_md_updates p') = []
    \<and> map me_market_update ms = us \<and> map mdp_seq_num ms = map (\<lambda>i. next_inc_seq_num p + of_nat i) [0..<length us]
    \<and> sent_bytes (incremental_socket p') = sent_bytes (incremental_socket p) @ concat (map MDPMarketUpdate_bytes ms)
    \<and> contents (snapshot_md_updates p') = contents (snapshot_md_updates p) @ ms"
  using publisher_round_ok [OF assms] numbered_updates_simps(1) numbered_updates_seq by metis

theorem publisher_publishes_witness:
  "\<exists>p' ms. publisher_round demo_io demo_publisher = Inr p' \<and> map me_market_update ms = [demo_add_update, demo_modify_update]
    \<and> contents (snapshot_md_updates p') = ms \<and> sent_bytes (incremental_socket p') = concat (map MDPMarketUpdate_bytes ms)"
  using publisher_publishes [of demo_publisher "[demo_add_update, demo_modify_update]" demo_io]
  by (auto simp: McastBufferSize_def)

text \<open>Without losses the trading side sees exactly what the exchange published: a consumer that expects the
  publisher's next number, reading the bytes of the publisher's round, puts the same updates into its queue.\<close>

lemma updates_reach_trading:
  assumes p: "lfq_ok (mdp_outgoing_md_updates p)" "contents (mdp_outgoing_md_updates p) = us" "us \<noteq> []"
      "pending_out (incremental_socket p) = []" "42 * length us < McastBufferSize"
      "lfq_ok (snapshot_md_updates p)" "length us \<le> lfq_room (snapshot_md_updates p)" "takes_all io"
    and wf: "\<forall>u \<in> set us. wf_update u"
    and mc: "\<not> in_recovery mc" "next_exp_inc_seq_num mc = next_inc_seq_num p" "pending_in (incremental_mcast_socket mc) = []"
      "socket_fd (incremental_mcast_socket mc) \<noteq> socket_fd (snapshot_mcast_socket mc)"
      "lfq_ok (mc_incoming_md_updates mc)" "length us \<le> lfq_room (mc_incoming_md_updates mc)"
  shows "\<exists>p' bs mc'. publisher_round io p = Inr p' \<and> sent_bytes (incremental_socket p') = sent_bytes (incremental_socket p) @ bs
    \<and> mc_recvCallback incremental_mcast_socket put_incremental joined
        (mc\<lparr>incremental_mcast_socket := snd (read_avail McastBufferSize bs (incremental_mcast_socket mc))\<rparr>) = Inr mc'
    \<and> contents (mc_incoming_md_updates mc') = contents (mc_incoming_md_updates mc) @ us
    \<and> next_exp_inc_seq_num mc' = next_inc_seq_num p' \<and> \<not> in_recovery mc' \<and> pending_in (incremental_mcast_socket mc') = []
    \<and> lfq_ok (mc_incoming_md_updates mc')"
proof -
  define ms where "ms = numbered_updates (next_inc_seq_num p) us"
  obtain p' where p': "publisher_round io p = Inr p'"
    "sent_bytes (incremental_socket p') = sent_bytes (incremental_socket p) @ concat (map MDPMarketUpdate_bytes ms)"
    "next_inc_seq_num p' = next_inc_seq_num p + of_nat (length us)"
    using publisher_round_ok [OF p(1,2,4-8)] unfolding ms_def by blast
  note wfs = wf_update_frames [OF wf_numbered [OF wf, of "next_inc_seq_num p"], folded ms_def]
  define bs where "bs = concat (map MDPMarketUpdate_bytes ms)"
  define s where "s = snd (read_avail McastBufferSize bs (incremental_mcast_socket mc))"
  have "next_rcv_valid_index (incremental_mcast_socket mc) = 0" using arg_cong [OF mc(3), of length] by simp
  then have s: "pending_in s = bs" using p(5) wfs(3) by (simp add: s_def read_avail_pending mc(3) bs_def ms_def)
  have fd: "socket_fd s = socket_fd (incremental_mcast_socket mc)" by (simp add: s_def read_avail_def Let_def)
  have len: "next_rcv_valid_index s = 42 * length us" using arg_cong [OF s, of length] wfs(3) by (simp add: bs_def ms_def)
  let ?mc = "mc\<lparr>incremental_mcast_socket := s\<rparr>"
  have arr: "updates_arrived s = ms" by (simp add: updates_arrived_def s bs_def wfs(1))
  obtain mc1 where mc1: "foldE (on_message joined False) ms ?mc = Inr mc1" "\<not> in_recovery mc1"
    "contents (mc_incoming_md_updates mc1) = contents (mc_incoming_md_updates mc) @ us"
    "next_exp_inc_seq_num mc1 = next_inc_seq_num p + of_nat (length us)" "incremental_mcast_socket mc1 = s"
    "lfq_ok (mc_incoming_md_updates mc1)"
    using in_order_fold [of ?mc us joined] mc by (auto simp: ms_def)
  have "42 \<le> next_rcv_valid_index s" using len p(3) by (cases us) auto
  then obtain s' where "mc_recvCallback incremental_mcast_socket put_incremental joined ?mc = Inr (put_incremental s' mc1)"
    "pending_in s' = leftover 42 bs"
    using mc_recvCallback_ok [of False incremental_mcast_socket ?mc joined mc1 put_incremental] fd mc(4) mc1(1,5) arr s by auto
  then show ?thesis using p' mc1(2-4,6) wfs(2) unfolding s_def
    by (intro exI [of _ p'] exI [of _ bs] exI [of _ "put_incremental s' mc1"]) (simp add: put_incremental_def bs_def)
qed

text \<open>An example of it.\<close>

lemma updates_reach_trading_example:
  "\<exists>p' bs mc'. publisher_round demo_io demo_publisher = Inr p' \<and> sent_bytes (incremental_socket p') = bs
    \<and> mc_recvCallback incremental_mcast_socket put_incremental \<lparr>join_fd = 6, join_done = True\<rparr>
        ((demo_consumer 6 [] [] False [])\<lparr>incremental_mcast_socket := snd (read_avail McastBufferSize bs (socket_holding []))\<rparr>) = Inr mc'
    \<and> contents (mc_incoming_md_updates mc') = [demo_add_update, demo_modify_update]"
proof -
  let ?us = "[demo_add_update, demo_modify_update]" and ?mc = "demo_consumer 6 [] [] False []"
  have len: "42 * length ?us < McastBufferSize" "length ?us \<le> lfq_room (snapshot_md_updates demo_publisher)"
    "length ?us \<le> lfq_room (mc_incoming_md_updates ?mc)" "?us \<noteq> []" by (simp_all add: McastBufferSize_def)
  have wf: "\<forall>u \<in> set ?us. wf_update u" by simp
  have mc: "\<not> in_recovery ?mc" "next_exp_inc_seq_num ?mc = next_inc_seq_num demo_publisher"
    "pending_in (incremental_mcast_socket ?mc) = []"
    "socket_fd (incremental_mcast_socket ?mc) \<noteq> socket_fd (snapshot_mcast_socket ?mc)" "lfq_ok (mc_incoming_md_updates ?mc)"
    by simp_all
  from updates_reach_trading [OF demo_publisher_simps(1,3) len(4) demo_publisher_simps(6) len(1) demo_publisher_simps(2) len(2)
      demo_io_takes wf mc(1-5) len(3), of "\<lparr>join_fd = 6, join_done = True\<rparr>"]
  show ?thesis by auto
qed

text \<open>C24: the synthesizer holds the live orders: after a run of legal updates with consecutive numbers its tables show
  the view that these updates give, and its number is that of the last update.\<close>

theorem synthesizer_keeps_view:
  assumes "shows_view ss v" and "legal_updates us v" and "enough_memory (numbered_updates (last_inc_seq_num ss + 1) us) ss"
  shows "\<exists>ss'. foldE addToSnapshot (numbered_updates (last_inc_seq_num ss + 1) us) ss = Inr ss'
    \<and> shows_view ss' (apply_updates us v) \<and> last_inc_seq_num ss' = last_inc_seq_num ss + of_nat (length us)"
  using addToSnapshots_ok [OF assms] by blast

theorem synthesizer_keeps_view_witness:
  "\<exists>ss'. foldE addToSnapshot (numbered_updates 6 [demo_modify_update]) demo_synthesizer = Inr ss'
    \<and> shows_view ss' (apply_updates [demo_modify_update] demo_view)"
proof -
  have l: "last_inc_seq_num demo_synthesizer = 5" by (simp add: demo_synthesizer_def)
  have "legal_updates [demo_modify_update] demo_view"
    by (simp add: legal_update_def Let_def ME_MAX_TICKERS_def ME_MAX_ORDER_IDS_def) (simp add: demo_view_def)
  moreover have "enough_memory (numbered_updates (last_inc_seq_num demo_synthesizer + 1) [demo_modify_update]) demo_synthesizer"
    by (auto split: sum.splits)
  ultimately show ?thesis
    using synthesizer_keeps_view [OF demo_shows_view, of "[demo_modify_update]"] unfolding l by auto
qed

text \<open>The bytes that the rounds hand over on the two streams.\<close>

definition incremental_bytes :: "(kernel_io \<times> kernel_io) list \<Rightarrow> u8 list" where
  "incremental_bytes ios = concat (map (\<lambda>(io1, io2). io_avail io1) ios)"

definition snapshot_bytes :: "(kernel_io \<times> kernel_io) list \<Rightarrow> u8 list" where
  "snapshot_bytes ios = concat (map (\<lambda>(io1, io2). io_avail io2) ios)"

definition whole_messages :: "(kernel_io \<times> kernel_io) list \<Rightarrow> bool" where
  "whole_messages ios \<longleftrightarrow> (\<forall>(io1, io2) \<in> set ios. datagram (io_avail io1) \<and> datagram (io_avail io2))"

lemma got_rounds:
  assumes "whole_messages ios"
  shows "got False (reads_of ios) = messages (incremental_bytes ios)" "got True (reads_of ios) = messages (snapshot_bytes ios)"
    "42 dvd length (incremental_bytes ios)" "datagrams (reads_of ios)"
proof -
  have "got False (reads_of ios) = messages (incremental_bytes ios) \<and> got True (reads_of ios) = messages (snapshot_bytes ios)
    \<and> 42 dvd length (incremental_bytes ios) \<and> datagrams (reads_of ios)"
    using assms
  proof (induction ios)
    case (Cons io ios)
    obtain io1 io2 where io: "io = (io1, io2)" by fastforce
    then have "42 dvd length (io_avail io1)" "42 dvd length (io_avail io2)"
      using Cons.prems by (simp_all add: whole_messages_def datagram_def)
    then show ?case using Cons messages_append
      by (simp add: io incremental_bytes_def snapshot_bytes_def whole_messages_def)
  qed (simp add: incremental_bytes_def snapshot_bytes_def)
  then show "got False (reads_of ios) = messages (incremental_bytes ios)" "got True (reads_of ios) = messages (snapshot_bytes ios)"
    "42 dvd length (incremental_bytes ios)" "datagrams (reads_of ios)" by blast+
qed

lemma reads_between:
  assumes "ios \<noteq> []"
  obtains rs where "reads_of ios = (False, fst (hd ios)) # rs @ [(True, snd (last ios))]"
proof (cases ios rule: rev_cases)
  case (snoc xs x)
  obtain i s where x: "x = (i, s)" by fastforce
  show thesis
  proof (cases xs)
    case Nil
    then show thesis using that [of "[]"] snoc x by simp
  next
    case (Cons y ys)
    then show thesis using that [of "(True, snd y) # reads_of ys @ [(False, i)]"] snoc x by (cases y) simp
  qed
qed (use assms in simp)

lemma whole_messages_append: "whole_messages (xs @ ys) \<longleftrightarrow> whole_messages xs \<and> whole_messages ys"
  by (auto simp: whole_messages_def)

text \<open>C14: recovery is right, from the loss to the live stream, over any number of rounds of the consumer's thread and
  any cut of the streams into datagrams of whole messages. The consumer is not in recovery and expects another
  number than \<open>sn\<close>, the first that arrives. From that round on the reads hand over the incremental
  updates \<open>us @ ws\<close>, numbered from \<open>sn\<close> on, and, up to the last round of \<open>before\<close>, exactly the bytes that
  \<open>publishSnapshot\<close> sends for a synthesizer whose last number is that of the last update of \<open>us\<close>, by when
  all of \<open>us\<close> have arrived. Then every round returns; at the end the consumer is out of recovery, expects the number that comes
  next, and has given the trade engine the snapshot (a CLEAR and the orders of each ticker) followed by
  exactly the updates \<open>ws\<close> behind it, in order and once. Read as the synthesizer reads updates, these events give,
  whatever was there before, the synthesizer's table of live orders followed by \<open>ws\<close>. (What the
  trade engine's book makes of the CLEAR is another matter, see \<open>clear_leaves_levels\<close>.)\<close>

theorem recovery_restores_view:
  assumes ss: "shows_view ss v" "pending_out (snapshot_socket ss) = []" "\<forall>n. takes_all (io n)"
      "\<forall>t i x. v t i = Some x \<longrightarrow> wf_update x"
    and mc: "\<not> in_recovery mc" "next_exp_inc_seq_num mc \<noteq> sn" "lfq_ok (mc_incoming_md_updates mc)"
      "length (snapshot_events v) + length ws \<le> lfq_room (mc_incoming_md_updates mc)"
      "pending_in (incremental_mcast_socket mc) = []" "pending_in (snapshot_mcast_socket mc) = []"
      "0 \<le> socket_fd (incremental_mcast_socket mc)" "socket_fd (incremental_mcast_socket mc) \<noteq> socket_fd (snapshot_mcast_socket mc)"
    and join: "0 \<le> join_fd joined" "join_done joined" "socket_fd (incremental_mcast_socket mc) \<noteq> join_fd joined"
    and feed: "\<forall>u \<in> set (us @ ws). wf_update u" "\<forall>u \<in> set ws. is_event u" "unat sn + length (us @ ws) < 2 ^ 64"
      "last_inc_seq_num ss + 1 = sn + of_nat (length us)"
    and rounds: "whole_messages (before @ after)" "before \<noteq> []" "io_avail (fst (hd before)) \<noteq> []" "io_avail (snd (last before)) \<noteq> []"
      "incremental_bytes (before @ after) = concat (map MDPMarketUpdate_bytes (numbered_updates sn (us @ ws)))"
      "42 * length us \<le> length (incremental_bytes before)"
      "snapshot_bytes before = concat (map MDPMarketUpdate_bytes (snapshot_messages (last_inc_seq_num ss) v))"
      "\<forall>(io1, io2) \<in> set after. io_avail io2 = []"
  shows "\<exists>ss' mc'. publishSnapshot io ss = Inr ss' \<and> sent_bytes (snapshot_socket ss') = sent_bytes (snapshot_socket ss) @ snapshot_bytes before
    \<and> foldE (\<lambda>(io1, io2). consumer_round joined io1 io2) (before @ after) mc = Inr mc'
    \<and> \<not> in_recovery mc' \<and> next_exp_inc_seq_num mc' = last_inc_seq_num ss + 1 + of_nat (length ws)
    \<and> contents (mc_incoming_md_updates mc') = contents (mc_incoming_md_updates mc) @ snapshot_events v @ ws
    \<and> (\<forall>w. \<forall>t < ME_MAX_TICKERS. apply_updates (snapshot_events v @ ws) w t = apply_updates ws v t)"
proof -
  let ?l = "last_inc_seq_num ss"
  have vok: "view_ok v" using ss(1) by (simp add: shows_view_def)
  obtain ss' where ss': "publishSnapshot io ss = Inr ss'" "sent_bytes (snapshot_socket ss') = sent_bytes (snapshot_socket ss) @ snapshot_bytes before"
    using publishSnapshot_ok [OF ss(1-3)] rounds(7) by auto
  note wm = got_rounds [OF rounds(1)]
  have wb: "whole_messages before" using rounds(1) by (simp add: whole_messages_append)
  note gb = got_rounds [OF wb]
  obtain rs1 where rs1: "reads_of before = (False, fst (hd before)) # rs1 @ [(True, snd (last before))]" by (rule reads_between [OF rounds(2)])
  then have rs: "reads_of (before @ after) = (False, fst (hd before)) # rs1 @ (True, snd (last before)) # reads_of after" by simp
  have closed: "\<forall>(c, io) \<in> set (reads_of after). c \<longrightarrow> io_avail io = []" using rounds(8) by (auto simp: reads_of_def)
  have inc: "got False (reads_of (before @ after)) = numbered_updates sn (us @ ws)"
    unfolding wm(1) rounds(5) messages_def by (rule wf_update_frames(1) [OF wf_numbered [OF feed(1)]])
  have bs: "got True (reads_of before) = snapshot_messages ?l v"
    unfolding gb(2) rounds(7) messages_def by (rule wf_update_frames(1) [OF wf_snapshot [OF ss(4)]])
  have "got True (reads_of after) = []" using rounds(8) by (induction after) auto
  then have snap: "got True (reads_of (before @ after)) = snapshot_messages ?l v" using bs by simp
  have "length us \<le> length (got False (reads_of before))" using rounds(6) length_messages [OF gb(3)] by (simp add: gb(1))
  then have enough: "length us \<le> length (got False ((False, fst (hd before)) # rs1))" by (simp add: rs1)
  have gap: "gap_ahead sn joined (mc_incoming_md_updates mc) mc" "idle_streams mc"
    using mc join by (simp_all add: gap_ahead_def apart_def idle_streams_def)
  obtain mc' where "foldE (mc_read joined) (reads_of (before @ after)) mc = Inr mc'"
    "following (?l + 1 + of_nat (length ws)) (contents (mc_incoming_md_updates mc) @ snapshot_events v @ ws) 0 mc'"
    using recovery_reads [OF gap join(1,2) rs wm(4) rounds(3,4) closed inc enough feed(3,4,2) snap vok mc(3,4)] by blast
  moreover have "apply_updates (snapshot_events v @ ws) w t = apply_updates ws v t" if "t < ME_MAX_TICKERS" for w t
    using apply_update_cong [of "apply_updates (snapshot_events v) w" v t ws] apply_snapshot_events [OF vok] that by simp
  ultimately show ?thesis using ss' by (intro exI [of _ ss'] exI [of _ mc']) (simp add: rounds_reads following_def)
qed

text \<open>Update 5 arrives where 3 was expected, with the first five messages of the snapshot; in the next round
  update 6 and the rest of the snapshot arrive.\<close>

abbreviation demo_join :: join_result where
  "demo_join \<equiv> \<lparr>join_fd = 6, join_done = True\<rparr>"

definition demo_snapshot :: "u8 list" where
  "demo_snapshot = concat (map MDPMarketUpdate_bytes (snapshot_messages 5 demo_view))"

definition demo_rounds :: "(kernel_io \<times> kernel_io) list" where
  "demo_rounds =
     [(demo_io\<lparr>io_avail := MDPMarketUpdate_bytes \<lparr>mdp_seq_num = 5, me_market_update = demo_add_update\<rparr>\<rparr>,
       demo_io\<lparr>io_avail := take 210 demo_snapshot\<rparr>),
      (demo_io\<lparr>io_avail := MDPMarketUpdate_bytes \<lparr>mdp_seq_num = 6, me_market_update = demo_modify_update\<rparr>\<rparr>,
       demo_io\<lparr>io_avail := drop 210 demo_snapshot\<rparr>)]"

lemma demo_snapshot_length: "length demo_snapshot = 462"
proof -
  have "\<forall>m \<in> set (snapshot_messages 5 demo_view). wf_update (me_market_update m)"
    by (rule wf_snapshot) (auto simp: demo_view_def set_view_def empty_view_def split: if_splits)
  from wf_update_frames(3) [OF this] show ?thesis
    by (simp add: demo_snapshot_def snapshot_messages_def demo_events)
qed

lemma demo_rounds_ok:
  "whole_messages demo_rounds" "demo_rounds \<noteq> []" "io_avail (fst (hd demo_rounds)) \<noteq> []" "io_avail (snd (last demo_rounds)) \<noteq> []"
  "incremental_bytes demo_rounds = concat (map MDPMarketUpdate_bytes (numbered_updates 5 ([demo_add_update] @ [demo_modify_update])))"
  "42 * length [demo_add_update] \<le> length (incremental_bytes demo_rounds)" "snapshot_bytes demo_rounds = demo_snapshot"
proof -
  have "MDPMarketUpdate_bytes m \<noteq> []" for m 
  proof -
    have "length (MDPMarketUpdate_bytes m) = 42" by simp
    then show ?thesis by fastforce
  qed
  then show "io_avail (fst (hd demo_rounds)) \<noteq> []" by (simp add: demo_rounds_def)
  show "io_avail (snd (last demo_rounds)) \<noteq> []" using demo_snapshot_length by (simp add: demo_rounds_def)
  show "whole_messages demo_rounds"
    by (simp add: whole_messages_def demo_rounds_def datagram_def demo_snapshot_length McastBufferSize_def)
qed (simp_all add: demo_rounds_def incremental_bytes_def snapshot_bytes_def)

theorem recovery_restores_view_witness:
  "\<exists>ss' mc'. publishSnapshot (\<lambda>_. demo_io) demo_synthesizer = Inr ss' \<and> sent_bytes (snapshot_socket ss') = demo_snapshot
    \<and> foldE (\<lambda>(io1, io2). consumer_round demo_join io1 io2) demo_rounds (demo_consumer 3 [] [] False []) = Inr mc'
    \<and> \<not> in_recovery mc' \<and> next_exp_inc_seq_num mc' = 7
    \<and> contents (mc_incoming_md_updates mc') = snapshot_events demo_view @ [demo_modify_update]"
proof -
  have simps: "last_inc_seq_num demo_synthesizer = 5" "snapshot_socket demo_synthesizer = empty_mcast"
    by (simp_all add: demo_synthesizer_def)
  let ?mc = "demo_consumer 3 [] [] False []"
  have wfv: "\<forall>t i x. demo_view t i = Some x \<longrightarrow> wf_update x"
    by (auto simp: demo_view_def set_view_def empty_view_def split: if_splits)
  have ss: "pending_out (snapshot_socket demo_synthesizer) = []" "\<forall>n. takes_all ((\<lambda>_. demo_io) n)"
    by (simp_all add: simps empty_mcast_def)
  have mc: "\<not> in_recovery ?mc" "next_exp_inc_seq_num ?mc \<noteq> 5" "lfq_ok (mc_incoming_md_updates ?mc)"
    "length (snapshot_events demo_view) + length [demo_modify_update] \<le> lfq_room (mc_incoming_md_updates ?mc)"
    "pending_in (incremental_mcast_socket ?mc) = []" "pending_in (snapshot_mcast_socket ?mc) = []"
    "0 \<le> socket_fd (incremental_mcast_socket ?mc)" "socket_fd (incremental_mcast_socket ?mc) \<noteq> socket_fd (snapshot_mcast_socket ?mc)"
    "0 \<le> join_fd demo_join" "join_done demo_join" "socket_fd (incremental_mcast_socket ?mc) \<noteq> join_fd demo_join"
    by (simp_all add: demo_events)
  have feed: "\<forall>u \<in> set ([demo_add_update] @ [demo_modify_update]). wf_update u" "\<forall>u \<in> set [demo_modify_update]. is_event u"
    "unat (5::u64) + length ([demo_add_update] @ [demo_modify_update]) < 2 ^ 64"
    "last_inc_seq_num demo_synthesizer + 1 = 5 + of_nat (length [demo_add_update])"
    by (simp_all add: simps)
  note r = demo_rounds_ok
  have all: "whole_messages (demo_rounds @ [])" "incremental_bytes (demo_rounds @ [])
      = concat (map MDPMarketUpdate_bytes (numbered_updates 5 ([demo_add_update] @ [demo_modify_update])))"
    "snapshot_bytes demo_rounds = concat (map MDPMarketUpdate_bytes (snapshot_messages (last_inc_seq_num demo_synthesizer) demo_view))"
    "\<forall>(io1, io2) \<in> set []. io_avail io2 = []"
    using r(1,5,7) by (simp_all add: simps demo_snapshot_def)
  from recovery_restores_view [OF demo_shows_view ss wfv mc feed all(1) r(2,3,4) all(2) r(6) all(3,4)] show ?thesis
    by (auto simp: simps empty_mcast_def r(7))
qed

end
