(* ===== verification/Market_Order_Book.thy ===== *)
theory Market_Order_Book
  imports Order_Book_Refine
begin

text \<open>
  The order book of the trading side, trading/strategy/market_order.h, market_order_book.h and
  market_order_book.cpp: the trade engine rebuilds each ticker's book from the market updates. Orders and
  price levels are blocks of two memory pools, linked into circular lists like those of the exchange's book.
\<close>

section \<open>Orders, price levels, best bid and offer\<close>

record MarketOrder =
  mo_order_id :: OrderId
  mo_side :: Side
  mo_price :: Price
  mo_qty :: Qty
  mo_priority :: Priority
  mo_prev_order :: ptr
  mo_next_order :: ptr

definition MarketOrder_default :: MarketOrder where
  "MarketOrder_default =
     \<lparr>mo_order_id = OrderId_INVALID, mo_side = Side_INVALID, mo_price = Price_INVALID, mo_qty = Qty_INVALID,
      mo_priority = Priority_INVALID, mo_prev_order = None, mo_next_order = None\<rparr>"

record MarketOrdersAtPrice =
  ml_side :: Side
  ml_price :: Price
  ml_first_mkt_order :: ptr
  ml_prev_entry :: ptr
  ml_next_entry :: ptr

definition MarketOrdersAtPrice_default :: MarketOrdersAtPrice where
  "MarketOrdersAtPrice_default =
     \<lparr>ml_side = Side_INVALID, ml_price = Price_INVALID, ml_first_mkt_order = None, ml_prev_entry = None,
      ml_next_entry = None\<rparr>"

record BBO =
  bbo_bid_price :: Price
  bbo_ask_price :: Price
  bbo_bid_qty :: Qty
  bbo_ask_qty :: Qty

definition BBO_default :: BBO where
  "BBO_default = \<lparr>bbo_bid_price = Price_INVALID, bbo_ask_price = Price_INVALID, bbo_bid_qty = Qty_INVALID, bbo_ask_qty = Qty_INVALID\<rparr>"

definition BBO_toString :: "BBO \<Rightarrow> string" where
  "BBO_toString b =
     ''BBO{'' @ qtyToString (bbo_bid_qty b) @ ''@'' @ priceToString (bbo_bid_price b) @ ''X'' @ priceToString (bbo_ask_price b)
       @ ''@'' @ qtyToString (bbo_ask_qty b) @ ''}''"


section \<open>The book\<close>

record MarketOrderBook =
  mk_ticker_id :: TickerId
  oid_to_order :: "nat \<Rightarrow> ptr"
  mk_orders_at_price_pool :: "MarketOrdersAtPrice MemPool"
  mk_bids_by_price :: ptr
  mk_asks_by_price :: ptr
  mk_price_orders_at_price :: "nat \<Rightarrow> ptr"
  mk_order_pool :: "MarketOrder MemPool"
  mk_bbo :: BBO

text \<open>
  The constructor gives the two arrays no initial value either; \<open>oid_mem\<close> and \<open>price_mem\<close> are what their
  memory holds.
\<close>

definition MarketOrderBook_init :: "TickerId \<Rightarrow> (nat \<Rightarrow> ptr) \<Rightarrow> (nat \<Rightarrow> ptr) \<Rightarrow> MarketOrderBook res" where
  "MarketOrderBook_init ticker_id oid_mem price_mem =
     bindE (MemPool_init MarketOrdersAtPrice_default ME_MAX_PRICE_LEVELS) (\<lambda>lpool.
     bindE (MemPool_init MarketOrder_default ME_MAX_ORDER_IDS) (\<lambda>opool.
     Inr \<lparr>mk_ticker_id = ticker_id, oid_to_order = oid_mem, mk_orders_at_price_pool = lpool,
          mk_bids_by_price = None, mk_asks_by_price = None, mk_price_orders_at_price = price_mem,
          mk_order_pool = opool, mk_bbo = BBO_default\<rparr>))"

definition mord :: "MarketOrderBook \<Rightarrow> nat \<Rightarrow> MarketOrder" where
  "mord mb i = obj (mk_order_pool mb) i"

definition mlvl :: "MarketOrderBook \<Rightarrow> nat \<Rightarrow> MarketOrdersAtPrice" where
  "mlvl mb i = obj (mk_orders_at_price_pool mb) i"

definition upd_mord :: "nat \<Rightarrow> (MarketOrder \<Rightarrow> MarketOrder) \<Rightarrow> MarketOrderBook \<Rightarrow> MarketOrderBook" where
  "upd_mord i f mb = mb\<lparr>mk_order_pool := upd_obj i f (mk_order_pool mb)\<rparr>"

definition upd_mlvl :: "nat \<Rightarrow> (MarketOrdersAtPrice \<Rightarrow> MarketOrdersAtPrice) \<Rightarrow> MarketOrderBook \<Rightarrow> MarketOrderBook" where
  "upd_mlvl i f mb = mb\<lparr>mk_orders_at_price_pool := upd_obj i f (mk_orders_at_price_pool mb)\<rparr>"

text \<open>\<^verbatim>\<open>(side == Side::BUY ? bids_by_price_ : asks_by_price_)\<close>, read and assigned.\<close>

definition mk_best :: "Side \<Rightarrow> MarketOrderBook \<Rightarrow> ptr" where
  "mk_best side mb = (if side = BUY then mk_bids_by_price mb else mk_asks_by_price mb)"

definition set_mk_best :: "Side \<Rightarrow> ptr \<Rightarrow> MarketOrderBook \<Rightarrow> MarketOrderBook" where
  "set_mk_best side p mb = (if side = BUY then mb\<lparr>mk_bids_by_price := p\<rparr> else mb\<lparr>mk_asks_by_price := p\<rparr>)"

definition mk_getOrdersAtPrice :: "Price \<Rightarrow> MarketOrderBook \<Rightarrow> ptr res" where
  "mk_getOrdersAtPrice price mb =
     array_at (unat ME_MAX_PRICE_LEVELS) (mk_price_orders_at_price mb) (unat (priceToIndex price))"


section \<open>Price levels\<close>

text \<open>The test whether the new level belongs behind a price.\<close>

definition behind :: "Side \<Rightarrow> Price \<Rightarrow> Price \<Rightarrow> bool" where
  "behind side new_price price \<longleftrightarrow> (side = SELL \<and> new_price > price) \<or> (side = BUY \<and> new_price < price)"

text \<open>
  The loop that looks for the place of a new level, with its state \<open>add_after\<close> and \<open>target\<close>. It only reads,
  so when it has made more steps than the pool has blocks it repeats itself forever.
\<close>

fun seek_level :: "nat \<Rightarrow> Side \<Rightarrow> Price \<Rightarrow> nat \<Rightarrow> bool \<Rightarrow> nat \<Rightarrow> MarketOrderBook \<Rightarrow> (bool \<times> nat) res" where
  "seek_level 0 side price first add_after target mb = Inl Diverges"
| "seek_level (Suc fuel) side price first add_after target mb =
     (if add_after \<and> target \<noteq> first then
        (if behind side price (ml_price (mlvl mb target))
         then bindE (deref (ml_next_entry (mlvl mb target))) (\<lambda>t. seek_level fuel side price first True t mb)
         else seek_level fuel side price first False target mb)
      else Inr (add_after, target))"

text \<open>The two steps before the loop and the loop: whether to add behind \<open>target\<close> or before it.\<close>

definition level_place :: "Side \<Rightarrow> Price \<Rightarrow> nat \<Rightarrow> MarketOrderBook \<Rightarrow> (bool \<times> nat) res" where
  "level_place side price first mb =
     bindE (if behind side price (ml_price (mlvl mb first))
            then bindE (deref (ml_next_entry (mlvl mb first))) (\<lambda>t. Inr (behind side price (ml_price (mlvl mb t)), t))
            else Inr (False, first)) (\<lambda>(add_after, target).
     seek_level (Suc (Suc (unat (store_size (mk_orders_at_price_pool mb))))) side price first add_after target mb)"

definition mk_addOrdersAtPrice :: "ptr \<Rightarrow> MarketOrderBook \<Rightarrow> MarketOrderBook res" where
  "mk_addOrdersAtPrice new_orders_at_price mb =
     bindE (deref new_orders_at_price) (\<lambda>n.
     let price = ml_price (mlvl mb n); side = ml_side (mlvl mb n)
     in bindE (array_put (unat ME_MAX_PRICE_LEVELS) (mk_price_orders_at_price mb) (unat (priceToIndex price))
                 new_orders_at_price) (\<lambda>pmap. let mb = mb\<lparr>mk_price_orders_at_price := pmap\<rparr> in
     case mk_best side mb of
       None \<Rightarrow> Inr (upd_mlvl n (\<lambda>l. l\<lparr>ml_prev_entry := Some n, ml_next_entry := Some n\<rparr>) (set_mk_best side (Some n) mb))
     | Some first \<Rightarrow>
         bindE (level_place side price first mb) (\<lambda>(add_after, target).
         if add_after then
           bindE (if target = first then deref (ml_prev_entry (mlvl mb first)) else Inr target) (\<lambda>target.
           let mb1 = upd_mlvl n (\<lambda>l. l\<lparr>ml_prev_entry := Some target\<rparr>) mb
           in bindE (deref (ml_next_entry (mlvl mb1 target))) (\<lambda>q.
              let mb2 = upd_mlvl q (\<lambda>l. l\<lparr>ml_prev_entry := Some n\<rparr>) mb1;
                  mb3 = upd_mlvl n (\<lambda>l. l\<lparr>ml_next_entry := ml_next_entry (mlvl mb2 target)\<rparr>) mb2
              in Inr (upd_mlvl target (\<lambda>l. l\<lparr>ml_next_entry := Some n\<rparr>) mb3)))
         else
           let mb1 = upd_mlvl n (\<lambda>l. l\<lparr>ml_prev_entry := ml_prev_entry (mlvl mb target)\<rparr>) mb;
               mb2 = upd_mlvl n (\<lambda>l. l\<lparr>ml_next_entry := Some target\<rparr>) mb1
           in bindE (deref (ml_prev_entry (mlvl mb2 target))) (\<lambda>p.
              let mb3 = upd_mlvl p (\<lambda>l. l\<lparr>ml_next_entry := Some n\<rparr>) mb2;
                  mb4 = upd_mlvl target (\<lambda>l. l\<lparr>ml_prev_entry := Some n\<rparr>) mb3
              in Inr (if (side = BUY \<and> price > ml_price (mlvl mb4 first))
                         \<or> (side = SELL \<and> price < ml_price (mlvl mb4 first))
                      then set_mk_best side (Some n)
                             (upd_mlvl target (\<lambda>l. l\<lparr>ml_next_entry :=
                                if ml_next_entry l = Some first then Some n else ml_next_entry l\<rparr>) mb4)
                      else mb4)))))"

definition mk_removeOrdersAtPrice :: "Side \<Rightarrow> Price \<Rightarrow> MarketOrderBook \<Rightarrow> MarketOrderBook res" where
  "mk_removeOrdersAtPrice side price mb =
     bindE (mk_getOrdersAtPrice price mb) (\<lambda>orders_at_price.
     bindE (deref orders_at_price) (\<lambda>n.
     bindE (if ml_next_entry (mlvl mb n) = Some n then Inr (set_mk_best side None mb)
            else bindE (deref (ml_prev_entry (mlvl mb n))) (\<lambda>p.
                 let mb1 = upd_mlvl p (\<lambda>l. l\<lparr>ml_next_entry := ml_next_entry (mlvl mb n)\<rparr>) mb
                 in bindE (deref (ml_next_entry (mlvl mb1 n))) (\<lambda>q.
                    let mb2 = upd_mlvl q (\<lambda>l. l\<lparr>ml_prev_entry := ml_prev_entry (mlvl mb1 n)\<rparr>) mb1;
                        mb3 = (if Some n = mk_best side mb then set_mk_best side (ml_next_entry (mlvl mb2 n)) mb2 else mb2)
                    in Inr (upd_mlvl n (\<lambda>l. l\<lparr>ml_prev_entry := None, ml_next_entry := None\<rparr>) mb3))))
     (\<lambda>mb'. bindE (array_put (unat ME_MAX_PRICE_LEVELS) (mk_price_orders_at_price mb') (unat (priceToIndex price)) None)
     (\<lambda>pmap. bindE (deallocate orders_at_price (mk_orders_at_price_pool mb'))
     (\<lambda>pool. Inr (mb'\<lparr>mk_price_orders_at_price := pmap, mk_orders_at_price_pool := pool\<rparr>))))))"


section \<open>Orders\<close>

text \<open>\<^verbatim>\<open>oid_to_order_.at(oid) = p\<close>.\<close>

definition put_oid :: "OrderId \<Rightarrow> ptr \<Rightarrow> MarketOrderBook \<Rightarrow> MarketOrderBook res" where
  "put_oid oid p mb =
     bindE (array_put (unat ME_MAX_ORDER_IDS) (oid_to_order mb) (unat oid) p) (\<lambda>row. Inr (mb\<lparr>oid_to_order := row\<rparr>))"

definition mk_removeOrder :: "ptr \<Rightarrow> MarketOrderBook \<Rightarrow> MarketOrderBook res" where
  "mk_removeOrder order mb =
     bindE (deref order) (\<lambda>i.
     bindE (mk_getOrdersAtPrice (mo_price (mord mb i)) mb) (\<lambda>orders_at_price.
     bindE (if mo_prev_order (mord mb i) = Some i
            then mk_removeOrdersAtPrice (mo_side (mord mb i)) (mo_price (mord mb i)) mb
            else let order_before = mo_prev_order (mord mb i); order_after = mo_next_order (mord mb i)
                 in bindE (deref order_before) (\<lambda>b.
                    let mb1 = upd_mord b (\<lambda>x. x\<lparr>mo_next_order := order_after\<rparr>) mb
                    in bindE (deref order_after) (\<lambda>a.
                       let mb2 = upd_mord a (\<lambda>x. x\<lparr>mo_prev_order := order_before\<rparr>) mb1
                       in bindE (deref orders_at_price) (\<lambda>n.
                          let mb3 = (if ml_first_mkt_order (mlvl mb2 n) = Some i
                                     then upd_mlvl n (\<lambda>l. l\<lparr>ml_first_mkt_order := order_after\<rparr>) mb2 else mb2)
                          in Inr (upd_mord i (\<lambda>x. x\<lparr>mo_prev_order := None, mo_next_order := None\<rparr>) mb3)))))
     (\<lambda>mb'. bindE (put_oid (mo_order_id (mord mb' i)) None mb')
     (\<lambda>mb''. bindE (deallocate order (mk_order_pool mb''))
     (\<lambda>pool. Inr (mb''\<lparr>mk_order_pool := pool\<rparr>))))))"

definition mk_addOrder :: "ptr \<Rightarrow> MarketOrderBook \<Rightarrow> MarketOrderBook res" where
  "mk_addOrder order mb =
     bindE (deref order) (\<lambda>i.
     bindE (mk_getOrdersAtPrice (mo_price (mord mb i)) mb) (\<lambda>orders_at_price.
     bindE (case orders_at_price of
              None \<Rightarrow>
                let mb1 = upd_mord i (\<lambda>x. x\<lparr>mo_next_order := Some i, mo_prev_order := Some i\<rparr>) mb;
                    (new_level, pool) =
                      allocate \<lparr>ml_side = mo_side (mord mb1 i), ml_price = mo_price (mord mb1 i),
                                ml_first_mkt_order = Some i, ml_prev_entry = None, ml_next_entry = None\<rparr>
                        (mk_orders_at_price_pool mb1)
                in mk_addOrdersAtPrice new_level (mb1\<lparr>mk_orders_at_price_pool := pool\<rparr>)
            | Some n \<Rightarrow>
                bindE (deref (ml_first_mkt_order (mlvl mb n))) (\<lambda>f.
                bindE (deref (mo_prev_order (mord mb f))) (\<lambda>p.
                let mb1 = upd_mord p (\<lambda>x. x\<lparr>mo_next_order := Some i\<rparr>) mb;
                    mb2 = upd_mord i (\<lambda>x. x\<lparr>mo_prev_order := mo_prev_order (mord mb1 f)\<rparr>) mb1;
                    mb3 = upd_mord i (\<lambda>x. x\<lparr>mo_next_order := Some f\<rparr>) mb2
                in Inr (upd_mord f (\<lambda>x. x\<lparr>mo_prev_order := Some i\<rparr>) mb3))))
     (\<lambda>mb'. put_oid (mo_order_id (mord mb' i)) (Some i) mb')))"


section \<open>The best bid and offer\<close>

text \<open>
  \<open>sum_level\<close> is the loop of \<open>updateBBO\<close> that adds the quantities of a level's orders, in 32 bits, from
  \<open>order\<close> up to the first order.
\<close>

fun sum_level :: "nat \<Rightarrow> nat \<Rightarrow> ptr \<Rightarrow> Qty \<Rightarrow> MarketOrderBook \<Rightarrow> Qty res" where
  "sum_level 0 first order qty mb = Inl Diverges"
| "sum_level (Suc fuel) first order qty mb =
     (if order \<noteq> Some first
      then bindE (deref order) (\<lambda>i. sum_level fuel first (mo_next_order (mord mb i)) (qty + mo_qty (mord mb i)) mb)
      else Inr qty)"

definition best_of_side :: "ptr \<Rightarrow> MarketOrderBook \<Rightarrow> (Price \<times> Qty) res" where
  "best_of_side side_ptr mb =
     (case side_ptr of
        None \<Rightarrow> Inr (Price_INVALID, Qty_INVALID)
      | Some n \<Rightarrow>
          bindE (deref (ml_first_mkt_order (mlvl mb n))) (\<lambda>f.
          bindE (sum_level (Suc (unat (store_size (mk_order_pool mb)))) f (mo_next_order (mord mb f)) (mo_qty (mord mb f)) mb)
          (\<lambda>q. Inr (ml_price (mlvl mb n), q))))"

definition book_updateBBO :: "bool \<Rightarrow> bool \<Rightarrow> MarketOrderBook \<Rightarrow> MarketOrderBook res" where
  "book_updateBBO update_bid update_ask mb =
     bindE (if update_bid
            then bindE (best_of_side (mk_bids_by_price mb) mb) (\<lambda>(p, q). Inr (mb\<lparr>mk_bbo := (mk_bbo mb)\<lparr>bbo_bid_price := p, bbo_bid_qty := q\<rparr>\<rparr>))
            else Inr mb) (\<lambda>mb.
     if update_ask
     then bindE (best_of_side (mk_asks_by_price mb) mb) (\<lambda>(p, q). Inr (mb\<lparr>mk_bbo := (mk_bbo mb)\<lparr>bbo_ask_price := p, bbo_ask_qty := q\<rparr>\<rparr>))
     else Inr mb)"


section \<open>Market updates\<close>

text \<open>
  Clearing: the orders of the table are deallocated, then the levels of each side, first the others and then
  the best one. The table of the price levels is not touched.
\<close>

fun clear_orders :: "nat list \<Rightarrow> MarketOrderBook \<Rightarrow> MarketOrderBook res" where
  "clear_orders [] mb = Inr mb"
| "clear_orders (k # ks) mb =
     (case oid_to_order mb k of
        None \<Rightarrow> clear_orders ks mb
      | Some i \<Rightarrow> bindE (deallocate (Some i) (mk_order_pool mb)) (\<lambda>pool. clear_orders ks (mb\<lparr>mk_order_pool := pool\<rparr>)))"

fun clear_levels :: "nat \<Rightarrow> nat \<Rightarrow> ptr \<Rightarrow> MarketOrderBook \<Rightarrow> MarketOrderBook res" where
  "clear_levels 0 first level mb = Inl Diverges"
| "clear_levels (Suc fuel) first level mb =
     (if level \<noteq> Some first
      then bindE (deallocate level (mk_orders_at_price_pool mb)) (\<lambda>pool.
           let mb = mb\<lparr>mk_orders_at_price_pool := pool\<rparr>
           in bindE (deref level) (\<lambda>n. clear_levels fuel first (ml_next_entry (mlvl mb n)) mb))
      else Inr mb)"

definition clear_side :: "ptr \<Rightarrow> MarketOrderBook \<Rightarrow> MarketOrderBook res" where
  "clear_side side_ptr mb =
     (case side_ptr of
        None \<Rightarrow> Inr mb
      | Some first \<Rightarrow>
          bindE (clear_levels (Suc (unat (store_size (mk_orders_at_price_pool mb)))) first (ml_next_entry (mlvl mb first)) mb)
          (\<lambda>mb. bindE (deallocate (Some first) (mk_orders_at_price_pool mb)) (\<lambda>pool.
          Inr (mb\<lparr>mk_orders_at_price_pool := pool\<rparr>))))"

definition clear_book :: "MarketOrderBook \<Rightarrow> MarketOrderBook res" where
  "clear_book mb =
     bindE (clear_orders [0..<unat ME_MAX_ORDER_IDS] mb) (\<lambda>mb.
     let mb = mb\<lparr>oid_to_order := (\<lambda>_. None)\<rparr>
     in bindE (clear_side (mk_bids_by_price mb) mb) (\<lambda>mb.
        bindE (clear_side (mk_asks_by_price mb) mb) (\<lambda>mb.
        Inr (mb\<lparr>mk_bids_by_price := None, mk_asks_by_price := None\<rparr>))))"

text \<open>
  The book ends by calling the trade engine, which does not change the book; the call is part of the result.
\<close>

datatype MarketEvent = OnTradeUpdate MEMarketUpdate | OnOrderBookUpdate TickerId Price Side

definition onMarketUpdate :: "MEMarketUpdate \<Rightarrow> MarketOrderBook \<Rightarrow> (MarketEvent \<times> MarketOrderBook) res" where
  "onMarketUpdate u mb =
     (let bid_updated = (case mk_bids_by_price mb of None \<Rightarrow> False
                         | Some n \<Rightarrow> upd_side u = BUY \<and> upd_price u \<ge> ml_price (mlvl mb n));
          ask_updated = (case mk_asks_by_price mb of None \<Rightarrow> False
                         | Some n \<Rightarrow> upd_side u = SELL \<and> upd_price u \<le> ml_price (mlvl mb n))
      in if upd_type u = Upd_TRADE then Inr (OnTradeUpdate u, mb)
         else bindE (case upd_type u of
                Upd_ADD \<Rightarrow>
                  (let (order, pool) =
                     allocate \<lparr>mo_order_id = upd_order_id u, mo_side = upd_side u, mo_price = upd_price u, mo_qty = upd_qty u,
                               mo_priority = upd_priority u, mo_prev_order = None, mo_next_order = None\<rparr> (mk_order_pool mb)
                   in mk_addOrder order (mb\<lparr>mk_order_pool := pool\<rparr>))
              | Upd_MODIFY \<Rightarrow>
                  bindE (array_at (unat ME_MAX_ORDER_IDS) (oid_to_order mb) (unat (upd_order_id u))) (\<lambda>order.
                  bindE (deref order) (\<lambda>i. Inr (upd_mord i (\<lambda>x. x\<lparr>mo_qty := upd_qty u\<rparr>) mb)))
              | Upd_CANCEL \<Rightarrow>
                  bindE (array_at (unat ME_MAX_ORDER_IDS) (oid_to_order mb) (unat (upd_order_id u))) (\<lambda>order.
                  mk_removeOrder order mb)
              | Upd_CLEAR \<Rightarrow> clear_book mb
              | _ \<Rightarrow> Inr mb) (\<lambda>mb.
            bindE (book_updateBBO bid_updated ask_updated mb) (\<lambda>mb.
            Inr (OnOrderBookUpdate (upd_ticker_id u) (upd_price u) (upd_side u), mb))))"

end
