(* ===== verification/Positions.thy ===== *)
theory Positions
  imports Market_Order_Book
begin

text \<open>
  trading/strategy/position_keeper.h and risk_manager.h: what the trade engine holds of each instrument, what
  it earned with it, and the check of a new order against the limits. \<^verbatim>\<open>int\<close> arithmetic is checked: a
  product, sum or absolute value that leaves the 32 (or 64) bits is undefined behaviour. \<^verbatim>\<open>double\<close> values are
  real numbers.
\<close>

section \<open>Checked arithmetic\<close>

definition int32 :: "int \<Rightarrow> int res" where
  "int32 x = (if - (2 ^ 31) \<le> x \<and> x < 2 ^ 31 then Inr x else Inl SignedOverflow)"

definition int64 :: "int \<Rightarrow> int res" where
  "int64 x = (if - (2 ^ 63) \<le> x \<and> x < 2 ^ 63 then Inr x else Inl SignedOverflow)"

lemma int32_simps [simp]: "- (2 ^ 31) \<le> x \<Longrightarrow> x < 2 ^ 31 \<Longrightarrow> int32 x = Inr x"
  by (simp add: int32_def)

lemma int64_simps [simp]: "- (2 ^ 63) \<le> x \<Longrightarrow> x < 2 ^ 63 \<Longrightarrow> int64 x = Inr x"
  by (simp add: int64_def)

lemma int_checked [res_simps]:
  "int32 x = Inr y \<longleftrightarrow> - (2 ^ 31) \<le> x \<and> x < 2 ^ 31 \<and> y = x"
  "int64 x = Inr y \<longleftrightarrow> - (2 ^ 63) \<le> x \<and> x < 2 ^ 63 \<and> y = x"
  by (auto simp: int32_def int64_def)

text \<open>An array of one element for each value of \<open>Side\<close>, and \<^verbatim>\<open>operator[]\<close> on it.\<close>

definition side_array_size :: nat where "side_array_size = 4"

definition side_get :: "Side \<Rightarrow> (nat \<Rightarrow> 'a) \<Rightarrow> 'a res" where
  "side_get side a = array_idx side_array_size a (unat (sideToIndex side))"

definition side_set :: "Side \<Rightarrow> 'a \<Rightarrow> (nat \<Rightarrow> 'a) \<Rightarrow> (nat \<Rightarrow> 'a) res" where
  "side_set side x a = bindE (side_get side a) (\<lambda>_. Inr (a(unat (sideToIndex side) := x)))"

lemma side_array_simps [simp]:
  "side_get BUY a = Inr (a 2)" "side_get SELL a = Inr (a 0)"
  "side_set BUY x a = Inr (a(2 := x))" "side_set SELL x a = Inr (a(0 := x))"
  by (simp_all add: side_set_def side_get_def side_array_size_def)


section \<open>Positions\<close>

text \<open>\<open>pi_bbo\<close> is the number of the book whose best bid and offer the pointer shows.\<close>

record PositionInfo =
  position :: "32 word"
  real_pnl :: real
  unreal_pnl :: real
  total_pnl :: real
  open_vwap :: "nat \<Rightarrow> real"
  volume :: Qty
  pi_bbo :: ptr

text \<open>\<open>open_vwap_\<close> has no initial value; \<open>vwap_mem\<close> is what its memory holds.\<close>

definition PositionInfo_init :: "(nat \<Rightarrow> real) \<Rightarrow> PositionInfo" where
  "PositionInfo_init vwap_mem =
     \<lparr>position = 0, real_pnl = 0, unreal_pnl = 0, total_pnl = 0, open_vwap = vwap_mem, volume = 0, pi_bbo = None\<rparr>"

definition opposite :: "Side \<Rightarrow> Side" where
  "opposite side = (if side = BUY then SELL else BUY)"

text \<open>The part of \<open>addFill\<close> for a fill that reduces the position, or turns it round.\<close>

definition reduce_position :: "MEClientResponse \<Rightarrow> int \<Rightarrow> PositionInfo \<Rightarrow> PositionInfo res" where
  "reduce_position r old_position info =
     (let side = rsp_side r; opp_side = opposite side; pos = sint (position info)
      in bindE (int32 \<bar>old_position\<bar>) (\<lambda>abs_old.
         bindE (side_get opp_side (open_vwap info)) (\<lambda>opp_open.
         let opp_side_vwap = opp_open / real_of_int abs_old
         in bindE (int32 \<bar>pos\<bar>) (\<lambda>abs_pos.
            bindE (side_set opp_side (opp_side_vwap * real_of_int abs_pos) (open_vwap info)) (\<lambda>vwap.
            let info = info\<lparr>open_vwap := vwap,
                  real_pnl := real_pnl info + real_of_int (min (sint (rsp_exec_qty r)) abs_old)
                    * (opp_side_vwap - real_of_int (rsp_price r)) * real_of_int (sideToValue side)\<rparr>
            in bindE (int32 (pos * old_position)) (\<lambda>product.
               if product < 0 then
                 bindE (int64 (rsp_price r * abs_pos)) (\<lambda>notional.
                 bindE (side_set side (real_of_int notional) (open_vwap info)) (\<lambda>vwap.
                 bindE (side_set opp_side 0 vwap) (\<lambda>vwap. Inr (info\<lparr>open_vwap := vwap\<rparr>))))
               else Inr info))))))"

text \<open>The profit that closing the position at a price would bring.\<close>

definition open_pnl :: "real \<Rightarrow> PositionInfo \<Rightarrow> real res" where
  "open_pnl price info =
     (let pos = sint (position info)
      in bindE (int32 \<bar>pos\<bar>) (\<lambda>abs_pos.
         if pos > 0 then bindE (side_get BUY (open_vwap info)) (\<lambda>v.
           Inr ((price - v / real_of_int abs_pos) * real_of_int abs_pos))
         else bindE (side_get SELL (open_vwap info)) (\<lambda>v.
           Inr ((v / real_of_int abs_pos - price) * real_of_int abs_pos))))"

text \<open>The part of \<open>addFill\<close> for a fill that opens or increases the position.\<close>

definition increase_position :: "MEClientResponse \<Rightarrow> PositionInfo \<Rightarrow> PositionInfo res" where
  "increase_position r info =
     bindE (int64 (rsp_price r * uint (rsp_exec_qty r))) (\<lambda>notional.
     bindE (side_get (rsp_side r) (open_vwap info)) (\<lambda>v.
     bindE (side_set (rsp_side r) (v + real_of_int notional) (open_vwap info)) (\<lambda>vwap.
     Inr (info\<lparr>open_vwap := vwap\<rparr>))))"

text \<open>The end of \<open>addFill\<close>: the open profit at the fill's price, and the total.\<close>

definition mark_position :: "Price \<Rightarrow> PositionInfo \<Rightarrow> PositionInfo res" where
  "mark_position price info =
     bindE (if position info = 0 then
              bindE (side_set SELL 0 (open_vwap info)) (\<lambda>vwap.
              bindE (side_set BUY 0 vwap) (\<lambda>vwap. Inr (info\<lparr>open_vwap := vwap, unreal_pnl := 0\<rparr>)))
            else bindE (open_pnl (real_of_int price) info) (\<lambda>u. Inr (info\<lparr>unreal_pnl := u\<rparr>))) (\<lambda>info.
     Inr (info\<lparr>total_pnl := unreal_pnl info + real_pnl info\<rparr>))"

definition addFill :: "MEClientResponse \<Rightarrow> PositionInfo \<Rightarrow> PositionInfo res" where
  "addFill r info =
     (let old_position = sint (position info);
          info = info\<lparr>position := position info + rsp_exec_qty r * word_of_int (sideToValue (rsp_side r)),
                  volume := volume info + rsp_exec_qty r\<rparr>
      in bindE (int32 (old_position * sideToValue (rsp_side r))) (\<lambda>product.
         bindE (if product \<ge> 0 then increase_position r info else reduce_position r old_position info)
           (mark_position (rsp_price r))))"

definition pos_updateBBO :: "nat \<Rightarrow> BBO \<Rightarrow> PositionInfo \<Rightarrow> PositionInfo res" where
  "pos_updateBBO book bbo info =
     (let info = info\<lparr>pi_bbo := Some book\<rparr>
      in if position info \<noteq> 0 \<and> bbo_bid_price bbo \<noteq> Price_INVALID \<and> bbo_ask_price bbo \<noteq> Price_INVALID then
           bindE (int64 (bbo_bid_price bbo + bbo_ask_price bbo)) (\<lambda>sum.
           bindE (open_pnl (real_of_int sum * (1 / 2)) info) (\<lambda>u.
           let info = info\<lparr>unreal_pnl := u\<rparr> in Inr (info\<lparr>total_pnl := unreal_pnl info + real_pnl info\<rparr>)))
         else Inr info)"


section \<open>The position keeper\<close>

type_synonym PositionKeeper = "nat \<Rightarrow> PositionInfo"

definition PositionKeeper_init :: "(nat \<Rightarrow> nat \<Rightarrow> real) \<Rightarrow> PositionKeeper" where
  "PositionKeeper_init vwap_mem = (\<lambda>i. PositionInfo_init (vwap_mem i))"

definition pk_addFill :: "MEClientResponse \<Rightarrow> PositionKeeper \<Rightarrow> PositionKeeper res" where
  "pk_addFill r pk =
     bindE (array_at ME_MAX_TICKERS pk (unat (rsp_ticker_id r))) (\<lambda>info.
     bindE (addFill r info) (\<lambda>info. Inr (pk(unat (rsp_ticker_id r) := info))))"

definition pk_updateBBO :: "TickerId \<Rightarrow> nat \<Rightarrow> BBO \<Rightarrow> PositionKeeper \<Rightarrow> PositionKeeper res" where
  "pk_updateBBO ticker_id book bbo pk =
     bindE (array_at ME_MAX_TICKERS pk (unat ticker_id)) (\<lambda>info.
     bindE (pos_updateBBO book bbo info) (\<lambda>info. Inr (pk(unat ticker_id := info))))"


section \<open>Risk checks\<close>

datatype RiskCheckResult = Risk_INVALID | ORDER_TOO_LARGE | POSITION_TOO_LARGE | LOSS_TOO_LARGE | ALLOWED

primrec riskCheckResultToString :: "RiskCheckResult \<Rightarrow> string" where
  "riskCheckResultToString Risk_INVALID = ''INVALID''"
| "riskCheckResultToString ORDER_TOO_LARGE = ''ORDER_TOO_LARGE''"
| "riskCheckResultToString POSITION_TOO_LARGE = ''POSITION_TOO_LARGE''"
| "riskCheckResultToString LOSS_TOO_LARGE = ''LOSS_TOO_LARGE''"
| "riskCheckResultToString ALLOWED = ''ALLOWED''"

text \<open>\<open>ri_position_info\<close> points to an entry of the position keeper.\<close>

record RiskInfo =
  ri_position_info :: ptr
  ri_risk_cfg :: RiskCfg

definition checkRisk :: "Side \<Rightarrow> Qty \<Rightarrow> RiskInfo \<Rightarrow> PositionKeeper \<Rightarrow> RiskCheckResult res" where
  "checkRisk side qty ri pk =
     (if qty > max_order_size (ri_risk_cfg ri) then Inr ORDER_TOO_LARGE
      else bindE (deref (ri_position_info ri)) (\<lambda>i.
           bindE (int32 (sideToValue side * sint qty)) (\<lambda>change.
           bindE (int32 (sint (position (pk i)) + change)) (\<lambda>target.
           bindE (int32 \<bar>target\<bar>) (\<lambda>abs_target.
           if abs_target > sint (max_position (ri_risk_cfg ri)) then Inr POSITION_TOO_LARGE
           else if total_pnl (pk i) < max_loss (ri_risk_cfg ri) then Inr LOSS_TOO_LARGE
           else Inr ALLOWED)))))"

type_synonym RiskManager = "nat \<Rightarrow> RiskInfo"
type_synonym TradeEngineCfgHashMap = "nat \<Rightarrow> TradeEngineCfg"

definition RiskManager_init :: "TradeEngineCfgHashMap \<Rightarrow> RiskManager" where
  "RiskManager_init ticker_cfg = (\<lambda>i. \<lparr>ri_position_info = Some i, ri_risk_cfg = risk_cfg (ticker_cfg i)\<rparr>)"

definition checkPreTradeRisk :: "TickerId \<Rightarrow> Side \<Rightarrow> Qty \<Rightarrow> RiskManager \<Rightarrow> PositionKeeper \<Rightarrow> RiskCheckResult res" where
  "checkPreTradeRisk ticker_id side qty rm pk =
     bindE (array_at ME_MAX_TICKERS rm (unat ticker_id)) (\<lambda>ri. checkRisk side qty ri pk)"

lemma sint_small: "uint (q :: 32 word) < 2 ^ 31 \<Longrightarrow> sint q = uint q"
proof -
  assume q: "uint q < 2 ^ 31"
  have "0 \<le> uint q" by simp
  then have "- (2 ^ 31) \<le> uint q" by (rule order.trans [rotated]) simp
  then show ?thesis using q by (simp add: sint_uint signed_take_bit_int_eq_self)
qed

lemma sint_plus:
  fixes a b :: "32 word"
  assumes "- (2 ^ 31) \<le> sint a + sint b" "sint a + sint b < 2 ^ 31"
  shows "sint (a + b) = sint a + sint b"
  using assms by (simp add: sint_word_ariths signed_take_bit_int_eq_self)

lemma sint_minus:
  fixes a b :: "32 word"
  assumes "- (2 ^ 31) \<le> sint a - sint b" "sint a - sint b < 2 ^ 31"
  shows "sint (a - b) = sint a - sint b"
  using assms by (simp add: sint_word_ariths signed_take_bit_int_eq_self)

text \<open>What a fill does to the position and to the cash.\<close>

definition fill_change :: "MEClientResponse \<Rightarrow> int" where
  "fill_change r = sideToValue (rsp_side r) * uint (rsp_exec_qty r)"

text \<open>Fills whose numbers stay away from the bounds of the types.\<close>

definition proper_fill :: "MEClientResponse \<Rightarrow> bool" where
  "proper_fill r \<longleftrightarrow> (rsp_side r = BUY \<or> rsp_side r = SELL) \<and> \<bar>rsp_price r\<bar> < 2 ^ 31 \<and> uint (rsp_exec_qty r) < 2 ^ 31"

text \<open>The books are kept up to a constant \<open>e\<close>: the realised profit is the cash, \<open>e\<close> and what the open position cost.\<close>

definition accounts :: "real \<Rightarrow> int \<Rightarrow> int \<Rightarrow> PositionInfo \<Rightarrow> bool" where
  "accounts e cash net info \<longleftrightarrow> sint (position info) = net
     \<and> real_pnl info = real_of_int cash + e + (if net > 0 then open_vwap info 2 else if net < 0 then - open_vwap info 0 else 0)"

text \<open>What \<open>addFill\<close> carries into the profit when a fill opens a position: what \<open>open_vwap_\<close> of its side held.\<close>

definition carried :: "MEClientResponse \<Rightarrow> PositionInfo \<Rightarrow> real" where
  "carried r info = (if sint (position info) \<noteq> 0 \<or> rsp_exec_qty r = 0 then 0
     else if rsp_side r = BUY then - open_vwap info 2 else open_vwap info 0)"

text \<open>A flat position holds no cost. The first fill excepted, every fill leaves it so.\<close>

definition cleared :: "PositionInfo \<Rightarrow> bool" where
  "cleared info \<longleftrightarrow> (position info = 0 \<longrightarrow> open_vwap info 0 = 0 \<and> open_vwap info 2 = 0)"

lemma cleared_carried: "cleared info \<Longrightarrow> carried r info = 0"
  by (simp add: cleared_def carried_def signed_eq_0_iff)

lemma price_times:
  assumes "\<bar>p\<bar> < 2 ^ 31" "\<bar>k\<bar> \<le> (2 ^ 31 :: int)"
  shows "int64 (p * k) = Inr (p * k)"
proof -
  have "\<bar>p * k\<bar> \<le> 2 ^ 31 * 2 ^ 31" unfolding abs_mult using assms by (intro mult_mono) auto
  then show ?thesis by (intro int64_simps) auto
qed

lemma addFill_position:
  assumes "proper_fill r" and "\<bar>sint (position info) + fill_change r\<bar> < 2 ^ 31"
  shows "sint (position info + rsp_exec_qty r * word_of_int (sideToValue (rsp_side r))) = sint (position info) + fill_change r"
  using assms sint_small [of "rsp_exec_qty r"] sint_plus [of "position info" "rsp_exec_qty r"] sint_minus [of "position info" "rsp_exec_qty r"]
  by (auto simp: proper_fill_def fill_change_def)

lemma small_product:
  assumes "\<bar>m\<bar> \<le> (46340 :: int)" "\<bar>n\<bar> \<le> 46340"
  shows "int32 (m * n) = Inr (m * n)"
proof -
  have "\<bar>m * n\<bar> \<le> 46340 * 46340" unfolding abs_mult using assms by (intro mult_mono) auto
  then show ?thesis by (intro int32_simps) auto
qed


lemma mark_ok:
  assumes "accounts e cash net info" and "\<bar>net\<bar> < 2 ^ 31"
  shows "\<exists>info'. mark_position price info = Inr info' \<and> accounts e cash net info' \<and> cleared info'
    \<and> total_pnl info' = real_of_int cash + real_of_int net * real_of_int price + e \<and> volume info' = volume info"
proof -
  have net: "sint (position info) = net" using assms(1) by (simp add: accounts_def)
  have ab: "int32 \<bar>net\<bar> = Inr \<bar>net\<bar>" using assms(2) by simp
  consider "net = 0" | "net > 0" | "net < 0" by linarith
  then show ?thesis
  proof cases
    case 1
    then have "position info = 0" using net by (simp add: signed_eq_0_iff)
    then show ?thesis using 1 assms(1) by (auto simp: mark_position_def accounts_def cleared_def)
  next
    case 2
    have "(real_of_int price - v / real_of_int net) * real_of_int net = real_of_int net * real_of_int price - v" for v using 2 by (simp add: algebra_simps)
    then show ?thesis using assms(1) net ab 2 by (auto simp: mark_position_def accounts_def cleared_def open_pnl_def Let_def)
  next
    case 3
    have "(v / - real_of_int net - real_of_int price) * - real_of_int net = v + real_of_int net * real_of_int price" for v using 3 by (simp add: field_simps)
    then show ?thesis using assms(1) net ab 3 by (auto simp: mark_position_def accounts_def cleared_def open_pnl_def Let_def)
  qed
qed

text \<open>A fill that opens or increases the position.\<close>

lemma addFill_open:
  assumes a: "accounts e cash net info" and p: "proper_fill r" and b: "\<bar>net\<bar> < 2 ^ 31" "\<bar>net + fill_change r\<bar> < 2 ^ 31"
    and up: "0 \<le> net * sideToValue (rsp_side r)"
  shows "\<exists>info'. addFill r info = Inr info'
    \<and> accounts (e + carried r info) (cash - rsp_price r * fill_change r) (net + fill_change r) info' \<and> cleared info'
    \<and> total_pnl info' = real_of_int (cash - rsp_price r * fill_change r)
        + real_of_int (net + fill_change r) * real_of_int (rsp_price r) + (e + carried r info)
    \<and> volume info' = volume info + rsp_exec_qty r"
proof -
  have net: "sint (position info) = net" using a by (simp add: accounts_def)
  let ?pos = "position info + rsp_exec_qty r * word_of_int (sideToValue (rsp_side r))"
  have pos: "sint ?pos = net + fill_change r" using addFill_position [OF p, of info] b(2) net by simp
  have i64: "int64 (rsp_price r * uint (rsp_exec_qty r)) = Inr (rsp_price r * uint (rsp_exec_qty r))"
    using p by (intro price_times) (auto simp: proper_fill_def)
  obtain q where q: "uint (rsp_exec_qty r) = q" "0 \<le> q" by simp
  have q0: "rsp_exec_qty r = 0 \<longleftrightarrow> q = 0" using q(1) by (simp add: uint_0_iff [symmetric])
  have n0: "sint (position info) = 0 \<longleftrightarrow> net = 0" using net by simp
  have i32: "int32 (net * sideToValue (rsp_side r)) = Inr (net * sideToValue (rsp_side r))"
    using p b(1) by (auto simp: proper_fill_def)
  let ?mid = "info\<lparr>position := ?pos, volume := volume info + rsp_exec_qty r\<rparr>"
  let ?k = "if rsp_side r = BUY then 2 else 0"
  let ?vwap = "(open_vwap info)(?k := open_vwap info ?k + real_of_int (rsp_price r * uint (rsp_exec_qty r)))"
  let ?info = "?mid\<lparr>open_vwap := ?vwap\<rparr>"
  have inc: "increase_position r ?mid = Inr ?info"
    using i64 p by (auto simp: increase_position_def proper_fill_def)
  have side: "rsp_side r = BUY \<and> 0 \<le> net \<or> rsp_side r = SELL \<and> net \<le> 0"
    using p up by (auto simp: proper_fill_def)
  have "accounts (e + carried r info) (cash - rsp_price r * fill_change r) (net + fill_change r) ?info"
  proof (cases "rsp_side r = BUY")
    case True
    then have "0 \<le> net" using side by simp
    then show ?thesis using a pos q True by (cases "net = 0"; cases "q = 0") (simp_all add: accounts_def fill_change_def carried_def q0)
  next
    case False
    then have "rsp_side r = SELL" "net \<le> 0" using side by simp_all
    then show ?thesis using a pos q by (cases "net = 0"; cases "q = 0") (simp_all add: accounts_def fill_change_def carried_def q0)
  qed
  from mark_ok [OF this b(2), of "rsp_price r"] show ?thesis
    using i32 up net inc by (simp add: addFill_def Let_def)
qed


text \<open>A fill that reduces the position or turns it round.\<close>

lemma reduce_conv:
  assumes side: "rsp_side r = BUY \<and> k = 2 \<and> j = (0::nat) \<or> rsp_side r = SELL \<and> k = 0 \<and> j = 2"
    and new: "sint (position info) = new" and ok: "int32 \<bar>old\<bar> = Inr \<bar>old\<bar>" "int32 \<bar>new\<bar> = Inr \<bar>new\<bar>" "int32 (new * old) = Inr (new * old)"
      "int64 (rsp_price r * \<bar>new\<bar>) = Inr (rsp_price r * \<bar>new\<bar>)"
    and avg: "avg = open_vwap info j / real_of_int \<bar>old\<bar>"
    and real: "profit = real_pnl info + real_of_int (min (sint (rsp_exec_qty r)) \<bar>old\<bar>)
      * (avg - real_of_int (rsp_price r)) * real_of_int (sideToValue (rsp_side r))"
  shows "reduce_position r old info = Inr (info\<lparr>open_vwap :=
      (if new * old < 0 then (open_vwap info)(k := real_of_int (rsp_price r * \<bar>new\<bar>), j := 0)
       else (open_vwap info)(j := avg * real_of_int \<bar>new\<bar>)), real_pnl := profit\<rparr>)"
  using side new ok unfolding real avg by (auto simp: reduce_position_def Let_def opposite_def)


lemma reduce_accounts:
  assumes a: "accounts e cash net info" and p: "proper_fill r" and b: "\<bar>net\<bar> \<le> 46340" "\<bar>net + fill_change r\<bar> \<le> 46340"
    and side: "rsp_side r = BUY \<and> net < 0 \<or> rsp_side r = SELL \<and> 0 < net"
    and pos: "sint pos = net + fill_change r"
  shows "\<exists>info'. reduce_position r net (info\<lparr>position := pos, volume := vol\<rparr>) = Inr info'
    \<and> accounts e (cash - rsp_price r * fill_change r) (net + fill_change r) info' \<and> volume info' = vol"
proof -
  obtain q where q: "uint (rsp_exec_qty r) = q" "0 \<le> q" by simp
  have sq: "sint (rsp_exec_qty r) = q" using p q sint_small by (auto simp: proper_fill_def)
  define new where "new = net + fill_change r"
  define j where "j = (if rsp_side r = BUY then 0 else (2::nat))"
  define k where "k = (if rsp_side r = BUY then 2 else (0::nat))"
  define avg where "avg = open_vwap info j / real_of_int \<bar>net\<bar>"
  define profit where "profit = real_pnl info + real_of_int (min q \<bar>net\<bar>) * (avg - real_of_int (rsp_price r))
    * real_of_int (sideToValue (rsp_side r))"
  have ok: "int32 \<bar>net\<bar> = Inr \<bar>net\<bar>" "int32 \<bar>new\<bar> = Inr \<bar>new\<bar>" "int32 (new * net) = Inr (new * net)"
    using b small_product [OF b(2,1)] by (simp_all add: new_def)
  have i64: "int64 (rsp_price r * \<bar>new\<bar>) = Inr (rsp_price r * \<bar>new\<bar>)"
    using p b by (intro price_times) (auto simp: proper_fill_def new_def)
  let ?info = "info\<lparr>position := pos, volume := vol, open_vwap :=
      (if new * net < 0 then (open_vwap info)(k := real_of_int (rsp_price r * \<bar>new\<bar>), j := 0)
       else (open_vwap info)(j := avg * real_of_int \<bar>new\<bar>)), real_pnl := profit\<rparr>"
  have "reduce_position r net (info\<lparr>position := pos, volume := vol\<rparr>) = Inr ?info"
    using reduce_conv [of r k j "info\<lparr>position := pos, volume := vol\<rparr>" new net avg profit] side pos ok i64
    by (auto simp: j_def k_def new_def avg_def profit_def sq)
  moreover have "accounts e (cash - rsp_price r * fill_change r) new ?info"
  proof (cases "rsp_side r = BUY")
    case True
    then have s: "net < 0" "j = 0" "k = 2" "new = net + q" "sideToValue (rsp_side r) = 1" "fill_change r = q"
      using side by (simp_all add: j_def k_def new_def fill_change_def q)
    have v: "open_vwap info 0 = - avg * real_of_int net" using s by (simp add: avg_def)
    have rp: "real_pnl info = real_of_int cash + e - open_vwap info 0" using a s(1) by (simp_all add: accounts_def)
    consider "new < 0" | "new = 0" | "0 < new" by linarith
    then show ?thesis
    proof cases
      case 1
      then have "min q \<bar>net\<bar> = q" "0 < new * net" using s by (auto intro: mult_neg_neg)
      then show ?thesis using 1 s pos rp v by (simp add: accounts_def profit_def new_def algebra_simps)
    next
      case 2
      then have m: "min q \<bar>net\<bar> = - net" and qn: "q = - net" using s by linarith+
      then have "avg * real_of_int net + avg * real_of_int q = 0" by simp
      then show ?thesis using m 2 s pos rp v by (simp add: accounts_def profit_def new_def algebra_simps)
    next
      case 3
      then have "min q \<bar>net\<bar> = - net" "new * net < 0" using s by (auto simp: mult_less_0_iff)
      then show ?thesis using 3 s pos rp v by (simp add: accounts_def profit_def new_def algebra_simps)
    qed
  next
    case False
    then have s: "0 < net" "j = 2" "k = 0" "new = net - q" "sideToValue (rsp_side r) = -1" "fill_change r = - q"
      using side by (simp_all add: j_def k_def new_def fill_change_def q)
    have v: "open_vwap info 2 = avg * real_of_int net" using s by (simp add: avg_def)
    have rp: "real_pnl info = real_of_int cash + e + open_vwap info 2" using a s(1) by (simp_all add: accounts_def)
    consider "new < 0" | "new = 0" | "0 < new" by linarith
    then show ?thesis
    proof cases
      case 1
      then have "min q \<bar>net\<bar> = net" "new * net < 0" using s by (auto simp: mult_less_0_iff)
      then show ?thesis using 1 s pos rp v by (simp add: accounts_def profit_def new_def algebra_simps)
    next
      case 2
      then have m: "min q \<bar>net\<bar> = net" and qn: "q = net" using s by linarith+
      then have "avg * real_of_int net = avg * real_of_int q" by simp
      then show ?thesis using m 2 s pos rp v by (simp add: accounts_def profit_def new_def algebra_simps)
    next
      case 3
      then have "min q \<bar>net\<bar> = q" "0 < new * net" using s by (auto intro: mult_pos_pos)
      then show ?thesis using 3 s pos rp v by (simp add: accounts_def profit_def new_def algebra_simps)
    qed
  qed
  moreover have "volume ?info = vol" by simp
  ultimately show ?thesis unfolding new_def [symmetric] by blast
qed

lemma addFill_ok:
  assumes a: "accounts e cash net info" and p: "proper_fill r" and b: "\<bar>net\<bar> \<le> 46340" "\<bar>net + fill_change r\<bar> \<le> 46340"
  shows "\<exists>info'. addFill r info = Inr info'
    \<and> accounts (e + carried r info) (cash - rsp_price r * fill_change r) (net + fill_change r) info' \<and> cleared info'
    \<and> total_pnl info' = real_of_int (cash - rsp_price r * fill_change r)
        + real_of_int (net + fill_change r) * real_of_int (rsp_price r) + (e + carried r info)
    \<and> volume info' = volume info + rsp_exec_qty r"
proof (cases "0 \<le> net * sideToValue (rsp_side r)")
  case True
  then show ?thesis using addFill_open [OF a p] b by simp
next
  case False
  have net: "sint (position info) = net" using a by (simp add: accounts_def)
  let ?pos = "position info + rsp_exec_qty r * word_of_int (sideToValue (rsp_side r))"
  have pos: "sint ?pos = net + fill_change r" using addFill_position [OF p, of info] b(2) net by simp
  have side: "rsp_side r = BUY \<and> net < 0 \<or> rsp_side r = SELL \<and> 0 < net"
    using p False by (auto simp: proper_fill_def)
  then have e: "carried r info = 0" using net by (auto simp: carried_def)
  obtain info1 where red: "reduce_position r net (info\<lparr>position := ?pos, volume := volume info + rsp_exec_qty r\<rparr>) = Inr info1"
    "accounts e (cash - rsp_price r * fill_change r) (net + fill_change r) info1" "volume info1 = volume info + rsp_exec_qty r"
    using reduce_accounts [OF a p b side pos] by blast
  have i32: "int32 (net * sideToValue (rsp_side r)) = Inr (net * sideToValue (rsp_side r))"
    using p b(1) by (auto simp: proper_fill_def)
  have "\<bar>net + fill_change r\<bar> < 2 ^ 31" using b(2) by simp
  from mark_ok [OF red(2) this, of "rsp_price r"] show ?thesis
    using i32 False net red(1,3) e by (simp add: addFill_def Let_def)
qed


section \<open>Properties\<close>

text \<open>The position, the cash and the volume that a list of fills adds up to.\<close>

definition net_of :: "MEClientResponse list \<Rightarrow> int" where
  "net_of rs = sum_list (map fill_change rs)"

definition cash_of :: "MEClientResponse list \<Rightarrow> int" where
  "cash_of rs = - sum_list (map (\<lambda>r. rsp_price r * fill_change r) rs)"

definition volume_of :: "MEClientResponse list \<Rightarrow> int" where
  "volume_of rs = sum_list (map (\<lambda>r. uint (rsp_exec_qty r)) rs)"

lemma net_le_volume: "list_all proper_fill rs \<Longrightarrow> \<bar>net_of rs\<bar> \<le> volume_of rs \<and> 0 \<le> volume_of rs"
proof (induction rs)
  case (Cons r rs)
  have "\<bar>fill_change r\<bar> \<le> uint (rsp_exec_qty r)" using Cons.prems by (auto simp: proper_fill_def fill_change_def)
  then show ?case using Cons by (auto simp: net_of_def volume_of_def)
qed (simp add: net_of_def volume_of_def)

lemma sums_append [simp]:
  "net_of (rs @ [r]) = net_of rs + fill_change r" "cash_of (rs @ [r]) = cash_of rs - rsp_price r * fill_change r"
  "volume_of (rs @ [r]) = volume_of rs + uint (rsp_exec_qty r)"
  by (simp_all add: net_of_def cash_of_def volume_of_def)

text \<open>What the fills carry into the profit from memory that was never written: the first fill adds to
  \<open>open_vwap_\<close> of its side.\<close>

definition never_written :: "(nat \<Rightarrow> real) \<Rightarrow> MEClientResponse list \<Rightarrow> real" where
  "never_written vwap_mem rs = carried (hd rs) (PositionInfo_init vwap_mem)"

lemma fills_ok:
  assumes "list_all proper_fill rs" and "volume_of rs \<le> 46340" and "rs \<noteq> []"
  shows "\<exists>info. foldE addFill rs (PositionInfo_init vwap_mem) = Inr info
    \<and> accounts (never_written vwap_mem rs) (cash_of rs) (net_of rs) info \<and> cleared info \<and> uint (volume info) = volume_of rs
    \<and> total_pnl info = real_of_int (cash_of rs + net_of rs * rsp_price (last rs)) + never_written vwap_mem rs"
  using assms
proof (induction rs rule: rev_induct)
  case (snoc r rs)
  let ?init = "PositionInfo_init vwap_mem"
  have "0 \<le> uint (rsp_exec_qty r)" by simp
  then have le: "volume_of rs \<le> 46340" using snoc.prems(2) unfolding sums_append by linarith
  obtain e info where info: "foldE addFill rs ?init = Inr info" "accounts e (cash_of rs) (net_of rs) info"
    "uint (volume info) = volume_of rs" and e: "e + carried r info = never_written vwap_mem (rs @ [r])"
  proof (cases "rs = []")
    case True
    have "accounts 0 (cash_of rs) (net_of rs) ?init" "uint (volume ?init) = volume_of rs"
      using True by (simp_all add: accounts_def PositionInfo_init_def net_of_def cash_of_def volume_of_def)
    then show ?thesis using True that [of ?init 0] by (simp add: never_written_def)
  next
    case False
    then show ?thesis
      using snoc.IH snoc.prems(1) le that cleared_carried by (auto simp: never_written_def)
  qed
  have b: "\<bar>net_of rs\<bar> \<le> 46340" "\<bar>net_of rs + fill_change r\<bar> \<le> 46340"
    using net_le_volume [of rs] net_le_volume [of "rs @ [r]"] snoc.prems le by auto
  have p: "proper_fill r" using snoc.prems(1) by simp
  obtain info' where info': "addFill r info = Inr info'" "cleared info'"
    "accounts (never_written vwap_mem (rs @ [r])) (cash_of rs - rsp_price r * fill_change r) (net_of rs + fill_change r) info'"
    "total_pnl info' = real_of_int (cash_of rs - rsp_price r * fill_change r)
       + real_of_int (net_of rs + fill_change r) * real_of_int (rsp_price r) + never_written vwap_mem (rs @ [r])"
    "volume info' = volume info + rsp_exec_qty r"
    using addFill_ok [OF info(2) p b] unfolding e by blast
  have "uint (volume info') = volume_of (rs @ [r])"
    using info(3) info'(5) snoc.prems net_le_volume [of "rs @ [r]"] by (simp add: uint_word_ariths)
  then show ?case using info(1) info'(1-4) by (simp add: foldE_append)
qed simp

text \<open>C12: the profit that the position keeper shows is what the fills were worth, off by a constant that the code
  never initialised. After any list of fills of at most 46340 in all, whatever their sides and prices and
  whatever the memory of \<open>open_vwap_\<close> held at the start, the position is what was bought less what was sold, the
  volume is the sum of the quantities, and the total profit is the cash of all fills plus the position at the
  last price, through every increase, reduction and turn of the position, plus an error: if the first fill is a
  purchase, less the memory of the BUY entry, if it is a sale, plus the memory of the SELL entry, if its quantity is 0, nothing.
  The error never leaves the profit, also when the position is flat again; the sums are exact when
  the memory happens to be zero.\<close>

theorem pnl_accounting:
  assumes "list_all proper_fill (r # rs)" and "volume_of (r # rs) \<le> 46340"
  shows "\<exists>info. foldE addFill (r # rs) (PositionInfo_init vwap_mem) = Inr info \<and> sint (position info) = net_of (r # rs)
    \<and> uint (volume info) = volume_of (r # rs)
    \<and> total_pnl info = real_of_int (cash_of (r # rs) + net_of (r # rs) * rsp_price (last (r # rs)))
        + (if rsp_exec_qty r = 0 then 0 else if rsp_side r = BUY then - vwap_mem 2 else vwap_mem 0)"
  using fills_ok [OF assms, of vwap_mem]
  by (fastforce simp: accounts_def never_written_def carried_def PositionInfo_init_def)

definition sample_fill :: "Side \<Rightarrow> Price \<Rightarrow> Qty \<Rightarrow> MEClientResponse" where
  "sample_fill side price qty =
     \<lparr>rsp_type = Rsp_FILLED, rsp_client_id = 1, rsp_ticker_id = 0, rsp_client_order_id = 1, rsp_market_order_id = 1,
      rsp_side = side, rsp_price = price, rsp_exec_qty = qty, rsp_leaves_qty = 0\<rparr>"

text \<open>10 bought at 100, 25 sold at 104 in one fill: the position turns from 10 to -15, 40 are earned; with 7 in the
  memory of the BUY entry the keeper shows 33.\<close>

theorem pnl_accounting_witness:
  "\<exists>info. foldE addFill [sample_fill BUY 100 10, sample_fill SELL 104 25] (PositionInfo_init (\<lambda>_. 7)) = Inr info
    \<and> sint (position info) = - 15 \<and> total_pnl info = 33"
  using pnl_accounting [of "sample_fill BUY 100 10" "[sample_fill SELL 104 25]" "\<lambda>_. 7"]
  by (simp add: proper_fill_def volume_of_def net_of_def cash_of_def fill_change_def sample_fill_def)
    blast

text \<open>The position arithmetic has a bound the code does not check: a sale out of a position so large that the
  product of the positions before and after exceeds \<^verbatim>\<open>int\<close> is undefined behaviour, a position of
  50000 is enough.\<close>

theorem large_position_overflows:
  assumes "sint (position info) = p" and "0 < p" and "rsp_side r = SELL" and "uint (rsp_exec_qty r) \<le> p"
    and "2 ^ 31 \<le> p * (p - uint (rsp_exec_qty r))"
  shows "addFill r info = Inl SignedOverflow"
proof -
  obtain q where q: "uint (rsp_exec_qty r) = q" "0 \<le> q" by simp
  have p: "p < 2 ^ 31" using assms(1) sint_lt [of "position info"] by simp
  have s: "sint (rsp_exec_qty r) = q" using sint_small [of "rsp_exec_qty r"] assms(4) p q by simp
  let ?pos = "position info + rsp_exec_qty r * word_of_int (sideToValue (rsp_side r))"
  have pos: "sint ?pos = p - q" using sint_minus [of "position info" "rsp_exec_qty r"] assms(1-4) p q s by simp
  have ok: "int32 p = Inr p" "int32 (- p) = Inr (- p)" "int32 (p - q) = Inr (p - q)" using assms(2,4) p q by simp_all
  have bad: "int32 ((p - q) * p) = Inl SignedOverflow" using assms(5) q by (simp add: int32_def mult.commute)
  have ge: "\<bar>p - q\<bar> = p - q" "\<bar>p\<bar> = p" using assms(2,4) q by simp_all
  show ?thesis
    using assms(1-3) pos ok bad ge by (simp add: addFill_def reduce_position_def Let_def opposite_def)
qed

theorem large_position_overflows_witness:
  "addFill (sample_fill SELL 100 1000) (PositionInfo_init (\<lambda>_. 0)\<lparr>position := 50000\<rparr>) = Inl SignedOverflow"
  by (rule large_position_overflows [of _ 50000]) (simp_all add: sample_fill_def)

end
