(* ===== verification/Order_Manager.thy ===== *)
theory Order_Manager
  imports Positions
begin

text \<open>
  trading/strategy/om_order.h, order_manager.h and order_manager.cpp: the order manager holds one order for each
  ticker and side and moves it to the price the algorithm asks for.
\<close>

section \<open>Orders\<close>

datatype OMOrderState = OM_INVALID | PENDING_NEW | LIVE | PENDING_CANCEL | DEAD

primrec OMOrderStateToString :: "OMOrderState \<Rightarrow> string" where
  "OMOrderStateToString PENDING_NEW = ''PENDING_NEW''"
| "OMOrderStateToString LIVE = ''LIVE''"
| "OMOrderStateToString PENDING_CANCEL = ''PENDING_CANCEL''"
| "OMOrderStateToString DEAD = ''DEAD''"
| "OMOrderStateToString OM_INVALID = ''INVALID''"

record OMOrder =
  om_ticker_id :: TickerId
  om_order_id :: OrderId
  om_side :: Side
  om_price :: Price
  om_qty :: Qty
  om_state :: OMOrderState

definition OMOrder_default :: OMOrder where
  "OMOrder_default =
     \<lparr>om_ticker_id = TickerId_INVALID, om_order_id = OrderId_INVALID, om_side = Side_INVALID, om_price = Price_INVALID,
      om_qty = Qty_INVALID, om_state = OM_INVALID\<rparr>"

definition OMOrder_toString :: "OMOrder \<Rightarrow> string" where
  "OMOrder_toString x =
     ''OMOrder'' @ ''['' @ ''tid:'' @ tickerIdToString (om_ticker_id x) @ '' '' @ ''oid:'' @ orderIdToString (om_order_id x)
     @ '' '' @ ''side:'' @ sideToString (om_side x) @ '' '' @ ''price:'' @ priceToString (om_price x) @ '' ''
     @ ''qty:'' @ qtyToString (om_qty x) @ '' '' @ ''state:'' @ OMOrderStateToString (om_state x) @ '']''"


section \<open>The order manager\<close>

text \<open>
  An order is named by its two indices in \<open>ticker_side_order\<close>. The requests go to the trade engine by calls;
  \<open>om_sent\<close> lists those not yet carried out, \<open>om_client_id\<close> is the engine's client id.
\<close>

record OrderManager =
  om_client_id :: ClientId
  ticker_side_order :: "nat \<Rightarrow> nat \<Rightarrow> OMOrder"
  next_order_id :: OrderId
  om_sent :: "MEClientRequest list"

definition OrderManager_init :: "ClientId \<Rightarrow> OrderManager" where
  "OrderManager_init client_id =
     \<lparr>om_client_id = client_id, ticker_side_order = (\<lambda>_ _. OMOrder_default), next_order_id = 1, om_sent = []\<rparr>"

definition put_om_order :: "nat \<Rightarrow> nat \<Rightarrow> OMOrder \<Rightarrow> OrderManager \<Rightarrow> OrderManager" where
  "put_om_order t i x om = om\<lparr>ticker_side_order := (ticker_side_order om)(t := (ticker_side_order om t)(i := x))\<rparr>"

text \<open>\<^verbatim>\<open>ticker_side_order_.at(ticker_id).at(sideToIndex(side))\<close>.\<close>

definition order_at :: "TickerId \<Rightarrow> Side \<Rightarrow> OrderManager \<Rightarrow> (nat \<times> nat) res" where
  "order_at ticker_id side om =
     bindE (array_at ME_MAX_TICKERS (ticker_side_order om) (unat ticker_id)) (\<lambda>row.
     bindE (array_at side_array_size row (unat (sideToIndex side))) (\<lambda>_. Inr (unat ticker_id, unat (sideToIndex side))))"

text \<open>What a response does to the order it is about.\<close>

definition update_order :: "MEClientResponse \<Rightarrow> OMOrder \<Rightarrow> OMOrder" where
  "update_order r x =
     (case rsp_type r of
        Rsp_ACCEPTED \<Rightarrow> x\<lparr>om_state := LIVE\<rparr>
      | Rsp_CANCELED \<Rightarrow> x\<lparr>om_state := DEAD\<rparr>
      | Rsp_FILLED \<Rightarrow>
          (let x = x\<lparr>om_qty := rsp_leaves_qty r\<rparr> in if om_qty x = 0 then x\<lparr>om_state := DEAD\<rparr> else x)
      | _ \<Rightarrow> x)"

definition om_onOrderUpdate :: "MEClientResponse \<Rightarrow> OrderManager \<Rightarrow> OrderManager res" where
  "om_onOrderUpdate r om =
     bindE (order_at (rsp_ticker_id r) (rsp_side r) om) (\<lambda>(t, i).
     Inr (put_om_order t i (update_order r (ticker_side_order om t i)) om))"

definition newOrder :: "nat \<Rightarrow> nat \<Rightarrow> TickerId \<Rightarrow> Price \<Rightarrow> Side \<Rightarrow> Qty \<Rightarrow> OrderManager \<Rightarrow> OrderManager" where
  "newOrder t i ticker_id price side qty om =
     (let new_request = \<lparr>req_type = Req_NEW, req_client_id = om_client_id om, req_ticker_id = ticker_id,
            req_order_id = next_order_id om, req_side = side, req_price = price, req_qty = qty\<rparr>;
          om = om\<lparr>om_sent := om_sent om @ [new_request]\<rparr>;
          om = put_om_order t i \<lparr>om_ticker_id = ticker_id, om_order_id = next_order_id om, om_side = side, om_price = price,
                 om_qty = qty, om_state = PENDING_NEW\<rparr> om
      in om\<lparr>next_order_id := next_order_id om + 1\<rparr>)"

definition cancelOrder :: "nat \<Rightarrow> nat \<Rightarrow> OrderManager \<Rightarrow> OrderManager" where
  "cancelOrder t i om =
     (let x = ticker_side_order om t i;
          cancel_request = \<lparr>req_type = Req_CANCEL, req_client_id = om_client_id om, req_ticker_id = om_ticker_id x,
            req_order_id = om_order_id x, req_side = om_side x, req_price = om_price x, req_qty = om_qty x\<rparr>
      in put_om_order t i (x\<lparr>om_state := PENDING_CANCEL\<rparr>) (om\<lparr>om_sent := om_sent om @ [cancel_request]\<rparr>))"

definition moveOrder ::
  "RiskManager \<Rightarrow> PositionKeeper \<Rightarrow> nat \<Rightarrow> nat \<Rightarrow> TickerId \<Rightarrow> Price \<Rightarrow> Side \<Rightarrow> Qty \<Rightarrow> OrderManager \<Rightarrow> OrderManager res" where
  "moveOrder rm pk t i ticker_id price side qty om =
     (let x = ticker_side_order om t i
      in if om_state x = LIVE then
           (if om_price x \<noteq> price then Inr (cancelOrder t i om) else Inr om)
         else if om_state x = OM_INVALID \<or> om_state x = DEAD then
           (if price \<noteq> Price_INVALID then
              bindE (checkPreTradeRisk ticker_id side qty rm pk) (\<lambda>risk_result.
              if risk_result = ALLOWED then Inr (newOrder t i ticker_id price side qty om) else Inr om)
            else Inr om)
         else Inr om)"

definition moveOrders :: "RiskManager \<Rightarrow> PositionKeeper \<Rightarrow> TickerId \<Rightarrow> Price \<Rightarrow> Price \<Rightarrow> Qty \<Rightarrow> OrderManager \<Rightarrow> OrderManager res" where
  "moveOrders rm pk ticker_id bid_price ask_price clip_qty om =
     bindE (order_at ticker_id BUY om) (\<lambda>(t, i).
     bindE (moveOrder rm pk t i ticker_id bid_price BUY clip_qty om) (\<lambda>om.
     bindE (order_at ticker_id SELL om) (\<lambda>(t, i).
     moveOrder rm pk t i ticker_id ask_price SELL clip_qty om)))"

end
