(* ===== verification/Order_Session.thy ===== *)
theory Order_Session
  imports Order_Manager Order_Book
begin

text \<open>
  The order manager and the exchange, with requests and responses on the way between them: at most one order
  of a ticker and side is ever outstanding, the order manager ends up knowing what rests at the exchange, and
  the risk check keeps the position inside its limit whatever fills arrive.
\<close>

section \<open>The session\<close>

text \<open>
  One ticker of one client. \<open>resting\<close> is what the exchange's book holds of this client: order id, side and
  quantity. The exchange's answers have the form that \<open>MEOrderBook\<close> gives them.
\<close>

record session =
  ses_om :: OrderManager
  ses_pk :: PositionKeeper
  to_exchange :: "MEClientRequest list"
  resting :: "(OrderId \<times> Side \<times> Qty) list"
  to_trading :: "MEClientResponse list"

text \<open>What \<open>TradeEngine::onOrderUpdate\<close> does with a response.\<close>

definition take_response :: "MEClientResponse \<Rightarrow> PositionKeeper \<Rightarrow> OrderManager \<Rightarrow> (PositionKeeper \<times> OrderManager) res" where
  "take_response r pk om =
     bindE (if rsp_type r = Rsp_FILLED then pk_addFill r pk else Inr pk) (\<lambda>pk.
     bindE (om_onOrderUpdate r om) (\<lambda>om. Inr (pk, om)))"

definition answer :: "ClientResponseType \<Rightarrow> TickerId \<Rightarrow> OrderId \<Rightarrow> Side \<Rightarrow> Price \<Rightarrow> Qty \<Rightarrow> Qty \<Rightarrow> OrderId \<Rightarrow> ClientId \<Rightarrow> MEClientResponse" where
  "answer ty tid oid side price exec leaves moid cid =
     \<lparr>rsp_type = ty, rsp_client_id = cid, rsp_ticker_id = tid, rsp_client_order_id = oid, rsp_market_order_id = moid,
      rsp_side = side, rsp_price = price, rsp_exec_qty = exec, rsp_leaves_qty = leaves\<rparr>"

definition without_order :: "OrderId \<Rightarrow> (OrderId \<times> Side \<times> Qty) list \<Rightarrow> (OrderId \<times> Side \<times> Qty) list" where
  "without_order oid xs = filter (\<lambda>(i, s, q). i \<noteq> oid) xs"

definition reduce_order :: "OrderId \<Rightarrow> Qty \<Rightarrow> (OrderId \<times> Side \<times> Qty) list \<Rightarrow> (OrderId \<times> Side \<times> Qty) list" where
  "reduce_order oid leaves xs =
     (if leaves = 0 then without_order oid xs else map (\<lambda>(i, s, q). if i = oid then (i, s, leaves) else (i, s, q)) xs)"

text \<open>
  The steps: the algorithm moves its orders to any two prices, the exchange serves the next request, the exchange
  fills part of a resting order, the trade engine takes the next response, or takes the best prices of a book into
  its profit, as it does before every call of the algorithm on a change of the book. Order ids stay inside the exchange's
  tables.
\<close>

inductive session_step :: "RiskManager \<Rightarrow> TickerId \<Rightarrow> Qty \<Rightarrow> session \<Rightarrow> session \<Rightarrow> bool" for rm tid qty where
  move: "moveOrders rm (ses_pk s) tid bid ask qty (ses_om s) = Inr om
    \<Longrightarrow> unat (next_order_id (ses_om s)) + 2 \<le> unat ME_MAX_ORDER_IDS
    \<Longrightarrow> session_step rm tid qty s (s\<lparr>ses_om := om\<lparr>om_sent := []\<rparr>, to_exchange := to_exchange s @ om_sent om\<rparr>)"
| accept: "to_exchange s = r # rs \<Longrightarrow> req_type r = Req_NEW
    \<Longrightarrow> session_step rm tid qty s (s\<lparr>to_exchange := rs, resting := resting s @ [(req_order_id r, req_side r, req_qty r)],
          to_trading := to_trading s @ [answer Rsp_ACCEPTED tid (req_order_id r) (req_side r) (req_price r) 0 (req_qty r) moid cid]\<rparr>)"
| cancel: "to_exchange s = r # rs \<Longrightarrow> req_type r = Req_CANCEL \<Longrightarrow> (req_order_id r, side, q) \<in> set (resting s)
    \<Longrightarrow> session_step rm tid qty s (s\<lparr>to_exchange := rs, resting := without_order (req_order_id r) (resting s),
          to_trading := to_trading s @ [answer Rsp_CANCELED tid (req_order_id r) side price Qty_INVALID q moid cid]\<rparr>)"
| reject: "to_exchange s = r # rs \<Longrightarrow> req_type r = Req_CANCEL \<Longrightarrow> req_order_id r \<notin> fst ` set (resting s)
    \<Longrightarrow> session_step rm tid qty s (s\<lparr>to_exchange := rs,
          to_trading := to_trading s @ [answer Rsp_CANCEL_REJECTED tid (req_order_id r) Side_INVALID Price_INVALID
            Qty_INVALID Qty_INVALID OrderId_INVALID cid]\<rparr>)"
| fill: "(oid, side, q) \<in> set (resting s) \<Longrightarrow> 0 < exec \<Longrightarrow> exec \<le> q \<Longrightarrow> \<bar>price\<bar> < 2 ^ 31
    \<Longrightarrow> session_step rm tid qty s (s\<lparr>resting := reduce_order oid (q - exec) (resting s),
          to_trading := to_trading s @ [answer Rsp_FILLED tid oid side price exec (q - exec) moid cid]\<rparr>)"
| receive: "to_trading s = r # rs \<Longrightarrow> take_response r (ses_pk s) (ses_om s) = Inr (pk, om)
    \<Longrightarrow> session_step rm tid qty s (s\<lparr>ses_om := om, ses_pk := pk, to_trading := rs\<rparr>)"
| mark: "pk_updateBBO ticker book bbo (ses_pk s) = Inr pk \<Longrightarrow> session_step rm tid qty s (s\<lparr>ses_pk := pk\<rparr>)"

definition session_init :: "OrderManager \<Rightarrow> PositionKeeper \<Rightarrow> session" where
  "session_init om pk = \<lparr>ses_om = om, ses_pk = pk, to_exchange = [], resting = [], to_trading = []\<rparr>"

definition session_reachable :: "RiskManager \<Rightarrow> TickerId \<Rightarrow> Qty \<Rightarrow> session \<Rightarrow> session \<Rightarrow> bool" where
  "session_reachable rm tid qty = (session_step rm tid qty)\<^sup>*\<^sup>*"


section \<open>One side\<close>

definition slot :: "TickerId \<Rightarrow> Side \<Rightarrow> OrderManager \<Rightarrow> OMOrder" where
  "slot tid side om = ticker_side_order om (unat tid) (unat (sideToIndex side))"

definition idle :: "OMOrder \<Rightarrow> bool" where
  "idle x \<longleftrightarrow> om_state x = OM_INVALID \<or> om_state x = DEAD"

definition news :: "Side \<Rightarrow> MEClientRequest list \<Rightarrow> MEClientRequest list" where
  "news side rs = filter (\<lambda>r. req_type r = Req_NEW \<and> req_side r = side) rs"

definition about :: "Side \<Rightarrow> MEClientResponse list \<Rightarrow> MEClientResponse list" where
  "about side rs = filter (\<lambda>r. rsp_side r = side) rs"

definition rests :: "Side \<Rightarrow> (OrderId \<times> Side \<times> Qty) list \<Rightarrow> (OrderId \<times> Side \<times> Qty) list" where
  "rests side xs = filter (\<lambda>(i, s, q). s = side) xs"

text \<open>The order when every response on the way has arrived.\<close>

definition final :: "OMOrder \<Rightarrow> MEClientResponse list \<Rightarrow> OMOrder" where
  "final x rs = fold update_order rs x"

text \<open>A response after which the order is over.\<close>

definition terminal :: "MEClientResponse \<Rightarrow> bool" where
  "terminal r \<longleftrightarrow> rsp_type r = Rsp_CANCELED \<or> rsp_type r = Rsp_FILLED \<and> rsp_leaves_qty r = 0"

text \<open>Each fill on the way leaves what the order had before less what it executed.\<close>

fun fills_add_up :: "int \<Rightarrow> MEClientResponse list \<Rightarrow> bool" where
  "fills_add_up q [] \<longleftrightarrow> True"
| "fills_add_up q (r # rs) \<longleftrightarrow>
     (if rsp_type r = Rsp_FILLED
      then uint (rsp_exec_qty r) + uint (rsp_leaves_qty r) = q \<and> fills_add_up (uint (rsp_leaves_qty r)) rs
      else fills_add_up q rs)"

definition slot_ok :: "Side \<Rightarrow> OMOrder \<Rightarrow> MEClientRequest list \<Rightarrow> MEClientResponse list \<Rightarrow> (OrderId \<times> Side \<times> Qty) list \<Rightarrow> bool" where
  "slot_ok side x reqs rsps held \<longleftrightarrow>
     (idle x \<longrightarrow> rsps = []) \<and> (\<forall>r \<in> set (butlast rsps). \<not> terminal r) \<and> fills_add_up (uint (om_qty x)) rsps
     \<and> (om_state x \<noteq> OM_INVALID \<longrightarrow> om_side x = side)
     \<and> (news side reqs = [] \<and> held = [] \<and> idle (final x rsps)
        \<or> news side reqs = [] \<and> held = [(om_order_id x, side, om_qty (final x rsps))] \<and> om_qty (final x rsps) \<noteq> 0
          \<and> (om_state (final x rsps) = LIVE \<or> om_state (final x rsps) = PENDING_CANCEL)
        \<or> (\<exists>r. news side reqs = [r] \<and> req_order_id r = om_order_id x \<and> req_qty r = om_qty x)
          \<and> rsps = [] \<and> held = [] \<and> om_state x = PENDING_NEW \<and> om_qty x \<noteq> 0)
     \<and> (om_state x = PENDING_CANCEL \<and> held \<noteq> []
        \<longrightarrow> (\<exists>r \<in> set reqs. req_type r = Req_CANCEL \<and> req_order_id r = om_order_id x))"

lemma update_order_fields [simp]:
  "om_order_id (update_order r x) = om_order_id x" "om_side (update_order r x) = om_side x"
  "om_price (update_order r x) = om_price x" "om_ticker_id (update_order r x) = om_ticker_id x"
  by (simp_all add: update_order_def Let_def split: ClientResponseType.split)

lemma update_order_qty:
  "om_qty (update_order r x) = (if rsp_type r = Rsp_FILLED then rsp_leaves_qty r else om_qty x)"
  by (simp add: update_order_def Let_def split: ClientResponseType.split)

lemma update_order_state:
  "om_state (update_order r x) = (if terminal r then DEAD else if rsp_type r = Rsp_ACCEPTED then LIVE else om_state x)"
  by (simp add: update_order_def terminal_def Let_def split: ClientResponseType.split)

lemma final_simps [simp]:
  "final x [] = x" "final x (r # rs) = final (update_order r x) rs" "final x (rs @ [r]) = update_order r (final x rs)"
  "om_order_id (final x rs) = om_order_id x" "om_side (final x rs) = om_side x"
  by (simp_all add: final_def) (induction rs arbitrary: x; simp)+

lemma final_qty: "om_qty x = om_qty y \<Longrightarrow> om_qty (final x rs) = om_qty (final y rs)"
  by (induction rs arbitrary: x y) (simp_all add: update_order_qty)

text \<open>The last state is the state before or one that the responses alone decide.\<close>

lemma final_state: "om_state (final x rs) = om_state x \<and> om_state (final y rs) = om_state y \<or> om_state (final x rs) = om_state (final y rs)"
proof (induction rs arbitrary: x y)
  case (Cons r rs)
  then show ?case
    using Cons [of "update_order r x" "update_order r y"] by (auto simp: update_order_state split: if_splits)
qed simp

lemma final_last: "rs \<noteq> [] \<Longrightarrow> terminal (last rs) \<Longrightarrow> idle (final x rs)"
  by (induction rs rule: rev_induct) (simp_all add: idle_def update_order_state)

lemma fills_append:
  "fills_add_up (uint (om_qty x)) (rs @ [r]) \<longleftrightarrow> fills_add_up (uint (om_qty x)) rs
     \<and> (rsp_type r = Rsp_FILLED \<longrightarrow> uint (rsp_exec_qty r) + uint (rsp_leaves_qty r) = uint (om_qty (final x rs)))"
proof (induction rs arbitrary: x)
  case (Cons a rs)
  note ih = Cons [of "update_order a x"]
  show ?case using ih by (cases "rsp_type a = Rsp_FILLED") (simp_all add: update_order_qty)
qed simp

lemma news_simps [simp]:
  "news s [] = []" "news s (r # rs) = (if req_type r = Req_NEW \<and> req_side r = s then r # news s rs else news s rs)"
  "news s (rs @ qs) = news s rs @ news s qs"
  by (simp_all add: news_def)

lemma about_simps [simp]:
  "about s [] = []" "about s (r # rs) = (if rsp_side r = s then r # about s rs else about s rs)"
  "about s (rs @ qs) = about s rs @ about s qs"
  by (simp_all add: about_def)

lemma rests_simps [simp]:
  "rests s [] = []" "rests s ((i, t, q) # xs) = (if t = s then (i, t, q) # rests s xs else rests s xs)"
  "rests s (xs @ ys) = rests s xs @ rests s ys"
  by (simp_all add: rests_def)

lemma answer_simps [simp]:
  "rsp_type (answer ty tid oid s p e l m c) = ty" "rsp_side (answer ty tid oid s p e l m c) = s"
  "rsp_ticker_id (answer ty tid oid s p e l m c) = tid" "rsp_exec_qty (answer ty tid oid s p e l m c) = e"
  "rsp_leaves_qty (answer ty tid oid s p e l m c) = l" "rsp_price (answer ty tid oid s p e l m c) = p"
  by (simp_all add: answer_def)

subsection \<open>What the steps do to a side\<close>

text \<open>An order with something at the exchange.\<close>

lemma slot_held:
  assumes "slot_ok side x reqs rsps held" and "held \<noteq> []"
  shows "news side reqs = []" "held = [(om_order_id x, side, om_qty (final x rsps))]" "om_qty (final x rsps) \<noteq> 0"
    "om_state (final x rsps) = LIVE \<or> om_state (final x rsps) = PENDING_CANCEL" "\<not> idle x" "\<not> idle (final x rsps)"
    "\<forall>r \<in> set rsps. \<not> terminal r"
proof -
  show h: "news side reqs = []" "held = [(om_order_id x, side, om_qty (final x rsps))]" "om_qty (final x rsps) \<noteq> 0"
    and st: "om_state (final x rsps) = LIVE \<or> om_state (final x rsps) = PENDING_CANCEL"
    using assms unfolding slot_ok_def by blast+
  show ni: "\<not> idle (final x rsps)" using st by (auto simp: idle_def)
  then show "\<not> idle x" using assms(1) by (auto simp: slot_ok_def)
  have "rsps = [] \<or> \<not> terminal (last rsps)" using final_last [of rsps x] ni by blast
  moreover have "\<forall>r \<in> set (butlast rsps). \<not> terminal r" using assms(1) by (simp add: slot_ok_def)
  ultimately show "\<forall>r \<in> set rsps. \<not> terminal r"
    by (cases rsps rule: rev_cases) auto
qed

lemma slot_idle:
  assumes "slot_ok side x reqs rsps held" and "idle x"
  shows "news side reqs = []" "held = []" "rsps = []"
  using assms by (auto simp: slot_ok_def idle_def)

lemma slot_new:
  assumes "slot_ok side x reqs rsps held" and "idle x" and "req_type r = Req_NEW" "req_side r = side"
    and "req_order_id r = om_order_id y" "req_qty r = om_qty y" "om_state y = PENDING_NEW" "om_side y = side" "om_qty y \<noteq> 0"
  shows "slot_ok side y (reqs @ [r]) rsps held"
  using slot_idle [OF assms(1,2)] assms(3-) by (simp add: slot_ok_def idle_def)

lemma slot_cancel:
  assumes ok: "slot_ok side x reqs rsps held" and "om_state x = LIVE" and "req_type r = Req_CANCEL" "req_order_id r = om_order_id x"
  shows "slot_ok side (x\<lparr>om_state := PENDING_CANCEL\<rparr>) (reqs @ [r]) rsps held"
proof -
  let ?y = "x\<lparr>om_state := PENDING_CANCEL\<rparr>"
  have q: "om_qty (final ?y rsps) = om_qty (final x rsps)" by (rule final_qty) simp
  have st: "idle (final ?y rsps) = idle (final x rsps)"
    "om_state (final x rsps) = LIVE \<or> om_state (final x rsps) = PENDING_CANCEL
      \<Longrightarrow> om_state (final ?y rsps) = LIVE \<or> om_state (final ?y rsps) = PENDING_CANCEL"
    using final_state [of x rsps ?y] assms(2) by (auto simp: idle_def)
  have "\<not> idle x" "\<not> idle ?y" using assms(2) by (auto simp: idle_def)
  then show ?thesis using assms q st by (auto simp: slot_ok_def)
qed

text \<open>Requests of the other side, and requests that are not this order's.\<close>

lemma slot_other_request:
  "slot_ok side x reqs rsps held \<Longrightarrow> \<not> (req_type r = Req_NEW \<and> req_side r = side) \<Longrightarrow> slot_ok side x (reqs @ [r]) rsps held"
  by (auto simp: slot_ok_def)

lemma slot_served:
  assumes "slot_ok side x (r # reqs) rsps held" and "\<not> (req_type r = Req_NEW \<and> req_side r = side)"
    and "held = [] \<or> req_type r \<noteq> Req_CANCEL \<or> req_order_id r \<noteq> om_order_id x"
  shows "slot_ok side x reqs rsps held"
  using assms by (auto simp: slot_ok_def)

lemma slot_accept:
  assumes "slot_ok side x (r # reqs) rsps held" and "req_type r = Req_NEW" "req_side r = side" and "rsp_type a = Rsp_ACCEPTED"
  shows "slot_ok side x reqs (rsps @ [a]) (held @ [(req_order_id r, side, req_qty r)])"
  using assms by (auto simp: slot_ok_def idle_def update_order_qty update_order_state terminal_def)

lemma slot_canceled:
  assumes ok: "slot_ok side x reqs rsps held" and "held \<noteq> []" and "rsp_type a = Rsp_CANCELED"
  shows "slot_ok side x reqs (rsps @ [a]) []"
proof -
  note h = slot_held [OF ok assms(2)]
  have "idle (update_order a (final x rsps))" using assms(3) by (simp add: idle_def update_order_state terminal_def)
  then show ?thesis using ok h assms(3) by (simp add: slot_ok_def fills_append)
qed

lemma slot_filled:
  assumes ok: "slot_ok side x reqs rsps held" and h: "held = [(oid, side, q)]" and e: "0 < exec" "exec \<le> q"
    and a: "rsp_type a = Rsp_FILLED" "rsp_exec_qty a = exec" "rsp_leaves_qty a = q - exec"
  shows "slot_ok side x reqs (rsps @ [a]) (if q - exec = 0 then [] else [(oid, side, q - exec)])"
proof -
  have "held \<noteq> []" using h by simp
  note hd = slot_held [OF ok this]
  have q: "q = om_qty (final x rsps)" "oid = om_order_id x" using hd(2) h by simp_all
  have "uint exec + uint (q - exec) = uint q" using e(2) by (simp add: uint_sub_lem word_le_def)
  then have f: "fills_add_up (uint (om_qty x)) (rsps @ [a])" using ok q(1) a by (simp add: fills_append slot_ok_def)
  have st: "om_state (final x (rsps @ [a])) = (if q - exec = 0 then DEAD else om_state (final x rsps))"
    "om_qty (final x (rsps @ [a])) = q - exec"
    using a hd(4) by (auto simp: update_order_state update_order_qty terminal_def)
  have bl: "\<forall>r \<in> set (butlast (rsps @ [a])). \<not> terminal r" using hd(7) by simp
  have pc: "om_state x = PENDING_CANCEL \<longrightarrow> (\<exists>r \<in> set reqs. req_type r = Req_CANCEL \<and> req_order_id r = om_order_id x)"
    and sd: "om_state x \<noteq> OM_INVALID \<longrightarrow> om_side x = side" using ok h by (simp_all add: slot_ok_def)
  show ?thesis
  proof (cases "q - exec = 0")
    case True
    then have "idle (final x (rsps @ [a]))" using st(1) by (simp add: idle_def)
    then show ?thesis unfolding slot_ok_def using f bl sd hd(1,5) True by simp
  next
    case False
    then show ?thesis unfolding slot_ok_def using f bl sd pc hd(1,4,5) q(2) st by simp
  qed
qed

lemma slot_receive:
  assumes ok: "slot_ok side x reqs (r # rsps) held"
  shows "slot_ok side (update_order r x) reqs rsps held"
proof -
  have ni: "\<not> idle x" using ok by (auto simp: slot_ok_def)
  have "idle (update_order r x) \<Longrightarrow> terminal r" using ni by (auto simp: idle_def update_order_state split: if_splits)
  moreover have "terminal r \<Longrightarrow> rsps = []" using ok by (cases rsps) (auto simp: slot_ok_def)
  moreover have "\<forall>r \<in> set (butlast rsps). \<not> terminal r" using ok by (cases rsps) (auto simp: slot_ok_def)
  moreover have "fills_add_up (uint (om_qty (update_order r x))) rsps"
    using ok by (auto simp: slot_ok_def update_order_qty split: if_splits)
  moreover have "om_state (update_order r x) \<noteq> OM_INVALID \<longrightarrow> om_side x = side"
    using ok ni by (auto simp: slot_ok_def idle_def)
  moreover have "om_state (update_order r x) = PENDING_CANCEL \<Longrightarrow> om_state x = PENDING_CANCEL"
    by (auto simp: update_order_state split: if_splits)
  moreover have "news side reqs = [] \<and> held = [] \<and> idle (final (update_order r x) rsps)
      \<or> news side reqs = [] \<and> held = [(om_order_id x, side, om_qty (final (update_order r x) rsps))]
        \<and> om_qty (final (update_order r x) rsps) \<noteq> 0
        \<and> (om_state (final (update_order r x) rsps) = LIVE \<or> om_state (final (update_order r x) rsps) = PENDING_CANCEL)"
    using ok by (simp add: slot_ok_def)
  moreover have "om_state x = PENDING_CANCEL \<and> held \<noteq> []
      \<longrightarrow> (\<exists>r \<in> set reqs. req_type r = Req_CANCEL \<and> req_order_id r = om_order_id x)"
    using ok by (simp add: slot_ok_def)
  ultimately show ?thesis unfolding slot_ok_def update_order_fields by blast
qed

section \<open>The two sides\<close>

definition sides_ok ::
  "TickerId \<Rightarrow> OrderManager \<Rightarrow> MEClientRequest list \<Rightarrow> MEClientResponse list \<Rightarrow> (OrderId \<times> Side \<times> Qty) list \<Rightarrow> bool" where
  "sides_ok tid om reqs rsps held \<longleftrightarrow>
     (\<forall>side. book_side side \<longrightarrow> slot_ok side (slot tid side om) reqs (about side rsps) (rests side held))"

text \<open>Order ids are used once.\<close>

definition ids_apart :: "TickerId \<Rightarrow> OrderManager \<Rightarrow> bool" where
  "ids_apart tid om \<longleftrightarrow>
     (\<forall>side. book_side side \<longrightarrow> om_state (slot tid side om) \<noteq> OM_INVALID \<longrightarrow> unat (om_order_id (slot tid side om)) < unat (next_order_id om))
     \<and> (om_state (slot tid BUY om) \<noteq> OM_INVALID \<longrightarrow> om_state (slot tid SELL om) \<noteq> OM_INVALID
        \<longrightarrow> om_order_id (slot tid BUY om) \<noteq> om_order_id (slot tid SELL om))"

definition request_ok :: "MEClientRequest \<Rightarrow> bool" where
  "request_ok r \<longleftrightarrow> req_type r = Req_NEW \<and> book_side (req_side r) \<or> req_type r = Req_CANCEL"

definition response_ok :: "TickerId \<Rightarrow> MEClientResponse \<Rightarrow> bool" where
  "response_ok tid r \<longleftrightarrow> rsp_ticker_id r = tid \<and> (rsp_type r = Rsp_FILLED \<longrightarrow> \<bar>rsp_price r\<bar> < 2 ^ 31)
     \<and> (book_side (rsp_side r) \<or> rsp_side r = Side_INVALID \<and> rsp_type r = Rsp_CANCEL_REJECTED)"

definition session_ok :: "TickerId \<Rightarrow> session \<Rightarrow> bool" where
  "session_ok tid s \<longleftrightarrow> om_sent (ses_om s) = [] \<and> sides_ok tid (ses_om s) (to_exchange s) (to_trading s) (resting s)
     \<and> ids_apart tid (ses_om s) \<and> list_all request_ok (to_exchange s) \<and> list_all (response_ok tid) (to_trading s)
     \<and> (\<forall>(i, side, q) \<in> set (resting s). book_side side)"

lemma order_at_ok [simp]:
  "unat tid < ME_MAX_TICKERS \<Longrightarrow> book_side side \<Longrightarrow> order_at tid side om = Inr (unat tid, unat (sideToIndex side))"
  by (auto simp: order_at_def side_array_size_def book_side_def)

lemma side_index_inj: "book_side s \<Longrightarrow> book_side t \<Longrightarrow> unat (sideToIndex s) = unat (sideToIndex t) \<longleftrightarrow> s = t"
  by (auto simp: book_side_def)

lemma put_om_order_fields [simp]:
  "om_sent (put_om_order t i x om) = om_sent om" "next_order_id (put_om_order t i x om) = next_order_id om"
  "om_client_id (put_om_order t i x om) = om_client_id om"
  by (simp_all add: put_om_order_def)

lemma slot_put [simp]:
  "book_side s \<Longrightarrow> book_side t \<Longrightarrow> slot tid s (put_om_order (unat tid) (unat (sideToIndex t)) x om) = (if s = t then x else slot tid s om)"
  using side_index_inj [of s t] by (auto simp: slot_def put_om_order_def)

lemma slot_fields [simp]:
  "slot tid s (om\<lparr>om_sent := rs\<rparr>) = slot tid s om" "slot tid s (om\<lparr>next_order_id := n\<rparr>) = slot tid s om"
  by (simp_all add: slot_def)

lemma moveOrder_cases:
  assumes "moveOrder rm pk (unat tid) (unat (sideToIndex side)) tid price side qty om = Inr om'"
  obtains "om' = om"
  | "om_state (slot tid side om) = LIVE" "om' = cancelOrder (unat tid) (unat (sideToIndex side)) om"
  | "idle (slot tid side om)" "checkPreTradeRisk tid side qty rm pk = Inr ALLOWED" "price \<noteq> Price_INVALID"
    "om' = newOrder (unat tid) (unat (sideToIndex side)) tid price side qty om"
  using assms by (auto simp: moveOrder_def Let_def slot_def idle_def res_simps split: if_splits)

text \<open>One side is moved; \<open>reqs\<close> is what was on the way before.\<close>

lemma ids_apart_same:
  assumes "ids_apart tid om" and "next_order_id om' = next_order_id om"
    and "\<And>t. book_side t \<Longrightarrow> om_order_id (slot tid t om') = om_order_id (slot tid t om)
      \<and> (om_state (slot tid t om') \<noteq> OM_INVALID \<longrightarrow> om_state (slot tid t om) \<noteq> OM_INVALID)"
  shows "ids_apart tid om'"
  using assms by (simp add: ids_apart_def)

lemma moveOrder_ok:
  assumes mv: "moveOrder rm pk (unat tid) (unat (sideToIndex side)) tid price side qty om = Inr om'"
    and side: "book_side side" and qty: "qty \<noteq> 0" and ids: "unat (next_order_id om) < unat ME_MAX_ORDER_IDS"
    and ok: "sides_ok tid om (reqs @ om_sent om) rsps held" "ids_apart tid om" "list_all request_ok (om_sent om)"
  shows "sides_ok tid om' (reqs @ om_sent om') rsps held \<and> ids_apart tid om' \<and> list_all request_ok (om_sent om')
    \<and> unat (next_order_id om') \<le> Suc (unat (next_order_id om))"
  using mv
proof (cases rule: moveOrder_cases)
  case 1
  then show ?thesis using ok by simp
next
  case 2
  let ?x = "slot tid side om"
  define r where "r = \<lparr>req_type = Req_CANCEL, req_client_id = om_client_id om, req_ticker_id = om_ticker_id ?x,
    req_order_id = om_order_id ?x, req_side = om_side ?x, req_price = om_price ?x, req_qty = om_qty ?x\<rparr>"
  have om': "om' = put_om_order (unat tid) (unat (sideToIndex side)) (?x\<lparr>om_state := PENDING_CANCEL\<rparr>) (om\<lparr>om_sent := om_sent om @ [r]\<rparr>)"
    using 2 by (simp add: cancelOrder_def Let_def r_def slot_def)
  have r: "req_type r = Req_CANCEL" "req_order_id r = om_order_id ?x" by (simp_all add: r_def)
  have "slot_ok t (slot tid t om') ((reqs @ om_sent om) @ [r]) (about t rsps) (rests t held)" if t: "book_side t" for t
  proof (cases "t = side")
    case True
    have "slot_ok side ?x (reqs @ om_sent om) (about side rsps) (rests side held)" using ok(1) side by (simp add: sides_ok_def)
    from slot_cancel [OF this 2(1) r] show ?thesis using True side by (simp add: om')
  next
    case False
    have "slot_ok t (slot tid t om) (reqs @ om_sent om) (about t rsps) (rests t held)" using ok(1) t by (simp add: sides_ok_def)
    from slot_other_request [OF this, of r] show ?thesis using False side t by (simp add: om' r_def)
  qed
  moreover have "ids_apart tid om'" by (rule ids_apart_same [OF ok(2)]) (use 2(1) side in \<open>simp_all add: om'\<close>)
  ultimately show ?thesis using ok(3) by (simp add: sides_ok_def om' request_ok_def r)
next
  case 3
  let ?x = "slot tid side om"
  define r where "r = \<lparr>req_type = Req_NEW, req_client_id = om_client_id om, req_ticker_id = tid,
            req_order_id = next_order_id om, req_side = side, req_price = price, req_qty = qty\<rparr>"
  define y where "y = \<lparr>om_ticker_id = tid, om_order_id = next_order_id om, om_side = side, om_price = price,
                 om_qty = qty, om_state = PENDING_NEW\<rparr>"
  have om': "om' = (put_om_order (unat tid) (unat (sideToIndex side)) y (om\<lparr>om_sent := om_sent om @ [r]\<rparr>))\<lparr>next_order_id := next_order_id om + 1\<rparr>"
    using 3 by (simp add: newOrder_def Let_def r_def y_def)
  have nx: "unat (next_order_id om + 1) = Suc (unat (next_order_id om))"
    using ids by (intro unat_Suc) (simp add: ME_MAX_ORDER_IDS_def)
  have "slot_ok t (slot tid t om') ((reqs @ om_sent om) @ [r]) (about t rsps) (rests t held)" if t: "book_side t" for t
  proof (cases "t = side")
    case True
    have "slot_ok side ?x (reqs @ om_sent om) (about side rsps) (rests side held)" using ok(1) side by (simp add: sides_ok_def)
    from slot_new [OF this 3(1), of r y] show ?thesis using True side qty by (simp add: om' r_def y_def)
  next
    case False
    have "slot_ok t (slot tid t om) (reqs @ om_sent om) (about t rsps) (rests t held)" using ok(1) t by (simp add: sides_ok_def)
    from slot_other_request [OF this, of r] show ?thesis using False side t by (simp add: om' r_def)
  qed
  moreover have "ids_apart tid om'"
    using ok(2) side nx by (fastforce simp: ids_apart_def om' book_side_def y_def split: if_splits)
  ultimately show ?thesis using ok(3) side nx by (simp add: sides_ok_def om' request_ok_def r_def)
qed

lemma moveOrders_ok:
  assumes mv: "moveOrders rm pk tid bid ask qty om = Inr om'" and tid: "unat tid < ME_MAX_TICKERS" and qty: "qty \<noteq> 0"
    and ids: "unat (next_order_id om) + 2 \<le> unat ME_MAX_ORDER_IDS"
    and ok: "sides_ok tid om (reqs @ om_sent om) rsps held" "ids_apart tid om" "list_all request_ok (om_sent om)"
  shows "sides_ok tid om' (reqs @ om_sent om') rsps held \<and> ids_apart tid om' \<and> list_all request_ok (om_sent om')"
proof -
  obtain om1 where om1: "moveOrder rm pk (unat tid) (unat (sideToIndex BUY)) tid bid BUY qty om = Inr om1"
    "moveOrder rm pk (unat tid) (unat (sideToIndex SELL)) tid ask SELL qty om1 = Inr om'"
    using mv tid by (auto simp: moveOrders_def res_simps simp del: sideToIndex_simps)
  have "unat (next_order_id om) < unat ME_MAX_ORDER_IDS" using ids by simp
  note a = moveOrder_ok [OF om1(1) _ qty this ok]
  have "unat (next_order_id om1) < unat ME_MAX_ORDER_IDS" using a ids by simp
  from moveOrder_ok [OF om1(2) _ qty this, of reqs rsps held] show ?thesis using a by simp
qed

text \<open>Removing or reducing one order leaves the others.\<close>

lemma rests_member: "rests t held \<noteq> [] \<Longrightarrow> \<exists>i q. (i, t, q) \<in> set held"
  by (auto simp: rests_def filter_empty_conv)

lemma held_id:
  assumes "sides_ok tid om reqs rsps held" and "(oid, side, q) \<in> set held" and "book_side side"
  shows "rests side held = [(oid, side, q)]" "oid = om_order_id (slot tid side om)" "om_state (slot tid side om) \<noteq> OM_INVALID"
proof -
  have ok: "slot_ok side (slot tid side om) reqs (about side rsps) (rests side held)" using assms(1,3) by (simp add: sides_ok_def)
  have mem: "(oid, side, q) \<in> set (rests side held)" using assms(2) by (simp add: rests_def)
  then have "rests side held \<noteq> []" by auto
  note h = slot_held [OF ok this]
  show "rests side held = [(oid, side, q)]" "oid = om_order_id (slot tid side om)" using h(2) mem by auto
  show "om_state (slot tid side om) \<noteq> OM_INVALID" using h(5) by (simp add: idle_def)
qed

lemma ids_differ:
  assumes ids: "ids_apart tid om" and ok: "sides_ok tid om reqs rsps held" and m: "(oid, side, q) \<in> set held" "book_side side"
    and t: "book_side t" "t \<noteq> side" and m2: "(i, t, q') \<in> set held"
  shows "i \<noteq> oid"
  using held_id [OF ok m] held_id [OF ok m2 t(1)] ids m(2) t by (auto simp: ids_apart_def book_side_def)

lemma rests_without:
  assumes "ids_apart tid om" "sides_ok tid om reqs rsps held" "(oid, side, q) \<in> set held" "book_side side" "book_side t"
  shows "rests t (without_order oid held) = (if t = side then [] else rests t held)"
proof (cases "t = side")
  case True
  have "rests side (without_order oid held) = without_order oid (rests side held)"
    by (simp add: rests_def without_order_def filter_filter conj_commute case_prod_unfold)
  then show ?thesis using True held_id(1) [OF assms(2-4)] by (simp add: without_order_def)
next
  case False
  have "rests t (without_order oid held) = without_order oid (rests t held)"
    by (simp add: rests_def without_order_def filter_filter conj_commute case_prod_unfold)
  also have "\<dots> = rests t held"
    unfolding without_order_def filter_id_conv using ids_differ [OF assms False] by (auto simp: rests_def)
  finally show ?thesis using False by simp
qed

lemma rests_reduce:
  assumes "ids_apart tid om" "sides_ok tid om reqs rsps held" "(oid, side, q) \<in> set held" "book_side side" "book_side t"
  shows "rests t (reduce_order oid l held) = (if t = side then (if l = 0 then [] else [(oid, side, l)]) else rests t held)"
proof (cases "l = 0")
  case True
  then show ?thesis using rests_without [OF assms] by (simp add: reduce_order_def)
next
  case False
  let ?f = "\<lambda>(i, s, q). if i = oid then (i, s, l) else (i, s, q)"
  have f: "rests t (reduce_order oid l held) = map ?f (rests t held)"
    using False by (simp add: reduce_order_def rests_def filter_map o_def case_prod_unfold)
  show ?thesis
  proof (cases "t = side")
    case True
    then show ?thesis using f False held_id(1) [OF assms(2-4)] by simp
  next
    case F: False
    have "map ?f (rests t held) = rests t held"
      using ids_differ [OF assms F] by (intro map_idI) (auto simp: rests_def)
    then show ?thesis using f F by simp
  qed
qed

lemma set_without: "x \<in> set (without_order oid held) \<Longrightarrow> x \<in> set held"
  by (simp add: without_order_def)

lemma sides_reduce: "\<forall>(i, s, q) \<in> set held. book_side s \<Longrightarrow> \<forall>(i, s, q) \<in> set (reduce_order oid l held). book_side s"
  by (auto simp: reduce_order_def without_order_def split: if_splits)

lemma take_response_om:
  assumes "take_response r pk om = Inr (pk', om')" and "unat (rsp_ticker_id r) < ME_MAX_TICKERS"
  shows "om' = (case order_at (rsp_ticker_id r) (rsp_side r) om of Inr (t, i) \<Rightarrow> put_om_order t i (update_order r (ticker_side_order om t i)) om | Inl _ \<Rightarrow> om)"
  using assms by (auto simp: take_response_def om_onOrderUpdate_def res_simps split: if_splits prod.splits)

lemma session_step_ok:
  assumes st: "session_step rm tid qty s s'" and ok: "session_ok tid s" and tid: "unat tid < ME_MAX_TICKERS" and qty: "qty \<noteq> 0"
  shows "session_ok tid s'"
  using st
proof cases
  case (move bid ask om)
  have sd: "sides_ok tid (ses_om s) (to_exchange s @ om_sent (ses_om s)) (to_trading s) (resting s)"
    "ids_apart tid (ses_om s)" "list_all request_ok (om_sent (ses_om s))"
    using ok by (simp_all add: session_ok_def)
  from moveOrders_ok [OF move(2) tid qty move(3) sd] show ?thesis
    using ok by (simp add: session_ok_def move(1) sides_ok_def ids_apart_def)
next
  case (accept r rs moid cid)
  have r: "book_side (req_side r)" using ok accept by (simp add: session_ok_def request_ok_def)
  have "slot_ok t (slot tid t (ses_om s)) rs (about t (to_trading s @ [answer Rsp_ACCEPTED tid (req_order_id r) (req_side r) (req_price r) 0 (req_qty r) moid cid]))
      (rests t (resting s @ [(req_order_id r, req_side r, req_qty r)]))" if t: "book_side t" for t
  proof -
    have o: "slot_ok t (slot tid t (ses_om s)) (r # rs) (about t (to_trading s)) (rests t (resting s))"
      using ok t accept by (simp add: session_ok_def sides_ok_def)
    show ?thesis
    proof (cases "t = req_side r")
      case True
      then show ?thesis using slot_accept [OF o accept(3)] by simp
    next
      case False
      then show ?thesis using slot_served [OF o] accept(3) by simp
    qed
  qed
  then show ?thesis using ok accept r by (simp add: session_ok_def sides_ok_def response_ok_def)
next
  case (cancel r rs side q price moid cid)
  let ?oid = "req_order_id r"
  have sd: "sides_ok tid (ses_om s) (to_exchange s) (to_trading s) (resting s)" "ids_apart tid (ses_om s)" and b: "book_side side"
    using ok cancel(4) by (auto simp: session_ok_def)
  have "slot_ok t (slot tid t (ses_om s)) rs (about t (to_trading s @ [answer Rsp_CANCELED tid ?oid side price Qty_INVALID q moid cid]))
      (rests t (without_order ?oid (resting s)))" if t: "book_side t" for t
  proof -
    have o: "slot_ok t (slot tid t (ses_om s)) (r # rs) (about t (to_trading s)) (rests t (resting s))"
      using sd(1) t cancel(2) by (simp add: sides_ok_def)
    show ?thesis
    proof (cases "t = side")
      case True
      have "rests t (resting s) \<noteq> []" using held_id(1) [OF sd(1) cancel(4) b] True by simp
      from slot_canceled [OF o this, of "answer Rsp_CANCELED tid ?oid side price Qty_INVALID q moid cid"]
      have "slot_ok t (slot tid t (ses_om s)) (r # rs) (about t (to_trading s) @ [answer Rsp_CANCELED tid ?oid side price Qty_INVALID q moid cid]) []"
        by simp
      then show ?thesis using slot_served cancel(3) True rests_without [OF sd(2,1) cancel(4) b t] by fastforce
    next
      case False
      have "rests t (resting s) = [] \<or> ?oid \<noteq> om_order_id (slot tid t (ses_om s))"
      proof (cases "rests t (resting s)")
        case (Cons e es)
        then obtain i q' where m: "(i, t, q') \<in> set (resting s)" using rests_member [of t "resting s"] by auto
        show ?thesis using ids_differ [OF sd(2,1) cancel(4) b t False m] held_id(2) [OF sd(1) m t] by simp
      qed simp
      then show ?thesis using slot_served [OF o] cancel(3) False rests_without [OF sd(2,1) cancel(4) b t] by auto
    qed
  qed
  then show ?thesis using ok cancel b by (auto simp: session_ok_def sides_ok_def response_ok_def dest: set_without)
next
  case (reject r rs cid)
  have sd: "sides_ok tid (ses_om s) (to_exchange s) (to_trading s) (resting s)" using ok by (simp add: session_ok_def)
  have "slot_ok t (slot tid t (ses_om s)) rs (about t (to_trading s)) (rests t (resting s))" if t: "book_side t" for t
  proof -
    have o: "slot_ok t (slot tid t (ses_om s)) (r # rs) (about t (to_trading s)) (rests t (resting s))"
      using sd t reject(2) by (simp add: sides_ok_def)
    have "rests t (resting s) = [] \<or> req_order_id r \<noteq> om_order_id (slot tid t (ses_om s))"
    proof (cases "rests t (resting s)")
      case (Cons e es)
      then obtain i q' where m: "(i, t, q') \<in> set (resting s)" using rests_member [of t "resting s"] by auto
      show ?thesis using held_id(2) [OF sd m t] reject(4) m by (metis fst_conv image_eqI)
    qed simp
    then show ?thesis using slot_served [OF o] reject(3) by simp
  qed
  moreover have "about t (to_trading s @ [answer Rsp_CANCEL_REJECTED tid x Side_INVALID p a b c d]) = about t (to_trading s)"
    if "book_side t" for t x p a b c d using that by (auto simp: book_side_def)
  ultimately show ?thesis using ok reject by (simp add: session_ok_def sides_ok_def response_ok_def)
next
  case (fill oid side q exec price moid cid)
  have sd: "sides_ok tid (ses_om s) (to_exchange s) (to_trading s) (resting s)" "ids_apart tid (ses_om s)" and b: "book_side side"
    using ok fill(2) by (auto simp: session_ok_def)
  let ?a = "answer Rsp_FILLED tid oid side price exec (q - exec) moid cid"
  have "slot_ok t (slot tid t (ses_om s)) (to_exchange s) (about t (to_trading s @ [?a])) (rests t (reduce_order oid (q - exec) (resting s)))"
    if t: "book_side t" for t
  proof -
    have o: "slot_ok t (slot tid t (ses_om s)) (to_exchange s) (about t (to_trading s)) (rests t (resting s))"
      using sd(1) t by (simp add: sides_ok_def)
    show ?thesis
    proof (cases "t = side")
      case True
      then show ?thesis
        using slot_filled [OF o _ fill(3,4), of oid ?a] held_id(1) [OF sd(1) fill(2) b] rests_reduce [OF sd(2,1) fill(2) b t]
        by (cases "q = exec") simp_all
    next
      case False
      then show ?thesis using o rests_reduce [OF sd(2,1) fill(2) b t] by simp
    qed
  qed
  then show ?thesis
    using ok fill b sides_reduce [of "resting s" oid "q - exec"] by (simp add: session_ok_def sides_ok_def response_ok_def)
next
  case (receive r rs pk om)
  have r: "response_ok tid r" and sd: "sides_ok tid (ses_om s) (to_exchange s) (to_trading s) (resting s)"
    using ok receive by (simp_all add: session_ok_def)
  have rt: "rsp_ticker_id r = tid" using r by (simp add: response_ok_def)
  show ?thesis
  proof (cases "book_side (rsp_side r)")
    case True
    have om: "om = put_om_order (unat tid) (unat (sideToIndex (rsp_side r))) (update_order r (slot tid (rsp_side r) (ses_om s))) (ses_om s)"
      using receive(3) rt tid True by (auto simp: take_response_def om_onOrderUpdate_def slot_def res_simps split: if_splits)
    have "slot_ok t (slot tid t om) (to_exchange s) (about t rs) (rests t (resting s))" if t: "book_side t" for t
    proof -
      have o: "slot_ok t (slot tid t (ses_om s)) (to_exchange s) (about t (r # rs)) (rests t (resting s))"
        using sd t receive(2) by (simp add: sides_ok_def)
      show ?thesis using o t True slot_receive by (cases "t = rsp_side r") (auto simp: om)
    qed
    moreover have "ids_apart tid om"
    proof -
      have "om_state (update_order r x) \<noteq> OM_INVALID \<longrightarrow> om_state x \<noteq> OM_INVALID" if "x = slot tid (rsp_side r) (ses_om s)" for x
        using sd True receive(2) that by (auto simp: sides_ok_def slot_ok_def idle_def)
      then show ?thesis using ok True by (auto simp: ids_apart_def session_ok_def om book_side_def)
    qed
    ultimately show ?thesis using ok receive by (simp add: session_ok_def sides_ok_def om)
  next
    case False
    then have rr: "rsp_side r = Side_INVALID" "rsp_type r = Rsp_CANCEL_REJECTED" using r by (auto simp: response_ok_def)
    have om: "om = put_om_order (unat tid) 1 (ticker_side_order (ses_om s) (unat tid) 1) (ses_om s)"
      using receive(3) rt tid rr by (auto simp: take_response_def om_onOrderUpdate_def order_at_def side_array_size_def
          update_order_def res_simps split: if_splits)
    have "om = ses_om s" unfolding om by (simp add: put_om_order_def)
    moreover have "about t (to_trading s) = about t rs" if "book_side t" for t using that rr(1) receive(2) by (auto simp: book_side_def)
    ultimately show ?thesis using ok receive by (simp add: session_ok_def sides_ok_def)
  qed
next
  case (mark ticker book bbo pk)
  then show ?thesis using ok by (simp add: session_ok_def)
qed


lemma session_init_ok:
  assumes "\<And>side. book_side side \<Longrightarrow> om_state (slot tid side om) = OM_INVALID" and "om_sent om = []"
  shows "session_ok tid (session_init om pk)"
  using assms by (auto simp: session_ok_def session_init_def sides_ok_def slot_ok_def idle_def ids_apart_def)

lemma session_reachable_ok:
  assumes "session_reachable rm tid qty s s'" and "session_ok tid s" and "unat tid < ME_MAX_TICKERS" and "qty \<noteq> 0"
  shows "session_ok tid s'"
  using assms(1) unfolding session_reachable_def
  by (induction rule: rtranclp_induct) (use assms(2-) session_step_ok in blast)+

section \<open>The position limit\<close>

text \<open>What an order may still add to the position.\<close>

definition outstanding :: "OMOrder \<Rightarrow> int" where
  "outstanding x = (if idle x then 0 else uint (om_qty x))"

text \<open>The position and the outstanding orders of each side alone stay inside \<open>m\<close>.\<close>

definition within_limit :: "int \<Rightarrow> TickerId \<Rightarrow> PositionKeeper \<Rightarrow> OrderManager \<Rightarrow> bool" where
  "within_limit m tid pk om \<longleftrightarrow>
     sint (position (pk (unat tid))) + outstanding (slot tid BUY om) \<le> m
     \<and> - m \<le> sint (position (pk (unat tid))) - outstanding (slot tid SELL om)"

lemma outstanding_ge [simp]: "0 \<le> outstanding x"
  by (simp add: outstanding_def)

lemma allowed_within:
  assumes "checkPreTradeRisk tid side qty rm pk = Inr ALLOWED" and "book_side side"
    and "ri_position_info (rm (unat tid)) = Some (unat tid)" and "uint (max_order_size (ri_risk_cfg (rm (unat tid)))) < 2 ^ 31"
    and "m = sint (max_position (ri_risk_cfg (rm (unat tid))))"
  shows "\<bar>sint (position (pk (unat tid))) + sideToValue side * uint qty\<bar> \<le> m"
proof -
  let ?ri = "rm (unat tid)"
  have c: "checkRisk side qty ?ri pk = Inr ALLOWED"
    using assms(1) by (auto simp: checkPreTradeRisk_def array_at_def split: if_splits)
  then have "qty \<le> max_order_size (ri_risk_cfg ?ri)"
    by (simp add: checkRisk_def not_less split: if_splits)
  then have "uint qty < 2 ^ 31" using assms(4) by (simp add: word_le_def)
  then have "sint qty = uint qty" by (rule sint_small)
  then show ?thesis
    using c assms(3,5) by (simp add: checkRisk_def res_simps split: if_splits)
qed

lemma move_within:
  assumes mv: "moveOrder rm pk (unat tid) (unat (sideToIndex side)) tid price side qty om = Inr om'" and side: "book_side side"
    and lim: "within_limit m tid pk om"
    and cfg: "ri_position_info (rm (unat tid)) = Some (unat tid)" "uint (max_order_size (ri_risk_cfg (rm (unat tid)))) < 2 ^ 31"
      "m = sint (max_position (ri_risk_cfg (rm (unat tid))))"
  shows "within_limit m tid pk om'"
  using mv
proof (cases rule: moveOrder_cases)
  case 1
  then show ?thesis using lim by simp
next
  case 2
  have "slot tid t (cancelOrder (unat tid) (unat (sideToIndex side)) om)
      = (if t = side then (slot tid t om)\<lparr>om_state := PENDING_CANCEL\<rparr> else slot tid t om)" if "book_side t" for t
    using side that by (auto simp: cancelOrder_def Let_def) (simp add: slot_def)
  then have "slot tid BUY om' = (if BUY = side then (slot tid BUY om)\<lparr>om_state := PENDING_CANCEL\<rparr> else slot tid BUY om)"
    "slot tid SELL om' = (if SELL = side then (slot tid SELL om)\<lparr>om_state := PENDING_CANCEL\<rparr> else slot tid SELL om)" by (simp_all add: 2(2))
  moreover have "outstanding ((slot tid side om)\<lparr>om_state := PENDING_CANCEL\<rparr>) = outstanding (slot tid side om)"
    using 2 by (simp add: outstanding_def idle_def)
  ultimately have "outstanding (slot tid BUY om') = outstanding (slot tid BUY om)" "outstanding (slot tid SELL om') = outstanding (slot tid SELL om)"
    by (simp_all split: if_splits)
  then show ?thesis using lim by (simp add: within_limit_def)
next
  case 3
  let ?x = "\<lparr>om_ticker_id = tid, om_order_id = next_order_id om, om_side = side, om_price = price, om_qty = qty, om_state = PENDING_NEW\<rparr>"
  have new: "slot tid t om' = (if t = side then ?x else slot tid t om)" if "book_side t" for t
    using side that by (simp add: 3(4) newOrder_def Let_def)
  have out: "outstanding ?x = uint qty" by (simp add: outstanding_def idle_def)
  have "\<bar>sint (position (pk (unat tid))) + sideToValue side * uint qty\<bar> \<le> m" by (rule allowed_within [OF 3(2) side cfg])
  moreover have "sideToValue BUY = 1" "sideToValue SELL = - 1" by simp_all
  ultimately have q: "side = BUY \<Longrightarrow> sint (position (pk (unat tid))) + uint qty \<le> m"
    "side = SELL \<Longrightarrow> - m \<le> sint (position (pk (unat tid))) - uint qty" by auto
  note l = lim [unfolded within_limit_def]
  have "outstanding (slot tid BUY om') = (if side = BUY then uint qty else outstanding (slot tid BUY om))"
    "outstanding (slot tid SELL om') = (if side = SELL then uint qty else outstanding (slot tid SELL om))"
    by (simp_all only: new book_side_simps if_distrib [of outstanding] out) simp_all
  then show ?thesis unfolding within_limit_def using l q by (simp split: if_splits)
qed

lemma position_kept:
  "increase_position r info = Inr info' \<Longrightarrow> position info' = position info"
  "reduce_position r old info = Inr info' \<Longrightarrow> position info' = position info"
  "mark_position p info = Inr info' \<Longrightarrow> position info' = position info"
  by (auto simp: increase_position_def res_simps)
     (auto simp: reduce_position_def Let_def res_simps split: if_splits,
      auto simp: mark_position_def res_simps split: if_splits)

lemma addFill_pos:
  assumes "addFill r info = Inr info'"
  shows "position info' = position info + rsp_exec_qty r * word_of_int (sideToValue (rsp_side r))"
proof -
  let ?mid = "info\<lparr>position := position info + rsp_exec_qty r * word_of_int (sideToValue (rsp_side r)),
                  volume := volume info + rsp_exec_qty r\<rparr>"
  obtain m where m: "increase_position r ?mid = Inr m \<or> reduce_position r (sint (position info)) ?mid = Inr m"
    "mark_position (rsp_price r) m = Inr info'"
    using assms by (auto simp: addFill_def Let_def bindE_eq_Inr split: if_splits)
  then show ?thesis using position_kept(1,2) position_kept(3) [OF m(2)] by fastforce
qed

text \<open>The next response and the order it is about.\<close>

lemma next_response:
  assumes ok: "session_ok tid s" and r: "to_trading s = r # rs" and side: "book_side (rsp_side r)"
  shows "\<not> idle (slot tid (rsp_side r) (ses_om s))"
    "rsp_type r = Rsp_FILLED \<Longrightarrow> uint (rsp_exec_qty r) + uint (rsp_leaves_qty r) = outstanding (slot tid (rsp_side r) (ses_om s))"
    "rsp_ticker_id r = tid"
proof -
  have o: "slot_ok (rsp_side r) (slot tid (rsp_side r) (ses_om s)) (to_exchange s) (r # about (rsp_side r) rs) (rests (rsp_side r) (resting s))"
    using ok side r unfolding session_ok_def sides_ok_def by (metis about_simps(2))
  then show ni: "\<not> idle (slot tid (rsp_side r) (ses_om s))" by (auto simp: slot_ok_def)
  show "rsp_type r = Rsp_FILLED \<Longrightarrow> uint (rsp_exec_qty r) + uint (rsp_leaves_qty r) = outstanding (slot tid (rsp_side r) (ses_om s))"
    using o ni by (simp add: slot_ok_def outstanding_def)
  show "rsp_ticker_id r = tid" using ok r by (simp add: session_ok_def response_ok_def)
qed

lemma response_sides:
  assumes "session_ok tid s" and "to_trading s = r # rs"
  shows "rsp_ticker_id r = tid" "rsp_type r = Rsp_FILLED \<Longrightarrow> \<bar>rsp_price r\<bar> < 2 ^ 31"
    "book_side (rsp_side r) \<or> rsp_side r = Side_INVALID \<and> rsp_type r = Rsp_CANCEL_REJECTED"
  using assms by (simp_all add: session_ok_def response_ok_def)

lemma outstanding_update:
  "\<not> idle x \<Longrightarrow> outstanding (update_order r x) =
     (if rsp_type r = Rsp_FILLED then uint (rsp_leaves_qty r) else if rsp_type r = Rsp_CANCELED then 0 else outstanding x)"
  by (auto simp: outstanding_def idle_def update_order_state update_order_qty terminal_def)

text \<open>A fill that arrives keeps the limit: what it adds to the position was outstanding before.\<close>

lemma fill_within:
  assumes ok: "session_ok tid s" and r: "to_trading s = r # rs" and f: "rsp_type r = Rsp_FILLED" and m: "m < 2 ^ 31"
    and lim: "within_limit m tid (ses_pk s) (ses_om s)"
  shows "\<bar>sint (position (ses_pk s (unat tid))) + fill_change r\<bar> \<le> m" "uint (rsp_exec_qty r) \<le> 2 * m"
    "book_side (rsp_side r)"
proof -
  show side: "book_side (rsp_side r)" using response_sides(3) [OF ok r] f by auto
  let ?p = "sint (position (ses_pk s (unat tid)))" and ?o = "outstanding (slot tid (rsp_side r) (ses_om s))"
  obtain k where k: "uint (rsp_exec_qty r) = k" "0 \<le> k" by simp
  have e: "k \<le> ?o" using k next_response(2) [OF ok r side f] uint_ge_0 [of "rsp_leaves_qty r"]
    by linarith
  have l: "?p + outstanding (slot tid BUY (ses_om s)) \<le> m" "- m \<le> ?p - outstanding (slot tid SELL (ses_om s))"
    using lim by (simp_all add: within_limit_def)
  have p: "?p \<le> m" "- m \<le> ?p"
    using l outstanding_ge [of "slot tid BUY (ses_om s)"] outstanding_ge [of "slot tid SELL (ses_om s)"] by linarith+
  have "rsp_side r = BUY \<or> rsp_side r = SELL" using side by (simp add: book_side_def)
  then have "\<bar>?p + fill_change r\<bar> \<le> m \<and> k \<le> 2 * m"
  proof
    assume b: "rsp_side r = BUY"
    then have "fill_change r = k" "k \<le> outstanding (slot tid BUY (ses_om s))" using e by (simp_all add: fill_change_def k(1))
    then show ?thesis using l p k(2) by linarith
  next
    assume b: "rsp_side r = SELL"
    then have "fill_change r = - k" "k \<le> outstanding (slot tid SELL (ses_om s))" using e by (simp_all add: fill_change_def k(1))
    then show ?thesis using l p k(2) by linarith
  qed
  then show "\<bar>?p + fill_change r\<bar> \<le> m" "uint (rsp_exec_qty r) \<le> 2 * m" by (simp_all add: k(1))
qed

text \<open>What executed moves from the outstanding quantity to the position.\<close>

lemma limit_change:
  assumes lim: "within_limit m tid pk om" and side: "book_side side"
    and p: "sint (position (pk' (unat tid))) = sint (position (pk (unat tid))) + sideToValue side * e"
    and e: "0 \<le> e" "outstanding x + e \<le> outstanding (slot tid side om)"
    and sl: "\<And>t. book_side t \<Longrightarrow> slot tid t om' = (if t = side then x else slot tid t om)"
  shows "within_limit m tid pk' om'"
  using assms by (auto simp: within_limit_def book_side_def)

text \<open>The new position in 32 bits; an execution of 2^31 or more wraps round to the same.\<close>

lemma addFill_position2:
  fixes a q :: "32 word"
  assumes "book_side side" and "\<bar>sint a + sideToValue side * uint q\<bar> < 2 ^ 31"
  shows "sint (a + q * word_of_int (sideToValue side)) = sint a + sideToValue side * uint q"
proof -
  have "a + q * word_of_int (sideToValue side) = word_of_int (sint a + sideToValue side * uint q)"
    using assms(1) by (auto simp: book_side_def)
  then have "sint (a + q * word_of_int (sideToValue side)) = signed_take_bit (LENGTH(32) - Suc 0) (sint a + sideToValue side * uint q)"
    by (simp only: signed_of_int of_int_eq_id id_apply)
  then show ?thesis using assms(2) by (simp add: signed_take_bit_int_eq_self)
qed

lemma receive_within:
  assumes ok: "session_ok tid s" and r: "to_trading s = r # rs" and tk: "take_response r (ses_pk s) (ses_om s) = Inr (pk, om)"
    and tid: "unat tid < ME_MAX_TICKERS" and m: "m < 2 ^ 31" and lim: "within_limit m tid (ses_pk s) (ses_om s)"
  shows "within_limit m tid pk om"
proof -
  note rs = response_sides [OF ok r]
  show ?thesis
  proof (cases "book_side (rsp_side r)")
    case False
    then have "rsp_side r = Side_INVALID" "rsp_type r = Rsp_CANCEL_REJECTED" using rs(3) by auto
    then have "pk = ses_pk s" "om = ses_om s"
      using tk rs(1) tid by (auto simp: take_response_def om_onOrderUpdate_def order_at_def side_array_size_def
          update_order_def res_simps put_om_order_def split: if_splits)
    then show ?thesis using lim by simp
  next
    case True
    have om: "om = put_om_order (unat tid) (unat (sideToIndex (rsp_side r))) (update_order r (slot tid (rsp_side r) (ses_om s))) (ses_om s)"
      using tk rs(1) tid True by (auto simp: take_response_def om_onOrderUpdate_def slot_def res_simps split: if_splits)
    note ni = next_response(1) [OF ok r True]
    let ?x = "slot tid (rsp_side r) (ses_om s)" and ?p = "sint (position (ses_pk s (unat tid)))"
    have sl: "slot tid t om = (if t = rsp_side r then update_order r ?x else slot tid t (ses_om s))" if "book_side t" for t
      using True that by (simp add: om)
    show ?thesis
    proof (cases "rsp_type r = Rsp_FILLED")
      case False
      then have pk: "pk = ses_pk s" using tk by (auto simp: take_response_def res_simps)
      have "outstanding (update_order r ?x) \<le> outstanding ?x"
        using outstanding_update [OF ni, of r] False by simp
      then show ?thesis using limit_change [OF lim True, of pk 0 "update_order r ?x" om] pk sl by simp
    next
      case F: True
      obtain info where info: "addFill r (ses_pk s (unat tid)) = Inr info" "pk = (ses_pk s)(unat tid := info)"
        using tk F rs(1) tid by (auto simp: take_response_def pk_addFill_def res_simps)
      note fw = fill_within [OF ok r F m lim]
      have "outstanding (update_order r ?x) + uint (rsp_exec_qty r) = outstanding ?x"
        using outstanding_update [OF ni, of r] next_response(2) [OF ok r True F] F by simp
      moreover have "sint (position info) = ?p + sideToValue (rsp_side r) * uint (rsp_exec_qty r)"
        using addFill_pos [OF info(1)] addFill_position2 [OF True] fw(1) m by (simp add: fill_change_def)
      ultimately show ?thesis
        using limit_change [OF lim True, of pk "uint (rsp_exec_qty r)" "update_order r ?x" om] info(2) sl by simp
    qed
  qed
qed

text \<open>The limits the session runs with: those of the risk manager for the ticker.\<close>

definition limit_cfg :: "int \<Rightarrow> TickerId \<Rightarrow> RiskManager \<Rightarrow> bool" where
  "limit_cfg m tid rm \<longleftrightarrow> ri_position_info (rm (unat tid)) = Some (unat tid)
     \<and> uint (max_order_size (ri_risk_cfg (rm (unat tid)))) < 2 ^ 31 \<and> m = sint (max_position (ri_risk_cfg (rm (unat tid))))"

lemma updateBBO_position:
  assumes "pk_updateBBO ticker book bbo pk = Inr pk'"
  shows "position (pk' i) = position (pk i)"
  using assms by (auto simp: pk_updateBBO_def pos_updateBBO_def array_at_def Let_def res_simps split: if_splits)

lemma session_step_within:
  assumes st: "session_step rm tid qty s s'" and ok: "session_ok tid s" and tid: "unat tid < ME_MAX_TICKERS"
    and cfg: "limit_cfg m tid rm" and lim: "within_limit m tid (ses_pk s) (ses_om s)"
  shows "within_limit m tid (ses_pk s') (ses_om s')"
  using st
proof cases
  case (move bid ask om)
  note c = cfg [unfolded limit_cfg_def, THEN conjunct1] cfg [unfolded limit_cfg_def, THEN conjunct2, THEN conjunct1]
    cfg [unfolded limit_cfg_def, THEN conjunct2, THEN conjunct2]
  obtain om1 where om1: "moveOrder rm (ses_pk s) (unat tid) (unat (sideToIndex BUY)) tid bid BUY qty (ses_om s) = Inr om1"
    "moveOrder rm (ses_pk s) (unat tid) (unat (sideToIndex SELL)) tid ask SELL qty om1 = Inr om"
    using move(2) tid by (auto simp: moveOrders_def res_simps simp del: sideToIndex_simps)
  have "within_limit m tid (ses_pk s) om"
    using move_within [OF om1(2) _ move_within [OF om1(1) _ lim c] c] by simp
  then show ?thesis using move(1) by (simp add: within_limit_def)
next
  case (receive r rs pk om)
  have "m < 2 ^ 31" using cfg sint_lt [of "max_position (ri_risk_cfg (rm (unat tid)))"] by (simp add: limit_cfg_def)
  from receive_within [OF ok receive(2,3) tid this lim] show ?thesis by (simp add: receive(1))
next
  case (mark ticker book bbo pk)
  then show ?thesis using lim updateBBO_position [of ticker book bbo "ses_pk s" pk "unat tid"] by (simp add: within_limit_def)
qed (use lim in simp_all)

text \<open>A response that arrives is taken: no arithmetic of the position leaves its type.\<close>

lemma some_accounts: "\<exists>e. accounts e 0 (sint (position info)) info"
  by (auto simp: accounts_def intro!: exI [of _ "real_pnl info
    - (if sint (position info) > 0 then open_vwap info 2 else if sint (position info) < 0 then - open_vwap info 0 else 0)"])

lemma receive_returns:
  assumes ok: "session_ok tid s" and r: "to_trading s = r # rs" and tid: "unat tid < ME_MAX_TICKERS"
    and m: "m \<le> 46340" and lim: "within_limit m tid (ses_pk s) (ses_om s)"
  shows "\<exists>pk om. take_response r (ses_pk s) (ses_om s) = Inr (pk, om)"
proof -
  note rs = response_sides [OF ok r]
  have "\<exists>t i. order_at (rsp_ticker_id r) (rsp_side r) (ses_om s) = Inr (t, i)"
    using rs(1,3) tid by (auto simp: order_at_def side_array_size_def book_side_def)
  then obtain om where om: "om_onOrderUpdate r (ses_om s) = Inr om" by (auto simp: om_onOrderUpdate_def)
  show ?thesis
  proof (cases "rsp_type r = Rsp_FILLED")
    case False
    then show ?thesis using om by (simp add: take_response_def)
  next
    case True
    let ?info = "ses_pk s (unat tid)"
    obtain e where acc: "accounts e 0 (sint (position ?info)) ?info" using some_accounts by blast
    have m2: "m < 2 ^ 31" using m by simp
    note fw = fill_within [OF ok r True m2 lim]
    have p: "\<bar>sint (position ?info)\<bar> \<le> 46340"
      using lim m outstanding_ge [of "slot tid BUY (ses_om s)"] outstanding_ge [of "slot tid SELL (ses_om s)"]
      unfolding within_limit_def by linarith
    have "proper_fill r" using fw(2,3) m rs(2) True by (auto simp: proper_fill_def book_side_def)
    from addFill_ok [OF acc this p] fw(1) m obtain info where info: "addFill r ?info = Inr info" by fastforce
    then show ?thesis using om True rs(1) tid by (simp add: take_response_def pk_addFill_def)
  qed
qed

text \<open>The initial session and everything it reaches.\<close>

lemma initial_session: "session_ok tid (session_init (OrderManager_init cid) pk)"
  by (rule session_init_ok) (simp_all add: slot_def OrderManager_init_def OMOrder_default_def)

lemma initial_within:
  assumes "\<bar>sint (position (pk (unat tid)))\<bar> \<le> m"
  shows "within_limit m tid pk (OrderManager_init cid)"
proof -
  have "outstanding (slot tid side (OrderManager_init cid)) = 0" for side
    by (simp add: outstanding_def idle_def slot_def OrderManager_init_def OMOrder_default_def)
  then show ?thesis using assms by (simp add: within_limit_def abs_le_iff)
qed

lemma session_invariants:
  assumes run: "session_reachable rm tid qty (session_init (OrderManager_init cid) pk) s" and tid: "unat tid < ME_MAX_TICKERS"
    and qty: "qty \<noteq> 0" and cfg: "limit_cfg m tid rm" and pos: "\<bar>sint (position (pk (unat tid)))\<bar> \<le> m"
  shows "session_ok tid s \<and> within_limit m tid (ses_pk s) (ses_om s)"
  using run unfolding session_reachable_def
proof (induction rule: rtranclp_induct)
  case base
  then show ?case using initial_session initial_within [of pk tid m, OF pos] by (simp add: session_init_def)
next
  case (step s s')
  then show ?case
    using session_step_ok [OF step.hyps(2) _ tid qty] session_step_within [OF step.hyps(2) _ tid cfg] by blast
qed

section \<open>Properties\<close>

text \<open>C5: whatever prices the algorithm asks for and however requests, fills and responses interleave, at most one
  order of a ticker and side is outstanding, at the exchange or on the way to it; and when nothing is on the way
  any more, the order manager knows what rests at the exchange: an order that is LIVE with its id and its
  remaining quantity, or nothing, when its order is DEAD or was never sent. No order stays in a pending state.\<close>

theorem one_order_per_side:
  assumes "session_reachable rm tid qty (session_init (OrderManager_init cid) pk) s" and "unat tid < ME_MAX_TICKERS"
    and "qty \<noteq> 0" and "book_side side"
  shows "length (rests side (resting s)) + length (news side (to_exchange s)) \<le> 1
    \<and> (to_exchange s = [] \<and> to_trading s = [] \<longrightarrow>
      (if rests side (resting s) = [] then idle (slot tid side (ses_om s))
       else om_state (slot tid side (ses_om s)) = LIVE
         \<and> rests side (resting s) = [(om_order_id (slot tid side (ses_om s)), side, om_qty (slot tid side (ses_om s)))]))"
proof -
  have "session_ok tid s"
    by (rule session_reachable_ok [OF assms(1) _ assms(2,3)], rule initial_session)
  then have ok: "slot_ok side (slot tid side (ses_om s)) (to_exchange s) (about side (to_trading s)) (rests side (resting s))"
    using assms(4) by (simp add: session_ok_def sides_ok_def)
  then have "length (rests side (resting s)) + length (news side (to_exchange s)) \<le> 1"
    by (auto simp: slot_ok_def)
  moreover have "to_exchange s = [] \<Longrightarrow> to_trading s = [] \<Longrightarrow>
      (if rests side (resting s) = [] then idle (slot tid side (ses_om s))
       else om_state (slot tid side (ses_om s)) = LIVE
         \<and> rests side (resting s) = [(om_order_id (slot tid side (ses_om s)), side, om_qty (slot tid side (ses_om s)))])"
    using ok by (auto simp: slot_ok_def)
  ultimately show ?thesis by blast
qed

text \<open>C7: the risk check bounds the position for good: from a position inside \<open>max_position\<close>, however the orders of
  both sides are moved and filled, the position stays inside it, and so would it if every outstanding order of
  a side were filled completely.\<close>

theorem position_within_limit:
  assumes "session_reachable rm tid qty (session_init (OrderManager_init cid) pk) s" and "unat tid < ME_MAX_TICKERS"
    and "qty \<noteq> 0" and "limit_cfg m tid rm" and "\<bar>sint (position (pk (unat tid)))\<bar> \<le> m"
  shows "\<bar>sint (position (ses_pk s (unat tid)))\<bar> \<le> m
    \<and> sint (position (ses_pk s (unat tid))) + outstanding (slot tid BUY (ses_om s)) \<le> m
    \<and> - m \<le> sint (position (ses_pk s (unat tid))) - outstanding (slot tid SELL (ses_om s))"
proof -
  have "within_limit m tid (ses_pk s) (ses_om s)" using session_invariants [OF assms] by blast
  then show ?thesis
    using outstanding_ge [of "slot tid BUY (ses_om s)"] outstanding_ge [of "slot tid SELL (ses_om s)"]
    unfolding within_limit_def by linarith
qed

text \<open>C32: with \<open>max_position\<close> at most 46340 no response can make the trading side fail: every response that is next is
  taken, whatever fills came before and whatever the memory of the position keeper held at the start.\<close>

theorem responses_are_taken:
  assumes "session_reachable rm tid qty (session_init (OrderManager_init cid) pk) s" and "unat tid < ME_MAX_TICKERS"
    and "qty \<noteq> 0" and "limit_cfg m tid rm" and "\<bar>sint (position (pk (unat tid)))\<bar> \<le> m" and "m \<le> 46340"
    and "to_trading s = r # rs"
  shows "\<exists>pk' om'. take_response r (ses_pk s) (ses_om s) = Inr (pk', om')"
  using session_invariants [OF assms(1-5)] receive_returns [OF _ assms(7,2,6)] by blast

section \<open>A run\<close>

text \<open>An order to buy 10 at 100 is sent, accepted, and filled for 4.\<close>

definition sample_rm :: RiskManager where
  "sample_rm = RiskManager_init (\<lambda>_. \<lparr>clip = 10, threshold = 0, risk_cfg = \<lparr>max_order_size = 20, max_position = 50, max_loss = 0\<rparr>\<rparr>)"

definition sample_pk :: PositionKeeper where "sample_pk = PositionKeeper_init (\<lambda>_ _. 0)"

definition sample_request :: MEClientRequest where
  "sample_request = \<lparr>req_type = Req_NEW, req_client_id = 7, req_ticker_id = 1, req_order_id = 1, req_side = BUY,
     req_price = 100, req_qty = 10\<rparr>"

definition sample_order :: "Qty \<Rightarrow> OMOrderState \<Rightarrow> OMOrder" where
  "sample_order q st = \<lparr>om_ticker_id = 1, om_order_id = 1, om_side = BUY, om_price = 100, om_qty = q, om_state = st\<rparr>"

definition sample_om :: "OMOrder \<Rightarrow> OrderManager" where
  "sample_om x = put_om_order 1 2 x (OrderManager_init 7\<lparr>next_order_id := 2\<rparr>)"

definition sample_accepted :: MEClientResponse where
  "sample_accepted = answer Rsp_ACCEPTED 1 1 BUY 100 0 10 1 7"

definition sample_filled :: MEClientResponse where
  "sample_filled = answer Rsp_FILLED 1 1 BUY 100 4 6 1 7"

definition sample_waiting :: session where
  "sample_waiting = \<lparr>ses_om = sample_om (sample_order 10 PENDING_NEW), ses_pk = sample_pk, to_exchange = [],
     resting = [(1, BUY, 6)], to_trading = [sample_accepted, sample_filled]\<rparr>"

lemma sample_moves:
  "moveOrders sample_rm sample_pk 1 100 Price_INVALID 10 (OrderManager_init 7)
    = Inr ((sample_om (sample_order 10 PENDING_NEW))\<lparr>om_sent := [sample_request]\<rparr>)"
  by (simp add: moveOrders_def moveOrder_def newOrder_def put_om_order_def OrderManager_init_def OMOrder_default_def
      checkPreTradeRisk_def checkRisk_def sample_rm_def RiskManager_init_def sample_pk_def PositionKeeper_init_def
      PositionInfo_init_def sample_om_def sample_order_def sample_request_def int32_def ME_MAX_TICKERS_def order_at_def side_array_size_def Let_def Price_INVALID_def)

lemma sample_reaches_waiting:
  "session_reachable sample_rm 1 10 (session_init (OrderManager_init 7) sample_pk) sample_waiting"
proof -
  let ?s0 = "session_init (OrderManager_init 7) sample_pk"
  let ?s1 = "?s0\<lparr>ses_om := sample_om (sample_order 10 PENDING_NEW), to_exchange := [sample_request]\<rparr>"
  let ?s2 = "?s1\<lparr>to_exchange := [], resting := [(1, BUY, 10)], to_trading := [sample_accepted]\<rparr>"
  have "session_step sample_rm 1 10 ?s0 ?s1"
    using session_step.move [of sample_rm ?s0 1 100 Price_INVALID 10, unfolded session_init_def, simplified, OF sample_moves]
    by (simp add: session_init_def OrderManager_init_def sample_om_def put_om_order_def ME_MAX_ORDER_IDS_def)
  moreover have "session_step sample_rm 1 10 ?s1 ?s2"
    using session_step.accept [of ?s1 sample_request "[]" sample_rm 1 10 1 7]
    by (simp add: sample_request_def sample_accepted_def session_init_def)
  moreover have "session_step sample_rm 1 10 ?s2 sample_waiting"
    using session_step.fill [of 1 BUY 10 ?s2 4 100 sample_rm 1 10 1 7]
    by (simp add: sample_accepted_def sample_filled_def sample_waiting_def session_init_def reduce_order_def)
  ultimately show ?thesis unfolding session_reachable_def by (meson r_into_rtranclp rtranclp_trans)
qed


text \<open>Both responses taken: 4 bought at 100, 6 outstanding.\<close>

definition sample_bought :: PositionInfo where
  "sample_bought = \<lparr>position = 4, real_pnl = 0, unreal_pnl = 0, total_pnl = 0, open_vwap = (\<lambda>_. 0)(2 := 400), volume = 4, pi_bbo = None\<rparr>"

definition sample_taken :: session where
  "sample_taken = \<lparr>ses_om = sample_om (sample_order 6 LIVE), ses_pk = sample_pk(1 := sample_bought), to_exchange = [],
     resting = [(1, BUY, 6)], to_trading = []\<rparr>"

lemma sample_takes_accepted:
  "take_response sample_accepted sample_pk (sample_om (sample_order 10 PENDING_NEW)) = Inr (sample_pk, sample_om (sample_order 10 LIVE))"
  by (simp add: take_response_def om_onOrderUpdate_def order_at_def sample_accepted_def answer_def update_order_def
      sample_om_def sample_order_def put_om_order_def ME_MAX_TICKERS_def side_array_size_def)

lemma sample_takes_filled:
  "take_response sample_filled sample_pk (sample_om (sample_order 10 LIVE)) = Inr (sample_pk(1 := sample_bought), sample_om (sample_order 6 LIVE))"
  by (simp add: take_response_def om_onOrderUpdate_def order_at_def sample_filled_def answer_def update_order_def
      sample_om_def sample_order_def put_om_order_def ME_MAX_TICKERS_def side_array_size_def Let_def pk_addFill_def
      addFill_def int32_def int64_def mark_position_def open_pnl_def increase_position_def sample_pk_def PositionKeeper_init_def
      PositionInfo_init_def sample_bought_def)

lemma sample_reaches_taken:
  "session_reachable sample_rm 1 10 (session_init (OrderManager_init 7) sample_pk) sample_taken"
proof -
  let ?s = "sample_waiting\<lparr>ses_om := sample_om (sample_order 10 LIVE), to_trading := [sample_filled]\<rparr>"
  have "session_step sample_rm 1 10 sample_waiting ?s"
    using session_step.receive [of sample_waiting sample_accepted "[sample_filled]" sample_pk "sample_om (sample_order 10 LIVE)" sample_rm 1 10]
      sample_takes_accepted by (simp add: sample_waiting_def)
  moreover have "session_step sample_rm 1 10 ?s sample_taken"
    using session_step.receive [of ?s sample_filled "[]" "sample_pk(1 := sample_bought)" "sample_om (sample_order 6 LIVE)" sample_rm 1 10]
      sample_takes_filled by (simp add: sample_waiting_def sample_taken_def)
  ultimately show ?thesis using sample_reaches_waiting unfolding session_reachable_def
    by (meson rtranclp.rtrancl_into_rtrancl)
qed

lemma sample_slots:
  "slot 1 BUY (sample_om x) = x" "slot 1 SELL (sample_om x) = OMOrder_default"
  by (simp_all add: slot_def sample_om_def put_om_order_def OrderManager_init_def)

lemma sample_limit: "limit_cfg 50 1 sample_rm"
  by (simp add: limit_cfg_def sample_rm_def RiskManager_init_def)

lemma sample_position: "position (sample_pk i) = 0"
  by (simp add: sample_pk_def PositionKeeper_init_def PositionInfo_init_def)

theorem one_order_per_side_witness:
  "om_state (slot 1 BUY (ses_om sample_taken)) = LIVE
    \<and> rests BUY (resting sample_taken) = [(om_order_id (slot 1 BUY (ses_om sample_taken)), BUY, om_qty (slot 1 BUY (ses_om sample_taken)))]"
  using one_order_per_side [OF sample_reaches_taken, of BUY]
  by (simp add: ME_MAX_TICKERS_def sample_taken_def book_side_def)

theorem position_within_limit_witness:
  "sint (position (ses_pk sample_taken (unat (1::TickerId)))) + outstanding (slot 1 BUY (ses_om sample_taken)) \<le> 50
    \<and> position (ses_pk sample_taken 1) = 4"
  using position_within_limit [OF sample_reaches_taken _ _ sample_limit]
  by (simp add: ME_MAX_TICKERS_def sample_position) (simp add: sample_taken_def sample_bought_def)

theorem responses_are_taken_witness:
  "\<exists>pk om. take_response sample_accepted (ses_pk sample_waiting) (ses_om sample_waiting) = Inr (pk, om)"
proof (rule responses_are_taken [OF sample_reaches_waiting _ _ sample_limit])
  show "to_trading sample_waiting = sample_accepted # [sample_filled]" by (simp add: sample_waiting_def)
qed (simp_all add: ME_MAX_TICKERS_def sample_position)

end
