(* ===== verification/Doubles.thy ===== *)
theory Doubles
  imports Types
begin

text \<open>
  The floating point numbers of the program, as far as the model needs them: finite values with infinities and NaN.
\<close>

section \<open>Values\<close>

text \<open>
  A \<^verbatim>\<open>double\<close> that can be an infinity or not a number. Finite values are real numbers: rounding is not modelled.
  Comparisons with \<open>NaN\<close> are false, \<^verbatim>\<open>!=\<close> is true.
\<close>

datatype double = Fin real | PosInf | NegInf | NaN

instantiation double :: ord
begin

fun less_eq_double :: "double \<Rightarrow> double \<Rightarrow> bool" where
  "less_eq_double NaN y \<longleftrightarrow> False"
| "less_eq_double x NaN \<longleftrightarrow> False"
| "less_eq_double NegInf y \<longleftrightarrow> True"
| "less_eq_double x PosInf \<longleftrightarrow> True"
| "less_eq_double (Fin x) (Fin y) \<longleftrightarrow> x \<le> y"
| "less_eq_double x y \<longleftrightarrow> False"

definition less_double :: "double \<Rightarrow> double \<Rightarrow> bool" where
  "less_double x y \<longleftrightarrow> x \<le> y \<and> \<not> y \<le> x"

instance ..

end

instantiation double :: minus
begin

fun minus_double :: "double \<Rightarrow> double \<Rightarrow> double" where
  "minus_double (Fin x) (Fin y) = Fin (x - y)"
| "minus_double PosInf (Fin y) = PosInf"
| "minus_double NegInf (Fin y) = NegInf"
| "minus_double (Fin x) PosInf = NegInf"
| "minus_double (Fin x) NegInf = PosInf"
| "minus_double PosInf NegInf = PosInf"
| "minus_double NegInf PosInf = NegInf"
| "minus_double x y = NaN"

instance ..

end

definition double_ne :: "double \<Rightarrow> double \<Rightarrow> bool" where
  "double_ne x y \<longleftrightarrow> x = NaN \<or> y = NaN \<or> x \<noteq> y"

text \<open>The quotient of two finite values, the divisor not negative zero.\<close>

definition quotient :: "real \<Rightarrow> real \<Rightarrow> double" where
  "quotient x y = (if y \<noteq> 0 then Fin (x / y) else if x > 0 then PosInf else if x < 0 then NegInf else NaN)"

text \<open>A finite value divided by a \<^verbatim>\<open>double\<close>.\<close>

primrec divided_by :: "real \<Rightarrow> double \<Rightarrow> double" where
  "divided_by x (Fin y) = quotient x y"
| "divided_by x PosInf = Fin 0"
| "divided_by x NegInf = Fin 0"
| "divided_by x NaN = NaN"

text \<open>The conversion to \<^verbatim>\<open>uint64_t\<close> truncates; outside the range it is undefined.\<close>

primrec to_uint64 :: "double \<Rightarrow> u64 option" where
  "to_uint64 (Fin x) = (if -1 < x \<and> x < 2 ^ 64 then Some (word_of_int (if x < 0 then 0 else \<lfloor>x\<rfloor>)) else None)"
| "to_uint64 PosInf = None"
| "to_uint64 NegInf = None"
| "to_uint64 NaN = None"

end
