(* ===== verification/Trade_Algorithms.thy ===== *)
theory Trade_Algorithms
  imports Order_Session Doubles
begin

text \<open>
  trading/strategy/feature_engine.h, market_maker.h and liquidity_taker.h: the fair price and the trade ratio that
  the feature engine computes, and the two algorithms that quote and take with them.
\<close>

section \<open>The feature engine\<close>

definition of_price :: "Price \<Rightarrow> double" where "of_price p = Fin (real_of_int p)"

definition Feature_INVALID :: double where "Feature_INVALID = NaN"

record FeatureEngine =
  mkt_price :: double
  agg_trade_qty_ratio :: double

definition FeatureEngine_init :: FeatureEngine where
  "FeatureEngine_init = \<lparr>mkt_price = Feature_INVALID, agg_trade_qty_ratio = Feature_INVALID\<rparr>"

definition two_sided :: "BBO \<Rightarrow> bool" where
  "two_sided bbo \<longleftrightarrow> bbo_bid_price bbo \<noteq> Price_INVALID \<and> bbo_ask_price bbo \<noteq> Price_INVALID"

text \<open>The products and their sum are \<^verbatim>\<open>int64_t\<close>; the sum of the two quantities is 32 bits wide and wraps.\<close>

definition fe_onOrderBookUpdate :: "MarketOrderBook \<Rightarrow> FeatureEngine \<Rightarrow> FeatureEngine res" where
  "fe_onOrderBookUpdate book fe =
     (let bbo = mk_bbo book
      in if two_sided bbo then
           bindE (int64 (bbo_bid_price bbo * uint (bbo_ask_qty bbo))) (\<lambda>b.
           bindE (int64 (bbo_ask_price bbo * uint (bbo_bid_qty bbo))) (\<lambda>a.
           bindE (int64 (b + a)) (\<lambda>sum.
           Inr (fe\<lparr>mkt_price := quotient (real_of_int sum) (real_of_int (uint (bbo_bid_qty bbo + bbo_ask_qty bbo)))\<rparr>))))
         else Inr fe)"

definition fe_onTradeUpdate :: "MEMarketUpdate \<Rightarrow> MarketOrderBook \<Rightarrow> FeatureEngine \<Rightarrow> FeatureEngine" where
  "fe_onTradeUpdate u book fe =
     (let bbo = mk_bbo book
      in if two_sided bbo then
           fe\<lparr>agg_trade_qty_ratio := quotient (real_of_int (uint (upd_qty u)))
               (real_of_int (uint (if upd_side u = BUY then bbo_ask_qty bbo else bbo_bid_qty bbo)))\<rparr>
         else fe)"

section \<open>The market maker\<close>

definition mm_onOrderBookUpdate ::
  "TradeEngineCfgHashMap \<Rightarrow> FeatureEngine \<Rightarrow> RiskManager \<Rightarrow> PositionKeeper \<Rightarrow> TickerId \<Rightarrow> MarketOrderBook
     \<Rightarrow> OrderManager \<Rightarrow> OrderManager res" where
  "mm_onOrderBookUpdate ticker_cfg fe rm pk ticker_id book om =
     (let bbo = mk_bbo book; fair_price = mkt_price fe
      in if two_sided bbo \<and> double_ne fair_price Feature_INVALID then
           bindE (array_at ME_MAX_TICKERS ticker_cfg (unat ticker_id)) (\<lambda>cfg.
           bindE (int64 (bbo_bid_price bbo - (if fair_price - of_price (bbo_bid_price bbo) \<ge> Fin (threshold cfg) then 0 else 1)))
             (\<lambda>bid_price.
           bindE (int64 (bbo_ask_price bbo + (if of_price (bbo_ask_price bbo) - fair_price \<ge> Fin (threshold cfg) then 0 else 1)))
             (\<lambda>ask_price.
           moveOrders rm pk ticker_id bid_price ask_price (clip cfg) om)))
         else Inr om)"

definition mm_onTradeUpdate :: "MEMarketUpdate \<Rightarrow> MarketOrderBook \<Rightarrow> OrderManager \<Rightarrow> OrderManager" where
  "mm_onTradeUpdate u book om = om"

definition mm_onOrderUpdate :: "MEClientResponse \<Rightarrow> OrderManager \<Rightarrow> OrderManager res" where
  "mm_onOrderUpdate r om = om_onOrderUpdate r om"


section \<open>The liquidity taker\<close>

definition lt_onOrderBookUpdate :: "TickerId \<Rightarrow> Price \<Rightarrow> Side \<Rightarrow> OrderManager \<Rightarrow> OrderManager" where
  "lt_onOrderBookUpdate ticker_id price side om = om"

definition lt_onTradeUpdate ::
  "TradeEngineCfgHashMap \<Rightarrow> FeatureEngine \<Rightarrow> RiskManager \<Rightarrow> PositionKeeper \<Rightarrow> MEMarketUpdate \<Rightarrow> MarketOrderBook
     \<Rightarrow> OrderManager \<Rightarrow> OrderManager res" where
  "lt_onTradeUpdate ticker_cfg fe rm pk u book om =
     (let bbo = mk_bbo book; agg_qty_ratio = agg_trade_qty_ratio fe
      in if two_sided bbo \<and> double_ne agg_qty_ratio Feature_INVALID then
           bindE (array_at ME_MAX_TICKERS ticker_cfg (unat (upd_ticker_id u))) (\<lambda>cfg.
           if agg_qty_ratio \<ge> Fin (threshold cfg) then
             (if upd_side u = BUY
              then moveOrders rm pk (upd_ticker_id u) (bbo_ask_price bbo) Price_INVALID (clip cfg) om
              else moveOrders rm pk (upd_ticker_id u) Price_INVALID (bbo_bid_price bbo) (clip cfg) om)
           else Inr om)
         else Inr om)"

definition lt_onOrderUpdate :: "MEClientResponse \<Rightarrow> OrderManager \<Rightarrow> OrderManager res" where
  "lt_onOrderUpdate r om = om_onOrderUpdate r om"

section \<open>What moving the orders sends\<close>

text \<open>The risk check's arithmetic stays inside \<^verbatim>\<open>int\<close>.\<close>

definition risk_in_range :: "TickerId \<Rightarrow> Qty \<Rightarrow> RiskManager \<Rightarrow> PositionKeeper \<Rightarrow> bool" where
  "risk_in_range tid qty rm pk \<longleftrightarrow> unat tid < ME_MAX_TICKERS
     \<and> (\<exists>i. ri_position_info (rm (unat tid)) = Some i \<and> \<bar>sint (position (pk i))\<bar> + uint qty < 2 ^ 31)"

lemma change_in_range:
  assumes "\<bar>p\<bar> + k < 2 ^ 31" and "0 \<le> k" and "s = 1 \<or> s = - 1"
  shows "int32 (s * k) = Inr (s * k)" "int32 (p + s * k) = Inr (p + s * k)" "int32 \<bar>p + s * k\<bar> = Inr \<bar>p + s * k\<bar>"
  using assms by (auto simp: int32_def)

lemma risk_check_returns:
  assumes "risk_in_range tid qty rm pk" and "book_side side"
  shows "\<exists>x. checkPreTradeRisk tid side qty rm pk = Inr x"
proof -
  obtain i where i: "ri_position_info (rm (unat tid)) = Some i" "\<bar>sint (position (pk i))\<bar> + uint qty < 2 ^ 31"
    and t: "unat tid < ME_MAX_TICKERS" using assms(1) by (auto simp: risk_in_range_def)
  have q: "sint qty = uint qty" using i(2) by (intro sint_small) linarith
  have s: "sideToValue side = 1 \<or> sideToValue side = - 1" using assms(2) by (auto simp: book_side_def)
  note c = change_in_range [OF i(2) uint_ge_0 s]
  show ?thesis using t i(1) q c by (simp add: checkPreTradeRisk_def checkRisk_def)
qed

text \<open>The request that moving the order of a side to a price may send.\<close>

definition asked :: "RiskManager \<Rightarrow> PositionKeeper \<Rightarrow> TickerId \<Rightarrow> Qty \<Rightarrow> OrderManager \<Rightarrow> Side \<Rightarrow> Price \<Rightarrow> MEClientRequest \<Rightarrow> bool" where
  "asked rm pk tid qty om side price r \<longleftrightarrow> req_client_id r = om_client_id om
     \<and> (req_type r = Req_CANCEL \<and> om_state (slot tid side om) = LIVE \<and> om_price (slot tid side om) \<noteq> price
          \<and> req_order_id r = om_order_id (slot tid side om)
        \<or> req_type r = Req_NEW \<and> idle (slot tid side om) \<and> req_ticker_id r = tid \<and> req_side r = side \<and> req_price r = price
          \<and> price \<noteq> Price_INVALID \<and> req_qty r = qty \<and> checkPreTradeRisk tid side qty rm pk = Inr ALLOWED)"

lemma moveOrder_asks:
  assumes "risk_in_range tid qty rm pk" and "book_side side"
  shows "\<exists>om' rs. moveOrder rm pk (unat tid) (unat (sideToIndex side)) tid price side qty om = Inr om'
    \<and> om_sent om' = om_sent om @ rs \<and> (rs = [] \<or> (\<exists>r. rs = [r] \<and> asked rm pk tid qty om side price r))
    \<and> om_client_id om' = om_client_id om \<and> (\<forall>t. book_side t \<longrightarrow> t \<noteq> side \<longrightarrow> slot tid t om' = slot tid t om)"
proof -
  obtain x where x: "checkPreTradeRisk tid side qty rm pk = Inr x" using risk_check_returns [OF assms] by blast
  let ?s = "slot tid side om"
  have st: "ticker_side_order om (unat tid) (unat (sideToIndex side)) = ?s" by (simp add: slot_def)
  consider "om_state ?s = LIVE" "om_price ?s \<noteq> price" | "idle ?s" "price \<noteq> Price_INVALID" "x = ALLOWED"
    | "\<not> (om_state ?s = LIVE \<and> om_price ?s \<noteq> price)" "\<not> (idle ?s \<and> price \<noteq> Price_INVALID \<and> x = ALLOWED)" by blast
  then show ?thesis
  proof cases
    case 1
    then show ?thesis using assms(2) by (simp add: moveOrder_def st cancelOrder_def Let_def asked_def)
  next
    case 2
    then have "om_state ?s \<noteq> LIVE" by (auto simp: idle_def)
    then show ?thesis using 2 x assms(2)
      by (auto simp: moveOrder_def st newOrder_def Let_def asked_def idle_def)
  next
    case 3
    then show ?thesis using x by (auto simp: moveOrder_def st Let_def idle_def)
  qed
qed

lemma moveOrders_asks:
  assumes "risk_in_range tid qty rm pk"
  shows "\<exists>om' rs. moveOrders rm pk tid bid ask qty om = Inr om' \<and> om_sent om' = om_sent om @ rs \<and> length rs \<le> 2
    \<and> (\<forall>r \<in> set rs. asked rm pk tid qty om BUY bid r \<or> asked rm pk tid qty om SELL ask r)"
proof -
  have tid: "unat tid < ME_MAX_TICKERS" using assms by (simp add: risk_in_range_def)
  obtain om1 rs1 where b: "moveOrder rm pk (unat tid) (unat (sideToIndex BUY)) tid bid BUY qty om = Inr om1"
    "om_sent om1 = om_sent om @ rs1" "rs1 = [] \<or> (\<exists>r. rs1 = [r] \<and> asked rm pk tid qty om BUY bid r)"
    "om_client_id om1 = om_client_id om" "slot tid SELL om1 = slot tid SELL om"
    using moveOrder_asks [OF assms, of BUY bid om] by (auto simp: book_side_def simp del: sideToIndex_simps)
  obtain om2 rs2 where s: "moveOrder rm pk (unat tid) (unat (sideToIndex SELL)) tid ask SELL qty om1 = Inr om2"
    "om_sent om2 = om_sent om1 @ rs2" "rs2 = [] \<or> (\<exists>r. rs2 = [r] \<and> asked rm pk tid qty om1 SELL ask r)"
    using moveOrder_asks [OF assms, of SELL ask om1] by (auto simp: book_side_def simp del: sideToIndex_simps)
  have "order_at tid BUY om = Inr (unat tid, unat (sideToIndex BUY))" "order_at tid SELL om1 = Inr (unat tid, unat (sideToIndex SELL))"
    using tid by (simp_all add: book_side_def del: sideToIndex_simps)
  then have "moveOrders rm pk tid bid ask qty om = Inr om2"
    unfolding moveOrders_def by (simp only: bindE_Inr prod.case b(1) s(1))
  moreover have "om_sent om2 = om_sent om @ rs1 @ rs2" using b(2) s(2) by simp
  moreover have "length (rs1 @ rs2) \<le> 2" using b(3) s(3) by auto
  moreover have "\<forall>r \<in> set (rs1 @ rs2). asked rm pk tid qty om BUY bid r \<or> asked rm pk tid qty om SELL ask r"
  proof -
    have eq: "asked rm pk tid qty om1 SELL ask = asked rm pk tid qty om SELL ask"
      using b(4,5) by (intro ext) (simp add: asked_def)
    have "\<forall>r \<in> set rs1. asked rm pk tid qty om BUY bid r" using b(3) by (elim disjE exE) simp_all
    moreover have "\<forall>r \<in> set rs2. asked rm pk tid qty om SELL ask r" using s(3) unfolding eq by (elim disjE exE) simp_all
    ultimately show ?thesis unfolding set_append by blast
  qed
  ultimately show ?thesis by (intro exI [of _ om2] exI [of _ "rs1 @ rs2"] conjI)
qed

section \<open>Properties\<close>

text \<open>The state of the example: bid 100 with 30, offer 104 with 10.\<close>

definition quoted_book :: MarketOrderBook where
  "quoted_book = \<lparr>mk_ticker_id = 1, oid_to_order = (\<lambda>_. None),
     mk_orders_at_price_pool = \<lparr>store = (\<lambda>_. \<lparr>object = MarketOrdersAtPrice_default, is_free = True\<rparr>), store_size = 256, next_free = 0\<rparr>,
     mk_bids_by_price = None, mk_asks_by_price = None, mk_price_orders_at_price = (\<lambda>_. None),
     mk_order_pool = \<lparr>store = (\<lambda>_. \<lparr>object = MarketOrder_default, is_free = True\<rparr>), store_size = 1048576, next_free = 0\<rparr>,
     mk_bbo = \<lparr>bbo_bid_price = 100, bbo_ask_price = 104, bbo_bid_qty = 30, bbo_ask_qty = 10\<rparr>\<rparr>"

definition sample_cfg :: TradeEngineCfgHashMap where
  "sample_cfg = (\<lambda>_. \<lparr>clip = 10, threshold = 2, risk_cfg = \<lparr>max_order_size = 20, max_position = 50, max_loss = 0\<rparr>\<rparr>)"

lemma quoted_bbo [simp]: "mk_bbo quoted_book = \<lparr>bbo_bid_price = 100, bbo_ask_price = 104, bbo_bid_qty = 30, bbo_ask_qty = 10\<rparr>"
  by (simp add: quoted_book_def)

lemma quoted_two_sided [simp]: "two_sided \<lparr>bbo_bid_price = 100, bbo_ask_price = 104, bbo_bid_qty = 30, bbo_ask_qty = 10\<rparr>"
  by (simp add: two_sided_def Price_INVALID_def)

lemma sample_in_range: "risk_in_range 1 10 sample_rm sample_pk"
  by (simp add: risk_in_range_def ME_MAX_TICKERS_def sample_rm_def RiskManager_init_def sample_position)

text \<open>The fair price lies between the best bid and the best offer: it is the mean of the two weighted with the
  quantities, provided these sum to less than \<open>2 ^ 32\<close>.\<close>

theorem fair_price_between:
  assumes "two_sided (mk_bbo book)" and "bbo_bid_price (mk_bbo book) \<le> bbo_ask_price (mk_bbo book)"
    and "\<bar>bbo_bid_price (mk_bbo book)\<bar> < 2 ^ 30" "\<bar>bbo_ask_price (mk_bbo book)\<bar> < 2 ^ 30"
    and "0 < bbo_bid_qty (mk_bbo book)" and "uint (bbo_bid_qty (mk_bbo book)) + uint (bbo_ask_qty (mk_bbo book)) < 2 ^ 32"
  shows "\<exists>p. fe_onOrderBookUpdate book fe = Inr (fe\<lparr>mkt_price := Fin p\<rparr>)
    \<and> real_of_int (bbo_bid_price (mk_bbo book)) \<le> p \<and> p \<le> real_of_int (bbo_ask_price (mk_bbo book))
    \<and> p * real_of_int (uint (bbo_bid_qty (mk_bbo book)) + uint (bbo_ask_qty (mk_bbo book)))
      = real_of_int (bbo_bid_price (mk_bbo book) * uint (bbo_ask_qty (mk_bbo book))
        + bbo_ask_price (mk_bbo book) * uint (bbo_bid_qty (mk_bbo book)))"
proof -
  let ?b = "bbo_bid_price (mk_bbo book)" and ?a = "bbo_ask_price (mk_bbo book)"
  obtain m n where m: "uint (bbo_bid_qty (mk_bbo book)) = m" and n: "uint (bbo_ask_qty (mk_bbo book)) = n" "0 \<le> n" by simp
  have m0: "0 < m" using assms(5) m by (simp add: word_less_def)
  have mn: "m + n < 2 ^ 32" using assms(6) m n by simp
  have sum: "uint (bbo_bid_qty (mk_bbo book) + bbo_ask_qty (mk_bbo book)) = m + n"
    using mn m n m0 by (simp add: uint_word_ariths)
  have bound: "\<bar>x * k\<bar> \<le> (2 ^ 30 - 1) * 2 ^ 32" if "\<bar>x\<bar> < 2 ^ 30" "0 \<le> k" "k < 2 ^ 32" for x k :: int
    unfolding abs_mult using that by (intro mult_mono) auto
  have i: "int64 (?b * n) = Inr (?b * n)" "int64 (?a * m) = Inr (?a * m)" "int64 (?b * n + ?a * m) = Inr (?b * n + ?a * m)"
    using bound [OF assms(3), of n] bound [OF assms(4), of m] mn m0 n(2) by (auto simp: int64_def abs_le_iff)
  define p where "p = real_of_int (?b * n + ?a * m) / real_of_int (m + n)"
  have pe: "p * real_of_int (m + n) = real_of_int (?b * n + ?a * m)" using m0 n(2) by (simp add: p_def)
  have "?b * (m + n) \<le> ?b * n + ?a * m" "?b * n + ?a * m \<le> ?a * (m + n)"
    using assms(2) m0 n(2) by (simp_all add: distrib_left mult_right_mono)
  then have "real_of_int (?b * (m + n)) \<le> real_of_int (?b * n + ?a * m)" "real_of_int (?b * n + ?a * m) \<le> real_of_int (?a * (m + n))"
    using of_int_le_iff by blast+
  then have "real_of_int ?b \<le> p" "p \<le> real_of_int ?a" using m0 n(2) unfolding p_def by (simp_all add: field_simps)
  moreover have "fe_onOrderBookUpdate book fe = Inr (fe\<lparr>mkt_price := Fin p\<rparr>)"
    using assms(1) i sum m n m0 by (simp add: fe_onOrderBookUpdate_def Let_def quotient_def p_def)
  ultimately show ?thesis using pe m n(1) by blast
qed

theorem fair_price_between_witness:
  "\<exists>p. fe_onOrderBookUpdate quoted_book FeatureEngine_init = Inr (FeatureEngine_init\<lparr>mkt_price := Fin p\<rparr>) \<and> p = 103"
  using fair_price_between [of quoted_book FeatureEngine_init] by (auto simp: word_less_def)


text \<open>C18: the market maker quotes passively. Whenever the book has two sides it returns, and sends at most two
  requests: cancels, and new orders of the configured quantity that the risk check allows, each to buy at the
  best bid or one below it, or to sell at the best offer or one above it. It never crosses the spread.\<close>

theorem market_maker_passive:
  assumes "risk_in_range tid (clip (cfg (unat tid))) rm pk" and "two_sided (mk_bbo book)" and "mkt_price fe = Fin p"
    and "\<bar>bbo_bid_price (mk_bbo book)\<bar> < 2 ^ 62" "\<bar>bbo_ask_price (mk_bbo book)\<bar> < 2 ^ 62"
  shows "\<exists>om' rs. mm_onOrderBookUpdate cfg fe rm pk tid book om = Inr om' \<and> om_sent om' = om_sent om @ rs \<and> length rs \<le> 2
    \<and> (\<forall>r \<in> set rs. req_type r = Req_CANCEL
        \<or> req_type r = Req_NEW \<and> req_ticker_id r = tid \<and> req_qty r = clip (cfg (unat tid))
          \<and> checkPreTradeRisk tid (req_side r) (req_qty r) rm pk = Inr ALLOWED
          \<and> (req_side r = BUY \<and> req_price r = bbo_bid_price (mk_bbo book)
               - (if p - real_of_int (bbo_bid_price (mk_bbo book)) \<ge> threshold (cfg (unat tid)) then 0 else 1)
             \<or> req_side r = SELL \<and> req_price r = bbo_ask_price (mk_bbo book)
               + (if real_of_int (bbo_ask_price (mk_bbo book)) - p \<ge> threshold (cfg (unat tid)) then 0 else 1)))"
proof -
  let ?bid = "bbo_bid_price (mk_bbo book) - (if p - real_of_int (bbo_bid_price (mk_bbo book)) \<ge> threshold (cfg (unat tid)) then 0 else 1)"
  let ?ask = "bbo_ask_price (mk_bbo book) + (if real_of_int (bbo_ask_price (mk_bbo book)) - p \<ge> threshold (cfg (unat tid)) then 0 else 1)"
  have tid: "unat tid < ME_MAX_TICKERS" using assms(1) by (simp add: risk_in_range_def)
  have i: "int64 ?bid = Inr ?bid" "int64 ?ask = Inr ?ask" using assms(4,5) by (auto simp: int64_def)
  have "mm_onOrderBookUpdate cfg fe rm pk tid book om = moveOrders rm pk tid ?bid ?ask (clip (cfg (unat tid))) om"
    using assms(2,3) tid i by (simp add: mm_onOrderBookUpdate_def Let_def double_ne_def of_price_def Feature_INVALID_def)
  moreover obtain om' rs where m: "moveOrders rm pk tid ?bid ?ask (clip (cfg (unat tid))) om = Inr om'" "om_sent om' = om_sent om @ rs"
    "length rs \<le> 2" and r: "\<forall>r \<in> set rs. asked rm pk tid (clip (cfg (unat tid))) om BUY ?bid r \<or> asked rm pk tid (clip (cfg (unat tid))) om SELL ?ask r"
    using moveOrders_asks [OF assms(1)] by blast
  ultimately show ?thesis
    by (intro exI [of _ om'] exI [of _ rs] conjI ballI; (fact | simp)?) (use r in \<open>auto simp: asked_def\<close>)
qed

theorem market_maker_passive_witness:
  "\<exists>om' rs. mm_onOrderBookUpdate sample_cfg (FeatureEngine_init\<lparr>mkt_price := Fin 103\<rparr>) sample_rm sample_pk 1 quoted_book (OrderManager_init 7)
      = Inr om' \<and> om_sent om' = om_sent (OrderManager_init 7) @ rs
    \<and> (\<forall>r \<in> set rs. req_type r = Req_NEW \<longrightarrow> req_side r = BUY \<and> req_price r = 100 \<or> req_side r = SELL \<and> req_price r = 105)"
proof -
  have "risk_in_range 1 (clip (sample_cfg (unat (1::TickerId)))) sample_rm sample_pk" using sample_in_range by (simp add: sample_cfg_def)
  from market_maker_passive [of 1 sample_cfg sample_rm sample_pk quoted_book "FeatureEngine_init\<lparr>mkt_price := Fin 103\<rparr>" 103 "OrderManager_init 7", OF this]
  obtain om' rs where "mm_onOrderBookUpdate sample_cfg (FeatureEngine_init\<lparr>mkt_price := Fin 103\<rparr>) sample_rm sample_pk 1 quoted_book
      (OrderManager_init 7) = Inr om'" "om_sent om' = om_sent (OrderManager_init 7) @ rs"
    "\<forall>r \<in> set rs. req_type r = Req_CANCEL \<or> req_side r = BUY \<and> req_price r = 100 \<or> req_side r = SELL \<and> req_price r = 105"
    by (auto simp: sample_cfg_def)
  then show ?thesis by fastforce
qed

text \<open>The guard against a missing fair price does not work: it compares with a value that is not a number, and
  every value is unequal to that, the missing price itself included. While no fair price was computed, the market
  maker quotes one below the best bid and one above the best offer.\<close>

theorem missing_fair_price_quotes:
  assumes "unat tid < ME_MAX_TICKERS" and "two_sided (mk_bbo book)" and "mkt_price fe = Feature_INVALID"
    and "\<bar>bbo_bid_price (mk_bbo book)\<bar> < 2 ^ 62" "\<bar>bbo_ask_price (mk_bbo book)\<bar> < 2 ^ 62"
  shows "mm_onOrderBookUpdate cfg fe rm pk tid book om
    = moveOrders rm pk tid (bbo_bid_price (mk_bbo book) - 1) (bbo_ask_price (mk_bbo book) + 1) (clip (cfg (unat tid))) om"
proof -
  have "int64 (bbo_bid_price (mk_bbo book) - 1) = Inr (bbo_bid_price (mk_bbo book) - 1)"
    "int64 (bbo_ask_price (mk_bbo book) + 1) = Inr (bbo_ask_price (mk_bbo book) + 1)"
    using assms(4,5) by (auto simp: int64_def)
  then show ?thesis using assms(1-3) by (simp add: mm_onOrderBookUpdate_def Let_def double_ne_def of_price_def Feature_INVALID_def)
qed

theorem missing_fair_price_quotes_witness:
  "mm_onOrderBookUpdate sample_cfg FeatureEngine_init sample_rm sample_pk 1 quoted_book (OrderManager_init 7)
    = moveOrders sample_rm sample_pk 1 99 105 10 (OrderManager_init 7)"
  using missing_fair_price_quotes [of 1 quoted_book FeatureEngine_init sample_cfg sample_rm sample_pk "OrderManager_init 7"]
  by (simp add: ME_MAX_TICKERS_def FeatureEngine_init_def sample_cfg_def)

text \<open>C33: the liquidity taker returns on every trade, and its new orders are on the side of the trade, at the best
  price of the other side, of the configured quantity, allowed by the risk check, and only sent when the trade
  took at least the configured share of what the book offered.\<close>

theorem liquidity_taker_takes:
  assumes "risk_in_range (upd_ticker_id u) (clip (cfg (unat (upd_ticker_id u)))) rm pk" and "agg_trade_qty_ratio fe = Fin ratio"
  shows "\<exists>om' rs. lt_onTradeUpdate cfg fe rm pk u book om = Inr om' \<and> om_sent om' = om_sent om @ rs \<and> length rs \<le> 2
    \<and> (\<forall>r \<in> set rs. threshold (cfg (unat (upd_ticker_id u))) \<le> ratio \<and> two_sided (mk_bbo book)
        \<and> (req_type r = Req_CANCEL
          \<or> req_type r = Req_NEW \<and> req_ticker_id r = upd_ticker_id u \<and> req_qty r = clip (cfg (unat (upd_ticker_id u)))
            \<and> checkPreTradeRisk (upd_ticker_id u) (req_side r) (req_qty r) rm pk = Inr ALLOWED
            \<and> req_side r = (if upd_side u = BUY then BUY else SELL)
            \<and> req_price r = (if upd_side u = BUY then bbo_ask_price (mk_bbo book) else bbo_bid_price (mk_bbo book))))"
proof -
  let ?t = "upd_ticker_id u" and ?q = "clip (cfg (unat (upd_ticker_id u)))"
  have tid: "unat ?t < ME_MAX_TICKERS" using assms(1) by (simp add: risk_in_range_def)
  let ?bid = "if upd_side u = BUY then bbo_ask_price (mk_bbo book) else Price_INVALID"
  let ?ask = "if upd_side u = BUY then Price_INVALID else bbo_bid_price (mk_bbo book)"
  consider "two_sided (mk_bbo book)" "threshold (cfg (unat ?t)) \<le> ratio"
    | "\<not> (two_sided (mk_bbo book) \<and> threshold (cfg (unat ?t)) \<le> ratio)" by blast
  then show ?thesis
  proof cases
    case 1
    have "lt_onTradeUpdate cfg fe rm pk u book om = moveOrders rm pk ?t ?bid ?ask ?q om"
      using 1 assms(2) tid by (simp add: lt_onTradeUpdate_def Let_def double_ne_def Feature_INVALID_def)
    moreover obtain om' rs where m: "moveOrders rm pk ?t ?bid ?ask ?q om = Inr om'" "om_sent om' = om_sent om @ rs" "length rs \<le> 2"
      and r: "\<forall>r \<in> set rs. asked rm pk ?t ?q om BUY ?bid r \<or> asked rm pk ?t ?q om SELL ?ask r"
      using moveOrders_asks [OF assms(1)] by blast
    ultimately show ?thesis using 1
      by (intro exI [of _ om'] exI [of _ rs] conjI ballI; (fact | simp)?) (use r in \<open>auto simp: asked_def split: if_splits\<close>)
  next
    case 2
    then have "lt_onTradeUpdate cfg fe rm pk u book om = Inr om"
      using assms(2) tid by (auto simp: lt_onTradeUpdate_def Let_def)
    then show ?thesis by simp
  qed
qed


definition sample_trade :: MEMarketUpdate where
  "sample_trade = \<lparr>upd_type = Upd_TRADE, upd_order_id = OrderId_INVALID, upd_ticker_id = 1, upd_side = BUY, upd_price = 104,
     upd_qty = 20, upd_priority = Priority_INVALID\<rparr>"

theorem liquidity_taker_takes_witness:
  "\<exists>om' rs. lt_onTradeUpdate sample_cfg (fe_onTradeUpdate sample_trade quoted_book FeatureEngine_init) sample_rm sample_pk
      sample_trade quoted_book (OrderManager_init 7) = Inr om' \<and> om_sent om' = om_sent (OrderManager_init 7) @ rs
    \<and> (\<forall>r \<in> set rs. req_type r = Req_NEW \<longrightarrow> req_side r = BUY \<and> req_price r = 104)"
proof -
  have c: "risk_in_range (upd_ticker_id sample_trade) (clip (sample_cfg (unat (upd_ticker_id sample_trade)))) sample_rm sample_pk"
    using sample_in_range by (simp add: sample_cfg_def sample_trade_def)
  have "agg_trade_qty_ratio (fe_onTradeUpdate sample_trade quoted_book FeatureEngine_init) = Fin 2"
    by (simp add: fe_onTradeUpdate_def sample_trade_def quotient_def)
  from liquidity_taker_takes [of sample_trade sample_cfg sample_rm sample_pk _ 2 quoted_book "OrderManager_init 7", OF c this]
  obtain om' rs where "lt_onTradeUpdate sample_cfg (fe_onTradeUpdate sample_trade quoted_book FeatureEngine_init) sample_rm sample_pk
      sample_trade quoted_book (OrderManager_init 7) = Inr om'" "om_sent om' = om_sent (OrderManager_init 7) @ rs"
    "\<forall>r \<in> set rs. req_type r = Req_CANCEL \<or> req_side r = BUY \<and> req_price r = 104"
    by (auto simp: sample_trade_def)
  then show ?thesis by fastforce
qed

end
