(* ===== verification/Market_Book_Embed.thy ===== *)
theory Market_Book_Embed
  imports Market_Order_Book
begin

text \<open>
  The market order book as an exchange order book: reading a market order as an order of client 0 whose
  client order id is its market order id turns the operations of the market order book into those of the
  exchange's book, except for the search of the place of a new price level, which the two sources write
  differently. The facts about the exchange's book then hold for the market order book.
\<close>

section \<open>The embedding\<close>

definition emb_order :: "MarketOrder \<Rightarrow> MEOrder" where
  "emb_order x =
     \<lparr>o_ticker_id = 0, o_client_id = 0, o_client_order_id = mo_order_id x, o_market_order_id = mo_order_id x,
      o_side = mo_side x, o_price = mo_price x, o_qty = mo_qty x, o_priority = mo_priority x,
      o_prev_order = mo_prev_order x, o_next_order = mo_next_order x\<rparr>"

definition emb_level :: "MarketOrdersAtPrice \<Rightarrow> MEOrdersAtPrice" where
  "emb_level l =
     \<lparr>l_side = ml_side l, l_price = ml_price l, l_first_me_order = ml_first_mkt_order l,
      l_prev_entry = ml_prev_entry l, l_next_entry = ml_next_entry l\<rparr>"

definition map_pool :: "('a \<Rightarrow> 'b) \<Rightarrow> 'a MemPool \<Rightarrow> 'b MemPool" where
  "map_pool f p =
     \<lparr>store = (\<lambda>i. \<lparr>object = f (object (store p i)), is_free = is_free (store p i)\<rparr>), store_size = store_size p,
      next_free = next_free p\<rparr>"

definition embed :: "MarketOrderBook \<Rightarrow> MEOrderBook" where
  "embed mb =
     \<lparr>ob_ticker_id = mk_ticker_id mb, cid_oid_to_order = (\<lambda>c. if c = 0 then oid_to_order mb else (\<lambda>_. None)),
      orders_at_price_pool = map_pool emb_level (mk_orders_at_price_pool mb),
      bids_by_price = mk_bids_by_price mb, asks_by_price = mk_asks_by_price mb,
      price_orders_at_price = mk_price_orders_at_price mb, order_pool = map_pool emb_order (mk_order_pool mb),
      next_market_order_id = 0, out_calls = []\<rparr>"

definition emb :: "MarketOrderBook res \<Rightarrow> MEOrderBook res" where
  "emb r = (case r of Inl e \<Rightarrow> Inl e | Inr mb \<Rightarrow> Inr (embed mb))"

lemma emb_simps [simp]: "emb (Inl e) = Inl e" "emb (Inr mb) = Inr (embed mb)"
  by (simp_all add: emb_def)

lemma emb_bindE: "emb (bindE m k) = bindE m (\<lambda>x. emb (k x))"
  by (cases m) simp_all

lemma emb_if: "emb (if b then r else s) = (if b then emb r else emb s)"
  by simp

lemma emb_Inr_iff: "emb r = Inr ob \<longleftrightarrow> (\<exists>mb. r = Inr mb \<and> ob = embed mb)"
  by (cases r) auto

lemma map_pool_fields [simp]:
  "store_size (map_pool f p) = store_size p" "next_free (map_pool f p) = next_free p"
  "is_free (store (map_pool f p) i) = is_free (store p i)" "obj (map_pool f p) i = f (obj p i)"
  by (simp_all add: map_pool_def obj_def)

lemma map_pool_facts [simp]:
  "allocated (map_pool f p) = allocated p" "pool_ok (map_pool f p) = pool_ok p"
  "can_allocate (map_pool f p) = can_allocate p"
  by (auto simp: allocated_def pool_ok_def can_allocate_def)

lemma map_pool_upd: "(\<And>x. f (g x) = h (f x)) \<Longrightarrow> map_pool f (upd_obj i g p) = upd_obj i h (map_pool f p)"
  by (auto simp: map_pool_def upd_obj_def obj_def fun_eq_iff)

lemma map_pool_allocate: "allocate (f x) (map_pool f p) = (fst (allocate x p), map_pool f (snd (allocate x p)))"
  by (simp add: allocate_conv) (auto simp: map_pool_def fun_eq_iff)

lemma map_pool_deallocate: "deallocate e (map_pool f p) = bindE (deallocate e p) (\<lambda>p'. Inr (map_pool f p'))"
  by (auto simp: deallocate_def map_pool_def assertE_def fun_eq_iff split: option.splits)

lemma emb_order_fields [simp]:
  "o_ticker_id (emb_order x) = 0" "o_client_id (emb_order x) = 0" "o_client_order_id (emb_order x) = mo_order_id x"
  "o_market_order_id (emb_order x) = mo_order_id x" "o_side (emb_order x) = mo_side x"
  "o_price (emb_order x) = mo_price x" "o_qty (emb_order x) = mo_qty x" "o_priority (emb_order x) = mo_priority x"
  "o_prev_order (emb_order x) = mo_prev_order x" "o_next_order (emb_order x) = mo_next_order x"
  by (simp_all add: emb_order_def)

lemma emb_level_fields [simp]:
  "l_side (emb_level l) = ml_side l" "l_price (emb_level l) = ml_price l"
  "l_first_me_order (emb_level l) = ml_first_mkt_order l" "l_prev_entry (emb_level l) = ml_prev_entry l"
  "l_next_entry (emb_level l) = ml_next_entry l"
  by (simp_all add: emb_level_def)

lemma embed_read [simp]:
  "ord (embed mb) i = emb_order (mord mb i)" "lvl (embed mb) n = emb_level (mlvl mb n)"
  "best s (embed mb) = mk_best s mb" "price_orders_at_price (embed mb) = mk_price_orders_at_price mb"
  "order_pool (embed mb) = map_pool emb_order (mk_order_pool mb)"
  "orders_at_price_pool (embed mb) = map_pool emb_level (mk_orders_at_price_pool mb)"
  "cid_oid_to_order (embed mb) = (\<lambda>c. if c = 0 then oid_to_order mb else (\<lambda>_. None))"
  "next_market_order_id (embed mb) = 0" "out_calls (embed mb) = []"
  "bids_by_price (embed mb) = mk_bids_by_price mb" "asks_by_price (embed mb) = mk_asks_by_price mb"
  by (simp_all add: embed_def ord_def lvl_def mord_def mlvl_def best_def mk_best_def)

lemma embed_upd_ord: "(\<And>x. emb_order (f x) = g (emb_order x)) \<Longrightarrow> embed (upd_mord i f mb) = upd_ord i g (embed mb)"
  by (simp add: embed_def upd_mord_def upd_ord_def map_pool_upd cong: if_cong)

lemma embed_upd_lvl: "(\<And>l. emb_level (f l) = g (emb_level l)) \<Longrightarrow> embed (upd_mlvl i f mb) = upd_lvl i g (embed mb)"
  by (simp add: embed_def upd_mlvl_def upd_lvl_def map_pool_upd cong: if_cong)

lemma embed_upd [simp]:
  "embed (upd_mord i (\<lambda>x. x\<lparr>mo_next_order := a\<rparr>) mb) = upd_ord i (\<lambda>x. x\<lparr>o_next_order := a\<rparr>) (embed mb)"
  "embed (upd_mord i (\<lambda>x. x\<lparr>mo_prev_order := a\<rparr>) mb) = upd_ord i (\<lambda>x. x\<lparr>o_prev_order := a\<rparr>) (embed mb)"
  "embed (upd_mord i (\<lambda>x. x\<lparr>mo_prev_order := a, mo_next_order := b\<rparr>) mb) =
     upd_ord i (\<lambda>x. x\<lparr>o_prev_order := a, o_next_order := b\<rparr>) (embed mb)"
  "embed (upd_mord i (\<lambda>x. x\<lparr>mo_next_order := a, mo_prev_order := b\<rparr>) mb) =
     upd_ord i (\<lambda>x. x\<lparr>o_next_order := a, o_prev_order := b\<rparr>) (embed mb)"
  "embed (upd_mord i (\<lambda>x. x\<lparr>mo_qty := q\<rparr>) mb) = upd_ord i (\<lambda>x. x\<lparr>o_qty := q\<rparr>) (embed mb)"
  "embed (upd_mlvl n (\<lambda>l. l\<lparr>ml_next_entry := a\<rparr>) mb) = upd_lvl n (\<lambda>l. l\<lparr>l_next_entry := a\<rparr>) (embed mb)"
  "embed (upd_mlvl n (\<lambda>l. l\<lparr>ml_prev_entry := a\<rparr>) mb) = upd_lvl n (\<lambda>l. l\<lparr>l_prev_entry := a\<rparr>) (embed mb)"
  "embed (upd_mlvl n (\<lambda>l. l\<lparr>ml_prev_entry := a, ml_next_entry := b\<rparr>) mb) =
     upd_lvl n (\<lambda>l. l\<lparr>l_prev_entry := a, l_next_entry := b\<rparr>) (embed mb)"
  "embed (upd_mlvl n (\<lambda>l. l\<lparr>ml_first_mkt_order := a\<rparr>) mb) = upd_lvl n (\<lambda>l. l\<lparr>l_first_me_order := a\<rparr>) (embed mb)"
  by (rule embed_upd_ord embed_upd_lvl, simp add: emb_order_def emb_level_def)+

lemma embed_put [simp]:
  "embed (set_mk_best s p mb) = set_best s p (embed mb)"
  "embed (mb\<lparr>mk_price_orders_at_price := pm\<rparr>) = (embed mb)\<lparr>price_orders_at_price := pm\<rparr>"
  "embed (mb\<lparr>mk_orders_at_price_pool := lp\<rparr>) = (embed mb)\<lparr>orders_at_price_pool := map_pool emb_level lp\<rparr>"
  "embed (mb\<lparr>mk_order_pool := op\<rparr>) = (embed mb)\<lparr>order_pool := map_pool emb_order op\<rparr>"
  "embed (mb\<lparr>mk_bbo := b\<rparr>) = embed mb"
  by (auto simp: embed_def set_mk_best_def set_best_def fun_eq_iff)

lemma mord_upd [simp]:
  "mord (upd_mord i f mb) = (mord mb)(i := f (mord mb i))" "mord (upd_mlvl n g mb) = mord mb"
  "mord (set_mk_best s p mb) = mord mb" "mord (mb\<lparr>mk_price_orders_at_price := pm\<rparr>) = mord mb"
  "mord (mb\<lparr>oid_to_order := r\<rparr>) = mord mb" "mord (mb\<lparr>mk_orders_at_price_pool := lp\<rparr>) = mord mb"
  "mord (mb\<lparr>mk_order_pool := op\<rparr>) = obj op" "mord (mb\<lparr>mk_bbo := b\<rparr>) = mord mb"
  by (auto simp: mord_def upd_mord_def upd_mlvl_def set_mk_best_def fun_eq_iff)

lemma mlvl_upd [simp]:
  "mlvl (upd_mlvl n g mb) = (mlvl mb)(n := g (mlvl mb n))" "mlvl (upd_mord i f mb) = mlvl mb"
  "mlvl (set_mk_best s p mb) = mlvl mb" "mlvl (mb\<lparr>mk_price_orders_at_price := pm\<rparr>) = mlvl mb"
  "mlvl (mb\<lparr>oid_to_order := r\<rparr>) = mlvl mb" "mlvl (mb\<lparr>mk_orders_at_price_pool := lp\<rparr>) = obj lp"
  "mlvl (mb\<lparr>mk_order_pool := op\<rparr>) = mlvl mb" "mlvl (mb\<lparr>mk_bbo := b\<rparr>) = mlvl mb"
  by (auto simp: mlvl_def upd_mord_def upd_mlvl_def set_mk_best_def fun_eq_iff)

lemma mk_fields_upd [simp]:
  "mk_price_orders_at_price (upd_mord i f mb) = mk_price_orders_at_price mb"
  "mk_price_orders_at_price (upd_mlvl n g mb) = mk_price_orders_at_price mb"
  "mk_price_orders_at_price (set_mk_best s p mb) = mk_price_orders_at_price mb"
  "mk_orders_at_price_pool (upd_mord i f mb) = mk_orders_at_price_pool mb"
  "mk_orders_at_price_pool (upd_mlvl n g mb) = upd_obj n g (mk_orders_at_price_pool mb)"
  "mk_orders_at_price_pool (set_mk_best s p mb) = mk_orders_at_price_pool mb"
  "mk_order_pool (upd_mord i f mb) = upd_obj i f (mk_order_pool mb)"
  "mk_order_pool (upd_mlvl n g mb) = mk_order_pool mb"
  "mk_order_pool (set_mk_best s p mb) = mk_order_pool mb"
  "oid_to_order (upd_mord i f mb) = oid_to_order mb" "oid_to_order (upd_mlvl n g mb) = oid_to_order mb"
  "oid_to_order (set_mk_best s p mb) = oid_to_order mb"
  "mk_bbo (upd_mord i f mb) = mk_bbo mb" "mk_bbo (upd_mlvl n g mb) = mk_bbo mb" "mk_bbo (set_mk_best s p mb) = mk_bbo mb"
  by (simp_all add: upd_mord_def upd_mlvl_def set_mk_best_def)

lemma mk_best_upd [simp]:
  "mk_best s (upd_mord i f mb) = mk_best s mb" "mk_best s (upd_mlvl n g mb) = mk_best s mb"
  "mk_best s (mb\<lparr>mk_price_orders_at_price := pm\<rparr>) = mk_best s mb" "mk_best s (mb\<lparr>oid_to_order := r\<rparr>) = mk_best s mb"
  "mk_best s (mb\<lparr>mk_orders_at_price_pool := lp\<rparr>) = mk_best s mb" "mk_best s (mb\<lparr>mk_order_pool := op\<rparr>) = mk_best s mb"
  "mk_best s (mb\<lparr>mk_bbo := b\<rparr>) = mk_best s mb" "mk_best s (set_mk_best s p mb) = p"
  by (simp_all add: mk_best_def upd_mord_def upd_mlvl_def set_mk_best_def)

lemma mk_getOrdersAtPrice_conv [simp]: "mk_getOrdersAtPrice p mb = Inr (mk_price_orders_at_price mb (pidx p))"
  by (simp add: mk_getOrdersAtPrice_def)


section \<open>The operations commute with the embedding\<close>

lemma emb_bind_plain: "m = m' \<Longrightarrow> (\<And>x. emb (k x) = k' x) \<Longrightarrow> emb (bindE m k) = bindE m' k'"
  by (cases m) auto

lemma emb_bind_book: "emb m = m' \<Longrightarrow> (\<And>mb. emb (k mb) = k' (embed mb)) \<Longrightarrow> emb (bindE m k) = bindE m' k'"
  by (cases m) auto

lemma emb_if_cong: "b = b' \<Longrightarrow> emb r = r' \<Longrightarrow> emb s = s' \<Longrightarrow> emb (if b then r else s) = (if b' then r' else s')"
  by simp

lemma emb_ptr_cong: "emb r = r' \<Longrightarrow> (\<And>n. emb (f n) = f' n) \<Longrightarrow>
    emb (case p of None \<Rightarrow> r | Some n \<Rightarrow> f n) = (case p of None \<Rightarrow> r' | Some n \<Rightarrow> f' n)"
  by (cases p) simp_all

lemmas emb_intros = emb_bind_plain emb_bind_book emb_if_cong emb_ptr_cong

lemma emb_put_oid: "emb (put_oid oid p mb) = put_order 0 oid p (embed mb)"
proof -
  have "embed (mb\<lparr>oid_to_order := r\<rparr>) = (embed mb)\<lparr>cid_oid_to_order := (cid_oid_to_order (embed mb))(0 := r)\<rparr>" for r
    by (auto simp: embed_def fun_eq_iff)
  then show ?thesis by (simp add: put_oid_def put_order_def emb_bindE ME_MAX_NUM_CLIENTS_def array_at_def)
qed

lemma emb_removeOrdersAtPrice: "emb (mk_removeOrdersAtPrice s p mb) = removeOrdersAtPrice s p (embed mb)"
  unfolding mk_removeOrdersAtPrice_def removeOrdersAtPrice_def Let_def
  by (intro emb_intros) (auto simp: map_pool_deallocate emb_bindE bindE_assoc)

lemma emb_removeOrder: "emb (mk_removeOrder p mb) = removeOrder p (embed mb)"
  unfolding mk_removeOrder_def removeOrder_def Let_def
  apply (intro emb_intros)
  apply (auto simp: map_pool_deallocate emb_bindE emb_removeOrdersAtPrice emb_put_oid bindE_assoc)
  done


section \<open>Adding a price level\<close>

lemma lnext_embed: "lnext (embed mb) n = ml_next_entry (mlvl mb n)" "lprev (embed mb) n = ml_prev_entry (mlvl mb n)"
  "lprice (embed mb) n = ml_price (mlvl mb n)"
  by (simp_all add: lnext_def lprev_def lprice_def)

lemma behind_better: "book_side s \<Longrightarrow> behind s p q = better s q p"
  by (auto simp: behind_def better_def book_side_def)

lemma seek_level_ok:
  assumes "ring (lnext (embed mb)) (lprev (embed mb)) (pre @ t # ns @ ms)" and "first = hd (pre @ [t])" and "pre \<noteq> []"
    and "\<forall>m \<in> set (t # ns). behind s p (ml_price (mlvl mb m))" and "\<forall>m \<in> set ms. \<not> behind s p (ml_price (mlvl mb m))"
    and "length ns + 3 \<le> fuel"
  shows "seek_level fuel s p first True t mb = Inr (if ms = [] then (True, first) else (False, hd ms))"
  using assms
proof (induction ns arbitrary: pre t fuel)
  case Nil
  obtain f where f: "fuel = Suc (Suc (Suc f))" using Nil.prems(6) by (cases fuel; cases "fuel - 1"; cases "fuel - 2") auto
  have d: "distinct (pre @ t # ms)" using ring_distinct [OF Nil.prems(1)] by simp
  have ft: "first \<in> set pre" "first \<noteq> t" "ms \<noteq> [] \<Longrightarrow> hd ms \<noteq> first" using Nil.prems(2,3) d by (auto simp: hd_append) (metis disjoint_iff hd_in_set)
  have nx: "ml_next_entry (mlvl mb t) = Some (hd (ms @ [first]))"
    using ring_next [OF Nil.prems(1)] Nil.prems(2,3) by (simp add: lnext_embed hd_append)
  show ?case using Nil.prems(4,5) ft nx by (cases ms) (auto simp: f)
next
  case (Cons b bs)
  obtain f where f: "fuel = Suc f" using Cons.prems(6) by (cases fuel) auto
  have d: "distinct (pre @ t # (b # bs) @ ms)" using ring_distinct [OF Cons.prems(1)] .
  have ft: "first \<noteq> t" using Cons.prems(2,3) d by (auto simp: hd_append)
  have nx: "ml_next_entry (mlvl mb t) = Some b"
    using ring_next [OF Cons.prems(1)] by (simp add: lnext_embed)
  have "seek_level f s p first True b mb = Inr (if ms = [] then (True, first) else (False, hd ms))"
    by (rule Cons.IH [of "pre @ [t]"]) (use Cons.prems f in \<open>auto simp: hd_append\<close>)
  then show ?case using Cons.prems(4) ft nx by (auto simp: f)
qed

lemma upd_obj_same: "f (obj p i) = obj p i \<Longrightarrow> upd_obj i f p = p"
  by (cases "store p i") (auto simp: upd_obj_def obj_def fun_upd_idem_iff intro!: MemPool.equality)

lemma upd_mlvl_same: "f (mlvl mb i) = mlvl mb i \<Longrightarrow> upd_mlvl i f mb = mb"
  by (simp add: upd_mlvl_def mlvl_def upd_obj_same)

lemma upd_lvl_commute: "i \<noteq> j \<Longrightarrow> upd_lvl i f (upd_lvl j g ob) = upd_lvl j g (upd_lvl i f ob)"
  by (auto simp: upd_lvl_def upd_obj_def obj_def fun_eq_iff intro!: MEOrderBook.equality MemPool.equality)

text \<open>The search of the market order book finds the place that the exchange's book finds.\<close>

lemma seek_place:
  assumes s: "book_side s" and r: "ring (lnext (embed mb)) (lprev (embed mb)) (ns @ ms)" and ne: "ns @ ms = first # rest"
    and before: "\<forall>m \<in> set ns. better s (ml_price (mlvl mb m)) p"
    and after: "\<forall>m \<in> set ms. better s p (ml_price (mlvl mb m))"
    and fuel: "length (ns @ ms) \<le> unat (store_size (mk_orders_at_price_pool mb))"
  shows "level_place s p first mb = Inr (if ms = [] then (True, first) else (False, hd ms))"
proof (cases ns)
  case Nil
  then show ?thesis using ne after behind_better [OF s] by (cases ms) (auto simp: level_place_def better_def split: if_splits)
next
  case (Cons a as)
  then have a: "first = a" "rest = as @ ms" using ne by auto
  have b: "behind s p (ml_price (mlvl mb m)) = (m \<in> set ns)" if "m \<in> set (ns @ ms)" for m
    using that before after behind_better [OF s, of p "ml_price (mlvl mb m)"] by (auto simp: better_def split: if_splits)
  have d: "distinct (ns @ ms)" using ring_distinct [OF r] .
  have nx: "ml_next_entry (mlvl mb a) = Some (hd (as @ ms @ [a]))"
    using ring_next [of "lnext (embed mb)" "lprev (embed mb)" "[]" a "as @ ms"] r Cons by (simp add: lnext_embed)
  show ?thesis
  proof (cases as)
    case Nil
    then show ?thesis using a nx b Cons d by (cases ms) (auto simp: b level_place_def)
  next
    case (Cons c cs)
    have "seek_level (Suc (Suc (unat (store_size (mk_orders_at_price_pool mb))))) s p first True c mb = Inr (if ms = [] then (True, first) else (False, hd ms))"
      by (rule seek_level_ok [of _ "[a]" c cs]) (use r \<open>ns = a # as\<close> Cons a b d fuel in auto)
    then show ?thesis using nx b Cons \<open>ns = a # as\<close> a by (simp add: level_place_def del: seek_level.simps)
  qed
qed

lemma embed_pmap: "(embed mb)\<lparr>price_orders_at_price := pm\<rparr> = embed (mb\<lparr>mk_price_orders_at_price := pm\<rparr>)"
  by simp

lemma emb_addOrdersAtPrice:
  assumes s: "book_side s" and side: "ml_side (mlvl mb n) = s"
    and r: "ring (lnext (embed mb)) (lprev (embed mb)) (ns @ ms)" and bst: "mk_best s mb = head_ptr (ns @ ms)"
    and new: "n \<notin> set (ns @ ms)"
    and before: "\<forall>m \<in> set ns. better s (lprice (embed mb) m) (lprice (embed mb) n)"
    and after: "\<forall>m \<in> set ms. better s (lprice (embed mb) n) (lprice (embed mb) m)"
    and fuel: "length (ns @ ms) \<le> unat (store_size (mk_orders_at_price_pool mb))"
  shows "emb (mk_addOrdersAtPrice (Some n) mb) = addOrdersAtPrice (Some n) (embed mb)"
proof -
  let ?p = "ml_price (mlvl mb n)"
  let ?mb = "mb\<lparr>mk_price_orders_at_price := (mk_price_orders_at_price mb)(pidx ?p := Some n)\<rparr>"
  have put: "array_put (unat ME_MAX_PRICE_LEVELS) f (pidx ?p) x = Inr (f(pidx ?p := x))" for f and x :: ptr
    by (simp add: array_put_def)
  show ?thesis
  proof (cases "ns @ ms")
    case Nil
    then show ?thesis using bst side by (simp add: mk_addOrdersAtPrice_def addOrdersAtPrice_def Let_def put)
  next
    case (Cons first rest)
    have seek: "level_place s ?p first ?mb = Inr (if ms = [] then (True, first) else (False, hd ms))"
      by (rule seek_place [OF s _ Cons]) (use r before after fuel in \<open>simp_all add: lnext_embed lnext_def lprev_def\<close>)
    have b1: "mk_best s ?mb = Some first" using bst Cons by simp
    show ?thesis
    proof (cases ms)
      case (Cons t ms')
      obtain b where b: "lprev (embed mb) t = Some b" using ring_member_Some(2) [OF r, of t] Cons by auto
      have bin: "b \<in> set (ns @ ms)" using ring_member_Some(2) [OF r, of t] b Cons by auto
      have nb: "n \<noteq> t" "n \<noteq> b" using new bin Cons by auto
      define mb1 where "mb1 = upd_mlvl n (\<lambda>l. l\<lparr>ml_next_entry := Some t\<rparr>) (upd_mlvl n (\<lambda>l. l\<lparr>ml_prev_entry := Some b\<rparr>) ?mb)"
      define mb2 where "mb2 = upd_mlvl t (\<lambda>l. l\<lparr>ml_prev_entry := Some n\<rparr>) (upd_mlvl b (\<lambda>l. l\<lparr>ml_next_entry := Some n\<rparr>) mb1)"
      have me: "addOrdersAtPrice (Some n) (embed mb) = Inr (if ns = [] then set_best s (Some n) (embed mb2) else embed mb2)"
        using addOrdersAtPrice_before [of s "embed mb" n ns t ms' b] s side r bst new b before after fuel Cons
        by (simp add: mb1_def mb2_def lnext_embed)
      have fst: "first = (if ns = [] then t else hd ns)" using \<open>ns @ ms = first # rest\<close> Cons by (cases ns) auto
      have new_best: "(s = BUY \<and> ?p > ml_price (mlvl mb first) \<or> s = SELL \<and> ?p < ml_price (mlvl mb first)) \<longleftrightarrow> ns = []"
        using before after s Cons fst by (cases ns) (auto simp: better_def book_side_def lnext_embed split: if_splits)
      have same: "upd_mlvl t (\<lambda>l. l\<lparr>ml_next_entry := if ml_next_entry l = Some first then Some n else ml_next_entry l\<rparr>) mb2 = mb2"
        if "ns = []"
      proof (rule upd_mlvl_same)
        have "ml_next_entry (mlvl mb2 t) \<noteq> Some t"
        proof (cases ms')
          case Nil
          then have "b = t" using bin that Cons by simp
          then show ?thesis using nb by (simp add: mb1_def mb2_def)
        next
          case (Cons u us)
          then have "ml_next_entry (mlvl mb t) = Some u" "u \<noteq> t" using r that \<open>ms = t # ms'\<close> ring_next [of _ _ "[]" t ms'] ring_distinct [OF r]
            by (auto simp: lnext_embed)
          then show ?thesis using nb by (auto simp: mb1_def mb2_def)
        qed
        then show "(mlvl mb2 t)\<lparr>ml_next_entry := if ml_next_entry (mlvl mb2 t) = Some first then Some n else ml_next_entry (mlvl mb2 t)\<rparr> = mlvl mb2 t"
          using that fst by simp
      qed
      have p2: "ml_price (mlvl mb2 first) = ml_price (mlvl mb first)" by (simp add: mb2_def mb1_def)
      have "mk_addOrdersAtPrice (Some n) mb = Inr (if ns = [] then set_mk_best s (Some n) mb2 else mb2)"
        using seek b1 side Cons b nb new_best p2 same
        by (simp add: mk_addOrdersAtPrice_def Let_def put lnext_embed mb1_def mb2_def cong: if_cong)
      then show ?thesis unfolding me by simp
    next
      case Nil
      then obtain ns' t where ns: "ns = ns' @ [t]" using Cons by (cases ns rule: rev_cases) auto
      obtain c where c: "lnext (embed mb) t = Some c" using ring_member_Some(1) [OF r, of t] ns by auto
      have cin: "c \<in> set ns" using ring_member_Some(1) [OF r, of t] c ns Nil by auto
      have nc: "n \<noteq> t" "n \<noteq> c" using new cin ns by auto
      have fp: "ml_prev_entry (mlvl mb first) = Some t"
        using ring_head_prev [of "lnext (embed mb)" "lprev (embed mb)" first rest] r Nil Cons ns
        by (metis append_Nil2 last_snoc lnext_embed(2))
      have me: "addOrdersAtPrice (Some n) (embed mb) = Inr (upd_lvl t (\<lambda>l. l\<lparr>l_next_entry := Some n\<rparr>)
          (upd_lvl c (\<lambda>l. l\<lparr>l_prev_entry := Some n\<rparr>) (upd_lvl n (\<lambda>l. l\<lparr>l_next_entry := Some c\<rparr>)
          (upd_lvl n (\<lambda>l. l\<lparr>l_prev_entry := Some t\<rparr>) (embed ?mb)))))"
        using addOrdersAtPrice_after [of s "embed mb" n ns' t c] s side r bst new c before fuel ns Nil by (simp add: lnext_embed(3))
      have "emb (mk_addOrdersAtPrice (Some n) mb) = Inr (upd_lvl t (\<lambda>l. l\<lparr>l_next_entry := Some n\<rparr>)
          (upd_lvl n (\<lambda>l. l\<lparr>l_next_entry := Some c\<rparr>) (upd_lvl c (\<lambda>l. l\<lparr>l_prev_entry := Some n\<rparr>) 
          (upd_lvl n (\<lambda>l. l\<lparr>l_prev_entry := Some t\<rparr>) (embed ?mb)))))"
        using seek b1 Nil side c nc fp
        by (cases "t = c") (simp_all add: mk_addOrdersAtPrice_def Let_def put lnext_embed cong: if_cong)
      then show ?thesis unfolding me using upd_lvl_commute [OF nc(2)] by simp
    qed
  qed
qed

lemma emb_addOrder:
  assumes ok: "book_ok (embed mb) sh" and x: "can_rest s (emb_order x) (embed mb)"
    and free: "price_free s (mo_price x) (embed mb)" and la: "can_allocate (mk_orders_at_price_pool mb)"
    and al: "allocate x (mk_order_pool mb) = (Some i, pool)"
  shows "emb (mk_addOrder (Some i) (mb\<lparr>mk_order_pool := pool\<rparr>))
    = addOrder (Some i) ((embed mb)\<lparr>order_pool := map_pool emb_order pool\<rparr>)"
proof -
  have s: "book_side s" using x by (simp add: can_rest_def)
  have oi: "obj pool i = x" using allocate_Some(5) [OF _ al] ok by (simp add: book_ok_def)
  have al': "allocate (emb_order x) (order_pool (embed mb)) = (Some i, map_pool emb_order pool)"
    by (simp add: map_pool_allocate al)
  show ?thesis
  proof (cases "mk_price_orders_at_price mb (pidx (mo_price x))")
    case (Some n)
    then show ?thesis
      by (simp add: mk_addOrder_def addOrder_def Let_def oi, intro emb_intros) (auto simp: emb_put_oid)
  next
    case None
    then obtain xs ys where pl: "sh s = xs @ ys" "\<forall>m \<in> set xs. better s (lprice (embed mb) (fst m)) (mo_price x)"
        "\<forall>m \<in> set ys. better s (mo_price x) (lprice (embed mb) (fst m))"
      using rest_place_exists [OF ok s free] by auto
    define lv where "lv = \<lparr>ml_side = mo_side x, ml_price = mo_price x, ml_first_mkt_order = Some i, ml_prev_entry = None, ml_next_entry = None\<rparr>"
    have elv: "emb_level lv = level_for (emb_order x) i" by (simp add: emb_level_def lv_def level_for_def)
    obtain n lp where lp: "allocate lv (mk_orders_at_price_pool mb) = (Some n, lp)" using allocate_exists [OF la] by blast
    have lp': "allocate (level_for (emb_order x) i) (orders_at_price_pool (embed mb)) = (Some n, map_pool emb_level lp)"
      unfolding elv [symmetric] by (simp add: map_pool_allocate lp)
    define mb2 where "mb2 = (upd_mord i (\<lambda>x. x\<lparr>mo_next_order := Some i, mo_prev_order := Some i\<rparr>) (mb\<lparr>mk_order_pool := pool\<rparr>))\<lparr>mk_orders_at_price_pool := lp\<rparr>"
    have mb2: "embed mb2 = level_created (emb_order x) i (map_pool emb_order pool) (map_pool emb_level lp) (embed mb)"
      by (simp add: mb2_def level_created_def)
    note rd = level_created_ready [OF ok x pl(1) _ _ lp' mb2, simplified, OF pl(2,3)]
    have "emb (mk_addOrdersAtPrice (Some n) mb2) = addOrdersAtPrice (Some n) (embed mb2)"
      by (rule emb_addOrdersAtPrice [OF s]) (use rd in auto)
    then have "emb (bindE (mk_addOrdersAtPrice (Some n) mb2) (\<lambda>mb. put_oid (mo_order_id (mord mb i)) (Some i) mb))
      = bindE (addOrdersAtPrice (Some n) (embed mb2)) (\<lambda>ob. put_order (o_client_id (ord ob i)) (o_client_order_id (ord ob i)) (Some i) ob)"
      by (rule emb_bind_book) (simp add: emb_put_oid)
    then show ?thesis
      using None lp lp'
      by (simp add: mk_addOrder_def addOrder_def Let_def oi lv_def mb2 level_for_def level_created_def mb2_def)
  qed
qed

end
