(* ===== verification/Market_Book_Mirror.thy ===== *)
theory Market_Book_Mirror
  imports Market_Book_Embed Matching_Engine "HOL-Library.Multiset"
begin

text \<open>
  What the market order book promises: it mirrors the exchange's book. An abstract mirror applies market updates
  to two lists of orders in price-time order; the market order book implements it, and the updates that the
  exchange's book sends turn the mirror of the old lists into the mirror of the new ones.
\<close>

section \<open>The abstract mirror\<close>

text \<open>What the public sees of an order: the market order id stands for the client's ids.\<close>

definition public_order :: "MEOrder \<Rightarrow> MEOrder" where
  "public_order x = x\<lparr>o_ticker_id := 0, o_client_id := 0, o_client_order_id := o_market_order_id x\<rparr>"

definition public_book :: "spec_book \<Rightarrow> spec_book" where
  "public_book bk = (\<lambda>s. map public_order (bk s))"

definition order_of_update :: "MEMarketUpdate \<Rightarrow> MEOrder" where
  "order_of_update u =
     \<lparr>o_ticker_id = 0, o_client_id = 0, o_client_order_id = upd_order_id u, o_market_order_id = upd_order_id u,
      o_side = upd_side u, o_price = upd_price u, o_qty = upd_qty u, o_priority = upd_priority u,
      o_prev_order = None, o_next_order = None\<rparr>"

definition mirror :: "MEMarketUpdate \<Rightarrow> spec_book \<Rightarrow> spec_book" where
  "mirror u pb =
     (case upd_type u of
        Upd_ADD \<Rightarrow> pb(upd_side u := spec_rest (order_of_update u) (pb (upd_side u)))
      | Upd_MODIFY \<Rightarrow> (\<lambda>s. map (\<lambda>x. if o_market_order_id x = upd_order_id u then x\<lparr>o_qty := upd_qty u\<rparr> else x) (pb s))
      | Upd_CANCEL \<Rightarrow> (\<lambda>s. filter (\<lambda>x. o_market_order_id x \<noteq> upd_order_id u) (pb s))
      | Upd_CLEAR \<Rightarrow> (\<lambda>s. [])
      | _ \<Rightarrow> pb)"


section \<open>The operations of the market order book\<close>

lemma represents_call [simp]: "represents (call c ob) bk = represents ob bk"
  by (simp add: represents_def side_orders_def)

lemma represents_cong: "(\<And>s. book_side s \<Longrightarrow> bk s = bk' s) \<Longrightarrow> represents ob bk = represents ob bk'"
  by (simp add: represents_def cong: conj_cong)

text \<open>The orders of a market order book carry their market order id twice.\<close>

lemma mirror_ids:
  assumes "represents (embed mb) pb" "book_side s" "x \<in> set (pb s)"
  shows "o_client_id x = 0" "o_client_order_id x = o_market_order_id x" "has_ids 0 d x = (o_market_order_id x = d)"
proof -
  obtain sh where "side_orders (embed mb) sh s = pb s" using assms by (auto simp: represents_def)
  then have "x \<in> set (side_orders (embed mb) sh s)" using assms(3) by simp
  then obtain i where "x = erase (emb_order (mord mb i))" by (auto simp: side_orders_def)
  then show "o_client_id x = 0" "o_client_order_id x = o_market_order_id x" by (simp_all add: erase_def)
  then show "has_ids 0 d x = (o_market_order_id x = d)" by (simp add: has_ids_def)
qed

lemma mk_removeOrder_refines:
  assumes rep: "represents (embed mb) pb" and i: "oid_to_order mb (unat d) = Some i" and d: "unat d < unat ME_MAX_ORDER_IDS"
  shows "\<exists>mb'. mk_removeOrder (Some i) mb = Inr mb'
    \<and> represents (embed mb') (\<lambda>s. filter (\<lambda>x. o_market_order_id x \<noteq> d) (pb s))"
proof -
  obtain ob where ob: "cancel 0 d 0 (embed mb) = Inr ob" "represents ob (spec_cancel 0 d pb)"
    using cancel_refines [OF rep, of 0 d 0] d by auto
  have "cancel 0 d 0 (embed mb) = bindE (removeOrder (Some i) (embed mb)) (\<lambda>ob.
      Inr (call (canceled_response 0 0 d (emb_order (mord mb i)))
        (call (market_update Upd_CANCEL (mo_order_id (mord mb i)) 0 (mo_side (mord mb i)) (mo_price (mord mb i)) 0
           (mo_priority (mord mb i))) ob)))"
    using i d by (simp add: cancel_def Let_def ME_MAX_NUM_CLIENTS_def)
  then obtain ob1 where ob1: "removeOrder (Some i) (embed mb) = Inr ob1" "represents ob1 (spec_cancel 0 d pb)"
    using ob by (cases "removeOrder (Some i) (embed mb)") auto
  then obtain mb' where "mk_removeOrder (Some i) mb = Inr mb'" "embed mb' = ob1"
    using emb_removeOrder [of "Some i" mb] by (auto simp: emb_Inr_iff)
  moreover have "spec_cancel 0 d pb s = filter (\<lambda>x. o_market_order_id x \<noteq> d) (pb s)" if "book_side s" for s
    using mirror_ids(3) [OF rep that] by (auto simp: spec_cancel_def intro!: filter_cong)
  ultimately show ?thesis using ob1(2) represents_cong [of "spec_cancel 0 d pb"] by auto
qed

lemma upd_qty_refines:
  assumes rep: "represents (embed mb) pb" and i: "oid_to_order mb (unat d) = Some i" and d: "unat d < unat ME_MAX_ORDER_IDS"
  shows "represents (embed (upd_mord i (\<lambda>x. x\<lparr>mo_qty := q\<rparr>) mb))
      (\<lambda>s. map (\<lambda>x. if o_market_order_id x = d then x\<lparr>o_qty := q\<rparr> else x) (pb s))"
proof -
  obtain sh where ok: "book_ok (embed mb) sh" and so: "\<And>s. book_side s \<Longrightarrow> side_orders (embed mb) sh s = pb s"
    using rep by (auto simp: represents_def)
  let ?mb = "upd_mord i (\<lambda>x. x\<lparr>mo_qty := q\<rparr>) mb"
  have "book_ok (embed ?mb) sh" using ok by simp
  moreover have "side_orders (embed ?mb) sh s = map (\<lambda>x. if o_market_order_id x = d then x\<lparr>o_qty := q\<rparr> else x) (pb s)"
    if s: "book_side s" for s
  proof -
    have "erase (ord (embed ?mb) k) = (if o_market_order_id (erase (ord (embed mb) k)) = d
        then (erase (ord (embed mb) k))\<lparr>o_qty := q\<rparr> else erase (ord (embed mb) k))"
      if kin: "k \<in> set (concat (map snd (sh s)))" for k
    proof -
      obtain n "is" where "(n, is) \<in> set (sh s)" "k \<in> set is" using kin by auto
      note that = this
      have "oid_to_order mb (unat (mo_order_id (mord mb k))) = Some k"
        using book_ok_order [OF ok s that] by (simp add: order_ok_def)
      moreover have "k = i" if "oid_to_order mb (unat d) = Some k" using that i by simp
      moreover have "mo_order_id (mord mb i) = d"
      proof -
        have "cid_oid_to_order (embed mb) 0 (unat d) = Some i" "0 < ME_MAX_NUM_CLIENTS" "tables_ok (embed mb) sh"
          using i ok by (simp_all add: ME_MAX_NUM_CLIENTS_def book_ok_def)
        then have "unat (o_client_order_id (ord (embed mb) i)) = unat d" using d unfolding tables_ok_def by blast
        then show ?thesis by (simp add: word_unat_eq_iff)
      qed
      ultimately show ?thesis by (auto simp: erase_def emb_order_def)
    qed
    then show ?thesis
      unfolding so [OF s, symmetric] side_orders_def map_map by (intro map_cong refl) (simp only: o_apply)
  qed
  ultimately show ?thesis unfolding represents_def by blast
qed

lemma mk_addOrder_refines:
  assumes rep: "represents (embed mb) pb" and s: "book_side (upd_side u)"
    and d: "unat (upd_order_id u) < unat ME_MAX_ORDER_IDS" "oid_to_order mb (unat (upd_order_id u)) = None"
    and free: "price_free (upd_side u) (upd_price u) (embed mb)"
    and al: "can_allocate (mk_order_pool mb)" "can_allocate (mk_orders_at_price_pool mb)"
    and x: "x = \<lparr>mo_order_id = upd_order_id u, mo_side = upd_side u, mo_price = upd_price u, mo_qty = upd_qty u,
                  mo_priority = upd_priority u, mo_prev_order = None, mo_next_order = None\<rparr>"
    and ip: "allocate x (mk_order_pool mb) = (p, pool)"
  shows "\<exists>mb'. mk_addOrder p (mb\<lparr>mk_order_pool := pool\<rparr>) = Inr mb'
    \<and> represents (embed mb') (pb(upd_side u := spec_rest (order_of_update u) (pb (upd_side u))))"
proof -
  obtain sh where ok: "book_ok (embed mb) sh" and so: "\<And>s. book_side s \<Longrightarrow> side_orders (embed mb) sh s = pb s"
    using rep by (auto simp: represents_def)
  let ?s = "upd_side u"
  have ex: "emb_order x = order_of_update u" by (simp add: emb_order_def order_of_update_def x)
  have cr: "can_rest ?s (emb_order x) (embed mb)" using s d by (simp add: can_rest_def x ME_MAX_NUM_CLIENTS_def)
  obtain i where p: "p = Some i" using allocate_exists [OF al(1), of x] ip by auto
  have ip': "allocate (emb_order x) (order_pool (embed mb)) = (Some i, map_pool emb_order pool)"
    using ip p by (simp add: map_pool_allocate)
  have fr: "price_free ?s (o_price (emb_order x)) (embed mb)" using free by (simp add: x)
  obtain ob' xs n "is" ys where r: "addOrder (Some i) ((embed mb)\<lparr>order_pool := map_pool emb_order pool\<rparr>) = Inr ob'"
    "rested ?s xs n is i ys (emb_order x) (embed mb) ob' sh"
    using addOrder_ok [OF ok cr fr] al ip' by auto
  then obtain mb' where mb': "mk_addOrder (Some i) (mb\<lparr>mk_order_pool := pool\<rparr>) = Inr mb'" "embed mb' = ob'"
    using emb_addOrder [OF ok cr _ al(2), of i pool] free ip p by (auto simp: emb_Inr_iff x)
  have er: "erase (emb_order x) = order_of_update u" by (simp add: ex order_of_update_def erase_def)
  have "o_side (emb_order x) = ?s" by (simp add: x)
  note ro = rested_orders [OF ok s this r(2)]
  have "book_ok ob' (with_order ?s xs n is i ys sh)" using r(2) by (simp add: rested_def)
  moreover have "side_orders ob' (with_order ?s xs n is i ys sh) t = (pb(?s := spec_rest (order_of_update u) (pb ?s))) t"
    if "book_side t" for t
    using that ro(1,2) so s er by (cases "t = ?s") simp_all
  ultimately show ?thesis using mb' p unfolding represents_def by auto
qed

section \<open>The best bid and offer\<close>

text \<open>The best price of a side and the quantity there, added in 32 bits.\<close>

definition top_of :: "MEOrder list \<Rightarrow> Price \<times> Qty" where
  "top_of xs =
     (case xs of
        [] \<Rightarrow> (Price_INVALID, Qty_INVALID)
      | x # _ \<Rightarrow> (o_price x, sum_list (map o_qty (takeWhile (\<lambda>y. o_price y = o_price x) xs))))"

lemma sum_level_ok:
  assumes "ring (onext (embed mb)) (oprev (embed mb)) (pre @ bs)" and "pre \<noteq> []" and "first = hd pre"
    and "p = Some (hd (bs @ [first]))" and "length bs < fuel"
  shows "sum_level fuel first p q mb = Inr (q + sum_list (map (\<lambda>k. mo_qty (mord mb k)) bs))"
  using assms
proof (induction bs arbitrary: pre p q fuel)
  case Nil
  then show ?case by (cases fuel) auto
next
  case (Cons b bs)
  obtain f where f: "fuel = Suc f" using Cons.prems(5) by (cases fuel) auto
  have "b \<noteq> first" using Cons.prems(2,3) ring_distinct [OF Cons.prems(1)] by auto
  moreover have "mo_next_order (mord mb b) = Some (hd (bs @ [first]))"
    using ring_next [OF Cons.prems(1)] Cons.prems(2,3) by (simp add: onext_def hd_append)
  moreover have "sum_level f first (Some (hd (bs @ [first]))) (q + mo_qty (mord mb b)) mb
      = Inr (q + mo_qty (mord mb b) + sum_list (map (\<lambda>k. mo_qty (mord mb k)) bs))"
    by (rule Cons.IH [of "pre @ [b]"]) (use Cons.prems f in \<open>auto simp: hd_append\<close>)
  ultimately show ?case using Cons.prems(4) f by (simp add: add.assoc)
qed

lemma best_of_side_ok:
  assumes rep: "represents (embed mb) pb" and s: "book_side s"
  shows "best_of_side (mk_best s mb) mb = Inr (top_of (pb s))"
proof -
  obtain sh where ok: "book_ok (embed mb) sh" and so: "side_orders (embed mb) sh s = pb s"
    using rep s by (auto simp: represents_def)
  have sd: "side_ok (embed mb) s (sh s)" using book_ok_side [OF ok s] .
  show ?thesis
  proof (cases "sh s")
    case Nil
    then show ?thesis using sd so by (auto simp: side_ok_def side_orders_def best_of_side_def top_of_def)
  next
    case (Cons a rest)
    obtain n "is" where a: "a = (n, is)" by (cases a)
    have lo: "level_ok (embed mb) s n is" using book_ok_level [OF ok s] Cons a by auto
    then obtain f fs where f: "is = f # fs" by (cases "is") (auto simp: level_ok_def)
    have r: "ring (onext (embed mb)) (oprev (embed mb)) ([f] @ fs)" using lo f by (simp add: level_ok_def)
    have "set (f # fs) \<subseteq> {..<unat (store_size (mk_order_pool mb))}"
      using lo f by (auto simp: level_ok_def order_ok_def allocated_def)
    then have len: "length fs < Suc (unat (store_size (mk_order_pool mb)))"
      using ring_distinct [OF r] card_mono [of "{..<unat (store_size (mk_order_pool mb))}" "set (f # fs)"]
      by (simp add: distinct_card)
    have nx: "mo_next_order (mord mb f) = Some (hd (fs @ [f]))"
      using ring_next [of _ _ "[]" f fs] r by (simp add: onext_def)
    have b: "best_of_side (mk_best s mb) mb
        = Inr (ml_price (mlvl mb n), mo_qty (mord mb f) + sum_list (map (\<lambda>k. mo_qty (mord mb k)) fs))"
    proof -
      have "mk_best s mb = Some n" "ml_first_mkt_order (mlvl mb n) = Some f"
        using sd lo Cons a f by (simp_all add: side_ok_def level_ok_def)
      moreover have "sum_level (Suc (unat (store_size (mk_order_pool mb)))) f (Some (hd (fs @ [f]))) (mo_qty (mord mb f)) mb
          = Inr (mo_qty (mord mb f) + sum_list (map (\<lambda>k. mo_qty (mord mb k)) fs))"
        by (rule sum_level_ok [OF r _ _ _ len]) simp_all
      ultimately show ?thesis using nx by (simp add: best_of_side_def del: sum_level.simps)
    qed
    have pr: "mo_price (mord mb k) = ml_price (mlvl mb n)" if "k \<in> set is" for k
      using lo that by (simp add: level_ok_def order_ok_def lprice_def)
    have pr2: "mo_price (mord mb k) \<noteq> ml_price (mlvl mb n)" if "(m, ks) \<in> set rest" "k \<in> set ks" for m ks k
    proof -
      have "level_ok (embed mb) s m ks" using book_ok_level [OF ok s] Cons that by auto
      then have "mo_price (mord mb k) = ml_price (mlvl mb m)" using that by (simp add: level_ok_def order_ok_def lprice_def)
      moreover have "better s (ml_price (mlvl mb n)) (ml_price (mlvl mb m))"
        using sd Cons a that by (force simp: side_ok_def lprice_def)
      ultimately show ?thesis by (auto simp: better_def split: if_splits)
    qed
    let ?g = "\<lambda>k. erase (ord (embed mb) k)"
    have pe: "o_price (?g k) = mo_price (mord mb k)" "o_qty (?g k) = mo_qty (mord mb k)"
      "o_price (ord (embed mb) k) = mo_price (mord mb k)" "o_qty (ord (embed mb) k) = mo_qty (mord mb k)" for k
      by (simp_all add: erase_def)
    have pb: "pb s = map ?g is @ map ?g (concat (map snd rest))" using so Cons a by (simp add: side_orders_def)
    have "takeWhile (\<lambda>y. o_price y = ml_price (mlvl mb n)) (map ?g is @ map ?g (concat (map snd rest)))
        = map ?g is @ takeWhile (\<lambda>y. o_price y = ml_price (mlvl mb n)) (map ?g (concat (map snd rest)))"
      by (rule takeWhile_append2) (auto simp del: embed_read simp: pe pr)
    also have "takeWhile (\<lambda>y. o_price y = ml_price (mlvl mb n)) (map ?g (concat (map snd rest))) = []"
    proof (cases "concat (map snd rest)")
      case Nil
      show ?thesis unfolding Nil by simp
    next
      case Cons
      then obtain k ks where k: "concat (map snd rest) = k # ks" by blast
      then have "k \<in> set (concat (map snd rest))" by simp
      then obtain m js where "(m, js) \<in> set rest" "k \<in> set js" by auto
      from pr2 [OF this] show ?thesis unfolding k by (simp add: pe del: embed_read)
    qed
    finally have "top_of (pb s) = (ml_price (mlvl mb n), sum_list (map o_qty (map ?g is)))"
      unfolding pb using pr [of f] f by (simp add: top_of_def pe del: embed_read)
    then show ?thesis unfolding b using f by (simp add: pe o_def del: embed_read)
  qed
qed

section \<open>One market update\<close>

text \<open>The updates the book can take; \<open>CLEAR\<close> is treated below.\<close>

definition takes_update :: "MEMarketUpdate \<Rightarrow> MarketOrderBook \<Rightarrow> bool" where
  "takes_update u mb \<longleftrightarrow>
     (case upd_type u of
        Upd_ADD \<Rightarrow> book_side (upd_side u) \<and> unat (upd_order_id u) < unat ME_MAX_ORDER_IDS
          \<and> oid_to_order mb (unat (upd_order_id u)) = None \<and> price_free (upd_side u) (upd_price u) (embed mb)
          \<and> can_allocate (mk_order_pool mb) \<and> can_allocate (mk_orders_at_price_pool mb)
      | Upd_MODIFY \<Rightarrow> unat (upd_order_id u) < unat ME_MAX_ORDER_IDS \<and> oid_to_order mb (unat (upd_order_id u)) \<noteq> None
      | Upd_CANCEL \<Rightarrow> unat (upd_order_id u) < unat ME_MAX_ORDER_IDS \<and> oid_to_order mb (unat (upd_order_id u)) \<noteq> None
      | Upd_CLEAR \<Rightarrow> False
      | _ \<Rightarrow> True)"

definition event_of :: "MEMarketUpdate \<Rightarrow> MarketEvent" where
  "event_of u = (if upd_type u = Upd_TRADE then OnTradeUpdate u
     else OnOrderBookUpdate (upd_ticker_id u) (upd_price u) (upd_side u))"

definition bbo_side :: "Side \<Rightarrow> MarketOrderBook \<Rightarrow> Price \<times> Qty" where
  "bbo_side s mb =
     (if s = BUY then (bbo_bid_price (mk_bbo mb), bbo_bid_qty (mk_bbo mb))
      else (bbo_ask_price (mk_bbo mb), bbo_ask_qty (mk_bbo mb)))"

text \<open>The update is at least as good as the best price of its side, which had an order before.\<close>

definition at_top :: "Side \<Rightarrow> MEMarketUpdate \<Rightarrow> spec_book \<Rightarrow> bool" where
  "at_top s u pb \<longleftrightarrow> pb s \<noteq> [] \<and> upd_side u = s \<and> at_least_as_good s (upd_price u) (o_price (hd (pb s)))"

lemma head_price:
  assumes rep: "represents (embed mb) pb" and s: "book_side s"
  shows "(case mk_best s mb of None \<Rightarrow> pb s = [] | Some n \<Rightarrow> pb s \<noteq> [] \<and> ml_price (mlvl mb n) = o_price (hd (pb s)))"
proof -
  obtain sh where ok: "book_ok (embed mb) sh" and so: "side_orders (embed mb) sh s = pb s"
    using rep s by (auto simp: represents_def)
  have sd: "side_ok (embed mb) s (sh s)" using book_ok_side [OF ok s] .
  show ?thesis
  proof (cases "sh s")
    case Nil
    then show ?thesis using sd so by (auto simp: side_ok_def side_orders_def)
  next
    case (Cons a rest)
    obtain n "is" where a: "a = (n, is)" by (cases a)
    have lo: "level_ok (embed mb) s n is" using book_ok_level [OF ok s] Cons a by auto
    then obtain f fs where f: "is = f # fs" by (cases "is") (auto simp: level_ok_def)
    have "pb s = erase (emb_order (mord mb f)) # map (\<lambda>i. erase (ord (embed mb) i)) (fs @ concat (map snd rest))"
      using so Cons a f by (simp add: side_orders_def)
    moreover have "mo_price (mord mb f) = ml_price (mlvl mb n)"
      using lo f by (simp add: level_ok_def order_ok_def lprice_def)
    ultimately show ?thesis using sd Cons a by (simp add: side_ok_def erase_def)
  qed
qed

lemma book_updateBBO_ok:
  assumes rep: "represents (embed mb) pb"
  shows "\<exists>mb'. book_updateBBO b a mb = Inr mb' \<and> embed mb' = embed mb
    \<and> bbo_side BUY mb' = (if b then top_of (pb BUY) else bbo_side BUY mb)
    \<and> bbo_side SELL mb' = (if a then top_of (pb SELL) else bbo_side SELL mb)"
proof -
  define mb1 where "mb1 = (if b then mb\<lparr>mk_bbo := (mk_bbo mb)\<lparr>bbo_bid_price := fst (top_of (pb BUY)),
      bbo_bid_qty := snd (top_of (pb BUY))\<rparr>\<rparr> else mb)"
  have e1: "embed mb1 = embed mb" by (simp add: mb1_def)
  have b1: "best_of_side (mk_bids_by_price mb) mb = Inr (top_of (pb BUY))"
    using best_of_side_ok [OF rep, of BUY] by (simp add: mk_best_def)
  have "represents (embed mb1) pb" using rep e1 by simp
  then have a1: "best_of_side (mk_asks_by_price mb1) mb1 = Inr (top_of (pb SELL))"
    using best_of_side_ok [of mb1 pb SELL] by (simp add: mk_best_def)
  define mb2 where "mb2 = (if a then mb1\<lparr>mk_bbo := (mk_bbo mb1)\<lparr>bbo_ask_price := fst (top_of (pb SELL)),
      bbo_ask_qty := snd (top_of (pb SELL))\<rparr>\<rparr> else mb1)"
  have "book_updateBBO b a mb = Inr mb2"
    using a1 by (cases b; cases a) (simp_all add: book_updateBBO_def b1 mb2_def mb1_def split_beta)
  moreover have "embed mb2 = embed mb" using e1 by (simp add: mb2_def)
  ultimately show ?thesis by (intro exI [of _ mb2]) (simp add: mb2_def mb1_def bbo_side_def)
qed

text \<open>What every operation on the lists keeps: the best bid and offer change only in \<open>updateBBO\<close>, and removing
  never takes the next block of a pool away.\<close>

definition keeps :: "(MarketOrderBook \<Rightarrow> bool) \<Rightarrow> MarketOrderBook res \<Rightarrow> bool" where
  "keeps P r \<longleftrightarrow> (\<forall>mb. r = Inr mb \<longrightarrow> P mb)"

lemma keeps_simps [simp]: "keeps P (Inl e)" "keeps P (Inr mb) \<longleftrightarrow> P mb"
  by (simp_all add: keeps_def)

lemma keeps_bind: "(\<And>x. m = Inr x \<Longrightarrow> keeps P (k x)) \<Longrightarrow> keeps P (bindE m k)"
  by (cases m) simp_all

lemma keeps_step: "keeps P m \<Longrightarrow> (\<And>mb. P mb \<Longrightarrow> keeps P (k mb)) \<Longrightarrow> keeps P (bindE m k)"
  by (cases m) simp_all

lemma keeps_if: "keeps P r \<Longrightarrow> keeps P t \<Longrightarrow> keeps P (if c then r else t)"
  by simp

lemma keeps_case: "keeps P r \<Longrightarrow> (\<And>n. keeps P (f n)) \<Longrightarrow> keeps P (case p of None \<Rightarrow> r | Some n \<Rightarrow> f n)"
  by (cases p) simp_all

lemma keeps_pair: "(\<And>x y. z = (x, y) \<Longrightarrow> keeps P (f x y)) \<Longrightarrow> keeps P (case z of (x, y) \<Rightarrow> f x y)"
  by (cases z) simp

lemmas keeps_intros = keeps_step keeps_bind keeps_if keeps_case keeps_pair

text \<open>The pool's next \<open>n\<close> blocks are free, so the next \<open>n\<close> allocations find one.\<close>

definition spare :: "nat \<Rightarrow> 'a MemPool \<Rightarrow> bool" where
  "spare n p \<longleftrightarrow> pool_ok p \<and> n \<le> unat (store_size p) \<and> (\<forall>k < n. is_free (store p ((unat (next_free p) + k) mod unat (store_size p))))"

definition room :: "nat \<Rightarrow> MarketOrderBook \<Rightarrow> bool" where
  "room n mb \<longleftrightarrow> spare n (mk_order_pool mb) \<and> spare n (mk_orders_at_price_pool mb)"

lemma spare_Suc: "spare (Suc n) p \<Longrightarrow> spare n p" "spare (Suc n) p \<Longrightarrow> can_allocate p"
  by (auto simp: spare_def can_allocate_def pool_ok_def)

lemma spare_upd_obj [simp]: "spare n (upd_obj i f p) = spare n p"
  by (simp add: spare_def)

lemma spare_deallocate: "deallocate e p = Inr p' \<Longrightarrow> spare n p \<Longrightarrow> spare n p'"
  by (auto simp: deallocate_def spare_def pool_ok_def res_simps split: option.splits)

lemma spare_allocate:
  assumes "spare (Suc n) p" and "allocate x p = (q, p')"
  shows "spare n p'"
proof -
  let ?m = "unat (store_size p)" and ?i = "unat (next_free p)"
  have ok: "pool_ok p" "?i < ?m" "0 < ?m" "Suc n \<le> ?m" using assms(1) by (auto simp: spare_def pool_ok_def)
  have p': "p' = p\<lparr>store := (store p)(?i := \<lparr>object = x, is_free = False\<rparr>), next_free := (next_free p + 1) AND (store_size p - 1)\<rparr>"
    using assms(2) spare_Suc(2) [OF assms(1)] by (simp add: allocate_conv)
  obtain e where e: "e < 64" "?m = 2 ^ e" using ok(1) unat_pow2 by (auto simp: pool_ok_def is_pow2_def)
  have "(2::nat) ^ e \<le> 2 ^ 63" using e(1) by (intro power_increasing) simp_all
  then have "unat (next_free p + 1) = Suc ?i" using ok(2) e(2) by (intro unat_Suc) simp
  then have nx: "unat (next_free p') = Suc ?i mod ?m"
    using ok by (simp add: p' and_pow2_unat pool_ok_def)
  have "is_free (store p' ((unat (next_free p') + k) mod ?m))" if k: "k < n" for k
  proof -
    have e: "(unat (next_free p') + k) mod ?m = (?i + Suc k) mod ?m" by (simp add: nx mod_simps)
    have "(?i + Suc k) mod ?m \<noteq> ?i"
      using ok(2,4) k by (cases "?i + Suc k < ?m") (simp_all add: le_mod_geq)
    moreover have "is_free (store p ((?i + Suc k) mod ?m))"
      using assms(1) k by (simp add: spare_def del: add_Suc_right)
    ultimately show ?thesis unfolding e by (simp add: p')
  qed
  then show ?thesis using pool_ok_allocate [OF ok(1) assms(2)] ok(4) by (simp add: spare_def p')
qed

lemma room_Suc: "room (Suc n) mb \<Longrightarrow> room n mb"
  by (simp add: room_def spare_Suc)

lemma room_upd [simp]:
  "room k (upd_mord i f mb) = room k mb" "room k (upd_mlvl n g mb) = room k mb" "room k (set_mk_best s p mb) = room k mb"
  "room k (mb\<lparr>oid_to_order := r\<rparr>) = room k mb"
  "room k (mb\<lparr>mk_price_orders_at_price := pm\<rparr>) = room k mb"
  "room k (mb\<lparr>mk_price_orders_at_price := pm, mk_orders_at_price_pool := lp\<rparr>) \<longleftrightarrow> spare k (mk_order_pool mb) \<and> spare k lp"
  "room k (mb\<lparr>mk_order_pool := op\<rparr>) \<longleftrightarrow> spare k op \<and> spare k (mk_orders_at_price_pool mb)"
  "room k (mb\<lparr>mk_orders_at_price_pool := lp\<rparr>) \<longleftrightarrow> spare k (mk_order_pool mb) \<and> spare k lp"
  by (simp_all add: room_def)

abbreviation same_bbo :: "BBO \<Rightarrow> MarketOrderBook \<Rightarrow> bool" where "same_bbo b mb \<equiv> mk_bbo mb = b"

lemma bbo_put_oid [simp]: "same_bbo b mb \<Longrightarrow> keeps (same_bbo b) (put_oid d p mb)"
  by (auto simp: put_oid_def intro: keeps_bind)

lemma room_put_oid [simp]: "room k mb \<Longrightarrow> keeps (room k) (put_oid d p mb)"
  by (auto simp: put_oid_def intro: keeps_bind)

lemma bbo_removeOrdersAtPrice [simp]: "same_bbo b mb \<Longrightarrow> keeps (same_bbo b) (mk_removeOrdersAtPrice s p mb)"
  unfolding mk_removeOrdersAtPrice_def Let_def by (intro keeps_intros) simp_all

lemma room_removeOrdersAtPrice [simp]: "room k mb \<Longrightarrow> keeps (room k) (mk_removeOrdersAtPrice s p mb)"
  unfolding mk_removeOrdersAtPrice_def Let_def
  by (intro keeps_intros) (auto simp: room_def dest: spare_deallocate)

lemma bbo_removeOrder: "same_bbo b mb \<Longrightarrow> keeps (same_bbo b) (mk_removeOrder p mb)"
  unfolding mk_removeOrder_def Let_def by (intro keeps_intros) simp_all

lemma room_removeOrder: "room k mb \<Longrightarrow> keeps (room k) (mk_removeOrder p mb)"
  unfolding mk_removeOrder_def Let_def
  by (intro keeps_intros) (simp_all, auto simp: room_def dest: spare_deallocate)

lemma room_addOrdersAtPrice [simp]: "room k mb \<Longrightarrow> keeps (room k) (mk_addOrdersAtPrice p mb)"
  unfolding mk_addOrdersAtPrice_def Let_def by (intro keeps_intros) simp_all

lemma room_addOrder:
  assumes "spare k (mk_order_pool mb)" and "spare (Suc k) (mk_orders_at_price_pool mb)"
  shows "keeps (room k) (mk_addOrder p mb)"
proof -
  have "room k mb" using assms by (simp add: room_def spare_Suc)
  moreover have "spare k lp" if "allocate x (mk_orders_at_price_pool mb) = (n, lp)" for x n lp
    using spare_allocate [OF assms(2) that] .
  ultimately show ?thesis
    unfolding mk_addOrder_def Let_def by (intro keeps_intros) (auto simp: room_def)
qed

lemma bbo_addOrdersAtPrice [simp]: "same_bbo b mb \<Longrightarrow> keeps (same_bbo b) (mk_addOrdersAtPrice p mb)"
  unfolding mk_addOrdersAtPrice_def Let_def by (intro keeps_intros) simp_all

lemma bbo_addOrder: "same_bbo b mb \<Longrightarrow> keeps (same_bbo b) (mk_addOrder p mb)"
  unfolding mk_addOrder_def Let_def by (intro keeps_intros) simp_all

lemma bbo_kept:
  "mk_addOrder p mb = Inr mb' \<Longrightarrow> mk_bbo mb' = mk_bbo mb" "mk_removeOrder p mb = Inr mb' \<Longrightarrow> mk_bbo mb' = mk_bbo mb"
  using bbo_addOrder [of mb "mk_bbo mb" p] bbo_removeOrder [of mb "mk_bbo mb" p] by simp_all

text \<open>The change of the lists, before the best bid and offer are brought up to date.\<close>

definition change_book :: "MEMarketUpdate \<Rightarrow> MarketOrderBook \<Rightarrow> MarketOrderBook res" where
  "change_book u mb =
     (case upd_type u of
        Upd_ADD \<Rightarrow>
          (let (order, pool) =
             allocate \<lparr>mo_order_id = upd_order_id u, mo_side = upd_side u, mo_price = upd_price u, mo_qty = upd_qty u,
                       mo_priority = upd_priority u, mo_prev_order = None, mo_next_order = None\<rparr> (mk_order_pool mb)
           in mk_addOrder order (mb\<lparr>mk_order_pool := pool\<rparr>))
      | Upd_MODIFY \<Rightarrow>
          bindE (array_at (unat ME_MAX_ORDER_IDS) (oid_to_order mb) (unat (upd_order_id u))) (\<lambda>order.
          bindE (deref order) (\<lambda>i. Inr (upd_mord i (\<lambda>x. x\<lparr>mo_qty := upd_qty u\<rparr>) mb)))
      | Upd_CANCEL \<Rightarrow>
          bindE (array_at (unat ME_MAX_ORDER_IDS) (oid_to_order mb) (unat (upd_order_id u))) (\<lambda>order.
          mk_removeOrder order mb)
      | Upd_CLEAR \<Rightarrow> clear_book mb
      | _ \<Rightarrow> Inr mb)"

lemma change_book_refines:
  assumes rep: "represents (embed mb) pb" and takes: "takes_update u mb"
  shows "\<exists>mb'. change_book u mb = Inr mb' \<and> represents (embed mb') (mirror u pb) \<and> mk_bbo mb' = mk_bbo mb"
proof (cases "upd_type u")
  case Upd_ADD
  let ?x = "\<lparr>mo_order_id = upd_order_id u, mo_side = upd_side u, mo_price = upd_price u, mo_qty = upd_qty u,
    mo_priority = upd_priority u, mo_prev_order = None, mo_next_order = None\<rparr>"
  obtain p pool where ip: "allocate ?x (mk_order_pool mb) = (p, pool)" by (metis surj_pair)
  obtain mb' where "mk_addOrder p (mb\<lparr>mk_order_pool := pool\<rparr>) = Inr mb'"
    "represents (embed mb') (pb(upd_side u := spec_rest (order_of_update u) (pb (upd_side u))))"
    using mk_addOrder_refines [OF rep _ _ _ _ _ _ refl ip] takes Upd_ADD by (auto simp: takes_update_def)
  then show ?thesis using Upd_ADD ip bbo_kept(1) by (fastforce simp: change_book_def mirror_def)
next
  case Upd_MODIFY
  then obtain i where "oid_to_order mb (unat (upd_order_id u)) = Some i" "unat (upd_order_id u) < unat ME_MAX_ORDER_IDS"
    using takes by (auto simp: takes_update_def)
  then show ?thesis using upd_qty_refines [OF rep] Upd_MODIFY by (simp add: change_book_def mirror_def)
next
  case Upd_CANCEL
  then obtain i where i: "oid_to_order mb (unat (upd_order_id u)) = Some i" "unat (upd_order_id u) < unat ME_MAX_ORDER_IDS"
    using takes by (auto simp: takes_update_def)
  then show ?thesis
    using mk_removeOrder_refines [OF rep i] bbo_kept(2) [of "Some i" mb] Upd_CANCEL by (fastforce simp: change_book_def mirror_def)
qed (use takes rep in \<open>simp_all add: takes_update_def change_book_def mirror_def\<close>)

lemma spare_map_pool [simp]: "spare n (map_pool f p) = spare n p"
  by (simp add: spare_def)

lemma room_embed: "room n mb \<longleftrightarrow> spare n (order_pool (embed mb)) \<and> spare n (orders_at_price_pool (embed mb))"
  by (simp add: room_def)

lemma room_cong: "embed mb = embed mb' \<Longrightarrow> room n mb = room n mb'"
  by (metis room_embed)

definition adds :: "MEMarketUpdate list \<Rightarrow> nat" where
  "adds us = length (filter (\<lambda>u. upd_type u = Upd_ADD) us)"

lemma adds_simps [simp]:
  "adds [] = 0" "adds (u # us) = (if upd_type u = Upd_ADD then Suc (adds us) else adds us)"
  "adds (us @ vs) = adds us + adds vs"
  by (simp_all add: adds_def)

lemma room_change_book:
  assumes "room (adds [u] + n) mb" and "upd_type u \<noteq> Upd_CLEAR"
  shows "keeps (room n) (change_book u mb)"
proof (cases "upd_type u = Upd_ADD")
  case True
  have "spare n pool" if "allocate x (mk_order_pool mb) = (p, pool)" for x p pool
    using spare_allocate [OF _ that] assms(1) True by (simp add: room_def)
  then show ?thesis
    using assms(1) True by (auto simp: change_book_def room_def Let_def intro!: keeps_pair room_addOrder)
qed (use assms in \<open>cases "upd_type u"; auto simp: change_book_def intro!: keeps_bind room_removeOrder\<close>)

lemma onMarketUpdate_conv:
  assumes rep: "represents (embed mb) pb" and ty: "upd_type u \<noteq> Upd_TRADE"
  shows "onMarketUpdate u mb = bindE (change_book u mb) (\<lambda>mb. bindE (book_updateBBO (at_top BUY u pb) (at_top SELL u pb) mb)
      (\<lambda>mb. Inr (event_of u, mb)))"
proof -
  have b: "(case mk_bids_by_price mb of None \<Rightarrow> False
      | Some n \<Rightarrow> upd_side u = BUY \<and> upd_price u \<ge> ml_price (mlvl mb n)) = at_top BUY u pb"
    using head_price [OF rep, of BUY] by (auto simp: mk_best_def at_top_def at_least_as_good_def split: option.splits)
  have a: "(case mk_asks_by_price mb of None \<Rightarrow> False
      | Some n \<Rightarrow> upd_side u = SELL \<and> upd_price u \<le> ml_price (mlvl mb n)) = at_top SELL u pb"
    using head_price [OF rep, of SELL] by (auto simp: mk_best_def at_top_def at_least_as_good_def split: option.splits)
  show ?thesis unfolding onMarketUpdate_def b a using ty by (simp add: change_book_def event_of_def)
qed

lemma onMarketUpdate_refines:
  assumes rep: "represents (embed mb) pb" and takes: "takes_update u mb"
  shows "\<exists>mb'. onMarketUpdate u mb = Inr (event_of u, mb') \<and> represents (embed mb') (mirror u pb)
    \<and> (\<forall>s. book_side s \<longrightarrow> bbo_side s mb' =
         (if upd_type u \<noteq> Upd_TRADE \<and> at_top s u pb then top_of (mirror u pb s) else bbo_side s mb))
    \<and> (\<forall>n. room (adds [u] + n) mb \<longrightarrow> room n mb')"
proof (cases "upd_type u = Upd_TRADE")
  case True
  then show ?thesis using rep by (simp add: onMarketUpdate_def event_of_def mirror_def)
next
  case False
  obtain mb1 where mb1: "change_book u mb = Inr mb1" "represents (embed mb1) (mirror u pb)" "mk_bbo mb1 = mk_bbo mb"
    using change_book_refines [OF rep takes] by blast
  have same: "bbo_side s mb1 = bbo_side s mb" for s by (simp add: bbo_side_def mb1(3))
  have "upd_type u \<noteq> Upd_CLEAR" using takes by (auto simp: takes_update_def)
  then have rm: "room (adds [u] + n) mb \<Longrightarrow> room n mb1" for n using room_change_book [of u n mb] mb1(1) by simp
  obtain mb2 where mb2: "book_updateBBO (at_top BUY u pb) (at_top SELL u pb) mb1 = Inr mb2" "embed mb2 = embed mb1"
    "bbo_side BUY mb2 = (if at_top BUY u pb then top_of (mirror u pb BUY) else bbo_side BUY mb1)"
    "bbo_side SELL mb2 = (if at_top SELL u pb then top_of (mirror u pb SELL) else bbo_side SELL mb1)"
    using book_updateBBO_ok [OF mb1(2)] by blast
  have "onMarketUpdate u mb = Inr (event_of u, mb2)" using onMarketUpdate_conv [OF rep False] mb1(1) mb2(1) by simp
  then show ?thesis using mb1(2) mb2(2-4) False rm room_cong [OF mb2(2)] by (simp add: book_side_def same)
qed

section \<open>The updates of the exchange's book\<close>

text \<open>The mirror works on each side alone.\<close>

definition mirror_side :: "Side \<Rightarrow> MEMarketUpdate \<Rightarrow> MEOrder list \<Rightarrow> MEOrder list" where
  "mirror_side s u xs =
     (case upd_type u of
        Upd_ADD \<Rightarrow> if upd_side u = s then spec_rest (order_of_update u) xs else xs
      | Upd_MODIFY \<Rightarrow> map (\<lambda>x. if o_market_order_id x = upd_order_id u then x\<lparr>o_qty := upd_qty u\<rparr> else x) xs
      | Upd_CANCEL \<Rightarrow> filter (\<lambda>x. o_market_order_id x \<noteq> upd_order_id u) xs
      | Upd_CLEAR \<Rightarrow> []
      | _ \<Rightarrow> xs)"

lemma mirror_side_simps [simp]:
  "mirror_side s \<lparr>upd_type = Upd_TRADE, upd_order_id = m, upd_ticker_id = tid, upd_side = sd, upd_price = p, upd_qty = q, upd_priority = pr\<rparr> xs = xs"
  "mirror_side s \<lparr>upd_type = Upd_CANCEL, upd_order_id = m, upd_ticker_id = tid, upd_side = sd, upd_price = p, upd_qty = q, upd_priority = pr\<rparr> xs
     = filter (\<lambda>x. o_market_order_id x \<noteq> m) xs"
  "mirror_side s \<lparr>upd_type = Upd_MODIFY, upd_order_id = m, upd_ticker_id = tid, upd_side = sd, upd_price = p, upd_qty = q, upd_priority = pr\<rparr> xs
     = map (\<lambda>x. if o_market_order_id x = m then x\<lparr>o_qty := q\<rparr> else x) xs"
  by (simp_all add: mirror_side_def)

lemma mirror_conv: "mirror u pb s = mirror_side s u (pb s)"
  by (simp add: mirror_def mirror_side_def split: MarketUpdateType.splits)

lemma fold_mirror: "fold mirror us pb s = fold (mirror_side s) us (pb s)"
  by (induction us arbitrary: pb) (simp_all add: mirror_conv)

lemma public_simps [simp]:
  "o_market_order_id (public_order x) = o_market_order_id x" "o_price (public_order x) = o_price x"
  "o_side (public_order x) = o_side x" "o_qty (public_order x) = o_qty x"
  "public_order (x\<lparr>o_qty := q\<rparr>) = (public_order x)\<lparr>o_qty := q\<rparr>"
  by (simp_all add: public_order_def)

lemma public_rest: "map public_order (spec_rest x ys) = spec_rest (public_order x) (map public_order ys)"
  by (simp add: spec_rest_def Let_def takeWhile_map dropWhile_map o_def)

lemma updates_of_simps [simp]:
  "updates_of [] = []" "updates_of (cs @ ds) = updates_of cs @ updates_of ds"
  "updates_of (SendMarketUpdate u # cs) = u # updates_of cs" "updates_of (SendClientResponse r # cs) = updates_of cs"
  "updates_of (market_update ty m tid sd p q pr # cs) =
     \<lparr>upd_type = ty, upd_order_id = m, upd_ticker_id = tid, upd_side = sd, upd_price = p, upd_qty = q, upd_priority = pr\<rparr> # updates_of cs"
  "updates_of (accepted_response cid tid coid m sd p q # cs) = updates_of cs"
  "updates_of (cancel_rejected cid tid coid # cs) = updates_of cs" "updates_of (canceled_response cid tid coid x # cs) = updates_of cs"
  "updates_of (fill_calls tid cid sd coid m x f l) =
     [\<lparr>upd_type = Upd_TRADE, upd_order_id = OrderId_INVALID, upd_ticker_id = tid, upd_side = sd, upd_price = o_price x, upd_qty = f,
       upd_priority = Priority_INVALID\<rparr>]"
  by (simp_all add: updates_of_def market_update_def accepted_response_def cancel_rejected_def canceled_response_def
      fill_calls_def filled_response_def)

text \<open>The market order ids in use: each once, below the next one, and the client's ids name one order.\<close>

definition ids_ok :: "OrderId \<Rightarrow> spec_book \<Rightarrow> bool" where
  "ids_ok moid bk \<longleftrightarrow> distinct (map o_market_order_id (bk BUY @ bk SELL))
     \<and> (\<forall>s. book_side s \<longrightarrow> (\<forall>x \<in> set (bk s). unat (o_market_order_id x) < unat moid \<and> o_side x = s))
     \<and> (\<forall>s t x y. book_side s \<longrightarrow> book_side t \<longrightarrow> x \<in> set (bk s) \<longrightarrow> y \<in> set (bk t) \<longrightarrow>
          has_ids (o_client_id x) (o_client_order_id x) y \<longrightarrow> o_market_order_id x = o_market_order_id y)"

text \<open>What the abstract mirror needs to follow an update.\<close>

definition list_free :: "Side \<Rightarrow> Price \<Rightarrow> spec_book \<Rightarrow> bool" where
  "list_free s p pb \<longleftrightarrow> (\<forall>t x. book_side t \<longrightarrow> x \<in> set (pb t) \<longrightarrow> pidx (o_price x) = pidx p \<longrightarrow> o_price x = p \<and> t = s)"

definition in_mirror :: "OrderId \<Rightarrow> spec_book \<Rightarrow> bool" where
  "in_mirror d pb \<longleftrightarrow> (\<exists>s. book_side s \<and> d \<in> o_market_order_id ` set (pb s))"

definition can_mirror :: "MEMarketUpdate \<Rightarrow> spec_book \<Rightarrow> bool" where
  "can_mirror u pb \<longleftrightarrow>
     (case upd_type u of
        Upd_ADD \<Rightarrow> book_side (upd_side u) \<and> unat (upd_order_id u) < unat ME_MAX_ORDER_IDS
          \<and> \<not> in_mirror (upd_order_id u) pb \<and> list_free (upd_side u) (upd_price u) pb
      | Upd_MODIFY \<Rightarrow> in_mirror (upd_order_id u) pb
      | Upd_CANCEL \<Rightarrow> in_mirror (upd_order_id u) pb
      | Upd_CLEAR \<Rightarrow> False
      | _ \<Rightarrow> True)"

lemma in_side_orders: "(n, is) \<in> set (sh s) \<Longrightarrow> i \<in> set is \<Longrightarrow> erase (ord ob i) \<in> set (side_orders ob sh s)"
  by (force simp: side_orders_def)

lemma takes_updateI:
  assumes rep: "represents (embed mb) pb" and cm: "can_mirror u pb" and rm: "upd_type u = Upd_ADD \<Longrightarrow> room (Suc n) mb"
  shows "takes_update u mb"
proof -
  obtain sh where ok: "book_ok (embed mb) sh" and so: "\<And>s. book_side s \<Longrightarrow> side_orders (embed mb) sh s = pb s"
    using rep by (auto simp: represents_def)
  have tab: "tables_ok (embed mb) sh" using ok by (simp add: book_ok_def)
  have present: "unat d < unat ME_MAX_ORDER_IDS \<and> oid_to_order mb (unat d) \<noteq> None"
    if "book_side s" "d \<in> o_market_order_id ` set (pb s)" for s d
  proof -
    note prem = that
    obtain x where "x \<in> set (pb s)" and id: "o_market_order_id x = d" using prem(2) by auto
    then have "x \<in> set (side_orders (embed mb) sh s)" using so [OF that(1)] by simp
    note x = this id
    then obtain n "is" k where k: "(n, is) \<in> set (sh s)" "k \<in> set is" "x = erase (ord (embed mb) k)"
      by (auto simp: side_orders_def)
    show ?thesis using book_ok_order [OF ok that(1) k(1,2)] x(2) k(3) by (auto simp: order_ok_def erase_def)
  qed
  show ?thesis
  proof (cases "upd_type u")
    case Upd_ADD
    have "oid_to_order mb (unat (upd_order_id u)) = None"
    proof (rule ccontr)
      assume "oid_to_order mb (unat (upd_order_id u)) \<noteq> None"
      then obtain i where "cid_oid_to_order (embed mb) 0 (unat (upd_order_id u)) = Some i" by auto
      moreover have "0 < ME_MAX_NUM_CLIENTS" "unat (upd_order_id u) < unat ME_MAX_ORDER_IDS"
        using cm Upd_ADD by (simp_all add: ME_MAX_NUM_CLIENTS_def can_mirror_def)
      ultimately obtain s n "is" where i: "book_side s" "(n, is) \<in> set (sh s)" "i \<in> set is"
        "unat (o_client_order_id (ord (embed mb) i)) = unat (upd_order_id u)"
        using tab unfolding tables_ok_def by blast
      have "erase (ord (embed mb) i) \<in> set (pb s)" using in_side_orders [where sh = sh, OF i(2,3)] so [OF i(1)] by metis
      moreover have "o_market_order_id (erase (ord (embed mb) i)) = upd_order_id u"
        using i(4) by (simp add: word_unat_eq_iff)
      ultimately show False using cm Upd_ADD i(1) unfolding can_mirror_def in_mirror_def by (force simp del: embed_read)
    qed
    moreover have "price_free (upd_side u) (upd_price u) (embed mb)"
      unfolding price_free_def
    proof (intro allI impI)
      fix n assume n: "price_orders_at_price (embed mb) (pidx (upd_price u)) = Some n"
      then obtain t "is" where t: "book_side t" "(n, is) \<in> set (sh t)" "pidx (lprice (embed mb) n) = pidx (upd_price u)"
        using tab unfolding tables_ok_def by blast
      have lo: "level_ok (embed mb) t n is" using book_ok_level [OF ok t(1,2)] .
      then obtain i where i: "i \<in> set is" by (cases "is") (auto simp: level_ok_def)
      have "erase (ord (embed mb) i) \<in> set (pb t)" using in_side_orders [where sh = sh, OF t(2) i] so [OF t(1)] by metis
      moreover have "o_price (erase (ord (embed mb) i)) = lprice (embed mb) n"
        using lo i by (simp add: level_ok_def order_ok_def erase_def)
      ultimately have "lprice (embed mb) n = upd_price u \<and> t = upd_side u"
        using cm Upd_ADD t by (force simp: can_mirror_def list_free_def simp del: embed_read)
      then show "lprice (embed mb) n = upd_price u \<and> l_side (lvl (embed mb) n) = upd_side u"
        using lo by (simp add: level_ok_def)
    qed
    ultimately show ?thesis using cm spare_Suc(2) [of n "mk_order_pool mb"] spare_Suc(2) [of n "mk_orders_at_price_pool mb"] rm Upd_ADD
      by (simp add: can_mirror_def takes_update_def room_def)
  qed (use cm present in \<open>auto simp: can_mirror_def in_mirror_def takes_update_def\<close>)
qed

fun can_mirror_all :: "MEMarketUpdate list \<Rightarrow> spec_book \<Rightarrow> bool" where
  "can_mirror_all [] pb \<longleftrightarrow> True"
| "can_mirror_all (u # us) pb \<longleftrightarrow> can_mirror u pb \<and> can_mirror_all us (mirror u pb)"

lemma can_mirror_all_append: "can_mirror_all (us @ vs) pb \<longleftrightarrow> can_mirror_all us pb \<and> can_mirror_all vs (fold mirror us pb)"
  by (induction us arbitrary: pb) auto

definition market_step :: "MEMarketUpdate \<Rightarrow> MarketOrderBook \<Rightarrow> MarketOrderBook res" where
  "market_step u mb = bindE (onMarketUpdate u mb) (\<lambda>(e, mb). Inr mb)"

text \<open>The best bid and offer of a side after a list of updates.\<close>

fun track_bbo :: "Side \<Rightarrow> MEMarketUpdate list \<Rightarrow> spec_book \<Rightarrow> Price \<times> Qty \<Rightarrow> Price \<times> Qty" where
  "track_bbo s [] pb b = b"
| "track_bbo s (u # us) pb b =
     track_bbo s us (mirror u pb) (if upd_type u \<noteq> Upd_TRADE \<and> at_top s u pb then top_of (mirror u pb s) else b)"

lemma mirror_steps:
  assumes "represents (embed mb) pb" and "can_mirror_all us pb" and "room (adds us + n) mb"
  shows "\<exists>mb'. foldE market_step us mb = Inr mb' \<and> represents (embed mb') (fold mirror us pb) \<and> room n mb'
    \<and> (\<forall>s. book_side s \<longrightarrow> bbo_side s mb' = track_bbo s us pb (bbo_side s mb))"
  using assms
proof (induction us arbitrary: mb pb)
  case (Cons u us)
  have "takes_update u mb"
    by (rule takes_updateI [OF Cons.prems(1)]) (use Cons.prems(2,3) in auto)
  then obtain mb1 where mb1: "onMarketUpdate u mb = Inr (event_of u, mb1)" "represents (embed mb1) (mirror u pb)"
    "\<forall>k. room (adds [u] + k) mb \<longrightarrow> room k mb1"
    "\<forall>s. book_side s \<longrightarrow> bbo_side s mb1 =
       (if upd_type u \<noteq> Upd_TRADE \<and> at_top s u pb then top_of (mirror u pb s) else bbo_side s mb)"
    using onMarketUpdate_refines [OF Cons.prems(1)] by blast
  have "room (adds us + n) mb1" by (rule mb1(3) [rule_format]) (use Cons.prems(3) in \<open>simp split: if_splits\<close>)
  then obtain mb' where mb': "foldE market_step us mb1 = Inr mb'" "represents (embed mb') (fold mirror us (mirror u pb))"
    "room n mb'" "\<forall>s. book_side s \<longrightarrow> bbo_side s mb' = track_bbo s us (mirror u pb) (bbo_side s mb1)"
    using Cons.IH [OF mb1(2)] Cons.prems(2) by auto
  have "foldE market_step (u # us) mb = Inr mb'" using mb1(1) mb'(1) by (simp add: market_step_def [of u mb])
  moreover have "\<forall>s. book_side s \<longrightarrow> bbo_side s mb' = track_bbo s (u # us) pb (bbo_side s mb)"
    using mb'(4) mb1(4) by simp
  ultimately show ?case using mb'(2,3) by auto
qed simp

text \<open>Matching: the other side's list follows, a list without these orders stays.\<close>

definition unsized :: "MEOrder \<Rightarrow> MEOrder" where "unsized x = x\<lparr>o_qty := 0\<rparr>"

lemma match_rest:
  assumes "spec_match tid cid side coid moid price leaves xs = (cs, l, rest)"
  shows "\<exists>k. map unsized rest = drop k (map unsized xs)"
  using assms
proof (induction xs arbitrary: leaves cs)
  case (Cons x xs)
  show ?case
  proof (cases "leaves = 0 \<or> \<not> crosses side price (o_price x)")
    case True
    then show ?thesis using Cons.prems by (intro exI [of _ 0]) (auto split: if_splits)
  next
    case False
    show ?thesis
    proof (cases "o_qty x \<le> leaves")
      case True
      obtain cs' where "spec_match tid cid side coid moid price (leaves - o_qty x) xs = (cs', l, rest)"
        using Cons.prems False True by (auto simp: Let_def split: prod.splits)
      from Cons.IH [OF this] obtain k where "map unsized rest = drop k (map unsized xs)" by blast
      then show ?thesis by (intro exI [of _ "Suc k"]) simp
    next
      case False
      then show ?thesis using Cons.prems \<open>\<not> (leaves = 0 \<or> \<not> crosses side price (o_price x))\<close>
        by (intro exI [of _ 0]) (auto simp: unsized_def)
    qed
  qed
qed simp

lemma filter_public_ne: "d \<notin> o_market_order_id ` set ys \<Longrightarrow> filter (\<lambda>x. o_market_order_id x \<noteq> d) (map public_order ys) = map public_order ys"
  by (force simp: filter_id_conv)

lemma map_public_ne: "d \<notin> o_market_order_id ` set ys \<Longrightarrow>
    map (\<lambda>x. if o_market_order_id x = d then g x else x) (map public_order ys) = map public_order ys"
  by (induction ys) auto

lemma match_mirror:
  assumes "spec_match tid cid side coid moid price leaves xs = (cs, l, rest)" and "distinct (map o_market_order_id xs)"
  shows "fold (mirror_side s) (updates_of cs) (map public_order xs) = map public_order rest"
  using assms
proof (induction xs arbitrary: leaves cs)
  case (Cons x xs)
  have x: "o_market_order_id x \<notin> o_market_order_id ` set xs" using Cons.prems(2) by simp
  show ?case
    using Cons x by (auto simp: filter_public_ne map_public_ne Let_def split: if_splits prod.splits simp del: map_map)
qed simp

lemma match_mirror_other:
  assumes "spec_match tid cid side coid moid price leaves xs = (cs, l, rest)"
    and "o_market_order_id ` set ys \<inter> o_market_order_id ` set xs = {}"
  shows "fold (mirror_side s) (updates_of cs) (map public_order ys) = map public_order ys"
  using assms
proof (induction xs arbitrary: leaves cs)
  case (Cons x xs)
  have x: "o_market_order_id x \<notin> o_market_order_id ` set ys" using Cons.prems(2) by auto
  show ?case
    using Cons x by (auto simp: filter_public_ne map_public_ne Let_def split: if_splits prod.splits simp del: map_map)
qed simp

lemma match_no_add:
  "spec_match tid cid side coid moid price leaves xs = (cs, l, rest) \<Longrightarrow> \<forall>u \<in> set (updates_of cs). upd_type u \<noteq> Upd_ADD"
  by (induction xs arbitrary: leaves cs) (auto simp: Let_def split: if_splits prod.splits)

lemma match_can_mirror:
  assumes "spec_match tid cid side coid moid price leaves xs = (cs, l, rest)" and "distinct (map o_market_order_id xs)"
    and "book_side t" and "pb t = map public_order xs"
  shows "can_mirror_all (updates_of cs) pb"
  using assms
proof (induction xs arbitrary: leaves cs pb)
  case (Cons x xs)
  have x: "o_market_order_id x \<notin> o_market_order_id ` set xs" using Cons.prems(2) by simp
  have mem: "in_mirror (o_market_order_id x) pb"
    unfolding in_mirror_def using Cons.prems(3,4) by (intro exI [of _ t]) simp
  let ?c = "\<lparr>upd_type = Upd_CANCEL, upd_order_id = o_market_order_id x, upd_ticker_id = tid, upd_side = o_side x, upd_price = o_price x,
    upd_qty = o_qty x, upd_priority = Priority_INVALID\<rparr>"
  have "mirror ?c pb t = map public_order xs"
    using Cons.prems(4) x by (simp add: mirror_def filter_public_ne)
  note ih = Cons.IH [of "leaves - o_qty x" _ "mirror ?c pb", OF _ _ Cons.prems(3) this]
  have tr: "mirror \<lparr>upd_type = Upd_TRADE, upd_order_id = a, upd_ticker_id = b, upd_side = c, upd_price = d, upd_qty = e, upd_priority = f\<rparr> pb = pb"
    for a b c d e f by (simp add: mirror_def)
  show ?case
    using Cons.prems(1,2) ih mem
    by (auto simp: can_mirror_def tr Let_def split: if_splits prod.splits)
qed simp

lemma match_rest_field:
  assumes "spec_match tid cid side coid moid price leaves xs = (cs, l, rest)" and "\<And>x. f (unsized x) = f x"
  shows "\<exists>k. map f rest = drop k (map f xs)"
proof -
  obtain k where "map unsized rest = drop k (map unsized xs)" using match_rest [OF assms(1)] by blast
  then have "map f (map unsized rest) = drop k (map f (map unsized xs))" by (simp add: drop_map)
  then show ?thesis using assms(2) by (auto simp: o_def)
qed

lemma match_rest_mem:
  assumes "spec_match tid cid side coid moid price leaves xs = (cs, l, rest)" and "y \<in> set rest"
  shows "\<exists>x \<in> set xs. unsized y = unsized x"
proof -
  obtain k where "map unsized rest = drop k (map unsized xs)" using match_rest [OF assms(1)] by blast
  then have "unsized y \<in> set (drop k (map unsized xs))" using assms(2) by (metis image_eqI list.set_map)
  then show ?thesis using in_set_dropD by fastforce
qed

lemma unsized_fields:
  "unsized x = unsized y \<Longrightarrow> o_market_order_id x = o_market_order_id y \<and> o_price x = o_price y \<and> o_side x = o_side y
     \<and> o_client_id x = o_client_id y \<and> o_client_order_id x = o_client_order_id y"
  unfolding unsized_def by (cases x; cases y) simp

text \<open>What the rest of a matched side has in common with the side.\<close>

lemma rest_facts:
  assumes m: "spec_match tid cid side coid moid price leaves xs = (cs, l, rest)" and s: "book_side side"
    and sd: "sorted_wrt (\<lambda>x y. at_least_as_good (other side) (o_price x) (o_price y)) xs"
  shows "distinct (map o_market_order_id xs) \<Longrightarrow> distinct (map o_market_order_id rest)"
    and "l \<noteq> 0 \<Longrightarrow> y \<in> set rest \<Longrightarrow> o_price y \<noteq> price"
proof -
  have "o_market_order_id (unsized x) = o_market_order_id x" "o_price (unsized x) = o_price x" for x
    by (simp_all add: unsized_def)
  then obtain j k where j: "map o_market_order_id rest = drop j (map o_market_order_id xs)"
    and k: "map o_price rest = drop k (map o_price xs)"
    using match_rest_field [OF m] by metis
  show "distinct (map o_market_order_id xs) \<Longrightarrow> distinct (map o_market_order_id rest)"
    unfolding j by (rule distinct_drop)
  show "o_price y \<noteq> price" if l: "l \<noteq> 0" and y: "y \<in> set rest"
  proof
    assume p: "o_price y = price"
    have "sorted_wrt (at_least_as_good (other side)) (map o_price xs)" using sd by (simp add: sorted_wrt_map)
    then have "sorted_wrt (at_least_as_good (other side)) (map o_price rest)" unfolding k by (rule sorted_wrt_drop)
    then have "at_least_as_good (other side) (o_price (hd rest)) price"
      using y p by (cases rest) (auto simp: at_least_as_good_def)
    then have "crosses side price (o_price (hd rest))" using crosses_mono [OF crosses_self _ s] by blast
    then show False using spec_match_stops [OF m l] y by auto
  qed
qed

lemma ids_okD:
  assumes "ids_ok moid bk" "book_side s" "x \<in> set (bk s)"
  shows "unat (o_market_order_id x) < unat moid" "o_side x = s" "distinct (map o_market_order_id (bk s))"
  using assms by (auto simp: ids_ok_def book_side_def)

lemma ids_disjoint: "ids_ok moid bk \<Longrightarrow> book_side s \<Longrightarrow> o_market_order_id ` set (bk s) \<inter> o_market_order_id ` set (bk (other s)) = {}"
  by (auto simp: ids_ok_def book_side_def other_def)

lemma distinct_other:
  assumes "book_side s" "distinct (map o_market_order_id (bk s @ bk (other s)))"
  shows "distinct (map o_market_order_id (bk BUY @ bk SELL))"
  using assms by (cases "s = BUY") (simp_all add: book_side_def other_def Int_commute conj_ac)

lemma side_or_other: "book_side s \<Longrightarrow> book_side t \<Longrightarrow> t = s \<or> t = other s"
  by (auto simp: book_side_def other_def)

lemma mset_spec_rest: "mset (spec_rest x ys) = add_mset x (mset ys)"
proof -
  let ?P = "\<lambda>y. at_least_as_good (o_side x) (o_price y) (o_price x)"
  have "mset ys = mset (takeWhile ?P ys) + mset (dropWhile ?P ys)"
    by (simp only: mset_append [symmetric] takeWhile_dropWhile_id)
  then show ?thesis by (simp add: spec_rest_def Let_def)
qed

lemma set_of_rest: "set (spec_rest x ys) = insert x (set ys)"
  using mset_spec_rest [of x ys] by (metis set_mset_add_mset_insert set_mset_mset)

lemma distinct_spec_rest: "distinct (map o_market_order_id (spec_rest x ys)) \<longleftrightarrow>
    o_market_order_id x \<notin> o_market_order_id ` set ys \<and> distinct (map o_market_order_id ys)"
proof -
  have "mset (map o_market_order_id (spec_rest x ys)) = mset (map o_market_order_id (x # ys))"
    by (simp add: mset_spec_rest)
  then have "distinct (map o_market_order_id (spec_rest x ys)) = distinct (map o_market_order_id (x # ys))"
    by (rule mset_eq_imp_distinct_iff)
  then show ?thesis by simp
qed

lemma matched_ids:
  assumes ids: "ids_ok moid bk" and s: "book_side side"
    and m: "spec_match tid cid side coid m price qty (bk (other side)) = (cs, l, rest)"
    and sd: "sorted_wrt (\<lambda>x y. at_least_as_good (other side) (o_price x) (o_price y)) (bk (other side))"
  shows "ids_ok moid (bk(other side := rest))"
proof -
  let ?bk = "bk(other side := rest)"
  have orig: "\<exists>x \<in> set (bk t). unsized y = unsized x" if "y \<in> set (?bk t)" for y t
    using that match_rest_mem [OF m] by (auto split: if_splits)
  have "distinct (map o_market_order_id (?bk side @ ?bk (other side)))"
  proof -
    have "distinct (map o_market_order_id (bk side))" "distinct (map o_market_order_id (bk (other side)))"
      using ids s by (auto simp: ids_ok_def book_side_def other_def)
    moreover have "o_market_order_id ` set rest \<subseteq> o_market_order_id ` set (bk (other side))"
    proof
      fix d assume "d \<in> o_market_order_id ` set rest"
      then obtain y where y: "y \<in> set rest" "d = o_market_order_id y" by blast
      then obtain x where "x \<in> set (bk (other side))" "unsized y = unsized x" using match_rest_mem [OF m] by blast
      then show "d \<in> o_market_order_id ` set (bk (other side))" using y(2) unsized_fields [of y x] by auto
    qed
    ultimately show ?thesis
      using rest_facts(1) [OF m s sd] ids_disjoint [OF ids s] by auto
  qed
  then have "distinct (map o_market_order_id (?bk BUY @ ?bk SELL))" by (rule distinct_other [OF s])
  moreover have "unat (o_market_order_id y) < unat moid \<and> o_side y = t" if "book_side t" "y \<in> set (?bk t)" for t y
    using orig [OF that(2)] unsized_fields ids_okD(1,2) [OF ids that(1)] by metis
  moreover have "o_market_order_id x = o_market_order_id y"
    if "book_side s" "book_side t" "x \<in> set (?bk s)" "y \<in> set (?bk t)" "has_ids (o_client_id x) (o_client_order_id x) y" for s t x y
  proof -
    note prem = that
    obtain x0 y0 where "x0 \<in> set (bk s)" "unsized x = unsized x0" "y0 \<in> set (bk t)" "unsized y = unsized y0"
      using orig prem(3,4) by metis
    then show ?thesis using ids prem(1,2,5) unsized_fields unfolding ids_ok_def has_ids_def by metis
  qed
  ultimately show ?thesis unfolding ids_ok_def by blast
qed

text \<open>The price shares its table entry with no other price of the book.\<close>

definition list_unique :: "Price \<Rightarrow> spec_book \<Rightarrow> bool" where
  "list_unique p bk \<longleftrightarrow> (\<forall>t x. book_side t \<longrightarrow> x \<in> set (bk t) \<longrightarrow> pidx (o_price x) = pidx p \<longrightarrow> o_price x = p)"

definition sorted_book :: "spec_book \<Rightarrow> bool" where
  "sorted_book bk \<longleftrightarrow> (\<forall>s. book_side s \<longrightarrow> sorted_wrt (\<lambda>x y. at_least_as_good s (o_price x) (o_price y)) (bk s))"

lemma next_id: "unat (moid :: OrderId) < unat ME_MAX_ORDER_IDS \<Longrightarrow> unat (moid + 1) = Suc (unat moid)"
  using unat_Suc [of moid] by (auto simp: ME_MAX_ORDER_IDS_def)

lemma ids_ok_next: "ids_ok moid bk \<Longrightarrow> unat moid < unat ME_MAX_ORDER_IDS \<Longrightarrow> ids_ok (moid + 1) bk"
  unfolding ids_ok_def next_id by (metis less_SucI)

lemma ids_ok_rest:
  assumes ids: "ids_ok moid bk" and s: "book_side side" and small: "unat moid < unat ME_MAX_ORDER_IDS"
    and x: "o_market_order_id x = moid" "o_side x = side"
    and fresh: "\<And>t y. book_side t \<Longrightarrow> y \<in> set (bk t) \<Longrightarrow> \<not> has_ids (o_client_id x) (o_client_order_id x) y"
  shows "ids_ok (moid + 1) (bk(side := spec_rest x (bk side)))"
proof -
  let ?bk = "bk(side := spec_rest x (bk side))"
  have old: "y = x \<or> y \<in> set (bk t)" if "y \<in> set (?bk t)" for y t
    using that by (auto simp: set_of_rest split: if_splits)
  have lt: "moid \<notin> o_market_order_id ` set (bk t)" if "book_side t" for t
    using ids_okD(1) [OF ids that] by auto
  have "distinct (map o_market_order_id (?bk side @ ?bk (other side)))"
    using ids_disjoint [OF ids s] lt [OF s] lt [OF book_side_simps(3), of side] ids s x(1)
    by (auto simp: distinct_spec_rest set_of_rest ids_ok_def book_side_def other_def)
  then have "distinct (map o_market_order_id (?bk BUY @ ?bk SELL))" by (rule distinct_other [OF s])
  moreover have "unat (o_market_order_id y) < unat (moid + 1) \<and> o_side y = t" if "book_side t" "y \<in> set (?bk t)" for t y
    using that ids_okD(1,2) [OF ids that(1)] x by (auto simp: next_id [OF small] set_of_rest less_SucI split: if_splits)
  moreover have "o_market_order_id y = o_market_order_id z"
    if "book_side s" "book_side t" "y \<in> set (?bk s)" "z \<in> set (?bk t)" "has_ids (o_client_id y) (o_client_order_id y) z" for s t y z
  proof (cases "y = x \<or> z = x")
    case True
    then show ?thesis
      using old [OF that(3)] old [OF that(4)] fresh [OF that(1), of y] fresh [OF that(2), of z] that(5)
      unfolding has_ids_def by metis
  next
    case False
    then show ?thesis
      using old [OF that(3)] old [OF that(4)] ids that(1,2,5) unfolding ids_ok_def by blast
  qed
  ultimately show ?thesis unfolding ids_ok_def by blast
qed

lemma spec_find_fresh:
  "spec_find cid coid bk = None \<Longrightarrow> book_side t \<Longrightarrow> y \<in> set (bk t) \<Longrightarrow> \<not> has_ids cid coid y"
  by (auto simp: spec_find_def find_None_iff book_side_def)

lemma add_mirror:
  assumes ids: "ids_ok moid bk" and s: "book_side side" and small: "unat moid < unat ME_MAX_ORDER_IDS"
    and sp: "spec_add cid coid tid side price qty moid bk = (cs, bk')"
    and fresh: "spec_find cid coid bk = None" and uniq: "list_unique price bk" and sd: "sorted_book bk"
  shows "can_mirror_all (updates_of cs) (public_book bk)
    \<and> (\<forall>t. book_side t \<longrightarrow> fold mirror (updates_of cs) (public_book bk) t = public_book bk' t)
    \<and> adds (updates_of cs) \<le> 1 \<and> ids_ok (moid + 1) bk'"
proof -
  obtain ms l rest where m: "spec_match tid cid side coid (fill_id moid) price qty (bk (other side)) = (ms, l, rest)"
    by (metis prod_cases3)
  have so: "sorted_wrt (\<lambda>x y. at_least_as_good (other side) (o_price x) (o_price y)) (bk (other side))"
    using sd by (simp add: sorted_book_def)
  have d: "distinct (map o_market_order_id (bk (other side)))" using ids s by (auto simp: ids_ok_def book_side_def other_def)
  have mo: "fold mirror (updates_of ms) (public_book bk) (other side) = map public_order rest"
    unfolding fold_mirror public_book_def by (rule match_mirror [OF m d])
  have ms: "fold mirror (updates_of ms) (public_book bk) side = map public_order (bk side)"
    unfolding fold_mirror public_book_def by (rule match_mirror_other [OF m ids_disjoint [OF ids s]])
  have cm: "can_mirror_all (updates_of ms) (public_book bk)"
    by (rule match_can_mirror [OF m d book_side_simps(3)]) (simp add: public_book_def)
  have na: "adds (updates_of ms) = 0" using match_no_add [OF m] by (simp add: adds_def filter_False)
  have ids1: "ids_ok moid (bk(other side := rest))" by (rule matched_ids [OF ids s m so])
  show ?thesis
  proof (cases "l = 0")
    case True
    then have "cs = accepted_response cid tid coid moid side price qty # ms" "bk' = bk(other side := rest)"
      using sp m by (simp_all add: spec_add_def)
    then show ?thesis
      using mo ms cm na ids_ok_next [OF ids1 small] side_or_other [OF s] by (auto simp: public_book_def)
  next
    case False
    define x where "x = spec_order cid coid tid side price moid l (spec_priority price (bk side))"
    let ?bk1 = "bk(other side := rest)"
    have bk': "bk' = ?bk1(side := spec_rest x (?bk1 side))" and cs: "cs = accepted_response cid tid coid moid side price qty # ms
        @ [market_update Upd_ADD moid tid side price l (spec_priority price (bk side))]"
      using sp m False s by (auto simp: spec_add_def x_def Let_def other_def)
    let ?u = "\<lparr>upd_type = Upd_ADD, upd_order_id = moid, upd_ticker_id = tid, upd_side = side, upd_price = price, upd_qty = l,
      upd_priority = spec_priority price (bk side)\<rparr>"
    let ?pb = "fold mirror (updates_of ms) (public_book bk)"
    have pb: "?pb t = map public_order (?bk1 t)" if "book_side t" for t
      using mo ms side_or_other [OF s that] by auto
    have ou: "order_of_update ?u = public_order x" by (simp add: order_of_update_def public_order_def x_def spec_order_def)
    have rest_in: "\<exists>z \<in> set (bk t). unsized y = unsized z" if "y \<in> set (?bk1 t)" for y t
      using that match_rest_mem [OF m] by (auto split: if_splits)
    have "can_mirror ?u ?pb"
    proof -
      have "\<not> in_mirror moid ?pb" using pb ids_okD(1) [OF ids1] by (force simp: in_mirror_def)
      moreover have "o_price y = price \<and> t = side"
        if "book_side t" "y \<in> set (?pb t)" "pidx (o_price y) = pidx price" for t y
      proof -
        note prem = that
        obtain z where z: "z \<in> set (?bk1 t)" "y = public_order z" using prem(2) pb [OF prem(1)] by auto
        obtain w where "w \<in> set (bk t)" "unsized z = unsized w" using rest_in [OF z(1)] by blast
        then have p: "o_price y = price" using uniq prem(1,3) z(2) unsized_fields [of z w] by (auto simp: list_unique_def)
        moreover have "t \<noteq> other side" using rest_facts(2) [OF m s so False, of z] z p by auto
        ultimately show ?thesis using side_or_other [OF s prem(1)] by blast
      qed
      ultimately show ?thesis using s small by (simp add: can_mirror_def list_free_def)
    qed
    then have "can_mirror_all (updates_of cs) (public_book bk)" using cm by (simp add: cs can_mirror_all_append)
    moreover have "fold mirror (updates_of cs) (public_book bk) t = public_book bk' t" if t: "book_side t" for t
      using pb [OF t] pb [OF s] by (simp add: cs mirror_def ou public_book_def bk' public_rest)
    moreover have "adds (updates_of cs) \<le> 1" using na by (simp add: cs)
    moreover have "ids_ok (moid + 1) bk'" unfolding bk'
    proof (rule ids_ok_rest [OF ids1 s small])
      fix t y assume t: "book_side t" and y: "y \<in> set (?bk1 t)"
      obtain w where "w \<in> set (bk t)" "unsized y = unsized w" using rest_in [OF y] by blast
      then have "\<not> has_ids cid coid y" using spec_find_fresh [OF fresh t, of w] unsized_fields [of y w] by (auto simp: has_ids_def)
      then show "\<not> has_ids (o_client_id x) (o_client_order_id x) y" by (simp add: x_def spec_order_def)
    qed (simp_all add: x_def spec_order_def)
    ultimately show ?thesis by blast
  qed
qed

lemma cancel_mirror:
  assumes ids: "ids_ok moid bk"
  shows "can_mirror_all (updates_of (spec_cancel_calls cid coid tid bk)) (public_book bk)
    \<and> (\<forall>t. book_side t \<longrightarrow>
          fold mirror (updates_of (spec_cancel_calls cid coid tid bk)) (public_book bk) t = public_book (spec_cancel cid coid bk) t)
    \<and> adds (updates_of (spec_cancel_calls cid coid tid bk)) = 0 \<and> ids_ok moid (spec_cancel cid coid bk)"
proof -
  have io: "ids_ok moid (spec_cancel cid coid bk)"
    using ids by (auto simp: ids_ok_def spec_cancel_def distinct_map_filter)
  show ?thesis
  proof (cases "spec_find cid coid bk")
    case None
    then have "spec_cancel cid coid bk t = bk t" if "book_side t" for t
      using spec_find_fresh [OF None that] by (auto simp: spec_cancel_def filter_id_conv)
    then show ?thesis using None io by (simp add: spec_cancel_calls_def public_book_def)
  next
    case (Some x)
    then have "x \<in> set (bk BUY @ bk SELL)" and hx: "has_ids cid coid x"
      unfolding spec_find_def by (metis find_Some_iff nth_mem)+
    then obtain s where s: "book_side s" "x \<in> set (bk s)" by (auto simp: book_side_def)
    have same: "has_ids cid coid y \<longleftrightarrow> o_market_order_id y = o_market_order_id x" if t: "book_side t" "y \<in> set (bk t)" for t y
    proof
      assume "has_ids cid coid y"
      then have "has_ids (o_client_id y) (o_client_order_id y) x" using hx by (simp add: has_ids_def)
      then show "o_market_order_id y = o_market_order_id x" using ids t s unfolding ids_ok_def by blast
    next
      assume e: "o_market_order_id y = o_market_order_id x"
      have "distinct (map o_market_order_id (bk s))" using ids_okD(3) [OF ids s] .
      then have "t = s \<Longrightarrow> y = x" using t(2) s(2) e by (simp add: distinct_map inj_on_def)
      moreover have "t \<noteq> other s" using ids_disjoint [OF ids s(1)] e t(2) s(2) by force
      ultimately show "has_ids cid coid y" using side_or_other [OF s(1) t(1)] hx by auto
    qed
    have mem: "in_mirror (o_market_order_id x) (public_book bk)"
      unfolding in_mirror_def using s by (intro exI [of _ s]) (simp add: public_book_def image_image)
    have "filter (\<lambda>y. o_market_order_id y \<noteq> o_market_order_id x) (map public_order (bk t))
        = map public_order (filter (\<lambda>y. \<not> has_ids cid coid y) (bk t))" if "book_side t" for t
      using same [OF that] by (auto simp: filter_map o_def intro!: arg_cong [where f = "map public_order"] filter_cong)
    then show ?thesis
      using Some io mem by (simp add: spec_cancel_calls_def can_mirror_def mirror_conv public_book_def spec_cancel_def)
  qed
qed

text \<open>What a represented book says about its lists.\<close>

lemma represents_sorted_book: "represents ob bk \<Longrightarrow> sorted_book bk"
  using side_orders_prices by (fastforce simp: represents_def sorted_book_def)

lemma represents_list_unique:
  assumes rep: "represents ob bk" and u: "price_unique p ob"
  shows "list_unique p bk"
proof -
  obtain sh where ok: "book_ok ob sh" and so: "\<And>s. book_side s \<Longrightarrow> side_orders ob sh s = bk s"
    using rep by (auto simp: represents_def)
  have "o_price x = p" if x: "book_side t" "x \<in> set (bk t)" "pidx (o_price x) = pidx p" for t x
  proof -
    obtain n "is" i where i: "(n, is) \<in> set (sh t)" "i \<in> set is" "x = erase (ord ob i)"
      using x(2) so [OF x(1), symmetric] by (auto simp: side_orders_def)
    have pr: "o_price x = lprice ob n" using book_ok_level [OF ok x(1) i(1)] i(2,3)
      by (simp add: level_ok_def order_ok_def erase_def)
    have "price_orders_at_price ob (pidx (lprice ob n)) = Some n"
      using book_ok_level [OF ok x(1) i(1)] by (simp add: level_ok_def)
    then show ?thesis using u x(3) pr by (simp add: price_unique_def)
  qed
  then show ?thesis by (auto simp: list_unique_def)
qed

text \<open>One request of the exchange's book, followed by the market order book.\<close>

definition is_new :: "MEClientRequest \<Rightarrow> bool" where
  "is_new r \<longleftrightarrow> req_type r = Req_NEW"

lemma request_mirror:
  assumes rep: "represents ob bk" and ids: "ids_ok moid bk" and moid: "moid = next_market_order_id ob"
    and adm: "admissible acceptable r moid ob bk" and new: "is_new r \<Longrightarrow> unat moid < unat ME_MAX_ORDER_IDS"
    and sp: "spec_request r moid bk = (cs, moid', bk')"
  shows "can_mirror_all (updates_of cs) (public_book bk)
    \<and> (\<forall>t. book_side t \<longrightarrow> fold mirror (updates_of cs) (public_book bk) t = public_book bk' t)
    \<and> adds (updates_of cs) \<le> (if is_new r then 1 else 0) \<and> ids_ok moid' bk'
    \<and> unat moid' = unat moid + (if is_new r then 1 else 0)"
proof (cases "req_type r")
  case Req_NEW
  have small: "unat moid < unat ME_MAX_ORDER_IDS" using new Req_NEW by (simp add: is_new_def)
  from Req_NEW have a: "book_side (req_side r)" "acceptable (req_client_id r) (req_order_id r) (req_price r) ob"
    using adm by (simp_all add: admissible_def)
  obtain cs1 bk1 where s: "spec_add (req_client_id r) (req_order_id r) (req_ticker_id r) (req_side r) (req_price r) (req_qty r) moid bk = (cs1, bk1)"
    by (metis surj_pair)
  have "spec_find (req_client_id r) (req_order_id r) bk = None"
    using spec_find_None(1) [OF rep] a(2) by (simp add: acceptable_def)
  from add_mirror [OF ids a(1) small s this] represents_list_unique [OF rep] represents_sorted_book [OF rep] a(2)
  show ?thesis using sp s Req_NEW by (auto simp: spec_request_def is_new_def next_id [OF small] acceptable_def)
next
  case Req_CANCEL
  then show ?thesis using cancel_mirror [OF ids] sp by (auto simp: spec_request_def is_new_def)
qed (use adm in \<open>simp_all add: admissible_def\<close>)


lemma room_mono: "room n mb \<Longrightarrow> m \<le> n \<Longrightarrow> room m mb"
  by (simp add: room_def spare_def)

lemma session_mirror:
  assumes "represents ob bk" and "represents (embed mb) (public_book bk)" and "ids_ok (next_market_order_id ob) bk"
    and "all_admissible next_market_order_id acceptable (book_request add cancel) rs ob bk"
    and "unat (next_market_order_id ob) + length (filter is_new rs) \<le> unat ME_MAX_ORDER_IDS"
    and "room (length (filter is_new rs)) mb"
  shows "\<exists>ob' mb' bk' cs. foldE (book_request add cancel) rs ob = Inr ob' \<and> out_calls ob' = out_calls ob @ cs
    \<and> foldE market_step (updates_of cs) mb = Inr mb' \<and> represents ob' bk' \<and> represents (embed mb') (public_book bk')"
  using assms
proof (induction rs arbitrary: ob bk mb)
  case Nil
  then show ?case by (intro exI [of _ ob] exI [of _ mb] exI [of _ bk] exI [of _ "[]"]) simp
next
  case (Cons r rs)
  let ?moid = "next_market_order_id ob"
  obtain cs moid' bk1 where sp: "spec_request r ?moid bk = (cs, moid', bk1)" by (metis prod_cases3)
  have adm: "admissible acceptable r ?moid ob bk" using Cons.prems(4) by simp
  obtain ob1 where ob1: "book_request add cancel r ob = Inr ob1" "represents ob1 bk1" "out_calls ob1 = out_calls ob @ cs"
    "next_market_order_id ob1 = moid'"
    using me_book.request_law [OF Cons.prems(1) adm sp] by blast
  have small: "is_new r \<Longrightarrow> unat ?moid < unat ME_MAX_ORDER_IDS" using Cons.prems(5) by simp
  note m = request_mirror [OF Cons.prems(1,3) refl adm small sp]
  have "room (adds (updates_of cs) + length (filter is_new rs)) mb"
    by (rule room_mono [OF Cons.prems(6)]) (use m in \<open>simp split: if_splits\<close>)
  then obtain mb1 where mb1: "foldE market_step (updates_of cs) mb = Inr mb1"
    "represents (embed mb1) (fold mirror (updates_of cs) (public_book bk))" "room (length (filter is_new rs)) mb1"
    using mirror_steps [OF Cons.prems(2)] m by blast
  have "represents (embed mb1) (public_book bk1)" using mb1(2) m represents_cong by blast
  moreover have "all_admissible next_market_order_id acceptable (book_request add cancel) rs ob1 bk1"
    using Cons.prems(4) ob1(1) sp by simp
  moreover have "unat (next_market_order_id ob1) + length (filter is_new rs) \<le> unat ME_MAX_ORDER_IDS"
    using Cons.prems(5) m ob1(4) by (simp split: if_splits)
  ultimately obtain ob' mb' bk' cs' where "foldE (book_request add cancel) rs ob1 = Inr ob'" "out_calls ob' = out_calls ob1 @ cs'"
    "foldE market_step (updates_of cs') mb1 = Inr mb'" "represents ob' bk'" "represents (embed mb') (public_book bk')"
    using Cons.IH [OF ob1(2)] mb1(3) m ob1(4) by blast
  then show ?case using ob1 mb1(1) by (intro exI [of _ ob'] exI [of _ mb'] exI [of _ bk'] exI [of _ "cs @ cs'"]) (simp add: foldE_append)
qed

end
