(* ===== verification/Market_Book_Props.thy ===== *)
theory Market_Book_Props
  imports Market_Book_Mirror Order_Book_Props
begin

text \<open>
  The properties of the trading side's book: it follows the exchange's book, its best bid and offer, and what
  a \<open>CLEAR\<close> leaves behind.
\<close>

section \<open>Clearing\<close>

text \<open>What clearing keeps: the objects in the pools' blocks, the table of the price levels and the best bid and
  offer. Blocks are only given back.\<close>

definition gives_back :: "'a MemPool \<Rightarrow> 'a MemPool \<Rightarrow> bool" where
  "gives_back p p' \<longleftrightarrow> obj p' = obj p \<and> store_size p' = store_size p \<and> next_free p' = next_free p
     \<and> (\<forall>i. is_free (store p i) \<longrightarrow> is_free (store p' i))"

lemma gives_back_simps [simp]: "gives_back p p"
  by (simp add: gives_back_def)

lemma gives_back_trans: "gives_back a b \<Longrightarrow> gives_back b c \<Longrightarrow> gives_back a c"
  by (simp add: gives_back_def)

lemma deallocate_gives_back:
  assumes "i < unat (store_size p)"
  obtains p' where "deallocate (Some i) p = Inr p'" "gives_back p p'" "is_free (store p' i)"
  using assms by (auto simp: deallocate_def gives_back_def obj_def fun_eq_iff)

definition leaves_levels :: "MarketOrderBook \<Rightarrow> MarketOrderBook \<Rightarrow> bool" where
  "leaves_levels mb mb' \<longleftrightarrow> mk_price_orders_at_price mb' = mk_price_orders_at_price mb \<and> mk_bbo mb' = mk_bbo mb
     \<and> gives_back (mk_order_pool mb) (mk_order_pool mb') \<and> gives_back (mk_orders_at_price_pool mb) (mk_orders_at_price_pool mb')
     \<and> mk_bids_by_price mb' = mk_bids_by_price mb \<and> mk_asks_by_price mb' = mk_asks_by_price mb"

lemma leaves_levels_simps [simp]: "leaves_levels mb mb"
  by (simp add: leaves_levels_def)

lemma leaves_levels_trans: "leaves_levels a b \<Longrightarrow> leaves_levels b c \<Longrightarrow> leaves_levels a c"
  by (auto simp: leaves_levels_def intro: gives_back_trans)

lemma leaves_levels_objects:
  assumes "leaves_levels mb mb'"
  shows "mlvl mb' = mlvl mb" "mord mb' = mord mb"
    "store_size (mk_orders_at_price_pool mb') = store_size (mk_orders_at_price_pool mb)"
    "store_size (mk_order_pool mb') = store_size (mk_order_pool mb)"
  using assms by (auto simp: leaves_levels_def gives_back_def mlvl_def mord_def fun_eq_iff)

lemma clear_orders_ok:
  "(\<And>k i. k \<in> set ks \<Longrightarrow> oid_to_order mb k = Some i \<Longrightarrow> i < unat (store_size (mk_order_pool mb)))
     \<Longrightarrow> \<exists>mb'. clear_orders ks mb = Inr mb' \<and> leaves_levels mb mb'"
proof (induction ks arbitrary: mb)
  case Nil
  then show ?case by simp
next
  case (Cons k ks)
  show ?case
  proof (cases "oid_to_order mb k")
    case None
    then show ?thesis using Cons.IH [of mb] Cons.prems by auto
  next
    case (Some i)
    then obtain pool where p: "deallocate (Some i) (mk_order_pool mb) = Inr pool" "gives_back (mk_order_pool mb) pool"
      using Cons.prems [of k i] deallocate_gives_back [of i "mk_order_pool mb"] by auto
    have "\<exists>mb'. clear_orders ks (mb\<lparr>mk_order_pool := pool\<rparr>) = Inr mb' \<and> leaves_levels (mb\<lparr>mk_order_pool := pool\<rparr>) mb'"
      by (rule Cons.IH) (use Cons.prems p(2) in \<open>auto simp: gives_back_def\<close>)
    moreover have "leaves_levels mb (mb\<lparr>mk_order_pool := pool\<rparr>)" using p(2) by (simp add: leaves_levels_def)
    ultimately show ?thesis using Some p(1) leaves_levels_trans by auto
  qed
qed

lemma deallocate_level:
  assumes "n < unat (store_size (mk_orders_at_price_pool mb))"
  obtains pool where "deallocate (Some n) (mk_orders_at_price_pool mb) = Inr pool"
    "leaves_levels mb (mb\<lparr>mk_orders_at_price_pool := pool\<rparr>)" "is_free (store pool n)"
  using deallocate_gives_back [OF assms] by (auto simp: leaves_levels_def)

abbreviation released :: "nat \<Rightarrow> MarketOrderBook \<Rightarrow> bool" where
  "released n mb \<equiv> is_free (store (mk_orders_at_price_pool mb) n)"

lemma released_stays: "leaves_levels mb mb' \<Longrightarrow> released n mb \<Longrightarrow> released n mb'"
  by (simp add: leaves_levels_def gives_back_def)

lemma clear_levels_ok:
  assumes "ring (\<lambda>n. ml_next_entry (mlvl mb n)) prv (pre @ bs)" and "pre \<noteq> []" and "first = hd pre"
    and "p = Some (hd (bs @ [first]))" and "length bs < fuel"
    and "\<And>n. n \<in> set bs \<Longrightarrow> n < unat (store_size (mk_orders_at_price_pool mb))"
  shows "\<exists>mb'. clear_levels fuel first p mb = Inr mb' \<and> leaves_levels mb mb' \<and> (\<forall>n \<in> set bs. released n mb')"
  using assms
proof (induction bs arbitrary: pre p fuel mb)
  case Nil
  then show ?case by (cases fuel) auto
next
  case (Cons b bs)
  obtain f where f: "fuel = Suc f" using Cons.prems(5) by (cases fuel) auto
  have ne: "b \<noteq> first" using Cons.prems(2,3) ring_distinct [OF Cons.prems(1)] by auto
  obtain pool where pool: "deallocate (Some b) (mk_orders_at_price_pool mb) = Inr pool"
    "leaves_levels mb (mb\<lparr>mk_orders_at_price_pool := pool\<rparr>)" "is_free (store pool b)"
    using deallocate_level [of b mb] Cons.prems(6) [of b] by auto
  let ?mb = "mb\<lparr>mk_orders_at_price_pool := pool\<rparr>"
  have lv: "mlvl ?mb = mlvl mb" "store_size pool = store_size (mk_orders_at_price_pool mb)"
    using leaves_levels_objects [OF pool(2)] by simp_all
  have nx: "ml_next_entry (mlvl mb b) = Some (hd (bs @ [first]))"
    using ring_next [OF Cons.prems(1)] Cons.prems(2,3) by (simp add: hd_append)
  have "\<exists>mb'. clear_levels f first (Some (hd (bs @ [first]))) ?mb = Inr mb' \<and> leaves_levels ?mb mb'
      \<and> (\<forall>n \<in> set bs. released n mb')"
    by (rule Cons.IH [of _ "pre @ [b]"]) (use Cons.prems f lv in \<open>auto simp: hd_append\<close>)
  then obtain mb' where "clear_levels f first (Some (hd (bs @ [first]))) ?mb = Inr mb'" "leaves_levels ?mb mb'"
    "\<forall>n \<in> set bs. released n mb'" by blast
  moreover from this(2) have "released b mb'" by (rule released_stays) (simp add: pool(3))
  ultimately show ?case using Cons.prems(4) f ne pool nx lv leaves_levels_trans [OF pool(2)] by (auto simp: Let_def)
qed

lemma clear_side_ok:
  assumes ok: "book_ok (embed mb0) sh" and s: "book_side s" and lv: "leaves_levels mb0 mb"
  shows "\<exists>mb'. clear_side (mk_best s mb) mb = Inr mb' \<and> leaves_levels mb mb' \<and> (\<forall>n \<in> set (map fst (sh s)). released n mb')"
proof -
  have sd: "side_ok (embed mb0) s (sh s)" using book_ok_side [OF ok s] .
  have same: "mk_best s mb = mk_best s mb0" "mlvl mb = mlvl mb0"
    "store_size (mk_orders_at_price_pool mb) = store_size (mk_orders_at_price_pool mb0)"
    using lv leaves_levels_objects [OF lv] by (simp_all add: leaves_levels_def mk_best_def)
  show ?thesis
  proof (cases "map fst (sh s)")
    case Nil
    then show ?thesis using sd same by (simp add: side_ok_def clear_side_def)
  next
    case (Cons n ns)
    have r: "ring (\<lambda>n. ml_next_entry (mlvl mb n)) (lprev (embed mb0)) ([n] @ ns)"
    proof -
      have "lnext (embed mb0) = (\<lambda>n. ml_next_entry (mlvl mb n))" by (rule ext) (simp add: lnext_def same(2))
      then show ?thesis using sd Cons by (simp add: side_ok_def)
    qed
    have lt: "m < unat (store_size (mk_orders_at_price_pool mb))" if "m \<in> set (n # ns)" for m
    proof -
      from that Cons obtain "is" where "(m, is) \<in> set (sh s)" by (metis (no_types) list.set_map imageE prod.collapse)
      then show ?thesis using book_ok_level [OF ok s] same(3) by (auto simp: level_ok_def allocated_def)
    qed
    have "set (n # ns) \<subseteq> {..<unat (store_size (mk_orders_at_price_pool mb))}" using lt by auto
    then have len: "length ns < Suc (unat (store_size (mk_orders_at_price_pool mb)))"
      using ring_distinct [OF r] card_mono [of "{..<unat (store_size (mk_orders_at_price_pool mb))}" "set (n # ns)"]
      by (simp add: distinct_card)
    have nx: "ml_next_entry (mlvl mb n) = Some (hd (ns @ [n]))"
      using ring_next [of _ _ "[]" n ns] r by simp
    obtain mb1 where mb1: "clear_levels (Suc (unat (store_size (mk_orders_at_price_pool mb)))) n (Some (hd (ns @ [n]))) mb = Inr mb1"
      "leaves_levels mb mb1" "\<forall>m \<in> set ns. released m mb1"
      using clear_levels_ok [OF r _ _ refl len] lt by auto
    have "store_size (mk_orders_at_price_pool mb1) = store_size (mk_orders_at_price_pool mb)"
      using leaves_levels_objects [OF mb1(2)] by simp
    then obtain pool where pool: "deallocate (Some n) (mk_orders_at_price_pool mb1) = Inr pool"
      "leaves_levels mb1 (mb1\<lparr>mk_orders_at_price_pool := pool\<rparr>)" "is_free (store pool n)"
      using deallocate_level [of n mb1] lt [of n] by auto
    have "mk_best s mb = Some n" using sd Cons same(1) by (simp add: side_ok_def)
    moreover have "\<forall>m \<in> set ns. is_free (store pool m)"
      using mb1(3) pool(2) by (simp add: leaves_levels_def gives_back_def)
    ultimately show ?thesis
      using mb1(1) nx pool Cons leaves_levels_trans [OF mb1(2) pool(2)] by (simp add: clear_side_def del: clear_levels.simps)
  qed
qed

lemma clear_book_ok:
  assumes ok: "book_ok (embed mb) sh"
  shows "\<exists>mb'. clear_book mb = Inr mb' \<and> mk_bids_by_price mb' = None \<and> mk_asks_by_price mb' = None
    \<and> (\<forall>n \<in> set (map fst (sh BUY)) \<union> set (map fst (sh SELL)). released n mb')
    \<and> leaves_levels mb (mb'\<lparr>mk_bids_by_price := mk_bids_by_price mb, mk_asks_by_price := mk_asks_by_price mb\<rparr>)"
proof -
  have "i < unat (store_size (mk_order_pool mb))" if "k \<in> set [0..<unat ME_MAX_ORDER_IDS]" "oid_to_order mb k = Some i" for k i
  proof -
    have "cid_oid_to_order (embed mb) 0 k = Some i" "0 < ME_MAX_NUM_CLIENTS" "tables_ok (embed mb) sh" "k < unat ME_MAX_ORDER_IDS"
      using that ok by (simp_all add: ME_MAX_NUM_CLIENTS_def book_ok_def)
    then obtain s n "is" where "book_side s" "(n, is) \<in> set (sh s)" "i \<in> set is" unfolding tables_ok_def by blast
    from book_ok_order [OF ok this] show ?thesis by (simp add: order_ok_def allocated_def)
  qed
  then obtain mb1 where mb1: "clear_orders [0..<unat ME_MAX_ORDER_IDS] mb = Inr mb1" "leaves_levels mb mb1"
    using clear_orders_ok [of "[0..<unat ME_MAX_ORDER_IDS]" mb] by blast
  let ?mb1 = "mb1\<lparr>oid_to_order := (\<lambda>_. None)\<rparr>"
  have l1: "leaves_levels mb ?mb1" using mb1(2) by (simp add: leaves_levels_def)
  obtain mb2 where mb2: "clear_side (mk_best BUY ?mb1) ?mb1 = Inr mb2" "leaves_levels ?mb1 mb2"
    "\<forall>n \<in> set (map fst (sh BUY)). released n mb2"
    using clear_side_ok [OF ok book_side_simps(1) l1] by blast
  note l2 = leaves_levels_trans [OF l1 mb2(2)]
  obtain mb3 where mb3: "clear_side (mk_best SELL mb2) mb2 = Inr mb3" "leaves_levels mb2 mb3"
    "\<forall>n \<in> set (map fst (sh SELL)). released n mb3"
    using clear_side_ok [OF ok book_side_simps(2) l2] by blast
  have "clear_book mb = Inr (mb3\<lparr>mk_bids_by_price := None, mk_asks_by_price := None\<rparr>)"
    using mb1(1) mb2(1) mb3(1) by (simp add: clear_book_def Let_def mk_best_def)
  then show ?thesis using leaves_levels_trans [OF l2 mb3(2)] mb2(3) mb3(3) released_stays [OF mb3(2)]
    by (auto simp: leaves_levels_def)
qed

text \<open>An order at a price whose level is still in the table never reaches the best-price pointers.\<close>

definition no_levels :: "MarketOrderBook \<Rightarrow> bool" where
  "no_levels mb \<longleftrightarrow> mk_bids_by_price mb = None \<and> mk_asks_by_price mb = None"

lemma no_levels_upd [simp]:
  "no_levels (upd_mord i f mb) = no_levels mb" "no_levels (mb\<lparr>oid_to_order := r\<rparr>) = no_levels mb"
  "no_levels (mb\<lparr>mk_order_pool := op\<rparr>) = no_levels mb"
  by (simp_all add: no_levels_def upd_mord_def)

lemma keeps_case_eq: "(p = None \<Longrightarrow> keeps P r) \<Longrightarrow> (\<And>n. p = Some n \<Longrightarrow> keeps P (f n)) \<Longrightarrow> keeps P (case p of None \<Rightarrow> r | Some n \<Rightarrow> f n)"
  by (cases p) simp_all

lemma stale_add:
  assumes "no_levels mb" and "mk_price_orders_at_price mb (pidx (mo_price (mord mb i))) = Some n"
  shows "keeps no_levels (mk_addOrder (Some i) mb)"
proof -
  have "keeps no_levels (put_oid d q m)" if "no_levels m" for d q m
    using that by (auto simp: put_oid_def intro: keeps_bind)
  then show ?thesis
    unfolding mk_addOrder_def Let_def using assms by (intro keeps_step keeps_bind keeps_case_eq keeps_pair) auto
qed

section \<open>The best bid and offer stays right\<close>

text \<open>The updates that change an order carry its side and its price.\<close>

definition informed :: "MEMarketUpdate \<Rightarrow> spec_book \<Rightarrow> bool" where
  "informed u pb \<longleftrightarrow> (upd_type u \<in> {Upd_MODIFY, Upd_CANCEL} \<longrightarrow>
     (\<forall>s x. book_side s \<longrightarrow> x \<in> set (pb s) \<longrightarrow> o_market_order_id x = upd_order_id u \<longrightarrow> s = upd_side u \<and> o_price x = upd_price u))"

abbreviation sorted_side :: "Side \<Rightarrow> MEOrder list \<Rightarrow> bool" where
  "sorted_side s xs \<equiv> sorted_wrt (\<lambda>x y. at_least_as_good s (o_price x) (o_price y)) xs"

lemma takeWhile_top:
  "sorted_side s (x # xs) \<Longrightarrow> takeWhile (\<lambda>y. o_price y = o_price x) (x # xs) = filter (\<lambda>y. o_price y = o_price x) (x # xs)"
proof -
  have "takeWhile (\<lambda>y. o_price y = p) ys = filter (\<lambda>y. o_price y = p) ys"
    if "sorted_side s ys" "\<forall>y \<in> set ys. at_least_as_good s p (o_price y)" for p ys
    using that
  proof (induction ys)
    case (Cons y ys)
    have "o_price y \<noteq> p \<Longrightarrow> z \<in> set ys \<Longrightarrow> o_price z \<noteq> p" for z
      using Cons.prems by (fastforce simp: at_least_as_good_def split: if_splits)
    then show ?case using Cons by (auto simp: filter_empty_conv)
  qed simp
  then show "sorted_side s (x # xs) \<Longrightarrow> ?thesis" by (simp add: at_least_as_good_def)
qed

lemma top_of_eqI:
  assumes "sorted_side s xs" "sorted_side s ys" "xs \<noteq> []" "ys \<noteq> []" "o_price (hd ys) = o_price (hd xs)"
    and "filter (\<lambda>x. o_price x = o_price (hd xs)) ys = filter (\<lambda>x. o_price x = o_price (hd xs)) xs"
  shows "top_of ys = top_of xs"
proof -
  have "top_of zs = (o_price (hd zs), sum_list (map o_qty (filter (\<lambda>x. o_price x = o_price (hd zs)) zs)))"
    if "sorted_side s zs" "zs \<noteq> []" for zs
    using that takeWhile_top [of s "hd zs" "tl zs"] by (cases zs) (simp_all add: top_of_def)
  then show ?thesis using assms by simp
qed

lemma top_unchanged:
  assumes s: "book_side s" and sd: "sorted_side s (pb s)" and sd': "sorted_side s (mirror u pb s)"
    and ne: "pb s \<noteq> []" and off: "\<not> at_top s u pb" and inf: "informed u pb" and ty: "upd_type u \<noteq> Upd_CLEAR"
  shows "top_of (mirror u pb s) = top_of (pb s)"
proof -
  let ?p = "o_price (hd (pb s))"
  have worse: "upd_side u = s \<Longrightarrow> \<not> at_least_as_good s (upd_price u) ?p" using ne off by (simp add: at_top_def)
  have keep: "o_price x \<noteq> ?p" if "upd_type u \<in> {Upd_MODIFY, Upd_CANCEL}" "x \<in> set (pb s)" "o_market_order_id x = upd_order_id u" for x
    using inf that s worse by (fastforce simp: informed_def at_least_as_good_def)
  have top: "hd (pb s) \<in> set (pb s)" using ne by simp
  show ?thesis
  proof (cases "upd_type u")
    case Upd_ADD
    show ?thesis
    proof (cases "upd_side u = s")
      case True
      let ?x = "order_of_update u"
      have w: "o_price ?x \<noteq> ?p" "at_least_as_good (o_side ?x) ?p (o_price ?x)"
        using worse [OF True] True by (auto simp: order_of_update_def at_least_as_good_def split: if_splits)
      have m: "mirror u pb s = spec_rest ?x (pb s)" using True Upd_ADD by (simp add: mirror_def)
      have hd: "hd (spec_rest ?x (pb s)) = hd (pb s)" using ne w(2) by (cases "pb s") (simp_all add: spec_rest_def Let_def)
      have "filter (\<lambda>x. o_price x = ?p) (spec_rest ?x (pb s)) = filter (\<lambda>x. o_price x = ?p) (pb s)"
      proof -
        have "filter (\<lambda>x. o_price x = ?p) (as @ [?x] @ bs) = filter (\<lambda>x. o_price x = ?p) (as @ bs)" for as bs
          using w(1) by simp
        then show ?thesis unfolding spec_rest_def Let_def by (simp only: takeWhile_dropWhile_id)
      qed
      moreover have "spec_rest ?x (pb s) \<noteq> []" by (simp add: spec_rest_def Let_def)
      ultimately show ?thesis using top_of_eqI [OF sd sd' ne] m hd by simp
    next
      case False
      then show ?thesis using Upd_ADD by (simp add: mirror_def)
    qed
  next
    case Upd_MODIFY
    let ?f = "\<lambda>x. if o_market_order_id x = upd_order_id u then x\<lparr>o_qty := upd_qty u\<rparr> else x"
    have m: "mirror u pb s = map ?f (pb s)" using Upd_MODIFY by (simp add: mirror_def)
    have "filter (\<lambda>x. o_price x = ?p) (map ?f (pb s)) = map ?f (filter (\<lambda>x. o_price x = ?p) (pb s))"
      by (simp add: filter_map o_def if_distrib cong: if_cong)
    also have "\<dots> = filter (\<lambda>x. o_price x = ?p) (pb s)" using keep Upd_MODIFY by (intro map_idI) auto
    finally show ?thesis using top_of_eqI [OF sd sd' ne] m ne by (simp add: hd_map)
  next
    case Upd_CANCEL
    have m: "mirror u pb s = filter (\<lambda>x. o_market_order_id x \<noteq> upd_order_id u) (pb s)" using Upd_CANCEL by (simp add: mirror_def)
    have "o_market_order_id (hd (pb s)) \<noteq> upd_order_id u" using keep [OF _ top] Upd_CANCEL by auto
    then have h: "hd (mirror u pb s) = hd (pb s)" "mirror u pb s \<noteq> []" using ne m by (cases "pb s"; simp)+
    have "filter (\<lambda>x. o_price x = ?p) (mirror u pb s) = filter (\<lambda>x. o_price x = ?p) (pb s)"
      unfolding m filter_filter using keep Upd_CANCEL by (intro filter_cong) auto
    then show ?thesis using top_of_eqI [OF sd sd' ne h(2)] h(1) by simp
  qed (use ty in \<open>simp_all add: mirror_def\<close>)
qed

lemma onMarketUpdate_bbo:
  assumes rep: "represents (embed mb) pb" and cm: "can_mirror u pb" and rm: "room 1 mb"
  shows "\<exists>mb'. onMarketUpdate u mb = Inr (event_of u, mb') \<and> represents (embed mb') (mirror u pb)
    \<and> (\<forall>s. book_side s \<longrightarrow> bbo_side s mb' =
         (if upd_type u \<noteq> Upd_TRADE \<and> at_top s u pb then top_of (mirror u pb s) else bbo_side s mb))"
proof -
  have "takes_update u mb" by (rule takes_updateI [OF rep cm]) (use rm in simp)
  from onMarketUpdate_refines [OF rep this] show ?thesis by blast
qed


section \<open>A new book, and a book with four orders\<close>

lemma MarketOrderBook_init_ok:
  "\<exists>mb. MarketOrderBook_init tid (\<lambda>_. None) (\<lambda>_. None) = Inr mb \<and> represents (embed mb) (\<lambda>_. []) \<and> room 256 mb
     \<and> mk_bbo mb = BBO_default"
proof -
  define mk where "mk = \<lparr>mk_ticker_id = tid, oid_to_order = (\<lambda>_. None),
    mk_orders_at_price_pool = \<lparr>store = (\<lambda>_. \<lparr>object = MarketOrdersAtPrice_default, is_free = True\<rparr>), store_size = ME_MAX_PRICE_LEVELS, next_free = 0\<rparr>,
    mk_bids_by_price = None, mk_asks_by_price = None, mk_price_orders_at_price = (\<lambda>_. None),
    mk_order_pool = \<lparr>store = (\<lambda>_. \<lparr>object = MarketOrder_default, is_free = True\<rparr>), store_size = ME_MAX_ORDER_IDS, next_free = 0\<rparr>,
    mk_bbo = BBO_default\<rparr>"
  have "MarketOrderBook_init tid (\<lambda>_. None) (\<lambda>_. None) = Inr mk"
    by (simp add: MarketOrderBook_init_def MemPool_init_def ME_MAX_PRICE_LEVELS_def ME_MAX_ORDER_IDS_def mk_def)
  moreover have "book_ok (embed mk) (\<lambda>_. [])"
    using pow2_const by (auto simp: book_ok_def side_ok_def tables_ok_def mk_def mk_best_def pool_ok_def
        ME_MAX_PRICE_LEVELS_def ME_MAX_ORDER_IDS_def)
  then have "represents (embed mk) (\<lambda>_. [])" unfolding represents_def by (intro exI [of _ "\<lambda>_. []"]) (simp add: side_orders_def)
  moreover have "room 256 mk"
    using pow2_const by (simp add: room_def spare_def pool_ok_def mk_def ME_MAX_PRICE_LEVELS_def ME_MAX_ORDER_IDS_def)
  ultimately show ?thesis by (simp add: mk_def)
qed

text \<open>The updates that announced the four orders of \<open>demo_book\<close>.\<close>

definition demo_add_update :: "OrderId \<Rightarrow> Side \<Rightarrow> Price \<Rightarrow> Qty \<Rightarrow> Priority \<Rightarrow> MEMarketUpdate" where
  "demo_add_update d s p q pr = \<lparr>upd_type = Upd_ADD, upd_order_id = d, upd_ticker_id = 0, upd_side = s, upd_price = p,
     upd_qty = q, upd_priority = pr\<rparr>"

definition demo_book_updates :: "MEMarketUpdate list" where
  "demo_book_updates = [demo_add_update 1 BUY 100 5 1, demo_add_update 2 SELL 105 7 1, demo_add_update 3 SELL 105 3 2,
     demo_add_update 4 SELL 110 4 1]"

lemmas demo_steps = demo_book_updates_def demo_add_update_def can_mirror_def list_free_def in_mirror_def mirror_def adds_def
  order_of_update_def spec_rest_def ME_MAX_ORDER_IDS_def priceToIndex_def ME_MAX_PRICE_LEVELS_def at_least_as_good_def Let_def

lemma demo_mirror:
  "can_mirror_all demo_book_updates (\<lambda>_. [])"
  "book_side s \<Longrightarrow> fold mirror demo_book_updates (\<lambda>_. []) s = public_book demo_spec s" "adds demo_book_updates = 4"
  by (simp_all add: demo_steps)
    (auto simp: book_side_def public_book_def public_order_def demo_BUY demo_SELL demo_order_def erase_def)

lemma demo_bbo:
  "track_bbo BUY demo_book_updates (\<lambda>_. []) b = b" "track_bbo SELL demo_book_updates (\<lambda>_. []) b = (105, 10)"
  by (simp_all add: demo_steps at_top_def top_of_def)

lemma demo_market:
  obtains mb where "represents (embed mb) (public_book demo_spec)" "room 252 mb"
    "bbo_side BUY mb = (Price_INVALID, Qty_INVALID)" "bbo_side SELL mb = (105, 10)"
proof -
  obtain mb where mb: "represents (embed mb) (\<lambda>_. [])" "room 256 mb" "mk_bbo mb = BBO_default"
    using MarketOrderBook_init_ok [of 0] by blast
  have "room (adds demo_book_updates + 252) mb" using mb(2) by (simp add: demo_mirror(3))
  from mirror_steps [OF mb(1) demo_mirror(1) this]
  obtain mb' where mb': "represents (embed mb') (fold mirror demo_book_updates (\<lambda>_. []))" "room 252 mb'"
    "\<forall>s. book_side s \<longrightarrow> bbo_side s mb' = track_bbo s demo_book_updates (\<lambda>_. []) (bbo_side s mb)"
    by blast
  have "represents (embed mb') (public_book demo_spec)"
    using mb'(1) represents_cong [of "fold mirror demo_book_updates (\<lambda>_. [])" "public_book demo_spec", OF demo_mirror(2)] by blast
  moreover have "bbo_side BUY mb' = (Price_INVALID, Qty_INVALID)" "bbo_side SELL mb' = (105, 10)"
    using mb'(3) by (simp_all add: demo_bbo) (simp add: bbo_side_def mb(3) BBO_default_def)
  ultimately show thesis using that mb'(2) by blast
qed


section \<open>Properties\<close>

text \<open>A price with an order has its level in the table.\<close>

lemma represents_level:
  assumes "represents (embed mb) pb" and "book_side s" and "x \<in> set (pb s)"
  obtains sh n "is" i p where "book_ok (embed mb) sh" "(n, is) \<in> set (sh s)" "mk_price_orders_at_price mb (pidx (o_price x)) = Some n"
    "ml_first_mkt_order (mlvl mb n) = Some i" "allocated (mk_order_pool mb) i"
    "mo_prev_order (mord mb i) = Some p" "allocated (mk_order_pool mb) p"
proof -
  obtain sh where ok: "book_ok (embed mb) sh" and so: "side_orders (embed mb) sh s = pb s"
    using assms(1,2) by (auto simp: represents_def)
  have "x \<in> set (side_orders (embed mb) sh s)" using so assms(3) by simp
  then obtain n "is" i where i: "(n, is) \<in> set (sh s)" "i \<in> set is" "x = erase (ord (embed mb) i)"
    unfolding side_orders_def by auto
  note l = book_ok_level [OF ok assms(2) i(1), unfolded level_ok_def]
  have x: "o_price x = lprice (embed mb) n" using l i by (auto simp: order_ok_def erase_def)
  obtain f fs where f: "is = f # fs" using i(2) by (cases "is") auto
  from l f have "ring (onext (embed mb)) (oprev (embed mb)) (f # fs)" by simp
  from ring_head_prev [OF this] have p: "mo_prev_order (mord mb f) = Some (last is)" using f by (simp add: oprev_def del: last.simps)
  have "last is \<in> set is" using f by simp
  then have al: "allocated (mk_order_pool mb) f" "allocated (mk_order_pool mb) (last is)"
    using l f by (simp_all add: order_ok_def allocated_def)
  from l f have first: "ml_first_mkt_order (mlvl mb n) = Some f" by simp
  from l x have "mk_price_orders_at_price mb (pidx (o_price x)) = Some n" by simp
  then show thesis by (rule that [OF ok i(1) _ first al(1) p al(2)])
qed

text \<open>An ADD at a price whose level is still in the table, while the level still leads to its orders, returns.\<close>

lemma stale_update_returns:
  assumes nl: "no_levels mb" and ty: "upd_type u = Upd_ADD" and id: "unat (upd_order_id u) < unat ME_MAX_ORDER_IDS"
    and lv: "mk_price_orders_at_price mb (pidx (upd_price u)) = Some n" "ml_first_mkt_order (mlvl mb n) = Some f"
      "mo_prev_order (mord mb f) = Some p"
    and new: "can_allocate (mk_order_pool mb)" "i = unat (next_free (mk_order_pool mb))" "i \<noteq> f" "i \<noteq> p"
  shows "\<exists>mb'. onMarketUpdate u mb = Inr (event_of u, mb') \<and> oid_to_order mb' (unat (upd_order_id u)) = Some i
    \<and> mo_order_id (mord mb' i) = upd_order_id u \<and> mo_price (mord mb' i) = upd_price u"
proof -
  let ?x = "\<lparr>mo_order_id = upd_order_id u, mo_side = upd_side u, mo_price = upd_price u, mo_qty = upd_qty u,
    mo_priority = upd_priority u, mo_prev_order = None, mo_next_order = None\<rparr>"
  obtain pool where al: "allocate ?x (mk_order_pool mb) = (Some i, pool)"
    using allocate_exists [OF new(1)] new(2) by blast
  let ?mb = "mb\<lparr>mk_order_pool := pool\<rparr>"
  have mo: "obj pool = (mord mb)(i := ?x)"
    using al by (auto simp: mord_def obj_def allocate_conv fun_eq_iff split: if_splits)
  have ml: "mlvl ?mb = mlvl mb" "mord ?mb = obj pool" by (simp_all add: mlvl_def mord_def fun_eq_iff)
  have "\<exists>mb'. mk_addOrder (Some i) ?mb = Inr mb' \<and> oid_to_order mb' (unat (upd_order_id u)) = Some i
    \<and> mo_order_id (mord mb' i) = upd_order_id u \<and> mo_price (mord mb' i) = upd_price u"
    using lv ml id new(3,4) by (simp add: mk_addOrder_def mo mk_getOrdersAtPrice_def Let_def put_oid_def array_put_def)
  moreover have "mk_bids_by_price mb = None" "mk_asks_by_price mb = None" using nl by (simp_all add: no_levels_def)
  ultimately show ?thesis using al ty by (auto simp: onMarketUpdate_def book_updateBBO_def event_of_def)
qed

lemma stale_update:
  assumes nl: "no_levels mb" and ty: "upd_type u = Upd_ADD"
    and lv: "mk_price_orders_at_price mb (pidx (upd_price u)) = Some n" and run: "onMarketUpdate u mb = Inr (e, mb')"
  shows "no_levels mb'"
proof -
  let ?x = "\<lparr>mo_order_id = upd_order_id u, mo_side = upd_side u, mo_price = upd_price u, mo_qty = upd_qty u,
    mo_priority = upd_priority u, mo_prev_order = None, mo_next_order = None\<rparr>"
  obtain p pool where al: "allocate ?x (mk_order_pool mb) = (p, pool)" by (metis surj_pair)
  have nb: "mk_bids_by_price mb = None" "mk_asks_by_price mb = None" using nl by (simp_all add: no_levels_def)
  have "bindE (mk_addOrder p (mb\<lparr>mk_order_pool := pool\<rparr>)) (\<lambda>mb. Inr (OnOrderBookUpdate (upd_ticker_id u) (upd_price u) (upd_side u), mb))
      = Inr (e, mb')"
    using run by (simp add: onMarketUpdate_def nb ty al book_updateBBO_def)
  then have ad: "mk_addOrder p (mb\<lparr>mk_order_pool := pool\<rparr>) = Inr mb'"
    by (cases "mk_addOrder p (mb\<lparr>mk_order_pool := pool\<rparr>)") simp_all
  then obtain i where i: "p = Some i" by (cases p) (simp_all add: mk_addOrder_def)
  have "mord (mb\<lparr>mk_order_pool := pool\<rparr>) i = ?x" using al i by (auto simp: mord_def obj_def allocate_conv split: if_splits)
  then have "keeps no_levels (mk_addOrder (Some i) (mb\<lparr>mk_order_pool := pool\<rparr>))"
    using stale_add [of "mb\<lparr>mk_order_pool := pool\<rparr>" i n] nl lv by simp
  then show ?thesis using ad i by simp
qed

text \<open>C6: the market order book mirrors the exchange's book: when the exchange's book serves a list of requests and
  every market update it sends is applied to a market order book that mirrors it, nothing fails and at the end the
  market order book again holds, side by side in the same price-time order, the public part of the exchange's
  book; as long as the market order ids fit the table and the pools' next blocks are free.\<close>

theorem mirror_follows_book:
  assumes "represents ob bk" and "represents (embed mb) (public_book bk)" and "ids_ok (next_market_order_id ob) bk"
    and "all_admissible next_market_order_id acceptable (book_request add cancel) rs ob bk"
    and "unat (next_market_order_id ob) + length (filter is_new rs) \<le> unat ME_MAX_ORDER_IDS"
    and "room (length (filter is_new rs)) mb"
  shows "\<exists>ob' mb' bk' cs. foldE (book_request add cancel) rs ob = Inr ob' \<and> out_calls ob' = out_calls ob @ cs
    \<and> foldE market_step (updates_of cs) mb = Inr mb' \<and> represents ob' bk' \<and> represents (embed mb') (public_book bk')"
  by (rule session_mirror [OF assms])

text \<open>A new order of \<open>demo_book\<close> that trades with two resting orders and rests.\<close>

definition demo_request :: MEClientRequest where
  "demo_request = \<lparr>req_type = Req_NEW, req_client_id = 4, req_ticker_id = 0, req_order_id = 9, req_side = BUY,
     req_price = 105, req_qty = 12\<rparr>"

lemma demo_session:
  "ids_ok (next_market_order_id demo_book) demo_spec"
  "all_admissible next_market_order_id acceptable (book_request add cancel) [demo_request] demo_book demo_spec"
proof -
  show "ids_ok (next_market_order_id demo_book) demo_spec"
    by (auto simp: ids_ok_def book_side_def demo_next demo_BUY demo_SELL demo_order_def erase_def has_ids_def)
  have "case book_request add cancel demo_request demo_book of Inl e \<Rightarrow> True | Inr b \<Rightarrow> True" by (simp split: sum.split)
  then show "all_admissible next_market_order_id acceptable (book_request add cancel) [demo_request] demo_book demo_spec"
    using demo_acceptable demo_no_sweep
    by (simp add: admissible_def demo_request_def demo_next split: sum.split)
qed

theorem mirror_follows_book_witness:
  "\<exists>mb ob' mb' bk' cs. foldE (book_request add cancel) [demo_request] demo_book = Inr ob'
    \<and> foldE market_step (updates_of cs) mb = Inr mb' \<and> represents ob' bk' \<and> represents (embed mb') (public_book bk')"
proof -
  obtain mb where mb: "represents (embed mb) (public_book demo_spec)" "room 252 mb" using demo_market by blast
  have r: "room (length (filter is_new [demo_request])) mb" by (rule room_mono [OF mb(2)]) simp
  have "unat (next_market_order_id demo_book) + length (filter is_new [demo_request]) \<le> unat ME_MAX_ORDER_IDS"
    by (simp add: demo_next ME_MAX_ORDER_IDS_def)
  from mirror_follows_book [OF demo_represents mb(1) demo_session this r] show ?thesis by blast
qed

text \<open>C27: \<open>MarketOrderBook::onMarketUpdate\<close> on one update: an ADD goes behind the orders that are at least as good,
  a MODIFY sets one order's quantity, a CANCEL removes one order, a TRADE changes nothing; the trade engine is told
  about it; and the best bid and offer of a side is brought up to date exactly when the update is at least as good
  as the best price the side had before.\<close>

theorem onMarketUpdate_ok:
  assumes "represents (embed mb) pb" and "can_mirror u pb" and "room 1 mb"
  shows "\<exists>mb'. onMarketUpdate u mb = Inr (event_of u, mb') \<and> represents (embed mb') (mirror u pb)
    \<and> (\<forall>s. book_side s \<longrightarrow> bbo_side s mb' =
         (if upd_type u \<noteq> Upd_TRADE \<and> at_top s u pb then top_of (mirror u pb s) else bbo_side s mb))"
  by (rule onMarketUpdate_bbo [OF assms])

definition demo_update :: MEMarketUpdate where
  "demo_update = \<lparr>upd_type = Upd_CANCEL, upd_order_id = 2, upd_ticker_id = 0, upd_side = SELL, upd_price = 105,
     upd_qty = 0, upd_priority = 1\<rparr>"

lemma demo_update_ok: "can_mirror demo_update (public_book demo_spec)" "informed demo_update (public_book demo_spec)"
  by (auto simp: can_mirror_def in_mirror_def informed_def demo_update_def public_book_def demo_BUY demo_SELL demo_order_def erase_def book_side_def
      intro!: exI [of _ SELL])

lemma demo_top: "top_of (mirror demo_update (public_book demo_spec) SELL) = (105, 3)"
  by (simp add: mirror_def demo_update_def top_of_def public_book_def demo_SELL demo_order_def erase_def)

theorem onMarketUpdate_ok_witness:
  "\<exists>mb mb'. onMarketUpdate demo_update mb = Inr (OnOrderBookUpdate 0 105 SELL, mb')
    \<and> bbo_side SELL mb = (105, 10) \<and> bbo_side SELL mb' = (105, 3)"
proof -
  obtain mb where mb: "represents (embed mb) (public_book demo_spec)" "room 252 mb" "bbo_side SELL mb = (105, 10)"
    using demo_market by blast
  have "room 1 mb" by (rule room_mono [OF mb(2)]) simp
  from onMarketUpdate_ok [OF mb(1) demo_update_ok(1) this] obtain mb' where
    mb': "onMarketUpdate demo_update mb = Inr (event_of demo_update, mb')"
      "bbo_side SELL mb' = (if upd_type demo_update \<noteq> Upd_TRADE \<and> at_top SELL demo_update (public_book demo_spec)
         then top_of (mirror demo_update (public_book demo_spec) SELL) else bbo_side SELL mb)"
    by auto
  moreover have "at_top SELL demo_update (public_book demo_spec)" "upd_type demo_update \<noteq> Upd_TRADE"
    "event_of demo_update = OnOrderBookUpdate 0 105 SELL"
    by (simp_all add: event_of_def at_top_def demo_update_def at_least_as_good_def public_book_def demo_SELL demo_order_def erase_def)
  ultimately show ?thesis using mb(3) demo_top by auto
qed

text \<open>C29: a right best bid or offer stays right: when a side has an order and its entry is the best price and the
  total quantity there, the same holds after every update that carries the side and price of the order it
  changes.\<close>

theorem bbo_stays_right:
  assumes "represents (embed mb) pb" and "can_mirror u pb" and "room 1 mb" and "informed u pb"
    and "book_side s" and "pb s \<noteq> []" and "bbo_side s mb = top_of (pb s)"
  shows "\<exists>mb'. onMarketUpdate u mb = Inr (event_of u, mb') \<and> bbo_side s mb' = top_of (mirror u pb s)"
proof -
  obtain mb' where mb': "onMarketUpdate u mb = Inr (event_of u, mb')" "represents (embed mb') (mirror u pb)"
    "\<forall>s. book_side s \<longrightarrow> bbo_side s mb' =
         (if upd_type u \<noteq> Upd_TRADE \<and> at_top s u pb then top_of (mirror u pb s) else bbo_side s mb)"
    using onMarketUpdate_bbo [OF assms(1-3)] by blast
  have sd: "sorted_side s (pb s)" "sorted_side s (mirror u pb s)"
    using represents_sorted_book [OF assms(1)] represents_sorted_book [OF mb'(2)] assms(5) by (simp_all add: sorted_book_def)
  have "upd_type u \<noteq> Upd_CLEAR" using assms(2) by (auto simp: can_mirror_def)
  then have "\<not> at_top s u pb \<Longrightarrow> top_of (mirror u pb s) = top_of (pb s)"
    using top_unchanged [OF assms(5) sd assms(6) _ assms(4)] by blast
  moreover have "upd_type u = Upd_TRADE \<Longrightarrow> mirror u pb = pb" by (simp add: mirror_def)
  ultimately show ?thesis using mb' assms(5,7) by auto
qed

theorem bbo_stays_right_witness:
  "\<exists>mb mb'. onMarketUpdate demo_update mb = Inr (event_of demo_update, mb') \<and> bbo_side SELL mb' = (105, 3)"
proof -
  obtain mb where mb: "represents (embed mb) (public_book demo_spec)" "room 252 mb" "bbo_side SELL mb = (105, 10)"
    using demo_market by blast
  have "room 1 mb" by (rule room_mono [OF mb(2)]) simp
  from bbo_stays_right [OF mb(1) demo_update_ok(1) this demo_update_ok(2), of SELL] show ?thesis
    using mb(3) demo_top
    by (auto simp: top_of_def public_book_def demo_SELL demo_order_def erase_def)
qed

text \<open>C30: the first order of a side does not reach the best bid and offer: after an ADD to an empty side the book
  holds the order, and that side's entry is what it was.\<close>

theorem first_order_leaves_bbo:
  assumes "represents (embed mb) pb" and "can_mirror u pb" and "room 1 mb"
    and "upd_type u = Upd_ADD" and "pb (upd_side u) = []"
  shows "\<exists>mb' pb'. onMarketUpdate u mb = Inr (event_of u, mb') \<and> represents (embed mb') pb'
    \<and> pb' (upd_side u) = [order_of_update u] \<and> bbo_side (upd_side u) mb' = bbo_side (upd_side u) mb"
proof -
  have "book_side (upd_side u)" using assms(2,4) by (simp add: can_mirror_def)
  moreover have "mirror u pb (upd_side u) = [order_of_update u]" "\<not> at_top (upd_side u) u pb"
    using assms(4,5) by (simp_all add: mirror_def spec_rest_def at_top_def)
  ultimately show ?thesis using onMarketUpdate_bbo [OF assms(1-3)] by auto
qed

theorem first_order_leaves_bbo_witness:
  "\<exists>mb mb'. MarketOrderBook_init 0 (\<lambda>_. None) (\<lambda>_. None) = Inr mb
    \<and> onMarketUpdate (demo_add_update 1 BUY 100 5 1) mb = Inr (OnOrderBookUpdate 0 100 BUY, mb')
    \<and> bbo_side BUY mb' = (Price_INVALID, Qty_INVALID)"
proof -
  obtain mb where mb: "MarketOrderBook_init 0 (\<lambda>_. None) (\<lambda>_. None) = Inr mb" "represents (embed mb) (\<lambda>_. [])" "room 256 mb"
    "mk_bbo mb = BBO_default" using MarketOrderBook_init_ok [of 0] by blast
  have "room 1 mb" by (rule room_mono [OF mb(3)]) simp
  moreover have "can_mirror (demo_add_update 1 BUY 100 5 1) (\<lambda>_. [])" by (simp add: demo_steps)
  ultimately show ?thesis
    using first_order_leaves_bbo [OF mb(2), of "demo_add_update 1 BUY 100 5 1"] mb(1)
    by (auto simp: demo_add_update_def event_of_def bbo_side_def mb(4) BBO_default_def)
qed

lemma best_objects:
  "mlvl (mb\<lparr>mk_bids_by_price := b, mk_asks_by_price := a\<rparr>) = mlvl mb" "mord (mb\<lparr>mk_bids_by_price := b, mk_asks_by_price := a\<rparr>) = mord mb"
  by (simp_all add: mlvl_def mord_def fun_eq_iff)

text \<open>C31: a CLEAR empties both sides but leaves the table of the price levels and the best bid and offer as they
  were, so a later order is lost. After the CLEAR the table still leads the price of an order that was there to
  its level, though the block of the level was given back to its pool, and the ADD of a new
  order at that price, for which the pool has a free block and the table of the orders an entry, returns without an
  error: the order is in the table of the orders and linked to the orders of the level that was given back, but
  both sides of the book stay empty.\<close>

theorem clear_leaves_levels:
  assumes "represents (embed mb) pb" and "upd_type c = Upd_CLEAR" and "upd_side c = Side_INVALID"
    and "book_side s" and "x \<in> set (pb s)" and "upd_type u = Upd_ADD" and "upd_price u = o_price x"
    and "unat (upd_order_id u) < unat ME_MAX_ORDER_IDS" and "can_allocate (mk_order_pool mb)"
  shows "\<exists>mb' n mb'' i. onMarketUpdate c mb = Inr (event_of c, mb') \<and> no_levels mb' \<and> mk_bbo mb' = mk_bbo mb
    \<and> mk_price_orders_at_price mb' (pidx (o_price x)) = Some n \<and> \<not> allocated (mk_orders_at_price_pool mb') n
    \<and> onMarketUpdate u mb' = Inr (event_of u, mb'') \<and> no_levels mb''
    \<and> oid_to_order mb'' (unat (upd_order_id u)) = Some i
    \<and> mo_order_id (mord mb'' i) = upd_order_id u \<and> mo_price (mord mb'' i) = upd_price u"
proof -
  obtain sh n "is" f p where l: "book_ok (embed mb) sh" "(n, is) \<in> set (sh s)" "mk_price_orders_at_price mb (pidx (o_price x)) = Some n"
    "ml_first_mkt_order (mlvl mb n) = Some f" "allocated (mk_order_pool mb) f"
    "mo_prev_order (mord mb f) = Some p" "allocated (mk_order_pool mb) p"
    by (rule represents_level [OF assms(1,4,5)])
  obtain mb' where mb': "clear_book mb = Inr mb'" "mk_bids_by_price mb' = None" "mk_asks_by_price mb' = None"
    "\<forall>n \<in> set (map fst (sh BUY)) \<union> set (map fst (sh SELL)). released n mb'"
    "leaves_levels mb (mb'\<lparr>mk_bids_by_price := mk_bids_by_price mb, mk_asks_by_price := mk_asks_by_price mb\<rparr>)"
    using clear_book_ok [OF l(1)] by blast
  have kept: "mk_price_orders_at_price mb' = mk_price_orders_at_price mb" "mk_bbo mb' = mk_bbo mb" "mlvl mb' = mlvl mb" "mord mb' = mord mb"
    "gives_back (mk_order_pool mb) (mk_order_pool mb')"
    using mb'(5) leaves_levels_objects [OF mb'(5)] best_objects [where mb = mb' and a = "mk_asks_by_price mb" and b = "mk_bids_by_price mb"]
    by (simp_all add: leaves_levels_def)
  have nl: "no_levels mb'" using mb'(2,3) by (simp add: no_levels_def)
  have "\<not> at_top BUY c pb" "\<not> at_top SELL c pb" using assms(3) by (simp_all add: at_top_def)
  then have cl: "onMarketUpdate c mb = Inr (event_of c, mb')"
    using onMarketUpdate_conv [OF assms(1)] assms(2) mb'(1) by (simp add: change_book_def book_updateBBO_def)
  have "n \<in> set (map fst (sh s))" using l(2) by force
  then have "\<not> allocated (mk_orders_at_price_pool mb') n" using mb'(4) assms(4) by (auto simp: allocated_def book_side_def)
  moreover define i where "i = unat (next_free (mk_order_pool mb'))"
  moreover have "can_allocate (mk_order_pool mb')" "i \<noteq> f" "i \<noteq> p"
    using kept(5) assms(9) l(5,7) by (auto simp: gives_back_def can_allocate_def allocated_def i_def)
  ultimately show ?thesis
    using stale_update_returns [OF nl assms(6,8), of n f p i] stale_update [OF nl assms(6)] l(3,4,6) kept assms(7) cl nl by metis
qed

theorem clear_leaves_levels_witness:
  "\<exists>mb mb' n mb'' i. represents (embed mb) (public_book demo_spec)
    \<and> onMarketUpdate (demo_add_update 0 Side_INVALID 0 0 0\<lparr>upd_type := Upd_CLEAR\<rparr>) mb = Inr (OnOrderBookUpdate 0 0 Side_INVALID, mb')
    \<and> mk_price_orders_at_price mb' (pidx 105) = Some n \<and> \<not> allocated (mk_orders_at_price_pool mb') n
    \<and> onMarketUpdate (demo_add_update 6 SELL 105 9 1) mb' = Inr (OnOrderBookUpdate 0 105 SELL, mb'') \<and> no_levels mb''
    \<and> oid_to_order mb'' 6 = Some i"
proof -
  obtain mb where mb: "represents (embed mb) (public_book demo_spec)" "room 252 mb" using demo_market by blast
  have x: "public_order (hd (demo_spec SELL)) \<in> set (public_book demo_spec SELL)" by (simp add: public_book_def demo_SELL)
  have "room 1 mb" by (rule room_mono [OF mb(2)]) simp
  then have "can_allocate (mk_order_pool mb)" using spare_Suc(2) [of 0 "mk_order_pool mb"] by (simp add: room_def)
  from clear_leaves_levels [OF mb(1), of "demo_add_update 0 Side_INVALID 0 0 0\<lparr>upd_type := Upd_CLEAR\<rparr>", OF _ _ _ x,
      of "demo_add_update 6 SELL 105 9 1", OF _ _ _ _ _ _ this]
  show ?thesis using mb(1)
    by (auto simp: demo_add_update_def event_of_def demo_SELL demo_order_def erase_def ME_MAX_ORDER_IDS_def)
qed

end
