(* ===== verification/Trade_Engine.thy ===== *)
theory Trade_Engine
  imports Trade_Algorithms Market_Book_Props Queue_Loop Sockets
begin

text \<open>
  trading/strategy/trade_engine.h and trade_engine.cpp: the thread that takes the responses and the market
  updates from their queues, keeps the books, positions and features, runs the algorithm and writes its requests.
\<close>

section \<open>State\<close>

text \<open>
  \<open>te_clock\<close> are the readings that \<^verbatim>\<open>getCurrentNanos\<close> will give. The algorithm is named by its type, which the
  three callbacks are set from. The books have the numbers that the positions' pointers to a best bid and offer show.
\<close>

record TradeEngine =
  te_client_id :: ClientId
  te_books :: "nat \<Rightarrow> MarketOrderBook"
  te_requests :: ClientRequestLFQueue
  te_responses :: ClientResponseLFQueue
  te_updates :: MEMarketUpdateLFQueue
  last_event_time :: Nanos
  te_features :: FeatureEngine
  te_positions :: PositionKeeper
  te_orders :: OrderManager
  te_risk :: RiskManager
  te_algo :: AlgoType
  te_cfg :: TradeEngineCfgHashMap
  te_clock :: "nat \<Rightarrow> Nanos"

text \<open>\<open>oid_mem\<close>, \<open>price_mem\<close>, \<open>vwap_mem\<close> and \<open>junk\<close> are what uninitialised memory holds.\<close>

definition TradeEngine_init ::
  "(nat \<Rightarrow> nat \<Rightarrow> ptr) \<Rightarrow> (nat \<Rightarrow> nat \<Rightarrow> ptr) \<Rightarrow> (nat \<Rightarrow> nat \<Rightarrow> real) \<Rightarrow> MarketOrderBook \<Rightarrow> (nat \<Rightarrow> Nanos) \<Rightarrow> ClientId \<Rightarrow> AlgoType
     \<Rightarrow> TradeEngineCfgHashMap \<Rightarrow> ClientRequestLFQueue \<Rightarrow> ClientResponseLFQueue \<Rightarrow> MEMarketUpdateLFQueue \<Rightarrow> TradeEngine res" where
  "TradeEngine_init oid_mem price_mem vwap_mem junk clock client_id algo_type ticker_cfg client_requests client_responses market_updates =
     bindE (foldE (\<lambda>i books. bindE (MarketOrderBook_init (of_nat i) (oid_mem i) (price_mem i)) (\<lambda>mb. Inr (books(i := mb))))
              [0..<ME_MAX_TICKERS] (\<lambda>_. junk)) (\<lambda>books.
     Inr \<lparr>te_client_id = client_id, te_books = books, te_requests = client_requests, te_responses = client_responses,
          te_updates = market_updates, last_event_time = 0, te_features = FeatureEngine_init,
          te_positions = PositionKeeper_init vwap_mem, te_orders = OrderManager_init client_id,
          te_risk = RiskManager_init ticker_cfg, te_algo = algo_type, te_cfg = ticker_cfg, te_clock = clock\<rparr>)"


section \<open>Operations\<close>

definition te_sendClientRequest :: "MEClientRequest \<Rightarrow> TradeEngine \<Rightarrow> TradeEngine res" where
  "te_sendClientRequest r te = bindE (lfq_write r (te_requests te)) (\<lambda>q. Inr (te\<lparr>te_requests := q\<rparr>))"

text \<open>
  The calls that the order manager made, carried out in their order. It does not read the queue, so its
  operation is finished first.
\<close>

definition send_orders :: "TradeEngine \<Rightarrow> TradeEngine res" where
  "send_orders te = foldE te_sendClientRequest (om_sent (te_orders te)) (te\<lparr>te_orders := (te_orders te)\<lparr>om_sent := []\<rparr>\<rparr>)"

text \<open>
  The callbacks: those of the market maker or the liquidity taker; otherwise the default ones, which only log.
\<close>

definition algoOnOrderBookUpdate :: "TickerId \<Rightarrow> Price \<Rightarrow> Side \<Rightarrow> MarketOrderBook \<Rightarrow> TradeEngine \<Rightarrow> OrderManager res" where
  "algoOnOrderBookUpdate ticker_id price side book te =
     (case te_algo te of
        MAKER \<Rightarrow> mm_onOrderBookUpdate (te_cfg te) (te_features te) (te_risk te) (te_positions te) ticker_id book (te_orders te)
      | TAKER \<Rightarrow> Inr (lt_onOrderBookUpdate ticker_id price side (te_orders te))
      | _ \<Rightarrow> Inr (te_orders te))"

definition algoOnTradeUpdate :: "MEMarketUpdate \<Rightarrow> MarketOrderBook \<Rightarrow> TradeEngine \<Rightarrow> OrderManager res" where
  "algoOnTradeUpdate u book te =
     (case te_algo te of
        MAKER \<Rightarrow> Inr (mm_onTradeUpdate u book (te_orders te))
      | TAKER \<Rightarrow> lt_onTradeUpdate (te_cfg te) (te_features te) (te_risk te) (te_positions te) u book (te_orders te)
      | _ \<Rightarrow> Inr (te_orders te))"

definition algoOnOrderUpdate :: "MEClientResponse \<Rightarrow> TradeEngine \<Rightarrow> OrderManager res" where
  "algoOnOrderUpdate r te =
     (case te_algo te of
        MAKER \<Rightarrow> mm_onOrderUpdate r (te_orders te)
      | TAKER \<Rightarrow> lt_onOrderUpdate r (te_orders te)
      | _ \<Rightarrow> Inr (te_orders te))"

definition te_onOrderBookUpdate :: "TickerId \<Rightarrow> Price \<Rightarrow> Side \<Rightarrow> nat \<Rightarrow> TradeEngine \<Rightarrow> TradeEngine res" where
  "te_onOrderBookUpdate ticker_id price side book te =
     bindE (pk_updateBBO ticker_id book (mk_bbo (te_books te book)) (te_positions te)) (\<lambda>pk.
     let te = te\<lparr>te_positions := pk\<rparr>
     in bindE (fe_onOrderBookUpdate (te_books te book) (te_features te)) (\<lambda>fe.
        let te = te\<lparr>te_features := fe\<rparr>
        in bindE (algoOnOrderBookUpdate ticker_id price side (te_books te book) te) (\<lambda>om.
           send_orders (te\<lparr>te_orders := om\<rparr>))))"

definition te_onTradeUpdate :: "MEMarketUpdate \<Rightarrow> nat \<Rightarrow> TradeEngine \<Rightarrow> TradeEngine res" where
  "te_onTradeUpdate u book te =
     (let te = te\<lparr>te_features := fe_onTradeUpdate u (te_books te book) (te_features te)\<rparr>
      in bindE (algoOnTradeUpdate u (te_books te book) te) (\<lambda>om. send_orders (te\<lparr>te_orders := om\<rparr>)))"

definition te_onOrderUpdate :: "MEClientResponse \<Rightarrow> TradeEngine \<Rightarrow> TradeEngine res" where
  "te_onOrderUpdate r te =
     bindE (if rsp_type r = Rsp_FILLED then bindE (pk_addFill r (te_positions te)) (\<lambda>pk. Inr (te\<lparr>te_positions := pk\<rparr>)) else Inr te)
     (\<lambda>te. bindE (algoOnOrderUpdate r te) (\<lambda>om. send_orders (te\<lparr>te_orders := om\<rparr>)))"

definition stamp_event :: "TradeEngine \<Rightarrow> TradeEngine" where
  "stamp_event te = te\<lparr>last_event_time := te_clock te 0, te_clock := (\<lambda>n. te_clock te (Suc n))\<rparr>"

text \<open>\<^verbatim>\<open>initLastEventTime\<close> does the same.\<close>

definition te_on_response :: "MEClientResponse \<Rightarrow> TradeEngine \<Rightarrow> TradeEngine res" where
  "te_on_response r te =
     bindE (te_onOrderUpdate r te) (\<lambda>te.
     Inr (stamp_event (te\<lparr>te_responses := snd (updateReadIndex (te_responses te))\<rparr>)))"

text \<open>What the book's call does.\<close>

definition te_event :: "nat \<Rightarrow> MarketEvent \<Rightarrow> TradeEngine \<Rightarrow> TradeEngine res" where
  "te_event book e te =
     (case e of OnTradeUpdate u \<Rightarrow> te_onTradeUpdate u book te
      | OnOrderBookUpdate ticker_id price side \<Rightarrow> te_onOrderBookUpdate ticker_id price side book te)"

definition te_on_update :: "MEMarketUpdate \<Rightarrow> TradeEngine \<Rightarrow> TradeEngine res" where
  "te_on_update u te =
     (let book = unat (upd_ticker_id u)
      in bindE (assertE (book < ME_MAX_TICKERS)) (\<lambda>_.
         bindE (onMarketUpdate u (te_books te book)) (\<lambda>(e, mb).
         bindE (te_event book e (te\<lparr>te_books := (te_books te)(book := mb)\<rparr>)) (\<lambda>te.
         Inr (stamp_event (te\<lparr>te_updates := snd (updateReadIndex (te_updates te))\<rparr>))))))"

text \<open>One round of the thread: first the responses, then the market updates.\<close>

definition te_round :: "TradeEngine \<Rightarrow> TradeEngine res" where
  "te_round te =
     bindE (drain no_guard te_responses te_on_response te) (drain no_guard te_updates te_on_update)"

text \<open>Whole seconds without an event; division of integers truncates.\<close>

definition silentSeconds :: "TradeEngine \<Rightarrow> Nanos res" where
  "silentSeconds te = bindE (int64 (te_clock te 0 - last_event_time te)) (\<lambda>d. Inr (sgn d * (\<bar>d\<bar> div NANOS_TO_SECS)))"

section \<open>Writing the requests\<close>

lemma lfq_write_room:
  assumes "lfq_ok q" and "lfq_write x q = Inr q'"
  shows "0 < lfq_room q"
proof -
  obtain i where i: "getNextToWriteTo q = Some i" "i < unat (qsize q)"
    using assms(2) by (auto simp: lfq_write_def write_elem_def res_simps split: if_splits)
  then have w: "i = unat (write_pos q)" and ne: "(write_pos q + 1) AND (qsize q - 1) \<noteq> read_pos q"
    by (auto simp: getNextToWriteTo_def Let_def split: if_splits)
  have "unat ((write_pos q + 1) AND (qsize q - 1)) = Suc (unat (write_pos q)) mod unat (qsize q)"
    using assms(1) lfq_ok_bounds [OF assms(1)] by (simp add: and_pow2_unat lfq_ok_def unat_Suc)
  then have "read_pos q = 0 \<Longrightarrow> Suc (unat (write_pos q)) \<noteq> unat (qsize q)" using ne by (auto simp: unat_eq_zero)
  then show ?thesis using i w by (auto simp: lfq_room_def)
qed

lemma send_orders_ok:
  assumes "lfq_ok (te_requests te)" and "send_orders te = Inr te'"
  shows "\<exists>q. te' = te\<lparr>te_orders := (te_orders te)\<lparr>om_sent := []\<rparr>, te_requests := q\<rparr> \<and> lfq_ok q
    \<and> contents q = contents (te_requests te) @ om_sent (te_orders te) \<and> lfq_room q = lfq_room (te_requests te) - length (om_sent (te_orders te))"
proof -
  have "foldE te_sendClientRequest rs te = Inr te' \<Longrightarrow> lfq_ok (te_requests te) \<Longrightarrow>
     \<exists>q. te' = te\<lparr>te_requests := q\<rparr> \<and> lfq_ok q \<and> contents q = contents (te_requests te) @ rs
       \<and> lfq_room q = lfq_room (te_requests te) - length rs" for te rs
  proof (induction rs arbitrary: te)
    case (Cons r rs)
    obtain q where q: "lfq_write r (te_requests te) = Inr q" "foldE te_sendClientRequest rs (te\<lparr>te_requests := q\<rparr>) = Inr te'"
      using Cons.prems(1) by (auto simp: te_sendClientRequest_def [of r te] res_simps)
    have "lfq_ok q" "contents q = contents (te_requests te) @ [r]" "lfq_room q = lfq_room (te_requests te) - 1"
      using lfq_write_ok [OF Cons.prems(2) lfq_write_room [OF Cons.prems(2) q(1)], of r] q(1) by auto
    then show ?case using Cons.IH [OF q(2)] by auto
  next
    case Nil
    then show ?case by (intro exI [of _ "te_requests te"]) simp
  qed
  from this [OF assms(2) [unfolded send_orders_def]] assms(1) show ?thesis by auto
qed

lemma send_orders_returns:
  assumes "lfq_ok (te_requests te)" and "length (om_sent (te_orders te)) \<le> lfq_room (te_requests te)"
  shows "\<exists>te'. send_orders te = Inr te'"
proof -
  have "lfq_ok (te_requests te) \<Longrightarrow> length rs \<le> lfq_room (te_requests te) \<Longrightarrow> \<exists>te'. foldE te_sendClientRequest rs te = Inr te'" for rs te
  proof (induction rs arbitrary: te)
    case (Cons r rs)
    obtain q where q: "lfq_write r (te_requests te) = Inr q" "lfq_ok q" "lfq_room q = lfq_room (te_requests te) - 1"
      using lfq_write_ok [OF Cons.prems(1), of r] Cons.prems(2) by auto
    then show ?case using Cons.IH [of "te\<lparr>te_requests := q\<rparr>"] Cons.prems(2) by (simp add: te_sendClientRequest_def)
  qed simp
  from this [of "te\<lparr>te_orders := (te_orders te)\<lparr>om_sent := []\<rparr>\<rparr>" "om_sent (te_orders te)"] assms show ?thesis
    by (simp add: send_orders_def)
qed


section \<open>What the algorithms send\<close>

definition new_ids :: "MEClientRequest list \<Rightarrow> OrderId list" where
  "new_ids rs = map req_order_id (filter (\<lambda>r. req_type r = Req_NEW) rs)"

definition ids_from :: "OrderId \<Rightarrow> nat \<Rightarrow> OrderId list" where
  "ids_from n k = map (\<lambda>i. n + of_nat i) [0..<k]"

lemma new_ids_simps [simp]:
  "new_ids [] = []" "new_ids (r # rs) = (if req_type r = Req_NEW then req_order_id r # new_ids rs else new_ids rs)"
  "new_ids (rs @ qs) = new_ids rs @ new_ids qs"
  by (simp_all add: new_ids_def)

lemma ids_from_simps [simp]: "ids_from n 0 = []" "ids_from n (Suc 0) = [n]" "length (ids_from n k) = k"
  by (simp_all add: ids_from_def)

lemma ids_from_add: "ids_from n j @ ids_from (n + of_nat j) k = ids_from n (j + k)"
proof -
  have "map (\<lambda>i. n + of_nat i) [j..<j + k] = map (\<lambda>i. n + of_nat j + of_nat i) [0..<k]"
    by (induction k) (simp_all add: add.assoc)
  then show ?thesis unfolding ids_from_def by (simp add: upt_add_eq_append [of 0 j k])
qed

text \<open>
  \<open>sends P om rs om'\<close>: the order manager made the calls \<open>rs\<close>, each satisfies \<open>P\<close>, and the new orders among
  them have the order ids from \<open>next_order_id\<close> on.
\<close>

definition sends :: "(MEClientRequest \<Rightarrow> bool) \<Rightarrow> OrderManager \<Rightarrow> MEClientRequest list \<Rightarrow> OrderManager \<Rightarrow> bool" where
  "sends P om rs om' \<longleftrightarrow> om_sent om' = om_sent om @ rs \<and> list_all P rs \<and> om_client_id om' = om_client_id om
     \<and> new_ids rs = ids_from (next_order_id om) (length (new_ids rs))
     \<and> next_order_id om' = next_order_id om + of_nat (length (new_ids rs))"

lemma sends_none [simp]: "sends P om [] om"
  by (simp add: sends_def)

lemma sends_trans: "sends P om rs om1 \<Longrightarrow> sends P om1 qs om2 \<Longrightarrow> sends P om (rs @ qs) om2"
  unfolding sends_def using ids_from_add [of "next_order_id om" "length (new_ids rs)" "length (new_ids qs)"] by (simp add: add.assoc)

text \<open>What every request of an engine satisfies.\<close>

definition sound_request :: "ClientId \<Rightarrow> RiskManager \<Rightarrow> MEClientRequest \<Rightarrow> bool" where
  "sound_request c rm r \<longleftrightarrow> req_client_id r = c
     \<and> (req_type r = Req_CANCEL
        \<or> req_type r = Req_NEW \<and> book_side (req_side r) \<and> unat (req_ticker_id r) < ME_MAX_TICKERS
          \<and> req_price r \<noteq> Price_INVALID \<and> req_qty r \<le> max_order_size (ri_risk_cfg (rm (unat (req_ticker_id r)))))"

lemma allowed_size:
  "checkPreTradeRisk tid side qty rm pk = Inr ALLOWED \<Longrightarrow> unat tid < ME_MAX_TICKERS \<and> qty \<le> max_order_size (ri_risk_cfg (rm (unat tid)))"
  by (auto simp: checkPreTradeRisk_def checkRisk_def array_at_def res_simps split: if_splits)

lemma moveOrder_sends:
  assumes "moveOrder rm pk (unat tid) (unat (sideToIndex side)) tid price side qty om = Inr om'" and "book_side side"
  shows "\<exists>rs. sends (sound_request (om_client_id om) rm) om rs om'"
  using assms(1)
proof (cases rule: moveOrder_cases)
  case 1
  then show ?thesis using sends_none by metis
next
  case 2
  then show ?thesis by (auto simp: sends_def cancelOrder_def Let_def sound_request_def)
next
  case 3
  then show ?thesis using allowed_size [OF 3(2)] assms(2)
    by (auto simp: sends_def newOrder_def Let_def sound_request_def)
qed

lemma moveOrders_sends:
  assumes "moveOrders rm pk tid bid ask qty om = Inr om'"
  shows "\<exists>rs. sends (sound_request (om_client_id om) rm) om rs om'"
proof -
  have tid: "unat tid < ME_MAX_TICKERS" using assms by (auto simp: moveOrders_def order_at_def array_at_def res_simps split: if_splits)
  obtain om1 where om1: "moveOrder rm pk (unat tid) (unat (sideToIndex BUY)) tid bid BUY qty om = Inr om1"
    "moveOrder rm pk (unat tid) (unat (sideToIndex SELL)) tid ask SELL qty om1 = Inr om'"
    using assms tid by (auto simp: moveOrders_def res_simps simp del: sideToIndex_simps)
  obtain rs where rs: "sends (sound_request (om_client_id om) rm) om rs om1" using moveOrder_sends [OF om1(1)] by auto
  moreover obtain qs where "sends (sound_request (om_client_id om1) rm) om1 qs om'" using moveOrder_sends [OF om1(2)] by auto
  moreover have "om_client_id om1 = om_client_id om" using rs by (simp add: sends_def)
  ultimately show ?thesis using sends_trans by fastforce
qed

lemma order_update_sends: "om_onOrderUpdate r om = Inr om' \<Longrightarrow> sends P om [] om'"
  by (auto simp: om_onOrderUpdate_def sends_def res_simps split: prod.splits)

section \<open>The interface of an algorithm\<close>

text \<open>Prices for which the arithmetic of a quote stays inside 64 bits.\<close>

definition tame :: "MarketOrderBook \<Rightarrow> bool" where
  "tame book \<longleftrightarrow> two_sided (mk_bbo book) \<longrightarrow> \<bar>bbo_bid_price (mk_bbo book)\<bar> < 2 ^ 30 \<and> \<bar>bbo_ask_price (mk_bbo book)\<bar> < 2 ^ 30"

text \<open>
  What the trade engine relies on: the callbacks only make sound calls with consecutive new order ids, make at most two
  of them, and return when the risk check can be computed and the prices are tame.
\<close>

locale trading_algorithm =
  fixes rm :: RiskManager
    and quantity :: "TickerId \<Rightarrow> Qty"
    and on_book :: "FeatureEngine \<Rightarrow> PositionKeeper \<Rightarrow> TickerId \<Rightarrow> Price \<Rightarrow> Side \<Rightarrow> MarketOrderBook \<Rightarrow> OrderManager \<Rightarrow> OrderManager res"
    and on_trade :: "FeatureEngine \<Rightarrow> PositionKeeper \<Rightarrow> MEMarketUpdate \<Rightarrow> MarketOrderBook \<Rightarrow> OrderManager \<Rightarrow> OrderManager res"
  assumes book_sends: "on_book fe pk tid price side book om = Inr om' \<Longrightarrow> \<exists>rs. sends (sound_request (om_client_id om) rm) om rs om'"
    and trade_sends: "on_trade fe pk u book om = Inr om' \<Longrightarrow> \<exists>rs. sends (sound_request (om_client_id om) rm) om rs om'"
    and book_returns: "risk_in_range tid (quantity tid) rm pk \<Longrightarrow> tame book
      \<Longrightarrow> \<exists>om' rs. on_book fe pk tid price side book om = Inr om' \<and> om_sent om' = om_sent om @ rs \<and> length rs \<le> 2"
    and trade_returns: "risk_in_range (upd_ticker_id u) (quantity (upd_ticker_id u)) rm pk
      \<Longrightarrow> \<exists>om' rs. on_trade fe pk u book om = Inr om' \<and> om_sent om' = om_sent om @ rs \<and> length rs \<le> 2"
begin

lemma book_law:
  assumes "risk_in_range tid (quantity tid) rm pk" and "tame book"
  shows "\<exists>om' rs. on_book fe pk tid price side book om = Inr om' \<and> sends (sound_request (om_client_id om) rm) om rs om' \<and> length rs \<le> 2"
proof -
  obtain om' rs where o: "on_book fe pk tid price side book om = Inr om'" "om_sent om' = om_sent om @ rs" "length rs \<le> 2"
    using book_returns [OF assms] by blast
  moreover obtain qs where "sends (sound_request (om_client_id om) rm) om qs om'" using book_sends [OF o(1)] by blast
  ultimately show ?thesis by (auto simp: sends_def)
qed

lemma trade_law:
  assumes "risk_in_range (upd_ticker_id u) (quantity (upd_ticker_id u)) rm pk"
  shows "\<exists>om' rs. on_trade fe pk u book om = Inr om' \<and> sends (sound_request (om_client_id om) rm) om rs om' \<and> length rs \<le> 2"
proof -
  obtain om' rs where o: "on_trade fe pk u book om = Inr om'" "om_sent om' = om_sent om @ rs" "length rs \<le> 2"
    using trade_returns [OF assms] by blast
  moreover obtain qs where "sends (sound_request (om_client_id om) rm) om qs om'" using trade_sends [OF o(1)] by blast
  ultimately show ?thesis by (auto simp: sends_def)
qed

end

lemma move_returns:
  "risk_in_range tid qty rm pk \<Longrightarrow> \<exists>om' rs. moveOrders rm pk tid bid ask qty om = Inr om' \<and> om_sent om' = om_sent om @ rs \<and> length rs \<le> 2"
  using moveOrders_asks by blast

lemma nothing_sent: "\<exists>om' rs. (Inr om :: OrderManager res) = Inr om' \<and> om_sent om' = om_sent om @ rs \<and> length rs \<le> 2"
  by simp

lemma mm_sends: "mm_onOrderBookUpdate cfg fe rm pk tid book om = Inr om' \<Longrightarrow> \<exists>rs. sends (sound_request (om_client_id om) rm) om rs om'"
  unfolding mm_onOrderBookUpdate_def Let_def
  by (split if_split_asm) (auto simp: bindE_eq_Inr intro: moveOrders_sends exI [of _ "[]"])

lemma lt_sends: "lt_onTradeUpdate cfg fe rm pk u book om = Inr om' \<Longrightarrow> \<exists>rs. sends (sound_request (om_client_id om) rm) om rs om'"
  unfolding lt_onTradeUpdate_def Let_def
  by (split if_split_asm) (auto simp: bindE_eq_Inr split: if_split_asm intro: moveOrders_sends exI [of _ "[]"])

lemma mm_returns:
  assumes "risk_in_range tid (clip (cfg (unat tid))) rm pk" and "tame book"
  shows "\<exists>om' rs. mm_onOrderBookUpdate cfg fe rm pk tid book om = Inr om' \<and> om_sent om' = om_sent om @ rs \<and> length rs \<le> 2"
proof (cases "two_sided (mk_bbo book)")
  case True
  have tid: "unat tid < ME_MAX_TICKERS" using assms(1) by (simp add: risk_in_range_def)
  have i: "int64 (bbo_bid_price (mk_bbo book) - k) = Inr (bbo_bid_price (mk_bbo book) - k)"
    "int64 (bbo_ask_price (mk_bbo book) + k) = Inr (bbo_ask_price (mk_bbo book) + k)" if "k = 0 \<or> k = 1" for k
    using that assms(2) True by (auto simp: int64_def tame_def)
  define j where "j = (if mkt_price fe - of_price (bbo_bid_price (mk_bbo book)) \<ge> Fin (threshold (cfg (unat tid))) then 0 else (1::int))"
  define k where "k = (if of_price (bbo_ask_price (mk_bbo book)) - mkt_price fe \<ge> Fin (threshold (cfg (unat tid))) then 0 else (1::int))"
  have "mm_onOrderBookUpdate cfg fe rm pk tid book om
     = bindE (int64 (bbo_bid_price (mk_bbo book) - j)) (\<lambda>b. bindE (int64 (bbo_ask_price (mk_bbo book) + k)) (\<lambda>a.
       moveOrders rm pk tid b a (clip (cfg (unat tid))) om))"
    using True tid unfolding j_def k_def mm_onOrderBookUpdate_def Let_def
    by (simp add: double_ne_def Feature_INVALID_def del: if_split)
  moreover have "j = 0 \<or> j = 1" "k = 0 \<or> k = 1" by (simp_all add: j_def k_def)
  ultimately show ?thesis using move_returns [OF assms(1)] i by simp
next
  case False
  then show ?thesis by (simp add: mm_onOrderBookUpdate_def Let_def)
qed

lemma lt_returns:
  assumes "risk_in_range (upd_ticker_id u) (clip (cfg (unat (upd_ticker_id u)))) rm pk"
  shows "\<exists>om' rs. lt_onTradeUpdate cfg fe rm pk u book om = Inr om' \<and> om_sent om' = om_sent om @ rs \<and> length rs \<le> 2"
proof -
  have tid: "unat (upd_ticker_id u) < ME_MAX_TICKERS" using assms(1) by (simp add: risk_in_range_def)
  then show ?thesis using move_returns [OF assms(1)] by (simp add: lt_onTradeUpdate_def Let_def)
qed

interpretation maker: trading_algorithm rm "\<lambda>tid. clip (cfg (unat tid))"
  "\<lambda>fe pk tid price side book. mm_onOrderBookUpdate cfg fe rm pk tid book" "\<lambda>fe pk u book om. Inr (mm_onTradeUpdate u book om)" for rm cfg
  by unfold_locales (assumption | erule mm_sends | rule mm_returns | force simp: mm_onTradeUpdate_def intro: exI [of _ "[]"])+

interpretation taker: trading_algorithm rm "\<lambda>tid. clip (cfg (unat tid))"
  "\<lambda>fe pk tid price side book om. Inr (lt_onOrderBookUpdate tid price side om)" "\<lambda>fe pk. lt_onTradeUpdate cfg fe rm pk" for rm cfg
  by unfold_locales (assumption | erule lt_sends | rule lt_returns | force simp: lt_onOrderBookUpdate_def intro: exI [of _ "[]"])+

section \<open>The callbacks of the engine\<close>

abbreviation sound_for :: "TradeEngine \<Rightarrow> MEClientRequest \<Rightarrow> bool" where
  "sound_for te \<equiv> sound_request (om_client_id (te_orders te)) (te_risk te)"

lemma algo_book_sends:
  assumes "algoOnOrderBookUpdate tid price side book te = Inr om"
  shows "\<exists>rs. sends (sound_for te) (te_orders te) rs om"
proof (cases "te_algo te")
  case MAKER
  with assms show ?thesis using maker.book_sends by (simp add: algoOnOrderBookUpdate_def)
next
  case TAKER
  with assms show ?thesis using taker.book_sends [of tid price side "te_orders te" om] by (simp add: algoOnOrderBookUpdate_def)
qed (use assms in \<open>auto simp: algoOnOrderBookUpdate_def intro: exI [of _ "[]"]\<close>)

lemma algo_trade_sends:
  assumes "algoOnTradeUpdate u book te = Inr om"
  shows "\<exists>rs. sends (sound_for te) (te_orders te) rs om"
proof (cases "te_algo te")
  case MAKER
  with assms show ?thesis using maker.trade_sends [of u book "te_orders te" om] by (simp add: algoOnTradeUpdate_def)
next
  case TAKER
  with assms show ?thesis using taker.trade_sends by (simp add: algoOnTradeUpdate_def)
qed (use assms in \<open>auto simp: algoOnTradeUpdate_def intro: exI [of _ "[]"]\<close>)

lemma algo_order_sends: "algoOnOrderUpdate r te = Inr om \<Longrightarrow> sends P (te_orders te) [] om"
  by (cases "te_algo te") (auto simp: algoOnOrderUpdate_def mm_onOrderUpdate_def lt_onOrderUpdate_def intro: order_update_sends)

text \<open>
  \<open>served rs te te'\<close>: between the two states the engine wrote the requests \<open>rs\<close>, all of them sound, and numbered the
  new orders among them consecutively.
\<close>

definition served :: "MEClientRequest list \<Rightarrow> TradeEngine \<Rightarrow> TradeEngine \<Rightarrow> bool" where
  "served rs te te' \<longleftrightarrow> lfq_ok (te_requests te') \<and> contents (te_requests te') = contents (te_requests te) @ rs
     \<and> lfq_room (te_requests te') = lfq_room (te_requests te) - length rs
     \<and> om_sent (te_orders te') = [] \<and> te_risk te' = te_risk te \<and> te_algo te' = te_algo te \<and> te_cfg te' = te_cfg te
     \<and> om_client_id (te_orders te') = om_client_id (te_orders te) \<and> list_all (sound_for te) rs
     \<and> new_ids rs = ids_from (next_order_id (te_orders te)) (length (new_ids rs))
     \<and> next_order_id (te_orders te') = next_order_id (te_orders te) + of_nat (length (new_ids rs))"

lemma served_none: "lfq_ok (te_requests te) \<Longrightarrow> om_sent (te_orders te) = [] \<Longrightarrow> served [] te te"
  by (simp add: served_def)

lemma served_trans:
  assumes "served rs te te1" and "served qs te1 te2"
  shows "served (rs @ qs) te te2"
  using assms ids_from_add [of "next_order_id (te_orders te)" "length (new_ids rs)" "length (new_ids qs)"]
  by (simp add: served_def add.assoc)

text \<open>The algorithm's calls, written to the queue.\<close>

lemma sent_served:
  assumes q: "lfq_ok (te_requests te)" "om_sent (te_orders te) = []" and s: "sends (sound_for te) (te_orders te) rs om"
    and te1: "te_requests te1 = te_requests te" "te_risk te1 = te_risk te" "te_algo te1 = te_algo te" "te_cfg te1 = te_cfg te"
    and o: "send_orders (te1\<lparr>te_orders := om\<rparr>) = Inr te'"
  shows "served rs te te' \<and> te_books te' = te_books te1 \<and> te_responses te' = te_responses te1 \<and> te_updates te' = te_updates te1
    \<and> te_positions te' = te_positions te1"
proof -
  have om: "om_sent om = rs" using s q(2) by (simp add: sends_def)
  obtain q' where "te' = te1\<lparr>te_orders := om\<lparr>om_sent := []\<rparr>, te_requests := q'\<rparr>" "lfq_ok q'"
    "contents q' = contents (te_requests te) @ rs" "lfq_room q' = lfq_room (te_requests te) - length rs"
    using send_orders_ok [OF _ o] q(1) te1(1) om by auto
  then show ?thesis using s te1 by (simp add: served_def sends_def)
qed

text \<open>\<open>drives f\<close>: the operation \<open>f\<close> leaves the books and the incoming queues, and only writes sound requests.\<close>

definition drives :: "(TradeEngine \<Rightarrow> TradeEngine res) \<Rightarrow> bool" where
  "drives f \<longleftrightarrow> (\<forall>te te'. f te = Inr te' \<longrightarrow> lfq_ok (te_requests te) \<longrightarrow> om_sent (te_orders te) = []
     \<longrightarrow> (\<exists>rs. served rs te te') \<and> te_books te' = te_books te \<and> te_responses te' = te_responses te \<and> te_updates te' = te_updates te)"

lemma book_update_drives: "drives (te_onOrderBookUpdate tid price side book)"
  unfolding drives_def
proof (intro allI impI)
  fix te te' assume run: "te_onOrderBookUpdate tid price side book te = Inr te'" and q: "lfq_ok (te_requests te)" "om_sent (te_orders te) = []"
  obtain pk fe om where h: "algoOnOrderBookUpdate tid price side (te_books te book) (te\<lparr>te_positions := pk, te_features := fe\<rparr>) = Inr om"
    "send_orders (te\<lparr>te_positions := pk, te_features := fe, te_orders := om\<rparr>) = Inr te'"
    using run by (auto simp: te_onOrderBookUpdate_def Let_def bindE_eq_Inr)
  obtain rs where "sends (sound_for te) (te_orders te) rs om" using algo_book_sends [OF h(1)] by auto
  from sent_served [OF q this, of "te\<lparr>te_positions := pk, te_features := fe\<rparr>"] h(2)
  show "(\<exists>rs. served rs te te') \<and> te_books te' = te_books te \<and> te_responses te' = te_responses te \<and> te_updates te' = te_updates te"
    by auto
qed

lemma trade_update_drives: "drives (te_onTradeUpdate u book)"
  unfolding drives_def
proof (intro allI impI)
  fix te te' assume run: "te_onTradeUpdate u book te = Inr te'" and q: "lfq_ok (te_requests te)" "om_sent (te_orders te) = []"
  define te1 where "te1 = te\<lparr>te_features := fe_onTradeUpdate u (te_books te book) (te_features te)\<rparr>"
  obtain om where h: "algoOnTradeUpdate u (te_books te book) te1 = Inr om" "send_orders (te1\<lparr>te_orders := om\<rparr>) = Inr te'"
    using run by (auto simp: te_onTradeUpdate_def Let_def bindE_eq_Inr te1_def)
  obtain rs where "sends (sound_for te) (te_orders te) rs om" using algo_trade_sends [OF h(1)] by (auto simp: te1_def)
  from sent_served [OF q this, of te1] h(2)
  show "(\<exists>rs. served rs te te') \<and> te_books te' = te_books te \<and> te_responses te' = te_responses te \<and> te_updates te' = te_updates te"
    by (auto simp: te1_def)
qed

lemma order_update_drives: "drives (te_onOrderUpdate r)"
  unfolding drives_def
proof (intro allI impI)
  fix te te' assume run: "te_onOrderUpdate r te = Inr te'" and q: "lfq_ok (te_requests te)" "om_sent (te_orders te) = []"
  obtain pk om where h: "algoOnOrderUpdate r (te\<lparr>te_positions := pk\<rparr>) = Inr om" "send_orders (te\<lparr>te_positions := pk, te_orders := om\<rparr>) = Inr te'"
    using run by (auto simp: te_onOrderUpdate_def bindE_eq_Inr split: if_split_asm) (metis TradeEngine.surjective TradeEngine.update_convs(8))
  have "sends (sound_for te) (te_orders te) [] om" using algo_order_sends [OF h(1)] by simp
  from sent_served [OF q this, of "te\<lparr>te_positions := pk\<rparr>"] h(2)
  show "(\<exists>rs. served rs te te') \<and> te_books te' = te_books te \<and> te_responses te' = te_responses te \<and> te_updates te' = te_updates te"
    by auto
qed

lemma event_drives: "drives (te_event book e)"
  using book_update_drives trade_update_drives by (cases e) (simp_all add: drives_def te_event_def)

section \<open>The rounds of the thread\<close>

lemma send_orders_frame:
  assumes "send_orders te = Inr te'"
  shows "te_books te' = te_books te \<and> te_responses te' = te_responses te \<and> te_updates te' = te_updates te"
proof -
  have "te_books te' = te_books te1 \<and> te_responses te' = te_responses te1 \<and> te_updates te' = te_updates te1"
    if "foldE te_sendClientRequest rs te1 = Inr te'" for rs te1
    by (rule foldE_invariant [OF that]) (auto simp: te_sendClientRequest_def bindE_eq_Inr)
  from this [OF assms [unfolded send_orders_def]] show ?thesis by simp
qed

lemma event_frame:
  "te_onOrderUpdate r te = Inr te' \<Longrightarrow> te_responses te' = te_responses te"
  "te_event book e te = Inr te' \<Longrightarrow> te_updates te' = te_updates te"
  by (auto simp: te_onOrderUpdate_def te_event_def te_onTradeUpdate_def te_onOrderBookUpdate_def Let_def bindE_eq_Inr
      dest!: send_orders_frame split: MarketEvent.splits if_split_asm)

lemma stamp_fields [simp]:
  "te_books (stamp_event te) = te_books te" "te_requests (stamp_event te) = te_requests te"
  "te_responses (stamp_event te) = te_responses te" "te_updates (stamp_event te) = te_updates te"
  "te_orders (stamp_event te) = te_orders te" "te_risk (stamp_event te) = te_risk te" "te_algo (stamp_event te) = te_algo te"
  "te_cfg (stamp_event te) = te_cfg te" "te_positions (stamp_event te) = te_positions te"
  by (simp_all add: stamp_event_def)

lemma response_consumes: "consumes te_responses te_on_response"
  by (rule consumesI) (auto simp: te_on_response_def bindE_eq_Inr dest: event_frame(1))

lemma update_consumes: "consumes te_updates te_on_update"
  by (rule consumesI) (auto simp: te_on_update_def Let_def bindE_eq_Inr dest!: event_frame(2))

lemma on_response_step:
  assumes "te_on_response r te = Inr te'" and "lfq_ok (te_requests te)" "om_sent (te_orders te) = []"
  shows "(\<exists>rs. served rs te te') \<and> te_books te' = te_books te \<and> te_updates te' = te_updates te"
proof -
  obtain te1 where te1: "te_onOrderUpdate r te = Inr te1"
    "te' = stamp_event (te1\<lparr>te_responses := snd (updateReadIndex (te_responses te1))\<rparr>)"
    using assms(1) by (auto simp: te_on_response_def bindE_eq_Inr)
  with order_update_drives [of r] assms(2,3) show ?thesis by (simp add: drives_def served_def)
qed

lemma on_update_step:
  assumes "te_on_update u te = Inr te'" and "lfq_ok (te_requests te)" "om_sent (te_orders te) = []"
  shows "unat (upd_ticker_id u) < ME_MAX_TICKERS
    \<and> (\<exists>rs. served rs te te') \<and> te_responses te' = te_responses te
    \<and> (\<exists>mb. market_step u (te_books te (unat (upd_ticker_id u))) = Inr mb \<and> te_books te' = (te_books te)(unat (upd_ticker_id u) := mb))"
proof -
  let ?b = "unat (upd_ticker_id u)"
  obtain e mb te1 where b: "?b < ME_MAX_TICKERS" "onMarketUpdate u (te_books te ?b) = Inr (e, mb)"
    and te1: "te_event ?b e (te\<lparr>te_books := (te_books te)(?b := mb)\<rparr>) = Inr te1"
    "te' = stamp_event (te1\<lparr>te_updates := snd (updateReadIndex (te_updates te1))\<rparr>)"
    using assms(1) by (auto simp: te_on_update_def Let_def bindE_eq_Inr assertE_eq)
  have "(\<exists>rs. served rs (te\<lparr>te_books := (te_books te)(?b := mb)\<rparr>) te1) \<and> te_books te1 = (te_books te)(?b := mb)
    \<and> te_responses te1 = te_responses te"
    using event_drives [of ?b e, unfolded drives_def, rule_format, OF te1(1)] assms(2,3) by simp
  then show ?thesis using b te1(2) by (simp add: served_def market_step_def)
qed

lemma responses_run:
  assumes "foldE te_on_response rs te = Inr te'" and "lfq_ok (te_requests te)" "om_sent (te_orders te) = []"
  shows "(\<exists>qs. served qs te te') \<and> te_books te' = te_books te \<and> te_updates te' = te_updates te"
  using assms
proof (induction rs arbitrary: te)
  case Nil
  then show ?case using served_none by auto
next
  case (Cons r rs)
  obtain te1 where te1: "te_on_response r te = Inr te1" "foldE te_on_response rs te1 = Inr te'"
    using Cons.prems(1) by (auto simp: bindE_eq_Inr)
  obtain qs where s: "served qs te te1" "te_books te1 = te_books te" "te_updates te1 = te_updates te"
    using on_response_step [OF te1(1) Cons.prems(2,3)] by blast
  then have "lfq_ok (te_requests te1)" "om_sent (te_orders te1) = []" by (simp_all add: served_def)
  note ih = Cons.IH [OF te1(2) this]
  then obtain ps where "served ps te1 te'" by blast
  from served_trans [OF s(1) this] ih s(2,3) show ?case by auto
qed

abbreviation of_ticker :: "nat \<Rightarrow> MEMarketUpdate list \<Rightarrow> MEMarketUpdate list" where
  "of_ticker t us \<equiv> filter (\<lambda>u. unat (upd_ticker_id u) = t) us"

lemma updates_run:
  assumes "foldE te_on_update us te = Inr te'" and "lfq_ok (te_requests te)" "om_sent (te_orders te) = []"
  shows "(\<exists>qs. served qs te te') \<and> te_responses te' = te_responses te
    \<and> (\<forall>t. foldE market_step (of_ticker t us) (te_books te t) = Inr (te_books te' t))"
  using assms
proof (induction us arbitrary: te)
  case Nil
  then show ?case using served_none by auto
next
  case (Cons u us)
  obtain te1 where te1: "te_on_update u te = Inr te1" "foldE te_on_update us te1 = Inr te'"
    using Cons.prems(1) by (auto simp: bindE_eq_Inr)
  obtain qs mb where s: "served qs te te1" "te_responses te1 = te_responses te"
    "market_step u (te_books te (unat (upd_ticker_id u))) = Inr mb" "te_books te1 = (te_books te)(unat (upd_ticker_id u) := mb)"
    using on_update_step [OF te1(1) Cons.prems(2,3)] by blast
  then have "lfq_ok (te_requests te1)" "om_sent (te_orders te1) = []" by (simp_all add: served_def)
  note ih = Cons.IH [OF te1(2) this]
  then obtain ps where "served ps te1 te'" by blast
  have "foldE market_step (of_ticker t (u # us)) (te_books te t) = Inr (te_books te' t)" for t
  proof -
    have "foldE market_step (of_ticker t us) (te_books te1 t) = Inr (te_books te' t)" using ih by blast
    then show ?thesis using s(3,4) by (cases "t = unat (upd_ticker_id u)") simp_all
  qed
  moreover have "te_responses te' = te_responses te" using ih s(2) by simp
  ultimately show ?case using served_trans [OF s(1) \<open>served ps te1 te'\<close>] by blast
qed

lemma te_round_fold:
  assumes "lfq_ok (te_responses te)" "lfq_ok (te_updates te)" "lfq_ok (te_requests te)" "om_sent (te_orders te) = []"
  shows "te_round te = bindE (foldE te_on_response (contents (te_responses te)) te) (foldE te_on_update (contents (te_updates te)))"
proof -
  have "drain no_guard te_responses te_on_response te = foldE te_on_response (contents (te_responses te)) te"
    by (rule drain_foldE [OF response_consumes guards_ok(2) assms(1)])
  moreover have "drain no_guard te_updates te_on_update te1 = foldE te_on_update (contents (te_updates te)) te1"
    if "foldE te_on_response (contents (te_responses te)) te = Inr te1" for te1
    using drain_foldE [OF update_consumes guards_ok(2), of te1] responses_run [OF that assms(3,4)] assms(2) by simp
  ultimately show ?thesis unfolding te_round_def by (simp cong: bindE_cong)
qed

section \<open>The engine returns\<close>

definition calm_price :: "Price \<Rightarrow> bool" where
  "calm_price p \<longleftrightarrow> p = Price_INVALID \<or> \<bar>p\<bar> < 2 ^ 30"

definition calm :: "MarketOrderBook \<Rightarrow> bool" where
  "calm mb \<longleftrightarrow> (\<forall>s. book_side s \<longrightarrow> calm_price (fst (bbo_side s mb)))"

lemma calm_sides: "calm mb \<longleftrightarrow> calm_price (bbo_bid_price (mk_bbo mb)) \<and> calm_price (bbo_ask_price (mk_bbo mb))"
  by (auto simp: calm_def book_side_def bbo_side_def)

lemma calm_tame: "calm mb \<Longrightarrow> tame mb"
  by (auto simp: calm_sides calm_price_def tame_def two_sided_def)

lemma features_return: "tame mb \<Longrightarrow> \<exists>fe'. fe_onOrderBookUpdate mb fe = Inr fe'"
proof (cases "two_sided (mk_bbo mb)")
  case True
  assume "tame mb"
  then have b: "\<bar>bbo_bid_price (mk_bbo mb)\<bar> < 2 ^ 30" "\<bar>bbo_ask_price (mk_bbo mb)\<bar> < 2 ^ 30" using True by (simp_all add: tame_def)
  have bound: "\<bar>x * uint k\<bar> \<le> (2 ^ 30 - 1) * 2 ^ 32" if "\<bar>x\<bar> < 2 ^ 30" for x :: int and k :: Qty
    unfolding abs_mult using that uint_lt2p [of k] by (intro mult_mono) auto
  define m where "m = bbo_bid_price (mk_bbo mb) * uint (bbo_ask_qty (mk_bbo mb))"
  define n where "n = bbo_ask_price (mk_bbo mb) * uint (bbo_bid_qty (mk_bbo mb))"
  have "\<bar>m\<bar> \<le> (2 ^ 30 - 1) * 2 ^ 32" "\<bar>n\<bar> \<le> (2 ^ 30 - 1) * 2 ^ 32" using bound b by (simp_all add: m_def n_def)
  then have "int64 m = Inr m" "int64 n = Inr n" "int64 (m + n) = Inr (m + n)" by (auto simp: int64_def abs_le_iff)
  then show ?thesis by (simp add: fe_onOrderBookUpdate_def Let_def m_def n_def)
qed (simp add: fe_onOrderBookUpdate_def Let_def)

lemma open_pnl_returns: "\<bar>sint (position info)\<bar> < 2 ^ 31 \<Longrightarrow> \<exists>x. open_pnl price info = Inr x"
  by (auto simp: open_pnl_def Let_def int32_def)

lemma position_bbo_returns:
  assumes "\<bar>sint (position info)\<bar> < 2 ^ 31" and "calm_price (bbo_bid_price bbo)" "calm_price (bbo_ask_price bbo)"
  shows "\<exists>info'. pos_updateBBO book bbo info = Inr info' \<and> position info' = position info"
proof (cases "position info \<noteq> 0 \<and> bbo_bid_price bbo \<noteq> Price_INVALID \<and> bbo_ask_price bbo \<noteq> Price_INVALID")
  case True
  then have "int64 (bbo_bid_price bbo + bbo_ask_price bbo) = Inr (bbo_bid_price bbo + bbo_ask_price bbo)"
    using assms(2,3) by (auto simp: calm_price_def int64_def)
  moreover obtain x where "open_pnl (real_of_int (bbo_bid_price bbo + bbo_ask_price bbo) * (1 / 2)) (info\<lparr>pi_bbo := Some book\<rparr>) = Inr x"
    using open_pnl_returns [of "info\<lparr>pi_bbo := Some book\<rparr>"] assms(1) by auto
  ultimately show ?thesis using True by (simp add: pos_updateBBO_def Let_def)
qed (auto simp: pos_updateBBO_def Let_def)

lemma risk_in_range_cong: "(\<And>i. position (pk' i) = position (pk i)) \<Longrightarrow> risk_in_range tid q rm pk' = risk_in_range tid q rm pk"
  by (simp add: risk_in_range_def)

lemma algo_book_law:
  assumes "risk_in_range tid (clip (te_cfg te (unat tid))) (te_risk te) (te_positions te)" and "tame book"
  shows "\<exists>om rs. algoOnOrderBookUpdate tid price side book te = Inr om \<and> sends (sound_for te) (te_orders te) rs om \<and> length rs \<le> 2"
proof (cases "te_algo te")
  case MAKER
  then show ?thesis using maker.book_law [where cfg = "te_cfg te", OF assms] by (simp add: algoOnOrderBookUpdate_def)
next
  case TAKER
  then show ?thesis using taker.book_law [where cfg = "te_cfg te", OF assms] by (simp add: algoOnOrderBookUpdate_def)
qed (auto simp: algoOnOrderBookUpdate_def intro: exI [of _ "[]"])

lemma algo_trade_law:
  assumes "risk_in_range (upd_ticker_id u) (clip (te_cfg te (unat (upd_ticker_id u)))) (te_risk te) (te_positions te)"
  shows "\<exists>om rs. algoOnTradeUpdate u book te = Inr om \<and> sends (sound_for te) (te_orders te) rs om \<and> length rs \<le> 2"
proof (cases "te_algo te")
  case MAKER
  then show ?thesis using maker.trade_law [where cfg = "te_cfg te", OF assms] by (simp add: algoOnTradeUpdate_def)
next
  case TAKER
  then show ?thesis using taker.trade_law [where cfg = "te_cfg te", OF assms] by (simp add: algoOnTradeUpdate_def)
qed (auto simp: algoOnTradeUpdate_def intro: exI [of _ "[]"])

text \<open>What the engine needs to handle an update of a ticker.\<close>

definition trades_safely :: "TickerId \<Rightarrow> TradeEngine \<Rightarrow> bool" where
  "trades_safely tid te \<longleftrightarrow> risk_in_range tid (clip (te_cfg te (unat tid))) (te_risk te) (te_positions te)
     \<and> \<bar>sint (position (te_positions te (unat tid)))\<bar> < 2 ^ 31"

definition same_positions :: "TradeEngine \<Rightarrow> TradeEngine \<Rightarrow> bool" where
  "same_positions te te' \<longleftrightarrow> (\<forall>i. position (te_positions te' i) = position (te_positions te i))"

lemma trades_safely_cong:
  "same_positions te te' \<Longrightarrow> te_cfg te' = te_cfg te \<Longrightarrow> te_risk te' = te_risk te \<Longrightarrow> trades_safely tid te' = trades_safely tid te"
  by (simp add: trades_safely_def same_positions_def risk_in_range_def)

lemma calls_returned:
  assumes q: "lfq_ok (te_requests te)" "2 \<le> lfq_room (te_requests te)" "om_sent (te_orders te) = []"
    and s: "sends (sound_for te) (te_orders te) rs om" "length rs \<le> 2"
    and te1: "te_requests te1 = te_requests te" "te_risk te1 = te_risk te" "te_algo te1 = te_algo te" "te_cfg te1 = te_cfg te"
    "te_books te1 = te_books te" "te_responses te1 = te_responses te" "te_updates te1 = te_updates te" "same_positions te te1"
  shows "\<exists>te'. send_orders (te1\<lparr>te_orders := om\<rparr>) = Inr te' \<and> served rs te te' \<and> same_positions te te' \<and> te_books te' = te_books te"
proof -
  have "om_sent om = rs" using s q(3) by (simp add: sends_def)
  then obtain te' where te': "send_orders (te1\<lparr>te_orders := om\<rparr>) = Inr te'"
    using send_orders_returns [of "te1\<lparr>te_orders := om\<rparr>"] q s(2) te1(1) by auto
  from sent_served [OF q(1,3) s(1) te1(1-4) te'] te' te1(5-8) show ?thesis by (auto simp: same_positions_def)
qed

lemma event_returns:
  assumes q: "lfq_ok (te_requests te)" "2 \<le> lfq_room (te_requests te)" "om_sent (te_orders te) = []"
    and c: "calm (te_books te (unat (upd_ticker_id u)))" and t: "trades_safely (upd_ticker_id u) te"
  shows "\<exists>te' rs. te_event (unat (upd_ticker_id u)) (event_of u) te = Inr te' \<and> served rs te te' \<and> length rs \<le> 2
    \<and> same_positions te te' \<and> te_books te' = te_books te"
proof (cases "upd_type u = Upd_TRADE")
  case True
  let ?te1 = "te\<lparr>te_features := fe_onTradeUpdate u (te_books te (unat (upd_ticker_id u))) (te_features te)\<rparr>"
  obtain om rs where a: "algoOnTradeUpdate u (te_books te (unat (upd_ticker_id u))) ?te1 = Inr om"
    "sends (sound_for te) (te_orders te) rs om" "length rs \<le> 2"
    using algo_trade_law [of u ?te1 "te_books te (unat (upd_ticker_id u))"] t by (auto simp: trades_safely_def)
  from calls_returned [OF q a(2,3), of ?te1] a show ?thesis
    using True by (auto simp: te_event_def event_of_def te_onTradeUpdate_def Let_def same_positions_def)
next
  case False
  let ?t = "unat (upd_ticker_id u)" and ?mb = "te_books te (unat (upd_ticker_id u))"
  have tid: "?t < ME_MAX_TICKERS" using t by (simp add: trades_safely_def risk_in_range_def)
  obtain info where info: "pos_updateBBO ?t (mk_bbo ?mb) (te_positions te ?t) = Inr info" "position info = position (te_positions te ?t)"
    using position_bbo_returns [of "te_positions te ?t" "mk_bbo ?mb"] t c by (auto simp: trades_safely_def calm_sides)
  define pk where "pk = (te_positions te)(?t := info)"
  have pk: "pk_updateBBO (upd_ticker_id u) ?t (mk_bbo ?mb) (te_positions te) = Inr pk"
    using tid info(1) by (simp add: pk_updateBBO_def pk_def)
  have same: "position (pk i) = position (te_positions te i)" for i using info(2) by (simp add: pk_def)
  obtain fe where fe: "fe_onOrderBookUpdate ?mb (te_features te) = Inr fe" using features_return [OF calm_tame [OF c]] by blast
  let ?te1 = "te\<lparr>te_positions := pk, te_features := fe\<rparr>"
  have "risk_in_range (upd_ticker_id u) (clip (te_cfg te ?t)) (te_risk te) pk"
    using t risk_in_range_cong [of pk "te_positions te"] same by (simp add: trades_safely_def)
  then obtain om rs where a: "algoOnOrderBookUpdate (upd_ticker_id u) (upd_price u) (upd_side u) ?mb ?te1 = Inr om"
    "sends (sound_for te) (te_orders te) rs om" "length rs \<le> 2"
    using algo_book_law [of "upd_ticker_id u" ?te1 ?mb "upd_price u" "upd_side u"] calm_tame [OF c] by auto
  from calls_returned [OF q a(2,3), of ?te1] a pk fe same show ?thesis
    using False by (auto simp: te_event_def event_of_def te_onOrderBookUpdate_def Let_def same_positions_def)
qed

text \<open>\<open>market_ready n pbs te\<close>: the engine's books represent \<open>pbs\<close>, and it can handle \<open>n\<close> more updates.\<close>

definition priced :: "spec_book \<Rightarrow> bool" where
  "priced pb \<longleftrightarrow> (\<forall>s. book_side s \<longrightarrow> (\<forall>x \<in> set (pb s). \<bar>o_price x\<bar> < 2 ^ 30))"

definition market_ready :: "nat \<Rightarrow> (nat \<Rightarrow> spec_book) \<Rightarrow> TradeEngine \<Rightarrow> bool" where
  "market_ready n pbs te \<longleftrightarrow>
     (\<forall>t < ME_MAX_TICKERS. represents (embed (te_books te t)) (pbs t) \<and> room n (te_books te t) \<and> priced (pbs t) \<and> calm (te_books te t))
     \<and> (\<forall>tid. unat tid < ME_MAX_TICKERS \<longrightarrow> trades_safely tid te)
     \<and> lfq_ok (te_requests te) \<and> 2 * n \<le> lfq_room (te_requests te) \<and> om_sent (te_orders te) = []"

definition takes_market :: "MEMarketUpdate \<Rightarrow> (nat \<Rightarrow> spec_book) \<Rightarrow> bool" where
  "takes_market u pbs \<longleftrightarrow> unat (upd_ticker_id u) < ME_MAX_TICKERS \<and> can_mirror u (pbs (unat (upd_ticker_id u))) \<and> \<bar>upd_price u\<bar> < 2 ^ 30"

definition mirrors :: "MEMarketUpdate \<Rightarrow> (nat \<Rightarrow> spec_book) \<Rightarrow> nat \<Rightarrow> spec_book" where
  "mirrors u pbs = pbs(unat (upd_ticker_id u) := mirror u (pbs (unat (upd_ticker_id u))))"

lemma mirror_priced: "priced pb \<Longrightarrow> \<bar>upd_price u\<bar> < 2 ^ 30 \<Longrightarrow> priced (mirror u pb)"
  by (auto simp: priced_def mirror_def set_of_rest order_of_update_def split: MarketUpdateType.splits)

lemma top_calm: "priced pb \<Longrightarrow> book_side s \<Longrightarrow> calm_price (fst (top_of (pb s)))"
  by (auto simp: priced_def top_of_def calm_price_def split: list.split)


lemma market_ready_D:
  assumes "market_ready n pbs te" and "t < ME_MAX_TICKERS"
  shows "represents (embed (te_books te t)) (pbs t)" "room n (te_books te t)" "priced (pbs t)" "calm (te_books te t)"
  using assms by (simp_all add: market_ready_def)

lemma on_update_returns:
  assumes rd: "market_ready (Suc n) pbs te" and u: "takes_market u pbs"
  shows "\<exists>te' rs. te_on_update u te = Inr te' \<and> served rs te te' \<and> length rs \<le> 2 \<and> market_ready n (mirrors u pbs) te'"
proof -
  let ?t = "unat (upd_ticker_id u)"
  have t: "?t < ME_MAX_TICKERS" and cm: "can_mirror u (pbs ?t)" and p: "\<bar>upd_price u\<bar> < 2 ^ 30"
    using u by (simp_all add: takes_market_def)
  note d = market_ready_D [OF rd t]
  have q: "lfq_ok (te_requests te)" "2 * Suc n \<le> lfq_room (te_requests te)" "om_sent (te_orders te) = []"
    and safe: "trades_safely tid te" if "unat tid < ME_MAX_TICKERS" for tid using rd that by (simp_all add: market_ready_def)
  have q: "lfq_ok (te_requests te)" "2 * Suc n \<le> lfq_room (te_requests te)" "om_sent (te_orders te) = []"
    using rd by (simp_all add: market_ready_def)
  obtain mb where mb: "onMarketUpdate u (te_books te ?t) = Inr (event_of u, mb)" "represents (embed mb) (mirror u (pbs ?t))"
    "\<forall>s. book_side s \<longrightarrow> bbo_side s mb =
       (if upd_type u \<noteq> Upd_TRADE \<and> at_top s u (pbs ?t) then top_of (mirror u (pbs ?t) s) else bbo_side s (te_books te ?t))"
    "\<forall>k. room (adds [u] + k) (te_books te ?t) \<longrightarrow> room k mb"
    using onMarketUpdate_refines [OF d(1) takes_updateI [OF d(1) cm d(2)]] by blast
  have "room (adds [u] + n) (te_books te ?t)" by (rule room_mono [OF d(2)]) simp
  then have rm: "room n mb" using mb(4) by blast
  have pr: "priced (mirror u (pbs ?t))" by (rule mirror_priced [OF d(3) p])
  have "calm mb" using mb(3) d(4) top_calm [OF pr] by (auto simp: calm_def)
  let ?te1 = "te\<lparr>te_books := (te_books te)(?t := mb)\<rparr>"
  have "trades_safely (upd_ticker_id u) ?te1" using safe [OF t] by (simp add: trades_safely_def)
  then obtain te2 rs where te2: "te_event ?t (event_of u) ?te1 = Inr te2" "served rs ?te1 te2" "length rs \<le> 2" "same_positions ?te1 te2"
    "te_books te2 = te_books ?te1"
    using event_returns [of ?te1 u] q \<open>calm mb\<close> by auto
  let ?te' = "stamp_event (te2\<lparr>te_updates := snd (updateReadIndex (te_updates te2))\<rparr>)"
  have run: "te_on_update u te = Inr ?te'" using t mb(1) te2(1) by (simp add: te_on_update_def Let_def)
  have sv: "served rs te ?te'" using te2(2) by (simp add: served_def)
  have "same_positions te ?te'" using te2(4) by (simp add: same_positions_def)
  then have "trades_safely tid ?te'" if "unat tid < ME_MAX_TICKERS" for tid
    using safe [OF that] trades_safely_cong [of te ?te' tid] sv by (simp add: served_def)
  moreover have "represents (embed (te_books ?te' k)) (mirrors u pbs k) \<and> room n (te_books ?te' k) \<and> priced (mirrors u pbs k) \<and> calm (te_books ?te' k)"
    if "k < ME_MAX_TICKERS" for k
    using mb(2) rm pr \<open>calm mb\<close> te2(5) market_ready_D [OF rd that] room_mono [of "Suc n" "te_books te k" n]
    by (cases "k = ?t") (simp_all add: mirrors_def)
  ultimately have "market_ready n (mirrors u pbs) ?te'"
    using sv q(2) te2(3) by (auto simp: market_ready_def served_def)
  then show ?thesis using run sv te2(3) by blast
qed


fun takes_market_all :: "MEMarketUpdate list \<Rightarrow> (nat \<Rightarrow> spec_book) \<Rightarrow> bool" where
  "takes_market_all [] pbs \<longleftrightarrow> True"
| "takes_market_all (u # us) pbs \<longleftrightarrow> takes_market u pbs \<and> takes_market_all us (mirrors u pbs)"

lemma updates_return:
  assumes "market_ready (length us) pbs te" and "takes_market_all us pbs"
  shows "\<exists>te' rs. foldE te_on_update us te = Inr te' \<and> served rs te te' \<and> length rs \<le> 2 * length us
    \<and> market_ready 0 (fold mirrors us pbs) te'"
  using assms
proof (induction us arbitrary: pbs te)
  case Nil
  then have "served [] te te" by (intro served_none) (simp_all add: market_ready_def)
  then show ?case using Nil by auto
next
  case (Cons u us)
  obtain te1 rs where te1: "te_on_update u te = Inr te1" "served rs te te1" "length rs \<le> 2" "market_ready (length us) (mirrors u pbs) te1"
    using on_update_returns [of "length us" pbs te u] Cons.prems by auto
  obtain te' qs where te': "foldE te_on_update us te1 = Inr te'" "served qs te1 te'" "length qs \<le> 2 * length us"
    "market_ready 0 (fold mirrors us (mirrors u pbs)) te'" using Cons.IH [OF te1(4)] Cons.prems(2) by auto
  have "served (rs @ qs) te te'" by (rule served_trans [OF te1(2) te'(2)])
  moreover have "length (rs @ qs) \<le> 2 * length (u # us)" using te1(3) te'(3) by simp
  ultimately show ?case using te1(1) te'(1,4) by (intro exI [of _ te'] exI [of _ "rs @ qs"]) simp
qed

end
