(* ===== verification/Trade_Engine_Props.thy ===== *)
theory Trade_Engine_Props
  imports Trade_Engine Matching_Engine
begin

text \<open>
  The theorems of the trade engine: what a round does, that it does it for every market feed that the books can
  follow, and that its treatment of a response is the one of the order manager's session.
\<close>

section \<open>A new engine\<close>

lemma new_books:
  "\<exists>books. foldE (\<lambda>i books. bindE (MarketOrderBook_init (of_nat i) (\<lambda>_. None) (\<lambda>_. None)) (\<lambda>mb. Inr (books(i := mb))))
      [0..<n] (\<lambda>_. junk) = Inr books
    \<and> (\<forall>t < n. represents (embed (books t)) (\<lambda>_. []) \<and> room 256 (books t) \<and> mk_bbo (books t) = BBO_default)"
proof (induction n)
  case (Suc n)
  obtain mb where mb: "MarketOrderBook_init (of_nat n) (\<lambda>_. None) (\<lambda>_. None) = Inr mb" "represents (embed mb) (\<lambda>_. [])" "room 256 mb"
    "mk_bbo mb = BBO_default" using MarketOrderBook_init_ok by blast
  with Suc show ?case by (auto simp: foldE_append less_Suc_eq)
qed simp

lemma new_engine_ready:
  assumes "lfq_ok reqs" and "2 * n \<le> lfq_room reqs" and "n \<le> 256" and "\<forall>t < ME_MAX_TICKERS. uint (clip (cfg t)) < 2 ^ 31"
  shows "\<exists>te. TradeEngine_init (\<lambda>_ _. None) (\<lambda>_ _. None) vwap_mem junk clock cid algo cfg reqs rsps upds = Inr te
    \<and> market_ready n (\<lambda>_ _. []) te \<and> te_requests te = reqs \<and> te_responses te = rsps \<and> te_updates te = upds \<and> te_algo te = algo
    \<and> om_client_id (te_orders te) = cid \<and> next_order_id (te_orders te) = 1 \<and> te_risk te = RiskManager_init cfg"
proof -
  obtain books where b: "foldE (\<lambda>i books. bindE (MarketOrderBook_init (of_nat i) (\<lambda>_. None) (\<lambda>_. None)) (\<lambda>mb. Inr (books(i := mb))))
      [0..<ME_MAX_TICKERS] (\<lambda>_. junk) = Inr books"
    "\<forall>t < ME_MAX_TICKERS. represents (embed (books t)) (\<lambda>_. []) \<and> room 256 (books t) \<and> mk_bbo (books t) = BBO_default"
    using new_books by blast
  define te where "te = \<lparr>te_client_id = cid, te_books = books, te_requests = reqs, te_responses = rsps, te_updates = upds,
    last_event_time = 0, te_features = FeatureEngine_init, te_positions = PositionKeeper_init vwap_mem,
    te_orders = OrderManager_init cid, te_risk = RiskManager_init cfg, te_algo = algo, te_cfg = cfg, te_clock = clock\<rparr>"
  have pos: "position (te_positions te i) = 0" for i by (simp add: te_def PositionKeeper_init_def PositionInfo_init_def)
  have safe: "trades_safely tid te" if "unat tid < ME_MAX_TICKERS" for tid
    using that assms(4) pos by (simp add: trades_safely_def risk_in_range_def) (simp add: te_def RiskManager_init_def)
  have calm: "calm (books t)" if "t < ME_MAX_TICKERS" for t
    using b(2) that by (simp add: calm_sides calm_price_def BBO_default_def)
  have "market_ready n (\<lambda>_ _. []) te"
    using b(2) assms(1-3) safe calm room_mono [of 256 _ n]
    by (simp add: market_ready_def priced_def) (simp add: te_def OrderManager_init_def)
  moreover have "TradeEngine_init (\<lambda>_ _. None) (\<lambda>_ _. None) vwap_mem junk clock cid algo cfg reqs rsps upds = Inr te"
    using b(1) by (simp add: TradeEngine_init_def te_def)
  ultimately show ?thesis by (auto simp: te_def OrderManager_init_def)
qed


lemma market_served:
  assumes "market_ready (length us) pbs te" and "takes_market_all us pbs" and "lfq_ok (te_updates te)" and "contents (te_updates te) = us"
    and "lfq_ok (te_responses te)" and "contents (te_responses te) = []"
  shows "\<exists>te' rs. te_round te = Inr te' \<and> contents (te_updates te') = []
    \<and> (\<forall>t < ME_MAX_TICKERS. represents (embed (te_books te' t)) (fold mirrors us pbs t))
    \<and> contents (te_requests te') = contents (te_requests te) @ rs \<and> length rs \<le> 2 * length us
    \<and> list_all (sound_request (om_client_id (te_orders te)) (te_risk te)) rs
    \<and> new_ids rs = ids_from (next_order_id (te_orders te)) (length (new_ids rs))"
proof -
  have q: "lfq_ok (te_requests te)" "om_sent (te_orders te) = []" using assms(1) by (simp_all add: market_ready_def)
  obtain te' rs where te': "foldE te_on_update us te = Inr te'" "served rs te te'" "length rs \<le> 2 * length us"
    "market_ready 0 (fold mirrors us pbs) te'" using updates_return [OF assms(1,2)] by blast
  have "te_round te = Inr te'" using te_round_fold [OF assms(5,3) q] assms(4,6) te'(1) by simp
  moreover have "contents (te_updates te') = []" using drained [OF update_consumes assms(3)] te'(1) assms(4) by blast
  ultimately show ?thesis using te'(2-4) market_ready_D(1) [OF te'(4)]
    by (intro exI [of _ te'] exI [of _ rs]) (simp add: served_def)
qed


section \<open>The responses of a round\<close>

text \<open>What the engine does with a response: a fill goes into the position, the order manager is told unless the
  algorithm is the default one, nothing else changes and nothing is sent.\<close>

definition told :: "AlgoType \<Rightarrow> MEClientResponse \<Rightarrow> OrderManager \<Rightarrow> OrderManager res" where
  "told algo r om = (if algo = MAKER \<or> algo = TAKER then om_onOrderUpdate r om else Inr om)"

lemma response_effect:
  assumes "te_on_response r te = Inr te'" and "om_sent (te_orders te) = []"
  shows "(if rsp_type r = Rsp_FILLED then pk_addFill r (te_positions te) else Inr (te_positions te)) = Inr (te_positions te')
    \<and> told (te_algo te) r (te_orders te) = Inr (te_orders te') \<and> om_sent (te_orders te') = []
    \<and> te_algo te' = te_algo te \<and> te_books te' = te_books te \<and> te_requests te' = te_requests te \<and> te_updates te' = te_updates te"
proof -
  obtain pk om te1 where e: "(if rsp_type r = Rsp_FILLED then pk_addFill r (te_positions te) else Inr (te_positions te)) = Inr pk"
    "algoOnOrderUpdate r (te\<lparr>te_positions := pk\<rparr>) = Inr om" "send_orders (te\<lparr>te_positions := pk, te_orders := om\<rparr>) = Inr te1"
    "te' = stamp_event (te1\<lparr>te_responses := snd (updateReadIndex (te_responses te1))\<rparr>)"
    using assms(1) by (auto simp: te_on_response_def te_onOrderUpdate_def bindE_eq_Inr split: if_split_asm)
  have t: "told (te_algo te) r (te_orders te) = Inr om"
    using e(2) by (auto simp: told_def algoOnOrderUpdate_def mm_onOrderUpdate_def lt_onOrderUpdate_def split: AlgoType.splits)
  have "om_sent om = []"
    using t assms(2) order_update_sends [of r "te_orders te" om] by (auto simp: told_def sends_def split: if_splits)
  then have same: "om\<lparr>om_sent := []\<rparr> = om" by (cases om) simp
  have "te1 = te\<lparr>te_positions := pk, te_orders := om\<rparr>" using e(3) \<open>om_sent om = []\<close> by (simp add: send_orders_def same)
  then show ?thesis using e(1,4) t \<open>om_sent om = []\<close> by simp
qed

lemma responses_effect:
  assumes "foldE te_on_response rs te = Inr te'" and "om_sent (te_orders te) = []"
  shows "foldE pk_addFill (filter (\<lambda>r. rsp_type r = Rsp_FILLED) rs) (te_positions te) = Inr (te_positions te')
    \<and> foldE (told (te_algo te)) rs (te_orders te) = Inr (te_orders te') \<and> te_requests te' = te_requests te"
  using assms
proof (induction rs arbitrary: te)
  case (Cons r rs)
  obtain te1 where te1: "te_on_response r te = Inr te1" "foldE te_on_response rs te1 = Inr te'"
    using Cons.prems(1) by (auto simp: bindE_eq_Inr)
  note e = response_effect [OF te1(1) Cons.prems(2)]
  with Cons.IH [OF te1(2)] show ?case by (cases "rsp_type r = Rsp_FILLED") auto
qed simp

text \<open>The updates of the market move no position, only the profit that the open position would bring.\<close>

definition same_fills :: "PositionKeeper \<Rightarrow> PositionKeeper \<Rightarrow> bool" where
  "same_fills pk pk' \<longleftrightarrow> (\<forall>i. position (pk' i) = position (pk i) \<and> volume (pk' i) = volume (pk i)
     \<and> real_pnl (pk' i) = real_pnl (pk i) \<and> open_vwap (pk' i) = open_vwap (pk i))"

lemma updateBBO_fills: "pk_updateBBO ticker book bbo pk = Inr pk' \<Longrightarrow> same_fills pk pk'"
  by (auto simp: same_fills_def pk_updateBBO_def pos_updateBBO_def array_at_def Let_def res_simps split: if_splits)

lemma send_positions:
  assumes "send_orders te = Inr te'"
  shows "te_positions te' = te_positions te"
proof -
  have "te_positions te' = te_positions te1" if "foldE te_sendClientRequest rs te1 = Inr te'" for rs te1
    by (rule foldE_invariant [OF that]) (auto simp: te_sendClientRequest_def bindE_eq_Inr)
  from this [OF assms [unfolded send_orders_def]] show ?thesis by simp
qed

lemma event_fills:
  assumes "te_event book e te = Inr te'"
  shows "same_fills (te_positions te) (te_positions te')"
proof (cases e)
  case (OnTradeUpdate u)
  then show ?thesis using assms by (auto simp: te_event_def te_onTradeUpdate_def Let_def bindE_eq_Inr same_fills_def dest: send_positions)
next
  case (OnOrderBookUpdate t p s)
  then show ?thesis using assms
    by (auto simp: te_event_def te_onOrderBookUpdate_def Let_def bindE_eq_Inr dest!: send_positions updateBBO_fills)
qed

lemma update_fills: "te_on_update u te = Inr te' \<Longrightarrow> same_fills (te_positions te) (te_positions te')"
  by (auto simp: te_on_update_def Let_def bindE_eq_Inr dest: event_fills)

lemma updates_fills: "foldE te_on_update us te = Inr te' \<Longrightarrow> same_fills (te_positions te) (te_positions te')"
proof (induction us arbitrary: te)
  case (Cons u us)
  then obtain te1 where "te_on_update u te = Inr te1" "foldE te_on_update us te1 = Inr te'" by (auto simp: bindE_eq_Inr)
  with Cons.IH update_fills show ?case by (fastforce simp: same_fills_def)
qed (simp add: same_fills_def)


section \<open>Properties\<close>

text \<open>C11: one round of the engine handles the market feed that waits, whatever the algorithm. When no response waits (C17
  is about those), the books can follow the
  waiting updates, their prices are below \<open>2 ^ 30\<close>, and the request queue has room for two requests for each, the
  round returns, has emptied the queue, every book represents what the updates of its ticker describe, and the
  requests written behind the old ones carry the engine's client id, consecutive new order ids, and quantities
  that the risk limits allow.\<close>

theorem engine_serves_market:
  assumes "market_ready (length us) pbs te" and "takes_market_all us pbs" and "lfq_ok (te_updates te)" and "contents (te_updates te) = us"
    and "lfq_ok (te_responses te)" and "contents (te_responses te) = []"
  shows "\<exists>te' rs. te_round te = Inr te' \<and> contents (te_updates te') = []
    \<and> (\<forall>t < ME_MAX_TICKERS. represents (embed (te_books te' t)) (fold mirrors us pbs t))
    \<and> contents (te_requests te') = contents (te_requests te) @ rs \<and> length rs \<le> 2 * length us
    \<and> list_all (sound_request (om_client_id (te_orders te)) (te_risk te)) rs
    \<and> new_ids rs = ids_from (next_order_id (te_orders te)) (length (new_ids rs))"
  by (rule market_served [OF assms])

definition sample_add :: MEMarketUpdate where
  "sample_add = \<lparr>upd_type = Upd_ADD, upd_order_id = 1, upd_ticker_id = 1, upd_side = BUY, upd_price = 100, upd_qty = 5, upd_priority = 1\<rparr>"

definition sample_empty :: "MEClientResponse LFQueue" where
  "sample_empty = \<lparr>qstore = (\<lambda>_. MEClientResponse_default), qsize = 16, write_pos = 0, read_pos = 0\<rparr>"

lemma sample_empty_ok: "lfq_ok sample_empty" "contents sample_empty = []"
  by (simp_all add: sample_empty_def lfq_ok_def contents_def is_pow2_16)

definition sample_no_updates :: "MEMarketUpdate LFQueue" where
  "sample_no_updates = \<lparr>qstore = (\<lambda>_. MEMarketUpdate_default), qsize = 16, write_pos = 0, read_pos = 0\<rparr>"

lemma sample_clips: "\<forall>t < ME_MAX_TICKERS. uint (clip (sample_cfg t)) < 2 ^ 31"
  by (simp add: sample_cfg_def)

lemma sample_takes: "takes_market_all [sample_add] (\<lambda>_ _. [])"
  by (simp add: takes_market_def sample_add_def can_mirror_def ME_MAX_TICKERS_def ME_MAX_ORDER_IDS_def in_mirror_def
      list_free_def book_side_def)

lemma sample_engine:
  obtains te where "TradeEngine_init (\<lambda>_ _. None) (\<lambda>_ _. None) (\<lambda>_ _. 0) quoted_book (\<lambda>_. 0) 7 MAKER sample_cfg
      (demo_queue sample_request) sample_empty (demo_queue sample_add) = Inr te" "market_ready 1 (\<lambda>_ _. []) te"
    "lfq_ok (te_updates te)" "contents (te_updates te) = [sample_add]" "lfq_ok (te_responses te)" "contents (te_responses te) = []"
    "lfq_ok (te_requests te)" "te_algo te = MAKER" "om_sent (te_orders te) = []"
  using new_engine_ready [where reqs = "demo_queue sample_request" and n = 1 and cfg = sample_cfg and vwap_mem = "\<lambda>_ _. 0"
      and junk = quoted_book and clock = "\<lambda>_. 0" and cid = 7 and algo = MAKER and rsps = sample_empty and upds = "demo_queue sample_add"]
    demo_queue_ok(1,3) [of sample_request] demo_queue_ok(1,2) [of sample_add] sample_clips sample_empty_ok
  by (auto simp: market_ready_def)

theorem engine_serves_market_witness:
  "\<exists>te te'. TradeEngine_init (\<lambda>_ _. None) (\<lambda>_ _. None) (\<lambda>_ _. 0) quoted_book (\<lambda>_. 0) 7 MAKER sample_cfg
      (demo_queue sample_request) sample_empty (demo_queue sample_add) = Inr te
    \<and> te_round te = Inr te' \<and> contents (te_updates te') = [] \<and> represents (embed (te_books te' 1)) (mirror sample_add (\<lambda>_. []))"
proof -
  obtain te where te: "TradeEngine_init (\<lambda>_ _. None) (\<lambda>_ _. None) (\<lambda>_ _. 0) quoted_book (\<lambda>_. 0) 7 MAKER sample_cfg
      (demo_queue sample_request) sample_empty (demo_queue sample_add) = Inr te" "market_ready 1 (\<lambda>_ _. []) te"
    "lfq_ok (te_updates te)" "contents (te_updates te) = [sample_add]" "lfq_ok (te_responses te)" "contents (te_responses te) = []"
    using sample_engine by blast
  from engine_serves_market [OF _ sample_takes te(3-6)] te(2) obtain te' where te': "te_round te = Inr te'" "contents (te_updates te') = []"
    "\<forall>t < ME_MAX_TICKERS. represents (embed (te_books te' t)) (fold mirrors [sample_add] (\<lambda>_ _. []) t)" by auto
  have "represents (embed (te_books te' 1)) (mirror sample_add (\<lambda>_. []))"
    using te'(3) [rule_format, of 1] by (simp add: ME_MAX_TICKERS_def mirrors_def sample_add_def)
  with te(1) te' show ?thesis by blast
qed

text \<open>C17: a completed round loses and reorders nothing, also when responses wait and the algorithm reacts to everything.
  The responses come first, each handled once and in their order: the fills among them go into the positions,
  all of them to the order manager when the algorithm is one of the two, and the state \<open>te1\<close> that they leave
  differs in nothing that the books or the outgoing requests see. From it, the updates go in their order
  through the books of their tickers, and no update changes what the fills made of the positions. Both queues
  are empty, and what was written to the request queue is sound and consecutively numbered, so no client
  order id is used twice.\<close>

theorem round_in_order:
  assumes "lfq_ok (te_responses te)" and "lfq_ok (te_updates te)" and "lfq_ok (te_requests te)" and "om_sent (te_orders te) = []"
    and "te_round te = Inr te'"
  shows "contents (te_responses te') = [] \<and> contents (te_updates te') = []
    \<and> (\<exists>te1. foldE pk_addFill (filter (\<lambda>r. rsp_type r = Rsp_FILLED) (contents (te_responses te))) (te_positions te) = Inr (te_positions te1)
        \<and> foldE (told (te_algo te)) (contents (te_responses te)) (te_orders te) = Inr (te_orders te1)
        \<and> te_books te1 = te_books te \<and> te_requests te1 = te_requests te
        \<and> foldE te_on_update (contents (te_updates te)) te1 = Inr te'
        \<and> (\<forall>i. position (te_positions te' i) = position (te_positions te1 i) \<and> volume (te_positions te' i) = volume (te_positions te1 i)
            \<and> real_pnl (te_positions te' i) = real_pnl (te_positions te1 i)))
    \<and> (\<forall>t. foldE market_step (filter (\<lambda>u. unat (upd_ticker_id u) = t) (contents (te_updates te))) (te_books te t) = Inr (te_books te' t))
    \<and> (\<exists>rs. contents (te_requests te') = contents (te_requests te) @ rs
        \<and> list_all (sound_request (om_client_id (te_orders te)) (te_risk te)) rs
        \<and> new_ids rs = ids_from (next_order_id (te_orders te)) (length (new_ids rs)))"
proof -
  obtain te1 where te1: "foldE te_on_response (contents (te_responses te)) te = Inr te1"
    "foldE te_on_update (contents (te_updates te)) te1 = Inr te'"
    using assms(5) te_round_fold [OF assms(1-4)] by (auto simp: bindE_eq_Inr)
  obtain qs where a: "served qs te te1" "te_books te1 = te_books te" "te_updates te1 = te_updates te"
    using responses_run [OF te1(1) assms(3,4)] by blast
  have q: "lfq_ok (te_requests te1)" "om_sent (te_orders te1) = []" using a(1) by (simp_all add: served_def)
  obtain rs where b: "served rs te1 te'" "te_responses te' = te_responses te1"
    "\<forall>t. foldE market_step (of_ticker t (contents (te_updates te))) (te_books te1 t) = Inr (te_books te' t)"
    using updates_run [OF te1(2) q] by blast
  have "contents (te_responses te1) = []" using drained [OF response_consumes assms(1) te1(1)] by blast
  moreover have "contents (te_updates te') = []"
    using drained [OF update_consumes, of te1 te'] te1(2) a(3) assms(2) by simp
  moreover have "same_fills (te_positions te1) (te_positions te')" by (rule updates_fills [OF te1(2)])
  ultimately show ?thesis
    using served_trans [OF a(1) b(1)] a(2) b(2,3) responses_effect [OF te1(1) assms(4)] te1(2)
    by (intro conjI exI [of _ te1]) (auto simp: served_def same_fills_def)
qed

text \<open>What the engine does with a response is what the session of the order manager does with it, for both
  algorithms: the fill is entered in the position first, then the order manager is told, nothing else changes
  and nothing is sent.\<close>

theorem engine_takes_response:
  assumes "te_algo te = MAKER \<or> te_algo te = TAKER" and "om_sent (te_orders te) = []"
  shows "te_onOrderUpdate r te = bindE (take_response r (te_positions te) (te_orders te))
     (\<lambda>(pk, om). Inr (te\<lparr>te_positions := pk, te_orders := om\<rparr>))"
proof -
  have algo: "algoOnOrderUpdate r (te\<lparr>te_positions := pk\<rparr>) = om_onOrderUpdate r (te_orders te)" for pk
    using assms(1) by (auto simp: algoOnOrderUpdate_def mm_onOrderUpdate_def lt_onOrderUpdate_def)
  have send: "send_orders (te\<lparr>te_positions := pk, te_orders := om\<rparr>) = Inr (te\<lparr>te_positions := pk, te_orders := om\<rparr>)"
    if "om_onOrderUpdate r (te_orders te) = Inr om" for pk om
    using order_update_sends [OF that] assms(2) by (simp add: sends_def send_orders_def)
  have "te_onOrderUpdate r te = bindE (if rsp_type r = Rsp_FILLED then pk_addFill r (te_positions te) else Inr (te_positions te))
      (\<lambda>pk. bindE (algoOnOrderUpdate r (te\<lparr>te_positions := pk\<rparr>)) (\<lambda>om. send_orders (te\<lparr>te_positions := pk, te_orders := om\<rparr>)))"
    by (simp add: te_onOrderUpdate_def bindE_assoc)
  also have "\<dots> = bindE (take_response r (te_positions te) (te_orders te)) (\<lambda>(pk, om). Inr (te\<lparr>te_positions := pk, te_orders := om\<rparr>))"
    unfolding take_response_def bindE_assoc algo by (intro bindE_cong refl) (simp add: send cong: bindE_cong)
  finally show ?thesis .
qed


lemma fill_position:
  assumes "pk 1 = PositionInfo_init (\<lambda>_. 0)"
  shows "\<exists>info. pk_addFill sample_filled pk = Inr (pk(1 := info)) \<and> position info = 4"
  using assms by (simp add: pk_addFill_def sample_filled_def answer_def array_at_def ME_MAX_TICKERS_def addFill_def
      increase_position_def mark_position_def open_pnl_def PositionInfo_init_def Let_def) (rule exI, rule conjI, rule refl, simp)

lemma sample_filled_type: "rsp_type sample_filled = Rsp_FILLED"
  by (simp add: sample_filled_def answer_def)

lemma fill_taken:
  assumes "te_algo te = MAKER" and "te_positions te 1 = PositionInfo_init (\<lambda>_. 0)" and "om_sent (te_orders te) = []"
  shows "\<exists>te'. te_on_response sample_filled te = Inr te'"
proof -
  obtain om where om: "om_onOrderUpdate sample_filled (te_orders te) = Inr om"
    by (simp add: om_onOrderUpdate_def order_at_def sample_filled_def answer_def update_order_def side_array_size_def ME_MAX_TICKERS_def)
  have "om_sent om = []" using order_update_sends [OF om] assms(3) by (simp add: sends_def)
  then show ?thesis using fill_position [of "te_positions te"] om assms
    by (auto simp: te_on_response_def te_onOrderUpdate_def algoOnOrderUpdate_def mm_onOrderUpdate_def send_orders_def)
qed

text \<open>A fill of 4 waits, and nothing of the market: after the round the position is 4.\<close>

theorem round_in_order_witness:
  "\<exists>te te'. TradeEngine_init (\<lambda>_ _. None) (\<lambda>_ _. None) (\<lambda>_ _. 0) quoted_book (\<lambda>_. 0) 7 MAKER sample_cfg
      (demo_queue sample_request) (demo_queue sample_filled) sample_no_updates = Inr te
    \<and> te_round te = Inr te' \<and> contents (te_responses te') = [] \<and> position (te_positions te' 1) = 4"
proof -
  obtain te where te: "TradeEngine_init (\<lambda>_ _. None) (\<lambda>_ _. None) (\<lambda>_ _. 0) quoted_book (\<lambda>_. 0) 7 MAKER sample_cfg
      (demo_queue sample_request) (demo_queue sample_filled) sample_no_updates = Inr te" "market_ready 1 (\<lambda>_ _. []) te"
    "te_requests te = demo_queue sample_request" "te_responses te = demo_queue sample_filled" "te_updates te = sample_no_updates"
    "te_algo te = MAKER"
    using new_engine_ready [where reqs = "demo_queue sample_request" and n = 1 and cfg = sample_cfg and vwap_mem = "\<lambda>_ _. 0"
      and junk = quoted_book and clock = "\<lambda>_. 0" and cid = 7 and algo = MAKER and rsps = "demo_queue sample_filled" and upds = sample_no_updates]
      demo_queue_ok(1,3) [of sample_request] sample_clips by auto
  have q: "lfq_ok (te_responses te)" "contents (te_responses te) = [sample_filled]" "lfq_ok (te_updates te)" "contents (te_updates te) = []"
    "lfq_ok (te_requests te)" "om_sent (te_orders te) = []"
    using te(2-5) demo_queue_ok [of sample_filled] demo_queue_ok(1) [of sample_request]
    by (simp_all add: market_ready_def sample_no_updates_def lfq_ok_def contents_def is_pow2_16)
  have pos: "te_positions te 1 = PositionInfo_init (\<lambda>_. 0)"
    using te(1) by (auto simp: TradeEngine_init_def PositionKeeper_init_def bindE_eq_Inr)
  obtain te' where run: "te_round te = Inr te'"
    using fill_taken [of te, OF _ pos q(6)] te(6) te_round_fold [OF q(1,3,5,6)] q(2,4) by auto
  obtain pk where "pk_addFill sample_filled (te_positions te) = Inr pk" "contents (te_responses te') = []"
    "position (te_positions te' 1) = position (pk 1)"
    using round_in_order [OF q(1,3,5,6) run] q(2) sample_filled_type by (auto simp: bindE_eq_Inr)
  then show ?thesis using te(1) run fill_position [of "te_positions te", OF pos] by fastforce
qed

theorem engine_takes_response_witness:
  "\<exists>te. TradeEngine_init (\<lambda>_ _. None) (\<lambda>_ _. None) (\<lambda>_ _. 0) quoted_book (\<lambda>_. 0) 7 MAKER sample_cfg
      (demo_queue sample_request) sample_empty (demo_queue sample_add) = Inr te
    \<and> te_onOrderUpdate sample_accepted te = bindE (take_response sample_accepted (te_positions te) (te_orders te))
        (\<lambda>(pk, om). Inr (te\<lparr>te_positions := pk, te_orders := om\<rparr>))"
proof -
  obtain te where te: "TradeEngine_init (\<lambda>_ _. None) (\<lambda>_ _. None) (\<lambda>_ _. 0) quoted_book (\<lambda>_. 0) 7 MAKER sample_cfg
      (demo_queue sample_request) sample_empty (demo_queue sample_add) = Inr te" "te_algo te = MAKER" "om_sent (te_orders te) = []"
    using sample_engine by blast
  have "te_algo te = MAKER \<or> te_algo te = TAKER" using te(2) by simp
  from engine_takes_response [OF this te(3)] te(1) show ?thesis by blast
qed

end
