(* ===== verification/Market_Path.thy ===== *)
theory Market_Path
  imports Matching_Engine Market_Data_Props Trade_Engine_Props
begin

text \<open>
  The market data path from end to end: requests in the queue of the matching engine, its books, the publisher, the
  multicast stream, the consumer, the trade engine and its books.
\<close>

section \<open>The updates of a request\<close>

text \<open>What every market update of the exchange satisfies.\<close>

definition proper_update :: "TickerId \<Rightarrow> MEMarketUpdate \<Rightarrow> bool" where
  "proper_update tid u \<longleftrightarrow> upd_ticker_id u = tid \<and> \<bar>upd_price u\<bar> < 2 ^ 30 \<and> book_side (upd_side u)
     \<and> upd_type u \<in> {Upd_ADD, Upd_MODIFY, Upd_CANCEL, Upd_TRADE}"

definition tame_orders :: "MEOrder list \<Rightarrow> bool" where
  "tame_orders xs \<longleftrightarrow> list_all (\<lambda>x. \<bar>o_price x\<bar> < 2 ^ 30 \<and> book_side (o_side x)) xs"

lemma tame_orders_simps [simp]: "tame_orders []" "tame_orders (x # xs) \<longleftrightarrow> \<bar>o_price x\<bar> < 2 ^ 30 \<and> book_side (o_side x) \<and> tame_orders xs"
  by (auto simp: tame_orders_def)

lemma updates_of_filled [simp]: "updates_of (filled_response c t oid m s p e l # cs) = updates_of cs"
  by (simp add: filled_response_def)

lemma updates_of_market [simp]:
  "updates_of (market_update ty moid tid side price qty prio # cs) =
     \<lparr>upd_type = ty, upd_order_id = moid, upd_ticker_id = tid, upd_side = side, upd_price = price, upd_qty = qty, upd_priority = prio\<rparr> # updates_of cs"
  by (simp add: market_update_def)

lemma proper_wf: "proper_update tid u \<Longrightarrow> wf_update u"
  by (auto simp: proper_update_def wf_update_def book_side_def price_fits_def)

lemma match_proper:
  assumes "spec_match tid cid side coid moid price leaves xs = (cs, l, rest)" and "book_side side" and "tame_orders xs"
  shows "list_all (proper_update tid) (updates_of cs) \<and> tame_orders rest"
  using assms
proof (induction xs arbitrary: leaves cs l rest)
  case (Cons x xs)
  consider "leaves = 0 \<or> \<not> crosses side price (o_price x)" | "leaves \<noteq> 0" "crosses side price (o_price x)" "o_qty x \<le> leaves"
    | "leaves \<noteq> 0" "crosses side price (o_price x)" "\<not> o_qty x \<le> leaves" by blast
  then show ?case
  proof cases
    case 2
    obtain cs' where m: "spec_match tid cid side coid moid price (leaves - o_qty x) xs = (cs', l, rest)"
      "cs = fill_calls tid cid side coid moid x (o_qty x) (leaves - o_qty x)
        @ market_update Upd_CANCEL (o_market_order_id x) tid (o_side x) (o_price x) (o_qty x) Priority_INVALID # cs'"
      using Cons.prems(1) 2 by (auto split: prod.splits)
    show ?thesis using Cons.IH [OF m(1)] Cons.prems(2,3) by (simp add: m(2) fill_calls_def proper_update_def)
  qed (use Cons.prems in \<open>auto simp: fill_calls_def proper_update_def\<close>)
qed simp

definition tame_book :: "spec_book \<Rightarrow> bool" where
  "tame_book bk \<longleftrightarrow> tame_orders (bk BUY) \<and> tame_orders (bk SELL)"

lemma tame_book_side: "tame_book bk \<Longrightarrow> book_side s \<Longrightarrow> tame_orders (bk s)"
  by (auto simp: tame_book_def book_side_def)

lemma tame_rest: "tame_orders (x # xs) \<Longrightarrow> tame_orders (spec_rest x xs)"
  using set_spec_rest [of x xs] by (auto simp: tame_orders_def list_all_iff)

lemma add_proper:
  assumes "spec_add cid coid tid side price qty moid bk = (cs, bk')" and "book_side side" and "tame_book bk" and "\<bar>price\<bar> < 2 ^ 30"
  shows "list_all (proper_update tid) (updates_of cs) \<and> tame_book bk'"
proof -
  obtain ms l rest where m: "spec_match tid cid side coid (fill_id moid) price qty (bk (other side)) = (ms, l, rest)" by (metis prod_cases3)
  note mp = match_proper [OF m assms(2) tame_book_side [OF assms(3) book_side_simps(3)]]
  have acc: "updates_of (accepted_response cid tid coid moid side price qty # ds) = updates_of ds" for ds
    by (simp add: accepted_response_def)
  let ?x = "spec_order cid coid tid side price moid l (spec_priority price (bk side))"
  have x: "tame_orders (?x # bk side)" using assms(2,4) tame_book_side [OF assms(3,2)] by (simp add: spec_order_def)
  have sides: "tame_book (bk(other side := rest))" "tame_book (bk(other side := rest, side := spec_rest ?x (bk side)))"
    using mp tame_rest [OF x] assms(2,3) by (auto simp: tame_book_def other_def book_side_def)
  show ?thesis
  proof (cases "l = 0")
    case True
    then show ?thesis using assms(1) m mp sides(1) by (auto simp: spec_add_def acc)
  next
    case False
    then have "cs = accepted_response cid tid coid moid side price qty # ms @ [market_update Upd_ADD moid tid side price l (spec_priority price (bk side))]"
      "bk' = bk(other side := rest, side := spec_rest ?x (bk side))" using assms(1) m by (auto simp: spec_add_def Let_def)
    then show ?thesis using mp sides(2) assms(2,4) by (simp add: acc proper_update_def)
  qed
qed

lemma cancel_proper:
  assumes "tame_book bk"
  shows "list_all (proper_update tid) (updates_of (spec_cancel_calls cid coid tid bk)) \<and> tame_book (spec_cancel cid coid bk)"
proof -
  have "tame_book (spec_cancel cid coid bk)" using assms by (auto simp: tame_book_def spec_cancel_def tame_orders_def list_all_iff)
  moreover have "tame_orders [x]" if "spec_find cid coid bk = Some x" for x
  proof -
    have "x \<in> set (bk BUY @ bk SELL)" using that unfolding spec_find_def find_Some_iff by (metis nth_mem)
    then show ?thesis using assms by (auto simp: tame_book_def tame_orders_def list_all_iff)
  qed
  then have "list_all (proper_update tid) (updates_of (spec_cancel_calls cid coid tid bk))"
    by (auto simp: spec_cancel_calls_def cancel_rejected_def canceled_response_def proper_update_def split: option.split)
  ultimately show ?thesis by blast
qed

lemma request_proper:
  assumes "spec_request r moid bk = (cs, moid', bk')" and "admissible acceptable r moid ob bk" and "tame_book bk"
    and "is_new r \<Longrightarrow> \<bar>req_price r\<bar> < 2 ^ 30"
  shows "list_all (proper_update (req_ticker_id r)) (updates_of cs) \<and> tame_book bk'"
proof (cases "req_type r")
  case Req_NEW
  then obtain cs1 bk1 where "spec_add (req_client_id r) (req_order_id r) (req_ticker_id r) (req_side r) (req_price r) (req_qty r) moid bk = (cs1, bk1)"
    "cs = cs1" "bk' = bk1" using assms(1) by (auto simp: spec_request_def split: prod.splits)
  moreover have "book_side (req_side r)" "\<bar>req_price r\<bar> < 2 ^ 30" using assms(2,4) Req_NEW by (simp_all add: admissible_def is_new_def)
  ultimately show ?thesis using add_proper assms(3) by blast
next
  case Req_CANCEL
  then show ?thesis using cancel_proper [OF assms(3)] assms(1) by (auto simp: spec_request_def)
qed (use assms(2) in \<open>simp_all add: admissible_def\<close>)


section \<open>Books that agree on both sides\<close>

definition same_sides :: "spec_book \<Rightarrow> spec_book \<Rightarrow> bool" where
  "same_sides pb pb' \<longleftrightarrow> (\<forall>s. book_side s \<longrightarrow> pb s = pb' s)"

lemma same_sides_trans: "same_sides a b \<Longrightarrow> same_sides b c \<Longrightarrow> same_sides a c"
  by (simp add: same_sides_def)

lemma same_sides_mirror: "same_sides pb pb' \<Longrightarrow> same_sides (mirror u pb) (mirror u pb')"
  by (auto simp: same_sides_def mirror_def split: MarketUpdateType.splits)

lemma same_sides_can: "same_sides pb pb' \<Longrightarrow> can_mirror u pb = can_mirror u pb'"
  by (auto simp: same_sides_def can_mirror_def in_mirror_def list_free_def split: MarketUpdateType.splits)

lemma same_sides_can_all: "same_sides pb pb' \<Longrightarrow> can_mirror_all us pb = can_mirror_all us pb'"
  by (induction us arbitrary: pb pb') (simp_all add: same_sides_can same_sides_mirror cong: conj_cong, metis same_sides_can same_sides_mirror)

lemma same_sides_fold: "same_sides pb pb' \<Longrightarrow> same_sides (fold mirror us pb) (fold mirror us pb')"
  by (induction us arbitrary: pb pb') (simp_all add: same_sides_mirror)

lemma same_sides_represents: "same_sides pb pb' \<Longrightarrow> represents ob pb = represents ob pb'"
  by (rule represents_cong) (simp add: same_sides_def)


section \<open>Updates of one ticker among all books\<close>

lemma mirrors_ticker:
  assumes "list_all (proper_update tid) us"
  shows "fold mirrors us pbs = pbs(unat tid := fold mirror us (pbs (unat tid)))"
  using assms by (induction us arbitrary: pbs) (simp_all add: mirrors_def proper_update_def)

lemma takes_ticker:
  assumes "list_all (proper_update tid) us" and "can_mirror_all us (pbs (unat tid))" and "unat tid < ME_MAX_TICKERS"
  shows "takes_market_all us pbs"
  using assms by (induction us arbitrary: pbs) (simp_all add: takes_market_def mirrors_def proper_update_def)

lemma takes_market_append: "takes_market_all (us @ vs) pbs \<longleftrightarrow> takes_market_all us pbs \<and> takes_market_all vs (fold mirrors us pbs)"
  by (induction us arbitrary: pbs) simp_all


section \<open>All updates of the engine\<close>

text \<open>What the two sides have to agree on before, and agree on after: \<open>n\<close> new orders fit the tables.\<close>

definition in_step :: "nat \<Rightarrow> spec_engine \<Rightarrow> (nat \<Rightarrow> spec_book) \<Rightarrow> bool" where
  "in_step n se pbs \<longleftrightarrow> (\<forall>t < ME_MAX_TICKERS. ids_ok (fst (se t)) (snd (se t)) \<and> unat (fst (se t)) + n \<le> unat ME_MAX_ORDER_IDS
     \<and> tame_book (snd (se t)) \<and> same_sides (pbs t) (public_book (snd (se t))))"

lemma request_in_step:
  assumes rep: "engine_rep me se" and sv: "serves r me se" and sp: "spec_process r se = (cs, se')"
    and st: "in_step (n + (if is_new r then 1 else 0)) se pbs" and price: "is_new r \<Longrightarrow> \<bar>req_price r\<bar> < 2 ^ 30"
  shows "takes_market_all (updates_of cs) pbs \<and> in_step n se' (fold mirrors (updates_of cs) pbs) \<and> list_all wf_update (updates_of cs)"
proof -
  define t where "t = unat (req_ticker_id r)"
  have t: "t < ME_MAX_TICKERS" using sv by (simp add: serves_def Let_def t_def)
  obtain moid bk where sr: "spec_request r (fst (se t)) (snd (se t)) = (cs, moid, bk)" and se': "se' = se(t := (moid, bk))"
    using sp by (auto simp: spec_process_def Let_def t_def split: prod.splits)
  have rt: "represents (ticker_order_book me t) (snd (se t))" "fst (se t) = next_market_order_id (ticker_order_book me t)"
    using rep t by (auto simp: engine_rep_def)
  have ids: "ids_ok (fst (se t)) (snd (se t))" "tame_book (snd (se t))" "same_sides (pbs t) (public_book (snd (se t)))"
    and small: "unat (fst (se t)) + (n + (if is_new r then 1 else 0)) \<le> unat ME_MAX_ORDER_IDS"
    using st t by (simp_all add: in_step_def)
  have adm: "admissible acceptable r (fst (se t)) (ticker_order_book me t) (snd (se t))" using sv by (simp add: serves_def Let_def t_def)
  have new: "is_new r \<Longrightarrow> unat (fst (se t)) < unat ME_MAX_ORDER_IDS" using small by simp
  note m = request_mirror [OF rt(1) ids(1) rt(2) adm new sr]
  note pr = request_proper [OF sr adm ids(2) price]
  have can: "can_mirror_all (updates_of cs) (pbs t)" using m same_sides_can_all [OF ids(3)] by blast
  have tm: "takes_market_all (updates_of cs) pbs" using takes_ticker [of "req_ticker_id r" "updates_of cs" pbs] pr can t by (simp add: t_def)
  have fm: "fold mirrors (updates_of cs) pbs = pbs(t := fold mirror (updates_of cs) (pbs t))"
    using mirrors_ticker [of "req_ticker_id r" "updates_of cs" pbs] pr by (simp add: t_def)
  have "same_sides (fold mirror (updates_of cs) (public_book (snd (se t)))) (public_book bk)" using m by (simp add: same_sides_def)
  then have "same_sides (fold mirror (updates_of cs) (pbs t)) (public_book bk)"
    using same_sides_fold [OF ids(3)] same_sides_trans by blast
  then have "in_step n se' (fold mirrors (updates_of cs) pbs)"
    using st m pr small unfolding in_step_def fm se' by (auto split: if_splits)
  moreover have "list_all wf_update (updates_of cs)" using pr proper_wf by (auto simp: list_all_iff)
  ultimately show ?thesis using tm by blast
qed

lemma requests_in_step:
  assumes "engine_rep me se" and "queues_ok me" and "contents (incoming_requests me) = rs @ rs'" and "serves_all rs me se"
    and "spec_run rs se = (cs, se')" and "in_step (length (filter is_new rs)) se pbs" and "\<forall>r \<in> set rs. is_new r \<longrightarrow> \<bar>req_price r\<bar> < 2 ^ 30"
  shows "takes_market_all (updates_of cs) pbs \<and> in_step 0 se' (fold mirrors (updates_of cs) pbs) \<and> list_all wf_update (updates_of cs)"
  using assms
proof (induction rs arbitrary: me se cs pbs)
  case (Cons r rs)
  obtain cs1 se1 cs2 where sp: "spec_process r se = (cs1, se1)" "spec_run rs se1 = (cs2, se')" "cs = cs1 @ cs2"
    using Cons.prems(5) by (auto split: prod.splits)
  have sv: "serves r me se" using Cons.prems(4) by simp
  have "in_step (length (filter is_new rs) + (if is_new r then 1 else 0)) se pbs" using Cons.prems(6) by (cases "is_new r") simp_all
  note s = request_in_step [OF Cons.prems(1) sv sp(1) this]
  have s: "takes_market_all (updates_of cs1) pbs \<and> in_step (length (filter is_new rs)) se1 (fold mirrors (updates_of cs1) pbs)
      \<and> list_all wf_update (updates_of cs1)" using Cons.prems(7) by (intro s) simp
  have one: "engine_steps (length [r]) me = engine_step me" by (cases "engine_step me") (simp_all add: fun_eq_iff)
  have "serves_all [r] me se" "spec_run [r] se = (cs1, se1)" using sv sp(1) by (simp_all split: sum.split)
  then obtain me1 where me1: "engine_step me = Inr me1" "engine_rep me1 se1" "queues_ok me1" "contents (incoming_requests me1) = rs @ rs'"
    using engine_steps_implement [OF Cons.prems(1,2), of "[r]" "rs @ rs'" cs1 se1] Cons.prems(3) unfolding one by auto
  have "takes_market_all (updates_of cs2) (fold mirrors (updates_of cs1) pbs)
    \<and> in_step 0 se' (fold mirrors (updates_of cs2) (fold mirrors (updates_of cs1) pbs)) \<and> list_all wf_update (updates_of cs2)"
    by (rule Cons.IH [OF me1(2-4) _ sp(2)]) (use s Cons.prems(4,7) me1(1) sp(1) in simp_all)
  then show ?case using s by (simp add: sp(3) takes_market_append)
qed simp


section \<open>The path\<close>

lemma market_ready_updates: "market_ready n pbs (te\<lparr>te_updates := q\<rparr>) = market_ready n pbs te"
  by (simp add: market_ready_def trades_safely_def)

text \<open>The whole path; the property is stated at the end of the theory.\<close>

lemma books_follow:
  assumes "engine_rep me se" and "queues_ok me" and "contents (incoming_requests me) = rs @ rs'" and "serves_all rs me se"
    and "contents (outgoing_md_updates me) = []" and "spec_run rs se = (cs, se')" and "updates_of cs \<noteq> []"
    and "in_step (length (filter is_new rs)) se pbs" and "\<forall>r \<in> set rs. is_new r \<longrightarrow> \<bar>req_price r\<bar> < 2 ^ 30"
    and "pending_out (incremental_socket p) = []" and "42 * length (updates_of cs) < McastBufferSize"
    and "lfq_ok (snapshot_md_updates p)" and "length (updates_of cs) \<le> lfq_room (snapshot_md_updates p)" and "takes_all io"
    and "\<not> in_recovery mc" and "next_exp_inc_seq_num mc = next_inc_seq_num p" and "pending_in (incremental_mcast_socket mc) = []"
    and "socket_fd (incremental_mcast_socket mc) \<noteq> socket_fd (snapshot_mcast_socket mc)"
    and "lfq_ok (mc_incoming_md_updates mc)" and "contents (mc_incoming_md_updates mc) = []"
    and "length (updates_of cs) \<le> lfq_room (mc_incoming_md_updates mc)"
    and "market_ready (length (updates_of cs)) pbs te" and "lfq_ok (te_responses te)" and "contents (te_responses te) = []"
  shows "\<exists>me' p' bs mc' te'. engine_steps (length rs) me = Inr me'
    \<and> publisher_round io (p\<lparr>mdp_outgoing_md_updates := outgoing_md_updates me'\<rparr>) = Inr p'
    \<and> sent_bytes (incremental_socket p') = sent_bytes (incremental_socket p) @ bs
    \<and> mc_recvCallback incremental_mcast_socket put_incremental joined
        (mc\<lparr>incremental_mcast_socket := snd (read_avail McastBufferSize bs (incremental_mcast_socket mc))\<rparr>) = Inr mc'
    \<and> te_round (te\<lparr>te_updates := mc_incoming_md_updates mc'\<rparr>) = Inr te'
    \<and> (\<forall>t < ME_MAX_TICKERS. represents (ticker_order_book me' t) (snd (se' t))
         \<and> represents (embed (te_books te' t)) (public_book (snd (se' t))))"
proof -
  let ?us = "updates_of cs"
  obtain me' where me': "engine_steps (length rs) me = Inr me'" "engine_rep me' se'" "queues_ok me'" "contents (outgoing_md_updates me') = ?us"
    using engine_steps_implement [OF assms(1-4,6)] assms(5) by auto
  note st = requests_in_step [OF assms(1-4,6,8,9)]
  let ?p = "p\<lparr>mdp_outgoing_md_updates := outgoing_md_updates me'\<rparr>"
  obtain p' bs mc' where x: "publisher_round io ?p = Inr p'" "sent_bytes (incremental_socket p') = sent_bytes (incremental_socket ?p) @ bs"
    "mc_recvCallback incremental_mcast_socket put_incremental joined
        (mc\<lparr>incremental_mcast_socket := snd (read_avail McastBufferSize bs (incremental_mcast_socket mc))\<rparr>) = Inr mc'"
    "contents (mc_incoming_md_updates mc') = contents (mc_incoming_md_updates mc) @ ?us" "lfq_ok (mc_incoming_md_updates mc')"
    using updates_reach_trading [of ?p ?us io mc joined] me'(3,4) st assms(7,10-19,21) by (auto simp: queues_ok_def list_all_iff)
  let ?te = "te\<lparr>te_updates := mc_incoming_md_updates mc'\<rparr>"
  obtain te' where te': "te_round ?te = Inr te'" "\<forall>t < ME_MAX_TICKERS. represents (embed (te_books te' t)) (fold mirrors ?us pbs t)"
    using market_served [of ?us pbs ?te] st x(4,5) assms(20,22-24) by (auto simp: market_ready_updates)
  have "represents (embed (te_books te' t)) (public_book (snd (se' t)))" if "t < ME_MAX_TICKERS" for t
  proof -
    have "same_sides (fold mirrors ?us pbs t) (public_book (snd (se' t)))" using st that by (simp add: in_step_def)
    from same_sides_represents [OF this] te'(2) that show ?thesis by blast
  qed
  moreover have "represents (ticker_order_book me' t) (snd (se' t))" if "t < ME_MAX_TICKERS" for t
    using me'(2) that by (simp add: engine_rep_def)
  ultimately show ?thesis using me'(1) x(1-3) te'(1) by auto
qed


section \<open>An example\<close>

definition no_updates :: "MEMarketUpdate LFQueue" where
  "no_updates = \<lparr>qstore = (\<lambda>_. MEMarketUpdate_default), qsize = 16, write_pos = 0, read_pos = 0\<rparr>"

definition quiet_engine :: MatchingEngine where
  "quiet_engine = demo_engine\<lparr>outgoing_md_updates := no_updates\<rparr>"

lemma no_updates_ok: "lfq_ok no_updates" "contents no_updates = []" "lfq_room no_updates = 15"
  by (simp_all add: no_updates_def lfq_ok_def contents_def lfq_room_def is_pow2_16)

lemma quiet_engine_ok: "engine_rep quiet_engine (\<lambda>_. (5, demo_spec))" "queues_ok quiet_engine"
  "contents (incoming_requests quiet_engine) = [Matching_Engine.demo_request] @ []" "contents (outgoing_md_updates quiet_engine) = []"
  "serves_all [Matching_Engine.demo_request] quiet_engine (\<lambda>_. (5, demo_spec))"
proof -
  show "engine_rep quiet_engine (\<lambda>_. (5, demo_spec))" "queues_ok quiet_engine"
    "contents (incoming_requests quiet_engine) = [Matching_Engine.demo_request] @ []" "contents (outgoing_md_updates quiet_engine) = []"
    using demo_engine_ok by (simp_all add: quiet_engine_def engine_rep_def queues_ok_def no_updates_ok)
  have "serves Matching_Engine.demo_request quiet_engine (\<lambda>_. (5, demo_spec))"
    using demo_serves demo_calls by (auto simp: serves_def quiet_engine_def Let_def no_updates_ok Matching_Engine.demo_request_def spec_process_def
        spec_request_def split: prod.splits)
  then show "serves_all [Matching_Engine.demo_request] quiet_engine (\<lambda>_. (5, demo_spec))" by (simp split: sum.split)
qed

lemma demo_trader:
  obtains te where "market_ready 5 (\<lambda>_. public_book demo_spec) te" "lfq_ok (te_responses te)" "contents (te_responses te) = []"
proof -
  obtain mb where mb: "represents (embed mb) (public_book demo_spec)" "room 252 mb"
    "bbo_side BUY mb = (Price_INVALID, Qty_INVALID)" "bbo_side SELL mb = (105, 10)" using demo_market by blast
  have m: "calm mb" "room 5 mb" using mb(3,4) room_mono [OF mb(2)] by (auto simp: calm_def calm_price_def book_side_def)
  have pr: "priced (public_book demo_spec)"
    by (auto simp: priced_def book_side_def public_book_def public_order_def demo_BUY demo_SELL demo_order_def erase_def)
  obtain te where te: "market_ready 5 (\<lambda>_ _. []) te" "te_responses te = sample_empty"
    using new_engine_ready [where reqs = "demo_queue sample_request" and n = 5 and cfg = sample_cfg and rsps = sample_empty]
      demo_queue_ok(1,3) [of sample_request] sample_clips by fastforce
  have "market_ready 5 (\<lambda>_. public_book demo_spec) (te\<lparr>te_books := \<lambda>_. mb\<rparr>)"
    using te(1) mb(1) m pr by (simp add: market_ready_def trades_safely_def)
  then show thesis by (rule that) (simp_all add: te(2) sample_empty_ok)
qed

lemma demo_in_step: "in_step 1 (\<lambda>_. (5, demo_spec)) (\<lambda>_. public_book demo_spec)"
  using demo_session(1) by (simp add: in_step_def demo_next ME_MAX_ORDER_IDS_def same_sides_def tame_book_def demo_BUY demo_SELL
      demo_order_def erase_def)


section \<open>The property\<close>

text \<open>C3: the books of a trading client follow those of the exchange through the whole system. When the matching engine has
  served a list of requests, the publisher has sent what the engine queued, the consumer has received the bytes and the
  trade engine has run one round, nothing has failed, each book of the exchange holds what the abstract books give, and
  each book of the trade engine holds the public part of it: as long as the buffers have room, nothing is lost on the
  way, and the prices are below \<open>2 ^ 30\<close>.\<close>

theorem trading_books_follow_exchange:
  assumes "engine_rep me se" and "queues_ok me" and "contents (incoming_requests me) = rs @ rs'" and "serves_all rs me se"
    and "contents (outgoing_md_updates me) = []" and "spec_run rs se = (cs, se')" and "updates_of cs \<noteq> []"
    and "in_step (length (filter is_new rs)) se pbs" and "\<forall>r \<in> set rs. is_new r \<longrightarrow> \<bar>req_price r\<bar> < 2 ^ 30"
    and "pending_out (incremental_socket p) = []" and "42 * length (updates_of cs) < McastBufferSize"
    and "lfq_ok (snapshot_md_updates p)" and "length (updates_of cs) \<le> lfq_room (snapshot_md_updates p)" and "takes_all io"
    and "\<not> in_recovery mc" and "next_exp_inc_seq_num mc = next_inc_seq_num p" and "pending_in (incremental_mcast_socket mc) = []"
    and "socket_fd (incremental_mcast_socket mc) \<noteq> socket_fd (snapshot_mcast_socket mc)"
    and "lfq_ok (mc_incoming_md_updates mc)" and "contents (mc_incoming_md_updates mc) = []"
    and "length (updates_of cs) \<le> lfq_room (mc_incoming_md_updates mc)"
    and "market_ready (length (updates_of cs)) pbs te" and "lfq_ok (te_responses te)" and "contents (te_responses te) = []"
  shows "\<exists>me' p' bs mc' te'. engine_steps (length rs) me = Inr me'
    \<and> publisher_round io (p\<lparr>mdp_outgoing_md_updates := outgoing_md_updates me'\<rparr>) = Inr p'
    \<and> sent_bytes (incremental_socket p') = sent_bytes (incremental_socket p) @ bs
    \<and> mc_recvCallback incremental_mcast_socket put_incremental joined
        (mc\<lparr>incremental_mcast_socket := snd (read_avail McastBufferSize bs (incremental_mcast_socket mc))\<rparr>) = Inr mc'
    \<and> te_round (te\<lparr>te_updates := mc_incoming_md_updates mc'\<rparr>) = Inr te'
    \<and> (\<forall>t < ME_MAX_TICKERS. represents (ticker_order_book me' t) (snd (se' t))
         \<and> represents (embed (te_books te' t)) (public_book (snd (se' t))))"
  by (rule books_follow [OF assms])

theorem trading_books_follow_exchange_witness:
  "\<exists>te me' p' bs mc' te' bk. engine_steps 1 quiet_engine = Inr me'
    \<and> publisher_round demo_io (demo_publisher\<lparr>mdp_outgoing_md_updates := outgoing_md_updates me'\<rparr>) = Inr p'
    \<and> sent_bytes (incremental_socket p') = bs
    \<and> mc_recvCallback incremental_mcast_socket put_incremental \<lparr>join_fd = 6, join_done = True\<rparr>
        ((demo_consumer 6 [] [] False [])\<lparr>incremental_mcast_socket := snd (read_avail McastBufferSize bs (socket_holding []))\<rparr>) = Inr mc'
    \<and> te_round (te\<lparr>te_updates := mc_incoming_md_updates mc'\<rparr>) = Inr te'
    \<and> represents (ticker_order_book me' 0) bk \<and> represents (embed (te_books te' 0)) (public_book bk)"
proof -
  let ?se = "\<lambda>_. (5, demo_spec)" and ?mc = "demo_consumer 6 [] [] False []"
  obtain cs se' where sp: "spec_run [Matching_Engine.demo_request] ?se = (cs, se')" by fastforce
  have len: "length (updates_of cs) = 5" using sp demo_calls
    by (auto simp: spec_process_def spec_request_def Matching_Engine.demo_request_def split: prod.splits)
  obtain te where te: "market_ready (length (updates_of cs)) (\<lambda>_. public_book demo_spec) te" "lfq_ok (te_responses te)"
    "contents (te_responses te) = []" using demo_trader len by metis
  have st: "in_step (length (filter is_new [Matching_Engine.demo_request])) ?se (\<lambda>_. public_book demo_spec)"
    "\<forall>r \<in> set [Matching_Engine.demo_request]. is_new r \<longrightarrow> \<bar>req_price r\<bar> < 2 ^ 30"
    using demo_in_step by (simp_all add: Matching_Engine.demo_request_def is_new_def)
  have ne: "updates_of cs \<noteq> []" "42 * length (updates_of cs) < McastBufferSize"
    "length (updates_of cs) \<le> lfq_room (snapshot_md_updates demo_publisher)" "length (updates_of cs) \<le> lfq_room (mc_incoming_md_updates ?mc)"
    using len by (auto simp: McastBufferSize_def)
  have mc: "\<not> in_recovery ?mc" "next_exp_inc_seq_num ?mc = next_inc_seq_num demo_publisher"
    "pending_in (incremental_mcast_socket ?mc) = []"
    "socket_fd (incremental_mcast_socket ?mc) \<noteq> socket_fd (snapshot_mcast_socket ?mc)" "lfq_ok (mc_incoming_md_updates ?mc)"
    "contents (mc_incoming_md_updates ?mc) = []" by simp_all
  from trading_books_follow_exchange [OF quiet_engine_ok(1-3,5,4) sp ne(1) st demo_publisher_simps(6) ne(2) demo_publisher_simps(2) ne(3)
      demo_io_takes mc ne(4) te, of "\<lparr>join_fd = 6, join_done = True\<rparr>"]
  obtain me' p' bs mc' te' where r: "engine_steps (length [Matching_Engine.demo_request]) quiet_engine = Inr me'"
    "publisher_round demo_io (demo_publisher\<lparr>mdp_outgoing_md_updates := outgoing_md_updates me'\<rparr>) = Inr p'"
    "sent_bytes (incremental_socket p') = sent_bytes (incremental_socket demo_publisher) @ bs"
    "mc_recvCallback incremental_mcast_socket put_incremental \<lparr>join_fd = 6, join_done = True\<rparr>
        (?mc\<lparr>incremental_mcast_socket := snd (read_avail McastBufferSize bs (incremental_mcast_socket ?mc))\<rparr>) = Inr mc'"
    "te_round (te\<lparr>te_updates := mc_incoming_md_updates mc'\<rparr>) = Inr te'"
    "\<forall>t < ME_MAX_TICKERS. represents (ticker_order_book me' t) (snd (se' t)) \<and> represents (embed (te_books te' t)) (public_book (snd (se' t)))"
    by blast
  have one: "length [Matching_Engine.demo_request] = 1" by simp
  show ?thesis using r(1-5) r(6) [rule_format, of 0] unfolding one by (auto simp: ME_MAX_TICKERS_def simp del: engine_steps.simps)
qed

end
