(* ===== verification/Socket_Creation.thy ===== *)
theory Socket_Creation
  imports Types
begin

text \<open>
  Common Files/socket_utils.h: how sockets are created. The kernel is a parameter: \<open>reply\<close> gives the result of a system call
  from the calls made before it, which are recorded in a trace. A call that fails under \<^verbatim>\<open>ASSERT\<close> ends the process.
\<close>

section \<open>Configuration\<close>

record SocketCfg =
  cfg_ip :: string
  cfg_iface :: string
  cfg_port :: int
  is_udp :: bool
  is_listening :: bool
  needs_so_timestamp :: bool

definition show_bool :: "bool \<Rightarrow> string" where
  "show_bool b = (if b then ''1'' else ''0'')"

definition SocketCfg_toString :: "SocketCfg \<Rightarrow> string" where
  "SocketCfg_toString c =
     ''SocketCfg[ip:'' @ cfg_ip c @ '' iface:'' @ cfg_iface c @ '' port:'' @ show_int (cfg_port c)
     @ '' is_udp:'' @ show_bool (is_udp c) @ '' is_listening:'' @ show_bool (is_listening c)
     @ '' needs_SO_timestamp:'' @ show_bool (needs_so_timestamp c) @ '']''"

definition MaxTCPServerBacklog :: int where "MaxTCPServerBacklog = 1024"

text \<open>
  What \<^verbatim>\<open>getifaddrs\<close> lists: the name of an interface and, where it has an address, whether the address is of IPv4 and its
  numeric form, which is what \<^verbatim>\<open>getnameinfo\<close> writes; no list when the call fails.
\<close>

record IfAddr =
  ifa_name :: string
  ifa_addr :: "(bool \<times> string) option"

fun find_iface :: "IfAddr list \<Rightarrow> string \<Rightarrow> string" where
  "find_iface [] iface = ''''"
| "find_iface (i # is) iface =
     (case ifa_addr i of
        Some (True, host) \<Rightarrow> if iface = ifa_name i then host else find_iface is iface
      | _ \<Rightarrow> find_iface is iface)"

definition getIfaceIP :: "IfAddr list option \<Rightarrow> string \<Rightarrow> string" where
  "getIfaceIP ifaddrs iface = (case ifaddrs of None \<Rightarrow> '''' | Some is \<Rightarrow> find_iface is iface)"


section \<open>System calls\<close>

datatype sock_option = TCP_NODELAY | SO_TIMESTAMP | SO_REUSEADDR | IP_ADD_MEMBERSHIP string

text \<open>\<open>Address n\<close> is the address of entry \<open>n\<close> of the list of \<^verbatim>\<open>getaddrinfo\<close>; \<open>Any_Address\<close> is \<^verbatim>\<open>INADDR_ANY\<close> with the port.\<close>

datatype address = Address nat | Any_Address int

datatype sys_call = Sys_socket nat | Sys_getfl int | Sys_setfl int u32 | Sys_setsockopt int sock_option
  | Sys_connect int address | Sys_bind int address | Sys_listen int int | Sys_epoll_create | Sys_epoll_add int int | Sys_accept int

type_synonym kernel = "sys_call list \<Rightarrow> sys_call \<Rightarrow> int"

definition sys :: "kernel \<Rightarrow> sys_call \<Rightarrow> sys_call list \<Rightarrow> int \<times> sys_call list" where
  "sys reply c tr = (reply tr c, tr @ [c])"

definition O_NONBLOCK :: u32 where "O_NONBLOCK = 2048"

definition setNonBlocking :: "kernel \<Rightarrow> int \<Rightarrow> sys_call list \<Rightarrow> bool \<times> sys_call list" where
  "setNonBlocking reply fd tr =
     (let (flags, tr) = sys reply (Sys_getfl fd) tr; flags = word_of_int flags
      in if flags AND O_NONBLOCK \<noteq> 0 then (True, tr)
         else let (r, tr) = sys reply (Sys_setfl fd (flags OR O_NONBLOCK)) tr in (r \<noteq> -1, tr))"

definition disableNagle :: "kernel \<Rightarrow> int \<Rightarrow> sys_call list \<Rightarrow> bool \<times> sys_call list" where
  "disableNagle reply fd tr = (let (r, tr) = sys reply (Sys_setsockopt fd TCP_NODELAY) tr in (r \<noteq> -1, tr))"

definition setSOTimestamp :: "kernel \<Rightarrow> int \<Rightarrow> sys_call list \<Rightarrow> bool \<times> sys_call list" where
  "setSOTimestamp reply fd tr = (let (r, tr) = sys reply (Sys_setsockopt fd SO_TIMESTAMP) tr in (r \<noteq> -1, tr))"

definition join :: "kernel \<Rightarrow> int \<Rightarrow> string \<Rightarrow> sys_call list \<Rightarrow> bool \<times> sys_call list" where
  "join reply fd ip tr = (let (r, tr) = sys reply (Sys_setsockopt fd (IP_ADD_MEMBERSHIP ip)) tr in (r \<noteq> -1, tr))"

text \<open>A call under \<^verbatim>\<open>ASSERT\<close>, made when \<open>b\<close> holds.\<close>

definition assert_if :: "bool \<Rightarrow> (sys_call list \<Rightarrow> bool \<times> sys_call list) \<Rightarrow> sys_call list \<Rightarrow> sys_call list res" where
  "assert_if b f tr = (if b then let (r, tr) = f tr in bindE (assertE r) (\<lambda>_. Inr tr) else Inr tr)"

definition sys_is :: "(int \<Rightarrow> bool) \<Rightarrow> kernel \<Rightarrow> sys_call \<Rightarrow> sys_call list \<Rightarrow> bool \<times> sys_call list" where
  "sys_is P reply c tr = (let (r, tr) = sys reply c tr in (P r, tr))"

text \<open>One round of the loop over the addresses; \<open>rp\<close> is the number of the address.\<close>

definition setup_socket :: "kernel \<Rightarrow> SocketCfg \<Rightarrow> nat \<Rightarrow> sys_call list \<Rightarrow> (int \<times> sys_call list) res" where
  "setup_socket reply cfg rp tr =
     (let (fd, tr) = sys reply (Sys_socket rp) tr
      in bindE (assertE (fd \<noteq> -1)) (\<lambda>_.
         bindE (assert_if True (setNonBlocking reply fd) tr) (\<lambda>tr.
         bindE (assert_if (\<not> is_udp cfg) (disableNagle reply fd) tr) (\<lambda>tr.
         bindE (assert_if (\<not> is_listening cfg) (sys_is (\<lambda>r. r \<noteq> 1) reply (Sys_connect fd (Address rp))) tr) (\<lambda>tr.
         bindE (assert_if (is_listening cfg) (sys_is (\<lambda>r. r = 0) reply (Sys_setsockopt fd SO_REUSEADDR)) tr) (\<lambda>tr.
         bindE (assert_if (is_listening cfg)
                  (sys_is (\<lambda>r. r = 0) reply (Sys_bind fd (if is_udp cfg then Any_Address (cfg_port cfg) else Address rp))) tr) (\<lambda>tr.
         bindE (assert_if (\<not> is_udp cfg \<and> is_listening cfg) (sys_is (\<lambda>r. r = 0) reply (Sys_listen fd MaxTCPServerBacklog)) tr) (\<lambda>tr.
         bindE (assert_if (needs_so_timestamp cfg) (setSOTimestamp reply fd) tr) (\<lambda>tr.
         Inr (fd, tr))))))))))"

fun setup_sockets :: "kernel \<Rightarrow> SocketCfg \<Rightarrow> nat list \<Rightarrow> int \<Rightarrow> sys_call list \<Rightarrow> (int \<times> sys_call list) res" where
  "setup_sockets reply cfg [] socket_fd tr = Inr (socket_fd, tr)"
| "setup_sockets reply cfg (rp # rps) socket_fd tr =
     bindE (setup_socket reply cfg rp tr) (\<lambda>(fd, tr). setup_sockets reply cfg rps fd tr)"

text \<open>
  \<open>resolve\<close> is \<^verbatim>\<open>getaddrinfo\<close> for the address and the port, with the flag and the protocol of the hints: its result code and
  the number of addresses it lists.
\<close>

definition createSocket ::
  "(string \<Rightarrow> string \<Rightarrow> bool \<Rightarrow> bool \<Rightarrow> int \<times> nat) \<Rightarrow> IfAddr list option \<Rightarrow> kernel \<Rightarrow> SocketCfg \<Rightarrow> sys_call list \<Rightarrow> (int \<times> sys_call list) res" where
  "createSocket resolve ifaddrs reply cfg tr =
     (let ip = (if cfg_ip cfg = '''' then getIfaceIP ifaddrs (cfg_iface cfg) else cfg_ip cfg);
          (rc, n) = resolve ip (show_int (cfg_port cfg)) (is_listening cfg) (is_udp cfg)
      in bindE (assertE (rc = 0)) (\<lambda>_. setup_sockets reply cfg [0..<n] (-1) tr))"


section \<open>The calls that make a socket\<close>

definition nonblocking_calls :: "int \<Rightarrow> int \<Rightarrow> sys_call list" where
  "nonblocking_calls fd fl = Sys_getfl fd #
     (if (word_of_int fl :: u32) AND O_NONBLOCK \<noteq> 0 then [] else [Sys_setfl fd (word_of_int fl OR O_NONBLOCK)])"

definition role_calls :: "SocketCfg \<Rightarrow> nat \<Rightarrow> int \<Rightarrow> sys_call list" where
  "role_calls cfg rp fd =
     (if is_listening cfg
      then [Sys_setsockopt fd SO_REUSEADDR, Sys_bind fd (if is_udp cfg then Any_Address (cfg_port cfg) else Address rp)]
           @ (if is_udp cfg then [] else [Sys_listen fd 1024])
      else [Sys_connect fd (Address rp)])"

definition socket_calls :: "SocketCfg \<Rightarrow> nat \<Rightarrow> int \<Rightarrow> int \<Rightarrow> sys_call list" where
  "socket_calls cfg rp fd fl =
     Sys_socket rp # nonblocking_calls fd fl @ (if is_udp cfg then [] else [Sys_setsockopt fd TCP_NODELAY])
     @ role_calls cfg rp fd @ (if needs_so_timestamp cfg then [Sys_setsockopt fd SO_TIMESTAMP] else [])"

text \<open>The results that the program goes on with.\<close>

fun goes_on :: "sys_call \<Rightarrow> int \<Rightarrow> bool" where
  "goes_on (Sys_getfl fd) r = True"
| "goes_on (Sys_connect fd a) r = (r \<noteq> 1)"
| "goes_on (Sys_bind fd a) r = (r = 0)"
| "goes_on (Sys_listen fd n) r = (r = 0)"
| "goes_on (Sys_setsockopt fd opt) r = (if opt = SO_REUSEADDR then r = 0 else r \<noteq> -1)"
| "goes_on (Sys_socket rp) r = (r \<noteq> -1)"
| "goes_on (Sys_setfl fd fl) r = (r \<noteq> -1)"
| "goes_on Sys_epoll_create r = (r \<ge> 0)"
| "goes_on (Sys_epoll_add efd fd) r = (r = 0)"
| "goes_on (Sys_accept fd) r = True"

fun all_go_on :: "kernel \<Rightarrow> sys_call list \<Rightarrow> sys_call list \<Rightarrow> bool" where
  "all_go_on reply tr [] = True"
| "all_go_on reply tr (c # cs) = (goes_on c (reply tr c) \<and> all_go_on reply (tr @ [c]) cs)"

lemma all_go_on_append: "all_go_on reply tr (cs @ ds) = (all_go_on reply tr cs \<and> all_go_on reply (tr @ cs) ds)"
  by (induction cs arbitrary: tr) auto

text \<open>What making the calls \<open>cs\<close> one by one gives.\<close>

definition made :: "kernel \<Rightarrow> sys_call list \<Rightarrow> sys_call list \<Rightarrow> sys_call list res" where
  "made reply cs tr = (if all_go_on reply tr cs then Inr (tr @ cs) else Inl AssertFailed)"

lemma made_bind: "bindE (made reply cs tr) (made reply ds) = made reply (cs @ ds) tr"
  by (simp add: made_def all_go_on_append)

lemma made_bind2: "bindE (made reply cs tr) (\<lambda>tr. bindE (made reply ds tr) k) = bindE (made reply (cs @ ds) tr) k"
  by (simp add: bindE_assoc [symmetric] flip: made_bind)

lemma made_sys: "(\<And>r. P r = goes_on c r) \<Longrightarrow> assert_if b (sys_is P reply c) tr = made reply (if b then [c] else []) tr"
  by (simp add: assert_if_def sys_is_def sys_def made_def)

lemma made_nonblocking:
  "fl = reply tr (Sys_getfl fd) \<Longrightarrow> assert_if True (setNonBlocking reply fd) tr = made reply (nonblocking_calls fd fl) tr"
  by (simp add: assert_if_def setNonBlocking_def sys_def nonblocking_calls_def made_def Let_def)

lemma option_calls:
  "disableNagle reply fd = sys_is (\<lambda>r. r \<noteq> -1) reply (Sys_setsockopt fd TCP_NODELAY)"
  "setSOTimestamp reply fd = sys_is (\<lambda>r. r \<noteq> -1) reply (Sys_setsockopt fd SO_TIMESTAMP)"
  by (simp_all add: disableNagle_def setSOTimestamp_def sys_is_def fun_eq_iff)

lemma setup_socket_calls:
  assumes "fd = reply tr (Sys_socket rp)" and "fl = reply (tr @ [Sys_socket rp]) (Sys_getfl fd)"
  shows "setup_socket reply cfg rp tr = bindE (made reply (socket_calls cfg rp fd fl) tr) (\<lambda>tr. Inr (fd, tr))"
proof -
  let ?tr = "tr @ [Sys_socket rp]"
  have o: "assert_if b (sys_is (\<lambda>r. r \<noteq> -1) reply (Sys_setsockopt fd TCP_NODELAY)) t = made reply (if b then [Sys_setsockopt fd TCP_NODELAY] else []) t"
    "assert_if b (sys_is (\<lambda>r. r \<noteq> -1) reply (Sys_setsockopt fd SO_TIMESTAMP)) t = made reply (if b then [Sys_setsockopt fd SO_TIMESTAMP] else []) t"
    "assert_if b (sys_is (\<lambda>r. r \<noteq> 1) reply (Sys_connect fd a)) t = made reply (if b then [Sys_connect fd a] else []) t"
    "assert_if b (sys_is (\<lambda>r. r = 0) reply (Sys_setsockopt fd SO_REUSEADDR)) t = made reply (if b then [Sys_setsockopt fd SO_REUSEADDR] else []) t"
    "assert_if b (sys_is (\<lambda>r. r = 0) reply (Sys_bind fd a)) t = made reply (if b then [Sys_bind fd a] else []) t"
    "assert_if b (sys_is (\<lambda>r. r = 0) reply (Sys_listen fd k)) t = made reply (if b then [Sys_listen fd k] else []) t" for b t a k
    by (rule made_sys, simp)+
  have "setup_socket reply cfg rp tr = bindE (assertE (fd \<noteq> -1)) (\<lambda>_.
      bindE (made reply (nonblocking_calls fd fl @ (if \<not> is_udp cfg then [Sys_setsockopt fd TCP_NODELAY] else [])
        @ (if \<not> is_listening cfg then [Sys_connect fd (Address rp)] else [])
        @ (if is_listening cfg then [Sys_setsockopt fd SO_REUSEADDR] else [])
        @ (if is_listening cfg then [Sys_bind fd (if is_udp cfg then Any_Address (cfg_port cfg) else Address rp)] else [])
        @ (if \<not> is_udp cfg \<and> is_listening cfg then [Sys_listen fd MaxTCPServerBacklog] else [])
        @ (if needs_so_timestamp cfg then [Sys_setsockopt fd SO_TIMESTAMP] else [])) ?tr) (\<lambda>tr. Inr (fd, tr)))"
    unfolding setup_socket_def sys_def Let_def prod.case assms(1) [symmetric] option_calls o
      made_nonblocking [where reply = reply and tr = ?tr and fd = fd and fl = fl, OF assms(2)] made_bind2 append_assoc ..
  also have "\<dots> = bindE (assertE (fd \<noteq> -1)) (\<lambda>_. bindE (made reply (tl (socket_calls cfg rp fd fl)) ?tr) (\<lambda>tr. Inr (fd, tr)))"
    by (cases "is_listening cfg"; cases "is_udp cfg") (simp_all add: socket_calls_def role_calls_def MaxTCPServerBacklog_def)
  also have "\<dots> = bindE (made reply (socket_calls cfg rp fd fl) tr) (\<lambda>tr. Inr (fd, tr))"
    using assms(1) by (simp add: made_def socket_calls_def assertE_def)
  finally show ?thesis .
qed

section \<open>Properties\<close>

text \<open>Where the address resolves to one entry, as a numeric address does, the process goes on exactly when every call
  that the configuration asks for, made in this order, gives a result that is accepted, and then it has the descriptor
  that \<open>socket\<close> gave.\<close>

theorem createSocket_makes_calls:
  assumes "resolve (if cfg_ip cfg = [] then getIfaceIP ifaddrs (cfg_iface cfg) else cfg_ip cfg) (show_int (cfg_port cfg))
      (is_listening cfg) (is_udp cfg) = (0, 1)"
    and "fd = reply tr (Sys_socket 0)" and "fl = reply (tr @ [Sys_socket 0]) (Sys_getfl fd)"
  shows "createSocket resolve ifaddrs reply cfg tr =
     (if all_go_on reply tr (socket_calls cfg 0 fd fl) then Inr (fd, tr @ socket_calls cfg 0 fd fl) else Inl AssertFailed)"
  using setup_socket_calls [OF assms(2,3), of cfg] by (simp add: createSocket_def assms(1) Let_def made_def)

definition client_cfg :: SocketCfg where
  "client_cfg = \<lparr>cfg_ip = ''127.0.0.1'', cfg_iface = ''lo'', cfg_port = 12345, is_udp = False, is_listening = False, needs_so_timestamp = True\<rparr>"

text \<open>A kernel that gives descriptor 5 and refuses every connection.\<close>

fun refusing :: kernel where
  "refusing tr (Sys_socket rp) = 5"
| "refusing tr (Sys_connect fd a) = -1"
| "refusing tr c = 0"

theorem createSocket_makes_calls_witness:
  "createSocket (\<lambda>_ _ _ _. (0, 1)) None refusing (client_cfg\<lparr>is_listening := True\<rparr>) [] =
     Inr (5, [Sys_socket 0, Sys_getfl 5, Sys_setfl 5 2048, Sys_setsockopt 5 TCP_NODELAY, Sys_setsockopt 5 SO_REUSEADDR,
              Sys_bind 5 (Address 0), Sys_listen 5 1024, Sys_setsockopt 5 SO_TIMESTAMP])"
  by (subst createSocket_makes_calls [where fd = 5 and fl = 0])
    (simp_all add: client_cfg_def socket_calls_def role_calls_def nonblocking_calls_def O_NONBLOCK_def)

text \<open>A connection that is refused goes unnoticed: \<open>connect\<close> reports a failure with -1, the program asks for a result
  other than 1, and so it goes on with the descriptor as if it were connected.\<close>

theorem refused_connection_unnoticed:
  assumes "resolve (if cfg_ip cfg = [] then getIfaceIP ifaddrs (cfg_iface cfg) else cfg_ip cfg) (show_int (cfg_port cfg))
      False (is_udp cfg) = (0, 1)"
    and "\<not> is_listening cfg" and "\<And>tr c. reply tr c = -1 \<longleftrightarrow> (\<exists>fd a. c = Sys_connect fd a)" and "reply tr (Sys_socket 0) = fd"
  shows "\<exists>tr'. createSocket resolve ifaddrs reply cfg tr = Inr (fd, tr @ tr') \<and> Sys_connect fd (Address 0) \<in> set tr'"
proof -
  let ?fl = "reply (tr @ [Sys_socket 0]) (Sys_getfl fd)"
  have g: "all_go_on reply t cs"
    if "\<forall>c \<in> set cs. \<forall>r. (r = -1 \<longleftrightarrow> (\<exists>fd a. c = Sys_connect fd a)) \<longrightarrow> goes_on c r" for t cs
    using that by (induction cs arbitrary: t) (use assms(3) in auto)
  have "all_go_on reply tr (socket_calls cfg 0 fd ?fl)"
    using assms(2) by (intro g) (auto simp: socket_calls_def nonblocking_calls_def role_calls_def)
  then have "createSocket resolve ifaddrs reply cfg tr = Inr (fd, tr @ socket_calls cfg 0 fd ?fl)"
    using setup_socket_calls [of fd reply tr 0 ?fl cfg] assms by (simp add: createSocket_def Let_def made_def)
  moreover have "Sys_connect fd (Address 0) \<in> set (socket_calls cfg 0 fd ?fl)"
    using assms(2) by (simp add: socket_calls_def role_calls_def)
  ultimately show ?thesis by blast
qed

lemma refusing_only: "refusing tr c = -1 \<longleftrightarrow> (\<exists>fd a. c = Sys_connect fd a)"
  by (cases c) auto

theorem refused_connection_unnoticed_witness:
  "\<exists>tr. createSocket (\<lambda>_ _ _ _. (0, 1)) None refusing client_cfg [] = Inr (5, tr) \<and> Sys_connect 5 (Address 0) \<in> set tr"
proof -
  have "\<not> is_listening client_cfg" by (simp add: client_cfg_def)
  from refused_connection_unnoticed [where resolve = "\<lambda>_ _ _ _. (0, 1)" and reply = refusing and ifaddrs = None and tr = "[]" and fd = 5, OF _ this refusing_only]
  show ?thesis by simp
qed

end
