(* ===== verification/Server_Creation.thy ===== *)
theory Server_Creation
  imports Socket_Creation Sockets
begin

text \<open>
  How the sockets of tcp_socket.cpp and mcast_socket.cpp and the server of tcp_server.cpp come by their descriptors: the
  system calls behind \<open>connect\<close>, \<open>init\<close>, \<open>join\<close>, \<open>listen\<close> and the accepting part of \<open>poll\<close>, with the kernel of theory
  Socket\_Creation; and the variant of \<open>poll\<close> for kqueue.
\<close>

section \<open>Sockets\<close>

type_synonym resolver = "string \<Rightarrow> string \<Rightarrow> bool \<Rightarrow> bool \<Rightarrow> int \<times> nat"

definition tcp_connect ::
  "resolver \<Rightarrow> IfAddr list option \<Rightarrow> kernel \<Rightarrow> string \<Rightarrow> string \<Rightarrow> int \<Rightarrow> bool \<Rightarrow> TCPSocket \<Rightarrow> sys_call list \<Rightarrow> (int \<times> TCPSocket \<times> sys_call list) res" where
  "tcp_connect resolve ifaddrs reply ip iface port listening s tr =
     bindE (createSocket resolve ifaddrs reply
              \<lparr>cfg_ip = ip, cfg_iface = iface, cfg_port = port, is_udp = False, is_listening = listening, needs_so_timestamp = True\<rparr> tr)
     (\<lambda>(fd, tr). Inr (fd, s\<lparr>socket_fd := fd\<rparr>, tr))"

definition mcast_init ::
  "resolver \<Rightarrow> IfAddr list option \<Rightarrow> kernel \<Rightarrow> string \<Rightarrow> string \<Rightarrow> int \<Rightarrow> bool \<Rightarrow> McastSocket \<Rightarrow> sys_call list \<Rightarrow> (int \<times> McastSocket \<times> sys_call list) res" where
  "mcast_init resolve ifaddrs reply ip iface port listening s tr =
     bindE (createSocket resolve ifaddrs reply
              \<lparr>cfg_ip = ip, cfg_iface = iface, cfg_port = port, is_udp = True, is_listening = listening, needs_so_timestamp = False\<rparr> tr)
     (\<lambda>(fd, tr). Inr (fd, s\<lparr>socket_fd := fd\<rparr>, tr))"

definition mcast_join :: "kernel \<Rightarrow> string \<Rightarrow> McastSocket \<Rightarrow> sys_call list \<Rightarrow> bool \<times> sys_call list" where
  "mcast_join reply ip s = join reply (socket_fd s) ip"


section \<open>The server\<close>

definition addToEpollList :: "kernel \<Rightarrow> int \<Rightarrow> TCPSocket \<Rightarrow> sys_call list \<Rightarrow> bool \<times> sys_call list" where
  "addToEpollList reply epoll_fd s = sys_is (\<lambda>r. r = 0) reply (Sys_epoll_add epoll_fd (socket_fd s))"

text \<open>\<open>listen\<close> gives the descriptor of the event list as well, which the server keeps.\<close>

definition server_listen ::
  "resolver \<Rightarrow> IfAddr list option \<Rightarrow> kernel \<Rightarrow> string \<Rightarrow> int \<Rightarrow> TCPServer \<Rightarrow> sys_call list \<Rightarrow> (int \<times> TCPServer \<times> sys_call list) res" where
  "server_listen resolve ifaddrs reply iface port sv tr =
     (let (epoll_fd, tr) = sys reply Sys_epoll_create tr
      in bindE (assertE (epoll_fd \<ge> 0)) (\<lambda>_.
         bindE (tcp_connect resolve ifaddrs reply [] iface port True (socket_heap sv (listener_socket sv)) tr) (\<lambda>(fd, s, tr).
         bindE (assertE (fd \<ge> 0)) (\<lambda>_.
         bindE (assert_if True (addToEpollList reply epoll_fd s) tr) (\<lambda>tr.
         Inr (epoll_fd, sv\<lparr>socket_heap := (socket_heap sv)(listener_socket sv := s)\<rparr>, tr))))))"

text \<open>The loop of \<open>poll\<close> that accepts connections until there is none; \<open>fuel\<close> bounds its rounds, out of fuel is no result.\<close>

fun accept_loop ::
  "nat \<Rightarrow> kernel \<Rightarrow> int \<Rightarrow> TCPServer \<Rightarrow> sys_call list \<Rightarrow> (TCPServer \<times> sys_call list) res option" where
  "accept_loop 0 reply epoll_fd sv tr = None"
| "accept_loop (Suc fuel) reply epoll_fd sv tr =
     (let (fd, tr) = sys reply (Sys_accept (socket_fd (socket_heap sv (listener_socket sv)))) tr
      in if fd = -1 then Some (Inr (sv, tr))
         else let (nonblocking, tr) = setNonBlocking reply fd tr;
                  (options_set, tr) = (if nonblocking then disableNagle reply fd tr else (False, tr))
              in if \<not> options_set then Some (Inl AssertFailed)
                 else let socket = socket_next sv; s = SocketBuf_init fd;
                          sv = sv\<lparr>socket_heap := (socket_heap sv)(socket := s), socket_next := socket + 1\<rparr>;
                          (added, tr) = addToEpollList reply epoll_fd s tr
                      in if \<not> added then Some (Inl AssertFailed)
                         else accept_loop fuel reply epoll_fd (sv\<lparr>receive_sockets := push_new socket (receive_sockets sv)\<rparr>) tr)"

text \<open>What the kernel is asked for at once: an event for every socket, in an array of 1024 elements.\<close>

definition max_events :: "TCPServer \<Rightarrow> nat" where
  "max_events sv = 1 + length (send_sockets sv) + length (receive_sockets sv)"

definition events_size :: nat where "events_size = 1024"


section \<open>The events of kqueue\<close>

datatype kqueue_filter = EVFILT_READ | EVFILT_WRITE | EVFILT_OTHER

text \<open>\<open>ke_eof\<close>: one of the flags \<^verbatim>\<open>EV_EOF\<close> and \<^verbatim>\<open>EV_ERROR\<close> is set.\<close>

record kevent =
  ke_filter :: kqueue_filter
  ke_eof :: bool
  ke_socket :: nat

fun poll_kevents :: "kevent list \<Rightarrow> bool \<Rightarrow> TCPServer \<Rightarrow> bool \<times> TCPServer" where
  "poll_kevents [] have_new_connection sv = (have_new_connection, sv)"
| "poll_kevents (e # es) have_new_connection sv =
     (if ke_filter e = EVFILT_READ \<and> ke_socket e = listener_socket sv then poll_kevents es True sv
      else
        let sv = (if ke_filter e = EVFILT_READ then sv\<lparr>receive_sockets := push_new (ke_socket e) (receive_sockets sv)\<rparr> else sv);
            sv = (if ke_filter e = EVFILT_WRITE then sv\<lparr>send_sockets := push_new (ke_socket e) (send_sockets sv)\<rparr> else sv);
            sv = (if ke_eof e then sv\<lparr>receive_sockets := push_new (ke_socket e) (receive_sockets sv)\<rparr> else sv)
        in poll_kevents es have_new_connection sv)"

definition epoll_of :: "kevent \<Rightarrow> EpollEvent" where
  "epoll_of e = \<lparr>ev_in = ke_filter e = EVFILT_READ, ev_out = ke_filter e = EVFILT_WRITE, ev_err = ke_eof e, ev_socket = ke_socket e\<rparr>"

text \<open>Both variants of \<open>poll\<close> do the same with the events that say the same.\<close>

lemma kqueue_as_epoll: "poll_kevents es b sv = poll_events (map epoll_of es) b sv"
  by (induction es arbitrary: b sv) (simp_all add: epoll_of_def Let_def)


section \<open>Accepting\<close>

text \<open>The loop does what \<open>accept_all\<close> of theory Sockets does with the connections that the kernel gave, and asks in addition
  whether more wait.\<close>

lemma accept_loop_all:
  assumes "accept_loop fuel reply epoll_fd sv tr = Some r"
  shows "\<exists>cs. accept_all cs sv = bindE r (\<lambda>(sv', tr'). Inr sv')"
  using assms
proof (induction fuel arbitrary: sv tr)
  case (Suc fuel)
  define fd where "fd = reply tr (Sys_accept (socket_fd (socket_heap sv (listener_socket sv))))"
  define tr1 where "tr1 = tr @ [Sys_accept (socket_fd (socket_heap sv (listener_socket sv)))]"
  obtain nb tr2 where nb: "setNonBlocking reply fd tr1 = (nb, tr2)" by fastforce
  obtain ok tr3 where ok: "(if nb then disableNagle reply fd tr2 else (False, tr2)) = (ok, tr3)" by fastforce
  obtain ad tr4 where ad: "addToEpollList reply epoll_fd (SocketBuf_init fd) tr3 = (ad, tr4)" by fastforce
  let ?sv = "sv\<lparr>socket_heap := (socket_heap sv)(socket_next sv := SocketBuf_init fd), socket_next := socket_next sv + 1,
      receive_sockets := push_new (socket_next sv) (receive_sockets sv)\<rparr>"
  have run: "accept_loop (Suc fuel) reply epoll_fd sv tr =
    (if fd = -1 then Some (Inr (sv, tr1)) else if \<not> ok then Some (Inl AssertFailed) else if \<not> ad then Some (Inl AssertFailed)
     else accept_loop fuel reply epoll_fd ?sv tr4)"
    by (simp add: sys_def Let_def nb ok ad flip: fd_def tr1_def)
  note r = trans [OF run [symmetric] Suc.prems]
  consider "fd = -1" | "fd \<noteq> -1" "\<not> ok \<or> \<not> ad" | "fd \<noteq> -1" "ok" "ad" by blast
  then show ?case
  proof cases
    case 1
    then show ?thesis using r by (intro exI [of _ "[]"]) auto
  next
    case 2
    then have "r = Inl AssertFailed" using r by (auto split: if_splits)
    then show ?thesis using 2 by (intro exI [of _ "[(fd, ok, ad)]"]) (auto simp: assertE_def)
  next
    case 3
    then obtain cs where "accept_all cs ?sv = bindE r (\<lambda>(sv', tr'). Inr sv')" using Suc.IH [of ?sv tr4] r by auto
    then show ?thesis using 3 by (intro exI [of _ "(fd, True, True) # cs"]) (simp add: Let_def)
  qed
qed simp

text \<open>A kernel with a backlog of connections that accepts every other call.\<close>

definition accepts_made :: "sys_call list \<Rightarrow> nat" where
  "accepts_made tr = length (filter (\<lambda>c. case c of Sys_accept l \<Rightarrow> True | _ \<Rightarrow> False) tr)"

definition backlog :: "int list \<Rightarrow> kernel \<Rightarrow> bool" where
  "backlog fds reply \<longleftrightarrow> (\<forall>tr c. case c of
       Sys_accept l \<Rightarrow> reply tr c = (if accepts_made tr < length fds then fds ! accepts_made tr else -1)
     | _ \<Rightarrow> goes_on c (reply tr c))"

lemma backlogD:
  assumes "backlog fds reply"
  shows "reply tr (Sys_accept l) = (if accepts_made tr < length fds then fds ! accepts_made tr else -1)"
    "reply tr (Sys_setfl fd fl) \<noteq> -1" "reply tr (Sys_setsockopt fd TCP_NODELAY) \<noteq> -1" "reply tr (Sys_epoll_add efd fd) = 0"
proof -
  have a: "case c of Sys_accept l \<Rightarrow> reply tr c = (if accepts_made tr < length fds then fds ! accepts_made tr else -1)
     | _ \<Rightarrow> goes_on c (reply tr c)" for tr c using assms by (auto simp: backlog_def)
  show "reply tr (Sys_accept l) = (if accepts_made tr < length fds then fds ! accepts_made tr else -1)"
    "reply tr (Sys_setfl fd fl) \<noteq> -1" "reply tr (Sys_setsockopt fd TCP_NODELAY) \<noteq> -1" "reply tr (Sys_epoll_add efd fd) = 0"
    using a [of "Sys_accept l" tr] a [of "Sys_setfl fd fl" tr] a [of "Sys_setsockopt fd TCP_NODELAY" tr] a [of "Sys_epoll_add efd fd" tr] by auto
qed

lemma accepts_made_simps [simp]: "accepts_made [] = 0" "accepts_made (tr @ tr') = accepts_made tr + accepts_made tr'"
  "accepts_made (c # tr) = (case c of Sys_accept l \<Rightarrow> 1 | _ \<Rightarrow> 0) + accepts_made tr"
  by (simp_all add: accepts_made_def split: sys_call.split)

lemma options_accepted:
  assumes "backlog fds reply"
  shows "\<exists>tr'. setNonBlocking reply fd tr = (True, tr') \<and> accepts_made tr' = accepts_made tr"
    "\<exists>tr'. disableNagle reply fd tr = (True, tr') \<and> accepts_made tr' = accepts_made tr"
    "\<exists>tr'. addToEpollList reply epoll_fd s tr = (True, tr') \<and> accepts_made tr' = accepts_made tr"
  using backlogD(2-4) [OF assms]
  by (simp_all add: setNonBlocking_def disableNagle_def addToEpollList_def sys_is_def sys_def Let_def)

text \<open>The loop ends after the backlog, and has put a socket for each of its connections at the end of the receivers.\<close>

lemma accept_loop_backlog:
  assumes "backlog fds reply" and "-1 \<notin> set fds" and "server_ok sv" and "accepts_made tr \<le> length fds"
    and "length fds - accepts_made tr \<le> n"
  shows "\<exists>tr'. accept_loop (Suc n) reply epoll_fd sv tr
    = Some (bindE (accept_all (map (\<lambda>fd. (fd, True, True)) (drop (accepts_made tr) fds)) sv) (\<lambda>sv. Inr (sv, tr')))"
  using assms(3-)
proof (induction n arbitrary: sv tr)
  case 0
  then show ?case using backlogD(1) [OF assms(1)] by (simp add: sys_def)
next
  case (Suc n)
  let ?l = "socket_fd (socket_heap sv (listener_socket sv))"
  show ?case
  proof (cases "accepts_made tr < length fds")
    case False
    then show ?thesis using Suc.prems backlogD(1) [OF assms(1)] by (simp add: sys_def)
  next
    case True
    define fd where "fd = fds ! accepts_made tr"
    have fd: "reply tr (Sys_accept ?l) = fd" "fd \<noteq> -1" using True assms(2) backlogD(1) [OF assms(1)] nth_mem [OF True] by (auto simp: fd_def simp del: nth_mem)
    define tr1 where "tr1 = tr @ [Sys_accept ?l]"
    obtain tr2 where nb: "setNonBlocking reply fd tr1 = (True, tr2)" "accepts_made tr2 = accepts_made tr1"
      using options_accepted(1) [OF assms(1)] by blast
    obtain tr3 where ok: "disableNagle reply fd tr2 = (True, tr3)" "accepts_made tr3 = accepts_made tr2"
      using options_accepted(2) [OF assms(1)] by blast
    obtain tr4 where ad: "addToEpollList reply epoll_fd (SocketBuf_init fd) tr3 = (True, tr4)" "accepts_made tr4 = accepts_made tr3"
      using options_accepted(3) [OF assms(1)] by blast
    have m: "accepts_made tr4 = Suc (accepts_made tr)" using nb ok ad by (simp add: tr1_def)
    let ?sv = "sv\<lparr>socket_heap := (socket_heap sv)(socket_next sv := SocketBuf_init fd), socket_next := socket_next sv + 1,
      receive_sockets := push_new (socket_next sv) (receive_sockets sv)\<rparr>"
    have "server_ok ?sv" using Suc.prems(1) by (auto simp: server_ok_def less_Suc_eq)
    moreover have "accepts_made tr4 \<le> length fds" "length fds - accepts_made tr4 \<le> n" using m True Suc.prems(3) by simp_all
    ultimately obtain tr' where t: "accept_loop (Suc n) reply epoll_fd ?sv tr4
        = Some (bindE (accept_all (map (\<lambda>fd. (fd, True, True)) (drop (accepts_made tr4) fds)) ?sv) (\<lambda>sv. Inr (sv, tr')))"
      using Suc.IH by blast
    have "accept_loop (Suc (Suc n)) reply epoll_fd sv tr = accept_loop (Suc n) reply epoll_fd ?sv tr4"
      using fd by (subst accept_loop.simps) (simp add: sys_def Let_def nb(1) ok(1) ad(1) del: accept_loop.simps flip: tr1_def)
    moreover have "drop (accepts_made tr) fds = fd # drop (accepts_made tr4) fds" using True m by (simp add: fd_def Cons_nth_drop_Suc)
    ultimately show ?thesis using t by (intro exI [of _ tr']) (simp add: Let_def)
  qed
qed

text \<open>Once 1023 connections have been accepted, the kernel is allowed more events than the array has elements.\<close>

lemma events_overflow:
  assumes "server_ok sv" and "\<forall>(fd, a, b) \<in> set cs. a \<and> b" and "events_size \<le> length cs"
  shows "\<exists>sv'. accept_all cs sv = Inr sv' \<and> events_size < max_events sv'"
proof -
  obtain sv' where "accept_all cs sv = Inr sv'" "receive_sockets sv' = receive_sockets sv @ [socket_next sv ..< socket_next sv + length cs]"
    using accept_all_ok [OF assms(1,2)] by blast
  then show ?thesis using assms(3) by (simp add: max_events_def)
qed


section \<open>Properties\<close>

definition listener_cfg :: "string \<Rightarrow> int \<Rightarrow> SocketCfg" where
  "listener_cfg iface port =
     \<lparr>cfg_ip = [], cfg_iface = iface, cfg_port = port, is_udp = False, is_listening = True, needs_so_timestamp = True\<rparr>"

definition listen_calls :: "string \<Rightarrow> int \<Rightarrow> int \<Rightarrow> int \<Rightarrow> int \<Rightarrow> sys_call list" where
  "listen_calls iface port epoll_fd fd fl =
     Sys_epoll_create # socket_calls (listener_cfg iface port) 0 fd fl @ [Sys_epoll_add epoll_fd fd]"

text \<open>What the manual of the system calls says of their results: -1 is a failure; otherwise a descriptor, flags or,
  for the rest, 0.\<close>

fun documented :: "sys_call \<Rightarrow> int \<Rightarrow> bool" where
  "documented (Sys_socket rp) r = (-1 \<le> r)"
| "documented (Sys_getfl fd) r = (-1 \<le> r)"
| "documented (Sys_setfl fd fl) r = (-1 \<le> r)"
| "documented Sys_epoll_create r = (-1 \<le> r)"
| "documented (Sys_accept fd) r = (-1 \<le> r)"
| "documented c r = (r = 0 \<or> r = -1)"

definition is_getfl :: "sys_call \<Rightarrow> bool" where
  "is_getfl c = (case c of Sys_getfl fd \<Rightarrow> True | _ \<Rightarrow> False)"

definition is_listener_call :: "sys_call \<Rightarrow> bool" where
  "is_listener_call c = (case c of Sys_connect fd a \<Rightarrow> False | Sys_accept fd \<Rightarrow> False | _ \<Rightarrow> True)"

text \<open>The kernel accepts every call of \<open>cs\<close>, made one after the other behind \<open>tr\<close>, but maybe \<^verbatim>\<open>F_GETFL\<close>.\<close>

fun accepts_but_getfl :: "kernel \<Rightarrow> sys_call list \<Rightarrow> sys_call list \<Rightarrow> bool" where
  "accepts_but_getfl reply tr [] = True"
| "accepts_but_getfl reply tr (c # cs) = ((is_getfl c \<or> reply tr c \<noteq> -1) \<and> accepts_but_getfl reply (tr @ [c]) cs)"

lemma goes_on_accepted: "documented c r \<Longrightarrow> is_listener_call c \<Longrightarrow> goes_on c r \<longleftrightarrow> is_getfl c \<or> r \<noteq> -1"
  by (cases c) (auto simp: is_getfl_def is_listener_call_def)

lemma all_go_on_accepted:
  assumes "\<And>tr c. documented c (reply tr c)"
  shows "list_all is_listener_call cs \<Longrightarrow> all_go_on reply tr cs = accepts_but_getfl reply tr cs"
  by (induction cs arbitrary: tr) (simp_all add: goes_on_accepted assms)

lemma listen_calls_kind: "list_all is_listener_call (listen_calls iface port epoll_fd fd fl)"
  by (simp add: listen_calls_def listener_cfg_def socket_calls_def role_calls_def nonblocking_calls_def is_listener_call_def)

lemma getfl_refused: "Sys_setfl fd f \<notin> set (listen_calls iface port epoll_fd fd (-1))"
  by (simp add: listen_calls_def listener_cfg_def socket_calls_def role_calls_def nonblocking_calls_def O_NONBLOCK_def)

lemma listen_goes_on:
  assumes "resolve (getIfaceIP ifaddrs iface) (show_int port) True False = (rc, k)" and "rc = 0 \<longrightarrow> k = 1"
    and "epoll_fd = reply tr Sys_epoll_create" and "fd = reply (tr @ [Sys_epoll_create]) (Sys_socket 0)"
    and "fl = reply (tr @ [Sys_epoll_create, Sys_socket 0]) (Sys_getfl fd)" and "-1 \<le> fd"
  shows "server_listen resolve ifaddrs reply iface port sv tr =
     (if rc = 0 \<and> all_go_on reply tr (listen_calls iface port epoll_fd fd fl)
      then Inr (epoll_fd, sv\<lparr>socket_heap := (socket_heap sv)(listener_socket sv := (socket_heap sv (listener_socket sv))\<lparr>socket_fd := fd\<rparr>)\<rparr>,
                tr @ listen_calls iface port epoll_fd fd fl)
      else Inl AssertFailed)"
proof -
  let ?tr = "tr @ [Sys_epoll_create]" and ?cs = "socket_calls (listener_cfg iface port) 0 fd fl"
  have c: "createSocket resolve ifaddrs reply (listener_cfg iface port) ?tr =
      (if rc = 0 \<and> all_go_on reply ?tr ?cs then Inr (fd, ?tr @ ?cs) else Inl AssertFailed)"
    using setup_socket_calls [of fd reply ?tr 0 fl "listener_cfg iface port"] assms(1,2,4,5)
    by (auto simp: createSocket_def listener_cfg_def made_def assertE_def Let_def)
  have t: "tcp_connect resolve ifaddrs reply [] iface port True s ?tr =
      (if rc = 0 \<and> all_go_on reply ?tr ?cs then Inr (fd, s\<lparr>socket_fd := fd\<rparr>, ?tr @ ?cs) else Inl AssertFailed)" for s
    unfolding tcp_connect_def listener_cfg_def [symmetric] c by simp
  have fd: "all_go_on reply ?tr ?cs \<Longrightarrow> 0 \<le> fd" using assms(4,6) by (simp add: socket_calls_def)
  have a: "all_go_on reply tr (listen_calls iface port epoll_fd fd fl) \<longleftrightarrow>
      0 \<le> epoll_fd \<and> all_go_on reply ?tr ?cs \<and> reply (?tr @ ?cs) (Sys_epoll_add epoll_fd fd) = 0"
    using assms(3) by (simp add: listen_calls_def all_go_on_append)
  show ?thesis
    using fd unfolding server_listen_def sys_def Let_def prod.case assms(3) [symmetric] t a
    by (auto simp: assertE_def assert_if_def addToEpollList_def sys_is_def sys_def listen_calls_def)
qed

text \<open>C40: what \<open>TCPServer::listen\<close> needs of the kernel. For a kernel whose calls answer as documented, and an interface
  whose address and port, when \<open>getaddrinfo\<close> succeeds, resolve to one entry, \<open>listen\<close> goes on exactly when \<open>getaddrinfo\<close>
  succeeds and the kernel accepts every call but \<^verbatim>\<open>F_GETFL\<close> of those that make an event list and a listening socket without delays and
  with receive times, and add the one to the other, in this order; then the listener has the descriptor that
  \<open>socket\<close> gave and every other socket is as before; otherwise the process ends. Whether \<^verbatim>\<open>F_GETFL\<close> is accepted does
  not matter, and it should: a refusal, -1, reads as flags with \<^verbatim>\<open>O_NONBLOCK\<close> set, so the
  server goes on without a call that makes its listener non-blocking.\<close>

theorem listen_makes_calls:
  assumes "\<And>tr c. documented c (reply tr c)"
    and "resolve (getIfaceIP ifaddrs iface) (show_int port) True False = (rc, k)" and "rc = 0 \<longrightarrow> k = 1"
    and "epoll_fd = reply tr Sys_epoll_create" and "fd = reply (tr @ [Sys_epoll_create]) (Sys_socket 0)"
    and "fl = reply (tr @ [Sys_epoll_create, Sys_socket 0]) (Sys_getfl fd)"
  shows "server_listen resolve ifaddrs reply iface port sv tr =
       (if rc = 0 \<and> accepts_but_getfl reply tr (listen_calls iface port epoll_fd fd fl)
        then Inr (epoll_fd, sv\<lparr>socket_heap := (socket_heap sv)(listener_socket sv := (socket_heap sv (listener_socket sv))\<lparr>socket_fd := fd\<rparr>)\<rparr>,
                  tr @ listen_calls iface port epoll_fd fd fl)
        else Inl AssertFailed)
    \<and> (fl = -1 \<longrightarrow> (\<forall>f. Sys_setfl fd f \<notin> set (listen_calls iface port epoll_fd fd fl)))"
proof -
  have "-1 \<le> fd" using assms(1) [of "Sys_socket 0" "tr @ [Sys_epoll_create]"] by (simp add: assms(5))
  from listen_goes_on [where resolve = resolve and reply = reply and tr = tr and sv = sv, OF assms(2-6) this] show ?thesis
    using all_go_on_accepted [of reply, OF assms(1) listen_calls_kind] getfl_refused by auto
qed

definition new_server :: TCPServer where
  "new_server = \<lparr>listener_socket = 0, receive_sockets = [], send_sockets = [], socket_heap = (\<lambda>_. SocketBuf_init (-1)), socket_next = 1\<rparr>"

text \<open>A kernel that gives descriptor 5 for the socket and refuses \<^verbatim>\<open>F_GETFL\<close>.\<close>

fun hides_flags :: kernel where
  "hides_flags tr (Sys_socket rp) = 5"
| "hides_flags tr (Sys_getfl fd) = -1"
| "hides_flags tr c = 0"

theorem listen_makes_calls_witness:
  "\<exists>sv. server_listen (\<lambda>_ _ _ _. (0, 1)) None hides_flags ''lo'' 12345 new_server [] =
     Inr (0, sv, [Sys_epoll_create, Sys_socket 0, Sys_getfl 5, Sys_setsockopt 5 TCP_NODELAY,
                  Sys_setsockopt 5 SO_REUSEADDR, Sys_bind 5 (Address 0), Sys_listen 5 1024, Sys_setsockopt 5 SO_TIMESTAMP,
                  Sys_epoll_add 0 5])"
proof -
  have cs: "listen_calls ''lo'' 12345 0 5 (-1) = [Sys_epoll_create, Sys_socket 0, Sys_getfl 5,
      Sys_setsockopt 5 TCP_NODELAY, Sys_setsockopt 5 SO_REUSEADDR, Sys_bind 5 (Address 0), Sys_listen 5 1024,
      Sys_setsockopt 5 SO_TIMESTAMP, Sys_epoll_add 0 5]"
    by (simp add: listen_calls_def listener_cfg_def socket_calls_def role_calls_def nonblocking_calls_def O_NONBLOCK_def)
  have "documented c (hides_flags tr c)" for tr c by (cases c) auto
  moreover have "accepts_but_getfl hides_flags [] (listen_calls ''lo'' 12345 0 5 (-1))" unfolding cs by (simp add: is_getfl_def)
  ultimately show ?thesis
    using listen_makes_calls [where resolve = "\<lambda>_ _ _ _. (0, 1)" and reply = hides_flags and ifaddrs = None and tr = "[]" and iface = "''lo''"
      and port = 12345 and epoll_fd = 0 and fd = 5 and fl = "-1" and sv = new_server and rc = 0 and k = 1]
    by (auto simp: cs)
qed

end
