(* ===== verification/FIFO_Sequencer.thy ===== *)
theory FIFO_Sequencer
  imports Messages "HOL-Library.Multiset"
begin

text \<open>
  order_server/fifo_sequencer.h: client requests are collected with their receive time and handed to
  the matching engine in the order of these times.
\<close>

section \<open>State and operations\<close>

definition ME_MAX_PENDING_REQUESTS :: nat where "ME_MAX_PENDING_REQUESTS = 1024"

record RecvTimeClientRequest =
  recv_time :: Nanos
  rt_request :: MEClientRequest

record FIFOSequencer =
  fs_incoming_requests :: ClientRequestLFQueue
  pending_client_requests :: "nat \<Rightarrow> RecvTimeClientRequest"
  pending_size :: nat

definition FIFOSequencer_init :: "ClientRequestLFQueue \<Rightarrow> FIFOSequencer" where
  "FIFOSequencer_init client_requests =
     \<lparr>fs_incoming_requests = client_requests,
      pending_client_requests = (\<lambda>_. \<lparr>recv_time = 0, rt_request = MEClientRequest_default\<rparr>), pending_size = 0\<rparr>"

text \<open>\<^verbatim>\<open>operator<\<close>.\<close>

definition recv_before :: "RecvTimeClientRequest \<Rightarrow> RecvTimeClientRequest \<Rightarrow> bool" where
  "recv_before x rhs \<longleftrightarrow> recv_time x < recv_time rhs"

definition addClientRequest :: "Nanos \<Rightarrow> MEClientRequest \<Rightarrow> FIFOSequencer \<Rightarrow> FIFOSequencer res" where
  "addClientRequest rx_time req fs =
     bindE (assertE (\<not> ME_MAX_PENDING_REQUESTS \<le> pending_size fs)) (\<lambda>_.
     bindE (array_put ME_MAX_PENDING_REQUESTS (pending_client_requests fs) (pending_size fs)
              \<lparr>recv_time = rx_time, rt_request = req\<rparr>) (\<lambda>p.
     Inr (fs\<lparr>pending_client_requests := p, pending_size := pending_size fs + 1\<rparr>)))"

text \<open>
  \<^verbatim>\<open>std::sort\<close> is an argument: the standard promises that the result is a permutation in which no element
  comes before a smaller one, and nothing about the order of equal elements.
\<close>

definition sort_law :: "(RecvTimeClientRequest list \<Rightarrow> RecvTimeClientRequest list) \<Rightarrow> bool" where
  "sort_law std_sort \<longleftrightarrow> (\<forall>xs. mset (std_sort xs) = mset xs \<and> sorted_wrt (\<lambda>x y. \<not> recv_before y x) (std_sort xs))"

definition publish_one :: "nat \<Rightarrow> FIFOSequencer \<Rightarrow> FIFOSequencer res" where
  "publish_one i fs =
     bindE (array_at ME_MAX_PENDING_REQUESTS (pending_client_requests fs) i) (\<lambda>client_request.
     bindE (lfq_write (rt_request client_request) (fs_incoming_requests fs)) (\<lambda>q.
     Inr (fs\<lparr>fs_incoming_requests := q\<rparr>)))"

definition sequenceAndPublish ::
  "(RecvTimeClientRequest list \<Rightarrow> RecvTimeClientRequest list) \<Rightarrow> FIFOSequencer \<Rightarrow> FIFOSequencer res" where
  "sequenceAndPublish std_sort fs =
     (if pending_size fs = 0 then Inr fs
      else
        let n = pending_size fs; sorted = std_sort (map (pending_client_requests fs) [0..<n])
        in bindE (foldE publish_one [0..<n]
                   (fs\<lparr>pending_client_requests := (\<lambda>i. if i < n then sorted ! i else pending_client_requests fs i)\<rparr>))
           (\<lambda>fs. Inr (fs\<lparr>pending_size := 0\<rparr>)))"


section \<open>The pending requests\<close>

definition pending :: "FIFOSequencer \<Rightarrow> RecvTimeClientRequest list" where
  "pending fs = map (pending_client_requests fs) [0..<pending_size fs]"

definition sequencer_ok :: "FIFOSequencer \<Rightarrow> bool" where
  "sequencer_ok fs \<longleftrightarrow> lfq_ok (fs_incoming_requests fs) \<and> pending_size fs \<le> ME_MAX_PENDING_REQUESTS"

lemma length_pending_requests [simp]: "length (pending fs) = pending_size fs"
  by (simp add: pending_def)

lemma addClientRequest_full:
  "ME_MAX_PENDING_REQUESTS \<le> pending_size fs \<Longrightarrow> addClientRequest rx r fs = Inl AssertFailed"
  by (simp add: addClientRequest_def)

lemma addClientRequest_ok:
  assumes "sequencer_ok fs" and "pending_size fs < ME_MAX_PENDING_REQUESTS"
  shows "\<exists>fs'. addClientRequest rx r fs = Inr fs' \<and> sequencer_ok fs'
    \<and> pending fs' = pending fs @ [\<lparr>recv_time = rx, rt_request = r\<rparr>] \<and> fs_incoming_requests fs' = fs_incoming_requests fs"
  using assms by (simp add: addClientRequest_def sequencer_ok_def pending_def)

lemma publish_list:
  assumes "lfq_ok (fs_incoming_requests fs)" and "set is \<subseteq> {..<ME_MAX_PENDING_REQUESTS}"
    and "length is \<le> lfq_room (fs_incoming_requests fs)"
  shows "\<exists>q. foldE publish_one is fs = Inr (fs\<lparr>fs_incoming_requests := q\<rparr>) \<and> lfq_ok q
    \<and> contents q = contents (fs_incoming_requests fs) @ map (\<lambda>i. rt_request (pending_client_requests fs i)) is
    \<and> lfq_room q = lfq_room (fs_incoming_requests fs) - length is"
  using assms
proof (induction "is" arbitrary: fs)
  case Nil
  then show ?case by (intro exI [of _ "fs_incoming_requests fs"]) simp
next
  case (Cons i js)
  obtain q where q: "lfq_write (rt_request (pending_client_requests fs i)) (fs_incoming_requests fs) = Inr q" "lfq_ok q"
    "contents q = contents (fs_incoming_requests fs) @ [rt_request (pending_client_requests fs i)]"
    "lfq_room q = lfq_room (fs_incoming_requests fs) - 1"
    using lfq.push_ok [of "fs_incoming_requests fs" "rt_request (pending_client_requests fs i)"] Cons.prems by auto
  then have one: "publish_one i fs = Inr (fs\<lparr>fs_incoming_requests := q\<rparr>)"
    using Cons.prems by (simp add: publish_one_def)
  show ?case using Cons.IH [of "fs\<lparr>fs_incoming_requests := q\<rparr>"] q Cons.prems one by auto
qed

lemma sequenceAndPublish_ok:
  assumes ok: "sequencer_ok fs" and law: "sort_law std_sort" and room: "pending_size fs \<le> lfq_room (fs_incoming_requests fs)"
  shows "\<exists>fs'. sequenceAndPublish std_sort fs = Inr fs' \<and> sequencer_ok fs' \<and> pending fs' = []
    \<and> contents (fs_incoming_requests fs')
        = contents (fs_incoming_requests fs) @ map rt_request (if pending fs = [] then [] else std_sort (pending fs))"
proof (cases "pending_size fs = 0")
  case True
  then show ?thesis using ok by (simp add: sequenceAndPublish_def pending_def)
next
  case False
  let ?n = "pending_size fs" and ?s = "std_sort (pending fs)"
  define fs1 where "fs1 = fs\<lparr>pending_client_requests := (\<lambda>i. if i < ?n then ?s ! i else pending_client_requests fs i)\<rparr>"
  have len: "length ?s = ?n" using law by (metis sort_law_def mset_eq_length length_pending_requests)
  have pre: "lfq_ok (fs_incoming_requests fs1)" "set [0..<?n] \<subseteq> {..<ME_MAX_PENDING_REQUESTS}"
    "length [0..<?n] \<le> lfq_room (fs_incoming_requests fs1)"
    using ok room by (auto simp: fs1_def sequencer_ok_def)
  obtain q where q: "foldE publish_one [0..<?n] fs1 = Inr (fs1\<lparr>fs_incoming_requests := q\<rparr>)" "lfq_ok q"
    "contents q = contents (fs_incoming_requests fs) @ map (\<lambda>i. rt_request (pending_client_requests fs1 i)) [0..<?n]"
    using publish_list [OF pre] by (auto simp: fs1_def)
  have "map (\<lambda>i. rt_request (pending_client_requests fs1 i)) [0..<?n] = map rt_request ?s"
    by (rule nth_equalityI) (simp_all add: len fs1_def)
  moreover have "sequenceAndPublish std_sort fs = Inr (fs1\<lparr>fs_incoming_requests := q, pending_size := 0\<rparr>)"
    using False q(1) unfolding sequenceAndPublish_def Let_def pending_def [symmetric] fs1_def by simp
  moreover have "pending fs \<noteq> []" using False by (metis length_pending_requests list.size(3))
  ultimately show ?thesis using q(2,3) by (simp add: sequencer_ok_def pending_def)
qed


section \<open>Properties of the sequencer\<close>

definition stable_sort :: "RecvTimeClientRequest list \<Rightarrow> RecvTimeClientRequest list" where
  "stable_sort = sort_key recv_time"

lemma stable_sort_law: "sort_law stable_sort"
proof -
  have "sorted_wrt (\<lambda>x y. recv_time x \<le> recv_time y) (sort_key recv_time xs)" for xs :: "RecvTimeClientRequest list"
    using sorted_sort_key [of recv_time xs] by (simp add: sorted_wrt_map)
  then show ?thesis by (simp add: sort_law_def stable_sort_def recv_before_def not_less)
qed

definition demo_sequencer :: FIFOSequencer where
  "demo_sequencer = \<lparr>fs_incoming_requests = \<lparr>qstore = (\<lambda>_. MEClientRequest_default), qsize = 16, write_pos = 0, read_pos = 0\<rparr>,
     pending_client_requests = (\<lambda>i. \<lparr>recv_time = (if i = 0 then 9 else 4), rt_request = MEClientRequest_default\<lparr>req_qty := of_nat i\<rparr>\<rparr>),
     pending_size = 2\<rparr>"

lemma demo_sequencer_ok: "sequencer_ok demo_sequencer" "lfq_room (fs_incoming_requests demo_sequencer) = 15"
  "contents (fs_incoming_requests demo_sequencer) = []" "pending_size demo_sequencer = 2"
proof -
  show "sequencer_ok demo_sequencer" "lfq_room (fs_incoming_requests demo_sequencer) = 15"
    "contents (fs_incoming_requests demo_sequencer) = []" "pending_size demo_sequencer = 2"
    by (simp_all add: sequencer_ok_def demo_sequencer_def lfq_ok_def lfq_room_def contents_def ME_MAX_PENDING_REQUESTS_def is_pow2_16)
qed

text \<open>C25: \<open>sequenceAndPublish\<close> hands over every pending request exactly once, in the order of the receive
  times, behind what the queue held, and empties the pending list; for every \<^verbatim>\<open>std::sort\<close> that keeps the
  promises of the standard, and when the queue has room for the requests.\<close>

theorem sequencer_publishes:
  assumes "sequencer_ok fs" and "sort_law std_sort" and "pending_size fs \<le> lfq_room (fs_incoming_requests fs)"
  shows "\<exists>fs' ys. sequenceAndPublish std_sort fs = Inr fs' \<and> sequencer_ok fs' \<and> pending fs' = []
    \<and> contents (fs_incoming_requests fs') = contents (fs_incoming_requests fs) @ map rt_request ys
    \<and> mset ys = mset (pending fs) \<and> sorted (map recv_time ys)"
proof -
  have "mset (std_sort (pending fs)) = mset (pending fs)" "sorted (map recv_time (std_sort (pending fs)))"
    using assms(2) by (auto simp: sort_law_def recv_before_def not_less sorted_wrt_map)
  then show ?thesis using sequenceAndPublish_ok [OF assms] by (cases "pending fs = []") auto
qed

theorem sequencer_publishes_witness:
  "\<exists>fs' (ys :: RecvTimeClientRequest list). sequenceAndPublish stable_sort demo_sequencer = Inr fs' \<and> pending fs' = []
    \<and> contents (fs_incoming_requests fs') = map rt_request ys \<and> length ys = 2 \<and> sorted (map recv_time ys)"
proof -
  have "pending_size demo_sequencer \<le> lfq_room (fs_incoming_requests demo_sequencer)" by (simp add: demo_sequencer_ok)
  from sequencer_publishes [OF demo_sequencer_ok(1) stable_sort_law this] obtain fs' ys where
    "sequenceAndPublish stable_sort demo_sequencer = Inr fs'" "pending fs' = []"
    "contents (fs_incoming_requests fs') = map rt_request ys" "mset ys = mset (pending demo_sequencer)"
    "sorted (map recv_time ys)" by (auto simp: demo_sequencer_ok)
  moreover have "length ys = 2" using mset_eq_length [OF calculation(4)] by (simp add: demo_sequencer_ok)
  ultimately show ?thesis by blast
qed

text \<open>C28: requests with equal receive times are not kept in the order of their arrival: all requests of one read
  from a socket carry the same time, and for two such requests there is a \<^verbatim>\<open>std::sort\<close> within the
  standard for which the later one reaches the matching engine first.\<close>

theorem sequencer_not_fifo:
  assumes "sequencer_ok fs" and "pending fs = [a, b]" and "recv_time a = recv_time b"
    and "2 \<le> lfq_room (fs_incoming_requests fs)"
  shows "\<exists>std_sort fs'. sort_law std_sort \<and> sequenceAndPublish std_sort fs = Inr fs'
    \<and> contents (fs_incoming_requests fs') = contents (fs_incoming_requests fs) @ [rt_request b, rt_request a]"
proof -
  let ?sort = "\<lambda>xs. stable_sort (rev xs)"
  have law: "sort_law ?sort" using stable_sort_law by (simp add: sort_law_def)
  have "?sort (pending fs) = [b, a]" using assms(2,3) by (simp add: stable_sort_def)
  moreover have "pending_size fs = 2" using assms(2) by (metis length_pending_requests length_Cons list.size(3) numeral_2_eq_2)
  ultimately show ?thesis using sequenceAndPublish_ok [OF assms(1) law] assms(2,4) law by (intro exI [of _ ?sort]) auto
qed

theorem sequencer_not_fifo_witness:
  "\<exists>std_sort fs'. sort_law std_sort \<and> sequenceAndPublish std_sort
       (demo_sequencer\<lparr>pending_client_requests := (\<lambda>i. \<lparr>recv_time = 4, rt_request = MEClientRequest_default\<lparr>req_qty := of_nat i\<rparr>\<rparr>)\<rparr>) = Inr fs'
     \<and> contents (fs_incoming_requests fs')
         = [MEClientRequest_default\<lparr>req_qty := 1\<rparr>, MEClientRequest_default\<lparr>req_qty := 0\<rparr>]"
proof -
  let ?f = "\<lambda>i. \<lparr>recv_time = 4, rt_request = MEClientRequest_default\<lparr>req_qty := of_nat i\<rparr>\<rparr>"
  let ?fs = "demo_sequencer\<lparr>pending_client_requests := ?f\<rparr>"
  have "sequencer_ok ?fs" "2 \<le> lfq_room (fs_incoming_requests ?fs)" "contents (fs_incoming_requests ?fs) = []"
    using demo_sequencer_ok by (simp_all add: sequencer_ok_def)
  moreover have "pending ?fs = [?f 0, ?f 1]" by (simp add: pending_def demo_sequencer_ok upt_rec)
  ultimately show ?thesis using sequencer_not_fifo [of ?fs "?f 0" "?f 1"] by auto
qed

end
