(* ===== verification/Order_Server.thy ===== *)
theory Order_Server
  imports Sockets FIFO_Sequencer Queue_Loop
begin

text \<open>
  order_server/order_server.h and order_server.cpp: the thread that reads client requests from the TCP
  connections, checks their sequence numbers, passes them to the sequencer, and sends the responses of
  the matching engine to the clients.
\<close>

section \<open>State\<close>

record OrderServer =
  os_outgoing_responses :: ClientResponseLFQueue
  cid_next_outgoing_seq_num :: "nat \<Rightarrow> u64"
  cid_next_exp_seq_num :: "nat \<Rightarrow> u64"
  cid_tcp_socket :: "nat \<Rightarrow> ptr"
  tcp_server :: TCPServer
  fifo_sequencer :: FIFOSequencer

definition OrderServer_init :: "ClientRequestLFQueue \<Rightarrow> ClientResponseLFQueue \<Rightarrow> TCPServer \<Rightarrow> OrderServer" where
  "OrderServer_init client_requests client_responses server =
     \<lparr>os_outgoing_responses = client_responses, cid_next_outgoing_seq_num = (\<lambda>_. 1), cid_next_exp_seq_num = (\<lambda>_. 1),
      cid_tcp_socket = (\<lambda>_. None), tcp_server = server, fifo_sequencer = FIFOSequencer_init client_requests\<rparr>"

definition sock :: "nat \<Rightarrow> OrderServer \<Rightarrow> TCPSocket" where
  "sock k os = socket_heap (tcp_server os) k"

definition put_sock :: "nat \<Rightarrow> TCPSocket \<Rightarrow> OrderServer \<Rightarrow> OrderServer" where
  "put_sock k s os = os\<lparr>tcp_server := (tcp_server os)\<lparr>socket_heap := (socket_heap (tcp_server os))(k := s)\<rparr>\<rparr>"


section \<open>Receiving\<close>

text \<open>One request of the buffer, on the connection \<open>k\<close>. The client id indexes three arrays of 256 elements unchecked.\<close>

definition on_request :: "nat \<Rightarrow> Nanos \<Rightarrow> OMClientRequest \<Rightarrow> OrderServer \<Rightarrow> OrderServer res" where
  "on_request k rx_time m os =
     (let c = unat (req_client_id (me_client_request m))
      in bindE (array_idx ME_MAX_NUM_CLIENTS (cid_tcp_socket os) c) (\<lambda>p.
         let os = (if p = None then os\<lparr>cid_tcp_socket := (cid_tcp_socket os)(c := Some k)\<rparr> else os)
         in if cid_tcp_socket os c \<noteq> Some k then Inr os
            else if omreq_seq_num m \<noteq> cid_next_exp_seq_num os c then Inr os
            else
              let os = os\<lparr>cid_next_exp_seq_num := (cid_next_exp_seq_num os)(c := cid_next_exp_seq_num os c + 1)\<rparr>
              in bindE (addClientRequest rx_time (me_client_request m) (fifo_sequencer os)) (\<lambda>fs.
                 Inr (os\<lparr>fifo_sequencer := fs\<rparr>))))"

definition recvCallback :: "nat \<Rightarrow> Nanos \<Rightarrow> OrderServer \<Rightarrow> OrderServer res" where
  "recvCallback k rx_time os =
     (if 38 \<le> next_rcv_valid_index (sock k os) then
        bindE (frame_loop 38 (next_rcv_valid_index (sock k os))
                 (\<lambda>i. on_request k rx_time (OMClientRequest_at i (pending_in (sock k os)))) 0 os) (\<lambda>(i, os).
        bindE (discard i (sock k os)) (\<lambda>s. Inr (put_sock k s os)))
      else Inr os)"

definition recvFinishedCallback ::
  "(RecvTimeClientRequest list \<Rightarrow> RecvTimeClientRequest list) \<Rightarrow> OrderServer \<Rightarrow> OrderServer res" where
  "recvFinishedCallback std_sort os =
     bindE (sequenceAndPublish std_sort (fifo_sequencer os)) (\<lambda>fs. Inr (os\<lparr>fifo_sequencer := fs\<rparr>))"


section \<open>Sending\<close>

definition send_response :: "MEClientResponse \<Rightarrow> OrderServer \<Rightarrow> OrderServer res" where
  "send_response client_response os =
     (let c = unat (rsp_client_id client_response)
      in bindE (array_idx ME_MAX_NUM_CLIENTS (cid_next_outgoing_seq_num os) c) (\<lambda>next_outgoing_seq_num.
         bindE (assertE (cid_tcp_socket os c \<noteq> None)) (\<lambda>_.
         bindE (deref (cid_tcp_socket os c)) (\<lambda>k.
         bindE (tcp_send (put_u64 next_outgoing_seq_num) (sock k os)) (\<lambda>s.
         bindE (tcp_send (MEClientResponse_bytes client_response) s) (\<lambda>s.
         Inr ((put_sock k s os)\<lparr>os_outgoing_responses := snd (updateReadIndex (os_outgoing_responses os)),
                cid_next_outgoing_seq_num := (cid_next_outgoing_seq_num os)(c := next_outgoing_seq_num + 1)\<rparr>)))))))"

definition send_responses :: "OrderServer \<Rightarrow> OrderServer res" where
  "send_responses os = drain size_guard os_outgoing_responses send_response os"

text \<open>One round of the thread.\<close>

definition server_round ::
  "(RecvTimeClientRequest list \<Rightarrow> RecvTimeClientRequest list) \<Rightarrow> EpollEvent list \<Rightarrow> (int \<times> bool \<times> bool) list
     \<Rightarrow> (nat \<Rightarrow> kernel_io) \<Rightarrow> (nat \<Rightarrow> kernel_io) \<Rightarrow> OrderServer \<Rightarrow> OrderServer res" where
  "server_round std_sort events accepted io1 io2 os =
     bindE (poll events accepted (tcp_server os)) (\<lambda>sv.
     bindE (server_sendAndRecv tcp_server put_sock recvCallback (recvFinishedCallback std_sort) io1 io2
              (os\<lparr>tcp_server := sv\<rparr>)) send_responses)"


section \<open>What is accepted\<close>

text \<open>
  The requests among \<open>ms\<close>, arriving on connection \<open>k\<close>, that the server accepts: \<open>own\<close> is the connection of
  each client, \<open>ex\<close> the sequence number expected from it.
\<close>

fun accepted :: "nat \<Rightarrow> (nat \<Rightarrow> ptr) \<Rightarrow> (nat \<Rightarrow> u64) \<Rightarrow> OMClientRequest list \<Rightarrow> OMClientRequest list" where
  "accepted k own ex [] = []"
| "accepted k own ex (m # ms) =
     (let c = unat (req_client_id (me_client_request m)); own = (if own c = None then own(c := Some k) else own)
      in if own c = Some k \<and> omreq_seq_num m = ex c then m # accepted k own (ex(c := ex c + 1)) ms
         else accepted k own ex ms)"

definition from_client :: "nat \<Rightarrow> OMClientRequest \<Rightarrow> bool" where
  "from_client c m \<longleftrightarrow> unat (req_client_id (me_client_request m)) = c"

text \<open>Every accepted request of a client has the sequence number behind that of the one before it.\<close>

lemma accepted_seq:
  "map omreq_seq_num (filter (from_client c) (accepted k own ex ms))
     = map (\<lambda>i. ex c + of_nat i) [0..<length (filter (from_client c) (accepted k own ex ms))]"
proof (induction ms arbitrary: own ex)
  case (Cons m ms)
  define c' where "c' = unat (req_client_id (me_client_request m))"
  define own' where "own' = (if own c' = None then own(c' := Some k) else own)"
  have step: "accepted k own ex (m # ms) = (if own' c' = Some k \<and> omreq_seq_num m = ex c'
      then m # accepted k own' (ex(c' := ex c' + 1)) ms else accepted k own' ex ms)"
    by (simp add: Let_def c'_def own'_def)
  have fc: "from_client c m \<longleftrightarrow> c' = c" by (simp add: from_client_def c'_def)
  show ?case
  proof (cases "own' c' = Some k \<and> omreq_seq_num m = ex c'")
    case True
    define as where "as = accepted k own' (ex(c' := ex c' + 1)) ms"
    have IH: "map omreq_seq_num (filter (from_client c) as)
        = map (\<lambda>i. (ex(c' := ex c' + 1)) c + of_nat i) [0..<length (filter (from_client c) as)]"
      unfolding as_def by (rule Cons.IH)
    have eq: "accepted k own ex (m # ms) = m # as" using True unfolding step as_def by (rule if_P)
    show ?thesis unfolding eq using True fc IH
      by (cases "c' = c") (simp_all add: map_upt_Suc add.assoc del: upt_Suc)
  next
    case False
    then have eq: "accepted k own ex (m # ms) = accepted k own' ex ms" unfolding step by (rule if_not_P)
    show ?thesis unfolding eq by (rule Cons.IH)
  qed
qed simp

text \<open>
  \<open>took\<close>: the requests \<open>acc\<close> have gone to the sequencer with the receive time \<open>rx\<close>, and apart from the tables of
  connections and expected numbers nothing else has changed.
\<close>

definition took :: "Nanos \<Rightarrow> OMClientRequest list \<Rightarrow> OrderServer \<Rightarrow> OrderServer \<Rightarrow> bool" where
  "took rx acc os os' \<longleftrightarrow> sequencer_ok (fifo_sequencer os')
     \<and> pending (fifo_sequencer os') = pending (fifo_sequencer os) @ map (\<lambda>m. \<lparr>recv_time = rx, rt_request = me_client_request m\<rparr>) acc
     \<and> fs_incoming_requests (fifo_sequencer os') = fs_incoming_requests (fifo_sequencer os)
     \<and> tcp_server os' = tcp_server os \<and> os_outgoing_responses os' = os_outgoing_responses os
     \<and> cid_next_outgoing_seq_num os' = cid_next_outgoing_seq_num os"

definition accepted_by :: "nat \<Rightarrow> OrderServer \<Rightarrow> OMClientRequest list \<Rightarrow> OMClientRequest list" where
  "accepted_by k os ms = accepted k (cid_tcp_socket os) (cid_next_exp_seq_num os) ms"

definition known_client :: "OMClientRequest \<Rightarrow> bool" where
  "known_client m \<longleftrightarrow> unat (req_client_id (me_client_request m)) < ME_MAX_NUM_CLIENTS"

lemma on_request_ok:
  assumes "known_client m" and "sequencer_ok (fifo_sequencer os)"
  shows "if ME_MAX_PENDING_REQUESTS < pending_size (fifo_sequencer os) + length (accepted_by k os [m])
     then on_request k rx m os = Inl AssertFailed
     else \<exists>os'. on_request k rx m os = Inr os' \<and> took rx (accepted_by k os [m]) os os'
       \<and> (\<forall>ms. accepted_by k os (m # ms) = accepted_by k os [m] @ accepted_by k os' ms)"
proof -
  define c where "c = unat (req_client_id (me_client_request m))"
  define os1 where "os1 = (if cid_tcp_socket os c = None then os\<lparr>cid_tcp_socket := (cid_tcp_socket os)(c := Some k)\<rparr> else os)"
  have os1: "fifo_sequencer os1 = fifo_sequencer os" "cid_next_exp_seq_num os1 = cid_next_exp_seq_num os"
    "tcp_server os1 = tcp_server os" "os_outgoing_responses os1 = os_outgoing_responses os"
    "cid_next_outgoing_seq_num os1 = cid_next_outgoing_seq_num os"
    "cid_tcp_socket os1 = (if cid_tcp_socket os c = None then (cid_tcp_socket os)(c := Some k) else cid_tcp_socket os)"
    by (simp_all add: os1_def)
  define passes where "passes \<longleftrightarrow> cid_tcp_socket os1 c = Some k \<and> omreq_seq_num m = cid_next_exp_seq_num os c"
  have acc: "accepted_by k os (m # ms) = (if passes
      then m # accepted k (cid_tcp_socket os1) ((cid_next_exp_seq_num os)(c := cid_next_exp_seq_num os c + 1)) ms
      else accepted k (cid_tcp_socket os1) (cid_next_exp_seq_num os) ms)" for ms
    by (simp add: accepted_by_def Let_def passes_def os1(6) flip: c_def)
  define os2 where "os2 = os1\<lparr>cid_next_exp_seq_num := (cid_next_exp_seq_num os)(c := cid_next_exp_seq_num os c + 1)\<rparr>"
  have run: "on_request k rx m os = (if passes
      then bindE (addClientRequest rx (me_client_request m) (fifo_sequencer os)) (\<lambda>fs. Inr (os2\<lparr>fifo_sequencer := fs\<rparr>))
      else Inr os1)"
    using assms(1) by (simp add: known_client_def on_request_def passes_def os2_def os1(1,2) Let_def flip: c_def os1_def)
  have one: "accepted_by k os [m] = (if passes then [m] else [])" by (simp add: acc)
  show ?thesis
  proof (cases passes)
    case False
    then show ?thesis unfolding one acc run using os1 assms(2)
      by (simp add: took_def sequencer_ok_def accepted_by_def not_less)
  next
    case p: True
    show ?thesis
    proof (cases "pending_size (fifo_sequencer os) < ME_MAX_PENDING_REQUESTS")
      case True
      from addClientRequest_ok [OF assms(2) True] obtain fs where
        "addClientRequest rx (me_client_request m) (fifo_sequencer os) = Inr fs" "sequencer_ok fs"
        "pending fs = pending (fifo_sequencer os) @ [\<lparr>recv_time = rx, rt_request = me_client_request m\<rparr>]"
        "fs_incoming_requests fs = fs_incoming_requests (fifo_sequencer os)" by blast
      then show ?thesis unfolding one acc run using p os1 True by (simp add: os2_def took_def accepted_by_def)
    next
      case False
      then show ?thesis unfolding one run using p addClientRequest_full [of "fifo_sequencer os" rx "me_client_request m"]
        by simp
    qed
  qed
qed

lemma took_trans: "took rx as a b \<Longrightarrow> took rx bs b c \<Longrightarrow> took rx (as @ bs) a c"
  by (simp add: took_def)

lemma took_size: "took rx acc os os' \<Longrightarrow> pending_size (fifo_sequencer os') = pending_size (fifo_sequencer os) + length acc"
  unfolding took_def by (metis length_append length_map length_pending_requests)

lemma on_requests_ok:
  assumes "\<forall>m \<in> set ms. known_client m" and "sequencer_ok (fifo_sequencer os)"
  shows "if ME_MAX_PENDING_REQUESTS < pending_size (fifo_sequencer os) + length (accepted_by k os ms)
     then foldE (on_request k rx) ms os = Inl AssertFailed
     else \<exists>os'. foldE (on_request k rx) ms os = Inr os' \<and> took rx (accepted_by k os ms) os os'
       \<and> (\<forall>ms'. accepted_by k os (ms @ ms') = accepted_by k os ms @ accepted_by k os' ms')"
  using assms
proof (induction ms arbitrary: os)
  case Nil
  then show ?case by (simp add: accepted_by_def took_def sequencer_ok_def not_less)
next
  case (Cons m ms)
  have "known_client m" using Cons.prems(1) by simp
  note one = on_request_ok [OF this Cons.prems(2), of k rx]
  show ?case
  proof (cases "ME_MAX_PENDING_REQUESTS < pending_size (fifo_sequencer os) + length (accepted_by k os [m])")
    case True
    then have "on_request k rx m os = Inl AssertFailed" using one by (metis (no_types))
    moreover have "length (accepted_by k os [m]) \<le> length (accepted_by k os (m # ms))"
      by (simp add: accepted_by_def Let_def)
    ultimately show ?thesis using True by simp
  next
    case False
    obtain os1 where os1: "on_request k rx m os = Inr os1" "took rx (accepted_by k os [m]) os os1"
      "\<And>ms. accepted_by k os (m # ms) = accepted_by k os [m] @ accepted_by k os1 ms"
      using one unfolding if_not_P [OF False] by (elim exE conjE) (metis (no_types))
    have size: "pending_size (fifo_sequencer os1) + length (accepted_by k os1 ms)
        = pending_size (fifo_sequencer os) + length (accepted_by k os (m # ms))"
      using took_size [OF os1(2)] os1(3) [of ms] by simp
    have sq: "sequencer_ok (fifo_sequencer os1)" using os1(2) by (simp add: took_def)
    note IH = Cons.IH [of os1]
    show ?thesis
    proof (cases "ME_MAX_PENDING_REQUESTS < pending_size (fifo_sequencer os) + length (accepted_by k os (m # ms))")
      case True
      then show ?thesis using IH Cons.prems sq os1(1) size by simp
    next
      case False
      then obtain os2 where os2: "foldE (on_request k rx) ms os1 = Inr os2" "took rx (accepted_by k os1 ms) os1 os2"
        "\<And>ms'. accepted_by k os1 (ms @ ms') = accepted_by k os1 ms @ accepted_by k os2 ms'"
        using IH Cons.prems sq size by auto
      have "took rx (accepted_by k os (m # ms)) os os2"
        using took_trans [OF os1(2) os2(2)] os1(3) [of ms] by simp
      moreover have "accepted_by k os (m # ms @ ms') = accepted_by k os (m # ms) @ accepted_by k os2 ms'" for ms'
        using os1(3) [of "ms @ ms'"] os1(3) [of ms] os2(3) by simp
      ultimately show ?thesis using False os1(1) os2(1) by simp
    qed
  qed
qed

section \<open>A read from a connection\<close>

lemma sock_put [simp]:
  "sock j (put_sock k s os) = (if j = k then s else sock j os)" "fifo_sequencer (put_sock k s os) = fifo_sequencer os"
  "os_outgoing_responses (put_sock k s os) = os_outgoing_responses os" "cid_tcp_socket (put_sock k s os) = cid_tcp_socket os"
  "cid_next_exp_seq_num (put_sock k s os) = cid_next_exp_seq_num os"
  "cid_next_outgoing_seq_num (put_sock k s os) = cid_next_outgoing_seq_num os"
  "accepted_by j (put_sock k s os) = accepted_by j os"
  by (simp_all add: sock_def put_sock_def accepted_by_def fun_eq_iff)

lemma put_sock_same [simp]: "put_sock k (sock k os) os = os"
  by (simp add: sock_def put_sock_def)

lemma took_sock: "took rx acc os os' \<Longrightarrow> sock k os' = sock k os"
  by (simp add: took_def sock_def)

text \<open>The requests that the valid bytes of a connection hold.\<close>

definition arrived :: "nat \<Rightarrow> OrderServer \<Rightarrow> OMClientRequest list" where
  "arrived k os = map (OMClientRequest_at 0) (frames 38 (pending_in (sock k os)))"

lemma recvCallback_loop:
  "frame_loop 38 (next_rcv_valid_index (sock k os)) (\<lambda>i. on_request k rx (OMClientRequest_at i (pending_in (sock k os)))) 0 os
     = bindE (foldE (on_request k rx) (arrived k os) os) (\<lambda>st.
         Inr (next_rcv_valid_index (sock k os) - length (leftover 38 (pending_in (sock k os))), st))"
  using frame_loop_frames [of 38 "\<lambda>i. on_request k rx (OMClientRequest_at i (pending_in (sock k os)))"
      "\<lambda>b. on_request k rx (OMClientRequest_at 0 b)" "pending_in (sock k os)" 0 os] at_frame(1) [of _ "pending_in (sock k os)"]
  by (simp add: arrived_def foldE_map)

lemma recvCallback_ok:
  assumes "\<forall>m \<in> set (arrived k os). known_client m" and "sequencer_ok (fifo_sequencer os)"
  shows "if ME_MAX_PENDING_REQUESTS < pending_size (fifo_sequencer os) + length (accepted_by k os (arrived k os))
     then recvCallback k rx os = Inl AssertFailed
     else \<exists>os1 s. recvCallback k rx os = Inr (put_sock k s os1) \<and> took rx (accepted_by k os (arrived k os)) os os1
       \<and> (\<forall>ms. accepted_by k os (arrived k os @ ms) = accepted_by k os (arrived k os) @ accepted_by k os1 ms)
       \<and> pending_in s = leftover 38 (pending_in (sock k os)) \<and> pending_out s = pending_out (sock k os)
       \<and> sent_bytes s = sent_bytes (sock k os)"
proof (cases "38 \<le> next_rcv_valid_index (sock k os)")
  case False
  then have "frames 38 (pending_in (sock k os)) = []" "leftover 38 (pending_in (sock k os)) = pending_in (sock k os)"
    by (simp_all add: frames_short leftover_short)
  moreover have "recvCallback k rx os = Inr (put_sock k (sock k os) os)" using False by (simp add: recvCallback_def)
  moreover have "accepted_by k os [] = []" by (simp add: accepted_by_def)
  ultimately show ?thesis using assms(2)
    by (simp only: arrived_def list.map) (auto simp: took_def sequencer_ok_def intro!: exI [of _ os] exI [of _ "sock k os"])
next
  case True
  let ?ms = "arrived k os" and ?s = "sock k os"
  have run: "recvCallback k rx os = bindE (foldE (on_request k rx) ?ms os) (\<lambda>st.
      bindE (discard (next_rcv_valid_index ?s - length (leftover 38 (pending_in ?s))) (sock k st)) (\<lambda>s.
      Inr (put_sock k s st)))"
    using True by (simp add: recvCallback_def recvCallback_loop bindE_assoc)
  note fold = on_requests_ok [OF assms, of k rx]
  show ?thesis
  proof (cases "ME_MAX_PENDING_REQUESTS < pending_size (fifo_sequencer os) + length (accepted_by k os ?ms)")
    case over: True
    then have "foldE (on_request k rx) ?ms os = Inl AssertFailed" using fold by (metis (no_types))
    then show ?thesis using over run by simp
  next
    case fits: False
    obtain os1 where os1: "foldE (on_request k rx) ?ms os = Inr os1" "took rx (accepted_by k os ?ms) os os1"
      "\<And>ms'. accepted_by k os (?ms @ ms') = accepted_by k os ?ms @ accepted_by k os1 ms'"
      using fold unfolding if_not_P [OF fits] by (elim exE conjE) (metis (no_types))
    obtain s where "discard (next_rcv_valid_index ?s - length (leftover 38 (pending_in ?s))) ?s = Inr s"
      "pending_in s = leftover 38 (pending_in ?s)" "pending_out s = pending_out ?s" "sent_bytes s = sent_bytes ?s"
      using discard_ok [of 38 ?s] True by auto
    then show ?thesis unfolding if_not_P [OF fits] run os1(1) using os1(2,3) took_sock [OF os1(2), of k]
      by (intro exI [of _ os1] exI [of _ s]) simp
  qed
qed


section \<open>Responses\<close>

text \<open>The responses with the numbers they are sent with.\<close>

fun numbered :: "(nat \<Rightarrow> u64) \<Rightarrow> MEClientResponse list \<Rightarrow> OMClientResponse list" where
  "numbered sq [] = []"
| "numbered sq (r # rs) =
     (let c = unat (rsp_client_id r) in \<lparr>omrsp_seq_num = sq c, me_client_response = r\<rparr> # numbered (sq(c := sq c + 1)) rs)"

definition on_socket :: "(nat \<Rightarrow> ptr) \<Rightarrow> nat \<Rightarrow> OMClientResponse \<Rightarrow> bool" where
  "on_socket own k m \<longleftrightarrow> own (unat (rsp_client_id (me_client_response m))) = Some k"

lemma numbered_responses: "map me_client_response (numbered sq rs) = rs"
  by (induction rs arbitrary: sq) (simp_all add: Let_def)

definition to_client :: "nat \<Rightarrow> OMClientResponse \<Rightarrow> bool" where
  "to_client c m \<longleftrightarrow> unat (rsp_client_id (me_client_response m)) = c"

lemma numbered_seq:
  "map omrsp_seq_num (filter (to_client c) (numbered sq rs))
     = map (\<lambda>i. sq c + of_nat i) [0..<length (filter (to_client c) (numbered sq rs))]"
proof (induction rs arbitrary: sq)
  case (Cons r rs)
  define c' where "c' = unat (rsp_client_id r)"
  define ns where "ns = numbered (sq(c' := sq c' + 1)) rs"
  have eq: "numbered sq (r # rs) = \<lparr>omrsp_seq_num = sq c', me_client_response = r\<rparr> # ns"
    by (simp add: Let_def ns_def c'_def)
  have IH: "map omrsp_seq_num (filter (to_client c) ns)
      = map (\<lambda>i. (sq(c' := sq c' + 1)) c + of_nat i) [0..<length (filter (to_client c) ns)]"
    unfolding ns_def by (rule Cons.IH)
  have "to_client c \<lparr>omrsp_seq_num = sq c', me_client_response = r\<rparr> \<longleftrightarrow> c' = c" by (simp add: to_client_def c'_def)
  then show ?case unfolding eq using IH by (cases "c' = c") (simp_all add: map_upt_Suc add.assoc del: upt_Suc)
qed simp

lemma OMClientResponse_bytes_split:
  "put_u64 sn @ MEClientResponse_bytes r = OMClientResponse_bytes \<lparr>omrsp_seq_num = sn, me_client_response = r\<rparr>"
  by (simp add: OMClientResponse_bytes_def)

lemma send_response_ok:
  assumes "unat (rsp_client_id r) < ME_MAX_NUM_CLIENTS" and "cid_tcp_socket os (unat (rsp_client_id r)) = Some k"
    and "next_send_valid_index (sock k os) + 50 \<le> TCPBufferSize"
  shows "\<exists>s. send_response r os = Inr ((put_sock k s os)\<lparr>os_outgoing_responses := snd (updateReadIndex (os_outgoing_responses os)),
       cid_next_outgoing_seq_num := (cid_next_outgoing_seq_num os)
         (unat (rsp_client_id r) := cid_next_outgoing_seq_num os (unat (rsp_client_id r)) + 1)\<rparr>)
     \<and> pending_out s = pending_out (sock k os)
         @ OMClientResponse_bytes \<lparr>omrsp_seq_num = cid_next_outgoing_seq_num os (unat (rsp_client_id r)), me_client_response = r\<rparr>
     \<and> pending_in s = pending_in (sock k os) \<and> next_send_valid_index s = next_send_valid_index (sock k os) + 50"
proof -
  let ?sn = "cid_next_outgoing_seq_num os (unat (rsp_client_id r))"
  obtain s1 where s1: "tcp_send (put_u64 ?sn) (sock k os) = Inr s1" "pending_out s1 = pending_out (sock k os) @ put_u64 ?sn"
    "pending_in s1 = pending_in (sock k os)" "next_send_valid_index s1 = next_send_valid_index (sock k os) + 8"
    using tcp_send_ok [of "sock k os" "put_u64 ?sn"] assms(3) by auto
  obtain s2 where s2: "tcp_send (MEClientResponse_bytes r) s1 = Inr s2"
    "pending_out s2 = pending_out s1 @ MEClientResponse_bytes r" "pending_in s2 = pending_in s1"
    "next_send_valid_index s2 = next_send_valid_index s1 + 42"
    using tcp_send_ok [of s1 "MEClientResponse_bytes r"] assms(3) s1(4) by auto
  show ?thesis using assms(1,2) s1 s2
    by (intro exI [of _ s2]) (simp add: send_response_def Let_def flip: OMClientResponse_bytes_split)
qed

text \<open>\<open>delivered\<close>: the responses \<open>rs\<close> are numbered and in the send buffers of their clients' connections.\<close>

definition delivered :: "MEClientResponse list \<Rightarrow> OrderServer \<Rightarrow> OrderServer \<Rightarrow> bool" where
  "delivered rs os os' \<longleftrightarrow> fifo_sequencer os' = fifo_sequencer os \<and> cid_tcp_socket os' = cid_tcp_socket os
     \<and> cid_next_exp_seq_num os' = cid_next_exp_seq_num os
     \<and> (\<forall>k. pending_in (sock k os') = pending_in (sock k os)
          \<and> pending_out (sock k os') = pending_out (sock k os) @ concat (map OMClientResponse_bytes
               (filter (on_socket (cid_tcp_socket os) k) (numbered (cid_next_outgoing_seq_num os) rs))))
     \<and> (\<forall>c. cid_next_outgoing_seq_num os' c
          = cid_next_outgoing_seq_num os c + of_nat (length (filter (\<lambda>r. unat (rsp_client_id r) = c) rs)))"

definition connected :: "OrderServer \<Rightarrow> MEClientResponse \<Rightarrow> bool" where
  "connected os r \<longleftrightarrow> unat (rsp_client_id r) < ME_MAX_NUM_CLIENTS \<and> cid_tcp_socket os (unat (rsp_client_id r)) \<noteq> None"

lemma send_fold_ok:
  assumes "\<forall>r \<in> set rs. connected os r" and "\<And>k. next_send_valid_index (sock k os) + 50 * length rs \<le> TCPBufferSize"
  shows "\<exists>os'. foldE send_response rs os = Inr os' \<and> delivered rs os os'"
  using assms
proof (induction rs arbitrary: os)
  case Nil
  then show ?case by (simp add: delivered_def)
next
  case (Cons r rs)
  let ?q = "os_outgoing_responses os" and ?c = "unat (rsp_client_id r)" and ?sq = "cid_next_outgoing_seq_num os"
  have c: "connected os r" using Cons.prems(1) by simp
  then obtain k where k: "cid_tcp_socket os ?c = Some k" "?c < ME_MAX_NUM_CLIENTS" by (auto simp: connected_def)
  have room: "next_send_valid_index (sock k os) + 50 \<le> TCPBufferSize" using Cons.prems(2) [of k] by simp
  obtain s where s: "send_response r os = Inr ((put_sock k s os)\<lparr>os_outgoing_responses := snd (updateReadIndex ?q),
       cid_next_outgoing_seq_num := ?sq(?c := ?sq ?c + 1)\<rparr>)"
    "pending_out s = pending_out (sock k os) @ OMClientResponse_bytes \<lparr>omrsp_seq_num = ?sq ?c, me_client_response = r\<rparr>"
    "pending_in s = pending_in (sock k os)" "next_send_valid_index s = next_send_valid_index (sock k os) + 50"
    using send_response_ok [OF k(2,1) room] by blast
  define os1 where "os1 = (put_sock k s os)\<lparr>os_outgoing_responses := snd (updateReadIndex ?q),
       cid_next_outgoing_seq_num := ?sq(?c := ?sq ?c + 1)\<rparr>"
  have sock1: "sock j os1 = (if j = k then s else sock j os)" for j by (simp add: os1_def sock_def put_sock_def)
  have "\<exists>os'. foldE send_response rs os1 = Inr os' \<and> delivered rs os1 os'"
  proof (rule Cons.IH)
    show "\<forall>r \<in> set rs. connected os1 r" using Cons.prems(1) by (simp add: connected_def os1_def)
    show "next_send_valid_index (sock j os1) + 50 * length rs \<le> TCPBufferSize" for j
      using Cons.prems(2) [of j] s(4) by (auto simp: sock1)
  qed
  then obtain os' where os': "foldE send_response rs os1 = Inr os'" "delivered rs os1 os'" by blast
  have "delivered (r # rs) os os'"
    using os'(2) s(2,3) k(1) unfolding delivered_def sock1
    by (auto simp: os1_def Let_def on_socket_def)
  then show ?case using s(1) os'(1) by (auto simp: os1_def)
qed

lemma send_consumes: "consumes os_outgoing_responses send_response"
  by (rule consumesI) (auto simp: send_response_def Let_def res_simps)

lemma send_responses_ok:
  assumes "lfq_ok (os_outgoing_responses os)" and "\<forall>r \<in> set (contents (os_outgoing_responses os)). connected os r"
    and "\<And>k. next_send_valid_index (sock k os) + 50 * length (contents (os_outgoing_responses os)) \<le> TCPBufferSize"
  shows "\<exists>os'. send_responses os = Inr os' \<and> delivered (contents (os_outgoing_responses os)) os os'
    \<and> lfq_ok (os_outgoing_responses os') \<and> contents (os_outgoing_responses os') = []"
proof -
  have "send_responses os = foldE send_response (contents (os_outgoing_responses os)) os"
    unfolding send_responses_def by (rule drain_foldE [OF send_consumes guards_ok(1) assms(1)])
  then show ?thesis using send_fold_ok [OF assms(2,3)] drained [OF send_consumes assms(1)] by metis
qed

section \<open>An example\<close>

definition demo_om_requests :: "OMClientRequest list" where
  "demo_om_requests = [demo_om_request\<lparr>omreq_seq_num := 1\<rparr>, demo_om_request\<lparr>omreq_seq_num := 1\<rparr>,
     demo_om_request\<lparr>omreq_seq_num := 2\<rparr>]"

definition demo_stream :: "u8 list" where
  "demo_stream = concat (map OMClientRequest_bytes demo_om_requests) @ [1, 0, 0]"

definition demo_response_queue :: "MEClientResponse LFQueue" where
  "demo_response_queue = \<lparr>qstore = (\<lambda>_. me_client_response demo_om_response), qsize = 16, write_pos = 2, read_pos = 0\<rparr>"

definition demo_server :: "u8 list \<Rightarrow> OrderServer" where
  "demo_server bs = OrderServer_init \<lparr>qstore = (\<lambda>_. MEClientRequest_default), qsize = 16, write_pos = 0, read_pos = 0\<rparr>
     demo_response_queue
     \<lparr>listener_socket = 9, receive_sockets = [0], send_sockets = [], socket_heap = (\<lambda>_. socket_holding bs), socket_next = 10\<rparr>"

lemma demo_server_simps [simp]:
  "sock k (demo_server bs) = socket_holding bs" "cid_tcp_socket (demo_server bs) = (\<lambda>_. None)"
  "cid_next_exp_seq_num (demo_server bs) = (\<lambda>_. 1)" "sequencer_ok (fifo_sequencer (demo_server bs))"
  "pending_size (fifo_sequencer (demo_server bs)) = 0" "pending (fifo_sequencer (demo_server bs)) = []"
  "cid_next_outgoing_seq_num (demo_server bs) = (\<lambda>_. 1)" "os_outgoing_responses (demo_server bs) = demo_response_queue"
  by (simp_all add: demo_server_def OrderServer_init_def sock_def FIFOSequencer_init_def sequencer_ok_def lfq_ok_def
      is_pow2_16 pending_def)

lemma demo_response_queue_simps [simp]:
  "lfq_ok demo_response_queue"
  "contents demo_response_queue = [me_client_response demo_om_response, me_client_response demo_om_response]"
  by (simp_all add: demo_response_queue_def lfq_ok_def is_pow2_16 contents_def upt_rec)

lemma demo_frames:
  "frames 38 demo_stream = map OMClientRequest_bytes demo_om_requests" "leftover 38 demo_stream = [1, 0, 0]"
  using frames_concat [of 38 "map OMClientRequest_bytes demo_om_requests" "[1, 0, 0]"]
  by (simp_all add: demo_stream_def frames_short leftover_short)

lemma arrived_simp: "arrived k os = map (OMClientRequest_at 0) (frames 38 (pending_in (sock k os)))"
  by (rule arrived_def)

lemma demo_arrived: "arrived k (demo_server demo_stream) = demo_om_requests"
proof -
  have "OMClientRequest_at 0 (OMClientRequest_bytes m) = m" if "m \<in> set demo_om_requests" for m
    using request_round_trip [of m "[]"] demo_wf(1) that by (auto simp: demo_om_requests_def)
  then show ?thesis by (simp add: arrived_simp demo_frames map_idI)
qed

lemma demo_known: "\<forall>m \<in> set demo_om_requests. known_client m"
  by (simp add: demo_om_requests_def demo_om_request_def known_client_def ME_MAX_NUM_CLIENTS_def)

lemma demo_accepted: "accepted_by k (demo_server demo_stream) demo_om_requests
    = [demo_om_request\<lparr>omreq_seq_num := 1\<rparr>, demo_om_request\<lparr>omreq_seq_num := 2\<rparr>]"
  by (simp add: accepted_by_def demo_om_requests_def Let_def)


lemma length_accepted_by: "length (accepted_by k os ms) \<le> length ms"
proof -
  have "length (accepted k own ex ms) \<le> length ms" for own ex
    by (induction ms arbitrary: own ex) (simp_all add: Let_def le_SucI)
  then show ?thesis by (simp add: accepted_by_def)
qed

lemma recv_returns:
  assumes "\<forall>m \<in> set (arrived k os). known_client m" and "sequencer_ok (fifo_sequencer os)"
    and "pending_size (fifo_sequencer os) + length (arrived k os) \<le> ME_MAX_PENDING_REQUESTS"
  obtains os' where "recvCallback k rx os = Inr os'" "sequencer_ok (fifo_sequencer os')"
    "pending_in (sock k os') = leftover 38 (pending_in (sock k os))"
    "pending_size (fifo_sequencer os') \<le> pending_size (fifo_sequencer os) + length (arrived k os)"
proof -
  have fits: "\<not> ME_MAX_PENDING_REQUESTS < pending_size (fifo_sequencer os) + length (accepted_by k os (arrived k os))"
    using length_accepted_by [of k os "arrived k os"] assms(3) by linarith
  obtain os1 s where "recvCallback k rx os = Inr (put_sock k s os1)" "took rx (accepted_by k os (arrived k os)) os os1"
    "pending_in s = leftover 38 (pending_in (sock k os))"
    using recvCallback_ok [OF assms(1,2), of rx] unfolding if_not_P [OF fits] by blast
  then show thesis
    using that [of "put_sock k s os1"] took_size length_accepted_by [of k os "arrived k os"] by (auto simp: took_def)
qed


section \<open>Properties of the order server\<close>

text \<open>C19: reading from a connection: the requests that the buffer holds completely are taken in order, and those
  that come over the client's own connection with the number expected from it go to the sequencer,
  numbered without a gap; the bytes of an incomplete request stay at the front of the buffer. More than
  1024 waiting requests end the process.\<close>

theorem server_recv:
  assumes "\<forall>m \<in> set (arrived k os). known_client m" and "sequencer_ok (fifo_sequencer os)"
  shows "let acc = accepted_by k os (arrived k os)
     in (if ME_MAX_PENDING_REQUESTS < pending_size (fifo_sequencer os) + length acc
         then recvCallback k rx os = Inl AssertFailed
         else \<exists>os'. recvCallback k rx os = Inr os' \<and> sequencer_ok (fifo_sequencer os')
            \<and> pending (fifo_sequencer os') = pending (fifo_sequencer os)
                @ map (\<lambda>m. \<lparr>recv_time = rx, rt_request = me_client_request m\<rparr>) acc
            \<and> pending_in (sock k os') = leftover 38 (pending_in (sock k os)))
      \<and> (\<forall>c. map omreq_seq_num (filter (from_client c) acc)
            = map (\<lambda>i. cid_next_exp_seq_num os c + of_nat i) [0..<length (filter (from_client c) acc)])"
proof -
  have "map omreq_seq_num (filter (from_client c) (accepted_by k os (arrived k os)))
      = map (\<lambda>i. cid_next_exp_seq_num os c + of_nat i) [0..<length (filter (from_client c) (accepted_by k os (arrived k os)))]" for c
    unfolding accepted_by_def by (rule accepted_seq)
  moreover note recvCallback_ok [OF assms, of rx]
  ultimately show ?thesis unfolding Let_def took_def by (auto split: if_splits)
qed

theorem server_recv_witness:
  "\<exists>os'. recvCallback 0 4 (demo_server demo_stream) = Inr os' \<and> pending_in (sock 0 os') = [1, 0, 0]
    \<and> map recv_time (pending (fifo_sequencer os')) = [4, 4]"
proof -
  have "\<forall>m \<in> set (arrived 0 (demo_server demo_stream)). known_client m" using demo_known by (simp add: demo_arrived)
  from server_recv [OF this, of 4] show ?thesis
    by (auto simp: demo_arrived demo_accepted Let_def ME_MAX_PENDING_REQUESTS_def demo_frames)
qed

text \<open>C23: how TCP cuts the stream does not matter: taking what has arrived and then what comes later leads to the same
  requests at the sequencer and the same bytes in the buffer as taking everything at once.\<close>

theorem server_stream:
  assumes known: "\<forall>m \<in> set (arrived k (put_sock k s3 os)). known_client m" and sq: "sequencer_ok (fifo_sequencer os)"
    and s3: "pending_in s3 = pending_in (sock k os) @ later"
    and r1: "recvCallback k rx1 os = Inr os1"
    and s2: "pending_in s2 = pending_in (sock k os1) @ later"
    and r2: "recvCallback k rx2 (put_sock k s2 os1) = Inr os2" and r3: "recvCallback k rx3 (put_sock k s3 os) = Inr os3"
  shows "map rt_request (pending (fifo_sequencer os2)) = map rt_request (pending (fifo_sequencer os3))
    \<and> pending_in (sock k os2) = pending_in (sock k os3)"
proof -
  let ?b = "pending_in (sock k os)"
  define m1 where "m1 = arrived k os"
  define m2 where "m2 = map (OMClientRequest_at 0) (frames 38 (leftover 38 ?b @ later))"
  have fr: "frames 38 (?b @ later) = frames 38 ?b @ frames 38 (leftover 38 ?b @ later)"
    "leftover 38 (?b @ later) = leftover 38 (leftover 38 ?b @ later)" using frames_append [of 38 ?b later] by simp_all
  have a3: "arrived k (put_sock k s3 os) = m1 @ m2" by (simp add: arrived_simp s3 fr m1_def m2_def)
  have k1: "\<forall>m \<in> set m1. known_client m" and k2: "\<forall>m \<in> set m2. known_client m" using known a3 by auto
  have ret: "\<not> ME_MAX_PENDING_REQUESTS < pending_size (fifo_sequencer os') + length (accepted_by k os' (arrived k os'))"
    if "\<forall>m \<in> set (arrived k os'). known_client m" "sequencer_ok (fifo_sequencer os')" "recvCallback k rx os' = Inr os''"
    for os' os'' rx
    using recvCallback_ok [OF that(1,2), of rx] that(3) by (auto split: if_splits)
  obtain osa sa where a: "os1 = put_sock k sa osa" "took rx1 (accepted_by k os m1) os osa"
    "\<And>ms. accepted_by k os (m1 @ ms) = accepted_by k os m1 @ accepted_by k osa ms" "pending_in sa = leftover 38 ?b"
    using recvCallback_ok [OF k1 [unfolded m1_def] sq, of rx1] ret [OF k1 [unfolded m1_def] sq r1] r1
    unfolding m1_def by auto
  have a2: "arrived k (put_sock k s2 os1) = m2" by (simp add: arrived_simp s2 a(1,4) m2_def)
  have sq2: "sequencer_ok (fifo_sequencer (put_sock k s2 os1))" using a(2) by (simp add: took_def a(1))
  have k2': "\<forall>m \<in> set (arrived k (put_sock k s2 os1)). known_client m" using k2 a2 by simp
  have by2: "accepted_by k (put_sock k s2 os1) = accepted_by k osa" by (simp add: a(1))
  obtain osb sb where b: "os2 = put_sock k sb osb" "took rx2 (accepted_by k osa m2) (put_sock k s2 os1) osb"
    "pending_in sb = leftover 38 (pending_in s2)"
    using recvCallback_ok [OF k2' sq2, of rx2] ret [OF k2' sq2 r2] r2 unfolding a2 by2 by auto
  have sq3: "sequencer_ok (fifo_sequencer (put_sock k s3 os))" using sq by simp
  obtain osc sc where c: "os3 = put_sock k sc osc" "took rx3 (accepted_by k os (m1 @ m2)) (put_sock k s3 os) osc"
    "pending_in sc = leftover 38 (pending_in s3)"
    using recvCallback_ok [OF known sq3, of rx3] ret [OF known sq3 r3] r3 unfolding a3 by auto
  have "map rt_request (pending (fifo_sequencer os2)) = map rt_request (pending (fifo_sequencer os3))"
    using a(2,3) b(2) c(2) by (simp add: took_def a(1) b(1) c(1) comp_def)
  moreover have "pending_in (sock k os2) = pending_in (sock k os3)"
    by (simp add: b(1,3) c(1,3) s2 s3 a(1,4) fr)
  ultimately show ?thesis by blast
qed

theorem server_stream_witness:
  "\<exists>os1 os2 os3. recvCallback 0 4 (demo_server (take 50 demo_stream)) = Inr os1
    \<and> recvCallback 0 7 (put_sock 0 (socket_holding (pending_in (sock 0 os1) @ drop 50 demo_stream)) os1) = Inr os2
    \<and> recvCallback 0 9 (put_sock 0 (socket_holding demo_stream) (demo_server (take 50 demo_stream))) = Inr os3
    \<and> map rt_request (pending (fifo_sequencer os2)) = map rt_request (pending (fifo_sequencer os3))"
proof -
  let ?os = "demo_server (take 50 demo_stream)" and ?s3 = "socket_holding demo_stream"
  define f1 where "f1 = OMClientRequest_bytes (demo_om_request\<lparr>omreq_seq_num := 1\<rparr>)"
  define f3 where "f3 = OMClientRequest_bytes (demo_om_request\<lparr>omreq_seq_num := 2\<rparr>)"
  have len: "length f1 = 38" "length f3 = 38" by (simp_all add: f1_def f3_def)
  have ds: "demo_stream = f1 @ f1 @ f3 @ [1, 0, 0]" by (simp add: demo_stream_def demo_om_requests_def f1_def f3_def)
  have rt: "OMClientRequest_at 0 f1 = demo_om_request\<lparr>omreq_seq_num := 1\<rparr>" "OMClientRequest_at 0 f3 = demo_om_request\<lparr>omreq_seq_num := 2\<rparr>"
    using request_round_trip [of _ "[]"] demo_wf(1) by (simp_all add: f1_def f3_def)
  have known: "\<forall>m \<in> set (arrived 0 (put_sock 0 ?s3 ?os)). known_client m"
    using demo_known demo_arrived [of 0] by (simp add: arrived_simp)
  have t50: "take 50 demo_stream = f1 @ take 12 f1" "drop 50 demo_stream = drop 12 f1 @ f3 @ [1, 0, 0]"
    by (simp_all add: ds len)
  have ar1: "frames 38 (f1 @ take 12 f1) = [f1]" "leftover 38 (f1 @ take 12 f1) = take 12 f1"
    using frames_concat [of 38 "[f1]" "take 12 f1"] by (simp_all add: len frames_short leftover_short)
  have k1: "\<forall>m \<in> set (arrived 0 ?os). known_client m" using demo_known
    by (simp add: arrived_simp t50 ar1 rt demo_om_requests_def)
  have n1: "pending_size (fifo_sequencer ?os) + length (arrived 0 ?os) \<le> ME_MAX_PENDING_REQUESTS"
    by (simp add: arrived_simp t50 ar1 ME_MAX_PENDING_REQUESTS_def)
  obtain os1 where os1: "recvCallback 0 4 ?os = Inr os1" "sequencer_ok (fifo_sequencer os1)"
    "pending_in (sock 0 os1) = take 12 f1" "pending_size (fifo_sequencer os1) \<le> 1"
    using recv_returns [OF k1 _ n1, of 4] by (auto simp: arrived_simp t50 ar1)
  have sq3: "sequencer_ok (fifo_sequencer (put_sock 0 ?s3 ?os))" by simp
  have n3: "pending_size (fifo_sequencer (put_sock 0 ?s3 ?os)) + length (arrived 0 (put_sock 0 ?s3 ?os)) \<le> ME_MAX_PENDING_REQUESTS"
    by (simp add: arrived_simp demo_frames demo_om_requests_def ME_MAX_PENDING_REQUESTS_def)
  obtain os3 where os3: "recvCallback 0 9 (put_sock 0 ?s3 ?os) = Inr os3"
    using recv_returns [OF known sq3 n3, of 9] by blast
  let ?s2 = "socket_holding (pending_in (sock 0 os1) @ drop 50 demo_stream)"
  have ar2: "arrived 0 (put_sock 0 ?s2 os1) = map (OMClientRequest_at 0) [f1, f3]"
  proof -
    have e: "take 12 f1 @ drop 12 f1 @ f3 @ [1, 0, 0] = f1 @ f3 @ [1, 0, 0]" by (metis append_assoc append_take_drop_id)
    have "frames 38 (f1 @ f3 @ [1, 0, 0]) = [f1, f3]"
      using frames_concat [of 38 "[f1, f3]" "[1, 0, 0]"] by (simp add: len frames_short)
    then show ?thesis by (simp add: arrived_simp t50 os1(3) e)
  qed
  have k2: "\<forall>m \<in> set (arrived 0 (put_sock 0 ?s2 os1)). known_client m" using demo_known
    unfolding ar2 by (simp add: rt demo_om_requests_def)
  have sq: "sequencer_ok (fifo_sequencer (put_sock 0 ?s2 os1))" using os1(2) by simp
  have n2: "pending_size (fifo_sequencer (put_sock 0 ?s2 os1)) + length (arrived 0 (put_sock 0 ?s2 os1)) \<le> ME_MAX_PENDING_REQUESTS"
    unfolding ar2 using os1(4) by (simp add: ME_MAX_PENDING_REQUESTS_def)
  obtain os2 where os2: "recvCallback 0 7 (put_sock 0 ?s2 os1) = Inr os2"
    using recv_returns [OF k2 sq n2, of 7] by blast
  have "pending_in ?s3 = pending_in (sock 0 ?os) @ drop 50 demo_stream"
    "pending_in ?s2 = pending_in (sock 0 os1) @ drop 50 demo_stream" by simp_all
  from server_stream [OF known _ this(1) os1(1) this(2) os2 os3] os1(1) os2 os3 show ?thesis by auto
qed

text \<open>Sending: the responses that wait in the queue are written, in the order of the queue, to the connection of the
  client they are for, each client's responses numbered without a gap from its next outgoing number on.\<close>

theorem server_send:
  assumes "lfq_ok (os_outgoing_responses os)" and "\<forall>r \<in> set (contents (os_outgoing_responses os)). connected os r"
    and "\<And>k. next_send_valid_index (sock k os) + 50 * length (contents (os_outgoing_responses os)) \<le> TCPBufferSize"
  shows "\<exists>os' ms. send_responses os = Inr os' \<and> contents (os_outgoing_responses os') = []
    \<and> map me_client_response ms = contents (os_outgoing_responses os)
    \<and> (\<forall>k. pending_out (sock k os') = pending_out (sock k os)
          @ concat (map OMClientResponse_bytes (filter (on_socket (cid_tcp_socket os) k) ms)))
    \<and> (\<forall>c. map omrsp_seq_num (filter (to_client c) ms)
          = map (\<lambda>i. cid_next_outgoing_seq_num os c + of_nat i) [0..<length (filter (to_client c) ms)])"
  using send_responses_ok [OF assms] numbered_responses numbered_seq unfolding delivered_def by blast

definition demo_connected :: OrderServer where
  "demo_connected = (demo_server [])\<lparr>cid_tcp_socket := (\<lambda>_. None)(3 := Some 1)\<rparr>"

lemma demo_connected_simps:
  "os_outgoing_responses demo_connected = demo_response_queue" "sock k demo_connected = socket_holding []"
  "\<forall>r \<in> set (contents demo_response_queue). connected demo_connected r" "cid_tcp_socket demo_connected 3 = Some 1"
  using demo_server_simps(1) [of k "[]"]
  by (simp_all add: demo_connected_def connected_def demo_om_response_def ME_MAX_NUM_CLIENTS_def sock_def)

theorem server_send_witness:
  "\<exists>os' ms. send_responses demo_connected = Inr os' \<and> length ms = 2
    \<and> pending_out (sock 1 os') = concat (map OMClientResponse_bytes (filter (on_socket (cid_tcp_socket demo_connected) 1) ms))"
proof -
  have "lfq_ok (os_outgoing_responses demo_connected)"
    "\<forall>r \<in> set (contents (os_outgoing_responses demo_connected)). connected demo_connected r"
    "next_send_valid_index (sock k demo_connected) + 50 * length (contents (os_outgoing_responses demo_connected)) \<le> TCPBufferSize" for k
    using demo_connected_simps by (simp_all add: TCPBufferSize_def)
  note sent = server_send [OF this]
  obtain os' ms where r: "send_responses demo_connected = Inr os'"
    "map me_client_response ms = contents demo_response_queue"
    "\<forall>k. pending_out (sock k os') = pending_out (sock k demo_connected)
          @ concat (map OMClientResponse_bytes (filter (on_socket (cid_tcp_socket demo_connected) k) ms))"
    using sent unfolding demo_connected_simps(1) by blast
  have "length ms = 2" using arg_cong [OF r(2), of length] by simp
  then show ?thesis using r by (auto simp: demo_connected_simps)
qed

text \<open>What the server does not expect: a client id of 256 or more, from the network or from the matching engine,
  leaves the server's arrays; a response for a client that has not sent a request yet ends the process.\<close>

theorem server_rejects:
  "(\<not> known_client m \<longrightarrow> on_request k rx m os = Inl OutOfBounds)
   \<and> (\<not> connected os r \<longrightarrow> send_response r os
      = Inl (if unat (rsp_client_id r) < ME_MAX_NUM_CLIENTS then AssertFailed else OutOfBounds))"
  by (auto simp: known_client_def on_request_def connected_def send_response_def)

theorem server_rejects_witness:
  "on_request 0 4 (demo_om_request\<lparr>me_client_request := (me_client_request demo_om_request)\<lparr>req_client_id := 256\<rparr>\<rparr>) (demo_server []) = Inl OutOfBounds
   \<and> send_response (me_client_response demo_om_response) (demo_server []) = Inl AssertFailed"
  using server_rejects [of "demo_om_request\<lparr>me_client_request := (me_client_request demo_om_request)\<lparr>req_client_id := 256\<rparr>\<rparr>" 0 4
      "demo_server []" "me_client_response demo_om_response"]
    server_rejects [of demo_om_request 0 4 "demo_server []" "me_client_response demo_om_response"]
  by (simp add: known_client_def connected_def ME_MAX_NUM_CLIENTS_def demo_om_response_def)

end
