(* ===== verification/Order_Gateway.thy ===== *)
theory Order_Gateway
  imports Order_Server
begin

text \<open>
  order_gw/order_gateway.h and order_gateway.cpp: the trading side's end of the TCP connection to the order
  server, and what the two ends together achieve.
\<close>

section \<open>State and operations\<close>

record OrderGateway =
  gw_client_id :: ClientId
  gw_outgoing_requests :: ClientRequestLFQueue
  gw_incoming_responses :: ClientResponseLFQueue
  gw_next_outgoing_seq_num :: u64
  gw_next_exp_seq_num :: u64
  gw_tcp_socket :: TCPSocket

definition OrderGateway_init ::
  "ClientId \<Rightarrow> ClientRequestLFQueue \<Rightarrow> ClientResponseLFQueue \<Rightarrow> TCPSocket \<Rightarrow> OrderGateway" where
  "OrderGateway_init client_id client_requests client_responses socket =
     \<lparr>gw_client_id = client_id, gw_outgoing_requests = client_requests, gw_incoming_responses = client_responses,
      gw_next_outgoing_seq_num = 1, gw_next_exp_seq_num = 1, gw_tcp_socket = socket\<rparr>"

text \<open>The body of the loop that sends: one request.\<close>

definition send_request :: "MEClientRequest \<Rightarrow> OrderGateway \<Rightarrow> OrderGateway res" where
  "send_request client_request gw =
     bindE (tcp_send (put_u64 (gw_next_outgoing_seq_num gw)) (gw_tcp_socket gw)) (\<lambda>s.
     bindE (tcp_send (MEClientRequest_bytes client_request) s) (\<lambda>s.
     Inr (gw\<lparr>gw_tcp_socket := s, gw_outgoing_requests := snd (updateReadIndex (gw_outgoing_requests gw)),
             gw_next_outgoing_seq_num := gw_next_outgoing_seq_num gw + 1\<rparr>)))"

definition send_requests :: "OrderGateway \<Rightarrow> OrderGateway res" where
  "send_requests gw = drain no_guard gw_outgoing_requests send_request gw"

text \<open>One response of the receive buffer.\<close>

definition on_response :: "OMClientResponse \<Rightarrow> OrderGateway \<Rightarrow> OrderGateway res" where
  "on_response m gw =
     (if rsp_client_id (me_client_response m) \<noteq> gw_client_id gw then Inr gw
      else if omrsp_seq_num m \<noteq> gw_next_exp_seq_num gw then Inr gw
      else bindE (lfq_write (me_client_response m) (gw_incoming_responses gw)) (\<lambda>q.
           Inr (gw\<lparr>gw_next_exp_seq_num := gw_next_exp_seq_num gw + 1, gw_incoming_responses := q\<rparr>)))"

definition gw_recvCallback :: "Nanos \<Rightarrow> OrderGateway \<Rightarrow> OrderGateway res" where
  "gw_recvCallback rx_time gw =
     (let s = gw_tcp_socket gw
      in if 50 \<le> next_rcv_valid_index s then
           bindE (frame_loop 50 (next_rcv_valid_index s) (\<lambda>i. on_response (OMClientResponse_at i (pending_in s))) 0 gw)
           (\<lambda>(i, gw). bindE (discard i (gw_tcp_socket gw)) (\<lambda>s. Inr (gw\<lparr>gw_tcp_socket := s\<rparr>)))
         else Inr gw)"

text \<open>One round of the thread.\<close>

definition gateway_round :: "kernel_io \<Rightarrow> OrderGateway \<Rightarrow> OrderGateway res" where
  "gateway_round io gw =
     bindE (tcp_sendAndRecv gw_tcp_socket (\<lambda>s gw. gw\<lparr>gw_tcp_socket := s\<rparr>) gw_recvCallback io gw) (\<lambda>(r, gw).
     send_requests gw)"


section \<open>Sending\<close>

fun numbered_requests :: "u64 \<Rightarrow> MEClientRequest list \<Rightarrow> OMClientRequest list" where
  "numbered_requests sn [] = []"
| "numbered_requests sn (r # rs) = \<lparr>omreq_seq_num = sn, me_client_request = r\<rparr> # numbered_requests (sn + 1) rs"

lemma map_numbered_requests: "map me_client_request (numbered_requests sn rs) = rs"
  by (induction rs arbitrary: sn) simp_all

lemma length_numbered_requests [simp]: "length (numbered_requests sn rs) = length rs"
  by (induction rs arbitrary: sn) simp_all

lemma send_request_consumes: "consumes gw_outgoing_requests send_request"
  by (rule consumesI) (auto simp: send_request_def res_simps)

lemma send_requests_fold:
  assumes "next_send_valid_index (gw_tcp_socket gw) + 38 * length rs \<le> TCPBufferSize"
  shows "\<exists>gw'. foldE send_request rs gw = Inr gw'
    \<and> pending_out (gw_tcp_socket gw') = pending_out (gw_tcp_socket gw)
        @ concat (map OMClientRequest_bytes (numbered_requests (gw_next_outgoing_seq_num gw) rs))
    \<and> pending_in (gw_tcp_socket gw') = pending_in (gw_tcp_socket gw)
    \<and> gw_next_outgoing_seq_num gw' = gw_next_outgoing_seq_num gw + of_nat (length rs)
    \<and> gw_client_id gw' = gw_client_id gw \<and> gw_incoming_responses gw' = gw_incoming_responses gw
    \<and> gw_next_exp_seq_num gw' = gw_next_exp_seq_num gw"
  using assms
proof (induction rs arbitrary: gw)
  case (Cons r rs)
  let ?s = "gw_tcp_socket gw" and ?sn = "gw_next_outgoing_seq_num gw"
  obtain s1 where s1: "tcp_send (put_u64 ?sn) ?s = Inr s1" "pending_out s1 = pending_out ?s @ put_u64 ?sn"
    "pending_in s1 = pending_in ?s" "next_send_valid_index s1 = next_send_valid_index ?s + 8"
    using tcp_send_ok [of ?s "put_u64 ?sn"] Cons.prems by auto
  obtain s2 where s2: "tcp_send (MEClientRequest_bytes r) s1 = Inr s2"
    "pending_out s2 = pending_out s1 @ MEClientRequest_bytes r" "pending_in s2 = pending_in s1"
    "next_send_valid_index s2 = next_send_valid_index s1 + 30"
    using tcp_send_ok [of s1 "MEClientRequest_bytes r"] Cons.prems s1(4) by auto
  define gw1 where "gw1 = gw\<lparr>gw_tcp_socket := s2, gw_outgoing_requests := snd (updateReadIndex (gw_outgoing_requests gw)),
    gw_next_outgoing_seq_num := ?sn + 1\<rparr>"
  have one: "send_request r gw = Inr gw1" using s1(1) s2(1) by (simp add: send_request_def gw1_def)
  have "next_send_valid_index (gw_tcp_socket gw1) + 38 * length rs \<le> TCPBufferSize"
    using Cons.prems s1(4) s2(4) by (simp add: gw1_def)
  from Cons.IH [OF this] one show ?case using s1(2,3) s2(2,3)
    by (auto simp: gw1_def OMClientRequest_bytes_def add.assoc)
qed simp


section \<open>Receiving\<close>

fun accepted_responses :: "ClientId \<Rightarrow> u64 \<Rightarrow> OMClientResponse list \<Rightarrow> OMClientResponse list" where
  "accepted_responses cid ex [] = []"
| "accepted_responses cid ex (m # ms) =
     (if rsp_client_id (me_client_response m) = cid \<and> omrsp_seq_num m = ex then m # accepted_responses cid (ex + 1) ms
      else accepted_responses cid ex ms)"

definition responses_arrived :: "OrderGateway \<Rightarrow> OMClientResponse list" where
  "responses_arrived gw = map (OMClientResponse_at 0) (frames 50 (pending_in (gw_tcp_socket gw)))"

lemma on_responses_fold:
  assumes "lfq_ok (gw_incoming_responses gw)"
    and "length (accepted_responses (gw_client_id gw) (gw_next_exp_seq_num gw) ms) \<le> lfq_room (gw_incoming_responses gw)"
  shows "\<exists>gw'. foldE on_response ms gw = Inr gw' \<and> lfq_ok (gw_incoming_responses gw')
    \<and> contents (gw_incoming_responses gw') = contents (gw_incoming_responses gw)
        @ map me_client_response (accepted_responses (gw_client_id gw) (gw_next_exp_seq_num gw) ms)
    \<and> gw_next_exp_seq_num gw' = gw_next_exp_seq_num gw
        + of_nat (length (accepted_responses (gw_client_id gw) (gw_next_exp_seq_num gw) ms))
    \<and> gw_tcp_socket gw' = gw_tcp_socket gw \<and> gw_client_id gw' = gw_client_id gw
    \<and> gw_outgoing_requests gw' = gw_outgoing_requests gw \<and> gw_next_outgoing_seq_num gw' = gw_next_outgoing_seq_num gw"
  using assms
proof (induction ms arbitrary: gw)
  case (Cons m ms)
  show ?case
  proof (cases "rsp_client_id (me_client_response m) = gw_client_id gw \<and> omrsp_seq_num m = gw_next_exp_seq_num gw")
    case True
    then obtain q where q: "lfq_write (me_client_response m) (gw_incoming_responses gw) = Inr q" "lfq_ok q"
      "contents q = contents (gw_incoming_responses gw) @ [me_client_response m]"
      "lfq_room q = lfq_room (gw_incoming_responses gw) - 1"
      using lfq.push_ok [OF Cons.prems(1), of "me_client_response m"] Cons.prems(2) by auto
    define gw1 where "gw1 = gw\<lparr>gw_next_exp_seq_num := gw_next_exp_seq_num gw + 1, gw_incoming_responses := q\<rparr>"
    have "on_response m gw = Inr gw1" using True q(1) by (simp add: on_response_def gw1_def)
    moreover have "lfq_ok (gw_incoming_responses gw1)"
      "length (accepted_responses (gw_client_id gw1) (gw_next_exp_seq_num gw1) ms) \<le> lfq_room (gw_incoming_responses gw1)"
      using Cons.prems True q by (simp_all add: gw1_def)
    ultimately show ?thesis using Cons.IH [of gw1] True q(3) by (auto simp: gw1_def)
  next
    case False
    then have "on_response m gw = Inr gw"
      "accepted_responses (gw_client_id gw) (gw_next_exp_seq_num gw) (m # ms)
         = accepted_responses (gw_client_id gw) (gw_next_exp_seq_num gw) ms" by (auto simp: on_response_def)
    then show ?thesis using Cons by simp
  qed
qed simp

lemma gw_recvCallback_ok:
  assumes "lfq_ok (gw_incoming_responses gw)"
    and "length (accepted_responses (gw_client_id gw) (gw_next_exp_seq_num gw) (responses_arrived gw))
      \<le> lfq_room (gw_incoming_responses gw)"
  shows "\<exists>gw'. gw_recvCallback rx gw = Inr gw' \<and> lfq_ok (gw_incoming_responses gw')
    \<and> contents (gw_incoming_responses gw') = contents (gw_incoming_responses gw)
        @ map me_client_response (accepted_responses (gw_client_id gw) (gw_next_exp_seq_num gw) (responses_arrived gw))
    \<and> gw_next_exp_seq_num gw' = gw_next_exp_seq_num gw
        + of_nat (length (accepted_responses (gw_client_id gw) (gw_next_exp_seq_num gw) (responses_arrived gw)))
    \<and> pending_in (gw_tcp_socket gw') = leftover 50 (pending_in (gw_tcp_socket gw))
    \<and> pending_out (gw_tcp_socket gw') = pending_out (gw_tcp_socket gw)"
proof (cases "50 \<le> next_rcv_valid_index (gw_tcp_socket gw)")
  case False
  then have "responses_arrived gw = []" "leftover 50 (pending_in (gw_tcp_socket gw)) = pending_in (gw_tcp_socket gw)"
    by (simp_all add: responses_arrived_def frames_short leftover_short)
  then show ?thesis using assms(1) False by (simp add: gw_recvCallback_def Let_def)
next
  case True
  let ?s = "gw_tcp_socket gw"
  have loop: "frame_loop 50 (next_rcv_valid_index ?s) (\<lambda>i. on_response (OMClientResponse_at i (pending_in ?s))) 0 gw
     = bindE (foldE on_response (responses_arrived gw) gw) (\<lambda>st.
         Inr (next_rcv_valid_index ?s - length (leftover 50 (pending_in ?s)), st))"
    using frame_loop_frames [of 50 "\<lambda>i. on_response (OMClientResponse_at i (pending_in ?s))"
        "\<lambda>b. on_response (OMClientResponse_at 0 b)" "pending_in ?s" 0 gw] at_frame(2) [of _ "pending_in ?s"]
    by (simp add: responses_arrived_def foldE_map)
  obtain gw1 where gw1: "foldE on_response (responses_arrived gw) gw = Inr gw1" "lfq_ok (gw_incoming_responses gw1)"
    "contents (gw_incoming_responses gw1) = contents (gw_incoming_responses gw)
        @ map me_client_response (accepted_responses (gw_client_id gw) (gw_next_exp_seq_num gw) (responses_arrived gw))"
    "gw_next_exp_seq_num gw1 = gw_next_exp_seq_num gw
        + of_nat (length (accepted_responses (gw_client_id gw) (gw_next_exp_seq_num gw) (responses_arrived gw)))"
    "gw_tcp_socket gw1 = ?s"
    using on_responses_fold [OF assms] by blast
  obtain s where "discard (next_rcv_valid_index ?s - length (leftover 50 (pending_in ?s))) ?s = Inr s"
    "pending_in s = leftover 50 (pending_in ?s)" "pending_out s = pending_out ?s"
    using discard_ok [of 50 ?s] True by auto
  then show ?thesis using True gw1
    by (intro exI [of _ "gw1\<lparr>gw_tcp_socket := s\<rparr>"]) (simp add: gw_recvCallback_def Let_def loop)
qed


section \<open>Both ends\<close>

text \<open>Requests that are numbered without a gap from the number the server expects are all accepted.\<close>

lemma accepted_numbered:
  assumes "\<forall>r \<in> set rs. unat (req_client_id r) = c" and "own c = None \<or> own c = Some k" and "ex c = sn"
  shows "accepted k own ex (numbered_requests sn rs) = numbered_requests sn rs"
  using assms
proof (induction rs arbitrary: own ex sn)
  case (Cons r rs)
  then show ?case
    using Cons.IH [of "own(c := Some k)" "ex(c := ex c + 1)" "sn + 1"] Cons.IH [of own "ex(c := ex c + 1)" "sn + 1"]
    by (auto simp: Let_def)
qed simp

lemma wf_request_frames:
  assumes "\<forall>r \<in> set rs. wf_request r"
  shows "map (OMClientRequest_at 0) (frames 38 (concat (map OMClientRequest_bytes (numbered_requests sn rs)))) = numbered_requests sn rs"
proof -
  have "frames 38 (concat (map OMClientRequest_bytes (numbered_requests sn rs)) @ []) = map OMClientRequest_bytes (numbered_requests sn rs) @ frames 38 []"
    using frames_concat [of 38 "map OMClientRequest_bytes (numbered_requests sn rs)" "[]"] by auto
  moreover have "OMClientRequest_at 0 (OMClientRequest_bytes m) = m" if "m \<in> set (numbered_requests sn rs)" for m
  proof -
    have "me_client_request m \<in> set rs" using that by (metis imageI list.set_map map_numbered_requests)
    then show ?thesis using assms request_round_trip [of m "[]"] by simp
  qed
  ultimately show ?thesis by (simp add: frames_short map_idI)
qed

text \<open>Responses that are numbered without a gap from the number the gateway expects are all accepted.\<close>

lemma accepted_responses_numbered:
  assumes "map omrsp_seq_num ms = map (\<lambda>i. ex + of_nat i) [0..<length ms]"
    and "\<forall>m \<in> set ms. rsp_client_id (me_client_response m) = cid"
  shows "accepted_responses cid ex ms = ms"
  using assms
proof (induction ms arbitrary: ex)
  case (Cons m ms)
  have "map omrsp_seq_num (m # ms) = ex # map (\<lambda>i. (ex + 1) + of_nat i) [0..<length ms]"
    using Cons.prems(1) by (simp add: map_upt_Suc add.assoc del: upt_Suc)
  then show ?case using Cons.IH [of "ex + 1"] Cons.prems(2) by simp
qed simp

lemma wf_response_frames:
  assumes "\<forall>m \<in> set ms. wf_response (me_client_response m)"
  shows "map (OMClientResponse_at 0) (frames 50 (concat (map OMClientResponse_bytes ms))) = ms"
proof -
  have "frames 50 (concat (map OMClientResponse_bytes ms) @ []) = map OMClientResponse_bytes ms @ frames 50 []"
    using frames_concat [of 50 "map OMClientResponse_bytes ms" "[]"] by auto
  moreover have "OMClientResponse_at 0 (OMClientResponse_bytes m) = m" if "m \<in> set ms" for m
    using assms response_round_trip [of m "[]"] that by simp
  ultimately show ?thesis by (simp add: frames_short map_idI)
qed

section \<open>Properties of the connection\<close>

text \<open>C15: the requests that the trading side queued reach the sequencer of the exchange, all of them and in their
  order: the gateway numbers and sends them, and the order server, reading the bytes that the gateway's
  socket holds, accepts every one.\<close>

theorem requests_reach_exchange:
  assumes q: "lfq_ok (gw_outgoing_requests gw)" "contents (gw_outgoing_requests gw) = rs"
    and out: "pending_out (gw_tcp_socket gw) = []" "38 * length rs \<le> TCPBufferSize"
    and wf: "\<forall>r \<in> set rs. wf_request r \<and> req_client_id r = gw_client_id gw"
    and c: "unat (gw_client_id gw) < ME_MAX_NUM_CLIENTS"
    and own: "cid_tcp_socket os (unat (gw_client_id gw)) = None \<or> cid_tcp_socket os (unat (gw_client_id gw)) = Some k"
    and ex: "cid_next_exp_seq_num os (unat (gw_client_id gw)) = gw_next_outgoing_seq_num gw"
    and sq: "sequencer_ok (fifo_sequencer os)" "pending_size (fifo_sequencer os) + length rs \<le> ME_MAX_PENDING_REQUESTS"
    and inb: "pending_in (sock k os) = []"
  shows "\<exists>gw' os'. send_requests gw = Inr gw' \<and> contents (gw_outgoing_requests gw') = []
    \<and> recvCallback k rx (put_sock k (snd (read_avail TCPBufferSize (pending_out (gw_tcp_socket gw')) (sock k os))) os) = Inr os'
    \<and> map rt_request (pending (fifo_sequencer os')) = map rt_request (pending (fifo_sequencer os)) @ rs"
proof -
  let ?ms = "numbered_requests (gw_next_outgoing_seq_num gw) rs" and ?c = "unat (gw_client_id gw)"
  have "next_send_valid_index (gw_tcp_socket gw) = 0" using arg_cong [OF out(1), of length] by simp
  then obtain gw' where gw': "foldE send_request rs gw = Inr gw'"
    "pending_out (gw_tcp_socket gw') = concat (map OMClientRequest_bytes ?ms)"
    using send_requests_fold [of gw rs] out by auto
  have "send_requests gw = foldE send_request (contents (gw_outgoing_requests gw)) gw"
    unfolding send_requests_def by (rule drain_foldE [OF send_request_consumes guards_ok(2) q(1)])
  then have run: "send_requests gw = Inr gw'" using q(2) gw'(1) by simp
  have empty: "contents (gw_outgoing_requests gw') = []"
    using drained [OF send_request_consumes q(1)] q(2) gw'(1) by auto
  define s where "s = snd (read_avail TCPBufferSize (pending_out (gw_tcp_socket gw')) (sock k os))"
  have len: "length (concat (map OMClientRequest_bytes ms)) = 38 * length ms" for ms by (induction ms) simp_all
  have "next_rcv_valid_index (sock k os) = 0" using arg_cong [OF inb, of length] by simp
  then have s: "pending_in s = concat (map OMClientRequest_bytes ?ms)"
    using out(2) by (simp add: s_def read_avail_pending inb gw'(2) len)
  have arr: "arrived k (put_sock k s os) = ?ms" using wf wf_request_frames [of rs] by (simp add: arrived_simp s)
  have "accepted_by k os ?ms = ?ms" unfolding accepted_by_def
    by (rule accepted_numbered [where c = ?c]) (use wf own ex in auto)
  then have acc: "accepted_by k (put_sock k s os) (arrived k (put_sock k s os)) = ?ms" unfolding arr by simp
  have "me_client_request m \<in> set rs" if "m \<in> set ?ms" for m using that by (metis imageI list.set_map map_numbered_requests)
  then have known: "\<forall>m \<in> set (arrived k (put_sock k s os)). known_client m"
    using wf c unfolding arr known_client_def by auto
  have sq': "sequencer_ok (fifo_sequencer (put_sock k s os))" using sq(1) by simp
  have fits: "\<not> ME_MAX_PENDING_REQUESTS < pending_size (fifo_sequencer (put_sock k s os)) + length ?ms" using sq(2) by simp
  obtain os1 t where os1: "recvCallback k rx (put_sock k s os) = Inr (put_sock k t os1)" "took rx ?ms (put_sock k s os) os1"
    using recvCallback_ok [OF known sq', of rx] unfolding acc if_not_P [OF fits] by blast
  then have "map rt_request (pending (fifo_sequencer (put_sock k t os1))) = map rt_request (pending (fifo_sequencer os)) @ rs"
    using map_numbered_requests [of "gw_next_outgoing_seq_num gw" rs] by (simp add: took_def comp_def)
  with run empty os1(1) show ?thesis unfolding s_def by blast
qed

text \<open>C16: and back: the responses that the matching engine queued for a client reach the queue of the trading
  side, all of them and in their order, when the connection is used by this client only.\<close>

theorem responses_reach_client:
  assumes q: "lfq_ok (os_outgoing_responses os)" "contents (os_outgoing_responses os) = rs"
    and con: "\<forall>r \<in> set rs. connected os r \<and> wf_response r"
    and room: "\<And>k. next_send_valid_index (sock k os) + 50 * length rs \<le> TCPBufferSize"
    and own: "\<And>c. cid_tcp_socket os c = Some k \<longleftrightarrow> c = unat (gw_client_id gw)"
    and out: "pending_out (sock k os) = []" and inb: "pending_in (gw_tcp_socket gw) = []"
    and ex: "gw_next_exp_seq_num gw = cid_next_outgoing_seq_num os (unat (gw_client_id gw))"
    and gq: "lfq_ok (gw_incoming_responses gw)" "length rs \<le> lfq_room (gw_incoming_responses gw)"
  shows "\<exists>os' gw'. send_responses os = Inr os'
    \<and> gw_recvCallback rx (gw\<lparr>gw_tcp_socket := snd (read_avail TCPBufferSize (pending_out (sock k os')) (gw_tcp_socket gw))\<rparr>) = Inr gw'
    \<and> contents (gw_incoming_responses gw')
        = contents (gw_incoming_responses gw) @ filter (\<lambda>r. rsp_client_id r = gw_client_id gw) rs"
proof -
  let ?c = "unat (gw_client_id gw)"
  define ns where "ns = numbered (cid_next_outgoing_seq_num os) rs"
  define ms where "ms = filter (to_client ?c) ns"
  have sel: "on_socket (cid_tcp_socket os) k = to_client ?c" by (rule ext) (simp add: on_socket_def to_client_def own)
  have tc: "to_client ?c = (\<lambda>m. rsp_client_id (me_client_response m) = gw_client_id gw)"
    by (rule ext) (simp add: to_client_def word_unat_eq_iff)
  obtain os' where os': "send_responses os = Inr os'" "delivered rs os os'"
    using send_responses_ok [of os] q con room by auto
  then have o: "pending_out (sock k os') = concat (map OMClientResponse_bytes ms)"
    using out sel by (simp add: delivered_def ms_def ns_def)
  have mr: "map me_client_response ns = rs" by (simp add: ns_def numbered_responses)
  have fr: "map me_client_response ms = filter (\<lambda>r. rsp_client_id r = gw_client_id gw) rs"
    unfolding ms_def mr [symmetric] by (simp add: filter_map comp_def tc)
  have len: "length (concat (map OMClientResponse_bytes xs)) = 50 * length xs" for xs by (induction xs) simp_all
  have "length ms \<le> length ns" unfolding ms_def by (rule length_filter_le)
  also have "length ns = length rs" using arg_cong [OF mr, of length] by simp
  finally have lm: "length ms \<le> length rs" .
  define s where "s = snd (read_avail TCPBufferSize (pending_out (sock k os')) (gw_tcp_socket gw))"
  have "next_rcv_valid_index (gw_tcp_socket gw) = 0" using arg_cong [OF inb, of length] by simp
  then have s: "pending_in s = concat (map OMClientResponse_bytes ms)"
    using lm room [of k] by (simp add: s_def read_avail_pending inb o len)
  let ?gw = "gw\<lparr>gw_tcp_socket := s\<rparr>"
  have "\<forall>m \<in> set ms. wf_response (me_client_response m)"
  proof
    fix m assume "m \<in> set ms"
    then have "me_client_response m \<in> set rs" using mr by (auto simp: ms_def)
    then show "wf_response (me_client_response m)" using con by blast
  qed
  then have arr: "responses_arrived ?gw = ms" by (simp add: responses_arrived_def s wf_response_frames)
  have acc: "accepted_responses (gw_client_id gw) (gw_next_exp_seq_num gw) ms = ms"
    by (rule accepted_responses_numbered)
       (simp_all add: ex ms_def ns_def numbered_seq, simp add: tc)
  have "\<exists>gw'. gw_recvCallback rx ?gw = Inr gw'
      \<and> contents (gw_incoming_responses gw') = contents (gw_incoming_responses gw) @ map me_client_response ms"
    using gw_recvCallback_ok [of ?gw rx] gq lm by (auto simp: arr acc)
  then show ?thesis using os'(1) unfolding fr s_def by blast
qed

definition demo_gateway :: OrderGateway where
  "demo_gateway = OrderGateway_init 3
     \<lparr>qstore = (\<lambda>_. me_client_request demo_om_request), qsize = 16, write_pos = 2, read_pos = 0\<rparr>
     \<lparr>qstore = (\<lambda>_. MEClientResponse_default), qsize = 16, write_pos = 0, read_pos = 0\<rparr> (socket_holding [])"

lemma demo_gateway_simps [simp]:
  "lfq_ok (gw_outgoing_requests demo_gateway)" "lfq_ok (gw_incoming_responses demo_gateway)"
  "contents (gw_outgoing_requests demo_gateway) = [me_client_request demo_om_request, me_client_request demo_om_request]"
  "contents (gw_incoming_responses demo_gateway) = []" "lfq_room (gw_incoming_responses demo_gateway) = 15"
  "gw_tcp_socket demo_gateway = socket_holding []" "gw_client_id demo_gateway = 3"
  "gw_next_outgoing_seq_num demo_gateway = 1" "gw_next_exp_seq_num demo_gateway = 1"
  by (simp_all add: demo_gateway_def OrderGateway_init_def lfq_ok_def is_pow2_16 contents_def lfq_room_def upt_rec)

theorem requests_reach_exchange_witness:
  "\<exists>gw' os'. send_requests demo_gateway = Inr gw'
    \<and> recvCallback 0 4 (put_sock 0 (snd (read_avail TCPBufferSize (pending_out (gw_tcp_socket gw')) (socket_holding [])))
        (demo_server [])) = Inr os'
    \<and> map rt_request (pending (fifo_sequencer os')) = [me_client_request demo_om_request, me_client_request demo_om_request]"
  using requests_reach_exchange [of demo_gateway _ "demo_server []" 0 4, OF _ refl] demo_wf(1)
  by (auto simp: TCPBufferSize_def demo_om_request_def ME_MAX_NUM_CLIENTS_def ME_MAX_PENDING_REQUESTS_def)

theorem responses_reach_client_witness:
  "\<exists>os' gw'. send_responses demo_connected = Inr os'
    \<and> gw_recvCallback 7 (demo_gateway\<lparr>gw_tcp_socket := snd (read_avail TCPBufferSize (pending_out (sock 1 os')) (socket_holding []))\<rparr>) = Inr gw'
    \<and> contents (gw_incoming_responses gw') = [me_client_response demo_om_response, me_client_response demo_om_response]"
proof -
  have "cid_tcp_socket demo_connected c = Some 1 \<longleftrightarrow> c = unat (gw_client_id demo_gateway)" for c
    by (simp add: demo_connected_def)
  moreover have "cid_next_outgoing_seq_num demo_connected c = 1" for c by (simp add: demo_connected_def)
  moreover have "rsp_client_id (me_client_response demo_om_response) = 3" by (simp add: demo_om_response_def)
  ultimately show ?thesis
    using responses_reach_client [of demo_connected _ 1 demo_gateway 7, OF _ refl] demo_wf(2) demo_connected_simps
    by (auto simp: TCPBufferSize_def)
qed

end
