(* ===== verification/Random_Client.thy ===== *)
theory Random_Client
  imports Trade_Engine_Props
begin

text \<open>
  trading/trading_main.cpp: the configuration that the trading process reads from its arguments, and the client that sends
  random orders when the algorithm is \<open>RANDOM\<close>.
\<close>

section \<open>The arguments\<close>

text \<open>
  \<open>stoi\<close> and \<open>stod\<close> are what the conversions of the standard library give for a text, the exceptions that they throw being
  faults. The arguments are those behind the name of the program; a missing one is a null pointer. \<^verbatim>\<open>Qty\<close> is unsigned, so
  the conversion of a negative number wraps.
\<close>

fun ticker_cfgs ::
  "(string \<Rightarrow> int res) \<Rightarrow> (string \<Rightarrow> real res) \<Rightarrow> nat \<Rightarrow> string list \<Rightarrow> TradeEngineCfgHashMap \<Rightarrow> TradeEngineCfgHashMap res" where
  "ticker_cfgs stoi stod next_ticker_id [] ticker_cfg = Inr ticker_cfg"
| "ticker_cfgs stoi stod next_ticker_id (a # b # c # d # e # args) ticker_cfg =
     bindE (stoi a) (\<lambda>clip. bindE (stod b) (\<lambda>thresh. bindE (stoi c) (\<lambda>size. bindE (stoi d) (\<lambda>pos. bindE (stod e) (\<lambda>loss.
     bindE (array_put ME_MAX_TICKERS ticker_cfg next_ticker_id
              \<lparr>clip = word_of_int clip, threshold = thresh,
               risk_cfg = \<lparr>max_order_size = word_of_int size, max_position = word_of_int pos, max_loss = loss\<rparr>\<rparr>)
     (ticker_cfgs stoi stod (Suc next_ticker_id) args))))))"
| "ticker_cfgs stoi stod next_ticker_id args ticker_cfg = Inl NullDeref"

definition main_config ::
  "(string \<Rightarrow> int res) \<Rightarrow> (string \<Rightarrow> real res) \<Rightarrow> string list \<Rightarrow> (ClientId \<times> AlgoType \<times> TradeEngineCfgHashMap) res" where
  "main_config stoi stod argv =
     (case argv of
        client # algo # args \<Rightarrow>
          bindE (stoi client) (\<lambda>client_id.
          bindE (ticker_cfgs stoi stod 0 args (\<lambda>_. TradeEngineCfg_default)) (\<lambda>ticker_cfg.
          Inr (word_of_int client_id, stringToAlgoType algo, ticker_cfg)))
      | _ \<Rightarrow> Inl AssertFailed)"


section \<open>The random client\<close>

text \<open>
  \<open>rng n a b\<close> is the number that the generator's draw \<open>n\<close> gives for a uniform distribution from \<open>a\<close> to \<open>b\<close>; the standard
  fixes no more than the range. The main thread calls \<open>sendClientRequest\<close> of the trade engine, \<open>rc_engine\<close>, while the thread
  of the order gateway reads the same queue: \<open>reads k\<close> is the number of requests that it takes before write \<open>k\<close> (a read
  of an empty queue does nothing). With the algorithm \<open>RANDOM\<close> the trade engine's own thread writes no request. The log
  lines and the clock readings are left out.
\<close>

type_synonym rng = "nat \<Rightarrow> int \<Rightarrow> int \<Rightarrow> int"

definition lawful_rng :: "rng \<Rightarrow> bool" where
  "lawful_rng rng \<longleftrightarrow> (\<forall>n a b. a \<le> b \<longrightarrow> a \<le> rng n a b \<and> rng n a b \<le> b)"

record RandomClient =
  rc_draws :: nat
  rc_order_id :: OrderId
  rc_requests :: "MEClientRequest list"
  rc_engine :: TradeEngine

definition ORDERS_PER_CLIENT :: nat where "ORDERS_PER_CLIENT = 100000000"

definition base_prices :: "rng \<Rightarrow> nat \<Rightarrow> Price" where
  "base_prices rng i = rng i 100 199"

text \<open>\<^verbatim>\<open>client_id * 1000\<close> is computed in 32 unsigned bits.\<close>

definition RandomClient_init :: "ClientId \<Rightarrow> TradeEngine \<Rightarrow> RandomClient" where
  "RandomClient_init client_id te =
     \<lparr>rc_draws = ME_MAX_TICKERS, rc_order_id = ucast (client_id * 1000), rc_requests = [], rc_engine = te\<rparr>"

definition send_after_reads :: "nat \<Rightarrow> MEClientRequest \<Rightarrow> TradeEngine \<Rightarrow> TradeEngine res" where
  "send_after_reads n r te = te_sendClientRequest r (te\<lparr>te_requests := ((\<lambda>q. snd (updateReadIndex q)) ^^ n) (te_requests te)\<rparr>)"

definition random_order :: "rng \<Rightarrow> nat \<Rightarrow> ClientId \<Rightarrow> OrderId \<Rightarrow> (nat \<Rightarrow> Price) \<Rightarrow> MEClientRequest res" where
  "random_order rng k client_id order_id ticker_base_price =
     (let ticker_id = word_of_int (rng k 0 (int ME_MAX_TICKERS - 1))
      in bindE (array_idx ME_MAX_TICKERS ticker_base_price (unat ticker_id)) (\<lambda>base.
         bindE (int64 (base + rng (k + 1) 1 10)) (\<lambda>price.
         let qty = word_of_int (rng (k + 2) 2 101); side = (if rng (k + 3) 0 1 \<noteq> 0 then BUY else SELL)
         in Inr \<lparr>req_type = Req_NEW, req_client_id = client_id, req_ticker_id = ticker_id, req_order_id = order_id,
                 req_side = side, req_price = price, req_qty = qty\<rparr>)))"

definition random_round :: "rng \<Rightarrow> (nat \<Rightarrow> nat) \<Rightarrow> ClientId \<Rightarrow> RandomClient \<Rightarrow> RandomClient res" where
  "random_round rng reads client_id rc =
     bindE (random_order rng (rc_draws rc) client_id (rc_order_id rc) (base_prices rng)) (\<lambda>new_request.
     let writes = 2 * length (rc_requests rc)
     in bindE (send_after_reads (reads writes) new_request (rc_engine rc)) (\<lambda>te.
     let requests = rc_requests rc @ [new_request];
         cxl_index = rng (rc_draws rc + 4) 0 (int (length requests) - 1)
     in if 0 \<le> cxl_index \<and> cxl_index < int (length requests)
        then let cxl_request = (requests ! nat cxl_index)\<lparr>req_type := Req_CANCEL\<rparr>
             in bindE (send_after_reads (reads (writes + 1)) cxl_request te) (\<lambda>te.
                Inr \<lparr>rc_draws = rc_draws rc + 5, rc_order_id = rc_order_id rc + 1, rc_requests = requests, rc_engine = te\<rparr>)
        else Inl OutOfBounds))"

text \<open>The first \<open>n\<close> rounds; \<open>main\<close> makes \<open>ORDERS_PER_CLIENT\<close>.\<close>

definition random_client :: "rng \<Rightarrow> (nat \<Rightarrow> nat) \<Rightarrow> ClientId \<Rightarrow> nat \<Rightarrow> TradeEngine \<Rightarrow> RandomClient res" where
  "random_client rng reads client_id n te = foldE (\<lambda>i. random_round rng reads client_id) [0..<n] (RandomClient_init client_id te)"


section \<open>What it sends\<close>

definition random_new :: "ClientId \<Rightarrow> nat \<Rightarrow> MEClientRequest \<Rightarrow> bool" where
  "random_new c i r \<longleftrightarrow> req_type r = Req_NEW \<and> req_client_id r = c \<and> unat (req_ticker_id r) < ME_MAX_TICKERS
     \<and> req_order_id r = ucast (c * 1000) + of_nat i \<and> book_side (req_side r)
     \<and> 101 \<le> req_price r \<and> req_price r \<le> 209 \<and> 2 \<le> req_qty r \<and> req_qty r \<le> 101"

lemma word_in_range:
  assumes "lawful_rng rng" and "0 \<le> a" "a \<le> b" "b < 2 ^ 32"
  shows "uint (word_of_int (rng n a b) :: u32) = rng n a b" "a \<le> rng n a b" "rng n a b \<le> b"
proof -
  show r: "a \<le> rng n a b" "rng n a b \<le> b" using assms(1,3) unfolding lawful_rng_def by blast+
  have "0 \<le> rng n a b" "rng n a b < 2 ^ 32" using r assms(2,4) by linarith+
  then show "uint (word_of_int (rng n a b) :: u32) = rng n a b" by (simp add: uint_word_of_int_eq take_bit_int_eq_self)
qed

lemma random_order_ok:
  assumes "lawful_rng rng"
  shows "\<exists>r. random_order rng k c (ucast (c * 1000) + of_nat i) (base_prices rng) = Inr r \<and> random_new c i r"
proof -
  have t: "uint (word_of_int (rng k 0 7) :: u32) = rng k 0 7" "0 \<le> rng k 0 7" "rng k 0 7 \<le> 7"
    using word_in_range [OF assms, of 0 7 k] by simp_all
  have q: "uint (word_of_int (rng (k + 2) 2 101) :: u32) = rng (k + 2) 2 101" "2 \<le> rng (k + 2) 2 101" "rng (k + 2) 2 101 \<le> 101"
    using word_in_range [OF assms, of 2 101 "k + 2"] by simp_all
  have b: "100 \<le> rng n 100 199" "rng n 100 199 \<le> 199" for n using assms by (auto simp: lawful_rng_def)
  have o: "1 \<le> rng (k + 1) 1 10" "rng (k + 1) 1 10 \<le> 10" using assms by (auto simp: lawful_rng_def)
  let ?t = "unat (word_of_int (rng k 0 7) :: u32)"
  have tn: "?t < ME_MAX_TICKERS" using t by (simp add: ME_MAX_TICKERS_def unat_eq_nat_uint)
  let ?q = "word_of_int (rng (k + 2) 2 101) :: u32"
  let ?r = "\<lparr>req_type = Req_NEW, req_client_id = c, req_ticker_id = word_of_int (rng k 0 7), req_order_id = ucast (c * 1000) + of_nat i,
    req_side = (if rng (k + 3) 0 1 \<noteq> 0 then BUY else SELL), req_price = rng ?t 100 199 + rng (k + 1) 1 10, req_qty = ?q\<rparr>"
  have m: "int ME_MAX_TICKERS - 1 = 7" by (simp add: ME_MAX_TICKERS_def)
  have i: "array_idx ME_MAX_TICKERS (base_prices rng) ?t = Inr (rng ?t 100 199)" using tn by (simp add: base_prices_def)
  have p: "int64 (rng ?t 100 199 + rng (k + 1) 1 10) = Inr (rng ?t 100 199 + rng (k + 1) 1 10)"
    using b [of ?t] o by (simp add: int64_def)
  have "random_order rng k c (ucast (c * 1000) + of_nat i) (base_prices rng) = Inr ?r"
    by (simp only: random_order_def Let_def m i p bindE_Inr)
  moreover have "2 \<le> ?q" "?q \<le> 101" using q by (simp_all add: word_le_def)
  then have "random_new c i ?r" using tn b [of ?t] o by (simp add: random_new_def)
  ultimately show ?thesis by blast
qed

text \<open>The calls of \<open>n\<close> rounds: new orders with consecutive ids, each followed by a cancel of one of the orders so far.\<close>

definition random_calls :: "ClientId \<Rightarrow> nat \<Rightarrow> MEClientRequest list \<Rightarrow> MEClientRequest list \<Rightarrow> bool" where
  "random_calls c n fresh calls \<longleftrightarrow> length fresh = n \<and> (\<forall>i < n. random_new c i (fresh ! i))
     \<and> (\<exists>js. length js = n \<and> (\<forall>i < n. js ! i \<le> i)
         \<and> calls = concat (map (\<lambda>i. [fresh ! i, (fresh ! (js ! i))\<lparr>req_type := Req_CANCEL\<rparr>]) [0..<n]))"

lemma random_calls_snoc:
  assumes "random_calls c n fresh calls" and "random_new c n r" and "j \<le> n"
  shows "random_calls c (Suc n) (fresh @ [r]) (calls @ [r, ((fresh @ [r]) ! j)\<lparr>req_type := Req_CANCEL\<rparr>])"
proof -
  obtain js where js: "length fresh = n" "\<forall>i < n. random_new c i (fresh ! i)" "length js = n" "\<forall>i < n. js ! i \<le> i"
    "calls = concat (map (\<lambda>i. [fresh ! i, (fresh ! (js ! i))\<lparr>req_type := Req_CANCEL\<rparr>]) [0..<n])"
    using assms(1) by (auto simp: random_calls_def)
  let ?f = "\<lambda>i. [fresh ! i, (fresh ! (js ! i))\<lparr>req_type := Req_CANCEL\<rparr>]"
  let ?g = "\<lambda>i. [(fresh @ [r]) ! i, ((fresh @ [r]) ! ((js @ [j]) ! i))\<lparr>req_type := Req_CANCEL\<rparr>]"
  have m: "map ?g [0..<n] = map ?f [0..<n]"
    using js(1,3,4) le_less_trans by (intro map_cong refl) (auto simp: nth_append)
  have c: "concat (map ?g [0..<Suc n]) = concat (map ?g [0..<n]) @ ?g n" by simp
  have g: "?g n = [r, ((fresh @ [r]) ! j)\<lparr>req_type := Req_CANCEL\<rparr>]" using js(1,3) by (simp add: nth_append)
  have "calls @ [r, ((fresh @ [r]) ! j)\<lparr>req_type := Req_CANCEL\<rparr>] = concat (map ?g [0..<Suc n])"
    unfolding c g m js(5) ..
  moreover have "\<forall>i < Suc n. (js @ [j]) ! i \<le> i" "\<forall>i < Suc n. random_new c i ((fresh @ [r]) ! i)"
    using js assms(2,3) by (auto simp: less_Suc_eq nth_append)
  moreover have "length (fresh @ [r]) = Suc n" "length (js @ [j]) = Suc n" using js(1,3) by simp_all
  ultimately show ?thesis unfolding random_calls_def by blast
qed

lemma random_client_Suc: "random_client rng reads c (Suc n) te = bindE (random_client rng reads c n te) (random_round rng reads c)"
proof -
  have "bindE m (foldE f []) = m" for m :: "RandomClient res" and f :: "nat \<Rightarrow> RandomClient \<Rightarrow> RandomClient res" by (cases m) simp_all
  then show ?thesis
    by (cases "random_client rng reads c n te") (simp_all add: random_client_def foldE_append)
qed

text \<open>A round is a new order and a cancel of one of the orders so far, both written to the queue.\<close>

lemma random_round_conv:
  assumes "lawful_rng rng" and "rc_order_id rc = ucast (c * 1000) + of_nat n" and "length (rc_requests rc) = n"
  shows "\<exists>r j. random_new c n r \<and> j \<le> n \<and> random_round rng reads c rc
    = bindE (send_after_reads (reads (2 * n)) r (rc_engine rc)) (\<lambda>te.
      bindE (send_after_reads (reads (2 * n + 1)) (((rc_requests rc @ [r]) ! j)\<lparr>req_type := Req_CANCEL\<rparr>) te) (\<lambda>te.
      Inr \<lparr>rc_draws = rc_draws rc + 5, rc_order_id = rc_order_id rc + 1, rc_requests = rc_requests rc @ [r], rc_engine = te\<rparr>))"
proof -
  obtain r where r: "random_order rng (rc_draws rc) c (rc_order_id rc) (base_prices rng) = Inr r" "random_new c n r"
    using random_order_ok [OF assms(1)] assms(2) by metis
  let ?j = "rng (rc_draws rc + 4) 0 (int (length (rc_requests rc @ [r])) - 1)"
  have "0 \<le> int (length (rc_requests rc @ [r])) - 1" by simp
  then have j: "0 \<le> ?j" "?j \<le> int (length (rc_requests rc @ [r])) - 1" using assms(1) unfolding lawful_rng_def by blast+
  then have jn: "?j < int (length (rc_requests rc @ [r]))" "nat ?j \<le> n" using assms(3) by (simp_all add: nat_le_iff)
  show ?thesis
    unfolding random_round_def r(1) bindE_Inr Let_def using j(1) jn r(2)
    by (intro exI [of _ r] exI [of _ "nat ?j"]) (simp only: if_True simp_thms assms(3))
qed

text \<open>Reads only take requests from the front.\<close>

lemma reads_ok:
  assumes "lfq_ok q"
  shows "lfq_ok (((\<lambda>q. snd (updateReadIndex q)) ^^ n) q) \<and> lfq_room q \<le> lfq_room (((\<lambda>q. snd (updateReadIndex q)) ^^ n) q)
    \<and> (\<exists>k. contents (((\<lambda>q. snd (updateReadIndex q)) ^^ n) q) = drop k (contents q))"
proof (induction n)
  case 0
  show ?case using assms by (auto intro: exI [of _ 0])
next
  case (Suc n)
  let ?q = "((\<lambda>q. snd (updateReadIndex q)) ^^ n) q"
  obtain k where k: "contents ?q = drop k (contents q)" using Suc by blast
  show ?case
  proof (cases "contents ?q")
    case Nil
    then have "snd (updateReadIndex ?q) = ?q" using lfq_empty_iff [of ?q] Suc by (auto simp: getNextToRead_def updateReadIndex_def split: if_splits)
    then show ?thesis using Suc by simp
  next
    case (Cons x xs)
    then have "xs = drop (Suc k) (contents q)" using k by (metis drop_Suc list.sel(3) tl_drop)
    then show ?thesis using lfq_read_ok(2) [of ?q x xs] Suc Cons by force
  qed
qed

lemma send_after_reads_ok:
  assumes "lfq_ok (te_requests te)" and "0 < lfq_room (te_requests te)"
  shows "\<exists>q k. send_after_reads n r te = Inr (te\<lparr>te_requests := q\<rparr>) \<and> lfq_ok q \<and> lfq_room (te_requests te) - 1 \<le> lfq_room q
    \<and> contents q = drop k (contents (te_requests te)) @ [r] \<and> k \<le> length (contents (te_requests te))"
proof -
  let ?q = "((\<lambda>q. snd (updateReadIndex q)) ^^ n) (te_requests te)"
  obtain k where q: "lfq_ok ?q" "lfq_room (te_requests te) \<le> lfq_room ?q" "contents ?q = drop k (contents (te_requests te))"
    using reads_ok [OF assms(1)] by blast
  let ?k = "min k (length (contents (te_requests te)))"
  have "drop k (contents (te_requests te)) = drop ?k (contents (te_requests te))" by (simp add: min_def)
  then show ?thesis using lfq_write_ok [OF q(1), of r] q assms(2)
    by (auto simp: send_after_reads_def te_sendClientRequest_def intro!: exI [of _ ?k])
qed

lemma random_client_calls:
  assumes "lawful_rng rng" and "lfq_ok (te_requests te)"
  shows "2 * n \<le> lfq_room (te_requests te) \<Longrightarrow> \<exists>rc calls q k. random_client rng reads c n te = Inr rc
    \<and> rc_order_id rc = ucast (c * 1000) + of_nat n \<and> random_calls c n (rc_requests rc) calls
    \<and> rc_engine rc = te\<lparr>te_requests := q\<rparr> \<and> lfq_ok q \<and> lfq_room (te_requests te) - 2 * n \<le> lfq_room q
    \<and> contents q = drop k (contents (te_requests te) @ calls)"
proof (induction n)
  case 0
  have "te = te\<lparr>te_requests := te_requests te\<rparr>" by simp
  then show ?case using assms(2)
    by (intro exI [of _ "RandomClient_init c te"] exI [of _ "[]"] exI [of _ "te_requests te"] exI [of _ 0])
      (simp add: random_client_def RandomClient_init_def random_calls_def)
next
  case (Suc n)
  then obtain rc calls q k where rc: "random_client rng reads c n te = Inr rc" "rc_order_id rc = ucast (c * 1000) + of_nat n"
    "random_calls c n (rc_requests rc) calls" "rc_engine rc = te\<lparr>te_requests := q\<rparr>" "lfq_ok q"
    "lfq_room (te_requests te) - 2 * n \<le> lfq_room q" "contents q = drop k (contents (te_requests te) @ calls)" by auto
  have len: "length (rc_requests rc) = n" using rc(3) by (simp add: random_calls_def)
  obtain r j where r: "random_new c n r" "j \<le> n" "random_round rng reads c rc
    = bindE (send_after_reads (reads (2 * n)) r (rc_engine rc)) (\<lambda>te.
      bindE (send_after_reads (reads (2 * n + 1)) (((rc_requests rc @ [r]) ! j)\<lparr>req_type := Req_CANCEL\<rparr>) te) (\<lambda>te.
      Inr \<lparr>rc_draws = rc_draws rc + 5, rc_order_id = rc_order_id rc + 1, rc_requests = rc_requests rc @ [r], rc_engine = te\<rparr>))"
    using random_round_conv [OF assms(1) rc(2) len] by blast
  let ?x = "((rc_requests rc @ [r]) ! j)\<lparr>req_type := Req_CANCEL\<rparr>"
  have room: "0 < lfq_room q" "0 < lfq_room q - 1" using rc(6) Suc.prems by simp_all
  obtain q1 k1 where q1: "send_after_reads (reads (2 * n)) r (te\<lparr>te_requests := q\<rparr>) = Inr (te\<lparr>te_requests := q1\<rparr>)" "lfq_ok q1"
    "lfq_room q - 1 \<le> lfq_room q1" "contents q1 = drop k1 (contents q) @ [r]" "k1 \<le> length (contents q)"
    using send_after_reads_ok [of "te\<lparr>te_requests := q\<rparr>" "reads (2 * n)" r] rc(5) room(1) by auto
  obtain q2 k2 where q2: "send_after_reads (reads (2 * n + 1)) ?x (te\<lparr>te_requests := q1\<rparr>) = Inr (te\<lparr>te_requests := q2\<rparr>)" "lfq_ok q2"
    "lfq_room q1 - 1 \<le> lfq_room q2" "contents q2 = drop k2 (contents q1) @ [?x]" "k2 \<le> length (contents q1)"
    using send_after_reads_ok [of "te\<lparr>te_requests := q1\<rparr>" "reads (2 * n + 1)" ?x] q1(2,3) room(2) by auto
  let ?old = "contents (te_requests te) @ calls"
  define X where "X = ?old"
  define m where "m = k1 + min k (length X)"
  have m: "contents q1 = drop m (X @ [r])" "m \<le> length (X @ [r])"
    using q1(4,5) unfolding rc(7) X_def [symmetric] m_def by (auto simp: min_def)
  have "contents q2 = drop (k2 + m) (X @ [r, ?x])" 
  proof -
    have "drop k2 (drop m Y) @ [?x] = drop (k2 + m) (Y @ [?x])" if "k2 \<le> length (drop m Y)" "m \<le> length Y" for Y using that by simp
    from this [of "X @ [r]"] show ?thesis using q2(4,5) m by simp
  qed
  then have "contents q2 = drop (k2 + m) (contents (te_requests te) @ calls @ [r, ?x])" by (simp add: X_def)
  then show ?case using random_calls_snoc [OF rc(3) r(1,2)] rc(1,2,4,6) r(3) q1(1,3) q2(1-3)
    by (intro exI [of _ "\<lparr>rc_draws = rc_draws rc + 5, rc_order_id = rc_order_id rc + 1, rc_requests = rc_requests rc @ [r],
        rc_engine = te\<lparr>te_requests := q2\<rparr>\<rparr>"] exI [of _ "calls @ [r, ?x]"] exI [of _ q2] exI [of _ "k2 + m"])
      (simp add: random_client_Suc)
qed


section \<open>What the queue allows\<close>

text \<open>A write advances the write position by one, and faults when the position is at the end.\<close>

lemma reads_positions: "write_pos (((\<lambda>q. snd (updateReadIndex q)) ^^ n) q) = write_pos q \<and> qsize (((\<lambda>q. snd (updateReadIndex q)) ^^ n) q) = qsize q"
  by (induction n) (simp_all add: updateReadIndex_def)

lemma send_after_reads_cases:
  obtains "send_after_reads n r te = Inl NullDeref" | "send_after_reads n r te = Inl OutOfBounds"
  | te' where "send_after_reads n r te = Inr te'" "unat (write_pos (te_requests te)) < unat (qsize (te_requests te))"
      "write_pos (te_requests te') = write_pos (te_requests te) + 1" "qsize (te_requests te') = qsize (te_requests te)"
proof -
  let ?q = "((\<lambda>q. snd (updateReadIndex q)) ^^ n) (te_requests te)"
  have p: "write_pos ?q = write_pos (te_requests te)" "qsize ?q = qsize (te_requests te)" using reads_positions by blast+
  show thesis
  proof (cases "getNextToWriteTo ?q")
    case None
    then show thesis by (intro that(1)) (simp add: send_after_reads_def te_sendClientRequest_def lfq_write_def write_elem_def)
  next
    case (Some i)
    then have "i = unat (write_pos ?q)" by (simp add: getNextToWriteTo_def Let_def split: if_splits)
    then show thesis using that(2) that(3) p Some
      by (cases "i < unat (qsize ?q)")
        (simp_all add: send_after_reads_def te_sendClientRequest_def lfq_write_def write_elem_def updateWriteIndex_def)
  qed
qed

lemma random_client_positions:
  assumes "lawful_rng rng" and "write_pos (te_requests te) = 0" and "qsize (te_requests te) = ME_MAX_CLIENT_UPDATES"
  shows "random_client rng reads c n te = Inl NullDeref \<or> random_client rng reads c n te = Inl OutOfBounds
    \<or> (\<exists>rc. random_client rng reads c n te = Inr rc \<and> rc_order_id rc = ucast (c * 1000) + of_nat n \<and> length (rc_requests rc) = n
         \<and> unat (write_pos (te_requests (rc_engine rc))) = 2 * n \<and> 2 * n \<le> 262144
         \<and> qsize (te_requests (rc_engine rc)) = ME_MAX_CLIENT_UPDATES)"
proof (induction n)
  case 0
  show ?case using assms(2,3) by (simp add: random_client_def RandomClient_init_def)
next
  case (Suc n)
  have max: "unat ME_MAX_CLIENT_UPDATES = 262144" by (simp add: ME_MAX_CLIENT_UPDATES_def)
  show ?case
  proof (cases "\<exists>rc. random_client rng reads c n te = Inr rc")
    case False
    then show ?thesis using Suc by (auto simp: random_client_Suc)
  next
    case True
    then obtain rc where rc: "random_client rng reads c n te = Inr rc" "rc_order_id rc = ucast (c * 1000) + of_nat n" "length (rc_requests rc) = n"
      "unat (write_pos (te_requests (rc_engine rc))) = 2 * n" "2 * n \<le> 262144" "qsize (te_requests (rc_engine rc)) = ME_MAX_CLIENT_UPDATES"
      using Suc by auto
    obtain r j where r: "random_round rng reads c rc
      = bindE (send_after_reads (reads (2 * n)) r (rc_engine rc)) (\<lambda>te.
        bindE (send_after_reads (reads (2 * n + 1)) (((rc_requests rc @ [r]) ! j)\<lparr>req_type := Req_CANCEL\<rparr>) te) (\<lambda>te.
        Inr \<lparr>rc_draws = rc_draws rc + 5, rc_order_id = rc_order_id rc + 1, rc_requests = rc_requests rc @ [r], rc_engine = te\<rparr>))"
      using random_round_conv [OF assms(1) rc(2,3)] by blast
    let ?x = "((rc_requests rc @ [r]) ! j)\<lparr>req_type := Req_CANCEL\<rparr>"
    show ?thesis
    proof (cases rule: send_after_reads_cases [of "reads (2 * n)" r "rc_engine rc"])
      case (3 te1)
      then have u1: "unat (write_pos (te_requests te1)) = Suc (2 * n)" using rc(4,5) by (simp add: unat_Suc)
      show ?thesis
      proof (cases rule: send_after_reads_cases [of "reads (2 * n + 1)" ?x te1])
        case A: (3 te2)
        then have "unat (write_pos (te_requests te2)) = 2 * Suc n" using u1 rc(5) by (simp add: unat_Suc)
        moreover have "2 * Suc n \<le> 262144" using A(2) u1 3(4) rc(6) max by simp
        ultimately show ?thesis using rc 3 A r by (simp add: random_client_Suc)
      qed (use rc(1) r 3(1) in \<open>simp_all add: random_client_Suc\<close>)
    qed (use rc(1) r in \<open>simp_all add: random_client_Suc\<close>)
  qed
qed


section \<open>Properties\<close>

text \<open>C38: whatever numbers within their ranges the generator gives and however the gateway reads, the random client writes only
  well formed requests, as long as the request queue has fresh slots for them: for \<open>n\<close> rounds with room
  for \<open>2 n\<close> writes every write succeeds, and what the queue holds then is what the gateway has not taken
  yet of the old requests and the calls: new orders of known tickers and sides with prices from 101 to 209,
  quantities from 2 to 101 and consecutive order ids, each followed by a cancel of one of the orders
  sent so far.\<close>

theorem random_client_well_formed:
  assumes "lawful_rng rng" and "lfq_ok (te_requests te)" and "2 * n \<le> lfq_room (te_requests te)"
  shows "\<exists>rc calls q k. random_client rng reads c n te = Inr rc \<and> random_calls c n (rc_requests rc) calls
    \<and> rc_engine rc = te\<lparr>te_requests := q\<rparr> \<and> contents q = drop k (contents (te_requests te) @ calls)"
  using random_client_calls [OF assms] by blast

definition greatest_rng :: rng where "greatest_rng n a b = b"

lemma greatest_rng_lawful: "lawful_rng greatest_rng"
  by (simp add: lawful_rng_def greatest_rng_def)

lemma request_queue:
  "\<exists>q. LFQueue_init MEClientRequest_default ME_MAX_CLIENT_UPDATES = Inr q \<and> lfq_ok q \<and> lfq_room q = 262143 \<and> contents q = []
    \<and> write_pos q = 0 \<and> qsize q = ME_MAX_CLIENT_UPDATES"
proof -
  have "is_pow2 ME_MAX_CLIENT_UPDATES" unfolding is_pow2_def ME_MAX_CLIENT_UPDATES_def by (rule exI [of _ 18]) simp
  from lfq_init_ok [OF this, of MEClientRequest_default] show ?thesis by (auto simp: LFQueue_init_def res_simps ME_MAX_CLIENT_UPDATES_def)
qed

lemma random_engine:
  obtains te where "\<exists>q books. LFQueue_init MEClientRequest_default ME_MAX_CLIENT_UPDATES = Inr q
      \<and> TradeEngine_init (\<lambda>_ _. None) (\<lambda>_ _. None) (\<lambda>_ _. 0) books (\<lambda>_. 0) 7 RANDOM (\<lambda>_. TradeEngineCfg_default) q rsps upds = Inr te"
    "lfq_ok (te_requests te)" "lfq_room (te_requests te) = 262143" "contents (te_requests te) = []" "write_pos (te_requests te) = 0"
    "qsize (te_requests te) = ME_MAX_CLIENT_UPDATES"
proof -
  obtain q where q: "LFQueue_init MEClientRequest_default ME_MAX_CLIENT_UPDATES = Inr q" "lfq_ok q" "lfq_room q = 262143" "contents q = []"
    "write_pos q = 0" "qsize q = ME_MAX_CLIENT_UPDATES" using request_queue by blast
  obtain te where "TradeEngine_init (\<lambda>_ _. None) (\<lambda>_ _. None) (\<lambda>_ _. 0) quoted_book (\<lambda>_. 0) 7 RANDOM (\<lambda>_. TradeEngineCfg_default) q rsps upds = Inr te"
    "te_requests te = q"
    using new_engine_ready [where reqs = q and n = 0 and cfg = "\<lambda>_. TradeEngineCfg_default" and vwap_mem = "\<lambda>_ _. 0" and junk = quoted_book
        and clock = "\<lambda>_. 0" and cid = 7 and algo = RANDOM and rsps = rsps and upds = upds] q(2)
    by (auto simp: TradeEngineCfg_default_def)
  with q show thesis by (intro that) auto
qed

text \<open>A new trading process, whose gateway reads one request before each write.\<close>

theorem random_client_well_formed_witness:
  "\<exists>te rc calls q k. te_algo te = RANDOM \<and> random_client greatest_rng (\<lambda>_. 1) 7 131071 te = Inr rc
    \<and> random_calls 7 131071 (rc_requests rc) calls \<and> rc_engine rc = te\<lparr>te_requests := q\<rparr> \<and> contents q = drop k calls"
proof -
  obtain te where te: "\<exists>q books. LFQueue_init MEClientRequest_default ME_MAX_CLIENT_UPDATES = Inr q
      \<and> TradeEngine_init (\<lambda>_ _. None) (\<lambda>_ _. None) (\<lambda>_ _. 0) books (\<lambda>_. 0) 7 RANDOM (\<lambda>_. TradeEngineCfg_default) q sample_empty sample_no_updates = Inr te"
    "lfq_ok (te_requests te)" "lfq_room (te_requests te) = 262143" "contents (te_requests te) = []" by (rule random_engine)
  have "te_algo te = RANDOM" using te(1) by (auto simp: TradeEngine_init_def bindE_eq_Inr)
  moreover have "2 * 131071 \<le> lfq_room (te_requests te)" by (simp add: te(3))
  ultimately show ?thesis using random_client_well_formed [OF greatest_rng_lawful te(2), of 131071 "\<lambda>_. 1" 7]
    unfolding te(4) append_Nil by blast
qed

text \<open>C39: the random client never finishes. A queue's indices are never reduced modulo its size, so the 262144 slots of the
  request queue serve 262144 writes, however promptly the gateway reads: at most 131072 rounds return, and
  the \<open>ORDERS_PER_CLIENT\<close> rounds that \<open>main\<close> makes end in a write through the null pointer or outside
  the queue's memory, whatever the generator and the gateway do.\<close>

theorem random_client_uses_up_queue:
  assumes "lawful_rng rng" and "write_pos (te_requests te) = 0" and "qsize (te_requests te) = ME_MAX_CLIENT_UPDATES"
  shows "(random_client rng reads c ORDERS_PER_CLIENT te = Inl NullDeref \<or> random_client rng reads c ORDERS_PER_CLIENT te = Inl OutOfBounds)
    \<and> (\<forall>n rc. random_client rng reads c n te = Inr rc \<longrightarrow> n \<le> 131072)"
proof -
  have "\<not> 2 * ORDERS_PER_CLIENT \<le> 262144" by (simp add: ORDERS_PER_CLIENT_def)
  moreover have "n \<le> 131072" if "random_client rng reads c n te = Inr rc" for n rc
    using random_client_positions [OF assms, of reads c n] that by auto
  ultimately show ?thesis using random_client_positions [OF assms, of reads c ORDERS_PER_CLIENT] by blast
qed

theorem random_client_uses_up_queue_witness:
  "\<exists>te. te_algo te = RANDOM \<and> contents (te_requests te) = []
    \<and> (random_client greatest_rng (\<lambda>_. 1) 7 ORDERS_PER_CLIENT te = Inl NullDeref
       \<or> random_client greatest_rng (\<lambda>_. 1) 7 ORDERS_PER_CLIENT te = Inl OutOfBounds)"
proof -
  obtain te where te: "\<exists>q books. LFQueue_init MEClientRequest_default ME_MAX_CLIENT_UPDATES = Inr q
      \<and> TradeEngine_init (\<lambda>_ _. None) (\<lambda>_ _. None) (\<lambda>_ _. 0) books (\<lambda>_. 0) 7 RANDOM (\<lambda>_. TradeEngineCfg_default) q sample_empty sample_no_updates = Inr te"
    "lfq_ok (te_requests te)" "lfq_room (te_requests te) = 262143" "contents (te_requests te) = []" "write_pos (te_requests te) = 0"
    "qsize (te_requests te) = ME_MAX_CLIENT_UPDATES" by (rule random_engine)
  have "te_algo te = RANDOM" using te(1) by (auto simp: TradeEngine_init_def bindE_eq_Inr)
  then show ?thesis using random_client_uses_up_queue [OF greatest_rng_lawful te(5,6), of "\<lambda>_. 1" 7] te(4) by blast
qed

end
