(* ===== verification/Processes.thy ===== *)
theory Processes
  imports Market_Path Server_Creation Order_Gateway Random_Client
begin

text \<open>
  EXCHANGE/exchange\_main.cpp and trading/trading\_main.cpp: how the two processes are put together, and what their books
  agree on from the start. The loggers, the calibration of the timer, the dashboard and the signal handler are left out:
  none of them touches the state of the components.
\<close>

section \<open>The exchange\<close>

record Exchange =
  ex_engine :: MatchingEngine
  ex_publisher :: MarketDataPublisher
  ex_synthesizer :: SnapshotSynthesizer
  ex_server :: OrderServer

text \<open>
  \<open>cid_mem\<close>, \<open>price_mem\<close> and \<open>junk\<close> are what memory without initial value holds, \<open>threads\<close> says whether threads can be
  created; the kernel is that of theory Socket\_Creation. The queues are shared: where two components hold the same queue,
  both start with the empty one.
\<close>

definition exchange_main ::
  "(nat \<Rightarrow> nat \<Rightarrow> nat \<Rightarrow> ptr) \<Rightarrow> (nat \<Rightarrow> nat \<Rightarrow> ptr) \<Rightarrow> MEOrderBook \<Rightarrow> resolver \<Rightarrow> IfAddr list option \<Rightarrow> kernel \<Rightarrow> bool \<Rightarrow> sys_call list
     \<Rightarrow> (Exchange \<times> sys_call list) res" where
  "exchange_main cid_mem price_mem junk resolve ifaddrs reply threads tr =
     bindE (LFQueue_init MEClientRequest_default ME_MAX_CLIENT_UPDATES) (\<lambda>client_requests.
     bindE (LFQueue_init MEClientResponse_default ME_MAX_CLIENT_UPDATES) (\<lambda>client_responses.
     bindE (LFQueue_init MEMarketUpdate_default ME_MAX_MARKET_UPDATES) (\<lambda>market_updates.
     bindE (MatchingEngine_init cid_mem price_mem junk client_requests client_responses market_updates) (\<lambda>matching_engine.
     bindE (assertE threads) (\<lambda>_.
     bindE (mcast_init resolve ifaddrs reply ''233.252.14.3'' ''lo'' 20001 False (SocketBuf_init (-1)) tr) (\<lambda>(fd, incremental, tr).
     bindE (MarketDataPublisher_init market_updates incremental) (\<lambda>publisher.
     bindE (mcast_init resolve ifaddrs reply ''233.252.14.1'' ''lo'' 20000 False (SocketBuf_init (-1)) tr) (\<lambda>(fd, snapshot, tr).
     bindE (SnapshotSynthesizer_init (snapshot_md_updates publisher) snapshot) (\<lambda>synthesizer.
     bindE (assertE threads) (\<lambda>_.
     bindE (server_listen resolve ifaddrs reply ''lo'' 12345 new_server tr) (\<lambda>(epoll_fd, server, tr).
     bindE (assertE threads) (\<lambda>_.
     Inr (\<lparr>ex_engine = matching_engine, ex_publisher = publisher, ex_synthesizer = synthesizer,
           ex_server = OrderServer_init client_requests client_responses server\<rparr>, tr)))))))))))))"


section \<open>The trading process\<close>

record Trader =
  tp_engine :: TradeEngine
  tp_gateway :: OrderGateway
  tp_consumer :: MarketDataConsumer

definition trading_main ::
  "(string \<Rightarrow> int res) \<Rightarrow> (string \<Rightarrow> real res) \<Rightarrow> string list \<Rightarrow> (nat \<Rightarrow> nat \<Rightarrow> ptr) \<Rightarrow> (nat \<Rightarrow> nat \<Rightarrow> ptr) \<Rightarrow> (nat \<Rightarrow> nat \<Rightarrow> real)
     \<Rightarrow> MarketOrderBook \<Rightarrow> (nat \<Rightarrow> Nanos) \<Rightarrow> resolver \<Rightarrow> IfAddr list option \<Rightarrow> kernel \<Rightarrow> bool \<Rightarrow> sys_call list
     \<Rightarrow> (Trader \<times> sys_call list) res" where
  "trading_main stoi stod argv oid_mem price_mem vwap_mem junk clock resolve ifaddrs reply threads tr =
     bindE (main_config stoi stod argv) (\<lambda>(client_id, algo_type, ticker_cfg).
     bindE (LFQueue_init MEClientRequest_default ME_MAX_CLIENT_UPDATES) (\<lambda>client_requests.
     bindE (LFQueue_init MEClientResponse_default ME_MAX_CLIENT_UPDATES) (\<lambda>client_responses.
     bindE (LFQueue_init MEMarketUpdate_default ME_MAX_MARKET_UPDATES) (\<lambda>market_updates.
     bindE (TradeEngine_init oid_mem price_mem vwap_mem junk clock client_id algo_type ticker_cfg client_requests client_responses
              market_updates) (\<lambda>trade_engine.
     bindE (assertE threads) (\<lambda>_.
     bindE (tcp_connect resolve ifaddrs reply ''127.0.0.1'' ''lo'' 12345 False (SocketBuf_init (-1)) tr) (\<lambda>(fd, tcp_socket, tr).
     bindE (assertE (fd \<ge> 0)) (\<lambda>_.
     bindE (assertE threads) (\<lambda>_.
     bindE (mcast_init resolve ifaddrs reply ''233.252.14.3'' ''lo'' 20001 True (SocketBuf_init (-1)) tr) (\<lambda>(fd, incremental, tr).
     let (joined, tr) = (if fd \<ge> 0 then mcast_join reply ''233.252.14.3'' incremental tr else (False, tr))
     in bindE (MarketDataConsumer_init market_updates \<lparr>join_fd = fd, join_done = joined\<rparr> incremental (SocketBuf_init (-1))) (\<lambda>consumer.
     bindE (assertE threads) (\<lambda>_.
     Inr (\<lparr>tp_engine = stamp_event trade_engine,
           tp_gateway = OrderGateway_init client_id client_requests client_responses tcp_socket,
           tp_consumer = consumer\<rparr>, tr)))))))))))))"


section \<open>New components\<close>

definition new_book :: "TickerId \<Rightarrow> MEOrderBook" where
  "new_book tid = \<lparr>ob_ticker_id = tid, cid_oid_to_order = (\<lambda>_ _. None),
     orders_at_price_pool = \<lparr>store = (\<lambda>_. \<lparr>object = MEOrdersAtPrice_default, is_free = True\<rparr>), store_size = ME_MAX_PRICE_LEVELS, next_free = 0\<rparr>,
     bids_by_price = None, asks_by_price = None, price_orders_at_price = (\<lambda>_. None),
     order_pool = \<lparr>store = (\<lambda>_. \<lparr>object = MEOrder_default, is_free = True\<rparr>), store_size = ME_MAX_ORDER_IDS, next_free = 0\<rparr>,
     next_market_order_id = 1, out_calls = []\<rparr>"

lemma new_book_init: "MEOrderBook_init tid (\<lambda>_ _. None) (\<lambda>_. None) = Inr (new_book tid)"
  by (simp add: MEOrderBook_init_def MemPool_init_def ME_MAX_PRICE_LEVELS_def ME_MAX_ORDER_IDS_def new_book_def)

lemma new_engine:
  "MatchingEngine_init (\<lambda>_ _ _. None) (\<lambda>_ _. None) junk rq rsp upds =
     Inr \<lparr>ticker_order_book = (\<lambda>t. if t < ME_MAX_TICKERS then new_book (of_nat t) else junk),
          incoming_requests = rq, outgoing_ogw_responses = rsp, outgoing_md_updates = upds\<rparr>"
proof -
  have "foldE (\<lambda>i books. bindE (MEOrderBook_init (of_nat i) (\<lambda>_ _. None) (\<lambda>_. None)) (\<lambda>ob. Inr (books(i := ob)))) [0..<n] (\<lambda>_. junk)
    = Inr (\<lambda>t. if t < n then new_book (of_nat t) else junk)" for n
    by (induction n) (auto simp: foldE_append new_book_init)
  then show ?thesis by (simp add: MatchingEngine_init_def)
qed

lemma new_book_acceptable: "unat cid < ME_MAX_NUM_CLIENTS \<Longrightarrow> unat coid < unat ME_MAX_ORDER_IDS \<Longrightarrow> acceptable cid coid price (new_book tid)"
  by (simp add: acceptable_def price_unique_def new_book_def can_allocate_def ME_MAX_PRICE_LEVELS_def ME_MAX_ORDER_IDS_def)

lemma queue_sizes: "is_pow2 ME_MAX_CLIENT_UPDATES" "is_pow2 ME_MAX_MARKET_UPDATES"
  unfolding is_pow2_def ME_MAX_CLIENT_UPDATES_def ME_MAX_MARKET_UPDATES_def by (rule exI [of _ 18], simp)+

definition new_queue :: "'a LFQueue \<Rightarrow> bool" where
  "new_queue q \<longleftrightarrow> lfq_ok q \<and> contents q = [] \<and> lfq_room q = 262143"

lemma new_queues: "\<exists>q. LFQueue_init d ME_MAX_CLIENT_UPDATES = Inr q \<and> new_queue q" "\<exists>q. LFQueue_init d ME_MAX_MARKET_UPDATES = Inr q \<and> new_queue q"
  using lfq_init_ok [OF queue_sizes(1)] lfq_init_ok [OF queue_sizes(2)]
  by (auto simp: new_queue_def ME_MAX_CLIENT_UPDATES_def ME_MAX_MARKET_UPDATES_def)

lemma new_socket: "pending_in (SocketBuf_init fd) = []" "pending_out (SocketBuf_init fd) = []" "sent_bytes (SocketBuf_init fd) = []"
  by (simp_all add: SocketBuf_init_def pending_in_def pending_out_def)

lemma mcast_init_socket:
  "mcast_init resolve ifaddrs reply ip iface port listening s tr = Inr (fd, s', tr') \<Longrightarrow> s' = s\<lparr>socket_fd := fd\<rparr>"
  by (auto simp: mcast_init_def bindE_eq_Inr)


section \<open>What the processes start with\<close>

lemma exchange_starts:
  assumes "exchange_main (\<lambda>_ _ _. None) (\<lambda>_ _. None) junk resolve ifaddrs reply threads tr = Inr (ex, tr')"
  shows "engine_rep (ex_engine ex) (\<lambda>_. (1, \<lambda>_. [])) \<and> queues_ok (ex_engine ex)
    \<and> new_queue (incoming_requests (ex_engine ex)) \<and> new_queue (outgoing_ogw_responses (ex_engine ex)) \<and> new_queue (outgoing_md_updates (ex_engine ex))
    \<and> next_inc_seq_num (ex_publisher ex) = 1 \<and> new_queue (snapshot_md_updates (ex_publisher ex))
    \<and> pending_out (incremental_socket (ex_publisher ex)) = [] \<and> sent_bytes (incremental_socket (ex_publisher ex)) = []
    \<and> shows_view (ex_synthesizer ex) empty_view \<and> last_inc_seq_num (ex_synthesizer ex) = 0
    \<and> cid_next_exp_seq_num (ex_server ex) = (\<lambda>_. 1) \<and> cid_tcp_socket (ex_server ex) = (\<lambda>_. None)"
proof -
  obtain rq rsp upds q where q: "LFQueue_init MEClientRequest_default ME_MAX_CLIENT_UPDATES = Inr rq" "new_queue rq"
    "LFQueue_init MEClientResponse_default ME_MAX_CLIENT_UPDATES = Inr rsp" "new_queue rsp"
    "LFQueue_init MEMarketUpdate_default ME_MAX_MARKET_UPDATES = Inr upds" "new_queue upds"
    "LFQueue_init \<lparr>mdp_seq_num = 0, me_market_update = MEMarketUpdate_default\<rparr> ME_MAX_MARKET_UPDATES = Inr q" "new_queue q"
    using new_queues(1) [of MEClientRequest_default] new_queues(1) [of MEClientResponse_default]
      new_queues(2) [of MEMarketUpdate_default] new_queues(2) [of "\<lparr>mdp_seq_num = 0, me_market_update = MEMarketUpdate_default\<rparr>"]
    by blast
  obtain me where me: "MatchingEngine_init (\<lambda>_ _ _. None) (\<lambda>_ _. None) junk rq rsp upds = Inr me" "engine_rep me (\<lambda>_. (1, \<lambda>_. []))"
    "queues_ok me" "incoming_requests me = rq" "outgoing_ogw_responses me = rsp" "outgoing_md_updates me = upds"
    using MatchingEngine_init_ok [of rq rsp upds junk] q(2,4,6) by (auto simp: new_queue_def)
  obtain fd1 s1 tr1 p fd2 s2 tr2 ss fd3 sv tr3 where steps:
    "mcast_init resolve ifaddrs reply ''233.252.14.3'' ''lo'' 20001 False (SocketBuf_init (-1)) tr = Inr (fd1, s1, tr1)"
    "MarketDataPublisher_init upds s1 = Inr p"
    "mcast_init resolve ifaddrs reply ''233.252.14.1'' ''lo'' 20000 False (SocketBuf_init (-1)) tr1 = Inr (fd2, s2, tr2)"
    "SnapshotSynthesizer_init (snapshot_md_updates p) s2 = Inr ss"
    "ex = \<lparr>ex_engine = me, ex_publisher = p, ex_synthesizer = ss, ex_server = OrderServer_init rq rsp sv\<rparr>"
    using assms by (auto simp: exchange_main_def q me(1) bindE_eq_Inr)
  have s1: "pending_out s1 = []" "sent_bytes s1 = []"
    using mcast_init_socket [OF steps(1)] by (simp_all add: new_socket pending_out_def) (simp_all add: SocketBuf_init_def)
  have p: "next_inc_seq_num p = 1" "snapshot_md_updates p = q" "incremental_socket p = s1"
    using steps(2) by (auto simp: MarketDataPublisher_init_def q(7) bindE_eq_Inr)
  have "0 \<le> socket_fd s2" using steps(4) by (auto simp: SnapshotSynthesizer_init_def bindE_eq_Inr assertE_def split: if_splits)
  then have "shows_view ss empty_view" "last_inc_seq_num ss = 0" using SnapshotSynthesizer_init_ok [of s2 q] steps(4) p(2) by auto
  then show ?thesis using me(2-6) q(2,4,6,8) p s1 by (simp add: steps(5) OrderServer_init_def)
qed

lemma exchange_books:
  assumes "exchange_main (\<lambda>_ _ _. None) (\<lambda>_ _. None) junk resolve ifaddrs reply threads tr = Inr (ex, tr')" and "t < ME_MAX_TICKERS"
  shows "ticker_order_book (ex_engine ex) t = new_book (of_nat t)"
  using assms by (auto simp: exchange_main_def new_engine bindE_eq_Inr case_prod_beta)

lemma trader_starts:
  assumes "trading_main stoi stod argv (\<lambda>_ _. None) (\<lambda>_ _. None) vwap_mem junk clock resolve ifaddrs reply threads tr = Inr (tp, tr')"
    and "n \<le> 256" and "\<forall>t < ME_MAX_TICKERS. uint (clip (te_cfg (tp_engine tp) t)) < 2 ^ 31"
  shows "market_ready n (\<lambda>_ _. []) (tp_engine tp) \<and> new_queue (te_requests (tp_engine tp)) \<and> new_queue (te_responses (tp_engine tp))
    \<and> new_queue (mc_incoming_md_updates (tp_consumer tp)) \<and> \<not> in_recovery (tp_consumer tp) \<and> next_exp_inc_seq_num (tp_consumer tp) = 1
    \<and> pending_in (incremental_mcast_socket (tp_consumer tp)) = []
    \<and> socket_fd (incremental_mcast_socket (tp_consumer tp)) \<noteq> socket_fd (snapshot_mcast_socket (tp_consumer tp))
    \<and> gw_next_outgoing_seq_num (tp_gateway tp) = 1 \<and> gw_next_exp_seq_num (tp_gateway tp) = 1"
proof -
  obtain rq rsp upds where q: "LFQueue_init MEClientRequest_default ME_MAX_CLIENT_UPDATES = Inr rq" "new_queue rq"
    "LFQueue_init MEClientResponse_default ME_MAX_CLIENT_UPDATES = Inr rsp" "new_queue rsp"
    "LFQueue_init MEMarketUpdate_default ME_MAX_MARKET_UPDATES = Inr upds" "new_queue upds"
    using new_queues(1) [of MEClientRequest_default] new_queues(1) [of MEClientResponse_default] new_queues(2) [of MEMarketUpdate_default]
    by blast
  obtain cid algo cfg te fd1 s1 tr1 fd2 s2 tr2 joined mc where steps:
    "TradeEngine_init (\<lambda>_ _. None) (\<lambda>_ _. None) vwap_mem junk clock cid algo cfg rq rsp upds = Inr te"
    "mcast_init resolve ifaddrs reply ''233.252.14.3'' ''lo'' 20001 True (SocketBuf_init (-1)) tr1 = Inr (fd2, s2, tr2)"
    "MarketDataConsumer_init upds \<lparr>join_fd = fd2, join_done = joined\<rparr> s2 (SocketBuf_init (-1)) = Inr mc"
    "tp = \<lparr>tp_engine = stamp_event te, tp_gateway = OrderGateway_init cid rq rsp s1, tp_consumer = mc\<rparr>"
    using assms(1) by (auto simp: trading_main_def q bindE_eq_Inr Let_def case_prod_beta)
  have cfg: "te_cfg te = cfg" using steps(1) by (auto simp: TradeEngine_init_def bindE_eq_Inr)
  then have "\<forall>t < ME_MAX_TICKERS. uint (clip (cfg t)) < 2 ^ 31" using assms(3) by (simp add: steps(4) stamp_event_def)
  then have te: "market_ready n (\<lambda>_ _. []) te" "te_requests te = rq" "te_responses te = rsp"
    using new_engine_ready [of rq n cfg vwap_mem junk clock cid algo rsp upds] steps(1) q(2) assms(2) by (auto simp: new_queue_def)
  have "pending_in s2 = []" using mcast_init_socket [OF steps(2)] by (simp add: pending_in_def SocketBuf_init_def)
  then have "mc_incoming_md_updates mc = upds" "\<not> in_recovery mc" "next_exp_inc_seq_num mc = 1"
    "pending_in (incremental_mcast_socket mc) = []" "socket_fd (incremental_mcast_socket mc) \<noteq> socket_fd (snapshot_mcast_socket mc)"
    using steps(3) by (auto simp: MarketDataConsumer_init_def bindE_eq_Inr assertE_def SocketBuf_init_def pending_in_def split: if_splits)
  then show ?thesis using te q(2,4,6)
    by (simp add: steps(4) OrderGateway_init_def) (simp add: stamp_event_def market_ready_def trades_safely_def)
qed

lemma start_in_step: "n < 2 ^ 20 \<Longrightarrow> in_step n (\<lambda>_. (1, \<lambda>_. [])) (\<lambda>_ _. [])"
  by (simp add: in_step_def ids_ok_def ME_MAX_ORDER_IDS_def same_sides_def tame_book_def public_book_def)


section \<open>When the processes start\<close>

text \<open>A kernel that refuses nothing the program asks about, and a resolver that finds one address.\<close>

definition willing :: "kernel \<Rightarrow> bool" where
  "willing reply \<longleftrightarrow> (\<forall>tr c. goes_on c (reply tr c)) \<and> (\<forall>tr n. 0 \<le> reply tr (Sys_socket n))"

lemma willing_all: "willing reply \<Longrightarrow> all_go_on reply tr cs"
  by (induction cs arbitrary: tr) (auto simp: willing_def)

lemma willing_socket:
  assumes "willing reply" and "resolve = (\<lambda>_ _ _ _. (0, 1))"
  shows "\<exists>fd tr'. createSocket resolve ifaddrs reply cfg tr = Inr (fd, tr') \<and> 0 \<le> fd"
  using setup_socket_calls [of "reply tr (Sys_socket 0)" reply tr 0 _ cfg] willing_all [OF assms(1)] assms
  by (auto simp: createSocket_def made_def willing_def Let_def)

lemma willing_creates:
  assumes "willing reply" and "resolve = (\<lambda>_ _ _ _. (0, 1))"
  shows "\<exists>fd tr'. mcast_init resolve ifaddrs reply ip iface port listening s tr = Inr (fd, s\<lparr>socket_fd := fd\<rparr>, tr') \<and> 0 \<le> fd"
    and "\<exists>fd tr'. tcp_connect resolve ifaddrs reply ip iface port listening s tr = Inr (fd, s\<lparr>socket_fd := fd\<rparr>, tr') \<and> 0 \<le> fd"
proof -
  have c: "\<exists>fd tr'. createSocket resolve ifaddrs reply cfg tr = Inr (fd, tr') \<and> 0 \<le> fd" for cfg
    using willing_socket [OF assms] .
  show "\<exists>fd tr'. mcast_init resolve ifaddrs reply ip iface port listening s tr = Inr (fd, s\<lparr>socket_fd := fd\<rparr>, tr') \<and> 0 \<le> fd"
    using c [of "\<lparr>cfg_ip = ip, cfg_iface = iface, cfg_port = port, is_udp = True, is_listening = listening, needs_so_timestamp = False\<rparr>"]
    by (auto simp: mcast_init_def)
  show "\<exists>fd tr'. tcp_connect resolve ifaddrs reply ip iface port listening s tr = Inr (fd, s\<lparr>socket_fd := fd\<rparr>, tr') \<and> 0 \<le> fd"
    using c [of "\<lparr>cfg_ip = ip, cfg_iface = iface, cfg_port = port, is_udp = False, is_listening = listening, needs_so_timestamp = True\<rparr>"]
    by (auto simp: tcp_connect_def)
qed

lemma willing_listens:
  assumes "willing reply" and "resolve = (\<lambda>_ _ _ _. (0, 1))"
  shows "\<exists>epoll_fd sv' tr'. server_listen resolve ifaddrs reply iface port sv tr = Inr (epoll_fd, sv', tr')"
proof -
  have e: "0 \<le> reply tr Sys_epoll_create" for tr using assms(1) goes_on.simps unfolding willing_def by metis
  have a: "reply tr (Sys_epoll_add efd fd) = 0" for tr efd fd using assms(1) goes_on.simps unfolding willing_def by metis
  obtain fd tr1 where "tcp_connect resolve ifaddrs reply [] iface port True (socket_heap sv (listener_socket sv)) (tr @ [Sys_epoll_create])
    = Inr (fd, (socket_heap sv (listener_socket sv))\<lparr>socket_fd := fd\<rparr>, tr1)" "0 \<le> fd"
    using willing_creates(2) [OF assms] by blast
  then show ?thesis by (simp add: server_listen_def sys_def e a assert_if_def addToEpollList_def sys_is_def)
qed

lemma exchange_main_returns:
  assumes "willing reply" and "resolve = (\<lambda>_ _ _ _. (0, 1))"
  shows "\<exists>ex tr'. exchange_main (\<lambda>_ _ _. None) (\<lambda>_ _. None) junk resolve ifaddrs reply True tr = Inr (ex, tr')"
proof -
  obtain rq rsp upds q where q: "LFQueue_init MEClientRequest_default ME_MAX_CLIENT_UPDATES = Inr rq"
    "LFQueue_init MEClientResponse_default ME_MAX_CLIENT_UPDATES = Inr rsp"
    "LFQueue_init MEMarketUpdate_default ME_MAX_MARKET_UPDATES = Inr upds"
    "LFQueue_init \<lparr>mdp_seq_num = 0, me_market_update = MEMarketUpdate_default\<rparr> ME_MAX_MARKET_UPDATES = Inr q"
    using new_queues(1) [of MEClientRequest_default] new_queues(1) [of MEClientResponse_default]
      new_queues(2) [of MEMarketUpdate_default] new_queues(2) [of "\<lparr>mdp_seq_num = 0, me_market_update = MEMarketUpdate_default\<rparr>"]
    by blast
  let ?s = "SocketBuf_init (-1)"
  obtain fd1 tr1 where i1: "mcast_init resolve ifaddrs reply ''233.252.14.3'' ''lo'' 20001 False ?s tr = Inr (fd1, ?s\<lparr>socket_fd := fd1\<rparr>, tr1)" "0 \<le> fd1"
    using willing_creates(1) [OF assms] by blast
  obtain fd2 tr2 where i2: "mcast_init resolve ifaddrs reply ''233.252.14.1'' ''lo'' 20000 False ?s tr1 = Inr (fd2, ?s\<lparr>socket_fd := fd2\<rparr>, tr2)" "0 \<le> fd2"
    using willing_creates(1) [OF assms] by blast
  obtain ss where ss: "SnapshotSynthesizer_init q (?s\<lparr>socket_fd := fd2\<rparr>) = Inr ss"
    using SnapshotSynthesizer_init_ok [of "?s\<lparr>socket_fd := fd2\<rparr>" q] i2(2) by auto
  obtain efd sv tr3 where l: "server_listen resolve ifaddrs reply ''lo'' 12345 new_server tr2 = Inr (efd, sv, tr3)"
    using willing_listens [OF assms] by blast
  show ?thesis by (simp add: exchange_main_def q new_engine i1 i2 ss l MarketDataPublisher_init_def)
qed

lemma trading_main_returns:
  assumes "willing reply" and "resolve = (\<lambda>_ _ _ _. (0, 1))" and "main_config stoi stod argv = Inr (cid, algo, cfg)"
  shows "\<exists>tp tr'. trading_main stoi stod argv (\<lambda>_ _. None) (\<lambda>_ _. None) vwap_mem junk clock resolve ifaddrs reply True tr = Inr (tp, tr')
    \<and> te_cfg (tp_engine tp) = cfg"
proof -
  obtain rq rsp upds where q: "LFQueue_init MEClientRequest_default ME_MAX_CLIENT_UPDATES = Inr rq"
    "LFQueue_init MEClientResponse_default ME_MAX_CLIENT_UPDATES = Inr rsp"
    "LFQueue_init MEMarketUpdate_default ME_MAX_MARKET_UPDATES = Inr upds"
    using new_queues(1) [of MEClientRequest_default] new_queues(1) [of MEClientResponse_default] new_queues(2) [of MEMarketUpdate_default]
    by blast
  let ?s = "SocketBuf_init (-1)"
  obtain te where te: "TradeEngine_init (\<lambda>_ _. None) (\<lambda>_ _. None) vwap_mem junk clock cid algo cfg rq rsp upds = Inr te" "te_cfg te = cfg"
    using new_books [of ME_MAX_TICKERS junk] by (auto simp: TradeEngine_init_def)
  obtain fd1 tr1 where i1: "tcp_connect resolve ifaddrs reply ''127.0.0.1'' ''lo'' 12345 False ?s tr = Inr (fd1, ?s\<lparr>socket_fd := fd1\<rparr>, tr1)" "0 \<le> fd1"
    using willing_creates(2) [OF assms(1,2)] by blast
  obtain fd2 tr2 where i2: "mcast_init resolve ifaddrs reply ''233.252.14.3'' ''lo'' 20001 True ?s tr1 = Inr (fd2, ?s\<lparr>socket_fd := fd2\<rparr>, tr2)" "0 \<le> fd2"
    using willing_creates(1) [OF assms(1,2)] by blast
  have "reply tr (Sys_setsockopt fd (IP_ADD_MEMBERSHIP ip)) \<noteq> -1" for tr fd ip
    using assms(1) goes_on.simps(5) [of fd "IP_ADD_MEMBERSHIP ip" "reply tr (Sys_setsockopt fd (IP_ADD_MEMBERSHIP ip))"]
    unfolding willing_def by (metis sock_option.distinct(11))
  then have j: "mcast_join reply ip s t = (True, t @ [Sys_setsockopt (socket_fd s) (IP_ADD_MEMBERSHIP ip)])" for ip s t
    by (simp add: mcast_join_def join_def sys_def)
  show ?thesis using te by (simp add: trading_main_def assms(3) q i1 i2 j MarketDataConsumer_init_def stamp_event_def)
qed


section \<open>Properties\<close>

text \<open>C4: from the start of both processes the books agree. When \<open>exchange_main\<close> and \<open>trading_main\<close> have put their
  components together, whatever the kernel answered, and the queue of the exchange then holds requests that its books can
  serve, below \<open>2 ^ 20\<close> new orders with prices below \<open>2 ^ 30\<close> and at most 256 market updates, then the engine serves
  them, the publisher's round sends the updates, the consumer receives them and a round of the trade engine handles
  them without a fault, whatever the algorithm, and every book of the trade engine holds the public part of the book
  of the exchange.\<close>

theorem books_agree_from_start:
  assumes "exchange_main (\<lambda>_ _ _. None) (\<lambda>_ _. None) junk resolve ifaddrs reply threads tr = Inr (ex, tr')"
    and "trading_main stoi stod argv (\<lambda>_ _. None) (\<lambda>_ _. None) vwap_mem mkt_junk clock resolve2 ifaddrs2 reply2 threads2 tr2 = Inr (tp, tr2')"
    and "lfq_ok q" and "contents q = rs" and "serves_all rs ((ex_engine ex)\<lparr>incoming_requests := q\<rparr>) (\<lambda>_. (1, \<lambda>_. []))"
    and "spec_run rs (\<lambda>_. (1, \<lambda>_. [])) = (cs, se')" and "updates_of cs \<noteq> []" and "length (updates_of cs) \<le> 256"
    and "length (filter is_new rs) < 2 ^ 20" and "\<forall>r \<in> set rs. is_new r \<longrightarrow> \<bar>req_price r\<bar> < 2 ^ 30" and "takes_all io"
    and "\<forall>t < ME_MAX_TICKERS. uint (clip (te_cfg (tp_engine tp) t)) < 2 ^ 31"
  shows "\<exists>me' p' mc' te'. engine_steps (length rs) ((ex_engine ex)\<lparr>incoming_requests := q\<rparr>) = Inr me'
    \<and> publisher_round io ((ex_publisher ex)\<lparr>mdp_outgoing_md_updates := outgoing_md_updates me'\<rparr>) = Inr p'
    \<and> mc_recvCallback incremental_mcast_socket put_incremental joined
        ((tp_consumer tp)\<lparr>incremental_mcast_socket := snd (read_avail McastBufferSize (sent_bytes (incremental_socket p'))
            (incremental_mcast_socket (tp_consumer tp)))\<rparr>) = Inr mc'
    \<and> te_round ((tp_engine tp)\<lparr>te_updates := mc_incoming_md_updates mc'\<rparr>) = Inr te'
    \<and> (\<forall>t < ME_MAX_TICKERS. represents (ticker_order_book me' t) (snd (se' t))
         \<and> represents (embed (te_books te' t)) (public_book (snd (se' t))))"
proof -
  let ?se = "\<lambda>_. (1, \<lambda>_. [])" and ?me = "(ex_engine ex)\<lparr>incoming_requests := q\<rparr>" and ?us = "updates_of cs"
  note ex = exchange_starts [OF assms(1)] and tp = trader_starts [OF assms(2) assms(8,12)]
  have me: "engine_rep ?me ?se" "queues_ok ?me" "contents (incoming_requests ?me) = rs @ []" "contents (outgoing_md_updates ?me) = []"
    using ex assms(3,4) by (simp_all add: engine_rep_def queues_ok_def new_queue_def)
  have p: "pending_out (incremental_socket (ex_publisher ex)) = []" "42 * length ?us < McastBufferSize"
    "lfq_ok (snapshot_md_updates (ex_publisher ex))" "length ?us \<le> lfq_room (snapshot_md_updates (ex_publisher ex))"
    using ex assms(8) by (simp_all add: new_queue_def McastBufferSize_def)
  have mc: "\<not> in_recovery (tp_consumer tp)" "next_exp_inc_seq_num (tp_consumer tp) = next_inc_seq_num (ex_publisher ex)"
    "pending_in (incremental_mcast_socket (tp_consumer tp)) = []"
    "socket_fd (incremental_mcast_socket (tp_consumer tp)) \<noteq> socket_fd (snapshot_mcast_socket (tp_consumer tp))"
    "lfq_ok (mc_incoming_md_updates (tp_consumer tp))" "contents (mc_incoming_md_updates (tp_consumer tp)) = []"
    "length ?us \<le> lfq_room (mc_incoming_md_updates (tp_consumer tp))"
    using ex tp assms(8) by (simp_all add: new_queue_def)
  have te: "market_ready (length ?us) (\<lambda>_ _. []) (tp_engine tp)" "lfq_ok (te_responses (tp_engine tp))"
    "contents (te_responses (tp_engine tp)) = []" using tp by (simp_all add: new_queue_def)
  from books_follow [OF me(1-3) assms(5) me(4) assms(6,7) start_in_step [OF assms(9)] assms(10) p assms(11) mc te, of joined] ex
  show ?thesis by auto
qed

definition first_request :: MEClientRequest where
  "first_request = \<lparr>req_type = Req_NEW, req_client_id = 4, req_ticker_id = 0, req_order_id = 9, req_side = BUY, req_price = 105, req_qty = 12\<rparr>"

definition first_queue :: "MEClientRequest LFQueue" where
  "first_queue = \<lparr>qstore = (\<lambda>_. first_request), qsize = 16, write_pos = 1, read_pos = 0\<rparr>"

lemma first_queue_ok: "lfq_ok first_queue" "contents first_queue = [first_request]"
  by (simp_all add: first_queue_def lfq_ok_def contents_def is_pow2_16)

lemma first_request_calls:
  obtains cs se' where "spec_run [first_request] (\<lambda>_. (1, \<lambda>_. [])) = (cs, se')" "length (updates_of cs) = 1" "length (responses_of cs) = 1"
    "spec_process first_request (\<lambda>_. (1, \<lambda>_. [])) = (cs, se')"
proof -
  obtain cs se' where sp: "spec_process first_request (\<lambda>_. (1, \<lambda>_. [])) = (cs, se')" by fastforce
  then have "length (updates_of cs) = 1" "length (responses_of cs) = 1"
    by (auto simp: spec_process_def spec_request_def first_request_def spec_add_def Let_def other_def accepted_response_def market_update_def)
  with sp show thesis using that [of cs se'] by simp
qed

lemma willing_refusing: "willing refusing"
proof -
  have "goes_on c (refusing tr c)" for tr c by (cases c) auto
  then show ?thesis by (simp add: willing_def)
qed

lemma maker_config: "main_config (\<lambda>_. Inr 7) (\<lambda>_. Inr 0) [''7'', ''MAKER''] = Inr (7, MAKER, \<lambda>_. TradeEngineCfg_default)"
  by (simp add: main_config_def stringToAlgoType_def)

theorem books_agree_from_start_witness:
  "\<exists>ex tp me' p' mc' te' tr1 tr2 bk.
     exchange_main (\<lambda>_ _ _. None) (\<lambda>_ _. None) demo_book (\<lambda>_ _ _ _. (0, 1)) None refusing True [] = Inr (ex, tr1)
    \<and> trading_main (\<lambda>_. Inr 7) (\<lambda>_. Inr 0) [''7'', ''MAKER''] (\<lambda>_ _. None) (\<lambda>_ _. None) (\<lambda>_ _. 0) quoted_book (\<lambda>_. 0)
        (\<lambda>_ _ _ _. (0, 1)) None refusing True [] = Inr (tp, tr2)
    \<and> engine_steps 1 ((ex_engine ex)\<lparr>incoming_requests := first_queue\<rparr>) = Inr me'
    \<and> publisher_round demo_io ((ex_publisher ex)\<lparr>mdp_outgoing_md_updates := outgoing_md_updates me'\<rparr>) = Inr p'
    \<and> mc_recvCallback incremental_mcast_socket put_incremental \<lparr>join_fd = 6, join_done = True\<rparr>
        ((tp_consumer tp)\<lparr>incremental_mcast_socket := snd (read_avail McastBufferSize (sent_bytes (incremental_socket p'))
            (incremental_mcast_socket (tp_consumer tp)))\<rparr>) = Inr mc'
    \<and> te_round ((tp_engine tp)\<lparr>te_updates := mc_incoming_md_updates mc'\<rparr>) = Inr te'
    \<and> represents (ticker_order_book me' 0) bk \<and> represents (embed (te_books te' 0)) (public_book bk)"
proof -
  obtain ex tr1 where ex: "exchange_main (\<lambda>_ _ _. None) (\<lambda>_ _. None) demo_book (\<lambda>_ _ _ _. (0, 1)) None refusing True [] = Inr (ex, tr1)"
    using exchange_main_returns [OF willing_refusing refl] by blast
  obtain tp tr2 where tp: "trading_main (\<lambda>_. Inr 7) (\<lambda>_. Inr 0) [''7'', ''MAKER''] (\<lambda>_ _. None) (\<lambda>_ _. None) (\<lambda>_ _. 0) quoted_book (\<lambda>_. 0)
        (\<lambda>_ _ _ _. (0, 1)) None refusing True [] = Inr (tp, tr2)" "te_cfg (tp_engine tp) = (\<lambda>_. TradeEngineCfg_default)"
    using trading_main_returns [OF willing_refusing refl maker_config] by blast
  obtain cs se' where sp: "spec_run [first_request] (\<lambda>_. (1, \<lambda>_. [])) = (cs, se')" "length (updates_of cs) = 1" "length (responses_of cs) = 1"
    "spec_process first_request (\<lambda>_. (1, \<lambda>_. [])) = (cs, se')" using first_request_calls by blast
  let ?me = "(ex_engine ex)\<lparr>incoming_requests := first_queue\<rparr>"
  have "ticker_order_book (ex_engine ex) 0 = new_book 0" using exchange_books [OF ex, of 0] by (simp add: ME_MAX_TICKERS_def)
  moreover have "lfq_room (outgoing_ogw_responses (ex_engine ex)) = 262143" "lfq_room (outgoing_md_updates (ex_engine ex)) = 262143"
    using exchange_starts [OF ex] by (simp_all add: new_queue_def)
  ultimately have "serves first_request ?me (\<lambda>_. (1, \<lambda>_. []))"
    using sp(2-4) new_book_acceptable [of 4 9 105 0]
    by (simp add: serves_def Let_def admissible_def first_request_def ME_MAX_TICKERS_def sweeps_def ME_MAX_NUM_CLIENTS_def ME_MAX_ORDER_IDS_def)
  then have sv: "serves_all [first_request] ?me (\<lambda>_. (1, \<lambda>_. []))" by (simp split: sum.split)
  have h: "updates_of cs \<noteq> []" "length (updates_of cs) \<le> 256" "length (filter is_new [first_request]) < 2 ^ 20"
    "\<forall>r \<in> set [first_request]. is_new r \<longrightarrow> \<bar>req_price r\<bar> < 2 ^ 30"
    "\<forall>t < ME_MAX_TICKERS. uint (clip (te_cfg (tp_engine tp) t)) < 2 ^ 31"
    using sp(2) by (auto simp: tp(2) TradeEngineCfg_default_def first_request_def)
  obtain me' p' mc' te' where r: "engine_steps (length [first_request]) ?me = Inr me'"
    "publisher_round demo_io ((ex_publisher ex)\<lparr>mdp_outgoing_md_updates := outgoing_md_updates me'\<rparr>) = Inr p'"
    "mc_recvCallback incremental_mcast_socket put_incremental \<lparr>join_fd = 6, join_done = True\<rparr>
        ((tp_consumer tp)\<lparr>incremental_mcast_socket := snd (read_avail McastBufferSize (sent_bytes (incremental_socket p'))
            (incremental_mcast_socket (tp_consumer tp)))\<rparr>) = Inr mc'"
    "te_round ((tp_engine tp)\<lparr>te_updates := mc_incoming_md_updates mc'\<rparr>) = Inr te'"
    "\<forall>t < ME_MAX_TICKERS. represents (ticker_order_book me' t) (snd (se' t)) \<and> represents (embed (te_books te' t)) (public_book (snd (se' t)))"
    using books_agree_from_start [OF ex tp(1) first_queue_ok sv sp(1) h(1-4) demo_io_takes h(5), of "\<lparr>join_fd = 6, join_done = True\<rparr>"] by blast
  have one: "length [first_request] = 1" by simp
  from r(5) have b: "represents (ticker_order_book me' 0) (snd (se' 0))" "represents (embed (te_books te' 0)) (public_book (snd (se' 0)))"
    by (simp_all add: ME_MAX_TICKERS_def)
  show ?thesis using ex tp(1) r(1-4) b unfolding one by blast
qed

end
