(* ===== verification/Logging.thy ===== *)
theory Logging
  imports Queue_Loop Types
begin

text \<open>
  Common Files/logging.h: formatted messages are cut into elements, handed to the logger thread through a lock free
  queue, and appended to the file there.
\<close>

section \<open>Elements\<close>

definition LOG_QUEUE_SIZE :: u64 where "LOG_QUEUE_SIZE = 8 * 1024 * 1024"

text \<open>The tag and the union that it selects.\<close>

datatype LogElement = LOG_CHAR char | LOG_INTEGER int | LOG_LONG_INTEGER int | LOG_LONG_LONG_INTEGER int
  | LOG_UNSIGNED_INTEGER u32 | LOG_UNSIGNED_LONG_INTEGER u64 | LOG_UNSIGNED_LONG_LONG_INTEGER u64 | LOG_FLOAT real | LOG_DOUBLE real

text \<open>What the output stream makes of an element; \<open>show_double\<close> is its text of a floating point number.\<close>

primrec element_text :: "(real \<Rightarrow> string) \<Rightarrow> LogElement \<Rightarrow> string" where
  "element_text show_double (LOG_CHAR c) = [c]"
| "element_text show_double (LOG_INTEGER i) = show_int i"
| "element_text show_double (LOG_LONG_INTEGER i) = show_int i"
| "element_text show_double (LOG_LONG_LONG_INTEGER i) = show_int i"
| "element_text show_double (LOG_UNSIGNED_INTEGER u) = show_nat (unat u)"
| "element_text show_double (LOG_UNSIGNED_LONG_INTEGER u) = show_nat (unat u)"
| "element_text show_double (LOG_UNSIGNED_LONG_LONG_INTEGER u) = show_nat (unat u)"
| "element_text show_double (LOG_FLOAT f) = show_double f"
| "element_text show_double (LOG_DOUBLE d) = show_double d"


section \<open>The logger\<close>

record Logger =
  log_file :: string
  log_queue :: "LogElement LFQueue"

text \<open>\<open>is_open\<close> and \<open>started\<close> are what the file system and the creation of the thread answer, \<open>dflt\<close> is an element's default.\<close>

definition Logger_init :: "bool \<Rightarrow> bool \<Rightarrow> LogElement \<Rightarrow> Logger res" where
  "Logger_init is_open started dflt =
     bindE (LFQueue_init dflt LOG_QUEUE_SIZE) (\<lambda>q.
     bindE (assertE is_open) (\<lambda>_. bindE (assertE started) (\<lambda>_. Inr \<lparr>log_file = [], log_queue = q\<rparr>)))"

definition pushValue :: "LogElement \<Rightarrow> Logger \<Rightarrow> Logger res" where
  "pushValue x lg = bindE (lfq_write x (log_queue lg)) (\<lambda>q. Inr (lg\<lparr>log_queue := q\<rparr>))"

text \<open>A string ends at its first zero byte.\<close>

fun pushString :: "string \<Rightarrow> Logger \<Rightarrow> Logger res" where
  "pushString [] lg = Inr lg"
| "pushString (c # s) lg = (if c = CHR 0x00 then Inr lg else bindE (pushValue (LOG_CHAR c) lg) (pushString s))"

text \<open>The arguments of \<open>log\<close>: an element, or a string.\<close>

datatype log_value = Elem LogElement | Str string

primrec push_argument :: "log_value \<Rightarrow> Logger \<Rightarrow> Logger res" where
  "push_argument (Elem x) lg = pushValue x lg"
| "push_argument (Str s) lg = pushString s lg"

text \<open>
  The two overloads of \<open>log\<close>, with and without arguments. \<open>escaped s\<close>: the character behind the percent sign is another one.
\<close>

definition escaped :: "string \<Rightarrow> bool" where
  "escaped s \<longleftrightarrow> (case s of [] \<Rightarrow> False | c # _ \<Rightarrow> c = CHR ''%'')"

fun log_message :: "string \<Rightarrow> log_value list \<Rightarrow> Logger \<Rightarrow> Logger res" where
  "log_message [] [] lg = Inr lg"
| "log_message [] (v # vs) lg = Inl AssertFailed"
| "log_message (c # s) [] lg =
     (if c = CHR ''%'' then
        if escaped s then bindE (pushValue (LOG_CHAR (hd s)) lg) (log_message (tl s) []) else Inl AssertFailed
      else bindE (pushValue (LOG_CHAR c) lg) (log_message s []))"
| "log_message (c # s) (v # vs) lg =
     (if c = CHR ''%'' then
        if escaped s then bindE (pushValue (LOG_CHAR (hd s)) lg) (log_message (tl s) (v # vs))
        else bindE (push_argument v lg) (log_message s vs)
      else bindE (pushValue (LOG_CHAR c) lg) (log_message s (v # vs)))"

text \<open>The logger thread: one element, and one run over the queue.\<close>

definition flush_element :: "(real \<Rightarrow> string) \<Rightarrow> LogElement \<Rightarrow> Logger \<Rightarrow> Logger res" where
  "flush_element show_double x lg =
     Inr (lg\<lparr>log_file := log_file lg @ element_text show_double x, log_queue := snd (updateReadIndex (log_queue lg))\<rparr>)"

definition flushQueue :: "(real \<Rightarrow> string) \<Rightarrow> Logger \<Rightarrow> Logger res" where
  "flushQueue show_double = drain size_guard log_queue (flush_element show_double)"


section \<open>Templates\<close>

text \<open>What a format string means: characters and places for arguments.\<close>

datatype log_token = Literal char | Hole

fun template :: "string \<Rightarrow> log_token list" where
  "template [] = []"
| "template (c # s) =
     (if c \<noteq> CHR ''%'' then Literal c # template s else if escaped s then Literal (hd s) # template (tl s) else Hole # template s)"

definition holes :: "string \<Rightarrow> nat" where
  "holes s = length (filter (\<lambda>t. t = Hole) (template s))"

primrec value_elements :: "log_value \<Rightarrow> LogElement list" where
  "value_elements (Elem x) = [x]"
| "value_elements (Str s) = map LOG_CHAR (takeWhile (\<lambda>c. c \<noteq> CHR 0x00) s)"

text \<open>The elements written before the message ends or the arguments run out.\<close>

fun fill_template :: "log_token list \<Rightarrow> log_value list \<Rightarrow> LogElement list" where
  "fill_template [] vs = []"
| "fill_template (Literal c # ts) vs = LOG_CHAR c # fill_template ts vs"
| "fill_template (Hole # ts) [] = []"
| "fill_template (Hole # ts) (v # vs) = value_elements v @ fill_template ts vs"

definition elements_of :: "string \<Rightarrow> log_value list \<Rightarrow> LogElement list" where
  "elements_of s vs = fill_template (template s) vs"

text \<open>Writing a list of elements.\<close>

definition written :: "LogElement list \<Rightarrow> Logger \<Rightarrow> Logger \<Rightarrow> bool" where
  "written xs lg lg' \<longleftrightarrow> lfq_ok (log_queue lg') \<and> contents (log_queue lg') = contents (log_queue lg) @ xs
     \<and> lfq_room (log_queue lg') = lfq_room (log_queue lg) - length xs \<and> log_file lg' = log_file lg"

lemma written_trans: "written xs lg lg1 \<Longrightarrow> written ys lg1 lg2 \<Longrightarrow> written (xs @ ys) lg lg2"
  by (simp add: written_def)

lemma pushValue_ok:
  assumes "lfq_ok (log_queue lg)" and "0 < lfq_room (log_queue lg)"
  shows "\<exists>lg'. pushValue x lg = Inr lg' \<and> written [x] lg lg'"
  using lfq.push_ok [OF assms, of x] by (auto simp: pushValue_def written_def)

lemma pushString_ok:
  assumes "lfq_ok (log_queue lg)" and "length (value_elements (Str s)) \<le> lfq_room (log_queue lg)"
  shows "\<exists>lg'. pushString s lg = Inr lg' \<and> written (value_elements (Str s)) lg lg'"
  using assms
proof (induction s arbitrary: lg)
  case (Cons c s)
  show ?case
  proof (cases "c = CHR 0x00")
    case True
    then show ?thesis using Cons.prems by (simp add: written_def)
  next
    case False
    then have r: "0 < lfq_room (log_queue lg)" using Cons.prems(2) by simp
    obtain lg1 where lg1: "pushValue (LOG_CHAR c) lg = Inr lg1" "written [LOG_CHAR c] lg lg1" using pushValue_ok [OF Cons.prems(1) r] by blast
    have ok: "lfq_ok (log_queue lg1)" "length (value_elements (Str s)) \<le> lfq_room (log_queue lg1)"
      using lg1(2) Cons.prems(2) False by (auto simp: written_def)
    obtain lg2 where lg2: "pushString s lg1 = Inr lg2" "written (value_elements (Str s)) lg1 lg2" using Cons.IH [OF ok] by blast
    from written_trans [OF lg1(2) lg2(2)] show ?thesis using False lg1(1) lg2(1) by simp
  qed
qed (simp add: written_def)

lemma push_argument_ok:
  assumes "lfq_ok (log_queue lg)" and "length (value_elements v) \<le> lfq_room (log_queue lg)"
  shows "\<exists>lg'. push_argument v lg = Inr lg' \<and> written (value_elements v) lg lg'"
proof (cases v)
  case (Elem x)
  then show ?thesis using pushValue_ok [OF assms(1)] assms(2) by simp
next
  case (Str s)
  then show ?thesis using pushString_ok [OF assms(1), of s] assms(2) by simp
qed

text \<open>One message: it is written completely, or the number of arguments does not fit and the process ends.\<close>

definition logs :: "string \<Rightarrow> log_value list \<Rightarrow> Logger \<Rightarrow> bool" where
  "logs s vs lg \<longleftrightarrow> (if holes s = length vs then \<exists>lg'. log_message s vs lg = Inr lg' \<and> written (elements_of s vs) lg lg'
     else log_message s vs lg = Inl AssertFailed)"

lemma logs_step:
  assumes "pushed = Inr lg1" "written xs lg lg1" and "log_message s vs lg = bindE pushed (log_message s' vs')"
    and "elements_of s vs = xs @ elements_of s' vs'" and "holes s = length vs \<longleftrightarrow> holes s' = length vs'" and "logs s' vs' lg1"
  shows "logs s vs lg"
proof (cases "holes s' = length vs'")
  case True
  then obtain lg2 where "log_message s' vs' lg1 = Inr lg2" "written (elements_of s' vs') lg1 lg2" using assms(6) by (auto simp: logs_def)
  then show ?thesis using True assms(1,3,4,5) written_trans [OF assms(2)] by (auto simp: logs_def)
next
  case False
  then show ?thesis using assms(1,3,5,6) by (simp add: logs_def)
qed

lemma escaped_cases: "escaped s \<Longrightarrow> \<exists>s'. s = CHR ''%'' # s'"
  by (cases s) (auto simp: escaped_def)

lemma log_message_ok:
  assumes "lfq_ok (log_queue lg)" and "length (elements_of s vs) \<le> lfq_room (log_queue lg)"
  shows "logs s vs lg"
  using assms
proof (induction s arbitrary: vs lg rule: length_induct)
  case (1 s)
  show ?case
  proof (cases s)
    case Nil
    then show ?thesis using "1.prems" by (cases vs) (auto simp: logs_def holes_def elements_of_def written_def)
  next
    case (Cons c t)
    consider "c \<noteq> CHR ''%''" | "c = CHR ''%''" "escaped t" | "c = CHR ''%''" "\<not> escaped t" by blast
    then show ?thesis
    proof cases
      case 1
      have e: "elements_of s vs = [LOG_CHAR c] @ elements_of t vs" "holes s = holes t" using Cons 1 by (simp_all add: elements_of_def holes_def)
      obtain lg1 where p: "pushValue (LOG_CHAR c) lg = Inr lg1" "written [LOG_CHAR c] lg lg1"
        using pushValue_ok [OF "1.prems"(1)] "1.prems" e by fastforce
      have "logs t vs lg1" using "1.IH" [rule_format, of t lg1 vs] Cons p(2) "1.prems"(2) e by (auto simp: written_def)
      from logs_step [OF p, of s vs t vs, OF _ e(1) _ this] e(2) show ?thesis using Cons 1 by (cases vs) simp_all
    next
      case 2
      then obtain u where t: "t = CHR ''%'' # u" using escaped_cases by blast
      have e: "elements_of s vs = [LOG_CHAR CHR ''%''] @ elements_of u vs" "holes s = holes u"
        using Cons 2 t by (simp_all add: elements_of_def holes_def)
      obtain lg1 where p: "pushValue (LOG_CHAR CHR ''%'') lg = Inr lg1" "written [LOG_CHAR CHR ''%''] lg lg1"
        using pushValue_ok [OF "1.prems"(1)] "1.prems" e by fastforce
      have "logs u vs lg1" using "1.IH" [rule_format, of u lg1 vs] Cons t p(2) "1.prems"(2) e by (auto simp: written_def)
      from logs_step [OF p, of s vs u vs, OF _ e(1) _ this] e(2) show ?thesis using Cons 2 t by (cases vs) simp_all
    next
      case 3
      show ?thesis
      proof (cases vs)
        case Nil
        then show ?thesis using Cons 3 by (simp add: logs_def holes_def)
      next
        case (Cons v ws)
        have e: "elements_of s vs = value_elements v @ elements_of t ws" "holes s = Suc (holes t)"
          using \<open>s = c # t\<close> 3 Cons by (simp_all add: elements_of_def holes_def)
        obtain lg1 where p: "push_argument v lg = Inr lg1" "written (value_elements v) lg lg1"
          using push_argument_ok [OF "1.prems"(1), of v] "1.prems"(2) e(1) by auto
        have "logs t ws lg1" using "1.IH" [rule_format, of t lg1 ws] \<open>s = c # t\<close> p(2) "1.prems"(2) e by (auto simp: written_def)
        from logs_step [OF p, of s vs t ws, OF _ e(1) _ this] e(2) show ?thesis using \<open>s = c # t\<close> Cons 3 by simp
      qed
    qed
  qed
qed

text \<open>The logger thread.\<close>

lemma flush_consumes: "consumes log_queue (flush_element show_double)"
  by (rule consumesI) (auto simp: flush_element_def)

lemma flush_run: "foldE (flush_element d) xs lg = Inr lg' \<Longrightarrow> log_file lg' = log_file lg @ concat (map (element_text d) xs)"
  by (induction xs arbitrary: lg) (auto simp: flush_element_def)

lemma flush_runs: "\<exists>lg'. foldE (flush_element d) xs lg = Inr lg'"
  by (induction xs arbitrary: lg) (auto simp: flush_element_def)

lemma flushQueue_ok:
  assumes "lfq_ok (log_queue lg)"
  shows "\<exists>lg'. flushQueue d lg = Inr lg' \<and> lfq_ok (log_queue lg') \<and> contents (log_queue lg') = []
    \<and> log_file lg' = log_file lg @ concat (map (element_text d) (contents (log_queue lg)))"
proof -
  obtain lg' where r: "foldE (flush_element d) (contents (log_queue lg)) lg = Inr lg'" using flush_runs by blast
  moreover have "flushQueue d lg = foldE (flush_element d) (contents (log_queue lg)) lg"
    unfolding flushQueue_def by (rule drain_foldE [OF flush_consumes guards_ok(1) assms])
  ultimately show ?thesis using drained [OF flush_consumes assms r] flush_run [OF r] by simp
qed


section \<open>The life of a logger\<close>

text \<open>What happens to a logger: messages and runs of its thread.\<close>

datatype log_event = Message string "log_value list" | Flush

primrec log_event_step :: "(real \<Rightarrow> string) \<Rightarrow> log_event \<Rightarrow> Logger \<Rightarrow> Logger res" where
  "log_event_step d (Message s vs) = log_message s vs"
| "log_event_step d Flush = flushQueue d"

primrec log_length :: "log_event \<Rightarrow> nat" where
  "log_length (Message s vs) = length (elements_of s vs)"
| "log_length Flush = 0"

text \<open>\<open>advanced k lg lg'\<close>: the write position went forward by \<open>k\<close>, inside the vector.\<close>

definition advanced :: "nat \<Rightarrow> Logger \<Rightarrow> Logger \<Rightarrow> bool" where
  "advanced k lg lg' \<longleftrightarrow> unat (write_pos (log_queue lg')) = unat (write_pos (log_queue lg)) + k
     \<and> qsize (log_queue lg') = qsize (log_queue lg)
     \<and> (unat (write_pos (log_queue lg)) \<le> unat (qsize (log_queue lg)) \<longrightarrow> unat (write_pos (log_queue lg')) \<le> unat (qsize (log_queue lg')))"

lemma advanced_trans: "advanced j lg lg1 \<Longrightarrow> advanced k lg1 lg2 \<Longrightarrow> advanced (j + k) lg lg2"
  by (auto simp: advanced_def)

lemma advanced_none [simp]: "advanced 0 lg lg"
  by (simp add: advanced_def)

lemma push_advances:
  assumes "pushValue x lg = Inr lg'" and "unat (qsize (log_queue lg)) \<le> 2 ^ 63"
  shows "advanced 1 lg lg'"
proof -
  let ?q = "log_queue lg"
  have i: "unat (write_pos ?q) < unat (qsize ?q)" "log_queue lg' = ?q\<lparr>qstore := (qstore ?q)(unat (write_pos ?q) := x), write_pos := write_pos ?q + 1\<rparr>"
    using assms(1) by (auto simp: pushValue_def lfq_write_def write_elem_def updateWriteIndex_def getNextToWriteTo_def Let_def res_simps
        split: if_split_asm)
  then show ?thesis using assms(2) unat_Suc [of "write_pos ?q"] by (simp add: advanced_def)
qed

lemma string_advances:
  assumes "pushString s lg = Inr lg'" and "unat (qsize (log_queue lg)) \<le> 2 ^ 63"
  shows "advanced (length (value_elements (Str s))) lg lg'"
  using assms
proof (induction s arbitrary: lg)
  case (Cons c s)
  show ?case
  proof (cases "c = CHR 0x00")
    case False
    obtain lg1 where lg1: "pushValue (LOG_CHAR c) lg = Inr lg1" "pushString s lg1 = Inr lg'"
      using Cons.prems(1) False by (auto simp: res_simps)
    note a = push_advances [OF lg1(1) Cons.prems(2)]
    then have "unat (qsize (log_queue lg1)) \<le> 2 ^ 63" using Cons.prems(2) by (simp add: advanced_def)
    from advanced_trans [OF a Cons.IH [OF lg1(2) this]] show ?thesis using False by simp
  qed (use Cons in simp)
qed simp

lemma argument_advances:
  "push_argument v lg = Inr lg' \<Longrightarrow> unat (qsize (log_queue lg)) \<le> 2 ^ 63 \<Longrightarrow> advanced (length (value_elements v)) lg lg'"
  using push_advances string_advances by (cases v) (auto simp del: value_elements.simps(2) simp add: One_nat_def)

lemma message_advances:
  assumes "log_message s vs lg = Inr lg'" and "unat (qsize (log_queue lg)) \<le> 2 ^ 63"
  shows "advanced (length (elements_of s vs)) lg lg'"
  using assms
proof (induction s arbitrary: vs lg rule: length_induct)
  case (1 s)
  have step: "advanced (length (xs @ elements_of t ws)) lg lg'"
    if "pushed = Inr lg1" "advanced (length xs) lg lg1" "length t < length s" "bindE pushed (log_message t ws) = Inr lg'" for pushed xs lg1 t ws
  proof -
    have "log_message t ws lg1 = Inr lg'" "unat (qsize (log_queue lg1)) \<le> 2 ^ 63" using that(1,2,4) "1.prems"(2) by (simp_all add: advanced_def)
    from "1.IH" [rule_format, OF that(3) this] advanced_trans [OF that(2)] show ?thesis by simp
  qed
  show ?case
  proof (cases s)
    case Nil
    then show ?thesis using "1.prems" by (cases vs) (auto simp: elements_of_def)
  next
    case (Cons c t)
    consider "c \<noteq> CHR ''%''" | u where "c = CHR ''%''" "t = CHR ''%'' # u" | v ws where "c = CHR ''%''" "\<not> escaped t" "vs = v # ws"
      | "c = CHR ''%''" "\<not> escaped t" "vs = []" using escaped_cases by (cases vs) blast+
    then show ?thesis
    proof cases
      case 1
      then have b: "bindE (pushValue (LOG_CHAR c) lg) (log_message t vs) = Inr lg'" using Cons "1.prems"(1) by (cases vs) simp_all
      then obtain lg1 where "pushValue (LOG_CHAR c) lg = Inr lg1" by (auto simp: res_simps)
      from step [OF this _ _ b, of "[LOG_CHAR c]"] push_advances [OF this "1.prems"(2)] show ?thesis
        using Cons 1 by (simp add: elements_of_def)
    next
      case 2
      then have b: "bindE (pushValue (LOG_CHAR CHR ''%'') lg) (log_message u vs) = Inr lg'" using Cons "1.prems"(1) by (cases vs) (simp_all add: escaped_def)
      then obtain lg1 where "pushValue (LOG_CHAR CHR ''%'') lg = Inr lg1" by (auto simp: res_simps)
      from step [OF this _ _ b, of "[LOG_CHAR CHR ''%'']"] push_advances [OF this "1.prems"(2)] show ?thesis
        using Cons 2 by (simp add: elements_of_def escaped_def)
    next
      case 3
      then have b: "bindE (push_argument v lg) (log_message t ws) = Inr lg'" using Cons "1.prems"(1) by simp
      then obtain lg1 where "push_argument v lg = Inr lg1" by (auto simp: res_simps)
      from step [OF this _ _ b, of "value_elements v"] argument_advances [OF this "1.prems"(2)] show ?thesis
        using Cons 3 by (simp add: elements_of_def)
    next
      case 4
      then show ?thesis using Cons "1.prems"(1) by simp
    qed
  qed
qed

lemma flush_advances:
  assumes "flushQueue d lg = Inr lg'"
  shows "advanced 0 lg lg'"
proof -
  have "drain_loop size_guard log_queue (flush_element d) fuel lg = Inr lg' \<Longrightarrow> advanced 0 lg lg'" for fuel
  proof (induction fuel arbitrary: lg)
    case (Suc fuel)
    show ?case
    proof (cases "size_guard (log_queue lg) \<and> getNextToRead (log_queue lg) \<noteq> None")
      case True
      then obtain x lg1 where lg1: "flush_element d x lg = Inr lg1" "drain_loop size_guard log_queue (flush_element d) fuel lg1 = Inr lg'"
        using Suc.prems by (auto simp: res_simps)
      have "advanced 0 lg lg1" using lg1(1) by (auto simp: flush_element_def advanced_def updateReadIndex_def)
      from advanced_trans [OF this Suc.IH [OF lg1(2)]] show ?thesis by simp
    next
      case False
      then show ?thesis using Suc.prems by (auto split: if_splits)
    qed
  qed simp
  then show ?thesis using assms unfolding flushQueue_def drain_def by blast
qed

lemma events_advance:
  assumes "foldE (log_event_step d) es lg = Inr lg'" and "unat (qsize (log_queue lg)) \<le> 2 ^ 63"
  shows "advanced (sum_list (map log_length es)) lg lg'"
  using assms
proof (induction es arbitrary: lg)
  case (Cons e es)
  obtain lg1 where lg1: "log_event_step d e lg = Inr lg1" "foldE (log_event_step d) es lg1 = Inr lg'"
    using Cons.prems(1) by (auto simp: res_simps)
  have a: "advanced (log_length e) lg lg1"
    using lg1(1) message_advances Cons.prems(2) flush_advances by (cases e) auto
  then have "unat (qsize (log_queue lg1)) \<le> 2 ^ 63" using Cons.prems(2) by (simp add: advanced_def)
  from advanced_trans [OF a Cons.IH [OF lg1(2) this]] show ?case by simp
qed simp

lemma new_logger: "\<exists>lg. Logger_init True True dflt = Inr lg \<and> lfq_ok (log_queue lg) \<and> contents (log_queue lg) = []
    \<and> lfq_room (log_queue lg) = 8388607 \<and> log_file lg = [] \<and> qsize (log_queue lg) = LOG_QUEUE_SIZE \<and> write_pos (log_queue lg) = 0"
proof -
  have p: "is_pow2 LOG_QUEUE_SIZE" unfolding is_pow2_def LOG_QUEUE_SIZE_def by (intro exI [of _ 23] conjI) simp_all
  from lfq_init_ok [OF p, of dflt] obtain q where q: "LFQueue_init dflt LOG_QUEUE_SIZE = Inr q" "lfq_ok q" "contents q = []"
    "lfq_room q = unat LOG_QUEUE_SIZE - 1" by (elim exE conjE) (rule that)
  have f: "qsize q = LOG_QUEUE_SIZE" "write_pos q = 0"
    using q(1) unfolding LFQueue_init_def bindE_eq_Inr sum.inject by (auto simp del: numeral_One)
  have r: "lfq_room q = 8388607" using q(4) by (simp add: LOG_QUEUE_SIZE_def)
  have "Logger_init True True dflt = Inr \<lparr>log_file = [], log_queue = q\<rparr>" by (simp add: Logger_init_def q(1))
  then show ?thesis using q(2,3) f r by simp
qed


section \<open>Properties\<close>

text \<open>C34: logging writes what the format string means: with as many arguments as places, and room in the queue, the call
  returns, and the next run of the logger thread appends to the file what was waiting and then the characters and the
  arguments in the order of the string; with any other number of arguments the process ends.\<close>

theorem log_reaches_file:
  assumes "lfq_ok (log_queue lg)" and "length (elements_of s vs) \<le> lfq_room (log_queue lg)"
  shows "if holes s = length vs
    then \<exists>lg1 lg2. log_message s vs lg = Inr lg1 \<and> flushQueue show_double lg1 = Inr lg2 \<and> contents (log_queue lg2) = []
      \<and> log_file lg2 = log_file lg @ concat (map (element_text show_double) (contents (log_queue lg)))
          @ concat (map (element_text show_double) (elements_of s vs))
    else log_message s vs lg = Inl AssertFailed"
proof (cases "holes s = length vs")
  case True
  then obtain lg1 where lg1: "log_message s vs lg = Inr lg1" "written (elements_of s vs) lg lg1"
    using log_message_ok [OF assms] by (auto simp: logs_def)
  then have "lfq_ok (log_queue lg1)" by (simp add: written_def)
  from flushQueue_ok [OF this, of show_double] lg1 show ?thesis using True by (auto simp: written_def)
next
  case False
  then show ?thesis using log_message_ok [OF assms] by (simp add: logs_def)
qed

theorem log_reaches_file_witness:
  "\<exists>lg lg1 lg2. Logger_init True True (LOG_CHAR (CHR 0x00)) = Inr lg
    \<and> log_message ''%% of % is %'' [Str ''qty'', Elem (LOG_INTEGER 42)] lg = Inr lg1 \<and> flushQueue (\<lambda>_. []) lg1 = Inr lg2
    \<and> log_file lg2 = ''% of qty is 42'' \<and> log_message ''% and %'' [Str ''qty''] lg = Inl AssertFailed"
proof -
  obtain lg where lg: "Logger_init True True (LOG_CHAR (CHR 0x00)) = Inr lg" "lfq_ok (log_queue lg)" "contents (log_queue lg) = []"
    "lfq_room (log_queue lg) = 8388607" "log_file lg = []" using new_logger by blast
  have "concat (map (element_text (\<lambda>_. [])) (elements_of ''%% of % is %'' [Str ''qty'', Elem (LOG_INTEGER 42)])) = ''% of qty is 42''"
    "holes ''%% of % is %'' = 2" "length (elements_of ''%% of % is %'' [Str ''qty'', Elem (LOG_INTEGER 42)]) \<le> 8388607"
    "holes ''% and %'' = 2" "length (elements_of ''% and %'' [Str ''qty'']) \<le> 8388607"
    by (simp_all add: elements_of_def holes_def escaped_def show_int_def show_nat.simps digit_char_def) code_simp
  then show ?thesis
    using log_reaches_file [of lg "''%% of % is %''" "[Str ''qty'', Elem (LOG_INTEGER 42)]" "\<lambda>_. []"]
      log_reaches_file [of lg "''% and %''" "[Str ''qty'']" "\<lambda>_. []"] lg by auto
qed

text \<open>A logger has an end: since the positions of its queue are never reduced, no order of messages and runs of the
  logger thread gets more than \<open>LOG_QUEUE_SIZE\<close> = 8388608 characters and values through one logger; a program that logs more
  faults, however promptly the thread empties the queue.\<close>

theorem logger_used_up:
  assumes "Logger_init True True dflt = Inr lg" and "8388608 < sum_list (map log_length es)"
  shows "\<exists>e. foldE (log_event_step show_double) es lg = Inl e"
proof (rule ccontr)
  assume "\<nexists>e. foldE (log_event_step show_double) es lg = Inl e"
  then obtain lg' where r: "foldE (log_event_step show_double) es lg = Inr lg'" by (cases "foldE (log_event_step show_double) es lg") auto
  have q: "qsize (log_queue lg) = LOG_QUEUE_SIZE" "write_pos (log_queue lg) = 0" using new_logger [of dflt] assms(1) by auto
  have "advanced (sum_list (map log_length es)) lg lg'" using events_advance [OF r] q(1) by (simp add: LOG_QUEUE_SIZE_def)
  then show False using q assms(2) by (auto simp: advanced_def LOG_QUEUE_SIZE_def)
qed

theorem logger_used_up_witness:
  "\<exists>lg e. Logger_init True True (LOG_CHAR (CHR 0x00)) = Inr lg
    \<and> foldE (log_event_step (\<lambda>_. [])) (concat (replicate 8388609 [Message ''x'' [], Flush])) lg = Inl e"
proof -
  obtain lg where lg: "Logger_init True True (LOG_CHAR (CHR 0x00)) = Inr lg" using new_logger by blast
  have "sum_list (map log_length (concat (replicate n [Message ''x'' [], Flush]))) = n" for n
    by (induction n) (simp_all add: elements_of_def)
  then have "8388608 < sum_list (map log_length (concat (replicate 8388609 [Message ''x'' [], Flush])))" by (simp only:)
  from logger_used_up [OF lg this, of "\<lambda>_. []"] lg show ?thesis by blast
qed

end
