(* ===== verification/Nanosecond_Timer.thy ===== *)
theory Nanosecond_Timer
  imports Logging Doubles
begin

text \<open>
  Common Files/nanosecond_timer.h: the calibration of the cycle counter against the clock, and the macro that logs a
  latency. What the clock and the counter show are arguments.
\<close>

section \<open>The timer\<close>

record NanosecondTimer =
  tsc_frequency_ns :: double
  calibrated :: bool

definition NanosecondTimer_init :: NanosecondTimer where
  "NanosecondTimer_init = \<lparr>tsc_frequency_ns = Fin 0, calibrated = False\<rparr>"

text \<open>The readings of a calibration: the clock in nanoseconds, signed, and the counter.\<close>

record readings =
  start_wall :: int
  start_tsc :: u64
  end_wall :: int
  end_tsc :: u64

definition calibrate :: "readings \<Rightarrow> NanosecondTimer \<Rightarrow> NanosecondTimer" where
  "calibrate r t =
     (if calibrated t then t
      else let wall_duration_ns = end_wall r - start_wall r; tsc_duration = end_tsc r - start_tsc r
           in t\<lparr>tsc_frequency_ns := quotient (real_of_int (uint tsc_duration)) (real_of_int wall_duration_ns), calibrated := True\<rparr>)"

definition force_recalibrate :: "readings \<Rightarrow> NanosecondTimer \<Rightarrow> NanosecondTimer" where
  "force_recalibrate r t = calibrate r (t\<lparr>calibrated := False\<rparr>)"

definition tsc_to_ns :: "readings \<Rightarrow> u64 \<Rightarrow> NanosecondTimer \<Rightarrow> u64 option \<times> NanosecondTimer" where
  "tsc_to_ns r tsc_cycles t =
     (let t = (if \<not> calibrated t then calibrate r t else t)
      in (to_uint64 (divided_by (real_of_int (uint tsc_cycles)) (tsc_frequency_ns t)), t))"

text \<open>The cycles of the calibration itself are converted to the time that it took.\<close>

lemma calibration_exact:
  assumes "start_wall r < end_wall r" and "end_wall r - start_wall r < 2 ^ 64" and "start_tsc r \<noteq> end_tsc r" and "\<not> calibrated t"
  shows "tsc_to_ns r (end_tsc r - start_tsc r) t = (Some (word_of_int (end_wall r - start_wall r)), calibrate r t)"
proof -
  let ?w = "end_wall r - start_wall r" and ?c = "end_tsc r - start_tsc r"
  have "?c \<noteq> 0" using assms(3) by simp
  then have "uint ?c \<noteq> 0" unfolding uint_0_iff .
  then have c: "real_of_int (uint ?c) \<noteq> 0" unfolding of_int_eq_0_iff .
  have w: "real_of_int ?w \<noteq> 0" using assms(1) by linarith
  have q: "real_of_int (uint ?c) / (real_of_int (uint ?c) / real_of_int ?w) = real_of_int ?w" using c w by simp
  have "real_of_int ?w < real_of_int (2 ^ 64)" using assms(2) by (simp only: of_int_less_iff)
  then have b: "- 1 < real_of_int ?w" "real_of_int ?w < 2 ^ 64" "\<not> real_of_int ?w < 0" using assms(1) by simp_all
  have "tsc_frequency_ns (calibrate r t) = Fin (real_of_int (uint ?c) / real_of_int ?w)"
    using assms(4) w by (simp add: calibrate_def quotient_def Let_def)
  moreover have "divided_by (real_of_int (uint ?c)) (Fin (real_of_int (uint ?c) / real_of_int ?w)) = Fin (real_of_int ?w)"
    using c w q by (simp add: quotient_def)
  moreover have "to_uint64 (Fin (real_of_int ?w)) = Some (word_of_int ?w)" using b by (simp only: to_uint64.simps if_True if_False simp_thms floor_of_int)
  ultimately show ?thesis using assms(4) by (simp only: tsc_to_ns_def Let_def if_True simp_thms)
qed


section \<open>The latency macro\<close>

text \<open>\<^verbatim>\<open>END_LATENCY_MEASURE(TAG, LOGGER)\<close>: the difference of two readings of the clock is logged with a format of \<^verbatim>\<open>printf\<close>.\<close>

definition latency_format :: string where
  "latency_format = ''LATENCY %s: %lu ns'' @ [CHR 0x0A]"

definition end_latency_measure :: "string \<Rightarrow> u64 \<Rightarrow> u64 \<Rightarrow> Logger \<Rightarrow> Logger res" where
  "end_latency_measure tag start_time end_time lg =
     log_message latency_format [Str tag, Elem (LOG_UNSIGNED_LONG_INTEGER (end_time - start_time))] lg"

text \<open>
  The logger replaces the percent signs only, so the letters of the format are printed too.
\<close>

lemma latency_message_text:
  assumes "CHR 0x00 \<notin> set tag"
  shows "concat (map (element_text show_double) (elements_of latency_format [Str tag, Elem (LOG_UNSIGNED_LONG_INTEGER d)]))
     = ''LATENCY '' @ tag @ ''s: '' @ show_nat (unat d) @ ''lu ns'' @ [CHR 0x0A]"
proof -
  have tw: "takeWhile (\<lambda>c. c \<noteq> CHR 0x00) tag = tag" using assms by (intro takeWhile_eq_all_conv [THEN iffD2]) metis
  have "concat (map (element_text show_double) (map LOG_CHAR tag)) = tag" by (induction tag) simp_all
  then show ?thesis by (simp add: tw elements_of_def latency_format_def escaped_def)
qed

end
