(* ===== verification/Latency_Tracker.thy ===== *)
theory Latency_Tracker
  imports Types "HOL-Library.Multiset"
begin

text \<open>
  Common Files/latency_tracker.h: latencies counted in buckets of a microsecond by any number of threads with relaxed
  atomic operations, and the statistics that are read from the buckets.
\<close>

section \<open>State\<close>

definition NUM_BUCKETS :: nat where "NUM_BUCKETS = 1000"
definition UINT64_MAX :: u64 where "UINT64_MAX = - 1"

record LatencyBucket =
  lb_count :: u64
  lb_sum :: u64
  lb_min :: u64
  lb_max :: u64

definition LatencyBucket_init :: LatencyBucket where
  "LatencyBucket_init = \<lparr>lb_count = 0, lb_sum = 0, lb_min = UINT64_MAX, lb_max = 0\<rparr>"

record LatencyTracker =
  lat_buckets :: "nat \<Rightarrow> LatencyBucket"
  total_operations :: u64
  total_latency :: u64

definition LatencyTracker_init :: LatencyTracker where
  "LatencyTracker_init = \<lparr>lat_buckets = (\<lambda>_. LatencyBucket_init), total_operations = 0, total_latency = 0\<rparr>"


section \<open>Recording\<close>

definition bucket_of :: "u64 \<Rightarrow> nat" where
  "bucket_of latency_ns = unat (min (latency_ns div 1000) (of_nat (NUM_BUCKETS - 1)))"

definition upd_bucket :: "nat \<Rightarrow> (LatencyBucket \<Rightarrow> LatencyBucket) \<Rightarrow> LatencyTracker \<Rightarrow> LatencyTracker" where
  "upd_bucket b f lt = lt\<lparr>lat_buckets := (lat_buckets lt)(b := f (lat_buckets lt b))\<rparr>"

text \<open>
  A call of \<open>record_latency\<close> is a sequence of atomic accesses, one for each place where it can be. \<open>At_Min l cur\<close>: the
  loop's test, \<open>cur\<close> being the value last seen. \<open>compare_exchange_weak\<close> may fail although the values agree; when it fails
  it shows the present value.
\<close>

datatype rec_place = Away | At_Count u64 | At_Sum u64 | Load_Min u64 | At_Min u64 u64 | Load_Max u64 | At_Max u64 u64
  | At_Ops u64 | At_Total u64

inductive record_step :: "rec_place \<Rightarrow> LatencyTracker \<Rightarrow> rec_place \<Rightarrow> LatencyTracker \<Rightarrow> bool" where
  enter: "record_step Away lt (At_Count l) lt"
| count: "record_step (At_Count l) lt (At_Sum l) (upd_bucket (bucket_of l) (\<lambda>b. b\<lparr>lb_count := lb_count b + 1\<rparr>) lt)"
| sum: "record_step (At_Sum l) lt (Load_Min l) (upd_bucket (bucket_of l) (\<lambda>b. b\<lparr>lb_sum := lb_sum b + l\<rparr>) lt)"
| load_min: "record_step (Load_Min l) lt (At_Min l (lb_min (lat_buckets lt (bucket_of l)))) lt"
| min_done: "\<not> l < cur \<Longrightarrow> record_step (At_Min l cur) lt (Load_Max l) lt"
| min_set: "l < cur \<Longrightarrow> lb_min (lat_buckets lt (bucket_of l)) = cur
    \<Longrightarrow> record_step (At_Min l cur) lt (Load_Max l) (upd_bucket (bucket_of l) (\<lambda>b. b\<lparr>lb_min := l\<rparr>) lt)"
| min_fail: "l < cur \<Longrightarrow> record_step (At_Min l cur) lt (At_Min l (lb_min (lat_buckets lt (bucket_of l)))) lt"
| load_max: "record_step (Load_Max l) lt (At_Max l (lb_max (lat_buckets lt (bucket_of l)))) lt"
| max_done: "\<not> l > cur \<Longrightarrow> record_step (At_Max l cur) lt (At_Ops l) lt"
| max_set: "l > cur \<Longrightarrow> lb_max (lat_buckets lt (bucket_of l)) = cur
    \<Longrightarrow> record_step (At_Max l cur) lt (At_Ops l) (upd_bucket (bucket_of l) (\<lambda>b. b\<lparr>lb_max := l\<rparr>) lt)"
| max_fail: "l > cur \<Longrightarrow> record_step (At_Max l cur) lt (At_Max l (lb_max (lat_buckets lt (bucket_of l)))) lt"
| ops: "record_step (At_Ops l) lt (At_Total l) (lt\<lparr>total_operations := total_operations lt + 1\<rparr>)"
| total: "record_step (At_Total l) lt Away (lt\<lparr>total_latency := total_latency lt + l\<rparr>)"

text \<open>One call without another thread in between.\<close>

definition bucket_record :: "u64 \<Rightarrow> LatencyBucket \<Rightarrow> LatencyBucket" where
  "bucket_record l b =
     (let b = b\<lparr>lb_count := lb_count b + 1\<rparr>; b = b\<lparr>lb_sum := lb_sum b + l\<rparr>;
          b = (if l < lb_min b then b\<lparr>lb_min := l\<rparr> else b)
      in if l > lb_max b then b\<lparr>lb_max := l\<rparr> else b)"

definition record_latency :: "u64 \<Rightarrow> LatencyTracker \<Rightarrow> LatencyTracker" where
  "record_latency l lt =
     (let lt = upd_bucket (bucket_of l) (bucket_record l) lt
      in lt\<lparr>total_operations := total_operations lt + 1, total_latency := total_latency lt + l\<rparr>)"


section \<open>Statistics\<close>

definition get_average_latency :: "LatencyTracker \<Rightarrow> u64" where
  "get_average_latency lt = (if total_operations lt > 0 then total_latency lt div total_operations lt else 0)"

definition min_over :: "LatencyTracker \<Rightarrow> nat list \<Rightarrow> u64 \<Rightarrow> u64" where
  "min_over lt is m = fold (\<lambda>i m. if lb_count (lat_buckets lt i) > 0 then min m (lb_min (lat_buckets lt i)) else m) is m"

definition get_min_latency :: "LatencyTracker \<Rightarrow> u64" where
  "get_min_latency lt = (let m = min_over lt [0..<NUM_BUCKETS] UINT64_MAX in if m = UINT64_MAX then 0 else m)"

definition max_over :: "LatencyTracker \<Rightarrow> nat list \<Rightarrow> u64 \<Rightarrow> u64" where
  "max_over lt is m = fold (\<lambda>i m. if lb_count (lat_buckets lt i) > 0 then max m (lb_max (lat_buckets lt i)) else m) is m"

definition get_max_latency :: "LatencyTracker \<Rightarrow> u64" where
  "get_max_latency lt = max_over lt [0..<NUM_BUCKETS] 0"

text \<open>The loop adds the counts in 64 bits and stops at the first bucket that reaches the target.\<close>

fun percentile_loop :: "LatencyTracker \<Rightarrow> u64 \<Rightarrow> u64 \<Rightarrow> nat list \<Rightarrow> u64" where
  "percentile_loop lt target_op current_ops [] = of_nat ((NUM_BUCKETS - 1) * 1000)"
| "percentile_loop lt target_op current_ops (i # is) =
     (let current_ops = current_ops + lb_count (lat_buckets lt i)
      in if current_ops \<ge> target_op then of_nat (i * 1000) else percentile_loop lt target_op current_ops is)"

text \<open>The target is computed with doubles, here with reals, and truncated.\<close>

definition get_percentile_latency :: "real \<Rightarrow> LatencyTracker \<Rightarrow> u64" where
  "get_percentile_latency percentile lt =
     (if total_operations lt = 0 then 0
      else percentile_loop lt (of_int \<lfloor>real_of_int (uint (total_operations lt)) * percentile / 100\<rfloor>) 0 [0..<NUM_BUCKETS])"

definition get_stats_string :: "LatencyTracker \<Rightarrow> string" where
  "get_stats_string lt =
     ''LatencyStats{ops:'' @ show_nat (unat (total_operations lt)) @ '', avg:'' @ show_nat (unat (get_average_latency lt)) @ ''ns''
     @ '', min:'' @ show_nat (unat (get_min_latency lt)) @ ''ns'' @ '', max:'' @ show_nat (unat (get_max_latency lt)) @ ''ns''
     @ '', p99:'' @ show_nat (unat (get_percentile_latency 99 lt)) @ ''ns''
     @ '', p99.9:'' @ show_nat (unat (get_percentile_latency (999 / 10) lt)) @ ''ns}''"

definition lat_reset :: "LatencyTracker \<Rightarrow> LatencyTracker" where
  "lat_reset lt =
     (let lt = fold (\<lambda>i. upd_bucket i (\<lambda>b. b\<lparr>lb_count := 0, lb_sum := 0, lb_min := UINT64_MAX, lb_max := 0\<rparr>)) [0..<NUM_BUCKETS] lt
      in lt\<lparr>total_operations := 0, total_latency := 0\<rparr>)"

text \<open>\<open>LatencyMeasure\<close>: the clock is read when it is made and when it goes away.\<close>

definition latency_measure :: "u64 \<Rightarrow> u64 \<Rightarrow> LatencyTracker \<Rightarrow> LatencyTracker" where
  "latency_measure start_time end_time lt = record_latency (end_time - start_time) lt"

section \<open>What the counters hold\<close>

text \<open>\<open>D\<close> is the multiset of latencies that have gone through a counter.\<close>

definition seen :: "nat \<Rightarrow> u64 multiset \<Rightarrow> u64 set" where
  "seen b D = {l \<in> set_mset D. bucket_of l = b}"

definition least_seen :: "nat \<Rightarrow> u64 multiset \<Rightarrow> u64" where
  "least_seen b D = Min (insert UINT64_MAX (seen b D))"

definition greatest_seen :: "nat \<Rightarrow> u64 multiset \<Rightarrow> u64" where
  "greatest_seen b D = Max (insert 0 (seen b D))"

definition bucket_counts :: "u64 multiset \<Rightarrow> LatencyTracker \<Rightarrow> bool" where
  "bucket_counts D lt \<longleftrightarrow> (\<forall>b. lb_count (lat_buckets lt b) = of_nat (size (filter_mset (\<lambda>l. bucket_of l = b) D)))"

definition bucket_sums :: "u64 multiset \<Rightarrow> LatencyTracker \<Rightarrow> bool" where
  "bucket_sums D lt \<longleftrightarrow> (\<forall>b. lb_sum (lat_buckets lt b) = sum_mset (filter_mset (\<lambda>l. bucket_of l = b) D))"

definition bucket_mins :: "u64 multiset \<Rightarrow> LatencyTracker \<Rightarrow> bool" where
  "bucket_mins D lt \<longleftrightarrow> (\<forall>b. lb_min (lat_buckets lt b) = least_seen b D)"

definition bucket_maxs :: "u64 multiset \<Rightarrow> LatencyTracker \<Rightarrow> bool" where
  "bucket_maxs D lt \<longleftrightarrow> (\<forall>b. lb_max (lat_buckets lt b) = greatest_seen b D)"

definition count_all :: "u64 multiset \<Rightarrow> LatencyTracker \<Rightarrow> bool" where
  "count_all D lt \<longleftrightarrow> total_operations lt = of_nat (size D)"

definition sum_all :: "u64 multiset \<Rightarrow> LatencyTracker \<Rightarrow> bool" where
  "sum_all D lt \<longleftrightarrow> total_latency lt = sum_mset D"

lemma finite_seen [simp]: "finite (seen b D)"
  by (simp add: seen_def)

lemma seen_simps [simp]: "seen b {#} = {}" "seen b (add_mset l D) = (if bucket_of l = b then insert l (seen b D) else seen b D)"
  by (auto simp: seen_def)

lemma upd_bucket_simps [simp]:
  "lat_buckets (upd_bucket b f lt) = (lat_buckets lt)(b := f (lat_buckets lt b))"
  "total_operations (upd_bucket b f lt) = total_operations lt" "total_latency (upd_bucket b f lt) = total_latency lt"
  by (simp_all add: upd_bucket_def)

lemma least_seen_simps [simp]:
  "least_seen b {#} = UINT64_MAX"
  "least_seen b (add_mset l D) = (if bucket_of l = b then min l (least_seen b D) else least_seen b D)"
proof -
  have "Min (insert m (insert l S)) = min l (Min (insert m S))" if "finite S" for m S
    using that by (subst insert_commute) (simp add: Min_insert)
  then show "least_seen b (add_mset l D) = (if bucket_of l = b then min l (least_seen b D) else least_seen b D)"
    by (simp add: least_seen_def)
qed (simp add: least_seen_def)

lemma greatest_seen_simps [simp]:
  "greatest_seen b {#} = 0"
  "greatest_seen b (add_mset l D) = (if bucket_of l = b then max l (greatest_seen b D) else greatest_seen b D)"
proof -
  have "Max (insert m (insert l S)) = max l (Max (insert m S))" if "finite S" for m S
    using that by (subst insert_commute) (simp add: Max_insert)
  then show "greatest_seen b (add_mset l D) = (if bucket_of l = b then max l (greatest_seen b D) else greatest_seen b D)"
    by (simp add: greatest_seen_def)
qed (simp add: greatest_seen_def)

lemma bucket_mins_add:
  assumes "bucket_mins D lt"
  shows "\<not> l < lb_min (lat_buckets lt (bucket_of l)) \<Longrightarrow> bucket_mins (add_mset l D) lt"
    "l < lb_min (lat_buckets lt (bucket_of l)) \<Longrightarrow> bucket_mins (add_mset l D) (upd_bucket (bucket_of l) (\<lambda>b. b\<lparr>lb_min := l\<rparr>) lt)"
  using assms by (auto simp: bucket_mins_def min_def)

lemma bucket_maxs_add:
  assumes "bucket_maxs D lt"
  shows "\<not> l > lb_max (lat_buckets lt (bucket_of l)) \<Longrightarrow> bucket_maxs (add_mset l D) lt"
    "l > lb_max (lat_buckets lt (bucket_of l)) \<Longrightarrow> bucket_maxs (add_mset l D) (upd_bucket (bucket_of l) (\<lambda>b. b\<lparr>lb_max := l\<rparr>) lt)"
  using assms by (auto simp: bucket_maxs_def max_def)

definition tracks :: "u64 multiset \<Rightarrow> LatencyTracker \<Rightarrow> bool" where
  "tracks D lt \<longleftrightarrow> bucket_counts D lt \<and> bucket_sums D lt \<and> bucket_mins D lt \<and> bucket_maxs D lt \<and> count_all D lt \<and> sum_all D lt"

lemma tracks_init: "tracks {#} LatencyTracker_init"
  by (simp add: tracks_def bucket_counts_def bucket_sums_def bucket_mins_def bucket_maxs_def count_all_def sum_all_def LatencyTracker_init_def LatencyBucket_init_def)

lemma tracks_unique:
  assumes "tracks D lt" and "tracks D lt'"
  shows "lt = lt'"
proof -
  have "lat_buckets lt b = lat_buckets lt' b" for b
    using assms by (intro LatencyBucket.equality) (simp_all add: tracks_def bucket_counts_def bucket_sums_def bucket_mins_def bucket_maxs_def)
  then have "lat_buckets lt = lat_buckets lt'" by blast
  then show ?thesis using assms by (intro LatencyTracker.equality) (simp_all add: tracks_def count_all_def sum_all_def)
qed

lemma record_tracks:
  assumes "tracks D lt"
  shows "tracks (add_mset l D) (record_latency l lt)"
proof -
  have "bucket_mins (add_mset l D) (record_latency l lt)" "bucket_maxs (add_mset l D) (record_latency l lt)"
    using assms by (auto simp: tracks_def bucket_mins_def bucket_maxs_def record_latency_def bucket_record_def Let_def
        min_def max_def)
  then show ?thesis
    using assms by (auto simp: tracks_def bucket_counts_def bucket_sums_def count_all_def sum_all_def record_latency_def bucket_record_def Let_def)
qed

lemma run_tracks: "tracks D lt \<Longrightarrow> tracks (D + mset ls) (fold record_latency ls lt)"
proof (induction ls arbitrary: D lt)
  case (Cons l ls)
  from Cons.IH [OF record_tracks [OF Cons.prems, of l]] show ?case by simp
qed simp

section \<open>Threads\<close>

text \<open>Any number of threads, each at its place; \<open>tr_begun\<close> lists the latencies of the calls begun so far.\<close>

record tracker_run =
  tr_tracker :: LatencyTracker
  tr_places :: "rec_place list"
  tr_begun :: "u64 list"

primrec in_hand :: "rec_place \<Rightarrow> u64 list" where
  "in_hand Away = []"
| "in_hand (At_Count l) = [l]"
| "in_hand (At_Sum l) = [l]"
| "in_hand (Load_Min l) = [l]"
| "in_hand (At_Min l cur) = [l]"
| "in_hand (Load_Max l) = [l]"
| "in_hand (At_Max l cur) = [l]"
| "in_hand (At_Ops l) = [l]"
| "in_hand (At_Total l) = [l]"

inductive tracker_step :: "tracker_run \<Rightarrow> tracker_run \<Rightarrow> bool" where
  "i < length (tr_places s) \<Longrightarrow> record_step (tr_places s ! i) (tr_tracker s) p lt
   \<Longrightarrow> tracker_step s (s\<lparr>tr_tracker := lt, tr_places := (tr_places s)[i := p],
         tr_begun := (if tr_places s ! i = Away then tr_begun s @ in_hand p else tr_begun s)\<rparr>)"

definition tracker_reachable :: "nat \<Rightarrow> tracker_run \<Rightarrow> bool" where
  "tracker_reachable n = tracker_step\<^sup>*\<^sup>* \<lparr>tr_tracker = LatencyTracker_init, tr_places = replicate n Away, tr_begun = []\<rparr>"

text \<open>The number of counters a call has gone through.\<close>

primrec stage :: "rec_place \<Rightarrow> nat" where
  "stage (At_Count l) = 0"
| "stage (At_Sum l) = 1"
| "stage (Load_Min l) = 2"
| "stage (At_Min l cur) = 2"
| "stage (Load_Max l) = 3"
| "stage (At_Max l cur) = 3"
| "stage (At_Ops l) = 4"
| "stage (At_Total l) = 5"
| "stage Away = 6"

definition pend :: "nat \<Rightarrow> rec_place \<Rightarrow> u64 multiset" where
  "pend k p = (if stage p \<le> k then mset (in_hand p) else {#})"

definition pends :: "nat \<Rightarrow> rec_place list \<Rightarrow> u64 multiset" where
  "pends k ps = sum_list (map (pend k) ps)"

lemma pends_update: "i < length ps \<Longrightarrow> pends k (ps[i := p]) + pend k (ps ! i) = pends k ps + pend k p"
proof (induction ps arbitrary: i)
  case (Cons a ps)
  show ?case
  proof (cases i)
    case (Suc j)
    have "pends k (ps[j := p]) + pend k (ps ! j) = pends k ps + pend k p" by (rule Cons.IH) (use Cons.prems Suc in simp)
    then show ?thesis using Suc by (simp add: pends_def ac_simps)
  qed (simp add: pends_def ac_simps)
qed simp

definition holds_at :: "nat \<Rightarrow> u64 multiset \<Rightarrow> LatencyTracker \<Rightarrow> bool" where
  "holds_at k D lt \<longleftrightarrow> (if k = 0 then bucket_counts D lt else if k = 1 then bucket_sums D lt else if k = 2 then bucket_mins D lt
     else if k = 3 then bucket_maxs D lt else if k = 4 then count_all D lt else sum_all D lt)"

text \<open>What a thread saw last is not better than what is there now.\<close>

definition loop_ok :: "LatencyTracker \<Rightarrow> rec_place \<Rightarrow> bool" where
  "loop_ok lt p \<longleftrightarrow> (case p of At_Min l cur \<Rightarrow> lb_min (lat_buckets lt (bucket_of l)) \<le> cur
     | At_Max l cur \<Rightarrow> cur \<le> lb_max (lat_buckets lt (bucket_of l)) | _ \<Rightarrow> True)"

definition improves :: "LatencyTracker \<Rightarrow> LatencyTracker \<Rightarrow> bool" where
  "improves lt lt' \<longleftrightarrow> (\<forall>b. lb_min (lat_buckets lt' b) \<le> lb_min (lat_buckets lt b) \<and> lb_max (lat_buckets lt b) \<le> lb_max (lat_buckets lt' b))"

lemma improves_loop: "improves lt lt' \<Longrightarrow> loop_ok lt p \<Longrightarrow> loop_ok lt' p"
  by (auto simp: improves_def loop_ok_def split: rec_place.splits intro: order_trans)

text \<open>A step begins a call, stays at a counter, or goes through one.\<close>

definition goes_through :: "rec_place \<Rightarrow> LatencyTracker \<Rightarrow> rec_place \<Rightarrow> LatencyTracker \<Rightarrow> bool" where
  "goes_through p lt p' lt' \<longleftrightarrow> (\<exists>l. in_hand p = [l] \<and> stage p' = Suc (stage p) \<and> (stage p < 5 \<longrightarrow> in_hand p' = [l]) \<and> (stage p = 5 \<longrightarrow> p' = Away)
     \<and> (\<forall>D. holds_at (stage p) D lt \<longrightarrow> holds_at (stage p) (add_mset l D) lt')
     \<and> (\<forall>D k. k < 6 \<longrightarrow> k \<noteq> stage p \<longrightarrow> holds_at k D lt \<longrightarrow> holds_at k D lt'))"

lemma record_step_cases:
  assumes "record_step p lt p' lt'" and "loop_ok lt p"
  shows "(improves lt lt' \<and> loop_ok lt' p') \<and> (p = Away \<and> (\<exists>l. p' = At_Count l) \<and> lt' = lt
    \<or> stage p' = stage p \<and> in_hand p' = in_hand p \<and> p \<noteq> Away \<and> lt' = lt \<or> goes_through p lt p' lt' \<and> p \<noteq> Away)"
  using assms
proof (cases rule: record_step.cases)
  case (min_done l cur)
  have "\<not> l < lb_min (lat_buckets lt (bucket_of l))" using min_done assms(2) by (auto simp: loop_ok_def)
  then have "goes_through p lt p' lt'" using min_done bucket_mins_add(1) by (auto simp: goes_through_def holds_at_def)
  then show ?thesis using min_done by (simp add: improves_def loop_ok_def)
next
  case (min_set l cur)
  have "goes_through p lt p' lt'" using min_set bucket_mins_add(2) [of _ lt l]
    by (auto simp: goes_through_def holds_at_def bucket_counts_def bucket_sums_def bucket_maxs_def count_all_def sum_all_def)
  then show ?thesis using min_set by (auto simp: improves_def loop_ok_def)
next
  case (max_done l cur)
  have "\<not> l > lb_max (lat_buckets lt (bucket_of l))" using max_done assms(2) by (auto simp: loop_ok_def)
  then have "goes_through p lt p' lt'" using max_done bucket_maxs_add(1) by (auto simp: goes_through_def holds_at_def)
  then show ?thesis using max_done by (simp add: improves_def loop_ok_def)
next
  case (max_set l cur)
  have "goes_through p lt p' lt'" using max_set bucket_maxs_add(2) [of _ lt l]
    by (auto simp: goes_through_def holds_at_def bucket_counts_def bucket_sums_def bucket_mins_def count_all_def sum_all_def)
  then show ?thesis using max_set by (auto simp: improves_def loop_ok_def)
qed (auto simp: improves_def loop_ok_def goes_through_def holds_at_def bucket_counts_def bucket_sums_def bucket_mins_def
    bucket_maxs_def count_all_def sum_all_def)


definition tracker_inv :: "tracker_run \<Rightarrow> bool" where
  "tracker_inv s \<longleftrightarrow> (\<exists>D. \<forall>k < 6. mset (tr_begun s) = D k + pends k (tr_places s) \<and> holds_at k (D k) (tr_tracker s))
     \<and> (\<forall>p \<in> set (tr_places s). loop_ok (tr_tracker s) p)"

lemma tracker_inv_init: "tracker_inv \<lparr>tr_tracker = LatencyTracker_init, tr_places = replicate n Away, tr_begun = []\<rparr>"
proof -
  have "pends k (replicate n Away) = {#}" if "k < 6" for k using that by (induction n) (simp_all add: pends_def pend_def)
  then show ?thesis using tracks_init
    by (auto simp: tracker_inv_def loop_ok_def holds_at_def tracks_def intro!: exI [of _ "\<lambda>_. {#}"])
qed

lemma pend_of_stage: "in_hand p = [l] \<Longrightarrow> pend k p = (if stage p \<le> k then {#l#} else {#})"
  by (simp add: pend_def)

lemma tracker_step_inv:
  assumes "tracker_step s s'" and "tracker_inv s"
  shows "tracker_inv s'"
  using assms(1)
proof cases
  case (1 i p lt)
  let ?q = "tr_places s ! i" and ?ps = "tr_places s"
  obtain D where D: "\<forall>k < 6. mset (tr_begun s) = D k + pends k ?ps \<and> holds_at k (D k) (tr_tracker s)"
    and loops: "\<forall>p \<in> set ?ps. loop_ok (tr_tracker s) p" using assms(2) by (auto simp: tracker_inv_def)
  have c: "improves (tr_tracker s) lt" "loop_ok lt p"
    and step: "?q = Away \<and> (\<exists>l. p = At_Count l) \<and> lt = tr_tracker s
      \<or> stage p = stage ?q \<and> in_hand p = in_hand ?q \<and> ?q \<noteq> Away \<and> lt = tr_tracker s
      \<or> goes_through ?q (tr_tracker s) p lt \<and> ?q \<noteq> Away"
    using record_step_cases [OF 1(3)] loops 1(2) by auto
  have lp: "\<forall>p' \<in> set (?ps[i := p]). loop_ok lt p'"
    using loops c improves_loop set_update_subset_insert [of ?ps i p] by blast
  note up = pends_update [OF 1(2), of _ p]
  from step have "\<exists>D. \<forall>k < 6. mset (tr_begun s') = D k + pends k (?ps[i := p]) \<and> holds_at k (D k) lt"
  proof (elim disjE conjE exE)
    fix l assume q: "?q = Away" "p = At_Count l" "lt = tr_tracker s"
    have "pends k (?ps[i := p]) = pends k ?ps + {#l#}" if "k < 6" for k using up [of k] q that by (simp add: pend_def)
    then show ?thesis using D q 1 by (intro exI [of _ D]) simp
  next
    assume q: "stage p = stage ?q" "in_hand p = in_hand ?q" "?q \<noteq> Away" "lt = tr_tracker s"
    have "pend k p = pend k ?q" for k using q by (simp add: pend_def)
    then have "pends k (?ps[i := p]) = pends k ?ps" for k using up [of k] by simp
    then show ?thesis using D q 1 by (intro exI [of _ D]) simp
  next
    assume "goes_through ?q (tr_tracker s) p lt" and away: "?q \<noteq> Away"
    then obtain l where g: "in_hand ?q = [l]" "stage p = Suc (stage ?q)" "stage ?q < 5 \<longrightarrow> in_hand p = [l]" "stage ?q = 5 \<longrightarrow> p = Away"
      "\<forall>D. holds_at (stage ?q) D (tr_tracker s) \<longrightarrow> holds_at (stage ?q) (add_mset l D) lt"
      "\<forall>D k. k < 6 \<longrightarrow> k \<noteq> stage ?q \<longrightarrow> holds_at k D (tr_tracker s) \<longrightarrow> holds_at k D lt" unfolding goes_through_def by blast
    have lt6: "stage ?q \<le> 5" using g(1) by (cases ?q) simp_all
    define D' where "D' = D(stage ?q := add_mset l (D (stage ?q)))"
    have "mset (tr_begun s') = D' k + pends k (?ps[i := p]) \<and> holds_at k (D' k) lt" if "k < 6" for k
    proof (cases "k = stage ?q")
      case True
      have "pends k ?ps = add_mset l (pends k (?ps[i := p]))" using up [of k] g(1,2) True by (simp add: pend_def)
      then show ?thesis using D that True g(5) 1 away by (simp add: D'_def)
    next
      case False
      have "pend k p = pend k ?q"
      proof (cases "stage ?q < 5")
        case True
        then show ?thesis using g(1-3) False by (simp add: pend_def)
      next
        case less: False
        then have "stage ?q = 5" using lt6 by simp
        then show ?thesis using g(1,2) False that by (simp add: pend_def)
      qed
      then have "pends k (?ps[i := p]) = pends k ?ps" using up [of k] by simp
      then show ?thesis using D that False g(6) 1 away by (simp add: D'_def)
    qed
    then show ?thesis by blast
  qed
  then show ?thesis using lp 1 by (simp add: tracker_inv_def)
qed

lemma tracker_reachable_inv:
  assumes "tracker_reachable n s"
  shows "tracker_inv s"
  using assms unfolding tracker_reachable_def
  by (induction rule: rtranclp_induct) (use tracker_inv_init tracker_step_inv in blast)+

lemma quiet_tracks:
  assumes "tracker_inv s" and "\<forall>p \<in> set (tr_places s). p = Away"
  shows "tracks (mset (tr_begun s)) (tr_tracker s)"
proof -
  obtain D where D: "\<forall>k < 6. mset (tr_begun s) = D k + pends k (tr_places s) \<and> holds_at k (D k) (tr_tracker s)"
    using assms(1) by (auto simp: tracker_inv_def)
  have "pends k ps = {#}" if "\<forall>p \<in> set ps. p = Away" "k < 6" for k ps
    using that by (induction ps) (simp_all add: pends_def pend_def)
  then have "\<forall>k < 6. holds_at k (mset (tr_begun s)) (tr_tracker s)" using D assms(2) by simp
  then have "holds_at 0 (mset (tr_begun s)) (tr_tracker s)" "holds_at 1 (mset (tr_begun s)) (tr_tracker s)"
    "holds_at 2 (mset (tr_begun s)) (tr_tracker s)" "holds_at 3 (mset (tr_begun s)) (tr_tracker s)"
    "holds_at 4 (mset (tr_begun s)) (tr_tracker s)" "holds_at 5 (mset (tr_begun s)) (tr_tracker s)" by simp_all
  then show ?thesis by (simp add: tracks_def holds_at_def)
qed

section \<open>What the statistics say\<close>

lemma bucket_below [simp]: "bucket_of l < 1000"
  by (simp add: bucket_of_def NUM_BUCKETS_def min_def word_le_nat_alt)

lemma unat_sum_list: "sum_list (map unat ls) < 2 ^ 64 \<Longrightarrow> unat (sum_list (ls :: u64 list)) = sum_list (map unat ls)"
proof (induction ls)
  case (Cons l ls)
  then have "unat l + unat (sum_list ls) < 2 ^ 64" by simp
  then have "unat (l + sum_list ls) = unat l + unat (sum_list ls)" by (simp add: unat_add_lem [THEN iffD1])
  then show ?case using Cons by simp
qed simp

text \<open>The latencies below a bucket.\<close>

definition below :: "nat \<Rightarrow> u64 list \<Rightarrow> u64 list" where
  "below i ls = filter (\<lambda>l. bucket_of l < i) ls"

lemma below_simps [simp]: "below 0 ls = []" "below 1000 ls = ls"
  by (simp_all add: below_def)

lemma below_Suc: "length (below (Suc i) ls) = length (below i ls) + length (filter (\<lambda>l. bucket_of l = i) ls)"
  by (induction ls) (auto simp: below_def less_Suc_eq)

lemma below_mono: "i \<le> j \<Longrightarrow> length (below i ls) \<le> length (below j ls)"
  by (induction ls) (auto simp: below_def)

lemma count_of:
  assumes "tracks (mset ls) lt"
  shows "lb_count (lat_buckets lt i) = of_nat (length (filter (\<lambda>l. bucket_of l = i) ls))"
  using assms by (simp add: tracks_def bucket_counts_def flip: mset_filter)

lemma count_positive:
  assumes "tracks (mset ls) lt" and "length ls < 2 ^ 64"
  shows "0 < lb_count (lat_buckets lt i) \<longleftrightarrow> seen i (mset ls) \<noteq> {}"
proof -
  let ?n = "length (filter (\<lambda>l. bucket_of l = i) ls)"
  have "?n \<le> length ls" by (rule length_filter_le)
  then have "?n < 2 ^ 64" using assms(2) by linarith
  then have "unat (of_nat ?n :: u64) = ?n" by (simp add: unat_of_nat)
  then have "0 < lb_count (lat_buckets lt i) \<longleftrightarrow> ?n \<noteq> 0" using count_of [OF assms(1), of i] by (simp add: word_less_nat_alt)
  also have "\<dots> \<longleftrightarrow> seen i (mset ls) \<noteq> {}" by (auto simp: seen_def filter_empty_conv)
  finally show ?thesis .
qed

lemma set_below_Suc: "set (below (Suc i) ls) = set (below i ls) \<union> seen i (mset ls)"
  by (auto simp: below_def seen_def less_Suc_eq)

lemma min_over_ok:
  assumes "tracks (mset ls) lt" and "length ls < 2 ^ 64"
  shows "min_over lt [0..<i] UINT64_MAX = Min (insert UINT64_MAX (set (below i ls)))"
proof (induction i)
  case (Suc i)
  let ?S = "seen i (mset ls)"
  have m: "lb_min (lat_buckets lt i) = Min (insert UINT64_MAX ?S)" using assms(1) by (simp add: tracks_def bucket_mins_def least_seen_def)
  have u: "Min (insert UINT64_MAX (set (below (Suc i) ls))) = min (Min (insert UINT64_MAX (set (below i ls)))) (Min (insert UINT64_MAX ?S))"
    using Min_Un [of "insert UINT64_MAX (set (below i ls))" "insert UINT64_MAX ?S"] by (simp add: set_below_Suc)
  have "?S = {} \<Longrightarrow> Min (insert UINT64_MAX ?S) = UINT64_MAX" by simp
  moreover have "Min (insert UINT64_MAX (set (below i ls))) \<le> UINT64_MAX" by simp
  ultimately show ?case using Suc count_positive [OF assms, of i] m u
    by (cases "?S = {}") (simp_all add: min_over_def min_def)
qed (simp add: min_over_def)

lemma max_over_ok:
  assumes "tracks (mset ls) lt" and "length ls < 2 ^ 64"
  shows "max_over lt [0..<i] 0 = Max (insert 0 (set (below i ls)))"
proof (induction i)
  case (Suc i)
  let ?S = "seen i (mset ls)"
  have m: "lb_max (lat_buckets lt i) = Max (insert 0 ?S)" using assms(1) by (simp add: tracks_def bucket_maxs_def greatest_seen_def)
  have u: "Max (insert 0 (set (below (Suc i) ls))) = max (Max (insert 0 (set (below i ls)))) (Max (insert 0 ?S))"
    using Max_Un [of "insert 0 (set (below i ls))" "insert 0 ?S"] by (simp add: set_below_Suc)
  have "?S = {} \<Longrightarrow> Max (insert 0 ?S) = 0" by simp
  then show ?case using Suc count_positive [OF assms, of i] m u
    by (cases "?S = {}") (simp_all add: max_over_def)
qed (simp add: max_over_def)

lemma percentile_loop_ok:
  assumes "tracks (mset ls) lt" and "length ls < 2 ^ 64" and "unat t \<le> length ls" and "i < 1000"
  shows "\<exists>j. i \<le> j \<and> j < 1000 \<and> percentile_loop lt t (of_nat (length (below i ls))) [i..<1000] = of_nat (j * 1000)
    \<and> unat t \<le> length (below (Suc j) ls) \<and> (j = i \<or> length (below j ls) < unat t)"
  using assms(4)
proof (induction "1000 - i" arbitrary: i)
  case (Suc n)
  have up: "[i..<1000] = i # [Suc i..<1000]" using Suc.prems by (simp add: upt_conv_Cons)
  have cur: "of_nat (length (below i ls)) + lb_count (lat_buckets lt i) = (of_nat (length (below (Suc i) ls)) :: u64)"
    by (simp add: count_of [OF assms(1)] below_Suc)
  have "length (below (Suc i) ls) < 2 ^ 64" using below_def assms(2) length_filter_le le_less_trans by metis
  then have ge: "(of_nat (length (below (Suc i) ls)) :: u64) \<ge> t \<longleftrightarrow> unat t \<le> length (below (Suc i) ls)"
    by (simp add: word_le_nat_alt unat_of_nat)
  show ?case
  proof (cases "unat t \<le> length (below (Suc i) ls)")
    case True
    then show ?thesis using Suc.prems up cur ge by (intro exI [of _ i]) (simp del: upt_Suc)
  next
    case False
    have "i \<noteq> 999" using False assms(3) by (auto simp: numeral_eq_Suc [symmetric])
    then have "Suc i < 1000" "n = 1000 - Suc i" using Suc.prems Suc.hyps(2) by simp_all
    from Suc.hyps(1) [OF this(2,1)] obtain j where j: "Suc i \<le> j" "j < 1000"
      "percentile_loop lt t (of_nat (length (below (Suc i) ls))) [Suc i..<1000] = of_nat (j * 1000)"
      "unat t \<le> length (below (Suc j) ls)" "j = Suc i \<or> length (below j ls) < unat t" by blast
    then show ?thesis using False up cur ge by (intro exI [of _ j]) (auto simp del: upt_Suc)
  qed
qed simp

section \<open>Properties\<close>

text \<open>C35: the tracker loses no update. However many threads record at once, and however their atomic accesses interleave,
  spurious failures of the exchange included, whenever no thread is inside a call every counter of every bucket is what
  recording the same latencies one after the other gives.\<close>

theorem tracker_linearizable:
  assumes "tracker_reachable n s" and "\<forall>p \<in> set (tr_places s). p = Away"
  shows "tr_tracker s = fold record_latency (tr_begun s) LatencyTracker_init"
  using tracks_unique [OF quiet_tracks [OF tracker_reachable_inv [OF assms(1)] assms(2)]] run_tracks [OF tracks_init, of "tr_begun s"] by simp


text \<open>A thread that is alone gets through its call.\<close>

definition alone_step :: "rec_place \<times> LatencyTracker \<Rightarrow> rec_place \<times> LatencyTracker \<Rightarrow> bool" where
  "alone_step x y \<longleftrightarrow> fst x \<noteq> Away \<and> record_step (fst x) (snd x) (fst y) (snd y)"

lemma alone_min: "alone_step\<^sup>*\<^sup>* (Load_Min l, lt)
    (Load_Max l, if l < lb_min (lat_buckets lt (bucket_of l)) then upd_bucket (bucket_of l) (\<lambda>b. b\<lparr>lb_min := l\<rparr>) lt else lt)"
  by (rule converse_rtranclp_into_rtranclp [of _ _ "(At_Min l (lb_min (lat_buckets lt (bucket_of l))), lt)"])
    (auto simp: alone_step_def intro: record_step.intros intro!: r_into_rtranclp)

lemma alone_max: "alone_step\<^sup>*\<^sup>* (Load_Max l, lt)
    (At_Ops l, if l > lb_max (lat_buckets lt (bucket_of l)) then upd_bucket (bucket_of l) (\<lambda>b. b\<lparr>lb_max := l\<rparr>) lt else lt)"
  by (rule converse_rtranclp_into_rtranclp [of _ _ "(At_Max l (lb_max (lat_buckets lt (bucket_of l))), lt)"])
    (auto simp: alone_step_def intro: record_step.intros intro!: r_into_rtranclp)

lemma alone_call: "alone_step\<^sup>*\<^sup>* (At_Count l, lt) (Away, record_latency l lt)"
proof -
  let ?b = "bucket_of l"
  define lt2 where "lt2 = upd_bucket ?b (\<lambda>b. b\<lparr>lb_sum := lb_sum b + l\<rparr>) (upd_bucket ?b (\<lambda>b. b\<lparr>lb_count := lb_count b + 1\<rparr>) lt)"
  define lt3 where "lt3 = (if l < lb_min (lat_buckets lt2 ?b) then upd_bucket ?b (\<lambda>b. b\<lparr>lb_min := l\<rparr>) lt2 else lt2)"
  define lt4 where "lt4 = (if l > lb_max (lat_buckets lt3 ?b) then upd_bucket ?b (\<lambda>b. b\<lparr>lb_max := l\<rparr>) lt3 else lt3)"
  have "alone_step (At_Count l, lt) (At_Sum l, upd_bucket ?b (\<lambda>b. b\<lparr>lb_count := lb_count b + 1\<rparr>) lt)"
    "alone_step (At_Sum l, upd_bucket ?b (\<lambda>b. b\<lparr>lb_count := lb_count b + 1\<rparr>) lt) (Load_Min l, lt2)"
    by (auto simp: alone_step_def lt2_def intro: record_step.intros)
  then have "alone_step\<^sup>*\<^sup>* (At_Count l, lt) (Load_Min l, lt2)" by simp
  also have "alone_step\<^sup>*\<^sup>* (Load_Min l, lt2) (Load_Max l, lt3)" unfolding lt3_def by (rule alone_min)
  also have "alone_step\<^sup>*\<^sup>* (Load_Max l, lt3) (At_Ops l, lt4)" unfolding lt4_def by (rule alone_max)
  also have "alone_step (At_Ops l, lt4) (At_Total l, lt4\<lparr>total_operations := total_operations lt4 + 1\<rparr>)"
    by (auto simp: alone_step_def intro: record_step.intros)
  also have "alone_step (At_Total l, lt4\<lparr>total_operations := total_operations lt4 + 1\<rparr>) (Away, record_latency l lt)"
    by (auto simp: alone_step_def lt4_def lt3_def lt2_def record_latency_def bucket_record_def Let_def upd_bucket_def
        intro!: record_step.total [THEN back_subst [of "record_step (At_Total l) _ Away"]])
  finally show ?thesis .
qed

lemma alone_reaches:
  assumes "alone_step\<^sup>*\<^sup>* x y" and "tracker_reachable 1 \<lparr>tr_tracker = snd x, tr_places = [fst x], tr_begun = ls\<rparr>"
  shows "tracker_reachable 1 \<lparr>tr_tracker = snd y, tr_places = [fst y], tr_begun = ls\<rparr>"
  using assms
proof (induction rule: rtranclp_induct)
  case (step y z)
  have "tracker_step \<lparr>tr_tracker = snd y, tr_places = [fst y], tr_begun = ls\<rparr> \<lparr>tr_tracker = snd z, tr_places = [fst z], tr_begun = ls\<rparr>"
    using step(2) tracker_step.intros [of 0 "\<lparr>tr_tracker = snd y, tr_places = [fst y], tr_begun = ls\<rparr>" "fst z" "snd z"]
    by (simp add: alone_step_def)
  with step show ?case unfolding tracker_reachable_def by (meson rtranclp.rtrancl_into_rtrancl)
qed simp

lemma call_reaches:
  assumes "tracker_reachable 1 \<lparr>tr_tracker = lt, tr_places = [Away], tr_begun = ls\<rparr>"
  shows "tracker_reachable 1 \<lparr>tr_tracker = record_latency l lt, tr_places = [Away], tr_begun = ls @ [l]\<rparr>"
proof -
  have "tracker_step \<lparr>tr_tracker = lt, tr_places = [Away], tr_begun = ls\<rparr> \<lparr>tr_tracker = lt, tr_places = [At_Count l], tr_begun = ls @ [l]\<rparr>"
    using tracker_step.intros [of 0 "\<lparr>tr_tracker = lt, tr_places = [Away], tr_begun = ls\<rparr>" "At_Count l" lt] record_step.enter by simp
  with assms have "tracker_reachable 1 \<lparr>tr_tracker = lt, tr_places = [At_Count l], tr_begun = ls @ [l]\<rparr>"
    unfolding tracker_reachable_def by (meson rtranclp.rtrancl_into_rtrancl)
  from alone_reaches [OF alone_call [of l lt]] this show ?thesis by simp
qed

definition sample_tracked :: tracker_run where
  "sample_tracked = \<lparr>tr_tracker = record_latency 700 (record_latency 1500 LatencyTracker_init), tr_places = [Away], tr_begun = [1500, 700]\<rparr>"

lemma sample_tracked_reachable: "tracker_reachable 1 sample_tracked"
proof -
  have "tracker_reachable 1 \<lparr>tr_tracker = LatencyTracker_init, tr_places = [Away], tr_begun = []\<rparr>" by (simp add: tracker_reachable_def)
  from call_reaches [OF call_reaches [OF this, of 1500], of 700] show ?thesis by (simp add: sample_tracked_def)
qed

theorem tracker_linearizable_witness:
  "tracker_reachable 1 sample_tracked \<and> tr_tracker sample_tracked = fold record_latency [1500, 700] LatencyTracker_init"
  using tracker_linearizable [OF sample_tracked_reachable] sample_tracked_reachable by (simp add: sample_tracked_def)

text \<open>The element at a place of a sorted list, by counting.\<close>

lemma sorted_nth_filter:
  assumes "sorted xs" and "\<And>x y. x \<le> y \<Longrightarrow> P y \<Longrightarrow> P x" and "k < length xs"
  shows "P (xs ! k) \<longleftrightarrow> k < length (filter P xs)"
  using assms(1,3)
proof (induction xs arbitrary: k)
  case (Cons x xs)
  show ?case
  proof (cases "P x")
    case False
    then have "filter P xs = []" using Cons.prems(1) assms(2) by (auto simp: filter_empty_conv)
    moreover have "x \<le> (x # xs) ! k" using Cons.prems by (cases k) auto
    then have "\<not> P ((x # xs) ! k)" using False assms(2) by blast
    ultimately show ?thesis using False by simp
  next
    case True
    then show ?thesis using Cons by (cases k) auto
  qed
qed simp

lemma filter_sort_length: "length (filter P (sort xs)) = length (filter P xs)"
  by (metis filter_sort length_sort)

lemma bucket_of_conv: "bucket_of l = min (unat l div 1000) 999"
  by (simp add: bucket_of_def NUM_BUCKETS_def min_def word_le_nat_alt unat_div)

lemma bucket_of_mono: "l \<le> m \<Longrightarrow> bucket_of l \<le> bucket_of m"
  unfolding bucket_of_conv word_le_nat_alt by (intro min.mono div_le_mono order_refl)

lemma percentile_element:
  assumes "0 < t" and "t \<le> length (filter (\<lambda>l. bucket_of l \<le> j) ls)" and "j = 0 \<or> length (filter (\<lambda>l. bucket_of l < j) ls) < t"
  shows "bucket_of (sort ls ! (t - 1)) = j"
proof -
  have len: "t - 1 < length (sort ls)" using assms(1,2) le_trans [OF assms(2) length_filter_le] by simp
  have "bucket_of x \<le> j" if "x \<le> y" "bucket_of y \<le> j" for x y using that bucket_of_mono [of x y] by simp
  from sorted_nth_filter [of "sort ls" "\<lambda>l. bucket_of l \<le> j", OF _ this len]
  have "bucket_of (sort ls ! (t - 1)) \<le> j" using assms(1,2) by (simp add: filter_sort_length)
  moreover have "bucket_of x < j" if "x \<le> y" "bucket_of y < j" for x y using that bucket_of_mono [of x y] by simp
  from sorted_nth_filter [of "sort ls" "\<lambda>l. bucket_of l < j", OF _ this len]
  have "\<not> bucket_of (sort ls ! (t - 1)) < j" using assms(1,3) by (auto simp: filter_sort_length)
  ultimately show ?thesis by simp
qed

text \<open>C36: what the statistics of a tracker say of the latencies recorded, in whatever order. The number, the mean (truncated),
  the least and the greatest are exact, but a least latency of \<open>UINT64_MAX\<close> reads as 0. A percentile is not: with
  \<open>t\<close> the truncated part of the number of latencies, it is the \<open>t\<close>-th smallest latency rounded down to a multiple of
  1000, a latency of 999 microseconds or more counting as 999000, the lower end of its bucket and not the midpoint that
  the comment in the code promises; and when \<open>t\<close> is 0, as for a low percentile of few latencies, it is 0 whatever was
  recorded.\<close>

theorem tracker_statistics:
  assumes "tracker_reachable n s" and "\<forall>p \<in> set (tr_places s). p = Away" and "tr_begun s = ls" and "ls \<noteq> []"
    and "length ls < 2 ^ 64" and "sum_list (map unat ls) < 2 ^ 64" and "0 \<le> p" "p \<le> 100"
    and "t = nat \<lfloor>real (length ls) * p / 100\<rfloor>"
  shows "unat (total_operations (tr_tracker s)) = length ls
    \<and> unat (get_average_latency (tr_tracker s)) = sum_list (map unat ls) div length ls
    \<and> get_min_latency (tr_tracker s) = (if Min (set ls) = UINT64_MAX then 0 else Min (set ls))
    \<and> get_max_latency (tr_tracker s) = Max (set ls)
    \<and> get_percentile_latency p (tr_tracker s)
        = (if t = 0 then 0 else of_nat (min (unat (sort ls ! (t - 1)) div 1000) 999 * 1000))"
proof -
  let ?lt = "tr_tracker s"
  have tr: "tracks (mset ls) ?lt" using quiet_tracks [OF tracker_reachable_inv [OF assms(1)] assms(2)] assms(3) by simp
  have ops: "total_operations ?lt = of_nat (length ls)" "total_latency ?lt = sum_list ls"
    using tr by (simp_all add: tracks_def count_all_def sum_all_def sum_mset_sum_list)
  have n: "unat (total_operations ?lt) = length ls" using ops(1) assms(5) by (simp add: unat_of_nat)
  then have pos: "0 < total_operations ?lt" using assms(4) by (simp add: word_less_nat_alt)
  have "unat (get_average_latency ?lt) = sum_list (map unat ls) div length ls"
    using pos n ops(2) unat_sum_list [OF assms(6)] by (simp add: get_average_latency_def unat_div)
  moreover have "Min (insert UINT64_MAX (set ls)) = Min (set ls)"
  proof -
    have "Min (set ls) \<le> UINT64_MAX" by (simp add: UINT64_MAX_def)
    moreover have "Min (insert UINT64_MAX (set ls)) = min UINT64_MAX (Min (set ls))" using assms(4) by (intro Min_insert) simp_all
    ultimately show ?thesis by (simp add: min_absorb2)
  qed
  then have "get_min_latency ?lt = (if Min (set ls) = UINT64_MAX then 0 else Min (set ls))"
    using min_over_ok [OF tr assms(5), of 1000] by (simp add: get_min_latency_def NUM_BUCKETS_def Let_def)
  moreover have "get_max_latency ?lt = Max (set ls)"
    using max_over_ok [OF tr assms(5), of 1000] assms(4) by (simp add: get_max_latency_def NUM_BUCKETS_def Max_insert max_def)
  moreover have "\<exists>j < 1000. get_percentile_latency p ?lt = of_nat (j * 1000)
      \<and> nat \<lfloor>real (length ls) * p / 100\<rfloor> \<le> length (below (Suc j) ls) \<and> (j = 0 \<or> length (below j ls) < nat \<lfloor>real (length ls) * p / 100\<rfloor>)"
  proof -
    let ?t = "\<lfloor>real (length ls) * p / 100\<rfloor>"
    have "real (length ls) * p / 100 \<le> real (length ls)" using assms(8) mult_left_mono [of p 100 "real (length ls)"] by simp
    then have t: "0 \<le> ?t" "?t \<le> int (length ls)" using assms(7) by (simp_all add: floor_le_iff)
    then have "nat ?t < 2 ^ 64" using assms(5) by linarith
    then have "unat (of_nat (nat ?t) :: u64) = nat ?t" unfolding unat_of_nat by (intro mod_less) simp
    then have w: "unat (of_int ?t :: u64) = nat ?t" unfolding of_nat_nat [OF t(1)] .
    have u: "real_of_int (uint (total_operations ?lt)) = real (length ls)" using n by (metis of_int_of_nat_eq uint_nat)
    have "get_percentile_latency p ?lt = percentile_loop ?lt (of_int ?t) (of_nat (length (below 0 ls))) [0..<1000]"
      using pos u by (simp add: get_percentile_latency_def NUM_BUCKETS_def)
    moreover have "unat (of_int ?t :: u64) \<le> length ls" using w t by simp
    from percentile_loop_ok [OF tr assms(5) this, of 0] obtain j where "j < 1000"
      "percentile_loop ?lt (of_int ?t) (of_nat (length (below 0 ls))) [0..<1000] = of_nat (j * 1000)"
      "nat ?t \<le> length (below (Suc j) ls)" "j = 0 \<or> length (below j ls) < nat ?t" unfolding w by auto
    ultimately show ?thesis by (intro exI [of _ j] conjI) simp_all
  qed
  then obtain j where j: "get_percentile_latency p ?lt = of_nat (j * 1000)" "t \<le> length (filter (\<lambda>l. bucket_of l \<le> j) ls)"
    "j = 0 \<or> length (filter (\<lambda>l. bucket_of l < j) ls) < t"
    unfolding assms(9) [symmetric] by (auto simp: below_def less_Suc_eq_le)
  then have "get_percentile_latency p ?lt = (if t = 0 then 0 else of_nat (min (unat (sort ls ! (t - 1)) div 1000) 999 * 1000))"
    using percentile_element [of t j ls] by (auto simp: bucket_of_conv)
  ultimately show ?thesis using n by simp
qed

text \<open>Of 1500 and 700 nanoseconds, the greatest reads as 1000 when asked for as a percentile.\<close>

theorem tracker_statistics_witness:
  "get_average_latency (tr_tracker sample_tracked) = 1100 \<and> get_max_latency (tr_tracker sample_tracked) = 1500
    \<and> get_percentile_latency 100 (tr_tracker sample_tracked) = 1000 \<and> get_percentile_latency 20 (tr_tracker sample_tracked) = 0"
proof -
  have "(2200::nat) div Suc (Suc 0) = 1100" by (simp flip: numeral_2_eq_2)
  then have "unat (get_average_latency (tr_tracker sample_tracked)) = 1100" "get_max_latency (tr_tracker sample_tracked) = 1500"
    "get_percentile_latency 100 (tr_tracker sample_tracked) = 1000"
    using tracker_statistics [OF sample_tracked_reachable _ _ _ _ _ _ _ refl, of "[1500, 700]" 100] by (simp_all add: sample_tracked_def)
  moreover have "get_percentile_latency 20 (tr_tracker sample_tracked) = 0"
    using tracker_statistics [OF sample_tracked_reachable _ _ _ _ _ _ _ refl, of "[1500, 700]" 20] by (simp add: sample_tracked_def)
  ultimately show ?thesis by (simp add: word_unat_eq_iff)
qed

end
