(* ===== verification/Performance_Dashboard.thy ===== *)
theory Performance_Dashboard
  imports Latency_Tracker
begin

text \<open>
  Common Files/performance_dashboard.h: the thread that every 100 ms takes the statistics of the latency tracker over and
  prints them every hundredth time. The clock and the tracker's state at a round are inputs of the round.
\<close>

section \<open>State and operations\<close>

record PerformanceDashboard =
  orders_per_second :: u64
  trades_per_second :: u64
  avg_latency_ns :: u64
  p99_latency_ns :: u64
  p99_9_latency_ns :: u64
  memory_usage_bytes :: u64
  cpu_usage_percent :: u64
  last_orders_count :: u64
  last_trades_count :: u64
  last_report_time :: u64
  log_counter :: u64

definition PerformanceDashboard_init :: PerformanceDashboard where
  "PerformanceDashboard_init =
     \<lparr>orders_per_second = 0, trades_per_second = 0, avg_latency_ns = 0, p99_latency_ns = 0, p99_9_latency_ns = 0,
      memory_usage_bytes = 0, cpu_usage_percent = 0, last_orders_count = 0, last_trades_count = 0, last_report_time = 0,
      log_counter = 0\<rparr>"

definition record_order :: "PerformanceDashboard \<Rightarrow> PerformanceDashboard" where "record_order pd = pd"
definition record_trade :: "PerformanceDashboard \<Rightarrow> PerformanceDashboard" where "record_trade pd = pd"

definition line_end :: string where "line_end = [CHR 0x0A]"

definition get_performance_summary :: "LatencyTracker \<Rightarrow> PerformanceDashboard \<Rightarrow> string" where
  "get_performance_summary lt pd =
     ''=== NANOSECOND HFT PERFORMANCE DASHBOARD ==='' @ line_end
     @ ''Orders/sec: '' @ show_nat (unat (orders_per_second pd)) @ line_end
     @ ''Avg Latency: '' @ show_nat (unat (avg_latency_ns pd)) @ '' ns'' @ line_end
     @ ''P99 Latency: '' @ show_nat (unat (p99_latency_ns pd)) @ '' ns'' @ line_end
     @ ''Latency Stats: '' @ get_stats_string lt @ line_end
     @ ''==============================================='' @ line_end"

text \<open>The rate of the orders since the last report, when that is more than a second ago; the product wraps in 64 bits.\<close>

definition report_orders :: "u64 \<Rightarrow> LatencyTracker \<Rightarrow> PerformanceDashboard \<Rightarrow> PerformanceDashboard" where
  "report_orders current_time lt pd =
     (let time_diff_ns = current_time - last_report_time pd
      in if time_diff_ns > 1000000000
         then pd\<lparr>orders_per_second := ((total_operations lt - last_orders_count pd) * 1000000000) div time_diff_ns,
                 last_orders_count := total_operations lt, last_report_time := current_time\<rparr>
         else pd)"

definition update_metrics :: "u64 \<Rightarrow> LatencyTracker \<Rightarrow> PerformanceDashboard \<Rightarrow> PerformanceDashboard" where
  "update_metrics current_time lt pd =
     (let pd = pd\<lparr>avg_latency_ns := get_average_latency lt, p99_latency_ns := get_percentile_latency 99 lt,
                  p99_9_latency_ns := get_percentile_latency (999 / 10) lt\<rparr>
      in if last_report_time pd = 0 then pd\<lparr>last_report_time := current_time\<rparr>
         else (report_orders current_time lt pd)\<lparr>memory_usage_bytes := 1024 * 1024 * 512, cpu_usage_percent := 75\<rparr>)"

definition publish_metrics :: "LatencyTracker \<Rightarrow> PerformanceDashboard \<Rightarrow> string list \<times> PerformanceDashboard" where
  "publish_metrics lt pd =
     (let pd = pd\<lparr>log_counter := log_counter pd + 1\<rparr>
      in (if log_counter pd mod 100 = 0 then [get_performance_summary lt pd @ line_end] else [], pd))"

text \<open>The rounds of the reporting thread: what it prints, and its state afterwards.\<close>

fun dashboard_rounds :: "(u64 \<times> LatencyTracker) list \<Rightarrow> PerformanceDashboard \<Rightarrow> string list \<times> PerformanceDashboard" where
  "dashboard_rounds [] pd = ([], pd)"
| "dashboard_rounds ((t, lt) # rs) pd =
     (let (out, pd) = publish_metrics lt (update_metrics t lt pd); (outs, pd) = dashboard_rounds rs pd in (out @ outs, pd))"


section \<open>What is reported\<close>

lemma update_metrics_fields [simp]:
  "log_counter (update_metrics t lt pd) = log_counter pd" "avg_latency_ns (update_metrics t lt pd) = get_average_latency lt"
  "p99_latency_ns (update_metrics t lt pd) = get_percentile_latency 99 lt"
  by (simp_all add: update_metrics_def report_orders_def Let_def)

lemma rounds_printed:
  assumes "unat (log_counter pd) + length rs < 2 ^ 64" and "dashboard_rounds rs pd = (outs, pd')"
  shows "length outs = (unat (log_counter pd) + length rs) div 100 - unat (log_counter pd) div 100
    \<and> unat (log_counter pd') = unat (log_counter pd) + length rs"
  using assms
proof (induction rs arbitrary: pd outs)
  case (Cons r rs)
  obtain t lt where r: "r = (t, lt)" by (cases r)
  let ?pd = "(update_metrics t lt pd)\<lparr>log_counter := log_counter pd + 1\<rparr>"
  let ?out = "if (log_counter pd + 1) mod 100 = 0 then [get_performance_summary lt ?pd @ line_end] else []"
  obtain os where os: "dashboard_rounds rs ?pd = (os, pd')" "outs = ?out @ os"
    using Cons.prems(2) r by (auto simp: publish_metrics_def Let_def split: prod.splits)
  have u: "unat (log_counter pd + 1) = unat (log_counter pd) + 1"
    using Cons.prems(1) by (subst unat_add_lem [THEN iffD1]) simp_all
  have "length os = (unat (log_counter pd) + 1 + length rs) div 100 - (unat (log_counter pd) + 1) div 100
    \<and> unat (log_counter pd') = unat (log_counter pd) + 1 + length rs"
    using Cons.IH [of ?pd os] Cons.prems(1) os(1) u by simp
  moreover have "length ?out = (unat (log_counter pd) + 1) div 100 - unat (log_counter pd) div 100"
  proof -
    have "(log_counter pd + 1) mod 100 = 0 \<longleftrightarrow> (unat (log_counter pd) + 1) mod 100 = 0"
      unfolding word_unat_eq_iff unat_mod u by simp
    then show ?thesis by (simp add: div_Suc)
  qed
  moreover have "(unat (log_counter pd) + 1) div 100 \<le> (unat (log_counter pd) + 1 + length rs) div 100"
    "unat (log_counter pd) div 100 \<le> (unat (log_counter pd) + 1) div 100" by (simp_all add: div_le_mono)
  ultimately show ?case using os(2) by simp
qed simp

end
