(* ===== verification/Book_Printing.thy ===== *)
theory Book_Printing
  imports Market_Book_Props
begin

text \<open>
  The textual forms of the two order books, matcher/me_order.h, me_order.cpp and me_order_book.cpp on the exchange's
  side, strategy/market_order.h, market_order.cpp and market_order_book.cpp on the trading side. The books' \<open>toString\<close>
  also checks that the prices of each side are in order and ends the process when they are not.
\<close>

section \<open>Orders and levels\<close>

definition id_text :: "(nat \<Rightarrow> OrderId) \<Rightarrow> ptr \<Rightarrow> string" where
  "id_text oid p = orderIdToString (case p of None \<Rightarrow> OrderId_INVALID | Some i \<Rightarrow> oid i)"

definition price_text :: "(nat \<Rightarrow> Price) \<Rightarrow> ptr \<Rightarrow> string" where
  "price_text price p = priceToString (case p of None \<Rightarrow> Price_INVALID | Some n \<Rightarrow> price n)"

definition MEOrder_toString :: "MEOrderBook \<Rightarrow> MEOrder \<Rightarrow> string" where
  "MEOrder_toString ob x =
     ''MEOrder['' @ ''ticker:'' @ tickerIdToString (o_ticker_id x) @ '' cid:'' @ clientIdToString (o_client_id x)
     @ '' oid:'' @ orderIdToString (o_client_order_id x) @ '' moid:'' @ orderIdToString (o_market_order_id x)
     @ '' side:'' @ sideToString (o_side x) @ '' price:'' @ priceToString (o_price x) @ '' qty:'' @ qtyToString (o_qty x)
     @ '' prio:'' @ priorityToString (o_priority x)
     @ '' prev:'' @ id_text (\<lambda>i. o_market_order_id (ord ob i)) (o_prev_order x)
     @ '' next:'' @ id_text (\<lambda>i. o_market_order_id (ord ob i)) (o_next_order x) @ '']''"

definition MEOrdersAtPrice_toString :: "MEOrderBook \<Rightarrow> MEOrdersAtPrice \<Rightarrow> string" where
  "MEOrdersAtPrice_toString ob l =
     ''MEOrdersAtPrice['' @ ''side:'' @ sideToString (l_side l) @ '' price:'' @ priceToString (l_price l)
     @ '' first_me_order:'' @ (case l_first_me_order l of None \<Rightarrow> ''null'' | Some i \<Rightarrow> MEOrder_toString ob (ord ob i))
     @ '' prev:'' @ price_text (\<lambda>n. l_price (lvl ob n)) (l_prev_entry l)
     @ '' next:'' @ price_text (\<lambda>n. l_price (lvl ob n)) (l_next_entry l) @ '']''"

definition MarketOrder_toString :: "MarketOrderBook \<Rightarrow> MarketOrder \<Rightarrow> string" where
  "MarketOrder_toString mb x =
     ''MarketOrder['' @ ''oid:'' @ orderIdToString (mo_order_id x)
     @ '' side:'' @ sideToString (mo_side x) @ '' price:'' @ priceToString (mo_price x) @ '' qty:'' @ qtyToString (mo_qty x)
     @ '' prio:'' @ priorityToString (mo_priority x)
     @ '' prev:'' @ id_text (\<lambda>i. mo_order_id (mord mb i)) (mo_prev_order x)
     @ '' next:'' @ id_text (\<lambda>i. mo_order_id (mord mb i)) (mo_next_order x) @ '']''"

definition MarketOrdersAtPrice_toString :: "MarketOrderBook \<Rightarrow> MarketOrdersAtPrice \<Rightarrow> string" where
  "MarketOrdersAtPrice_toString mb l =
     ''MarketOrdersAtPrice['' @ ''side:'' @ sideToString (ml_side l) @ '' price:'' @ priceToString (ml_price l)
     @ '' first_mkt_order:'' @ (case ml_first_mkt_order l of None \<Rightarrow> ''null'' | Some i \<Rightarrow> MarketOrder_toString mb (mord mb i))
     @ '' prev:'' @ price_text (\<lambda>n. ml_price (mlvl mb n)) (ml_prev_entry l)
     @ '' next:'' @ price_text (\<lambda>n. ml_price (mlvl mb n)) (ml_next_entry l) @ '']''"


section \<open>Books\<close>

text \<open>
  The two sources write the same code over their own types, so it is given once over the fields that it reads. The bounds
  are the sizes of the two pools: a loop that reads more nodes than its pool has blocks never ends.
\<close>

record book_view =
  v_orders :: nat
  v_levels :: nat
  v_oid :: "nat \<Rightarrow> OrderId"
  v_qty :: "nat \<Rightarrow> Qty"
  v_oprev :: "nat \<Rightarrow> ptr"
  v_onext :: "nat \<Rightarrow> ptr"
  v_price :: "nat \<Rightarrow> Price"
  v_first :: "nat \<Rightarrow> ptr"
  v_lprev :: "nat \<Rightarrow> ptr"
  v_lnext :: "nat \<Rightarrow> ptr"

definition me_view :: "MEOrderBook \<Rightarrow> book_view" where
  "me_view ob =
     \<lparr>v_orders = unat (store_size (order_pool ob)), v_levels = unat (store_size (orders_at_price_pool ob)),
      v_oid = (\<lambda>i. o_market_order_id (ord ob i)), v_qty = (\<lambda>i. o_qty (ord ob i)),
      v_oprev = (\<lambda>i. o_prev_order (ord ob i)), v_onext = (\<lambda>i. o_next_order (ord ob i)),
      v_price = (\<lambda>n. l_price (lvl ob n)), v_first = (\<lambda>n. l_first_me_order (lvl ob n)),
      v_lprev = (\<lambda>n. l_prev_entry (lvl ob n)), v_lnext = (\<lambda>n. l_next_entry (lvl ob n))\<rparr>"

definition mk_view :: "MarketOrderBook \<Rightarrow> book_view" where
  "mk_view mb =
     \<lparr>v_orders = unat (store_size (mk_order_pool mb)), v_levels = unat (store_size (mk_orders_at_price_pool mb)),
      v_oid = (\<lambda>i. mo_order_id (mord mb i)), v_qty = (\<lambda>i. mo_qty (mord mb i)),
      v_oprev = (\<lambda>i. mo_prev_order (mord mb i)), v_onext = (\<lambda>i. mo_next_order (mord mb i)),
      v_price = (\<lambda>n. ml_price (mlvl mb n)), v_first = (\<lambda>n. ml_first_mkt_order (mlvl mb n)),
      v_lprev = (\<lambda>n. ml_prev_entry (mlvl mb n)), v_lnext = (\<lambda>n. ml_next_entry (mlvl mb n))\<rparr>"

text \<open>\<^verbatim>\<open>%3s\<close> and \<^verbatim>\<open>%-3s\<close>: filled up with blanks in front or behind.\<close>

definition pad_left :: "nat \<Rightarrow> string \<Rightarrow> string" where
  "pad_left w s = replicate (w - length s) (CHR '' '') @ s"

definition pad_right :: "nat \<Rightarrow> string \<Rightarrow> string" where
  "pad_right w s = s @ replicate (w - length s) (CHR '' '')"

definition newline :: string where "newline = [CHR 0x0A]"

text \<open>The first loop over the orders of a level, with the quantity added in 32 bits.\<close>

fun sum_orders :: "nat \<Rightarrow> book_view \<Rightarrow> ptr \<Rightarrow> ptr \<Rightarrow> Qty \<Rightarrow> u64 \<Rightarrow> (Qty \<times> u64) res" where
  "sum_orders 0 v first o_itr qty num_orders = Inl Diverges"
| "sum_orders (Suc fuel) v first o_itr qty num_orders =
     bindE (deref o_itr) (\<lambda>i.
     let qty = qty + v_qty v i; num_orders = num_orders + 1
     in if v_onext v i = first then Inr (qty, num_orders) else sum_orders fuel v first (v_onext v i) qty num_orders)"

definition order_text :: "string \<Rightarrow> string \<Rightarrow> string \<Rightarrow> string \<Rightarrow> string" where
  "order_text oid qty prev nxt = ''[oid:'' @ oid @ '' q:'' @ qty @ '' p:'' @ prev @ '' n:'' @ nxt @ ''] ''"

text \<open>The second loop.\<close>

fun put_orders :: "nat \<Rightarrow> book_view \<Rightarrow> bool \<Rightarrow> ptr \<Rightarrow> ptr \<Rightarrow> string \<Rightarrow> string res" where
  "put_orders 0 v detailed first o_itr ss = Inl Diverges"
| "put_orders (Suc fuel) v detailed first o_itr ss =
     bindE (deref o_itr) (\<lambda>i.
     let ss = (if detailed
               then ss @ order_text (orderIdToString (v_oid v i)) (qtyToString (v_qty v i)) (id_text (v_oid v) (v_oprev v i))
                     (id_text (v_oid v) (v_onext v i))
               else ss)
     in if v_onext v i = first then Inr ss else put_orders fuel v detailed first (v_onext v i) ss)"

definition level_text :: "string \<Rightarrow> string \<Rightarrow> string \<Rightarrow> string \<Rightarrow> string \<Rightarrow> string" where
  "level_text price prev nxt qty num =
     '' <px:'' @ pad_left 3 price @ '' p:'' @ pad_left 3 prev @ '' n:'' @ pad_left 3 nxt @ ''> '' @ pad_right 3 price
     @ '' @ '' @ pad_right 5 qty @ ''('' @ pad_right 4 num @ '')''"

text \<open>The lambda \<^verbatim>\<open>printer\<close>: what it appends, and the new value of \<open>last_price\<close>.\<close>

definition put_level :: "book_view \<Rightarrow> bool \<Rightarrow> bool \<Rightarrow> nat \<Rightarrow> Side \<Rightarrow> Price \<Rightarrow> string \<Rightarrow> (string \<times> Price) res" where
  "put_level v detailed sanity_check itr side last_price ss =
     bindE (sum_orders (Suc (v_orders v)) v (v_first v itr) (v_first v itr) 0 0) (\<lambda>(qty, num_orders).
     bindE (deref (v_lprev v itr)) (\<lambda>p.
     bindE (deref (v_lnext v itr)) (\<lambda>q.
     let ss = ss @ level_text (priceToString (v_price v itr)) (priceToString (v_price v p)) (priceToString (v_price v q))
                (qtyToString qty) (show_nat (unat num_orders))
     in bindE (put_orders (Suc (v_orders v)) v detailed (v_first v itr) (v_first v itr) ss) (\<lambda>ss.
        let ss = ss @ newline
        in if sanity_check
           then if (side = SELL \<and> last_price \<ge> v_price v itr) \<or> (side = BUY \<and> last_price \<le> v_price v itr)
                then Inl AssertFailed else Inr (ss, v_price v itr)
           else Inr (ss, last_price)))))"

fun put_side :: "nat \<Rightarrow> book_view \<Rightarrow> bool \<Rightarrow> bool \<Rightarrow> string \<Rightarrow> Side \<Rightarrow> ptr \<Rightarrow> ptr \<Rightarrow> u64 \<Rightarrow> Price \<Rightarrow> string \<Rightarrow> string res" where
  "put_side fuel v detailed validity_check name side first None cnt last_price ss = Inr ss"
| "put_side 0 v detailed validity_check name side first (Some itr) cnt last_price ss = Inl Diverges"
| "put_side (Suc fuel) v detailed validity_check name side first (Some itr) cnt last_price ss =
     (let ss = ss @ name @ show_nat (unat cnt) @ '' => '';
          nxt = (if v_lnext v itr = first then None else v_lnext v itr)
      in bindE (put_level v detailed validity_check itr side last_price ss) (\<lambda>(ss, last_price).
         put_side fuel v detailed validity_check name side first nxt (cnt + 1) last_price ss))"

definition Price_min :: Price where "Price_min = - (2 ^ 63)"
definition Price_max :: Price where "Price_max = 2 ^ 63 - 1"

definition book_toString :: "book_view \<Rightarrow> bool \<Rightarrow> bool \<Rightarrow> TickerId \<Rightarrow> ptr \<Rightarrow> ptr \<Rightarrow> string res" where
  "book_toString v detailed validity_check ticker_id bids asks =
     (let ss = ''Ticker:'' @ tickerIdToString ticker_id @ newline
      in bindE (put_side (v_levels v) v detailed validity_check ''ASKS L:'' SELL asks asks 0 Price_min ss) (\<lambda>ss.
         let ss = ss @ newline @ replicate 26 (CHR '' '') @ ''X'' @ newline @ newline
         in put_side (v_levels v) v detailed validity_check ''BIDS L:'' BUY bids bids 0 Price_max ss))"

definition MEOrderBook_toString :: "bool \<Rightarrow> bool \<Rightarrow> MEOrderBook \<Rightarrow> string res" where
  "MEOrderBook_toString detailed validity_check ob =
     book_toString (me_view ob) detailed validity_check (ob_ticker_id ob) (bids_by_price ob) (asks_by_price ob)"

definition MarketOrderBook_toString :: "bool \<Rightarrow> bool \<Rightarrow> MarketOrderBook \<Rightarrow> string res" where
  "MarketOrderBook_toString detailed validity_check mb =
     book_toString (mk_view mb) detailed validity_check (mk_ticker_id mb) (mk_bids_by_price mb) (mk_asks_by_price mb)"

text \<open>The destructors log the book, with the check of the prices, and drop their pointers.\<close>

definition MEOrderBook_destroy :: "MEOrderBook \<Rightarrow> (string \<times> MEOrderBook) res" where
  "MEOrderBook_destroy ob =
     bindE (MEOrderBook_toString False True ob) (\<lambda>text.
     Inr (text, ob\<lparr>bids_by_price := None, asks_by_price := None, cid_oid_to_order := (\<lambda>_ _. None)\<rparr>))"

definition MarketOrderBook_destroy :: "MarketOrderBook \<Rightarrow> (string \<times> MarketOrderBook) res" where
  "MarketOrderBook_destroy mb =
     bindE (MarketOrderBook_toString False True mb) (\<lambda>text.
     Inr (text, mb\<lparr>mk_bids_by_price := None, mk_asks_by_price := None, oid_to_order := (\<lambda>_. None)\<rparr>))"

section \<open>What is printed\<close>

text \<open>The elements of a list with the ones before and behind them, the list being closed to a circle.\<close>

definition neighbours :: "'a list \<Rightarrow> ('a \<times> 'a \<times> 'a) list" where
  "neighbours xs = (if xs = [] then [] else zip (last xs # butlast xs) (zip xs (tl xs @ [hd xs])))"

text \<open>The orders of a side, level by level.\<close>

function price_groups :: "MEOrder list \<Rightarrow> MEOrder list list" where
  "price_groups [] = []"
| "price_groups (x # xs) =
     (x # takeWhile (\<lambda>y. o_price y = o_price x) xs) # price_groups (dropWhile (\<lambda>y. o_price y = o_price x) xs)"
  by pat_completeness auto

termination
  by (relation "measure length") (simp_all add: less_Suc_eq_le length_dropWhile_le)

definition spec_order_text :: "MEOrder \<times> MEOrder \<times> MEOrder \<Rightarrow> string" where
  "spec_order_text = (\<lambda>(p, x, n).
     order_text (orderIdToString (o_market_order_id x)) (qtyToString (o_qty x)) (orderIdToString (o_market_order_id p))
       (orderIdToString (o_market_order_id n)))"

definition spec_level_text :: "bool \<Rightarrow> MEOrder list \<times> MEOrder list \<times> MEOrder list \<Rightarrow> string" where
  "spec_level_text detailed = (\<lambda>(p, g, n).
     level_text (priceToString (o_price (hd g))) (priceToString (o_price (hd p))) (priceToString (o_price (hd n)))
       (qtyToString (sum_list (map o_qty g))) (show_nat (length g))
     @ (if detailed then concat (map spec_order_text (neighbours g)) else ''''))"

fun numbered :: "string \<Rightarrow> u64 \<Rightarrow> string list \<Rightarrow> string" where
  "numbered name cnt [] = ''''"
| "numbered name cnt (t # ts) = name @ show_nat (unat cnt) @ '' => '' @ t @ newline @ numbered name (cnt + 1) ts"

definition book_text :: "bool \<Rightarrow> TickerId \<Rightarrow> spec_book \<Rightarrow> string" where
  "book_text detailed tid bk =
     ''Ticker:'' @ tickerIdToString tid @ newline
     @ numbered ''ASKS L:'' 0 (map (spec_level_text detailed) (neighbours (price_groups (bk SELL))))
     @ newline @ replicate 26 (CHR '' '') @ ''X'' @ newline @ newline
     @ numbered ''BIDS L:'' 0 (map (spec_level_text detailed) (neighbours (price_groups (bk BUY))))"


section \<open>The loops over rings\<close>

lemma linked_links: "linked nxt prv xs \<Longrightarrow> map nxt (butlast xs) = map Some (tl xs) \<and> map prv (tl xs) = map Some (butlast xs)"
  by (induction xs rule: induct_list012) auto

lemma ring_links:
  assumes "ring nxt prv xs" and "xs \<noteq> []"
  shows "map nxt xs = map Some (tl xs @ [hd xs])" "map prv xs = map Some (last xs # butlast xs)"
proof -
  have l: "linked nxt prv (xs @ [hd xs])" using assms by (simp add: ring_def)
  show "map nxt xs = map Some (tl xs @ [hd xs])" using linked_links [OF l] assms(2) by simp
  obtain x ys where xs: "xs = x # ys" using assms(2) by (cases xs) auto
  have "map prv ys @ [prv x] = map Some xs" using linked_links [OF l] xs by simp
  moreover have "map Some xs = map Some (butlast xs) @ [Some (last xs)]"
    using arg_cong [OF append_butlast_last_id [OF assms(2)], of "map Some"] by (simp only: map_append list.map)
  ultimately have "map prv ys = map Some (butlast xs)" "prv x = Some (last xs)" by (metis append1_eq_conv)+
  then show "map prv xs = map Some (last xs # butlast xs)" using xs by simp
qed

lemma zip3_map: "zip (map f as) (zip (map g xs) (map h bs)) = map (\<lambda>(a, x, b). (f a, g x, h b)) (zip as (zip xs bs))"
  by (simp add: zip_map1 zip_map2 split_def)

lemma ring_neighbours:
  assumes "ring nxt prv (map f xs)"
  shows "map (\<lambda>x. F (prv (f x)) x (nxt (f x))) xs = map (\<lambda>(a, x, b). F (Some (f a)) x (Some (f b))) (neighbours xs)"
proof (cases "xs = []")
  case False
  let ?as = "last xs # butlast xs" and ?bs = "tl xs @ [hd xs]"
  have l: "map nxt (map f xs) = map (\<lambda>x. Some (f x)) ?bs" "map prv (map f xs) = map (\<lambda>x. Some (f x)) ?as"
    using ring_links [OF assms] False by (simp_all add: map_tl hd_map last_map map_butlast comp_def)
  have "map (\<lambda>x. F (prv (f x)) x (nxt (f x))) xs =
      map (\<lambda>(a, x, b). F a x b) (zip (map prv (map f xs)) (zip (map (\<lambda>x. x) xs) (map nxt (map f xs))))"
    by (induction xs) simp_all
  also have "\<dots> = map (\<lambda>(a, x, b). F (Some (f a)) x (Some (f b))) (zip ?as (zip xs ?bs))"
    unfolding l zip3_map by (simp add: split_def)
  finally show ?thesis using False by (simp add: neighbours_def)
qed (simp add: neighbours_def)

lemma neighbours_map: "neighbours (map f xs) = map (\<lambda>(a, x, b). (f a, f x, f b)) (neighbours xs)"
proof (cases "xs = []")
  case False
  then have "last (map f xs) # butlast (map f xs) = map f (last xs # butlast xs)" "tl (map f xs) @ [hd (map f xs)] = map f (tl xs @ [hd xs])"
    by (simp_all add: last_map map_butlast map_tl hd_map)
  then show ?thesis using False by (simp add: neighbours_def zip3_map del: list.map map_append)
qed (simp add: neighbours_def)

lemma ring_at:
  assumes "ring nxt prv (pre @ b # bs)" and "first = Some (hd (pre @ [b]))"
  shows "nxt b = (if bs = [] then first else Some (hd bs))" "bs \<noteq> [] \<Longrightarrow> Some (hd bs) \<noteq> first"
proof -
  have n: "nxt b = Some (hd (bs @ pre @ [b]))" using ring_next [OF assms(1)] .
  show "nxt b = (if bs = [] then first else Some (hd bs))" using n assms(2) by (cases bs) auto
  show "bs \<noteq> [] \<Longrightarrow> Some (hd bs) \<noteq> first" using ring_distinct [OF assms(1)] assms(2) by (cases pre; cases bs) auto
qed

lemma sum_orders_ok:
  assumes "ring (v_onext v) prv (pre @ b # bs)" and "first = Some (hd (pre @ [b]))" and "length (b # bs) \<le> fuel"
  shows "sum_orders fuel v first (Some b) q k = Inr (q + sum_list (map (v_qty v) (b # bs)), k + of_nat (length (b # bs)))"
  using assms
proof (induction bs arbitrary: pre b fuel q k)
  case Nil
  then show ?case using ring_at(1) [OF Nil.prems(1,2)] by (cases fuel) simp_all
next
  case (Cons c bs)
  obtain f where f: "fuel = Suc f" using Cons.prems(3) by (cases fuel) auto
  have "sum_orders f v first (Some c) (q + v_qty v b) (k + 1)
      = Inr (q + v_qty v b + sum_list (map (v_qty v) (c # bs)), k + 1 + of_nat (length (c # bs)))"
    by (rule Cons.IH [of "pre @ [b]"]) (use Cons.prems f in \<open>auto simp: hd_append\<close>)
  then show ?case using ring_at [OF Cons.prems(1,2)] f by (simp add: add_ac)
qed

definition view_order_text :: "book_view \<Rightarrow> nat \<Rightarrow> string" where
  "view_order_text v i = order_text (orderIdToString (v_oid v i)) (qtyToString (v_qty v i)) (id_text (v_oid v) (v_oprev v i))
     (id_text (v_oid v) (v_onext v i))"

lemma put_orders_ok:
  assumes "ring (v_onext v) prv (pre @ b # bs)" and "first = Some (hd (pre @ [b]))" and "length (b # bs) \<le> fuel"
  shows "put_orders fuel v d first (Some b) ss = Inr (ss @ (if d then concat (map (view_order_text v) (b # bs)) else []))"
  using assms
proof (induction bs arbitrary: pre b fuel ss)
  case Nil
  then show ?case using ring_at(1) [OF Nil.prems(1,2)] by (cases fuel) (simp_all add: view_order_text_def)
next
  case (Cons c bs)
  obtain f where f: "fuel = Suc f" using Cons.prems(3) by (cases fuel) auto
  have "put_orders f v d first (Some c) t = Inr (t @ (if d then concat (map (view_order_text v) (c # bs)) else []))" for t
    by (rule Cons.IH [of "pre @ [b]"]) (use Cons.prems f in \<open>auto simp: hd_append\<close>)
  then show ?case using ring_at [OF Cons.prems(1,2)] f by (simp add: view_order_text_def)
qed

section \<open>Levels and sides\<close>

definition view_level_text :: "book_view \<Rightarrow> bool \<Rightarrow> ptr \<Rightarrow> nat \<times> nat list \<Rightarrow> ptr \<Rightarrow> string" where
  "view_level_text v detailed p x q =
     level_text (priceToString (v_price v (fst x))) (price_text (v_price v) p) (price_text (v_price v) q)
       (qtyToString (sum_list (map (v_qty v) (snd x)))) (show_nat (length (snd x)))
     @ (if detailed then concat (map (view_order_text v) (snd x)) else '''')"

lemma me_view_links: "v_onext (me_view ob) = onext ob" "v_oprev (me_view ob) = oprev ob"
  "v_lnext (me_view ob) = lnext ob" "v_lprev (me_view ob) = lprev ob" "v_price (me_view ob) = lprice ob"
  by (auto simp: me_view_def onext_def oprev_def lnext_def lprev_def lprice_def)

lemma level_orders_bound:
  assumes "level_ok ob s n is"
  shows "length is \<le> v_orders (me_view ob)" "unat (of_nat (length is) :: u64) = length is"
proof -
  have "set is \<subseteq> {..<unat (store_size (order_pool ob))}" using assms by (auto simp: level_ok_def order_ok_def allocated_def)
  moreover have "distinct is" using assms ring_distinct by (auto simp: level_ok_def)
  ultimately have b: "length is \<le> unat (store_size (order_pool ob))" by (metis card_lessThan card_mono distinct_card finite_lessThan)
  then show "length is \<le> v_orders (me_view ob)" by (simp add: me_view_def)
  have "unat (store_size (order_pool ob)) < 2 ^ 64" using unsigned_less [of "store_size (order_pool ob)"] by simp
  with b show "unat (of_nat (length is) :: u64) = length is" by (simp add: unat_of_nat)
qed

lemma put_level_ok:
  assumes ok: "level_ok ob s n is" and s: "book_side s" and pq: "lprev ob n = Some p" "lnext ob n = Some q"
    and better: "chk \<Longrightarrow> better s lst (lprice ob n)"
  shows "put_level (me_view ob) d chk n s lst ss =
      Inr (ss @ view_level_text (me_view ob) d (lprev ob n) (n, is) (lnext ob n) @ newline, if chk then lprice ob n else lst)"
proof -
  obtain b bs where bs: "is = b # bs" using ok by (cases "is") (auto simp: level_ok_def)
  have r: "ring (v_onext (me_view ob)) (oprev ob) ([] @ b # bs)" using ok bs by (simp add: level_ok_def me_view_links)
  have first: "v_first (me_view ob) n = Some b" using ok bs by (simp add: level_ok_def me_view_def)
  have len: "length (b # bs) \<le> Suc (v_orders (me_view ob))" using level_orders_bound(1) [OF ok] bs by simp
  have k: "unat (of_nat (length (b # bs)) :: u64) = length (b # bs)" using level_orders_bound(2) [OF ok] bs by simp
  have "s = SELL \<and> lst \<ge> lprice ob n \<or> s = BUY \<and> lst \<le> lprice ob n \<longrightarrow> \<not> chk"
    using better by (auto simp: better_def split: if_splits)
  then show ?thesis
    unfolding put_level_def first
    using sum_orders_ok [OF r _ len, of "Some b" 0 0] put_orders_ok [OF r _ len, of "Some b" d] pq k
    by (simp add: me_view_links view_level_text_def price_text_def bs Let_def del: of_nat_Suc sum_orders.simps put_orders.simps)
qed

lemma put_side_ok:
  assumes "ring (lnext ob) (lprev ob) (map fst (pre @ x # xs))" and "first = Some (fst (hd (pre @ [x])))"
    and "\<And>n is. (n, is) \<in> set (x # xs) \<Longrightarrow> level_ok ob s n is" and "book_side s"
    and "sorted_wrt (better s) (map (lprice ob \<circ> fst) (x # xs))" and "chk \<Longrightarrow> better s lst (lprice ob (fst x))"
    and "length (x # xs) \<le> fuel"
  shows "put_side fuel (me_view ob) d chk name s first (Some (fst x)) cnt lst ss =
     Inr (ss @ numbered name cnt (map (\<lambda>y. view_level_text (me_view ob) d (lprev ob (fst y)) y (lnext ob (fst y))) (x # xs)))"
  using assms
proof (induction xs arbitrary: pre x fuel cnt lst ss)
  case (Nil pre x)
  obtain f where f: "fuel = Suc f" using Nil.prems(7) by (cases fuel) auto
  obtain p q where pq: "lprev ob (fst x) = Some p" "lnext ob (fst x) = Some q"
    using ring_member_Some [OF Nil.prems(1), of "fst x"] by auto
  have ok: "level_ok ob s (fst x) (snd x)" using Nil.prems(3) [of "fst x" "snd x"] by simp
  have "lnext ob (fst x) = first" using ring_at(1) [of "lnext ob" "lprev ob" "map fst pre" "fst x" "[]" first] Nil.prems(1,2)
    by (cases pre) simp_all
  then show ?case using put_level_ok [OF ok Nil.prems(4) pq] Nil.prems(6) f by (simp add: me_view_links Let_def)
next
  case (Cons y xs)
  obtain f where f: "fuel = Suc f" using Cons.prems(7) by (cases fuel) auto
  obtain p q where pq: "lprev ob (fst x) = Some p" "lnext ob (fst x) = Some q"
    using ring_member_Some [OF Cons.prems(1), of "fst x"] by auto
  have ok: "level_ok ob s (fst x) (snd x)" using Cons.prems(3) [of "fst x" "snd x"] by simp
  have n: "lnext ob (fst x) = Some (fst y)" "Some (fst y) \<noteq> first"
    using ring_at [of "lnext ob" "lprev ob" "map fst pre" "fst x" "map fst (y # xs)" first] Cons.prems(1,2)
    by (cases pre; simp)+
  have "put_side f (me_view ob) d chk name s first (Some (fst y)) (cnt + 1) lst' ss' =
      Inr (ss' @ numbered name (cnt + 1) (map (\<lambda>y. view_level_text (me_view ob) d (lprev ob (fst y)) y (lnext ob (fst y))) (y # xs)))"
    if "chk \<Longrightarrow> better s lst' (lprice ob (fst y))" for lst' ss'
  proof (rule Cons.IH [of "pre @ [x]"])
    show "ring (lnext ob) (lprev ob) (map fst ((pre @ [x]) @ y # xs))" using Cons.prems(1) by simp
    show "first = Some (fst (hd ((pre @ [x]) @ [y])))" using Cons.prems(2) by (cases pre) simp_all
  qed (use Cons.prems(3-7) f that in auto)
  moreover have "better s (lprice ob (fst x)) (lprice ob (fst y))" using Cons.prems(5) by simp
  ultimately show ?case
    using put_level_ok [OF ok Cons.prems(4) pq] Cons.prems(6) f n by (simp add: me_view_links Let_def)
qed

section \<open>The text of a book\<close>

lemma neighbours_in:
  assumes "(a, x, b) \<in> set (neighbours xs)"
  shows "a \<in> set xs \<and> x \<in> set xs \<and> b \<in> set xs"
proof -
  have ne: "xs \<noteq> []" and z: "(a, x, b) \<in> set (zip (last xs # butlast xs) (zip xs (tl xs @ [hd xs])))"
    using assms by (auto simp: neighbours_def split: if_splits)
  have "a \<in> set (last xs # butlast xs)" "(x, b) \<in> set (zip xs (tl xs @ [hd xs]))"
    using set_zip_leftD [OF z] set_zip_rightD [OF z] by blast+
  moreover from this(2) have "x \<in> set xs" "b \<in> set (tl xs @ [hd xs])" using set_zip_leftD set_zip_rightD by fast+
  ultimately show ?thesis using ne by (auto dest: in_set_butlastD list.set_sel(2))
qed

lemma me_view_data: "v_oid (me_view ob) = (\<lambda>i. o_market_order_id (ord ob i))" "v_qty (me_view ob) = (\<lambda>i. o_qty (ord ob i))"
  by (simp_all add: me_view_def)

lemma price_groups_append:
  assumes "g \<noteq> []" and "\<And>x. x \<in> set g \<Longrightarrow> o_price x = p" and "ys \<noteq> [] \<Longrightarrow> o_price (hd ys) \<noteq> p"
  shows "price_groups (g @ ys) = g # price_groups ys"
proof -
  obtain x xs where g: "g = x # xs" using assms(1) by (cases g) auto
  have all: "\<forall>y \<in> set xs. o_price y = o_price x" using assms(2) g by simp
  have "takeWhile (\<lambda>y. o_price y = o_price x) ys = [] \<and> dropWhile (\<lambda>y. o_price y = o_price x) ys = ys"
    using assms(2,3) g by (cases ys) auto
  then show ?thesis using all g by (simp add: takeWhile_append2 dropWhile_append2)
qed

lemma level_prices:
  assumes "level_ok ob s n is"
  shows "is \<noteq> []" "i \<in> set is \<Longrightarrow> o_price (erase (ord ob i)) = lprice ob n"
  using assms by (auto simp: level_ok_def order_ok_def erase_def)

lemma price_groups_shape:
  assumes "\<forall>(n, is) \<in> set xs. level_ok ob s n is" and "sorted_wrt (better s) (map (lprice ob \<circ> fst) xs)"
  shows "price_groups (map (\<lambda>i. erase (ord ob i)) (concat (map snd xs))) = map (\<lambda>x. map (\<lambda>i. erase (ord ob i)) (snd x)) xs"
  using assms
proof (induction xs)
  case (Cons x xs)
  let ?h = "\<lambda>i. erase (ord ob i)"
  have ok: "level_ok ob s (fst x) (snd x)" using Cons.prems(1) by (auto simp: split_def)
  have "price_groups (map ?h (snd x) @ map ?h (concat (map snd xs))) = map ?h (snd x) # price_groups (map ?h (concat (map snd xs)))"
  proof (rule price_groups_append [where p = "lprice ob (fst x)"])
    assume "map ?h (concat (map snd xs)) \<noteq> []"
    then have "hd (map ?h (concat (map snd xs))) \<in> set (map ?h (concat (map snd xs)))" by (rule hd_in_set)
    then obtain y i where y: "y \<in> set xs" "i \<in> set (snd y)" "hd (map ?h (concat (map snd xs))) = ?h i" by auto
    have "level_ok ob s (fst y) (snd y)" using Cons.prems(1) y(1) by (auto simp: split_def)
    moreover have "better s (lprice ob (fst x)) (lprice ob (fst y))" using Cons.prems(2) y(1) by simp
    ultimately show "o_price (hd (map ?h (concat (map snd xs)))) \<noteq> lprice ob (fst x)"
      using level_prices(2) [of ob s "fst y" "snd y" i] y(2,3) by (auto simp: better_def split: if_splits)
  qed (use level_prices [OF ok] in auto)
  then show ?case using Cons by simp
qed simp

lemma order_texts:
  assumes "level_ok ob s n is"
  shows "map (view_order_text (me_view ob)) is = map spec_order_text (neighbours (map (\<lambda>i. erase (ord ob i)) is))"
proof -
  have "ring (onext ob) (oprev ob) (map (\<lambda>i. i) is)" using assms by (simp add: level_ok_def)
  from ring_neighbours [OF this, of "\<lambda>p i q. order_text (orderIdToString (o_market_order_id (ord ob i))) (qtyToString (o_qty (ord ob i)))
      (id_text (\<lambda>i. o_market_order_id (ord ob i)) p) (id_text (\<lambda>i. o_market_order_id (ord ob i)) q)"]
  show ?thesis
    unfolding neighbours_map map_map view_order_text_def [abs_def] me_view_data me_view_links
    by (simp add: spec_order_text_def id_text_def erase_def split_def comp_def)
qed

lemma level_texts:
  assumes "\<And>n is. (n, is) \<in> {a, x, b} \<Longrightarrow> level_ok ob s n is"
  shows "view_level_text (me_view ob) d (Some (fst a)) x (Some (fst b))
     = spec_level_text d (map (\<lambda>i. erase (ord ob i)) (snd a), map (\<lambda>i. erase (ord ob i)) (snd x), map (\<lambda>i. erase (ord ob i)) (snd b))"
proof -
  have ok: "level_ok ob s (fst y) (snd y)" if "y \<in> {a, x, b}" for y using assms [of "fst y" "snd y"] that by simp
  have p: "o_price (hd (map (\<lambda>i. erase (ord ob i)) (snd y))) = lprice ob (fst y)" if "y \<in> {a, x, b}" for y
    using level_prices [OF ok [OF that]] by (cases "snd y") auto
  have q: "map (v_qty (me_view ob)) (snd x) = map o_qty (map (\<lambda>i. erase (ord ob i)) (snd x))"
    by (simp add: me_view_def erase_def)
  show ?thesis
    unfolding view_level_text_def spec_level_text_def order_texts [OF ok [of x, simplified]] q
    using p by (simp add: me_view_links price_text_def)
qed

lemma put_side_text:
  assumes ok: "book_ok ob sh" and s: "book_side s" and lst: "\<And>x. chk \<Longrightarrow> x \<in> set (side_orders ob sh s) \<Longrightarrow> better s lst (o_price x)"
  shows "put_side (v_levels (me_view ob)) (me_view ob) d chk name s (best s ob) (best s ob) cnt lst ss =
     Inr (ss @ numbered name cnt (map (spec_level_text d) (neighbours (price_groups (side_orders ob sh s)))))"
proof -
  let ?h = "\<lambda>i. erase (ord ob i)" and ?v = "me_view ob"
  have sd: "ring (lnext ob) (lprev ob) (map fst (sh s))" "best s ob = head_ptr (map fst (sh s))"
    "\<forall>(n, is) \<in> set (sh s). level_ok ob s n is" "sorted_wrt (better s) (map (lprice ob \<circ> fst) (sh s))"
    using book_ok_side [OF ok s] by (simp_all add: side_ok_def)
  have lv: "(n, is) \<in> set (sh s) \<Longrightarrow> level_ok ob s n is" for n "is" using sd(3) by auto
  have g: "price_groups (side_orders ob sh s) = map (\<lambda>x. map ?h (snd x)) (sh s)"
    unfolding side_orders_def by (rule price_groups_shape [OF sd(3,4)])
  have "map (\<lambda>x. view_level_text ?v d (lprev ob (fst x)) x (lnext ob (fst x))) (sh s)
      = map (\<lambda>(a, x, b). view_level_text ?v d (Some (fst a)) x (Some (fst b))) (neighbours (sh s))"
    by (rule ring_neighbours [OF sd(1), of "view_level_text ?v d"])
  also have "\<dots> = map (\<lambda>(a, x, b). spec_level_text d (map ?h (snd a), map ?h (snd x), map ?h (snd b))) (neighbours (sh s))"
  proof (intro map_cong refl, clarify)
    fix m js n "is" k ks assume "((m, js), (n, is), k, ks) \<in> set (neighbours (sh s))"
    from neighbours_in [OF this] show "view_level_text ?v d (Some (fst (m, js))) (n, is) (Some (fst (k, ks)))
      = spec_level_text d (map ?h (snd (m, js)), map ?h (snd (n, is)), map ?h (snd (k, ks)))"
      by (intro level_texts [where s = s]) (auto intro: lv)
  qed
  also have "\<dots> = map (spec_level_text d) (neighbours (price_groups (side_orders ob sh s)))"
    unfolding g neighbours_map by (simp add: split_def comp_def)
  finally have t: "map (\<lambda>x. view_level_text ?v d (lprev ob (fst x)) x (lnext ob (fst x))) (sh s)
    = map (spec_level_text d) (neighbours (price_groups (side_orders ob sh s)))" .
  show ?thesis
  proof (cases "sh s")
    case Nil
    then show ?thesis using sd(2) t by simp
  next
    case (Cons x xs)
    have "set (map fst (sh s)) \<subseteq> {..<unat (store_size (orders_at_price_pool ob))}"
      using lv by (auto simp: level_ok_def allocated_def)
    then have "card (set (map fst (sh s))) \<le> card {..<unat (store_size (orders_at_price_pool ob))}" by (intro card_mono) simp_all
    then have len: "length (x # xs) \<le> v_levels ?v"
      unfolding distinct_card [OF ring_distinct [OF sd(1)]] using Cons by (simp add: me_view_def)
    have okx: "level_ok ob s (fst x) (snd x)" using lv [of "fst x" "snd x"] Cons by simp
    obtain i where i: "i \<in> set (snd x)" using level_prices(1) [OF okx] by (cases "snd x") auto
    then have "?h i \<in> set (side_orders ob sh s)" "o_price (?h i) = lprice ob (fst x)"
      using Cons level_prices(2) [OF okx] by (auto simp: side_orders_def)
    then have b: "chk \<Longrightarrow> better s lst (lprice ob (fst x))" using lst [of "?h i"] by simp
    have "put_side (v_levels ?v) ?v d chk name s (Some (fst x)) (Some (fst x)) cnt lst ss = Inr (ss @ numbered name cnt
        (map (\<lambda>y. view_level_text ?v d (lprev ob (fst y)) y (lnext ob (fst y))) (x # xs)))"
      by (rule put_side_ok [where pre = "[]" and s = s]) (use sd Cons lv s b len in auto)
    then show ?thesis unfolding t [symmetric] using sd(2) Cons by simp
  qed
qed


lemma best_sides: "best SELL ob = asks_by_price ob" "best BUY ob = bids_by_price ob"
  by (simp_all add: best_def)

lemma mk_view_embed: "mk_view mb = me_view (embed mb)"
  by (simp add: mk_view_def me_view_def)

text \<open>Prices for which the first comparison of the check succeeds.\<close>

definition printable :: "spec_book \<Rightarrow> bool" where
  "printable bk \<longleftrightarrow> list_all (\<lambda>x. Price_min < o_price x) (bk SELL) \<and> list_all (\<lambda>x. o_price x < Price_max) (bk BUY)"

lemma book_toString_text:
  assumes "represents ob bk" and "chk \<Longrightarrow> printable bk"
  shows "book_toString (me_view ob) d chk tid (bids_by_price ob) (asks_by_price ob) = Inr (book_text d tid bk)"
proof -
  obtain sh where ok: "book_ok ob sh" and so: "\<And>s. book_side s \<Longrightarrow> side_orders ob sh s = bk s"
    using assms(1) by (auto simp: represents_def)
  have "put_side (v_levels (me_view ob)) (me_view ob) d chk name SELL (asks_by_price ob) (asks_by_price ob) cnt Price_min ss
      = Inr (ss @ numbered name cnt (map (spec_level_text d) (neighbours (price_groups (bk SELL)))))" for name cnt ss
    using put_side_text [OF ok book_side_simps(2), of chk Price_min d name cnt ss] assms(2)
    by (auto simp: so best_sides better_def printable_def list_all_iff)
  moreover have "put_side (v_levels (me_view ob)) (me_view ob) d chk name BUY (bids_by_price ob) (bids_by_price ob) cnt Price_max ss
      = Inr (ss @ numbered name cnt (map (spec_level_text d) (neighbours (price_groups (bk BUY)))))" for name cnt ss
    using put_side_text [OF ok book_side_simps(1), of chk Price_max d name cnt ss] assms(2)
    by (auto simp: so best_sides better_def printable_def list_all_iff)
  ultimately show ?thesis by (simp add: book_toString_def book_text_def Let_def)
qed


text \<open>The text only shows what is public.\<close>

lemma price_groups_map:
  "(\<And>x. o_price (f x) = o_price x) \<Longrightarrow> price_groups (map f xs) = map (map f) (price_groups xs)"
  by (induction xs rule: price_groups.induct) (simp_all add: takeWhile_map dropWhile_map comp_def)

lemma price_groups_nonempty: "g \<in> set (price_groups xs) \<Longrightarrow> g \<noteq> []"
  by (induction xs rule: price_groups.induct) auto

lemma public_fields [simp]:
  "o_price (public_order x) = o_price x" "o_qty (public_order x) = o_qty x" "o_market_order_id (public_order x) = o_market_order_id x"
  by (simp_all add: public_order_def)

lemma public_level_texts:
  "map (spec_level_text d) (neighbours (price_groups (map public_order xs))) = map (spec_level_text d) (neighbours (price_groups xs))"
proof -
  have h: "g \<in> set (price_groups xs) \<Longrightarrow> hd (map public_order g) = public_order (hd g)" for g
    using price_groups_nonempty [of g xs] by (simp add: hd_map)
  have q: "map o_qty (map public_order g) = map o_qty g" for g by simp
  have t: "map spec_order_text (neighbours (map public_order g)) = map spec_order_text (neighbours g)" for g
    by (simp add: neighbours_map spec_order_text_def split_def)
  show ?thesis
    unfolding price_groups_map [of public_order, simplified] neighbours_map map_map
    by (intro map_cong refl) (auto dest!: neighbours_in simp only: spec_level_text_def h q t public_fields length_map split_def fst_conv snd_conv o_apply)
qed

lemma book_text_public: "book_text d tid (public_book bk) = book_text d tid bk"
  by (simp only: book_text_def public_book_def public_level_texts)


text \<open>So the destructors of such books return.\<close>

lemma destroy_returns:
  assumes "printable bk"
  shows "represents ob bk \<Longrightarrow> \<exists>ob'. MEOrderBook_destroy ob = Inr (book_text False (ob_ticker_id ob) bk, ob')"
    and "represents (embed mb) (public_book bk) \<Longrightarrow> \<exists>mb'. MarketOrderBook_destroy mb = Inr (book_text False (mk_ticker_id mb) bk, mb')"
proof -
  have p: "printable (public_book bk)" using assms by (simp add: printable_def public_book_def list_all_iff)
  show "represents ob bk \<Longrightarrow> \<exists>ob'. MEOrderBook_destroy ob = Inr (book_text False (ob_ticker_id ob) bk, ob')"
    using book_toString_text [of ob bk True] assms by (simp add: MEOrderBook_destroy_def MEOrderBook_toString_def)
  show "represents (embed mb) (public_book bk) \<Longrightarrow> \<exists>mb'. MarketOrderBook_destroy mb = Inr (book_text False (mk_ticker_id mb) bk, mb')"
    using book_toString_text [of "embed mb" "public_book bk" True] p
    by (simp add: MarketOrderBook_destroy_def MarketOrderBook_toString_def mk_view_embed book_text_public)
qed


section \<open>Properties\<close>

text \<open>\<open>toString\<close> of the exchange's book ends on every book that represents an abstract one, its check of the prices
  included, and prints the orders of the abstract book, level by level from the best price on; the check only fails when
  an order to sell has the least or an order to buy the greatest 64 bit price.\<close>

theorem book_prints:
  assumes "represents ob bk"
  shows "MEOrderBook_toString detailed False ob = Inr (book_text detailed (ob_ticker_id ob) bk)
    \<and> (printable bk \<longrightarrow> MEOrderBook_toString detailed True ob = Inr (book_text detailed (ob_ticker_id ob) bk))"
  using book_toString_text [OF assms] by (simp add: MEOrderBook_toString_def)

theorem book_prints_witness:
  "MEOrderBook_toString True True demo_book = Inr (book_text True 0 demo_spec)"
  using book_prints [OF demo_represents, of True]
  by (simp add: printable_def demo_SELL demo_BUY demo_order_def erase_def Price_min_def Price_max_def) (simp add: demo_book_def)

text \<open>C37: a market order book that mirrors the exchange's book prints the same text as the exchange's book, up to the
  ticker, and passes its check of the prices when the exchange's book does.\<close>

theorem mirrored_books_print_alike:
  assumes "represents ob bk" and "represents (embed mb) (public_book bk)" and "validity_check \<longrightarrow> printable bk"
  shows "MEOrderBook_toString detailed validity_check ob = Inr (book_text detailed (ob_ticker_id ob) bk)
    \<and> MarketOrderBook_toString detailed validity_check mb = Inr (book_text detailed (mk_ticker_id mb) bk)"
proof -
  have "printable (public_book bk) = printable bk" by (simp add: printable_def public_book_def list_all_iff)
  then show ?thesis
    using book_toString_text [OF assms(1), of validity_check] book_toString_text [OF assms(2), of validity_check] assms(3)
    by (simp add: MEOrderBook_toString_def MarketOrderBook_toString_def mk_view_embed book_text_public)
qed

theorem mirrored_books_print_alike_witness:
  "\<exists>mb. represents (embed mb) (public_book demo_spec)
    \<and> MarketOrderBook_toString True True mb = Inr (book_text True (mk_ticker_id mb) demo_spec)"
proof -
  obtain mb where mb: "represents (embed mb) (public_book demo_spec)" using demo_market by blast
  have "printable demo_spec"
    by (simp add: printable_def demo_SELL demo_BUY demo_order_def erase_def Price_min_def Price_max_def)
  then show ?thesis using mirrored_books_print_alike [OF demo_represents mb, of True True] mb by blast
qed

end
