(* ===== verification/Reports.thy ===== *)
theory Reports
  imports Trade_Engine_Props Logging
begin

text \<open>
  What the trading process reports of itself: the texts of the risk limits and the positions (types.h, position_keeper.h,
  risk_manager.h), of the time (time_utils.h), and the stop of the trade engine, which waits for its queues and
  reports the positions. \<open>show_double\<close> is the text that an output stream gives a floating point number.
\<close>

section \<open>The time\<close>

text \<open>
  \<open>ctime_text\<close> is \<^verbatim>\<open>ctime\<close>, a text of 25 characters with the time of the day at 11 to 18. The clock shows a number of
  nanoseconds that is not negative; the quotient truncates. \<^verbatim>\<open>snprintf\<close> writes at most 23 characters.
\<close>

definition pad_zeros :: "nat \<Rightarrow> string \<Rightarrow> string" where
  "pad_zeros n s = replicate (n - length s) (CHR ''0'') @ s"

definition getCurrentTimeStr :: "(nat \<Rightarrow> string) \<Rightarrow> nat \<Rightarrow> string" where
  "getCurrentTimeStr ctime_text clock =
     take 23 (take 8 (drop 11 (ctime_text (clock div nat NANOS_TO_SECS))) @ ''.'' @ pad_zeros 9 (show_nat (clock mod nat NANOS_TO_SECS)))"

lemma show_nat_length: "n < 10 ^ k \<Longrightarrow> 0 < k \<Longrightarrow> length (show_nat n) \<le> k"
proof (induction k arbitrary: n)
  case (Suc k)
  show ?case
  proof (cases "n < 10")
    case True
    then show ?thesis by (simp add: show_nat.simps [of n])
  next
    case False
    then have "0 < k" using Suc.prems(1) by (cases k) auto
    moreover have "n div 10 < 10 ^ k" using Suc.prems(1) by (simp add: div_less_iff_less_mult mult.commute)
    ultimately show ?thesis using Suc.IH [of "n div 10"] False by (simp add: show_nat.simps [of n])
  qed
qed simp

lemma read_digits_zeros: "read_digits (replicate k (CHR ''0'') @ s) = read_digits s"
proof -
  have "foldl (\<lambda>acc c. 10 * acc + (of_char c - 48)) (0 :: nat) (replicate k (CHR ''0'')) = 0" by (induction k) simp_all
  then show ?thesis by (simp add: read_digits_def)
qed

text \<open>The text has 18 characters, and its last nine are the nanoseconds within the second.\<close>

lemma time_text_exact:
  assumes "\<And>t. length (ctime_text t) = 25"
  shows "length (getCurrentTimeStr ctime_text clock) = 18
    \<and> take 8 (getCurrentTimeStr ctime_text clock) = take 8 (drop 11 (ctime_text (clock div 10 ^ 9)))
    \<and> read_digits (drop 9 (getCurrentTimeStr ctime_text clock)) = clock mod 10 ^ 9"
proof -
  have e: "nat NANOS_TO_SECS = 10 ^ 9"
    by (simp add: NANOS_TO_SECS_def NANOS_TO_MILLIS_def NANOS_TO_MICROS_def MICROS_TO_MILLIS_def MILLIS_TO_SECS_def)
  have "clock mod 10 ^ 9 < 10 ^ 9" by simp
  then have l: "length (show_nat (clock mod 10 ^ 9)) \<le> 9" by (rule show_nat_length) simp
  then have p: "length (pad_zeros 9 (show_nat (clock mod 10 ^ 9))) = 9" by (simp add: pad_zeros_def)
  have r: "read_digits (pad_zeros 9 (show_nat n)) = n" for n by (simp add: pad_zeros_def read_digits_zeros read_digits_show)
  show ?thesis using p r assms unfolding getCurrentTimeStr_def e by (simp add: read_digits_def)
qed


section \<open>Limits and positions\<close>

definition RiskCfg_toString :: "(real \<Rightarrow> string) \<Rightarrow> RiskCfg \<Rightarrow> string" where
  "RiskCfg_toString show_double c =
     ''RiskCfg{max-order-size:'' @ qtyToString (max_order_size c) @ '' max-position:'' @ qtyToString (max_position c)
     @ '' max-loss:'' @ show_double (max_loss c) @ ''}''"

definition TradeEngineCfg_toString :: "(real \<Rightarrow> string) \<Rightarrow> TradeEngineCfg \<Rightarrow> string" where
  "TradeEngineCfg_toString show_double c =
     ''TradeEngineCfg{clip:'' @ qtyToString (clip c) @ '' thresh:'' @ show_double (threshold c)
     @ '' risk:'' @ RiskCfg_toString show_double (risk_cfg c) @ ''}''"

text \<open>The average open price of a side; \<^verbatim>\<open>std::abs\<close> of the smallest \<^verbatim>\<open>int\<close> is undefined.\<close>

definition average_open :: "Side \<Rightarrow> PositionInfo \<Rightarrow> real res" where
  "average_open side info =
     (if position info \<noteq> 0 then
        bindE (side_get side (open_vwap info)) (\<lambda>v. bindE (int32 \<bar>sint (position info)\<bar>) (\<lambda>a. Inr (v / real_of_int a)))
      else Inr 0)"

text \<open>\<open>bbos\<close> holds the best bids and offers that the pointers show, by the number of their book.\<close>

definition PositionInfo_toString :: "(real \<Rightarrow> string) \<Rightarrow> (nat \<Rightarrow> BBO) \<Rightarrow> PositionInfo \<Rightarrow> string res" where
  "PositionInfo_toString show_double bbos info =
     bindE (average_open BUY info) (\<lambda>buy. bindE (average_open SELL info) (\<lambda>sell.
     Inr (''Position{pos:'' @ show_int (sint (position info)) @ '' u-pnl:'' @ show_double (unreal_pnl info)
       @ '' r-pnl:'' @ show_double (real_pnl info) @ '' t-pnl:'' @ show_double (total_pnl info)
       @ '' vol:'' @ qtyToString (volume info) @ '' vwaps:['' @ show_double buy @ ''X'' @ show_double sell @ ''] ''
       @ (case pi_bbo info of Some b \<Rightarrow> BBO_toString (bbos b) | None \<Rightarrow> '''') @ ''}'')))"

text \<open>The line of a ticker; the sum of the volumes wraps.\<close>

definition put_position ::
  "(real \<Rightarrow> string) \<Rightarrow> (nat \<Rightarrow> BBO) \<Rightarrow> PositionKeeper \<Rightarrow> nat \<Rightarrow> string \<times> real \<times> Qty \<Rightarrow> (string \<times> real \<times> Qty) res" where
  "put_position show_double bbos pk i = (\<lambda>(ss, total_pnl', total_vol).
     bindE (PositionInfo_toString show_double bbos (pk i)) (\<lambda>s.
     Inr (ss @ ''TickerId:'' @ tickerIdToString (of_nat i) @ '' '' @ s @ [CHR 0x0A],
          total_pnl' + total_pnl (pk i), total_vol + volume (pk i))))"

definition PositionKeeper_toString :: "(real \<Rightarrow> string) \<Rightarrow> (nat \<Rightarrow> BBO) \<Rightarrow> PositionKeeper \<Rightarrow> string res" where
  "PositionKeeper_toString show_double bbos pk =
     bindE (foldE (put_position show_double bbos pk) [0..<ME_MAX_TICKERS] ('''', 0, 0)) (\<lambda>(ss, total_pnl, total_vol).
     Inr (ss @ ''Total PnL:'' @ show_double total_pnl @ '' Vol:'' @ show_nat (unat total_vol) @ [CHR 0x0A]))"

definition RiskInfo_toString :: "(real \<Rightarrow> string) \<Rightarrow> (nat \<Rightarrow> BBO) \<Rightarrow> PositionKeeper \<Rightarrow> RiskInfo \<Rightarrow> string res" where
  "RiskInfo_toString show_double bbos pk ri =
     bindE (deref (ri_position_info ri)) (\<lambda>i.
     bindE (PositionInfo_toString show_double bbos (pk i)) (\<lambda>s.
     Inr (''RiskInfo[pos:'' @ s @ '' '' @ RiskCfg_toString show_double (ri_risk_cfg ri) @ '']'')))"

text \<open>All texts exist as long as no position is the smallest \<^verbatim>\<open>int\<close>.\<close>

lemma PositionInfo_toString_returns:
  assumes "\<bar>sint (position info)\<bar> < 2 ^ 31"
  shows "\<exists>s. PositionInfo_toString show_double bbos info = Inr s"
  using assms by (simp add: PositionInfo_toString_def average_open_def)

text \<open>The report: a line for each ticker, and the sums.\<close>

definition position_line :: "(real \<Rightarrow> string) \<Rightarrow> (nat \<Rightarrow> BBO) \<Rightarrow> PositionKeeper \<Rightarrow> nat \<Rightarrow> string" where
  "position_line show_double bbos pk i =
     ''TickerId:'' @ tickerIdToString (of_nat i) @ '' '' @ projr (PositionInfo_toString show_double bbos (pk i)) @ [CHR 0x0A]"

lemma put_positions:
  assumes "\<forall>i \<in> set xs. \<bar>sint (position (pk i))\<bar> < 2 ^ 31"
  shows "foldE (put_position show_double bbos pk) xs (ss, p, v) =
    Inr (ss @ concat (map (position_line show_double bbos pk) xs), p + (\<Sum>i\<leftarrow>xs. total_pnl (pk i)), v + (\<Sum>i\<leftarrow>xs. volume (pk i)))"
  using assms
proof (induction xs arbitrary: ss p v)
  case (Cons i xs)
  obtain s where "PositionInfo_toString show_double bbos (pk i) = Inr s"
    using PositionInfo_toString_returns [of "pk i" show_double bbos] Cons.prems by auto
  then show ?case using Cons by (simp add: put_position_def position_line_def add.assoc)
qed simp

lemma PositionKeeper_toString_ok:
  assumes "\<forall>i < ME_MAX_TICKERS. \<bar>sint (position (pk i))\<bar> < 2 ^ 31"
  shows "PositionKeeper_toString show_double bbos pk = Inr (concat (map (position_line show_double bbos pk) [0..<ME_MAX_TICKERS])
    @ ''Total PnL:'' @ show_double (\<Sum>i\<leftarrow>[0..<ME_MAX_TICKERS]. total_pnl (pk i))
    @ '' Vol:'' @ show_nat (unat (\<Sum>i\<leftarrow>[0..<ME_MAX_TICKERS]. volume (pk i))) @ [CHR 0x0A])"
  using assms put_positions [of "[0..<ME_MAX_TICKERS]" pk] by (simp add: PositionKeeper_toString_def)


section \<open>Stopping the trade engine\<close>

text \<open>
  \<open>stop\<close> yields while responses or updates wait; meanwhile the engine's thread goes on, here by one round for each
  yield. \<open>fuel\<close> bounds the number of yields; out of fuel is no result. The result is the report of the positions.
\<close>

fun te_stop :: "nat \<Rightarrow> (real \<Rightarrow> string) \<Rightarrow> TradeEngine \<Rightarrow> (string \<times> TradeEngine) res option" where
  "te_stop fuel show_double te =
     (if lfq_size (te_responses te) \<noteq> 0 \<or> lfq_size (te_updates te) \<noteq> 0 then
        case fuel of 0 \<Rightarrow> None
        | Suc n \<Rightarrow> (case te_round te of Inl e \<Rightarrow> Some (Inl e) | Inr te \<Rightarrow> te_stop n show_double te)
      else Some (bindE (PositionKeeper_toString show_double (\<lambda>b. mk_bbo (te_books te b)) (te_positions te)) (\<lambda>s. Inr (s, te))))"

declare te_stop.simps [simp del]

lemma size_zero: "lfq_ok q \<Longrightarrow> lfq_size q = 0 \<longleftrightarrow> contents q = []"
  using lfq_size_ok [of q] by (metis length_0_conv unat_eq_zero)

lemma round_drains:
  assumes "lfq_ok (te_responses te)" and "lfq_ok (te_updates te)" and "lfq_ok (te_requests te)" and "om_sent (te_orders te) = []"
    and "te_round te = Inr te'"
  shows "lfq_ok (te_responses te') \<and> contents (te_responses te') = [] \<and> lfq_ok (te_updates te') \<and> contents (te_updates te') = []"
proof -
  obtain te1 where te1: "foldE te_on_response (contents (te_responses te)) te = Inr te1"
    "foldE te_on_update (contents (te_updates te)) te1 = Inr te'"
    using assms(5) te_round_fold [OF assms(1-4)] by (auto simp: bindE_eq_Inr)
  obtain qs where a: "served qs te te1" "te_updates te1 = te_updates te" using responses_run [OF te1(1) assms(3,4)] by blast
  have q: "lfq_ok (te_requests te1)" "om_sent (te_orders te1) = []" using a(1) by (simp_all add: served_def)
  have "te_responses te' = te_responses te1" using updates_run [OF te1(2) q] by blast
  with drained [OF response_consumes assms(1) te1(1)] drained [OF update_consumes, of te1 te'] te1(2) a(2) assms(2)
  show ?thesis by simp
qed

lemma stop_when_empty:
  assumes "lfq_ok (te_responses te)" "contents (te_responses te) = []" "lfq_ok (te_updates te)" "contents (te_updates te) = []"
    and "\<forall>i < ME_MAX_TICKERS. \<bar>sint (position (te_positions te i))\<bar> < 2 ^ 31"
  shows "te_stop fuel show_double te = Some (Inr (
      concat (map (position_line show_double (\<lambda>b. mk_bbo (te_books te b)) (te_positions te)) [0..<ME_MAX_TICKERS])
      @ ''Total PnL:'' @ show_double (\<Sum>i\<leftarrow>[0..<ME_MAX_TICKERS]. total_pnl (te_positions te i))
      @ '' Vol:'' @ show_nat (unat (\<Sum>i\<leftarrow>[0..<ME_MAX_TICKERS]. volume (te_positions te i))) @ [CHR 0x0A], te))"
  using assms PositionKeeper_toString_ok [OF assms(5)] by (subst te_stop.simps) (simp add: size_zero)

text \<open>When nothing new arrives, stopping takes at most one round of the thread, and reports the positions after it.\<close>

lemma stop_reports:
  assumes "lfq_ok (te_responses te)" and "lfq_ok (te_updates te)" and "lfq_ok (te_requests te)" and "om_sent (te_orders te) = []"
    and "contents (te_responses te) \<noteq> [] \<or> contents (te_updates te) \<noteq> []"
    and "te_round te = Inr te'" and "\<forall>i < ME_MAX_TICKERS. \<bar>sint (position (te_positions te' i))\<bar> < 2 ^ 31"
  shows "te_stop (Suc fuel) show_double te = Some (Inr (
      concat (map (position_line show_double (\<lambda>b. mk_bbo (te_books te' b)) (te_positions te')) [0..<ME_MAX_TICKERS])
      @ ''Total PnL:'' @ show_double (\<Sum>i\<leftarrow>[0..<ME_MAX_TICKERS]. total_pnl (te_positions te' i))
      @ '' Vol:'' @ show_nat (unat (\<Sum>i\<leftarrow>[0..<ME_MAX_TICKERS]. volume (te_positions te' i))) @ [CHR 0x0A], te'))"
proof -
  note d = round_drains [OF assms(1-4,6)]
  have "te_stop (Suc fuel) show_double te = te_stop fuel show_double te'"
    using assms(1,2,5,6) by (subst te_stop.simps) (auto simp: size_zero)
  then show ?thesis using stop_when_empty [of te' fuel show_double] d assms(7) by simp
qed

end
