(* ===== verification/Spec2Isabelle.thy ===== *)
theory Spec2Isabelle
  imports LFQueue_Threads Processes Nanosecond_Timer Performance_Dashboard Book_Printing Reports
begin

text \<open>
  \<^bold>\<open>Verification of the exchange engine and its trading client.\<close>

  The repository holds two C++ programs. The exchange (directory \<^verbatim>\<open>Exchange Matching Engine /EXCHANGE\<close>) takes client requests
  over TCP, matches them in one limit order book per ticker, answers the clients and publishes market data over two
  multicast streams. The trading client (\<^verbatim>\<open>trading\<close>) rebuilds the books from the market data, runs a trading algorithm
  on them and sends requests. Both are pipelines of threads joined by lock free queues; the common parts are in
  \<^verbatim>\<open>Exchange Matching Engine /Common Files\<close>.

  The way of a request: trade engine, queue, order gateway, TCP, order server, FIFO sequencer, queue, matching engine,
  order book. The way of a response: matching engine, queue, order server, TCP, order gateway, queue, trade engine. The
  way of a market update: order book, queue, market data publisher, incremental multicast stream and, through another
  queue, the snapshot synthesizer with its snapshot stream; then the market data consumer, queue, trade engine and its
  market order book, features and positions.
\<close>

section \<open>How the code is modelled\<close>

text \<open>
  A class is a record with the members' names (with a prefix where two classes share one), an \<^verbatim>\<open>enum class\<close> a datatype, a
  member function a function from the old state to a result that holds the new one. A result is \<open>fault + 'a\<close> (theory
  Prelude): every null dereference, access outside an array, failed \<^verbatim>\<open>ASSERT\<close> or \<^verbatim>\<open>FATAL\<close>, exception out of a
  \<^verbatim>\<open>noexcept\<close> function, overlapping \<^verbatim>\<open>memcpy\<close> and signed overflow is a value \<open>Inl\<close> of it, and \<open>bindE\<close> runs one
  operation after the other. Unsigned integers are words of their width, so sums wrap as in the code; prices and other
  signed integers are integers whose arithmetic is checked where it can overflow. A pointer into a memory pool is the
  number of a block, \<open>None\<close> is null. Doubles are real numbers, with infinities and NaN where the code depends on them
  (theory Doubles); rounding is not modelled. Memory without initial value is an argument of the constructor.

  Calls from a component to its owner (the order book's responses and updates, the order manager's requests) are recorded
  in a list in the component's state and carried out by the owner after the operation; the components never read what
  such a call changes. What the kernel, the clock, the random generator or \<^verbatim>\<open>std::sort\<close> give is an argument; where a
  property needs their documented behaviour, it is a hypothesis with a name (\<open>takes_all\<close>, \<open>lawful_rng\<close>, \<open>documented\<close>, \<open>willing\<close>).
\<close>

section \<open>The theories\<close>

text \<open>
  \<^bold>\<open>Common parts.\<close>
  \<^item> Prelude, Types, Messages, Wire, Doubles: results and faults; types.h; the messages of client\_request.h,
    client\_response.h and market\_update.h with their texts; their bytes on the wire and the round trip.
  \<^item> LFQueue, LFQueue\_Threads, Queue\_Loop: lf\_queue.h as one thread sees it, as interleaved accesses of a producer and a
    consumer (an inductive step relation and its invariants), and the loop with which every thread empties a queue.
    Locale \<open>bounded_fifo\<close>, interpreted on the queue as \<open>lfq\<close>, is what all components use of it.
  \<^item> MemPool, Linked\_Rings: mem\_pool.h; circular doubly linked lists of pool blocks.
  \<^item> Socket\_Creation, Server\_Creation, Sockets: socket\_utils.h, tcp\_socket, mcast\_socket and tcp\_server: the system
    calls that make sockets (the kernel answers from the trace of the calls before), the buffers, the cutting of a byte
    stream into messages, accepting and serving connections.
  \<^item> Logging, Nanosecond\_Timer, Latency\_Tracker, Performance\_Dashboard: logging.h from format strings to the file;
    nanosecond\_timer.h; latency\_tracker.h as atomic accesses of many threads; performance\_dashboard.h.

  \<^bold>\<open>The exchange.\<close>
  \<^item> Order\_Book: me\_order and me\_order\_book with all pointers. Order\_Book\_Inv, Order\_Book\_Remove,
    Order\_Book\_Add: the shape of the pointers and that every operation keeps it. Order\_Book\_Spec: the
    specification, two lists in price-time priority. Order\_Book\_Refine: \<open>add\<close> and \<open>cancel\<close> implement it. Locale
    \<open>limit_book\<close>, interpreted as \<open>me_book\<close>, is the contract the engine uses. Order\_Book\_Props: priority, conservation,
    uncrossed and ordered books.
  \<^item> Matching\_Engine: matching\_engine.h and the dispatch of requests to the books.
  \<^item> FIFO\_Sequencer, Order\_Server: fifo\_sequencer.h and order\_server.
  \<^item> Market\_View, Market\_Data\_Publisher, Snapshot\_Synthesizer: the orders that a list of updates leaves;
    market\_data\_publisher and snapshot\_synthesizer.

  \<^bold>\<open>The trading client.\<close>
  \<^item> Market\_Data\_Consumer, Market\_Data\_Recovery, Market\_Data\_Props: market\_data\_consumer with gap detection and
    recovery; a recovery over the rounds of its thread, whatever datagrams the reads hand over; the path of the market
    data from the publisher to the consumer.
  \<^item> Market\_Order\_Book, Market\_Book\_Embed, Market\_Book\_Mirror, Market\_Book\_Props: market\_order\_book and
    market\_order. The book's pointers are those of the exchange's book, so \<open>embed\<close> carries the lemmas over; the mirror
    theorem; the best bid and offer.
  \<^item> Order\_Gateway: order\_gateway and both ends of the TCP connection together.
  \<^item> Order\_Manager, Positions, Order\_Session: om\_order, order\_manager; position\_keeper, risk\_manager; the order manager
    and the exchange with messages on the way between them, an inductive step relation.
  \<^item> Trade\_Algorithms, Trade\_Engine, Trade\_Engine\_Props: feature\_engine, market\_maker, liquidity\_taker; trade\_engine.
    Locale \<open>trading_algorithm\<close>, interpreted as \<open>maker\<close> and \<open>taker\<close>, is what the engine needs of an algorithm.
  \<^item> Random\_Client, Reports: the arguments of trading\_main.cpp and its random client, which writes to the request queue
    while the gateway reads it; the texts of limits, positions and
    times, and the stop of the trade engine.

  \<^bold>\<open>Both.\<close>
  \<^item> Book\_Printing: \<open>toString\<close> of both books with its check of the prices, and their destructors.
  \<^item> Market\_Path: from the requests in the exchange's queue to the books of the trading client.
  \<^item> Processes: how exchange\_main.cpp and trading\_main.cpp put the components together, and the path from their start.
\<close>

section \<open>What is shown\<close>

text \<open>
  The properties are marked by their numbers C1, C2, \<dots> in the theories; each follows its statement in words.
  \<^item> Refinement: the pointer book implements price-time priority (C1, C2); the engine implements one such book per
    ticker; the trading side's book, and from the start of the processes the whole market data path, mirrors the public
    part of the exchange's book (C3, C4, and \<open>mirror_follows_book\<close>); the synthesizer shows the live orders.
  \<^item> Invariants over all interleavings: the queue between two threads is first in, first out; one order per ticker and
    side, and the position inside its limit, whatever is on the way between client and exchange.
  \<^item> Round trips and equivalences: messages on the wire, requests and responses over TCP however the stream is cut,
    recovery from lost market data from the gap to the live stream, equal texts of mirrored books, the latency tracker
    linearizable.
  \<^item> Functional behaviour: matching, profit and loss, the two algorithms, the sequencer, logging, the creation of sockets.
  \<^item> Termination: every loop of a thread's round ends and the round returns, for the feeds and requests described.
  \<^item> Errors: which inputs end the process or leave the tables, as theorems about \<open>Inl\<close> results (the random client always
    runs out of queue), and what goes wrong without an error: the first order of a side and orders after a CLEAR that
    do not show, the profit off by uninitialised memory. The code has several such defects; the hypotheses of the other properties say precisely what keeps away from them (a queue that still has
    fresh slots, a pool whose next block is free, order ids inside the tables, orders that do not take the whole other
    side, prices that do not share a level modulo 256).
\<close>

section \<open>Bounds\<close>

text \<open>
  Loops over pointers run with a bound on their rounds: the number of blocks of the pool they walk in (256 levels,
  \<open>2 ^ 20\<close> orders), which is enough because the invariant makes the blocks of a ring distinct; the refinement
  theorems show that the loops end before it. The loop over a queue runs as often as the distance of its positions says.
  The accepting loop and the wait of \<open>stop\<close> have an explicit number of rounds and give no result when it is used up; the
  lemmas \<open>accept_loop_backlog\<close> and \<open>stop_reports\<close> say how many are enough. All other recursions are structural or
  proved to end. Concrete limits in statements are those of the code: 64 MiB socket buffers, 1024 pending requests,
  products of two positions in \<^verbatim>\<open>int\<close> (46340), prices below \<open>2 ^ 30\<close> where sums and products of prices stay in range.
\<close>

section \<open>Not modelled\<close>

text \<open>
  \<^item> thread\_utils.h and perf\_utils.h: threads, their affinity and the time stamp counter. A thread is the function of one
    round of its loop; interleaving is modelled where threads share state (the queue, the latency tracker, client and
    exchange). Accesses are taken as sequentially consistent, so effects of weaker memory orders are not covered.
  \<^item> macros.h: the checks are values of the result type, the branch hints have no meaning in the model.
  \<^item> The shutdown: destructors of components that join threads or release memory, the logger's included, and the wait for
    the signal in exchange\_main.cpp. Log lines of the components other than the latency macros are left out, as they
    change nothing but the log; the logger itself is modelled.
  \<^item> Reading clocks, resolving addresses and formatting doubles: arguments of the definitions.
  \<^item> The build files, scripts, logs and documents of the repository.
\<close>

end
